(* ===== verification/Prelude.thy ===== *)
theory Prelude
  imports "HOL-Library.Word" "HOL-Library.Stream"
begin

text \<open>
  Shared material of the development: the widths of the integer types of
  \<open>common/OpenSandCore.h\<close>, the faults a C++ operation can end in, the big-endian
  accessors of packed headers (the \<open>htons\<close>/\<open>ntohs\<close>/\<open>htonl\<close>/\<open>ntohl\<close> accesses of the
  packet classes), and the draws of \<open>rand()\<close>.
\<close>

section \<open>Integer types\<close>

type_synonym u8 = "8 word"
type_synonym u16 = "16 word"
type_synonym u32 = "32 word"

text \<open>\<open>class Data: public std::basic_string<unsigned char>\<close>\<close>
type_synonym data = "u8 list"

type_synonym tal_id_t = u16
type_synonym qos_t = u8
type_synonym spot_id_t = u8
type_synonym time_sf_t = u16
type_synonym time_ms_t = u32
type_synonym vol_pkt_t = u16
type_synonym vol_bytes_t = u32

text \<open>An object's address: two packets are the same object when their addresses agree.\<close>
type_synonym addr = nat

definition BROADCAST_TAL_ID :: tal_id_t where
  "BROADCAST_TAL_ID = 0x1F"

section \<open>Faults\<close>

text \<open>
  What an operation of the C++ ends in when it does not return: an exception of the standard
  library or undefined behaviour.
\<close>

datatype fault =
    OutOfRange   \<comment> \<open>\<open>std::out_of_range\<close> thrown by \<open>substr\<close>\<close>
  | BadHeader    \<comment> \<open>a header is read past the end of its buffer\<close>
  | EndDeref     \<comment> \<open>the end iterator of a container is dereferenced or erased\<close>
  | NullDeref    \<comment> \<open>a null pointer is dereferenced\<close>
  | DivByZero    \<comment> \<open>an integer division by zero\<close>
  | Unrepresentable   \<comment> \<open>a floating-point value is converted to an integer type that cannot hold it\<close>
  | DoubleFree   \<comment> \<open>an object is deleted twice\<close>
  | NoReturn     \<comment> \<open>a loop still runs when the fuel of the model is spent\<close>

type_synonym 'a res = "fault + 'a"

definition res_bind :: "'a res \<Rightarrow> ('a \<Rightarrow> 'b res) \<Rightarrow> 'b res" where
  "res_bind r f = (case r of Inl e \<Rightarrow> Inl e | Inr x \<Rightarrow> f x)"

lemma res_bind_simps [simp]:
  "res_bind (Inl e) f = Inl e"
  "res_bind (Inr x) f = f x"
  by (simp_all add: res_bind_def)

lemma res_bind_Inr: "res_bind r f = Inr y \<longleftrightarrow> (\<exists>x. r = Inr x \<and> f x = Inr y)"
  by (cases r) auto

lemma res_bind_Inl: "res_bind r f = Inl e \<longleftrightarrow> r = Inl e \<or> (\<exists>x. r = Inr x \<and> f x = Inl e)"
  by (cases r) auto

text \<open>An index check: \<open>at\<close> of a vector or a string.\<close>

definition at_res :: "'a list \<Rightarrow> nat \<Rightarrow> 'a res" where
  "at_res d i = (if i < length d then Inr (d ! i) else Inl OutOfRange)"

lemma at_res_Inr [simp]: "i < length d \<Longrightarrow> at_res d i = Inr (d ! i)"
  by (simp add: at_res_def)

lemma res_bind_assoc: "res_bind (res_bind r f) g = res_bind r (\<lambda>x. res_bind (f x) g)"
  by (cases r) auto

text \<open>A loop over a list whose body may fault.\<close>

fun res_fold :: "('p \<Rightarrow> 's \<Rightarrow> 's res) \<Rightarrow> 'p list \<Rightarrow> 's \<Rightarrow> 's res" where
  "res_fold f [] s = Inr s"
| "res_fold f (x # xs) s = res_bind (f x s) (res_fold f xs)"

lemma res_fold_append: "res_fold f (xs @ ys) s = res_bind (res_fold f xs s) (res_fold f ys)"
  by (induction xs arbitrary: s) (simp_all add: res_bind_def split: sum.splits)

lemma res_fold_pure: "(\<And>x s. x \<in> set xs \<Longrightarrow> f x s = Inr (g x s)) \<Longrightarrow> res_fold f xs s = Inr (fold g xs s)"
  by (induction xs arbitrary: s) simp_all

text \<open>An invariant of the body is one of the loop, and a body that never faults gives such a loop.\<close>

lemma res_fold_inv:
  assumes "\<And>x s. x \<in> set xs \<Longrightarrow> P s \<Longrightarrow> \<exists>s'. f x s = Inr s' \<and> P s'" "P s"
  shows "\<exists>s'. res_fold f xs s = Inr s' \<and> P s'"
  using assms
proof (induction xs arbitrary: s)
  case (Cons x xs)
  obtain t where "f x s = Inr t" "P t" using Cons.prems(1) [of x s] Cons.prems(2) by auto
  then show ?case using Cons.IH [of t] Cons.prems(1) by auto
qed simp

section \<open>Big-endian fields of packed headers\<close>

named_theorems hdr_simps

definition be16 :: "u16 \<Rightarrow> data" where
  "be16 w = [of_nat (unat w div 256), of_nat (unat w mod 256)]"

definition be32 :: "u32 \<Rightarrow> data" where
  "be32 w = [of_nat (unat w div 16777216), of_nat (unat w div 65536 mod 256),
             of_nat (unat w div 256 mod 256), of_nat (unat w mod 256)]"

text \<open>
  \<open>byte_at\<close> reads a byte; \<open>c_str()\<close> is followed by a zero byte, and a read further out is
  undefined: the operations that can reach one check the length and return a fault.
\<close>

definition byte_at :: "data \<Rightarrow> nat \<Rightarrow> u8" where
  "byte_at d i = (if i < length d then d ! i else 0)"

definition rd16 :: "data \<Rightarrow> nat \<Rightarrow> u16" where
  "rd16 d i = of_nat (unat (byte_at d i) * 256 + unat (byte_at d (i + 1)))"

definition rd32 :: "data \<Rightarrow> nat \<Rightarrow> u32" where
  "rd32 d i = of_nat (unat (byte_at d i) * 16777216 + unat (byte_at d (i + 1)) * 65536
                + unat (byte_at d (i + 2)) * 256 + unat (byte_at d (i + 3)))"

text \<open>Overwriting the bytes of a field in place.\<close>

definition put_at :: "data \<Rightarrow> nat \<Rightarrow> data \<Rightarrow> data" where
  "put_at d i bs = take i d @ bs @ drop (i + length bs) d"

lemma length_be16 [simp]: "length (be16 w) = 2"
  by (simp add: be16_def)

lemma length_be32 [simp]: "length (be32 w) = 4"
  by (simp add: be32_def)

lemma length_put_at [simp]: "i + length bs \<le> length d \<Longrightarrow> length (put_at d i bs) = length d"
  by (simp add: put_at_def)

lemma byte_at_put_at_other:
  assumes "i + length bs \<le> length d" "j < i \<or> i + length bs \<le> j"
  shows "byte_at (put_at d i bs) j = byte_at d j"
  using assms by (auto simp: byte_at_def put_at_def nth_append)

lemma byte_at_put_at_in:
  assumes "i + length bs \<le> length d" "k < length bs"
  shows "byte_at (put_at d i bs) (i + k) = bs ! k"
  using assms by (auto simp: byte_at_def put_at_def nth_append)

lemma byte_at_append1 [hdr_simps]: "i < length a \<Longrightarrow> byte_at (a @ b) i = byte_at a i"
  by (simp add: byte_at_def nth_append)

lemma byte_at_append2 [hdr_simps]: "byte_at (a @ b) (length a + i) = byte_at b i"
  by (simp add: byte_at_def nth_append)

lemma byte_at_Cons_0 [hdr_simps]: "byte_at (x # xs) 0 = x"
  by (simp add: byte_at_def)

lemma byte_at_Cons_Suc [hdr_simps]: "byte_at (x # xs) (Suc i) = byte_at xs i"
  by (simp add: byte_at_def)

lemma byte_at_numeral [hdr_simps]: "byte_at (x # xs) (numeral k) = byte_at xs (pred_numeral k)"
  by (simp add: byte_at_def)

lemma rd16_cong:
  "byte_at d i = byte_at e j \<Longrightarrow> byte_at d (i + 1) = byte_at e (j + 1) \<Longrightarrow> rd16 d i = rd16 e j"
  by (simp add: rd16_def)

lemma unat_u8_less: "unat (w :: u8) < 256"
  using unsigned_less [of w] by simp

lemma unat_u16_less: "unat (w :: u16) < 65536"
  using unsigned_less [of w] by simp

lemma unat_u32_less: "unat (w :: u32) < 4294967296"
  using unsigned_less [of w] by simp

lemma u8_of_nat_id: "n < 256 \<Longrightarrow> unat (of_nat n :: u8) = n"
  by (simp add: unat_of_nat)

lemma u16_of_nat_id: "n < 65536 \<Longrightarrow> unat (of_nat n :: u16) = n"
  by (simp add: unat_of_nat)

lemma u32_of_nat_id: "n < 4294967296 \<Longrightarrow> unat (of_nat n :: u32) = n"
  by (simp add: unat_of_nat)

lemma ucast_u8_u16: "(ucast (ucast (w :: u8) :: u16) :: u8) = w"
  by (rule bit_word_eqI) (simp add: bit_simps)

lemma unat_succ_u32:
  assumes "unat (w :: u32) < 4294967295"
  shows "unat (w + 1) = unat w + 1"
proof -
  have "w + 1 = of_nat (unat w + 1)" by simp
  then show ?thesis using assms by (simp only: u32_of_nat_id)
qed

lemma unat_u8_div_mod: "unat (of_nat (n mod 256) :: u8) = n mod 256"
  by (simp add: unat_of_nat)

lemma rd16_be16:
  assumes "byte_at d i = be16 w ! 0" "byte_at d (i + 1) = be16 w ! 1"
  shows "rd16 d i = w"
proof -
  have "unat w div 256 < 256" using unat_u16_less [of w] by simp
  then have "unat (byte_at d i) = unat w div 256" "unat (byte_at d (i + 1)) = unat w mod 256"
    using assms by (simp_all add: be16_def u8_of_nat_id)
  then show ?thesis by (simp add: rd16_def del: of_nat_add of_nat_mult)
qed

lemma rd16_put_at [simp]: "i + 2 \<le> length d \<Longrightarrow> rd16 (put_at d i (be16 w)) i = w"
  by (rule rd16_be16) (use byte_at_put_at_in [of i "be16 w" d 0] byte_at_put_at_in [of i "be16 w" d 1]
      in simp_all)

lemma rd16_put_at_other:
  "i + length bs \<le> length d \<Longrightarrow> j + 2 \<le> i \<or> i + length bs \<le> j \<Longrightarrow> rd16 (put_at d i bs) j = rd16 d j"
  by (rule rd16_cong; rule byte_at_put_at_other) auto

lemma unat_be32:
  "unat (be32 w ! 0) = unat w div 16777216"
  "unat (be32 w ! 1) = unat w div 65536 mod 256"
  "unat (be32 w ! 2) = unat w div 256 mod 256"
  "unat (be32 w ! 3) = unat w mod 256"
  using unat_u32_less [of w] by (simp_all add: be32_def u8_of_nat_id)

lemma split_base256:
  "(n::nat) div 16777216 * 16777216 + n div 65536 mod 256 * 65536
    + n div 256 mod 256 * 256 + n mod 256 = n"
proof -
  have d: "n div 65536 = n div 256 div 256" "n div 16777216 = n div 256 div 256 div 256"
    by (simp_all add: div_mult2_eq [symmetric])
  have "n = n div 256 * 256 + n mod 256"
    "n div 256 = n div 256 div 256 * 256 + n div 256 mod 256"
    "n div 256 div 256 = n div 256 div 256 div 256 * 256 + n div 256 div 256 mod 256"
    by simp_all
  then show ?thesis unfolding d by linarith
qed

lemma rd32_be32:
  assumes "\<And>k. k < 4 \<Longrightarrow> byte_at d (i + k) = be32 w ! k"
  shows "rd32 d i = w"
proof -
  have "byte_at d i = be32 w ! 0" "byte_at d (i + 1) = be32 w ! 1"
    "byte_at d (i + 2) = be32 w ! 2" "byte_at d (i + 3) = be32 w ! 3"
    using assms [of 0] assms [of 1] assms [of 2] assms [of 3] by simp_all
  then have "rd32 d i = of_nat (unat w)"
    unfolding rd32_def by (simp only: unat_be32 split_base256)
  then show ?thesis by simp
qed

section \<open>Draws of rand()\<close>

text \<open>
  The values \<open>rand()\<close> returns are an input of the model: a stream of naturals, at most
  \<open>RAND_MAX\<close> each. \<open>(rand() / (double)RAND_MAX) * k\<close>, truncated to an integer, is
  \<open>r * k div RAND_MAX\<close> for \<open>k < 2 ^ 20\<close>: \<open>RAND_MAX = 2 ^ 31 - 1\<close> is prime, so the exact
  product is an integer only for \<open>r = 0\<close> and \<open>r = RAND_MAX\<close> (both computed exactly) and is
  otherwise at least \<open>1 / RAND_MAX\<close> away from one, far above the rounding error of the two
  double operations.
\<close>

definition RAND_MAX :: nat where
  "RAND_MAX = 2147483647"

definition scaled :: "nat \<Rightarrow> nat \<Rightarrow> nat" where
  "scaled r k = r * k div RAND_MAX"

lemma scaled_le: "r \<le> RAND_MAX \<Longrightarrow> scaled r k \<le> k"
proof -
  assume "r \<le> RAND_MAX"
  then have "r * k div RAND_MAX \<le> RAND_MAX * k div RAND_MAX"
    by (intro div_le_mono mult_le_mono1)
  then show ?thesis by (simp add: scaled_def RAND_MAX_def)
qed

lemma scaled_less: "r < RAND_MAX \<Longrightarrow> 0 < k \<Longrightarrow> scaled r k < k"
  by (simp add: scaled_def less_mult_imp_div_less RAND_MAX_def)

lemma scaled_max: "scaled RAND_MAX k = k"
  by (simp add: scaled_def RAND_MAX_def)

lemma scaled_0 [simp]: "scaled 0 k = 0" "scaled r 0 = 0"
  by (simp_all add: scaled_def)

end
