(* ===== verification/NetData.thy ===== *)
theory NetData
  imports Prelude
begin

text \<open>
  The byte containers of \<open>common/NetContainer.cpp\<close> and \<open>common/NetPacket.cpp\<close>: the fields of
  the two classes, the constructors and the accessors. \<open>substr\<close> throws
  \<open>std::out_of_range\<close> when its position is past the end and clips its length;
  lengths are \<open>size_t\<close>, so a difference wraps at \<open>2 ^ 64\<close>.
\<close>

section \<open>Lengths and substrings\<close>

definition size_sub :: "nat \<Rightarrow> nat \<Rightarrow> nat" where
  "size_sub a b = (if b \<le> a then a - b else 2 ^ 64 + a - b)"

lemma size_sub_le [simp]: "b \<le> a \<Longrightarrow> size_sub a b = a - b"
  by (simp add: size_sub_def)

definition substr :: "data \<Rightarrow> nat \<Rightarrow> nat \<Rightarrow> data res" where
  "substr d pos n = (if length d < pos then Inl OutOfRange else Inr (take n (drop pos d)))"

lemma substr_Inr: "substr d pos n = Inr e \<longleftrightarrow> pos \<le> length d \<and> e = take n (drop pos d)"
  by (auto simp: substr_def)

section \<open>Network packets\<close>

record net_packet =
  np_data :: data
  np_name :: string
  np_header_length :: nat
  np_trailer_length :: nat
  np_spot :: spot_id_t
  np_type :: u16
  np_qos :: u8
  np_src_tal_id :: u8
  np_dst_tal_id :: u8

definition NET_PROTO_ERROR :: u16 where
  "NET_PROTO_ERROR = 0"

text \<open>\<open>NetPacket(data)\<close> and \<open>NetPacket(data, length)\<close>.\<close>

definition new_net_packet :: "data \<Rightarrow> net_packet" where
  "new_net_packet d =
     \<lparr>np_data = d, np_name = ''NetPacket'', np_header_length = 0, np_trailer_length = 0,
      np_spot = 255, np_type = NET_PROTO_ERROR, np_qos = 0, np_src_tal_id = 0, np_dst_tal_id = 0\<rparr>"

definition new_net_packet_len :: "data \<Rightarrow> nat \<Rightarrow> net_packet" where
  "new_net_packet_len d len = new_net_packet (take len d)"

definition full_net_packet ::
    "data \<Rightarrow> nat \<Rightarrow> string \<Rightarrow> u16 \<Rightarrow> u8 \<Rightarrow> u8 \<Rightarrow> u8 \<Rightarrow> nat \<Rightarrow> net_packet" where
  "full_net_packet d len name ty qos src dst hlen =
     (new_net_packet (take len d))\<lparr>np_name := name, np_type := ty, np_qos := qos,
        np_src_tal_id := src, np_dst_tal_id := dst, np_header_length := hlen\<rparr>"

definition nc_getTotalLength :: "'a net_packet_scheme \<Rightarrow> nat" where
  "nc_getTotalLength p = length (np_data p)"

definition nc_getData_from :: "'a net_packet_scheme \<Rightarrow> nat \<Rightarrow> data res" where
  "nc_getData_from p pos = substr (np_data p) pos (size_sub (nc_getTotalLength p) pos)"

definition nc_getPayloadLength :: "'a net_packet_scheme \<Rightarrow> nat" where
  "nc_getPayloadLength p =
     size_sub (size_sub (nc_getTotalLength p) (np_header_length p)) (np_trailer_length p)"

definition nc_getPayload :: "'a net_packet_scheme \<Rightarrow> data res" where
  "nc_getPayload p = substr (np_data p) (np_header_length p) (nc_getPayloadLength p)"

definition nc_getPayload_from :: "'a net_packet_scheme \<Rightarrow> nat \<Rightarrow> data res" where
  "nc_getPayload_from p pos =
     substr (np_data p) (np_header_length p + pos) (nc_getPayloadLength p)"

text \<open>The terminal identifiers of a packet are 8 bits wide: a \<open>tal_id_t\<close> argument is truncated.\<close>

definition np_setSrcTalId :: "tal_id_t \<Rightarrow> 'a net_packet_scheme \<Rightarrow> 'a net_packet_scheme" where
  "np_setSrcTalId t p = p\<lparr>np_src_tal_id := ucast t\<rparr>"

definition np_setDstTalId :: "tal_id_t \<Rightarrow> 'a net_packet_scheme \<Rightarrow> 'a net_packet_scheme" where
  "np_setDstTalId t p = p\<lparr>np_dst_tal_id := ucast t\<rparr>"

definition np_getSrcTalId :: "'a net_packet_scheme \<Rightarrow> tal_id_t" where
  "np_getSrcTalId p = ucast (np_src_tal_id p)"

lemma nc_getPayload_split:
  assumes "np_header_length p + np_trailer_length p \<le> length (np_data p)"
  shows "nc_getPayload p = Inr (take (length (np_data p) - np_header_length p - np_trailer_length p)
           (drop (np_header_length p) (np_data p)))"
  using assms by (simp add: nc_getPayload_def substr_def nc_getPayloadLength_def nc_getTotalLength_def)

lemma nc_getData_from_split:
  "pos \<le> length (np_data p) \<Longrightarrow> nc_getData_from p pos = Inr (drop pos (np_data p))"
  by (simp add: nc_getData_from_def substr_def nc_getTotalLength_def)

end
