(* ===== verification/SalohaPacket.thy ===== *)
theory SalohaPacket
  imports NetData
begin

text \<open>
  The Slotted Aloha data packets (\<open>dvb/utils/SlottedAlohaPacketData.cpp\<close>): the packed header
  \<open>saloha_data_hdr_t\<close> in front of the replicas and the payload, its constructors and accessors on
  the bytes of the packet. Offsets of the header: \<open>id\<close> 0, \<open>ts\<close> 4, \<open>seq\<close> 6, \<open>pdu_nb\<close> 8,
  \<open>nb_replicas\<close> 10, \<open>qos\<close> 12, \<open>total_length\<close> 13, \<open>replicas\<close> 15.
\<close>

section \<open>Packets\<close>

record sa_packet = net_packet +
  sp_addr :: addr          \<comment> \<open>the object's identity\<close>
  sp_timeout :: time_sf_t
  sp_nb_retrans :: u16

definition saloha_hdr_len :: nat where
  "saloha_hdr_len = 15"

definition sa_getId :: "sa_packet \<Rightarrow> u32" where
  "sa_getId p = rd32 (np_data p) 0"

definition sa_getTs :: "sa_packet \<Rightarrow> u16" where
  "sa_getTs p = rd16 (np_data p) 4"

definition sa_getSeq :: "sa_packet \<Rightarrow> u16" where
  "sa_getSeq p = rd16 (np_data p) 6"

definition sa_getPduNb :: "sa_packet \<Rightarrow> u16" where
  "sa_getPduNb p = rd16 (np_data p) 8"

definition sa_getNbReplicas :: "sa_packet \<Rightarrow> u16" where
  "sa_getNbReplicas p = rd16 (np_data p) 10"

definition sa_getQos :: "sa_packet \<Rightarrow> u8" where
  "sa_getQos p = byte_at (np_data p) 12"

definition sa_getReplicasLength :: "sa_packet \<Rightarrow> nat" where
  "sa_getReplicasLength p = unat (sa_getNbReplicas p) * 2"

definition sa_getReplica :: "sa_packet \<Rightarrow> u16 \<Rightarrow> u16" where
  "sa_getReplica p pos =
     (if sa_getNbReplicas p < pos then 0
      else rd16 (np_data p) (saloha_hdr_len + 2 * unat pos))"

definition sa_getPacketLength :: "data \<Rightarrow> u16 res" where
  "sa_getPacketLength d = (if length d < saloha_hdr_len then Inl BadHeader else Inr (rd16 d 13))"

definition sa_getTotalLength :: "sa_packet \<Rightarrow> nat" where
  "sa_getTotalLength p = unat (rd16 (np_data p) 13)"

definition sa_getPayloadLength :: "sa_packet \<Rightarrow> nat" where
  "sa_getPayloadLength p =
     size_sub (size_sub (sa_getTotalLength p) saloha_hdr_len) (sa_getReplicasLength p)"

definition sa_getPayload :: "sa_packet \<Rightarrow> data res" where
  "sa_getPayload p =
     substr (np_data p) (saloha_hdr_len + sa_getReplicasLength p) (sa_getPayloadLength p)"

definition sa_setTs :: "u16 \<Rightarrow> sa_packet \<Rightarrow> sa_packet" where
  "sa_setTs ts p = p\<lparr>np_data := put_at (np_data p) 4 (be16 ts)\<rparr>"

definition sa_setQos :: "qos_t \<Rightarrow> sa_packet \<Rightarrow> sa_packet" where
  "sa_setQos q p = p\<lparr>np_qos := q, np_data := put_at (np_data p) 12 [q]\<rparr>"

text \<open>
  \<open>setReplicas\<close>: the space of the replicas grows or shrinks at \<open>header_length\<close>, then the number
  and, when an array is given, the replicas themselves are written behind the header. The
  shrinking branch erases \<open>diff * sizeof(uint16_t)\<close> bytes where \<open>diff\<close> is already in bytes.
\<close>

definition sa_resize :: "nat \<Rightarrow> sa_packet \<Rightarrow> data res" where
  "sa_resize nb p =
     (let d = np_data p; n = unat (sa_getNbReplicas p); h = np_header_length p
      in if length d < h \<and> n \<noteq> nb then Inl OutOfRange
         else if n < nb then Inr (take h d @ replicate ((nb - n) * 2) 0 @ drop h d)
         else if nb < n then Inr (take h d @ drop (h + (n - nb) * 2 * 2) d)
         else Inr d)"

fun put_replicas :: "data \<Rightarrow> nat \<Rightarrow> u16 list \<Rightarrow> data" where
  "put_replicas d i [] = d"
| "put_replicas d i (r # rs) = put_replicas (put_at d i (be16 r)) (i + 2) rs"

definition sa_setReplicas :: "u16 list option \<Rightarrow> nat \<Rightarrow> sa_packet \<Rightarrow> sa_packet res" where
  "sa_setReplicas reps nb p =
     (if length (np_data p) < saloha_hdr_len then Inl BadHeader
      else res_bind (sa_resize nb p) (\<lambda>d.
        if length d < saloha_hdr_len then Inl BadHeader
        else let d' = put_at d 10 (be16 (of_nat nb))
        in (case reps of None \<Rightarrow> Inr (p\<lparr>np_data := d'\<rparr>)
            | Some rs \<Rightarrow>
                if length d' < saloha_hdr_len + 2 * nb then Inl BadHeader
                else Inr (p\<lparr>np_data := put_replicas d' saloha_hdr_len (take nb rs)\<rparr>))))"

text \<open>
  The constructor from a payload. The temporary header leaves \<open>qos\<close> uninitialised (\<open>junk\<close>)
  until \<open>setQos\<close>; \<open>total_length\<close> is written last.
\<close>

definition new_sa_packet ::
    "addr \<Rightarrow> u8 \<Rightarrow> data \<Rightarrow> u32 \<Rightarrow> u16 \<Rightarrow> u16 \<Rightarrow> u16 \<Rightarrow> u16 \<Rightarrow> time_sf_t \<Rightarrow> sa_packet res" where
  "new_sa_packet a junk d pid ts seq pdu_nb nb_replicas timeout =
     (let hdr = be32 pid @ be16 ts @ be16 seq @ be16 pdu_nb @ be16 0 @ [junk] @ [0, 0];
          p = net_packet.extend ((new_net_packet (hdr @ d))
                 \<lparr>np_name := ''Slotted Aloha data'', np_header_length := saloha_hdr_len\<rparr>)
               (sa_packet.fields a timeout 0)
      in res_bind (sa_setReplicas None (unat nb_replicas) p) (\<lambda>q.
        Inr (q\<lparr>np_header_length := saloha_hdr_len + unat nb_replicas * 2,
               np_data := put_at (np_data q) 13 (be16 (of_nat (length (np_data q))))\<rparr>)))"

text \<open>The constructor from received bytes; the timeout fields stay uninitialised (\<open>junk\<close>).\<close>

definition sa_of_data :: "addr \<Rightarrow> u16 \<times> u16 \<Rightarrow> data \<Rightarrow> nat \<Rightarrow> sa_packet" where
  "sa_of_data a junk d len =
     net_packet.extend ((new_net_packet_len d len)
        \<lparr>np_name := ''Slotted Aloha data'', np_header_length := saloha_hdr_len\<rparr>)
       (sa_packet.fields a (fst junk) (snd junk))"

definition sa_isTimeout :: "sa_packet \<Rightarrow> bool" where
  "sa_isTimeout p \<longleftrightarrow> sp_timeout p \<le> 0"

definition sa_setTimeout :: "time_sf_t \<Rightarrow> sa_packet \<Rightarrow> sa_packet" where
  "sa_setTimeout t p = p\<lparr>sp_timeout := t\<rparr>"

definition sa_decTimeout :: "sa_packet \<Rightarrow> sa_packet" where
  "sa_decTimeout p = p\<lparr>sp_timeout := word_of_int (max (uint (sp_timeout p) - 1) 0)\<rparr>"

definition sa_canBeRetransmitted :: "u16 \<Rightarrow> sa_packet \<Rightarrow> bool" where
  "sa_canBeRetransmitted mx p \<longleftrightarrow> sp_nb_retrans p < mx"

definition sa_incNbRetransmissions :: "sa_packet \<Rightarrow> sa_packet" where
  "sa_incNbRetransmissions p = p\<lparr>sp_nb_retrans := sp_nb_retrans p + 1\<rparr>"

section \<open>Layout lemmas\<close>

definition sa_wf :: "sa_packet \<Rightarrow> bool" where
  "sa_wf p \<longleftrightarrow> saloha_hdr_len + sa_getReplicasLength p \<le> length (np_data p)
     \<and> sa_getTotalLength p = length (np_data p)"

definition sa_hdr :: "u8 \<Rightarrow> u32 \<Rightarrow> u16 \<Rightarrow> u16 \<Rightarrow> u16 \<Rightarrow> u16 \<Rightarrow> u16 \<Rightarrow> data" where
  "sa_hdr qos pid ts seq pdu_nb nb len =
     be32 pid @ be16 ts @ be16 seq @ be16 pdu_nb @ be16 nb @ [qos] @ be16 len"

lemma length_sa_hdr [simp]: "length (sa_hdr q pid ts seq pdu nb len) = 15"
  by (simp add: sa_hdr_def)

lemma be16_eq: "be16 w = [be16 w ! 0, be16 w ! 1]"
  by (simp add: be16_def)

lemma be32_eq: "be32 w = [be32 w ! 0, be32 w ! 1, be32 w ! 2, be32 w ! 3]"
  by (simp add: be32_def numeral_2_eq_2 numeral_3_eq_3)

lemma sa_hdr_bytes:
  "byte_at (sa_hdr q pid ts seq pdu nb len @ d) i =
     (if i < 15 then sa_hdr q pid ts seq pdu nb len ! i else byte_at d (i - 15))"
  by (auto simp: byte_at_def nth_append)

lemma sa_hdr_id: "rd32 (sa_hdr q pid ts seq pdu nb len @ d) 0 = pid"
  by (rule rd32_be32) (simp add: byte_at_def sa_hdr_def nth_append)

lemma sa_hdr_fields:
  "rd16 (sa_hdr q pid ts seq pdu nb len @ d) 4 = ts"
  "rd16 (sa_hdr q pid ts seq pdu nb len @ d) 6 = seq"
  "rd16 (sa_hdr q pid ts seq pdu nb len @ d) 8 = pdu"
  "rd16 (sa_hdr q pid ts seq pdu nb len @ d) 10 = nb"
  "rd16 (sa_hdr q pid ts seq pdu nb len @ d) 13 = len"
  by (rule rd16_be16; simp add: byte_at_def sa_hdr_def nth_append)+

lemma sa_hdr_qos: "byte_at (sa_hdr q pid ts seq pdu nb len @ d) 12 = q"
  by (simp add: byte_at_def sa_hdr_def nth_append)

lemma put_at_skip:
  "length a \<le> i \<Longrightarrow> put_at (a @ b) i bs = a @ put_at b (i - length a) bs"
  by (simp add: put_at_def)

lemma put_at_here: "length a = length bs \<Longrightarrow> put_at (a @ b) 0 bs = bs @ b"
  by (simp add: put_at_def)

lemma put_at_Cons:
  "put_at (x # xs) (Suc i) bs = x # put_at xs i bs"
  "put_at (x # xs) 0 [y] = y # xs"
  by (simp_all add: put_at_def)

lemma sa_hdr_set_nb:
  "put_at (sa_hdr q pid ts seq pdu nb len @ d) 10 (be16 nb') = sa_hdr q pid ts seq pdu nb' len @ d"
  by (simp add: sa_hdr_def put_at_skip put_at_here put_at_Cons)

lemma sa_hdr_set_len:
  "put_at (sa_hdr q pid ts seq pdu nb len @ d) 13 (be16 len') = sa_hdr q pid ts seq pdu nb len' @ d"
  by (simp add: sa_hdr_def put_at_skip put_at_here put_at_Cons)

lemma sa_hdr_set_ts:
  "put_at (sa_hdr q pid ts seq pdu nb len @ d) 4 (be16 ts') = sa_hdr q pid ts' seq pdu nb len @ d"
  by (simp add: sa_hdr_def put_at_skip put_at_here put_at_Cons)

lemma sa_hdr_set_qos:
  "put_at (sa_hdr q pid ts seq pdu nb len @ d) 12 [q'] = sa_hdr q' pid ts seq pdu nb len @ d"
  by (simp add: sa_hdr_def put_at_skip put_at_Cons)

lemmas sa_getters = sa_getId_def sa_getTs_def sa_getSeq_def sa_getPduNb_def
  sa_getNbReplicas_def sa_getQos_def sa_getTotalLength_def

lemmas sa_hdr_simps = sa_hdr_id sa_hdr_fields sa_hdr_qos sa_hdr_set_nb sa_hdr_set_len
  sa_hdr_set_ts sa_hdr_set_qos

section \<open>The constructor and the replicas\<close>

lemma new_sa_packet_eq:
  "\<exists>p. new_sa_packet a junk d pid ts seq pdu nb tmo = Inr p
     \<and> np_data p = sa_hdr junk pid ts seq pdu nb (of_nat (15 + 2 * unat nb + length d))
                     @ replicate (2 * unat nb) 0 @ d
     \<and> np_header_length p = 15 + 2 * unat nb \<and> np_trailer_length p = 0
     \<and> sp_addr p = a \<and> sp_timeout p = tmo \<and> sp_nb_retrans p = 0"
proof -
  have hdr: "be32 pid @ be16 ts @ be16 seq @ be16 pdu @ be16 0 @ [junk] @ [0, 0]
      = sa_hdr junk pid ts seq pdu 0 0"
    by (simp add: sa_hdr_def be16_def)
  have nb0: "rd16 (sa_hdr junk pid ts seq pdu 0 0 @ d) 10 = 0" by (rule sa_hdr_fields)
  let ?h = "sa_hdr junk pid ts seq pdu 0 0"
  let ?p = "net_packet.extend ((new_net_packet (?h @ d))
      \<lparr>np_name := ''Slotted Aloha data'', np_header_length := saloha_hdr_len\<rparr>)
      (sa_packet.fields a tmo 0)"
  have dat: "np_data ?p = ?h @ d" and hl: "np_header_length ?p = 15"
    by (simp_all add: net_packet.defs sa_packet.defs new_net_packet_def saloha_hdr_len_def)
  have "sa_resize (unat nb) ?p = Inr (?h @ replicate (2 * unat nb) 0 @ d)"
    unfolding sa_resize_def Let_def dat hl sa_getNbReplicas_def nb0 by (simp add: mult.commute)
  then have "sa_setReplicas None (unat nb) ?p
      = Inr (?p\<lparr>np_data := sa_hdr junk pid ts seq pdu nb 0 @ replicate (2 * unat nb) 0 @ d\<rparr>)"
    unfolding sa_setReplicas_def dat by (simp add: saloha_hdr_len_def Let_def sa_hdr_set_nb)
  then show ?thesis
    unfolding new_sa_packet_def Let_def hdr
    by (simp add: saloha_hdr_len_def sa_hdr_set_len net_packet.defs sa_packet.defs
        new_net_packet_def add.assoc mult.commute)
qed

lemma put_replicas_block:
  "length h = i \<Longrightarrow> length z = 2 * length rs \<Longrightarrow>
    put_replicas (h @ z @ e) i rs = h @ concat (map be16 rs) @ e"
proof (induction rs arbitrary: h i z)
  case (Cons r rs)
  obtain x y z' where z: "z = x # y # z'" "length z' = 2 * length rs"
    using Cons.prems(2) by (cases z; cases "tl z") auto
  have "put_at (h @ z @ e) i (be16 r) = (h @ be16 r) @ z' @ e"
    using Cons.prems(1) z(1) by (simp add: put_at_def)
  then show ?case
    using Cons.IH [of "h @ be16 r" "i + 2" z'] Cons.prems(1) z(2) by simp
qed simp

lemma byte_at_be16s:
  "i < length rs \<Longrightarrow> byte_at (concat (map be16 rs) @ e) (2 * i + k) = be16 (rs ! i) ! k \<or> 2 \<le> k"
proof (induction rs arbitrary: i)
  case (Cons r rs)
  show ?case
  proof (cases i)
    case 0
    then show ?thesis by (auto simp: byte_at_def nth_append)
  next
    case (Suc j)
    then show ?thesis using Cons.IH [of j] Cons.prems
      by (auto simp: byte_at_def nth_append)
  qed
qed simp

lemma rd16_be16s:
  assumes "i < length rs" "length h = n"
  shows "rd16 (h @ concat (map be16 rs) @ e) (n + 2 * i) = rs ! i"
proof (rule rd16_be16)
  show "byte_at (h @ concat (map be16 rs) @ e) (n + 2 * i) = be16 (rs ! i) ! 0"
    using byte_at_be16s [OF assms(1), of e 0] byte_at_append2 [of h _ "2 * i"] assms(2) by simp
  show "byte_at (h @ concat (map be16 rs) @ e) (n + 2 * i + 1) = be16 (rs ! i) ! 1"
    using byte_at_be16s [OF assms(1), of e 1] byte_at_append2 [of h _ "2 * i + 1"] assms(2)
    by (simp add: add.assoc)
qed

text \<open>The shape of a packet the terminal has built: header, replicas, payload.\<close>

definition sa_built :: "sa_packet \<Rightarrow> u8 \<Rightarrow> u32 \<Rightarrow> u16 \<Rightarrow> u16 \<Rightarrow> u16 \<Rightarrow> u16 list \<Rightarrow> data \<Rightarrow> bool" where
  "sa_built p q pid ts seq pdu rs d \<longleftrightarrow>
     15 + 2 * length rs + length d < 65536
     \<and> np_data p = sa_hdr q pid ts seq pdu (of_nat (length rs)) (of_nat (15 + 2 * length rs + length d))
                     @ concat (map be16 rs) @ d"

lemma sa_built_getters:
  assumes "sa_built p q pid ts seq pdu rs d"
  shows "sa_getId p = pid" "sa_getTs p = ts" "sa_getSeq p = seq" "sa_getPduNb p = pdu"
    "sa_getQos p = q" "unat (sa_getNbReplicas p) = length rs"
    "sa_getTotalLength p = length (np_data p)"
    "sa_getPayload p = Inr d"
    "sa_getPacketLength (np_data p @ e) = Inr (of_nat (length (np_data p)))"
proof -
  have l: "length (concat (map be16 rs)) = 2 * length rs" by (induction rs) simp_all
  have nd: "np_data p = sa_hdr q pid ts seq pdu (of_nat (length rs))
      (of_nat (15 + 2 * length rs + length d)) @ concat (map be16 rs) @ d"
    and len: "15 + 2 * length rs + length d < 65536"
    using assms by (simp_all add: sa_built_def)
  show "sa_getId p = pid" "sa_getTs p = ts" "sa_getSeq p = seq" "sa_getPduNb p = pdu"
    "sa_getQos p = q"
    unfolding sa_getters nd by (simp_all only: sa_hdr_simps)
  show n: "unat (sa_getNbReplicas p) = length rs"
    unfolding sa_getters nd sa_hdr_fields using len by (simp add: u16_of_nat_id)
  show t: "sa_getTotalLength p = length (np_data p)"
    unfolding sa_getters nd sa_hdr_fields using len l by (simp add: u16_of_nat_id del: of_nat_add)
  show "sa_getPayload p = Inr d"
    unfolding sa_getPayload_def sa_getPayloadLength_def sa_getReplicasLength_def n t saloha_hdr_len_def
    using l by (simp add: substr_def nd)
  show "sa_getPacketLength (np_data p @ e) = Inr (of_nat (length (np_data p)))"
    unfolding sa_getPacketLength_def nd using l
    by (simp add: saloha_hdr_len_def sa_hdr_fields)
qed

lemma sa_built_setTs: "sa_built p q pid ts seq pdu rs d \<Longrightarrow>
    sa_built (sa_setTs ts' p) q pid ts' seq pdu rs d"
  by (simp add: sa_built_def sa_setTs_def sa_hdr_set_ts)

lemma sa_built_setQos: "sa_built p q pid ts seq pdu rs d \<Longrightarrow>
    sa_built (sa_setQos q' p) q' pid ts seq pdu rs d"
  by (simp add: sa_built_def sa_setQos_def sa_hdr_set_qos)

lemma concat_be16_zeros: "concat (replicate n (be16 0)) = replicate (2 * n) 0"
  by (induction n) (simp_all add: be16_def)

lemma new_sa_packet_built:
  assumes "15 + 2 * unat nb + length d < 65536"
  shows "\<exists>p. new_sa_packet a junk d pid ts seq pdu nb tmo = Inr p
     \<and> sa_built p junk pid ts seq pdu (replicate (unat nb) 0) d
     \<and> np_header_length p = 15 + 2 * unat nb
     \<and> sp_addr p = a \<and> sp_timeout p = tmo \<and> sp_nb_retrans p = 0"
  using new_sa_packet_eq [of a junk d pid ts seq pdu nb tmo] assms
  by (auto simp: sa_built_def concat_be16_zeros)

lemma sa_built_setReplicas:
  assumes "sa_built p q pid ts seq pdu rs d" "length rs' = length rs"
  shows "\<exists>p'. sa_setReplicas (Some rs') (length rs) p = Inr p' \<and> sa_built p' q pid ts seq pdu rs' d
     \<and> p' = p\<lparr>np_data := np_data p'\<rparr>"
proof -
  let ?h = "sa_hdr q pid ts seq pdu (of_nat (length rs)) (of_nat (15 + 2 * length rs + length d))"
  have l: "length (concat (map be16 rs)) = 2 * length rs" by (induction rs) simp_all
  have nd: "np_data p = ?h @ concat (map be16 rs) @ d"
    using assms by (simp add: sa_built_def)
  have "sa_resize (length rs) p = Inr (np_data p)"
    unfolding sa_resize_def Let_def sa_built_getters(6) [OF assms(1)] by simp
  moreover have "put_at (np_data p) 10 (be16 (of_nat (length rs))) = np_data p"
    unfolding nd by (simp only: sa_hdr_set_nb)
  moreover have "put_replicas (np_data p) 15 rs' = ?h @ concat (map be16 rs') @ d"
    unfolding nd using l assms(2) by (intro put_replicas_block) simp_all
  moreover have "15 + 2 * length rs \<le> length (np_data p)" using l by (simp add: nd)
  ultimately show ?thesis
    unfolding sa_setReplicas_def using assms
    by (auto simp: saloha_hdr_len_def Let_def sa_built_def)
qed

section \<open>Properties\<close>

text \<open>
  C20: A data packet built for a payload that fits its 16-bit length field, given a QoS, its time
  slot and its replicas, and parsed again from the bytes that start with it, has the length the
  header announces, the fields it was built with, each replica in its place and the payload
  unchanged.
\<close>

theorem sa_packet_roundtrip:
  assumes "15 + 2 * unat nb + length d < 65536" "length rs = unat nb"
  shows "\<exists>p p' n. new_sa_packet a junk d pid 0 seq pdu nb tmo = Inr p
     \<and> sa_setReplicas (Some rs) (unat nb) (sa_setTs ts (sa_setQos q p)) = Inr p'
     \<and> sa_getPacketLength (np_data p' @ e) = Inr n
     \<and> (let r = sa_of_data b jk (np_data p' @ e) (unat n)
        in sa_getId r = pid \<and> sa_getTs r = ts \<and> sa_getSeq r = seq \<and> sa_getPduNb r = pdu
         \<and> sa_getQos r = q \<and> sa_getNbReplicas r = nb
         \<and> (\<forall>i < unat nb. sa_getReplica r (of_nat i) = rs ! i)
         \<and> sa_getPayload r = Inr d)"
proof -
  obtain p where p: "new_sa_packet a junk d pid 0 seq pdu nb tmo = Inr p"
    "sa_built p junk pid 0 seq pdu (replicate (unat nb) 0) d"
    using new_sa_packet_built [OF assms(1), of a junk pid 0 seq pdu tmo] by auto
  have "sa_built (sa_setTs ts (sa_setQos q p)) q pid ts seq pdu (replicate (unat nb) 0) d"
    by (rule sa_built_setTs [OF sa_built_setQos [OF p(2)]])
  from sa_built_setReplicas [OF this, of rs] assms(2) obtain p' where
    p': "sa_setReplicas (Some rs) (unat nb) (sa_setTs ts (sa_setQos q p)) = Inr p'"
    "sa_built p' q pid ts seq pdu rs d" by auto
  have lrs: "length (concat (map be16 rs)) = 2 * length rs" by (induction rs) simp_all
  have l: "length (np_data p') = 15 + 2 * length rs + length d"
    using p'(2) lrs by (simp add: sa_built_def)
  let ?n = "of_nat (length (np_data p')) :: u16"
  have n: "unat ?n = length (np_data p')" using l assms by (simp add: u16_of_nat_id del: of_nat_add)
  let ?r = "sa_of_data b jk (np_data p' @ e) (unat ?n)"
  have nd: "np_data ?r = np_data p'"
    unfolding n by (simp add: sa_of_data_def new_net_packet_len_def new_net_packet_def
        net_packet.defs sa_packet.defs)
  then have r: "sa_built ?r q pid ts seq pdu rs d" using p'(2) by (simp add: sa_built_def)
  have reps: "sa_getReplica ?r (of_nat i) = rs ! i" if "i < unat nb" for i
  proof -
    have "i < 65536" using that unat_u16_less [of nb] by simp
    then have i: "unat (of_nat i :: u16) = i" by (rule u16_of_nat_id)
    have "\<not> sa_getNbReplicas ?r < of_nat i"
      using sa_built_getters(6) [OF r] that assms(2) i by (simp add: word_less_nat_alt)
    moreover have "rd16 (np_data ?r) (15 + 2 * i) = rs ! i"
      using r that assms(2) by (simp add: sa_built_def rd16_be16s)
    ultimately show ?thesis by (simp add: sa_getReplica_def saloha_hdr_len_def i)
  qed
  have "sa_getNbReplicas ?r = nb"
    using sa_built_getters(6) [OF r] assms(2) by (simp add: word_unat_eq_iff)
  then show ?thesis
    using p(1) p'(1) sa_built_getters [OF r] sa_built_getters(9) [OF p'(2), of e] reps
    by (auto simp: Let_def)
qed

theorem sa_packet_roundtrip_witness:
  "\<exists>p p' n. new_sa_packet 0 9 [1, 2, 3] 70000 0 1 4 2 5 = Inr p
     \<and> sa_setReplicas (Some [6, 300]) (unat (2::u16)) (sa_setTs 6 (sa_setQos 3 p)) = Inr p'
     \<and> sa_getPacketLength (np_data p' @ [7]) = Inr n
     \<and> (let r = sa_of_data 1 (0, 0) (np_data p' @ [7]) (unat n)
        in sa_getId r = 70000 \<and> sa_getTs r = 6 \<and> sa_getSeq r = 1 \<and> sa_getPduNb r = 4
         \<and> sa_getQos r = 3 \<and> sa_getNbReplicas r = 2
         \<and> (\<forall>i < unat (2::u16). sa_getReplica r (of_nat i) = [6, 300] ! i)
         \<and> sa_getPayload r = Inr [1, 2, 3])"
  by (rule sa_packet_roundtrip) simp_all

end
