(* ===== verification/SalohaFrame.thy ===== *)
theory SalohaFrame
  imports SalohaPacket
begin

text \<open>
  The Slotted Aloha frames and control packets: \<open>dvb/utils/DvbFrame.h\<close> (the template's fields and
  header accessors), \<open>dvb/utils/SlottedAlohaFrame.cpp\<close> and \<open>dvb/utils/SlottedAlohaPacketCtrl.cpp\<close>.
  Offsets of \<open>T_DVB_SALOHA\<close>: \<open>msg_length\<close> 0, \<open>msg_type\<close> (low 7 bits) and \<open>corrupted\<close> (high bit) 2,
  \<open>data_length\<close> 3. Offsets of \<open>saloha_ctrl_hdr_t\<close>: \<open>type\<close> 0, \<open>total_length\<close> 1, \<open>tal_id\<close> 3.
  The locale \<open>framed\<close> is what a receiver relies on to cut a frame into packets.
\<close>

section \<open>DVB frames\<close>

definition MSG_SALOHA_SIZE_MAX :: nat where
  "MSG_SALOHA_SIZE_MAX = 1200 + 4"

definition MSG_TYPE_SALOHA_DATA :: u8 where "MSG_TYPE_SALOHA_DATA = 14"
definition MSG_TYPE_SALOHA_CTRL :: u8 where "MSG_TYPE_SALOHA_CTRL = 15"

definition sizeof_DVB_FRAME :: nat where "sizeof_DVB_FRAME = 3"
definition sizeof_DVB_SALOHA :: nat where "sizeof_DVB_SALOHA = 5"

record dvb_frame =
  df_data :: data
  df_name :: string
  df_header_length :: nat
  df_trailer_length :: nat
  df_spot :: spot_id_t
  df_max_size :: nat
  df_num_packets :: u16
  df_carrier_id :: u8

definition df_getTotalLength :: "dvb_frame \<Rightarrow> nat" where
  "df_getTotalLength f = length (df_data f)"

definition df_getMessageLength :: "dvb_frame \<Rightarrow> u16" where
  "df_getMessageLength f = rd16 (df_data f) 0"

definition df_setMessageLength :: "u16 \<Rightarrow> dvb_frame \<Rightarrow> dvb_frame" where
  "df_setMessageLength l f = f\<lparr>df_data := put_at (df_data f) 0 (be16 l)\<rparr>"

text \<open>The two bit fields share a byte: writing one keeps the other.\<close>

definition df_getMessageType :: "dvb_frame \<Rightarrow> u8" where
  "df_getMessageType f = of_nat (unat (byte_at (df_data f) 2) mod 128)"

definition df_setMessageType :: "u8 \<Rightarrow> dvb_frame \<Rightarrow> dvb_frame" where
  "df_setMessageType t f = f\<lparr>df_data := put_at (df_data f) 2
     [of_nat (unat (byte_at (df_data f) 2) div 128 * 128 + unat t mod 128)]\<rparr>"

definition df_isCorrupted :: "dvb_frame \<Rightarrow> bool" where
  "df_isCorrupted f \<longleftrightarrow> unat (byte_at (df_data f) 2) div 128 = 1"

definition df_setCorrupted :: "bool \<Rightarrow> dvb_frame \<Rightarrow> dvb_frame" where
  "df_setCorrupted c f = f\<lparr>df_data := put_at (df_data f) 2
     [of_nat ((if c then 128 else 0) + unat (byte_at (df_data f) 2) mod 128)]\<rparr>"

definition df_setMaxSize :: "nat \<Rightarrow> dvb_frame \<Rightarrow> dvb_frame" where
  "df_setMaxSize n f = f\<lparr>df_max_size := n\<rparr>"

definition df_setSpot :: "spot_id_t \<Rightarrow> dvb_frame \<Rightarrow> dvb_frame" where
  "df_setSpot s f = f\<lparr>df_spot := s\<rparr>"

definition df_getFreeSpace :: "dvb_frame \<Rightarrow> nat" where
  "df_getFreeSpace f = size_sub (df_max_size f) (df_getTotalLength f)"

text \<open>\<open>DvbFrameTpl::addPacket\<close>: \<open>len\<close> is what the packet says of its length, \<open>bs\<close> its bytes.\<close>

definition df_addPacket :: "nat \<Rightarrow> data \<Rightarrow> dvb_frame \<Rightarrow> bool \<times> dvb_frame" where
  "df_addPacket len bs f =
     (if df_getFreeSpace f < len then (False, f)
      else (True, f\<lparr>df_data := df_data f @ bs, df_num_packets := df_num_packets f + 1\<rparr>))"

definition df_getPayload_from :: "dvb_frame \<Rightarrow> nat \<Rightarrow> data res" where
  "df_getPayload_from f pos =
     substr (df_data f) (df_header_length f + pos)
       (size_sub (size_sub (df_getTotalLength f) (df_header_length f)) (df_trailer_length f))"

text \<open>
  A received frame, built by \<open>DvbFrame(data, length)\<close>: whatever lies behind the message length is
  the trailer (the C/N of the physical layer).
\<close>

definition df_of_data :: "data \<Rightarrow> dvb_frame res" where
  "df_of_data d =
     (if length d < 2 then Inl BadHeader
      else Inr \<lparr>df_data = d, df_name = ''DvbFrame'', df_header_length = sizeof_DVB_FRAME,
        df_trailer_length = size_sub (length d) (unat (rd16 d 0)), df_spot = 255,
        df_max_size = sizeof_DVB_FRAME, df_num_packets = 0, df_carrier_id = 255\<rparr>)"

text \<open>\<open>operator SlottedAlohaFrame*\<close>.\<close>

definition df_as_saloha :: "dvb_frame \<Rightarrow> dvb_frame" where
  "df_as_saloha f = f\<lparr>df_header_length := sizeof_DVB_SALOHA\<rparr>"

section \<open>Slotted Aloha frames\<close>

definition saf_getDataLength :: "dvb_frame \<Rightarrow> u16" where
  "saf_getDataLength f = rd16 (df_data f) 3"

definition saf_setDataLength :: "u16 \<Rightarrow> dvb_frame \<Rightarrow> dvb_frame" where
  "saf_setDataLength n f = f\<lparr>df_data := put_at (df_data f) 3 (be16 n)\<rparr>"

definition new_saf :: dvb_frame where
  "new_saf = saf_setDataLength 0 (df_setMessageLength (of_nat sizeof_DVB_SALOHA)
     (df_setMaxSize MSG_SALOHA_SIZE_MAX
       \<lparr>df_data = replicate sizeof_DVB_SALOHA 0, df_name = ''Slotted Aloha frame'',
        df_header_length = sizeof_DVB_SALOHA, df_trailer_length = 0, df_spot = 255,
        df_max_size = sizeof_DVB_SALOHA, df_num_packets = 0, df_carrier_id = 0\<rparr>))"

definition new_saf_ctrl :: dvb_frame where
  "new_saf_ctrl = df_setMessageType MSG_TYPE_SALOHA_CTRL new_saf"

definition new_saf_data :: dvb_frame where
  "new_saf_data = df_setMessageType MSG_TYPE_SALOHA_DATA new_saf"

definition saf_addPacket :: "nat \<Rightarrow> data \<Rightarrow> dvb_frame \<Rightarrow> bool \<times> dvb_frame" where
  "saf_addPacket len bs f =
     (let (is_added, f') = df_addPacket len bs f
      in if is_added
         then (True, saf_setDataLength (df_num_packets f')
                 (df_setMessageLength (of_nat (unat (df_getMessageLength f') + len)) f'))
         else (False, f'))"

definition saf_empty :: "dvb_frame \<Rightarrow> dvb_frame res" where
  "saf_empty f =
     (if length (df_data f) < sizeof_DVB_SALOHA then Inl OutOfRange
      else Inr (saf_setDataLength 0 (df_setMessageLength (of_nat sizeof_DVB_SALOHA)
             (f\<lparr>df_data := take sizeof_DVB_SALOHA (df_data f), df_num_packets := 0\<rparr>))))"

section \<open>Control packets\<close>

definition SALOHA_CTRL_ERR :: u8 where "SALOHA_CTRL_ERR = 0"
definition SALOHA_CTRL_ACK :: u8 where "SALOHA_CTRL_ACK = 1"

definition sizeof_ctrl_hdr :: nat where "sizeof_ctrl_hdr = 5"

definition ctrl_packet :: "data \<Rightarrow> u8 \<Rightarrow> tal_id_t \<Rightarrow> data" where
  "ctrl_packet s ctrl_type tal_id =
     [ctrl_type] @ be16 (of_nat (sizeof_ctrl_hdr + length s)) @ be16 tal_id
       @ s"

definition ctrl_getPacketLength :: "data \<Rightarrow> nat res" where
  "ctrl_getPacketLength d =
     (if length d < sizeof_ctrl_hdr then Inl BadHeader else Inr (unat (rd16 d 1)))"

definition ctrl_getTotalLength :: "data \<Rightarrow> nat" where
  "ctrl_getTotalLength d = unat (rd16 d 1)"

definition ctrl_getCtrlType :: "data \<Rightarrow> u8" where
  "ctrl_getCtrlType d = byte_at d 0"

definition ctrl_getTerminalId :: "data \<Rightarrow> tal_id_t" where
  "ctrl_getTerminalId d = rd16 d 3"

definition ctrl_getId :: "data \<Rightarrow> data res" where
  "ctrl_getId d =
     substr d sizeof_ctrl_hdr (size_sub (ctrl_getTotalLength d) sizeof_ctrl_hdr)"

text \<open>\<open>SlottedAlohaPacketCtrl(payload.c_str(), length)\<close> copies from a raw pointer.\<close>

definition ctrl_of_raw :: "data \<Rightarrow> nat \<Rightarrow> data res" where
  "ctrl_of_raw payload len = (if length payload < len then Inl BadHeader else Inr (take len payload))"

section \<open>Cutting a frame into packets\<close>

text \<open>
  The loop that both \<open>onRcvFrame\<close> run: the bound is \<open>getDataLength()\<close>, \<open>plen\<close> reads the length of
  the packet in front of the payload, \<open>body\<close> handles it.
\<close>

fun frame_loop ::
    "(data \<Rightarrow> nat res) \<Rightarrow> (data \<Rightarrow> nat \<Rightarrow> 's \<Rightarrow> 's res) \<Rightarrow> dvb_frame \<Rightarrow> nat \<Rightarrow> nat \<Rightarrow> 's \<Rightarrow> 's res" where
  "frame_loop plen body f 0 previous_length s = Inr s"
| "frame_loop plen body f (Suc n) previous_length s =
     res_bind (df_getPayload_from f previous_length) (\<lambda>payload.
     res_bind (plen payload) (\<lambda>current_length.
     res_bind (body payload current_length s) (\<lambda>s'.
       frame_loop plen body f n (previous_length + current_length) s')))"

section \<open>The content of a frame under construction\<close>

definition saf_bytes :: "u8 \<Rightarrow> u16 \<Rightarrow> u16 \<Rightarrow> data \<Rightarrow> data" where
  "saf_bytes ty n len d = be16 len @ [ty] @ be16 n @ d"

definition saf_holds :: "u8 \<Rightarrow> data list \<Rightarrow> dvb_frame \<Rightarrow> bool" where
  "saf_holds ty bs f \<longleftrightarrow>
     df_data f = saf_bytes ty (of_nat (length bs)) (of_nat (5 + length (concat bs))) (concat bs)
     \<and> df_num_packets f = of_nat (length bs) \<and> [] \<notin> set bs
     \<and> 5 + length (concat bs) \<le> MSG_SALOHA_SIZE_MAX \<and> df_max_size f = MSG_SALOHA_SIZE_MAX"

lemma saf_bytes_simps:
  "length (saf_bytes ty n len d) = 5 + length d"
  "rd16 (saf_bytes ty n len d) 0 = len"
  "rd16 (saf_bytes ty n len d) 3 = n"
  "byte_at (saf_bytes ty n len d) 2 = ty"
  "put_at (saf_bytes ty n len d) 0 (be16 len') = saf_bytes ty n len' d"
  "put_at (saf_bytes ty n len d) 3 (be16 n') = saf_bytes ty n' len d"
  "put_at (saf_bytes ty n len d) 2 [ty'] = saf_bytes ty' n len d"
  "saf_bytes ty n len d @ e = saf_bytes ty n len (d @ e)"
  "drop 5 (saf_bytes ty n len d) = d"
proof -
  show "rd16 (saf_bytes ty n len d) 0 = len" "rd16 (saf_bytes ty n len d) 3 = n"
    by (rule rd16_be16; simp add: byte_at_def saf_bytes_def nth_append)+
  show "put_at (saf_bytes ty n len d) 0 (be16 len') = saf_bytes ty n len' d"
    by (simp add: saf_bytes_def put_at_def)
qed (simp_all add: saf_bytes_def byte_at_def nth_append put_at_skip put_at_here put_at_Cons)

lemma new_saf_holds:
  "saf_holds 0 [] new_saf"
  "saf_holds MSG_TYPE_SALOHA_DATA [] new_saf_data"
  "saf_holds MSG_TYPE_SALOHA_CTRL [] new_saf_ctrl"
proof -
  have "replicate (Suc (Suc (Suc (Suc (Suc 0))))) 0 = saf_bytes 0 0 0 []"
    by (simp add: saf_bytes_def be16_def)
  then have z: "replicate 5 0 = saf_bytes 0 0 0 []" by (simp only: eval_nat_numeral BitM.simps)
  have d: "df_data new_saf = saf_bytes 0 0 5 []"
    by (simp add: new_saf_def saf_setDataLength_def df_setMessageLength_def df_setMaxSize_def
        sizeof_DVB_SALOHA_def z saf_bytes_simps)
  have o: "df_num_packets new_saf = 0" "df_max_size new_saf = MSG_SALOHA_SIZE_MAX"
    by (simp_all add: new_saf_def saf_setDataLength_def df_setMessageLength_def df_setMaxSize_def)
  show "saf_holds 0 [] new_saf"
    using d o by (simp add: saf_holds_def MSG_SALOHA_SIZE_MAX_def)
  show "saf_holds MSG_TYPE_SALOHA_DATA [] new_saf_data" "saf_holds MSG_TYPE_SALOHA_CTRL [] new_saf_ctrl"
    using d o by (simp_all add: saf_holds_def new_saf_data_def new_saf_ctrl_def df_setMessageType_def
        saf_bytes_simps MSG_TYPE_SALOHA_DATA_def MSG_TYPE_SALOHA_CTRL_def MSG_SALOHA_SIZE_MAX_def)
qed

lemma saf_getDataLength_holds: "saf_holds ty bs f \<Longrightarrow> saf_getDataLength f = of_nat (length bs)"
  by (simp add: saf_holds_def saf_getDataLength_def saf_bytes_simps)

lemma df_getFreeSpace_holds:
  "saf_holds ty bs f \<Longrightarrow> df_getFreeSpace f = MSG_SALOHA_SIZE_MAX - (5 + length (concat bs))"
  by (simp add: saf_holds_def df_getFreeSpace_def df_getTotalLength_def saf_bytes_simps)

lemma saf_addPacket_holds:
  assumes "saf_holds ty bs f" "b \<noteq> []"
  shows "fst (saf_addPacket (length b) b f) \<longleftrightarrow> 5 + length (concat bs) + length b \<le> MSG_SALOHA_SIZE_MAX"
    and "5 + length (concat bs) + length b \<le> MSG_SALOHA_SIZE_MAX \<Longrightarrow>
           saf_holds ty (bs @ [b]) (snd (saf_addPacket (length b) b f))"
    and "\<not> 5 + length (concat bs) + length b \<le> MSG_SALOHA_SIZE_MAX \<Longrightarrow>
           saf_addPacket (length b) b f = (False, f)"
proof -
  note h = assms(1) [unfolded saf_holds_def]
  have fs: "df_getFreeSpace f < length b \<longleftrightarrow> \<not> 5 + length (concat bs) + length b \<le> MSG_SALOHA_SIZE_MAX"
    using df_getFreeSpace_holds [OF assms(1)] h by auto
  show "fst (saf_addPacket (length b) b f) \<longleftrightarrow> 5 + length (concat bs) + length b \<le> MSG_SALOHA_SIZE_MAX"
    using fs by (simp add: saf_addPacket_def df_addPacket_def)
  show "saf_addPacket (length b) b f = (False, f)"
    if "\<not> 5 + length (concat bs) + length b \<le> MSG_SALOHA_SIZE_MAX"
    using fs that by (simp add: saf_addPacket_def df_addPacket_def)
  assume fit: "5 + length (concat bs) + length b \<le> MSG_SALOHA_SIZE_MAX"
  then have "\<not> df_getFreeSpace f < length b" using fs by simp
  moreover have "unat (of_nat (5 + length (concat bs)) :: u16) = 5 + length (concat bs)"
    using h by (intro u16_of_nat_id) (simp add: MSG_SALOHA_SIZE_MAX_def)
  ultimately show "saf_holds ty (bs @ [b]) (snd (saf_addPacket (length b) b f))"
    using h fit assms(2)
    by (simp add: saf_holds_def saf_addPacket_def df_addPacket_def df_getMessageLength_def
        saf_setDataLength_def df_setMessageLength_def saf_bytes_simps add.assoc add.commute add.left_commute
        del: of_nat_add)
qed

text \<open>
  What a receiver makes of the frame, behind it the \<open>phy\<close> trailer of the physical layer.
\<close>

lemma received_holds:
  assumes "saf_holds ty bs f"
  obtains g where "df_of_data (df_data f @ phy) = Inr g"
    and "df_data (df_as_saloha g) = df_data f @ phy"
    and "df_header_length (df_as_saloha g) = 5"
    and "df_trailer_length (df_as_saloha g) = length phy"
proof -
  note h = assms [unfolded saf_holds_def]
  have "unat (of_nat (5 + length (concat bs)) :: u16) = 5 + length (concat bs)"
    using h by (intro u16_of_nat_id) (simp add: MSG_SALOHA_SIZE_MAX_def)
  then show ?thesis
    using h that by (simp add: df_of_data_def saf_bytes_simps df_as_saloha_def sizeof_DVB_SALOHA_def
        del: of_nat_add)
qed

lemma count_le_concat: "[] \<notin> set bs \<Longrightarrow> length bs \<le> length (concat bs)"
proof (induction bs)
  case (Cons b bs)
  then show ?case by (cases b) auto
qed simp

lemma saf_count: "saf_holds ty bs f \<Longrightarrow> unat (of_nat (length bs) :: u16) = length bs"
  using count_le_concat [of bs] by (intro u16_of_nat_id)
    (simp add: saf_holds_def MSG_SALOHA_SIZE_MAX_def)

section \<open>The contract of the receivers\<close>

locale framed =
  fixes plen :: "data \<Rightarrow> nat res"
    and ok :: "data \<Rightarrow> bool"
  assumes plen_ok: "ok b \<Longrightarrow> plen (b @ r) = Inr (length b)"
    and ok_nonempty: "ok b \<Longrightarrow> b \<noteq> []"
begin

lemma frame_loop_fold:
  assumes data: "df_data g = h @ concat bs @ phy" and h: "length h = df_header_length g"
    and tr: "df_trailer_length g = length phy" and ok: "\<And>b. b \<in> set bs \<Longrightarrow> ok b"
    and body: "\<And>b r s. b \<in> set bs \<Longrightarrow> body (take (length (concat bs)) (b @ r)) (length b) s = step b s"
    and split: "bs = pre @ todo"
  shows "frame_loop plen body g (length todo) (length (concat pre)) s = res_fold step todo s"
  using split
proof (induction todo arbitrary: pre s)
  case (Cons b todo)
  have b: "b \<in> set bs" and le: "length b \<le> length (concat bs)" using Cons.prems by auto
  have "df_getPayload_from g (length (concat pre))
      = Inr (take (length (concat bs)) (b @ concat todo @ phy))"
    using data h [symmetric] tr Cons.prems
    by (simp add: df_getPayload_from_def substr_def df_getTotalLength_def)
  moreover have "plen (take (length (concat bs)) (b @ concat todo @ phy)) = Inr (length b)"
    using plen_ok [OF ok [OF b]] le by (simp add: take_append)
  ultimately show ?case
    using body [OF b, of "concat todo @ phy"] Cons.IH [of "pre @ [b]"] Cons.prems
    by (simp add: res_bind_def split: sum.splits)
qed simp

end

definition data_plen :: "data \<Rightarrow> nat res" where
  "data_plen d = res_bind (sa_getPacketLength d) (\<lambda>w. Inr (unat w))"

definition data_ok :: "data \<Rightarrow> bool" where
  "data_ok b \<longleftrightarrow> saloha_hdr_len \<le> length b \<and> unat (rd16 b 13) = length b"

definition ctrl_ok :: "data \<Rightarrow> bool" where
  "ctrl_ok b \<longleftrightarrow> sizeof_ctrl_hdr \<le> length b \<and> unat (rd16 b 1) = length b"

lemma rd16_append1: "i + 1 < length a \<Longrightarrow> rd16 (a @ b) i = rd16 a i"
  by (rule rd16_cong) (simp_all add: byte_at_append1)

interpretation data_framed: framed data_plen data_ok
proof
  show "data_plen (b @ r) = Inr (length b)" if "data_ok b" for b r
    using that by (simp add: data_plen_def data_ok_def sa_getPacketLength_def saloha_hdr_len_def
        rd16_append1)
qed (auto simp: data_ok_def saloha_hdr_len_def)

interpretation ctrl_framed: framed ctrl_getPacketLength ctrl_ok
proof
  show "ctrl_getPacketLength (b @ r) = Inr (length b)" if "ctrl_ok b" for b r
    using that by (simp add: ctrl_ok_def ctrl_getPacketLength_def sizeof_ctrl_hdr_def rd16_append1)
qed (auto simp: ctrl_ok_def sizeof_ctrl_hdr_def)

lemma ctrl_packet_fields:
  assumes "length s < 65531"
  shows "ctrl_ok (ctrl_packet s ty t)" "ctrl_getCtrlType (ctrl_packet s ty t) = ty"
    "ctrl_getTerminalId (ctrl_packet s ty t) = t" "ctrl_getId (ctrl_packet s ty t) = Inr s"
    "length (ctrl_packet s ty t) = 5 + length s"
proof -
  let ?p = "ctrl_packet s ty t"
  show l: "length ?p = 5 + length s" by (simp add: ctrl_packet_def)
  have "rd16 ?p 1 = of_nat (5 + length s)"
    by (rule rd16_be16; simp add: ctrl_packet_def byte_at_def nth_append sizeof_ctrl_hdr_def)
  then have tl: "unat (rd16 ?p 1) = 5 + length s"
    using assms by (simp only: u16_of_nat_id)
  show "ctrl_ok ?p" using l tl by (simp add: ctrl_ok_def sizeof_ctrl_hdr_def)
  show "ctrl_getCtrlType ?p = ty" by (simp add: ctrl_getCtrlType_def ctrl_packet_def byte_at_def)
  show "ctrl_getTerminalId ?p = t"
    unfolding ctrl_getTerminalId_def
    by (rule rd16_be16; simp add: ctrl_packet_def byte_at_def nth_append)
  show "ctrl_getId ?p = Inr s"
    using l tl by (simp add: ctrl_getId_def substr_def ctrl_getTotalLength_def sizeof_ctrl_hdr_def)
      (simp add: ctrl_packet_def be16_def)
qed

section \<open>Properties\<close>

definition saf_fill :: "data list \<Rightarrow> dvb_frame \<Rightarrow> dvb_frame" where
  "saf_fill bs f = fold (\<lambda>b f. snd (saf_addPacket (length b) b f)) bs f"

text \<open>What a frame with \<open>n\<close> free bytes takes of a list of packets: each one that still fits.\<close>

fun fitting :: "nat \<Rightarrow> data list \<Rightarrow> data list" where
  "fitting n [] = []"
| "fitting n (b # bs) = (if length b \<le> n then b # fitting (n - length b) bs else fitting n bs)"

text \<open>A receiver that keeps the packets of a frame in a list.\<close>

definition receive_all :: "(data \<Rightarrow> nat res) \<Rightarrow> data \<Rightarrow> data list res" where
  "receive_all plen d =
     res_bind (df_of_data d) (\<lambda>g.
       frame_loop plen (\<lambda>payload n s. Inr (s @ [take n payload])) (df_as_saloha g)
         (unat (saf_getDataLength g)) 0 [])"

lemma saf_fill_holds:
  "saf_holds ty as f \<Longrightarrow> [] \<notin> set bs \<Longrightarrow>
     saf_holds ty (as @ fitting (MSG_SALOHA_SIZE_MAX - (5 + length (concat as))) bs) (saf_fill bs f)"
proof (induction bs arbitrary: as f)
  case (Cons b bs)
  have b: "b \<noteq> []" using Cons.prems(2) by auto
  have le: "5 + length (concat as) \<le> MSG_SALOHA_SIZE_MAX"
    using Cons.prems(1) by (simp add: saf_holds_def)
  show ?case
  proof (cases "5 + length (concat as) + length b \<le> MSG_SALOHA_SIZE_MAX")
    case True
    have "MSG_SALOHA_SIZE_MAX - (5 + length (concat as)) - length b
        = MSG_SALOHA_SIZE_MAX - (5 + length (concat (as @ [b])))" by simp
    then show ?thesis
      using Cons.IH [OF saf_addPacket_holds(2) [OF Cons.prems(1) b True]] Cons.prems(2) True le
      by (simp add: saf_fill_def) linarith
  next
    case False
    then show ?thesis
      using Cons.IH [OF Cons.prems(1)] Cons.prems(2) le saf_addPacket_holds(3) [OF Cons.prems(1) b False]
      by (simp add: saf_fill_def) linarith
  qed
qed (simp add: saf_fill_def)

lemma set_fitting: "set (fitting n bs) \<subseteq> set bs"
  by (induction n bs rule: fitting.induct) auto

lemma fold_collect: "res_fold (\<lambda>b s. Inr (s @ [b])) bs s = Inr (s @ bs)"
  by (induction bs arbitrary: s) simp_all

lemma collect_body:
  "b \<in> set bs \<Longrightarrow> take (length b) (take (length (concat bs)) (b @ r)) = b"
proof -
  assume "b \<in> set bs"
  then have "length b \<le> length (concat bs)" by (auto dest: split_list)
  then show ?thesis by simp
qed

context framed
begin

lemma receive_all_holds:
  assumes f: "saf_holds ty bs f" and ok: "\<And>b. b \<in> set bs \<Longrightarrow> ok b"
  shows "receive_all plen (df_data f @ phy) = Inr bs"
proof -
  obtain g where g: "df_of_data (df_data f @ phy) = Inr g"
    "df_data (df_as_saloha g) = df_data f @ phy" "df_header_length (df_as_saloha g) = 5"
    "df_trailer_length (df_as_saloha g) = length phy"
    using received_holds [OF f] by blast
  have fd: "df_data f = take 5 (df_data f) @ concat bs" "length (take 5 (df_data f)) = 5"
    using f saf_bytes_simps(9) append_take_drop_id [of 5 "df_data f"]
    by (auto simp: saf_holds_def saf_bytes_simps(1))
  have "saf_getDataLength g = of_nat (length bs)"
    using f g(2) by (simp add: saf_getDataLength_def df_as_saloha_def saf_holds_def saf_bytes_simps)
  then have n: "unat (saf_getDataLength g) = length bs" using saf_count [OF f] by simp
  have "frame_loop plen (\<lambda>payload n s. Inr (s @ [take n payload])) (df_as_saloha g) (length bs)
      (length (concat ([] :: data list))) [] = res_fold (\<lambda>b s. Inr (s @ [b])) bs []"
  proof (rule frame_loop_fold [where h = "take 5 (df_data f)" and bs = bs and phy = phy and pre = "[]"])
    show "df_data (df_as_saloha g) = take 5 (df_data f) @ concat bs @ phy"
      using g(2) fd(1) by simp
    show "Inr (s @ [take (length b) (take (length (concat bs)) (b @ r))]) = Inr (s @ [b])"
      if "b \<in> set bs" for b r s
      using collect_body [OF that] by simp
  qed (use g fd ok in simp_all)
  then show ?thesis using g n by (simp add: receive_all_def fold_collect)
qed

end

text \<open>
  C19: Data frames round trip: whatever packets are offered to a new data frame, the receiver
  cuts its bytes, behind them any trailer of the physical layer, into exactly the packets that
  found room, in order.
\<close>

theorem data_frame_roundtrip:
  assumes "\<forall>b \<in> set bs. data_ok b"
  shows "receive_all data_plen (df_data (saf_fill bs new_saf_data) @ phy) = Inr (fitting 1199 bs)"
proof -
  have ne: "[] \<notin> set bs" using assms by (auto simp: data_ok_def saloha_hdr_len_def)
  have "saf_holds MSG_TYPE_SALOHA_DATA (fitting 1199 bs) (saf_fill bs new_saf_data)"
    using saf_fill_holds [OF new_saf_holds(2) ne] by (simp add: MSG_SALOHA_SIZE_MAX_def)
  then show ?thesis
    using data_framed.receive_all_holds set_fitting [of 1199 bs] assms by blast
qed

theorem data_frame_roundtrip_witness:
  "receive_all data_plen (df_data (saf_fill [sa_hdr 1 2 3 4 5 0 16 @ [9], sa_hdr 0 2 3 4 5 0 15]
      new_saf_data) @ [1, 2, 3, 4])
   = Inr [sa_hdr 1 2 3 4 5 0 16 @ [9], sa_hdr 0 2 3 4 5 0 15]"
proof -
  have "rd16 (sa_hdr 0 2 3 4 5 0 15) 13 = 15"
    using sa_hdr_fields(5) [of 0 2 3 4 5 0 15 "[]"] by simp
  then have "\<forall>b \<in> set [sa_hdr 1 2 3 4 5 0 16 @ [9], sa_hdr 0 2 3 4 5 0 15]. data_ok b"
    by (simp add: data_ok_def saloha_hdr_len_def sa_hdr_fields)
  from data_frame_roundtrip [OF this, of "[1, 2, 3, 4]"] show ?thesis by simp
qed

end
