(* ===== verification/SalohaBackoff.thy ===== *)
theory SalohaBackoff
  imports Prelude
begin

text \<open>
  The back-off of the Slotted Aloha terminal (\<open>dvb/saloha/SlottedAlohaBackoff*.cpp\<close>): the
  common state, \<open>tick\<close>, \<open>randomize\<close> and \<open>isReady\<close>, and the three algorithms BEB, EIED and
  MIMD behind the virtual functions \<open>setReady\<close> and \<open>setCollision\<close>. The draws of \<open>rand()\<close> are
  arguments. The locale \<open>backoff_algo\<close> is the contract of the virtual functions.
\<close>

section \<open>State and operations\<close>

record backoff =
  cw_min :: u16
  cw_max :: u16
  cw :: u16
  bk_backoff :: u16
  bk_multiple :: u16

datatype backoff_kind = Beb | Eied | Mimd

text \<open>
  \<open>(int)a * (int)b\<close> on a 32-bit \<open>int\<close>. A product above \<open>2 ^ 31 - 1\<close> is undefined in C++; the
  model wraps, as the compiled code does, and the properties exclude it.
\<close>

definition int_mul :: "u16 \<Rightarrow> u16 \<Rightarrow> int" where
  "int_mul a b = sint (word_of_int (uint a * uint b) :: u32)"

definition bk_tick :: "backoff \<Rightarrow> backoff" where
  "bk_tick b = b\<lparr>bk_backoff := word_of_int (max (uint (bk_backoff b) - 1) 0)\<rparr>"

definition randomize :: "nat \<Rightarrow> backoff \<Rightarrow> backoff" where
  "randomize r b = b\<lparr>bk_backoff := of_nat (scaled r (unat (cw b)))\<rparr>"

definition isReady :: "backoff \<Rightarrow> bool" where
  "isReady b \<longleftrightarrow> bk_backoff b \<le> 0"

text \<open>The integer part of the square root: \<open>(int)sqrt(multiple)\<close>.\<close>

fun isqrt :: "nat \<Rightarrow> nat" where
  "isqrt 0 = 0"
| "isqrt (Suc n) = (let r = isqrt n in if (r + 1) * (r + 1) \<le> Suc n then r + 1 else r)"

definition beb_setReady :: "nat \<Rightarrow> backoff \<Rightarrow> backoff res" where
  "beb_setReady r b = Inr (randomize r (b\<lparr>cw := cw_min b\<rparr>))"

definition mult_setCollision :: "nat \<Rightarrow> backoff \<Rightarrow> backoff res" where
  "mult_setCollision r b =
     Inr (randomize r (b\<lparr>cw := word_of_int (min (int_mul (cw b) (bk_multiple b)) (uint (cw_max b)))\<rparr>))"

definition beb_setCollision :: "nat \<Rightarrow> backoff \<Rightarrow> backoff res" where
  "beb_setCollision = mult_setCollision"

definition eied_setReady :: "nat \<Rightarrow> backoff \<Rightarrow> backoff res" where
  "eied_setReady r b =
     Inr (randomize r (b\<lparr>cw := word_of_int (min
            (int_mul (cw b) (of_nat (isqrt (unat (bk_multiple b))))) (uint (cw_max b)))\<rparr>))"

definition eied_setCollision :: "nat \<Rightarrow> backoff \<Rightarrow> backoff res" where
  "eied_setCollision = mult_setCollision"

definition mimd_setReady :: "nat \<Rightarrow> backoff \<Rightarrow> backoff res" where
  "mimd_setReady r b =
     (if bk_multiple b = 0 then Inl DivByZero
      else Inr (randomize r (b\<lparr>cw := word_of_int (min
            (uint (cw b) div uint (bk_multiple b)) (uint (cw_max b)))\<rparr>)))"

definition mimd_setCollision :: "nat \<Rightarrow> backoff \<Rightarrow> backoff res" where
  "mimd_setCollision = mult_setCollision"

text \<open>The virtual calls.\<close>

fun setReady :: "backoff_kind \<Rightarrow> nat \<Rightarrow> backoff \<Rightarrow> backoff res" where
  "setReady Beb = beb_setReady"
| "setReady Eied = eied_setReady"
| "setReady Mimd = mimd_setReady"

fun setCollision :: "backoff_kind \<Rightarrow> nat \<Rightarrow> backoff \<Rightarrow> backoff res" where
  "setCollision Beb = beb_setCollision"
| "setCollision Eied = eied_setCollision"
| "setCollision Mimd = mimd_setCollision"

text \<open>The constructors: the base class sets the fields, the derived one calls \<open>setReady\<close>.\<close>

definition backoff_base :: "u16 \<Rightarrow> u16 \<Rightarrow> backoff" where
  "backoff_base mx multiple =
     \<lparr>cw_min = 1, cw_max = mx, cw = 0, bk_backoff = 0, bk_multiple = multiple\<rparr>"

definition new_backoff :: "backoff_kind \<Rightarrow> u16 \<Rightarrow> u16 \<Rightarrow> nat \<Rightarrow> backoff res" where
  "new_backoff kind mx multiple r = setReady kind r (backoff_base mx multiple)"

section \<open>Runs\<close>

datatype bk_event = BkTick | BkReady nat | BkCollision nat

fun bk_run :: "(nat \<Rightarrow> backoff \<Rightarrow> backoff res) \<Rightarrow> (nat \<Rightarrow> backoff \<Rightarrow> backoff res)
    \<Rightarrow> bk_event list \<Rightarrow> backoff \<Rightarrow> backoff res" where
  "bk_run rdy col [] b = Inr b"
| "bk_run rdy col (BkTick # es) b = bk_run rdy col es (bk_tick b)"
| "bk_run rdy col (BkReady r # es) b = res_bind (rdy r b) (bk_run rdy col es)"
| "bk_run rdy col (BkCollision r # es) b = res_bind (col r b) (bk_run rdy col es)"

fun draw_ok :: "bk_event \<Rightarrow> bool" where
  "draw_ok BkTick = True"
| "draw_ok (BkReady r) = (r \<le> RAND_MAX)"
| "draw_ok (BkCollision r) = (r \<le> RAND_MAX)"

text \<open>The configured bounds of a back-off and what every operation keeps of them.\<close>

definition bk_conf_ok :: "backoff \<Rightarrow> bool" where
  "bk_conf_ok b \<longleftrightarrow> cw_min b = 1 \<and> 1 \<le> cw_max b \<and> bk_multiple b \<noteq> 0
     \<and> uint (cw_max b) * uint (bk_multiple b) < 2 ^ 31"

definition bk_ok :: "backoff \<Rightarrow> bool" where
  "bk_ok b \<longleftrightarrow> bk_conf_ok b \<and> cw b \<le> cw_max b \<and> bk_backoff b \<le> cw b"

definition same_conf :: "backoff \<Rightarrow> backoff \<Rightarrow> bool" where
  "same_conf b c \<longleftrightarrow> cw_min c = cw_min b \<and> cw_max c = cw_max b \<and> bk_multiple c = bk_multiple b"

lemma same_conf_refl [simp]: "same_conf b b"
  by (simp add: same_conf_def)

lemma same_conf_trans: "same_conf a b \<Longrightarrow> same_conf b c \<Longrightarrow> same_conf a c"
  by (simp add: same_conf_def)

lemma same_conf_ok: "same_conf b c \<Longrightarrow> bk_conf_ok b \<Longrightarrow> bk_conf_ok c"
  by (simp add: same_conf_def bk_conf_ok_def)

section \<open>The contract of the virtual functions\<close>

locale backoff_algo =
  fixes rdy :: "nat \<Rightarrow> backoff \<Rightarrow> backoff res"
    and col :: "nat \<Rightarrow> backoff \<Rightarrow> backoff res"
  assumes rdy_ok: "bk_ok b \<Longrightarrow> r \<le> RAND_MAX \<Longrightarrow> \<exists>c. rdy r b = Inr c \<and> bk_ok c \<and> same_conf b c"
    and col_ok: "bk_ok b \<Longrightarrow> r \<le> RAND_MAX \<Longrightarrow> \<exists>c. col r b = Inr c \<and> bk_ok c \<and> same_conf b c"
begin

lemma tick_ok: "bk_ok b \<Longrightarrow> bk_ok (bk_tick b) \<and> same_conf b (bk_tick b)"
proof -
  assume ok: "bk_ok b"
  have "uint (bk_backoff (bk_tick b)) = max (uint (bk_backoff b) - 1) 0"
  proof -
    have "max (uint (bk_backoff b) - 1) 0 < 2 ^ 16"
      using uint_lt2p [of "bk_backoff b"] by simp
    then show ?thesis by (simp add: bk_tick_def uint_word_of_int_eq take_bit_int_eq_self)
  qed
  then have "bk_backoff (bk_tick b) \<le> bk_backoff b"
    by (simp add: word_le_def)
  then show ?thesis using ok
    by (auto simp: bk_ok_def bk_conf_ok_def same_conf_def bk_tick_def)
qed

lemma run_ok:
  "bk_ok b \<Longrightarrow> list_all draw_ok es \<Longrightarrow> \<exists>c. bk_run rdy col es b = Inr c \<and> bk_ok c \<and> same_conf b c"
proof (induction es arbitrary: b)
  case Nil
  then show ?case by simp
next
  case (Cons e es)
  have step: "\<exists>c. bk_run rdy col (e # es) b = bk_run rdy col es c \<and> bk_ok c \<and> same_conf b c"
  proof (cases e)
    case BkTick
    then show ?thesis using tick_ok [OF Cons.prems(1)] by auto
  next
    case (BkReady r)
    then show ?thesis using rdy_ok [OF Cons.prems(1), of r] Cons.prems(2) by auto
  next
    case (BkCollision r)
    then show ?thesis using col_ok [OF Cons.prems(1), of r] Cons.prems(2) by auto
  qed
  then obtain c where c: "bk_run rdy col (e # es) b = bk_run rdy col es c" "bk_ok c" "same_conf b c"
    by auto
  then show ?case
    using Cons.IH [OF c(2)] Cons.prems(2) by (auto intro: same_conf_trans)
qed

end

section \<open>The three algorithms keep the contract\<close>

lemma randomize_backoff:
  assumes "r \<le> RAND_MAX"
  shows "bk_backoff (randomize r b) \<le> cw (randomize r b)"
proof -
  have "scaled r (unat (cw b)) \<le> unat (cw b)" by (rule scaled_le [OF assms])
  moreover have "scaled r (unat (cw b)) < 65536"
    using calculation unat_u16_less [of "cw b"] by linarith
  ultimately show ?thesis by (simp add: randomize_def word_le_nat_alt u16_of_nat_id)
qed

lemma int_mul_exact: "uint a * uint b < 2 ^ 31 \<Longrightarrow> int_mul a b = uint a * uint b"
proof -
  assume less: "uint a * uint b < 2 ^ 31"
  have "- (2 ^ 31) \<le> uint a * uint b"
    by (rule order_trans [of _ 0]) simp_all
  then show ?thesis
    unfolding int_mul_def sint_sbintrunc' using less by (simp add: signed_take_bit_int_eq_self)
qed

lemma int_mul_0 [simp]: "int_mul 0 b = 0"
  by (simp add: int_mul_def)

lemma uint_min_cw:
  assumes "0 \<le> x"
  shows "uint (word_of_int (min x (uint (m :: u16))) :: u16) = min x (uint m)"
proof -
  have "min x (uint m) < 2 ^ 16" using uint_lt2p [of m] by simp
  then show ?thesis using assms by (simp add: uint_word_of_int_eq take_bit_int_eq_self)
qed

lemma cw_min_le: "0 \<le> x \<Longrightarrow> (word_of_int (min x (uint (m :: u16))) :: u16) \<le> m"
  by (simp add: word_le_def uint_min_cw)

lemma cw_mul_bound:
  assumes "bk_ok b"
  shows "uint (cw b) * uint (bk_multiple b) < 2 ^ 31"
proof -
  have "uint (cw b) * uint (bk_multiple b) \<le> uint (cw_max b) * uint (bk_multiple b)"
    using assms by (intro mult_right_mono) (auto simp: bk_ok_def word_le_def)
  then show ?thesis using assms by (auto simp: bk_ok_def bk_conf_ok_def)
qed

lemma set_cw_ok:
  assumes "bk_ok b" "r \<le> RAND_MAX" "v \<le> cw_max b"
  shows "bk_ok (randomize r (b\<lparr>cw := v\<rparr>)) \<and> same_conf b (randomize r (b\<lparr>cw := v\<rparr>))"
  using assms randomize_backoff [OF assms(2), of "b\<lparr>cw := v\<rparr>"]
  by (auto simp: bk_ok_def bk_conf_ok_def same_conf_def randomize_def)

lemma mult_setCollision_ok:
  assumes "bk_ok b" "r \<le> RAND_MAX"
  shows "\<exists>c. mult_setCollision r b = Inr c \<and> bk_ok c \<and> same_conf b c"
  unfolding mult_setCollision_def
  using set_cw_ok [OF assms cw_min_le] int_mul_exact [OF cw_mul_bound [OF assms(1)]] by simp

lemma isqrt_bounds: "isqrt n * isqrt n \<le> n \<and> n < (isqrt n + 1) * (isqrt n + 1)"
proof (induction n)
  case (Suc n)
  then show ?case by (auto simp: Let_def)
qed simp

lemma isqrt_le: "isqrt n \<le> n"
  by (induction n) (auto simp: Let_def)

interpretation beb: backoff_algo beb_setReady beb_setCollision
proof
  fix b r assume "bk_ok b" "r \<le> RAND_MAX"
  then show "\<exists>c. beb_setReady r b = Inr c \<and> bk_ok c \<and> same_conf b c"
    using set_cw_ok [of b r "cw_min b"] by (simp add: beb_setReady_def bk_ok_def bk_conf_ok_def)
qed (simp add: beb_setCollision_def mult_setCollision_ok)

interpretation eied: backoff_algo eied_setReady eied_setCollision
proof
  fix b r assume a: "bk_ok b" "r \<le> RAND_MAX"
  have "uint (of_nat (isqrt (unat (bk_multiple b))) :: u16) \<le> uint (bk_multiple b)"
    using isqrt_le [of "unat (bk_multiple b)"] unat_u16_less [of "bk_multiple b"]
    by (simp add: word_less_eq_iff_unsigned [symmetric] word_le_nat_alt u16_of_nat_id flip: word_le_def)
  then have "uint (cw b) * uint (of_nat (isqrt (unat (bk_multiple b))) :: u16)
      \<le> uint (cw b) * uint (bk_multiple b)"
    by (intro mult_left_mono) auto
  then have "0 \<le> int_mul (cw b) (of_nat (isqrt (unat (bk_multiple b))))"
    using cw_mul_bound [OF a(1)] by (subst int_mul_exact) auto
  then show "\<exists>c. eied_setReady r b = Inr c \<and> bk_ok c \<and> same_conf b c"
    unfolding eied_setReady_def using set_cw_ok [OF a cw_min_le] by simp
qed (simp add: eied_setCollision_def mult_setCollision_ok)

interpretation mimd: backoff_algo mimd_setReady mimd_setCollision
proof
  fix b r assume a: "bk_ok b" "r \<le> RAND_MAX"
  have "0 \<le> uint (cw b) div uint (bk_multiple b)"
    by (simp add: pos_imp_zdiv_nonneg_iff div_int_pos_iff)
  then show "\<exists>c. mimd_setReady r b = Inr c \<and> bk_ok c \<and> same_conf b c"
    unfolding mimd_setReady_def using set_cw_ok [OF a cw_min_le] a
    by (simp add: bk_ok_def bk_conf_ok_def)
qed (simp add: mimd_setCollision_def mult_setCollision_ok)

section \<open>Properties\<close>

lemma kind_run_ok:
  assumes "bk_ok b" "list_all draw_ok es"
  shows "\<exists>c. bk_run (setReady k) (setCollision k) es b = Inr c \<and> bk_ok c \<and> same_conf b c"
  using beb.run_ok [OF assms] eied.run_ok [OF assms] mimd.run_ok [OF assms]
  by (cases k) simp_all

lemma backoff_base_ok:
  "1 \<le> mx \<Longrightarrow> m \<noteq> 0 \<Longrightarrow> uint mx * uint m < 2 ^ 31 \<Longrightarrow> bk_ok (backoff_base mx m)"
  by (simp add: bk_ok_def bk_conf_ok_def backoff_base_def)

lemma new_backoff_run:
  "res_bind (new_backoff k mx m r) (bk_run (setReady k) (setCollision k) es)
     = bk_run (setReady k) (setCollision k) (BkReady r # es) (backoff_base mx m)"
  by (simp add: new_backoff_def)

text \<open>
  C27: Whatever the algorithm, a back-off built with a non-zero maximum window and a non-zero multiple whose
  product is below \<open>2 ^ 31\<close> (above, the product of two \<open>int\<close> in \<open>setCollision\<close> may overflow)
  runs through any sequence of ticks, acknowledgements and losses, with draws of at most \<open>RAND_MAX\<close>, without a
  fault: its window never passes the configured maximum and the back-off never passes the window.
\<close>

theorem backoff_bounded:
  assumes "1 \<le> mx" "m \<noteq> 0" "uint mx * uint m < 2 ^ 31"
    and "r \<le> RAND_MAX" "list_all draw_ok es"
  shows "\<exists>c. res_bind (new_backoff k mx m r) (bk_run (setReady k) (setCollision k) es) = Inr c
           \<and> cw c \<le> mx \<and> bk_backoff c \<le> cw c"
  using kind_run_ok [OF backoff_base_ok [OF assms(1-3)], of "BkReady r # es" k] assms(4,5)
  unfolding new_backoff_run by (auto simp: bk_ok_def same_conf_def backoff_base_def)

theorem backoff_bounded_witness:
  "\<exists>c. res_bind (new_backoff Beb 16 2 7) (bk_run (setReady Beb) (setCollision Beb)
        [BkCollision 5, BkTick, BkReady 3]) = Inr c \<and> cw c \<le> 16 \<and> bk_backoff c \<le> cw c"
  by (rule backoff_bounded) (simp_all add: RAND_MAX_def)

lemma unat_set_collision:
  assumes "mult_setCollision r b = Inr c" "bk_ok b"
  shows "unat (cw c) = min (unat (cw b) * unat (bk_multiple b)) (unat (cw_max b))"
proof -
  have "uint (cw c) = min (uint (cw b) * uint (bk_multiple b)) (uint (cw_max b))"
    using assms int_mul_exact [OF cw_mul_bound [OF assms(2)]]
    by (auto simp: mult_setCollision_def randomize_def uint_min_cw)
  then have "int (unat (cw c)) = int (min (unat (cw b) * unat (bk_multiple b)) (unat (cw_max b)))"
    by (simp add: of_nat_min)
  then show ?thesis by (simp only: of_nat_eq_iff)
qed

lemma min_mult_min:
  assumes "1 \<le> (k::nat)"
  shows "min (min x m * k) m = min (x * k) m"
proof (cases "x \<le> m")
  case False
  have "m \<le> m * k" using assms by simp
  also have "\<dots> \<le> x * k" using False by (intro mult_le_mono1) simp
  finally show ?thesis using False \<open>m \<le> m * k\<close> by simp
qed simp

lemma collisions_window:
  assumes "bk_ok b" "list_all (\<lambda>r. r \<le> RAND_MAX) rs"
    and "bk_run rdy mult_setCollision (map BkCollision rs) b = Inr c"
  shows "unat (cw c) = min (unat (cw b) * unat (bk_multiple b) ^ length rs) (unat (cw_max b))"
  using assms
proof (induction rs arbitrary: b)
  case Nil
  then show ?case by (simp add: bk_ok_def word_le_nat_alt)
next
  case (Cons r rs)
  obtain d where d: "mult_setCollision r b = Inr d" "bk_ok d" "same_conf b d"
    using mult_setCollision_ok [of b r] Cons.prems(1,2) by auto
  let ?m = "unat (bk_multiple b)" and ?M = "unat (cw_max b)" and ?w = "unat (cw b)"
  have "1 \<le> ?m" using Cons.prems(1) by (simp add: bk_ok_def bk_conf_ok_def Suc_le_eq unat_gt_0)
  have "unat (cw c) = min (min (?w * ?m) ?M * ?m ^ length rs) ?M"
    using Cons.IH [OF d(2)] Cons.prems d unat_set_collision [OF d(1) Cons.prems(1)]
    by (simp add: same_conf_def)
  also have "\<dots> = min (?w * ?m * ?m ^ length rs) ?M"
    by (rule min_mult_min) (use \<open>1 \<le> ?m\<close> in simp)
  finally show ?case by (simp add: mult.assoc)
qed

text \<open>Binary exponential back-off: after an acknowledgement and \<open>n\<close> losses in a row the
  contention window is \<open>min (multiple ^ n) cw_max\<close>, truncated once, whatever was drawn.
\<close>

theorem beb_window:
  assumes "bk_ok b" "r \<le> RAND_MAX" "list_all (\<lambda>r. r \<le> RAND_MAX) rs"
    and "bk_run (setReady Beb) (setCollision Beb) (BkReady r # map BkCollision rs) b = Inr c"
  shows "unat (cw c) = min (unat (bk_multiple b) ^ length rs) (unat (cw_max b))"
proof -
  obtain d where d: "beb_setReady r b = Inr d" "bk_ok d" "same_conf b d"
    using beb.rdy_ok [OF assms(1,2)] by auto
  have "cw d = 1"
    using d(1) assms(1) by (auto simp: beb_setReady_def randomize_def bk_ok_def bk_conf_ok_def)
  then show ?thesis
    using collisions_window [OF d(2) assms(3), of beb_setReady c] assms(4) d
    by (simp add: beb_setCollision_def same_conf_def)
qed

theorem beb_window_witness:
  "\<exists>c. bk_run (setReady Beb) (setCollision Beb) (BkReady 0 # map BkCollision [4, 8, 9])
         (backoff_base 6 2) = Inr c \<and> unat (cw c) = 6"
proof -
  have ok: "bk_ok (backoff_base 6 2)" by (rule backoff_base_ok) simp_all
  then obtain c where c: "bk_run (setReady Beb) (setCollision Beb) (BkReady 0 # map BkCollision [4, 8, 9])
         (backoff_base 6 2) = Inr c"
    using kind_run_ok [OF ok, of "BkReady 0 # map BkCollision [4, 8, 9]" Beb]
    by (auto simp: RAND_MAX_def)
  have "unat (cw c) = min (unat (bk_multiple (backoff_base 6 2)) ^ length [4::nat, 8, 9])
      (unat (cw_max (backoff_base 6 2)))"
    by (rule beb_window [OF ok _ _ c]) (simp_all add: RAND_MAX_def)
  then show ?thesis using c by (auto simp: backoff_base_def)
qed

lemma tick_unat: "unat (bk_backoff (bk_tick b)) = unat (bk_backoff b) - 1"
proof -
  have "max (uint (bk_backoff b) - 1) 0 < 2 ^ 16"
    using uint_lt2p [of "bk_backoff b"] by simp
  then have "uint (bk_backoff (bk_tick b)) = max (uint (bk_backoff b) - 1) 0"
    by (simp add: bk_tick_def uint_word_of_int_eq take_bit_int_eq_self)
  then have "nat (uint (bk_backoff (bk_tick b))) = nat (uint (bk_backoff b)) - 1"
    by (simp only:)
  then show ?thesis by (simp only: unat_eq_nat_uint)
qed

lemma bk_run_append: "bk_run rdy col (es @ fs) b = res_bind (bk_run rdy col es b) (bk_run rdy col fs)"
  by (induction rdy col es b rule: bk_run.induct) (auto simp: res_bind_def split: sum.splits)

lemma ticks_unat: "bk_run rdy col (replicate n BkTick) b = Inr c \<Longrightarrow>
    unat (bk_backoff c) = unat (bk_backoff b) - n"
  by (induction n arbitrary: b) (auto simp: tick_unat)

text \<open>
  C28: The terminal is never blocked for longer than the configured maximum window: from the constructor, after any
  sequence of ticks, acknowledgements and losses, whatever the algorithm, as many ticks as that maximum make
  the back-off ready (maximum and multiple not zero, their product below \<open>2 ^ 31\<close>, draws of at most
  \<open>RAND_MAX\<close>).
\<close>

theorem backoff_ready_after_ticks:
  assumes "1 \<le> mx" "m \<noteq> 0" "uint mx * uint m < 2 ^ 31"
    and "r \<le> RAND_MAX" "list_all draw_ok es" "unat mx \<le> n"
  shows "\<exists>c. res_bind (new_backoff k mx m r) (bk_run (setReady k) (setCollision k) (es @ replicate n BkTick)) = Inr c
           \<and> isReady c"
proof -
  obtain b where b: "bk_run (setReady k) (setCollision k) (BkReady r # es) (backoff_base mx m) = Inr b"
      "bk_ok b" "same_conf (backoff_base mx m) b"
    using kind_run_ok [OF backoff_base_ok [OF assms(1-3)], of "BkReady r # es" k] assms(4,5) by auto
  have "list_all draw_ok (replicate n BkTick)" by (simp add: list_all_iff)
  from kind_run_ok [OF b(2) this, of k] obtain c
    where c: "bk_run (setReady k) (setCollision k) (replicate n BkTick) b = Inr c" by auto
  have "bk_backoff b \<le> mx"
    using b(2,3) by (auto simp: bk_ok_def same_conf_def backoff_base_def)
  then have "unat (bk_backoff b) \<le> n" using assms(6) by (simp add: word_le_nat_alt)
  then have "unat (bk_backoff c) = 0" using ticks_unat [OF c] by simp
  then have "bk_backoff c = 0" by (rule unat_eq_zero [THEN iffD1])
  then show ?thesis using b(1) c bk_run_append [of "setReady k" "setCollision k" "BkReady r # es"]
    unfolding new_backoff_run by (simp add: isReady_def)
qed

theorem backoff_ready_after_ticks_witness:
  "\<exists>c. res_bind (new_backoff Beb 4 3 2147483647)
         (bk_run (setReady Beb) (setCollision Beb) ([BkCollision 2147483647, BkCollision 2147483647] @ replicate 4 BkTick)) = Inr c
       \<and> isReady c"
  by (rule backoff_ready_after_ticks) (simp_all add: RAND_MAX_def)

lemma zero_window_step:
  assumes "cw b = 0" "bk_backoff b = 0" "k \<noteq> Beb"
  shows "setReady k r b = Inr c \<Longrightarrow> cw c = 0 \<and> bk_backoff c = 0"
    and "setCollision k r b = Inr c \<Longrightarrow> cw c = 0 \<and> bk_backoff c = 0"
  using assms
  by (cases k; auto simp: eied_setReady_def mimd_setReady_def eied_setCollision_def
      mimd_setCollision_def mult_setCollision_def randomize_def split: if_splits)+

lemma zero_window_run:
  assumes "k \<noteq> Beb"
  shows "cw b = 0 \<Longrightarrow> bk_backoff b = 0 \<Longrightarrow> bk_run (setReady k) (setCollision k) es b = Inr c \<Longrightarrow>
    cw c = 0 \<and> bk_backoff c = 0"
proof (induction es arbitrary: b)
  case (Cons e es)
  show ?case
  proof (cases e)
    case BkTick
    then show ?thesis
      using Cons.prems Cons.IH [of "bk_tick b"] tick_unat [of b]
      by (simp add: bk_tick_def)
  next
    case (BkReady r)
    then show ?thesis
      using Cons.prems Cons.IH zero_window_step(1) [OF Cons.prems(1,2) assms]
      by (auto simp: res_bind_Inr)
  next
    case (BkCollision r)
    then show ?thesis
      using Cons.prems Cons.IH zero_window_step(2) [OF Cons.prems(1,2) assms]
      by (auto simp: res_bind_Inr)
  qed
qed simp

text \<open>The EIED and MIMD back-offs never back off. Their constructors call \<open>setReady\<close> on a window
  of 0, every update multiplies or divides that window, so it is 0 after any run and the
  terminal is always ready to transmit again at once.
\<close>

theorem eied_mimd_never_back_off:
  assumes "k \<noteq> Beb" "new_backoff k mx m r = Inr b"
    and "bk_run (setReady k) (setCollision k) es b = Inr c"
  shows "cw c = 0 \<and> isReady c"
  using zero_window_run [OF assms(1), of "backoff_base mx m" "BkReady r # es" c] assms(2,3)
  by (simp add: backoff_base_def new_backoff_def isReady_def)

theorem eied_mimd_never_back_off_witness:
  "\<exists>b c. new_backoff Eied 64 4 9 = Inr b
     \<and> bk_run (setReady Eied) (setCollision Eied) [BkCollision 2147483647] b = Inr c
     \<and> cw c = 0 \<and> isReady c"
proof -
  obtain b where b: "new_backoff Eied 64 4 9 = Inr b"
    by (simp add: new_backoff_def eied_setReady_def)
  obtain c where c: "bk_run (setReady Eied) (setCollision Eied) [BkCollision 2147483647] b = Inr c"
    by (simp add: eied_setCollision_def mult_setCollision_def)
  show ?thesis using b c eied_mimd_never_back_off [OF _ b c] by blast
qed

end
