(* ===== verification/StdMap.thy ===== *)
theory StdMap
  imports Prelude "HOL-Library.Multiset"
begin

text \<open>
  \<open>std::map\<close> as the code uses it: an association list in ascending key order, so that the
  iteration of the C++ (\<open>begin()\<close> to \<open>end()\<close>) is the list's order. \<open>om_put\<close> is
  \<open>m[k] = v\<close>, \<open>om_at\<close> is a read through \<open>m[k]\<close> (which stores the default value when the
  key is absent), \<open>om_erase\<close> is \<open>erase\<close> of a key. The locale \<open>std_map\<close> states the contract the
  client components rest on; the interpretation at the end shows that the sorted list
  keeps it.
\<close>

section \<open>The contract\<close>

locale std_map =
  fixes find :: "'m \<Rightarrow> 'k \<Rightarrow> 'v option"
    and put :: "'k \<Rightarrow> 'v \<Rightarrow> 'm \<Rightarrow> 'm"
    and erase :: "'k \<Rightarrow> 'm \<Rightarrow> 'm"
    and emptym :: "'m"
    and wf :: "'m \<Rightarrow> bool"
  assumes find_empty: "find emptym k = None"
    and find_put: "wf m \<Longrightarrow> find (put k v m) j = (if j = k then Some v else find m j)"
    and find_erase: "wf m \<Longrightarrow> find (erase k m) j = (if j = k then None else find m j)"
    and wf_empty: "wf emptym"
    and wf_put: "wf m \<Longrightarrow> wf (put k v m)"
    and wf_erase: "wf m \<Longrightarrow> wf (erase k m)"
begin

lemma put_all_wf: "wf m \<Longrightarrow> wf (fold (\<lambda>(k, v). put k v) kvs m)"
  by (induction kvs arbitrary: m) (auto simp: wf_put)

lemma put_all_find:
  "wf m \<Longrightarrow> find (fold (\<lambda>(k, v). put k v) kvs m) j
     = (case map_of (rev kvs) j of None \<Rightarrow> find m j | Some v \<Rightarrow> Some v)"
proof (induction kvs arbitrary: m)
  case Nil
  then show ?case by simp
next
  case (Cons kv kvs)
  obtain k v where kv: "kv = (k, v)" by force
  from Cons.prems have w: "wf (put k v m)" by (rule wf_put)
  have "find (fold (\<lambda>(k, v). put k v) (kv # kvs) m) j
      = (case map_of (rev kvs) j of None \<Rightarrow> find (put k v m) j | Some v \<Rightarrow> Some v)"
    using Cons.IH [OF w] kv by simp
  also have "\<dots> = (case map_of (rev (kv # kvs)) j of None \<Rightarrow> find m j | Some v \<Rightarrow> Some v)"
    using Cons.prems kv by (simp add: find_put map_add_def split: option.splits)
  finally show ?case .
qed

lemma erase_put_find: "wf m \<Longrightarrow> find (erase k (put k v m)) j = (if j = k then None else find m j)"
  by (simp add: find_erase find_put wf_put)

lemma put_put_find: "wf m \<Longrightarrow> find (put k v (put k w m)) j = find (put k v m) j"
  by (simp add: find_put wf_put)

end

section \<open>Sorted association lists\<close>

type_synonym ('k, 'v) omap = "('k \<times> 'v) list"

abbreviation om_find :: "('k, 'v) omap \<Rightarrow> 'k \<Rightarrow> 'v option" where
  "om_find \<equiv> map_of"

abbreviation om_keys :: "('k, 'v) omap \<Rightarrow> 'k list" where
  "om_keys m \<equiv> map fst m"

definition om_wf :: "('k::linorder, 'v) omap \<Rightarrow> bool" where
  "om_wf m \<longleftrightarrow> sorted_wrt (<) (om_keys m)"

fun om_put :: "'k::linorder \<Rightarrow> 'v \<Rightarrow> ('k, 'v) omap \<Rightarrow> ('k, 'v) omap" where
  "om_put k v [] = [(k, v)]"
| "om_put k v ((j, w) # m) =
     (if k < j then (k, v) # (j, w) # m
      else if k = j then (k, v) # m
      else (j, w) # om_put k v m)"

fun om_erase :: "'k \<Rightarrow> ('k, 'v) omap \<Rightarrow> ('k, 'v) omap" where
  "om_erase k [] = []"
| "om_erase k ((j, w) # m) = (if k = j then m else (j, w) # om_erase k m)"

definition om_at :: "'v \<Rightarrow> ('k::linorder, 'v) omap \<Rightarrow> 'k \<Rightarrow> 'v \<times> ('k, 'v) omap" where
  "om_at d m k = (case om_find m k of Some v \<Rightarrow> (v, m) | None \<Rightarrow> (d, om_put k d m))"

lemma om_wf_Nil [simp]: "om_wf []"
  by (simp add: om_wf_def)

lemma om_wf_Cons: "om_wf ((k, v) # m) \<longleftrightarrow> (\<forall>j \<in> fst ` set m. k < j) \<and> om_wf m"
  by (auto simp: om_wf_def)

lemma om_wf_distinct: "om_wf m \<Longrightarrow> distinct (om_keys m)"
  by (auto simp: om_wf_def strict_sorted_iff)

lemma fst_set_om_put: "fst ` set (om_put k v m) = insert k (fst ` set m)"
  by (induction k v m rule: om_put.induct) auto

lemma om_find_put [simp]: "om_find (om_put k v m) = (om_find m)(k \<mapsto> v)"
  by (induction k v m rule: om_put.induct) (auto simp: fun_eq_iff)

lemma om_wf_put [simp]: "om_wf m \<Longrightarrow> om_wf (om_put k v m)"
  by (induction k v m rule: om_put.induct) (auto simp: om_wf_Cons fst_set_om_put)

lemma set_om_erase: "set (om_erase k m) \<subseteq> set m"
  by (induction k m rule: om_erase.induct) auto

lemma om_wf_erase [simp]: "om_wf m \<Longrightarrow> om_wf (om_erase k m)"
proof (induction k m rule: om_erase.induct)
  case (2 k j w m)
  then show ?case using set_om_erase [of k m] by (auto simp: om_wf_Cons)
qed simp

lemma om_find_notin: "k \<notin> fst ` set m \<Longrightarrow> om_find m k = None"
  by (simp add: map_of_eq_None_iff)

lemma om_find_erase: "om_wf m \<Longrightarrow> om_find (om_erase k m) j = (if j = k then None else om_find m j)"
proof (induction k m rule: om_erase.induct)
  case (2 k i w m)
  then show ?case by (auto simp: om_wf_Cons intro: om_find_notin)
qed simp

lemma om_find_in: "om_find m k = Some v \<Longrightarrow> (k, v) \<in> set m"
  by (rule map_of_SomeD)

lemma om_in_find: "om_wf m \<Longrightarrow> (k, v) \<in> set m \<Longrightarrow> om_find m k = Some v"
  by (simp add: om_wf_distinct)

lemma om_at_fst: "fst (om_at d m k) = (case om_find m k of Some v \<Rightarrow> v | None \<Rightarrow> d)"
  by (simp add: om_at_def split: option.splits)

lemma om_at_wf: "om_wf m \<Longrightarrow> om_wf (snd (om_at d m k))"
  by (simp add: om_at_def split: option.splits)

text \<open>The values of a map of lists, taken together, and a map over the values.\<close>

lemma om_wf_map [simp]: "om_wf (map (\<lambda>(k, v). (k, f v)) m) = om_wf m"
  by (simp add: om_wf_def comp_def case_prod_beta)

lemma om_find_map: "om_find (map (\<lambda>(k, v). (k, f v)) m) k = map_option f (om_find m k)"
  by (induction m) auto

lemma om_put_values:
  "om_wf m \<Longrightarrow> mset (concat (map snd (om_put k v m))) + mset (case om_find m k of None \<Rightarrow> [] | Some u \<Rightarrow> u)
     = mset (concat (map snd m)) + mset v"
proof (induction k v m rule: om_put.induct)
  case (2 k v j w m)
  have none: "om_find m k = None" if "k < j"
    using "2.prems" that by (intro om_find_notin) (auto simp: om_wf_Cons)
  show ?case using 2 none by (auto simp: om_wf_Cons split: option.splits)
qed simp

lemma om_put_map:
  "map (\<lambda>(j, w). (j, f w)) (om_put k v m) = om_put k (f v) (map (\<lambda>(j, w). (j, f w)) m)"
  by (induction k v m rule: om_put.induct) auto

interpretation om: std_map om_find om_put om_erase "[]" om_wf
  by unfold_locales (auto simp: om_find_erase)

lemma om_put_all_find:
  "om_wf m \<Longrightarrow> om_find (fold (\<lambda>(k, v). om_put k v) kvs m) j
     = (case map_of (rev kvs) j of None \<Rightarrow> om_find m j | Some v \<Rightarrow> Some v)"
  by (rule om.put_all_find)

end
