(* ===== verification/SalohaSlots.thy ===== *)
theory SalohaSlots
  imports StdMap
begin

text \<open>
  The random choice of time slots, the loops that \<open>SlottedAlohaTal::getTimeSlots\<close> and
  \<open>SlottedAlohaNcc::simulateTraffic\<close> share. A \<open>std::set<uint16_t>\<close> is a strictly ascending list.
  The first loop draws until the set is large enough, so it may run forever: it carries fuel, and
  \<open>draw_slots_returns\<close> shows how many draws are enough.
\<close>

section \<open>std::set of time slots\<close>

type_synonym ts_set = "u16 list"   \<comment> \<open>\<open>saloha_ts_list_t\<close>\<close>

fun os_insert :: "'k::linorder \<Rightarrow> 'k list \<Rightarrow> 'k list" where
  "os_insert k [] = [k]"
| "os_insert k (j # s) = (if k < j then k # j # s else if k = j then j # s else j # os_insert k s)"

lemma set_os_insert [simp]: "set (os_insert k s) = insert k (set s)"
  by (induction k s rule: os_insert.induct) auto

lemma os_insert_sorted [simp]: "sorted_wrt (<) s \<Longrightarrow> sorted_wrt (<) (os_insert k s)"
  by (induction k s rule: os_insert.induct) auto

lemma sorted_set_length: "sorted_wrt (<) (s :: 'k::linorder list) \<Longrightarrow> length s = card (set s)"
  by (simp add: strict_sorted_iff distinct_card)

section \<open>The frame tick\<close>

text \<open>\<open>SlottedAloha.cpp\<close>, the base class of both sides.\<close>

definition isSalohaFrameTick :: "time_sf_t \<Rightarrow> time_sf_t \<Rightarrow> bool res" where
  "isSalohaFrameTick sf_per_saframe superframe_counter =
     (if sf_per_saframe = 0 then Inl DivByZero
      else Inr (uint superframe_counter mod uint sf_per_saframe = 0))"

section \<open>The loops\<close>

text \<open>\<open>while(tmp.size() < max) { slot = (rand() / (double)RAND_MAX) * slots_per_carrier; tmp.insert(slot); }\<close>\<close>

fun draw_slots :: "nat \<Rightarrow> nat \<Rightarrow> nat \<Rightarrow> ts_set \<Rightarrow> nat stream \<Rightarrow> (ts_set \<times> nat stream) res" where
  "draw_slots 0 spc mx tmp rs = (if mx \<le> length tmp then Inr (tmp, rs) else Inl NoReturn)"
| "draw_slots (Suc fuel) spc mx tmp rs =
     (if mx \<le> length tmp then Inr (tmp, rs)
      else draw_slots fuel spc mx (os_insert (of_nat (scaled (shd rs) spc)) tmp) (stl rs))"

text \<open>
  \<open>slot = (int)((rand() / (double)RAND_MAX) * carriers) * slots_per_carrier + id\<close>, for every \<open>id\<close> in
  order, collected in a second set.
\<close>

fun spread_slots :: "nat \<Rightarrow> nat \<Rightarrow> ts_set \<Rightarrow> ts_set \<Rightarrow> nat stream \<Rightarrow> ts_set \<times> nat stream" where
  "spread_slots carriers spc [] time_slots rs = (time_slots, rs)"
| "spread_slots carriers spc (i # tmp) time_slots rs =
     spread_slots carriers spc tmp
       (os_insert (of_nat (scaled (shd rs) carriers * spc + unat i)) time_slots) (stl rs)"

section \<open>The first loop\<close>

lemma draw_slots_result:
  assumes "draw_slots fuel spc mx tmp rs = Inr (tmp', rs')"
  shows "mx \<le> length tmp'" and "\<exists>n \<le> fuel. rs' = sdrop n rs
    \<and> set tmp' = set tmp \<union> (\<lambda>r. of_nat (scaled r spc)) ` set (stake n rs)"
    and "sorted_wrt (<) tmp \<Longrightarrow> sorted_wrt (<) tmp'"
    and "sorted_wrt (<) tmp \<Longrightarrow> length tmp \<le> mx \<Longrightarrow> length tmp' = mx"
proof -
  have "mx \<le> length tmp' \<and> (\<exists>n \<le> fuel. rs' = sdrop n rs
      \<and> set tmp' = set tmp \<union> (\<lambda>r. of_nat (scaled r spc)) ` set (stake n rs))
    \<and> (sorted_wrt (<) tmp \<longrightarrow> sorted_wrt (<) tmp' \<and> (length tmp \<le> mx \<longrightarrow> length tmp' = mx))"
    using assms
  proof (induction fuel spc mx tmp rs rule: draw_slots.induct)
    case (1 spc mx tmp rs)
    then show ?case by (auto split: if_splits)
  next
    case (2 fuel spc mx tmp rs)
    let ?i = "of_nat (scaled (shd rs) spc) :: u16"
    show ?case
    proof (cases "mx \<le> length tmp")
      case True
      then have e: "tmp' = tmp" "rs' = rs" using 2 by auto
      show ?thesis using True unfolding e by (auto intro!: exI [of _ 0])
    next
      case False
      then have r: "draw_slots fuel spc mx (os_insert ?i tmp) (stl rs) = Inr (tmp', rs')"
        using 2(2) by simp
      note IH = 2(1) [OF False r]
      obtain n where n: "n \<le> fuel" "rs' = sdrop n (stl rs)"
        "set tmp' = set (os_insert ?i tmp) \<union> (\<lambda>r. of_nat (scaled r spc)) ` set (stake n (stl rs))"
        using IH by blast
      have c: "length (os_insert ?i tmp) \<le> mx" if "sorted_wrt (<) tmp"
        using that False card_insert_le_m1 [of mx "set tmp" ?i]
        by (auto simp: sorted_set_length card_insert_if)
      have "Suc n \<le> Suc fuel \<and> rs' = sdrop (Suc n) rs
          \<and> set tmp' = set tmp \<union> (\<lambda>r. of_nat (scaled r spc)) ` set (stake (Suc n) rs)"
        using n by auto
      then show ?thesis using IH c by (blast intro: os_insert_sorted)
    qed
  qed
  then show "mx \<le> length tmp'" "\<exists>n \<le> fuel. rs' = sdrop n rs
      \<and> set tmp' = set tmp \<union> (\<lambda>r. of_nat (scaled r spc)) ` set (stake n rs)"
    "sorted_wrt (<) tmp \<Longrightarrow> sorted_wrt (<) tmp'"
    "sorted_wrt (<) tmp \<Longrightarrow> length tmp \<le> mx \<Longrightarrow> length tmp' = mx" by blast+
qed

text \<open>Enough draws: as soon as the draws hit \<open>mx\<close> different slots, the loop has ended.\<close>

lemma draw_slots_returns:
  assumes "sorted_wrt (<) tmp"
    and "mx \<le> card (set tmp \<union> (\<lambda>r. of_nat (scaled r spc) :: u16) ` set (stake fuel rs))"
  shows "\<exists>tmp' rs'. draw_slots fuel spc mx tmp rs = Inr (tmp', rs')"
  using assms
proof (induction fuel spc mx tmp rs rule: draw_slots.induct)
  case (1 spc mx tmp rs)
  then show ?case by (simp add: sorted_set_length)
next
  case (2 fuel spc mx tmp rs)
  show ?case
  proof (cases "mx \<le> length tmp")
    case False
    have "set (os_insert (of_nat (scaled (shd rs) spc)) tmp) \<union> (\<lambda>r. of_nat (scaled r spc)) ` set (stake fuel (stl rs))
        = set tmp \<union> (\<lambda>r. of_nat (scaled r spc)) ` set (stake (Suc fuel) rs)"
      by auto
    then show ?thesis using 2 False by simp
  qed simp
qed

text \<open>Too few draws: while they have not hit \<open>mx\<close> different slots, the loop still runs.\<close>

lemma draw_slots_runs:
  assumes "sorted_wrt (<) tmp"
    and "card (set tmp \<union> (\<lambda>r. of_nat (scaled r spc) :: u16) ` set (stake fuel rs)) < mx"
  shows "draw_slots fuel spc mx tmp rs = Inl NoReturn"
  using assms
proof (induction fuel spc mx tmp rs rule: draw_slots.induct)
  case (1 spc mx tmp rs)
  then show ?case by (simp add: sorted_set_length)
next
  case (2 fuel spc mx tmp rs)
  have "card (set tmp) \<le> card (set tmp \<union> (\<lambda>r. of_nat (scaled r spc) :: u16) ` set (stake (Suc fuel) rs))"
    by (intro card_mono) auto
  then have few: "\<not> mx \<le> length tmp" using 2(2,3) by (simp add: sorted_set_length)
  have "set (os_insert (of_nat (scaled (shd rs) spc)) tmp) \<union> (\<lambda>r. of_nat (scaled r spc)) ` set (stake fuel (stl rs))
      = set tmp \<union> (\<lambda>r. of_nat (scaled r spc)) ` set (stake (Suc fuel) rs)"
    by auto
  then show ?case using 2(1) [OF few] 2(2,3) few by simp
qed

section \<open>The second loop\<close>

lemma scaled_slot_less:
  "r < RAND_MAX \<Longrightarrow> 0 < spc \<Longrightarrow> spc \<le> 65536 \<Longrightarrow> unat (of_nat (scaled r spc) :: u16) < spc"
  using scaled_less [of r spc] by (simp add: u16_of_nat_id)

lemma spread_slots_result:
  assumes "\<forall>r \<in> sset rs. r < RAND_MAX" "0 < c" "c * spc \<le> 65536"
    and "\<forall>i \<in> set tmp. unat i < spc" "distinct tmp" "sorted_wrt (<) ts"
  shows "\<exists>f. (\<forall>i \<in> set tmp. f i < c) \<and> sorted_wrt (<) (fst (spread_slots c spc tmp ts rs))
    \<and> set (fst (spread_slots c spc tmp ts rs)) = set ts \<union> (\<lambda>i. of_nat (f i * spc + unat i)) ` set tmp
    \<and> sset (snd (spread_slots c spc tmp ts rs)) \<subseteq> sset rs"
  using assms
proof (induction c spc tmp ts rs rule: spread_slots.induct)
  case (2 c spc i tmp ts rs)
  let ?s = "of_nat (scaled (shd rs) c * spc + unat i) :: u16"
  have stl: "sset (stl rs) \<subseteq> sset rs" by (auto intro: stl_sset)
  have rs: "\<forall>r \<in> sset (stl rs). r < RAND_MAX" using 2(2) stl by auto
  obtain f where f: "\<forall>i \<in> set tmp. f i < c" "sorted_wrt (<) (fst (spread_slots c spc tmp (os_insert ?s ts) (stl rs)))"
    "set (fst (spread_slots c spc tmp (os_insert ?s ts) (stl rs)))
      = set (os_insert ?s ts) \<union> (\<lambda>i. of_nat (f i * spc + unat i)) ` set tmp"
    "sset (snd (spread_slots c spc tmp (os_insert ?s ts) (stl rs))) \<subseteq> sset (stl rs)"
    using 2(1) [OF rs 2(3,4)] 2(5,6,7) by auto
  have sh: "scaled (shd rs) c < c" using 2(2,3) scaled_less shd_sset by blast
  let ?f = "f(i := scaled (shd rs) c)"
  have "i \<notin> set tmp" using 2(6) by simp
  then have "(\<lambda>i. of_nat (?f i * spc + unat i) :: u16) ` set tmp = (\<lambda>i. of_nat (f i * spc + unat i)) ` set tmp"
    by (intro image_cong) auto
  then show ?case using f sh stl by (intro exI [of _ ?f]) auto
qed (auto intro: exI [of _ "\<lambda>_. 0"])

lemma slot_of_parts:
  assumes "f < c" "unat (i :: u16) < spc" "c * spc \<le> 65536"
  shows "unat (of_nat (f * spc + unat i) :: u16) = f * spc + unat i" "f * spc + unat i < c * spc"
    "(f * spc + unat i) mod spc = unat i"
proof -
  have "(f + 1) * spc \<le> c * spc" using assms(1) by (intro mult_le_mono1) simp
  then show lt: "f * spc + unat i < c * spc" using assms(2) by simp
  then show "unat (of_nat (f * spc + unat i) :: u16) = f * spc + unat i"
    using assms(3) by (intro u16_of_nat_id) linarith
  show "(f * spc + unat i) mod spc = unat i" using assms(2) by simp
qed

text \<open>
  The slots chosen: as many as positions, all of the category, on pairwise different positions of
  their carriers.
\<close>

lemma spread_slots_spec:
  assumes "\<forall>r \<in> sset rs. r < RAND_MAX" "0 < c" "c * spc \<le> 65536"
    and "\<forall>i \<in> set tmp. unat i < spc" "sorted_wrt (<) tmp"
    and T: "T = fst (spread_slots c spc tmp [] rs)"
  shows "sorted_wrt (<) T" "length T = length tmp" "\<forall>s \<in> set T. unat s < c * spc"
    "inj_on (\<lambda>s. unat s mod spc) (set T)" "(\<lambda>s. unat s mod spc) ` set T = unat ` set tmp"
    "sset (snd (spread_slots c spc tmp [] rs)) \<subseteq> sset rs"
proof -
  have d: "distinct tmp" using assms(5) by (simp add: strict_sorted_iff)
  have "\<exists>f. (\<forall>i \<in> set tmp. f i < c) \<and> sorted_wrt (<) T
      \<and> set T = set [] \<union> (\<lambda>i. of_nat (f i * spc + unat i)) ` set tmp
      \<and> sset (snd (spread_slots c spc tmp [] rs)) \<subseteq> sset rs"
    unfolding T by (rule spread_slots_result [OF assms(1-4) d]) simp
  then obtain f where f: "\<forall>i \<in> set tmp. f i < c" "sorted_wrt (<) T"
    "set T = (\<lambda>i. of_nat (f i * spc + unat i)) ` set tmp"
    and rs: "sset (snd (spread_slots c spc tmp [] rs)) \<subseteq> sset rs" by auto
  show "sorted_wrt (<) T" "sset (snd (spread_slots c spc tmp [] rs)) \<subseteq> sset rs" by fact+
  note parts = slot_of_parts [OF f(1) [rule_format] assms(4) [rule_format] assms(3)]
  show lt: "\<forall>s \<in> set T. unat s < c * spc" using parts f(3) by auto
  have m: "unat (of_nat (f i * spc + unat i) :: u16) mod spc = unat i" if "i \<in> set tmp" for i
    using parts that by simp
  show im: "(\<lambda>s. unat s mod spc) ` set T = unat ` set tmp"
    unfolding f(3) image_image using m by (intro image_cong) auto
  have inj: "inj_on (\<lambda>i. of_nat (f i * spc + unat i) :: u16) (set tmp)"
    using m by (intro inj_onI) (metis unsigned_word_eqI)
  show "inj_on (\<lambda>s. unat s mod spc) (set T)"
  proof (rule inj_onI)
    fix s t
    assume st: "s \<in> set T" "t \<in> set T" "unat s mod spc = unat t mod spc"
    then obtain i j where ij: "i \<in> set tmp" "j \<in> set tmp" "s = of_nat (f i * spc + unat i)"
      "t = of_nat (f j * spc + unat j)" unfolding f(3) by blast
    have "unat i = unat j" using st(3) m ij by metis
    then have "i = j" by (rule unsigned_word_eqI)
    then show "s = t" using ij by simp
  qed
  show "length T = length tmp"
    using card_image [OF inj] f(2,3) assms(5) by (simp add: sorted_set_length)
qed

end
