(* ===== verification/SalohaId.thy ===== *)
theory SalohaId
  imports SalohaPacket
begin

text \<open>
  The unique identifier of a Slotted Aloha packet: the text \<open>id:seq:pdu_nb:qos\<close> that
  \<open>SlottedAlohaPacketData::getUniqueId\<close> prints, and \<open>SlottedAlohaPacket::convertPacketId\<close>, which
  reads it back into four \<open>uint16_t\<close> with \<open>std::istringstream\<close>. Texts are byte lists in ASCII.
\<close>

section \<open>Printing\<close>

fun dec :: "nat \<Rightarrow> data" where
  "dec n = (if n < 10 then [48 + of_nat n] else dec (n div 10) @ [48 + of_nat (n mod 10)])"

declare dec.simps [simp del]

definition int_str :: "int \<Rightarrow> data" where
  "int_str k = (if k < 0 then 45 # dec (nat (- k)) else dec (nat k))"

definition id_str :: "u32 \<Rightarrow> u16 \<Rightarrow> u16 \<Rightarrow> u8 \<Rightarrow> data" where
  "id_str pid seq pdu_nb q =
     int_str (sint pid) @ [58] @ int_str (uint seq) @ [58] @ int_str (uint pdu_nb) @ [58]
       @ int_str (uint q)"

definition sa_getUniqueId :: "sa_packet \<Rightarrow> data" where
  "sa_getUniqueId p = id_str (sa_getId p) (sa_getSeq p) (sa_getPduNb p) (sa_getQos p)"

section \<open>Reading\<close>

definition is_digit :: "u8 \<Rightarrow> bool" where
  "is_digit c \<longleftrightarrow> 48 \<le> c \<and> c \<le> 57"

definition is_space :: "u8 \<Rightarrow> bool" where
  "is_space c \<longleftrightarrow> c = 32 \<or> (9 \<le> c \<and> c \<le> 13)"

definition digits_val :: "data \<Rightarrow> nat" where
  "digits_val ds = foldl (\<lambda>a c. 10 * a + unat (c - 48)) 0 ds"

text \<open>
  An input stream: the characters left, and whether it is still good. A failed stream leaves
  the targets of later extractions as they are.
\<close>

type_synonym istream = "data \<times> bool"

text \<open>
  \<open>iss >> (uint16_t)\<close>: white space is skipped, an end of text fails with the target unchanged;
  otherwise a sign and digits are read. No digit stores 0, a value above 65535 stores 65535,
  both failing; a negative value is negated on 16 bits.
\<close>

definition read_u16 :: "istream \<Rightarrow> u16 \<Rightarrow> u16 \<times> istream" where
  "read_u16 s old =
     (let t = dropWhile is_space (fst s)
      in if \<not> snd s \<or> t = [] then (old, t, False)
         else let neg = (hd t = 45); u = (if hd t = 45 \<or> hd t = 43 then tl t else t);
                  ds = takeWhile is_digit u; rest = dropWhile is_digit u; v = digits_val ds
         in if ds = [] then (0, rest, False)
            else if 65535 < v then (65535, rest, False)
            else ((if neg then - of_nat v else of_nat v), rest, True))"

definition read_char :: "istream \<Rightarrow> istream" where
  "read_char s =
     (let t = dropWhile is_space (fst s)
      in if \<not> snd s \<or> t = [] then (t, False) else (tl t, True))"

text \<open>\<open>old\<close> is what the caller's uninitialised array holds.\<close>

definition convertPacketId :: "data \<Rightarrow> u16 list \<Rightarrow> u16 list" where
  "convertPacketId i old =
     (let s0 = (takeWhile (\<lambda>c. c \<noteq> 0) i, True);
          (a, s1) = read_u16 s0 (old ! 0);
          (b, s2) = read_u16 (read_char s1) (old ! 1);
          (c, s3) = read_u16 (read_char s2) (old ! 2);
          (d, s4) = read_u16 (read_char s3) (old ! 3)
      in [a, b, c, d])"

section \<open>Decimal texts\<close>

lemma digit_facts:
  assumes "n < 10"
  shows "is_digit (48 + of_nat n)" "unat ((48 + of_nat n :: u8) - 48) = n"
    "(48 + of_nat n :: u8) \<noteq> 0" "\<not> is_space (48 + of_nat n)" "(48 + of_nat n :: u8) \<noteq> 45"
    "(48 + of_nat n :: u8) \<noteq> 43" "(48 + of_nat n :: u8) \<noteq> 58"
proof -
  have "n = 0 \<or> n = 1 \<or> n = 2 \<or> n = 3 \<or> n = 4 \<or> n = 5 \<or> n = 6 \<or> n = 7 \<or> n = 8 \<or> n = 9"
    using assms by arith
  then show "is_digit (48 + of_nat n)" "unat ((48 + of_nat n :: u8) - 48) = n"
    "(48 + of_nat n :: u8) \<noteq> 0" "\<not> is_space (48 + of_nat n)" "(48 + of_nat n :: u8) \<noteq> 45"
    "(48 + of_nat n :: u8) \<noteq> 43" "(48 + of_nat n :: u8) \<noteq> 58"
    by (auto simp: is_digit_def is_space_def)
qed

lemma dec_digits: "c \<in> set (dec n) \<Longrightarrow> \<exists>k < 10. c = 48 + of_nat k"
proof (induction n rule: dec.induct)
  case (1 n)
  show ?case
  proof (cases "n < 10")
    case True
    then show ?thesis using "1.prems" by (auto simp: dec.simps [of n])
  next
    case False
    then have "c \<in> set (dec (n div 10)) \<or> c = 48 + of_nat (n mod 10)"
      using "1.prems" by (auto simp: dec.simps [of n])
    then show ?thesis
      using "1.IH" [OF False] by (metis mod_less_divisor zero_less_numeral)
  qed
qed

lemma dec_ne [simp]: "dec n \<noteq> []"
  by (subst dec.simps) simp

lemma digits_val_snoc: "digits_val (ds @ [c]) = 10 * digits_val ds + unat (c - 48)"
  by (simp add: digits_val_def)

lemma digits_val_dec [simp]: "digits_val (dec n) = n"
proof (induction n rule: dec.induct)
  case (1 n)
  show ?case
  proof (cases "n < 10")
    case True
    then show ?thesis
      using digit_facts(2) [OF True] by (simp add: dec.simps [of n] digits_val_def)
  next
    case False
    then show ?thesis
      using "1.IH" digit_facts(2) [of "n mod 10"]
      by (simp add: dec.simps [of n] digits_val_snoc)
  qed
qed

lemma dec_inj: "dec m = dec n \<Longrightarrow> m = n"
  using digits_val_dec by metis

lemma dec_all:
  "\<forall>c \<in> set (dec n). is_digit c \<and> c \<noteq> 0 \<and> \<not> is_space c \<and> c \<noteq> 45 \<and> c \<noteq> 43 \<and> c \<noteq> 58"
proof
  fix c assume "c \<in> set (dec n)"
  then obtain k where "k < 10" "c = 48 + of_nat k" using dec_digits by blast
  then show "is_digit c \<and> c \<noteq> 0 \<and> \<not> is_space c \<and> c \<noteq> 45 \<and> c \<noteq> 43 \<and> c \<noteq> 58"
    using digit_facts [of k] by simp
qed

definition stops :: "data \<Rightarrow> bool" where
  "stops r \<longleftrightarrow> r = [] \<or> \<not> is_digit (hd r)"

lemma stops_colon [simp]: "stops (58 # r)"
  by (simp add: stops_def is_digit_def)

lemma stops_Nil [simp]: "stops []"
  by (simp add: stops_def)

lemma span_dec:
  assumes "stops r"
  shows "takeWhile is_digit (dec n @ r) = dec n" "dropWhile is_digit (dec n @ r) = r"
proof -
  have "\<And>c. c \<in> set (dec n) \<Longrightarrow> is_digit c" using dec_all by blast
  then show "takeWhile is_digit (dec n @ r) = dec n" "dropWhile is_digit (dec n @ r) = r"
    using assms by (cases r; simp add: stops_def takeWhile_append2 dropWhile_append2)+
qed

lemma dec_start:
  "dropWhile is_space (dec n @ r) = dec n @ r" "hd (dec n) \<noteq> 45" "hd (dec n) \<noteq> 43"
proof -
  obtain c cs where c: "dec n = c # cs" by (cases "dec n") simp_all
  then have "\<not> is_space c \<and> c \<noteq> 45 \<and> c \<noteq> 43" using dec_all [of n] by simp
  then show "dropWhile is_space (dec n @ r) = dec n @ r" "hd (dec n) \<noteq> 45"
    "hd (dec n) \<noteq> 43" by (simp_all add: c)
qed

lemma read_u16_dec:
  assumes "stops r"
  shows "read_u16 (dec n @ r, True) old = (if 65535 < n then (65535, r, False) else (of_nat n, r, True))"
  unfolding read_u16_def Let_def by (simp add: dec_start span_dec [OF assms])

lemma read_char_colon: "read_char (58 # r, True) = (r, True)"
  by (simp add: read_char_def is_space_def)

lemma read_failed: "read_char (r, False) = (dropWhile is_space r, False)"
  "read_u16 (r, False) old = (old, dropWhile is_space r, False)"
  by (simp_all add: read_char_def read_u16_def Let_def)

lemma int_str_uint: "int_str (uint (w :: 'a::len word)) = dec (unat w)"
  by (simp add: int_str_def)

lemma int_str_small:
  assumes "unat (w :: u32) < 2 ^ 31"
  shows "int_str (sint w) = dec (unat w)"
proof -
  have u: "uint w < 2 ^ 31" 
    using of_nat_less_iff [where 'a = int, THEN iffD2, OF assms] unfolding uint_nat
    by (simp only: of_nat_power of_nat_numeral)
  have "- (2 ^ 31) \<le> uint w" by (rule order_trans [of _ 0]) simp_all
  then have "sint w = uint w"
    using u by (simp add: sint_uint signed_take_bit_int_eq_self)
  then show ?thesis by (simp add: int_str_uint)
qed

lemma id_str_small:
  assumes "unat pid < 2 ^ 31"
  shows "id_str pid seq pdu q
    = dec (unat pid) @ 58 # dec (unat seq) @ 58 # dec (unat pdu) @ 58 # dec (unat q)"
  by (simp add: id_str_def int_str_small [OF assms] int_str_uint)

lemma id_str_no_nul:
  assumes "unat pid < 2 ^ 31"
  shows "takeWhile (\<lambda>c. c \<noteq> 0) (id_str pid seq pdu q) = id_str pid seq pdu q"
  using dec_all by (auto simp: id_str_small [OF assms])

lemma convert_small:
  assumes "unat (sa_getId p) < 65536"
  shows "convertPacketId (sa_getUniqueId p) old
    = [of_nat (unat (sa_getId p)), sa_getSeq p, sa_getPduNb p, ucast (sa_getQos p)]"
proof -
  have small: "unat (sa_getId p) < 2 ^ 31" using assms by simp
  have q: "unat (sa_getQos p) < 256" by (rule unat_u8_less)
  have "read_u16 (dec (unat (sa_getQos p)), True) (old ! 3) = (ucast (sa_getQos p), [], True)"
    using read_u16_dec [of "[]" "unat (sa_getQos p)" "old ! 3"] q by simp
  then show ?thesis
    unfolding convertPacketId_def sa_getUniqueId_def id_str_no_nul [OF small]
    unfolding id_str_small [OF small]
    using assms unat_u16_less [of "sa_getSeq p"] unat_u16_less [of "sa_getPduNb p"]
    by (simp add: read_u16_dec read_char_colon)
qed

lemma convert_big:
  assumes "65536 \<le> unat (sa_getId p)" "unat (sa_getId p) < 2 ^ 31"
  shows "convertPacketId (sa_getUniqueId p) old = [65535, old ! 1, old ! 2, old ! 3]"
proof -
  have "read_u16 (dec (unat (sa_getId p)) @ 58 # r, True) (old ! 0) = (65535, 58 # r, False)" for r
    using assms(1) by (simp add: read_u16_dec)
  then show ?thesis
    unfolding convertPacketId_def sa_getUniqueId_def id_str_no_nul [OF assms(2)]
    unfolding id_str_small [OF assms(2)]
    by (simp add: read_failed)
qed

section \<open>Properties\<close>

text \<open>
  C30: The identifier carried by an acknowledgement reads back as the packet's PDU identifier,
  sequence number, number of packets and QoS, as long as the PDU identifier fits 16 bits.
\<close>

theorem convert_unique_id:
  assumes "unat (sa_getId p) < 65536"
  shows "convertPacketId (sa_getUniqueId p) old
    = [of_nat (unat (sa_getId p)), sa_getSeq p, sa_getPduNb p, ucast (sa_getQos p)]"
  using assms by (rule convert_small)

text \<open>Once the terminal has sent 65536 PDUs, the identifier no longer reads back: the PDU
  identifier becomes 65535, the extraction fails, and the sequence number, the number of
  packets and the QoS keep whatever the caller's uninitialised array held.
\<close>

theorem convert_unique_id_overflow:
  assumes "65536 \<le> unat (sa_getId p)" "unat (sa_getId p) < 2 ^ 31"
  shows "convertPacketId (sa_getUniqueId p) old = [65535, old ! 1, old ! 2, old ! 3]"
  using assms by (rule convert_big)

theorem convert_unique_id_witness:
  "\<exists>p. sa_getId p = 513 \<and> convertPacketId (sa_getUniqueId p) [1, 1, 1, 1]
     = [of_nat (unat (sa_getId p)), sa_getSeq p, sa_getPduNb p, ucast (sa_getQos p)]"
proof -
  let ?p = "sa_of_data 0 (0, 0) (be32 513 @ be16 3 @ be16 0 @ be16 2) 10"
  have i: "sa_getId ?p = 513"
    by (simp add: sa_getId_def sa_of_data_def new_net_packet_len_def new_net_packet_def
        net_packet.defs sa_packet.defs rd32_def be32_def be16_def byte_at_def)
  show ?thesis
    by (rule exI [of _ ?p], rule conjI [OF i], rule convert_unique_id) (simp add: i)
qed

theorem convert_unique_id_overflow_witness:
  "\<exists>p. sa_getId p = 65536 \<and> convertPacketId (sa_getUniqueId p) [9, 8, 7, 6] = [65535, 8, 7, 6]"
proof -
  let ?p = "sa_of_data 0 (0, 0) (be32 65536 @ be16 3 @ be16 0 @ be16 2) 10"
  have i: "sa_getId ?p = 65536"
    by (simp add: sa_getId_def sa_of_data_def new_net_packet_len_def new_net_packet_def
        net_packet.defs sa_packet.defs rd32_def be32_def be16_def byte_at_def)
  have "convertPacketId (sa_getUniqueId ?p) [9, 8, 7, 6]
      = [65535, [9, 8, 7, 6] ! 1, [9, 8, 7, 6] ! 2, [9, 8, 7, 6] ! 3]"
    by (rule convert_unique_id_overflow) (simp_all add: i)
  then show ?thesis using i by auto
qed

lemma dec_colon_inj:
  assumes "dec m @ 58 # r = dec n @ 58 # s"
  shows "m = n \<and> r = s"
proof -
  have "takeWhile is_digit (dec m @ 58 # r) = takeWhile is_digit (dec n @ 58 # s)"
    "dropWhile is_digit (dec m @ 58 # r) = dropWhile is_digit (dec n @ 58 # s)"
    using assms by simp_all
  then show ?thesis using dec_inj by (auto simp: span_dec)
qed

lemma int_str_colon_inj:
  assumes "int_str j @ 58 # r = int_str k @ 58 # s"
  shows "j = k \<and> r = s"
proof -
  have ne: "hd (dec n @ t) \<noteq> 45" for n t using dec_start(2) [of n] by simp
  have "j < 0 \<longleftrightarrow> k < 0"
    using arg_cong [OF assms, of hd] ne by (simp add: int_str_def split: if_splits)
  then show ?thesis
    using assms by (auto simp: int_str_def dest!: dec_colon_inj split: if_splits)
qed

lemma unique_id_inj:
  "sa_getUniqueId p = sa_getUniqueId p' \<longleftrightarrow>
     sa_getId p = sa_getId p' \<and> sa_getSeq p = sa_getSeq p'
     \<and> sa_getPduNb p = sa_getPduNb p' \<and> sa_getQos p = sa_getQos p'"
proof
  assume "sa_getUniqueId p = sa_getUniqueId p'"
  then have *: "int_str (sint (sa_getId p)) @ 58 # int_str (uint (sa_getSeq p)) @ 58 #
        int_str (uint (sa_getPduNb p)) @ 58 # int_str (uint (sa_getQos p))
      = int_str (sint (sa_getId p')) @ 58 # int_str (uint (sa_getSeq p')) @ 58 #
        int_str (uint (sa_getPduNb p')) @ 58 # int_str (uint (sa_getQos p'))"
    by (simp add: sa_getUniqueId_def id_str_def)
  note 1 = int_str_colon_inj [OF *]
  note 2 = int_str_colon_inj [OF 1 [THEN conjunct2]]
  note 3 = int_str_colon_inj [OF 2 [THEN conjunct2]]
  have "unat (sa_getQos p) = unat (sa_getQos p')"
    using 3 [THEN conjunct2] by (simp add: int_str_uint dec_inj)
  then show "sa_getId p = sa_getId p' \<and> sa_getSeq p = sa_getSeq p'
     \<and> sa_getPduNb p = sa_getPduNb p' \<and> sa_getQos p = sa_getQos p'"
    using 1 2 3 by (auto intro: signed_word_eqI unsigned_word_eqI)
qed (simp add: sa_getUniqueId_def)

text \<open>
  C29: The identifier is a key: two packets print the same identifier exactly when their PDU
  identifier, sequence number, number of packets and QoS agree, over the whole 32-bit range.
\<close>

theorem unique_id_eq_iff:
  "sa_getUniqueId p = sa_getUniqueId p' \<longleftrightarrow>
     sa_getId p = sa_getId p' \<and> sa_getSeq p = sa_getSeq p'
     \<and> sa_getPduNb p = sa_getPduNb p' \<and> sa_getQos p = sa_getQos p'"
  by (rule unique_id_inj)

end
