(* ===== verification/SalohaAlgo.thy ===== *)
theory SalohaAlgo
  imports SalohaId StdMap "HOL-Library.Multiset"
begin

text \<open>
  The collision removal of the Slotted Aloha gateway: DSA (\<open>dvb/saloha/SlottedAlohaAlgoDsa.cpp\<close>)
  and CRDSA (\<open>dvb/saloha/SlottedAlohaAlgoCrdsa.cpp\<close>) behind the virtual function
  \<open>removeCollisions\<close>. A slot is the vector of the packets received on it; the packets deleted
  are logged by address, so that the memory discipline is visible. The locale \<open>saloha_algo\<close> is
  the contract of the virtual function; the inductive predicate \<open>decodable\<close> is the abstract
  specification of CRDSA: a packet is decodable when, on some slot, all the others are.
\<close>

section \<open>State\<close>

type_synonym slots = "(u32, sa_packet list) omap"
type_synonym sa_key = "tal_id_t \<times> data"

definition sa_key :: "sa_packet \<Rightarrow> sa_key" where
  "sa_key p = (np_getSrcTalId p, sa_getUniqueId p)"

text \<open>
  \<open>accepted_ids\<close> gives the empty vector to a terminal it has no entry for, as the code creates
  it on the first look-up.
\<close>

record dec_state =
  ds_ids :: "tal_id_t \<Rightarrow> data list"
  ds_acc :: "sa_packet list"
  ds_freed :: "addr list"

definition id_known :: "dec_state \<Rightarrow> sa_packet \<Rightarrow> bool" where
  "id_known s p \<longleftrightarrow> sa_getUniqueId p \<in> set (ds_ids s (np_getSrcTalId p))"

definition ds_accept :: "sa_packet \<Rightarrow> dec_state \<Rightarrow> dec_state" where
  "ds_accept p s = s\<lparr>ds_acc := ds_acc s @ [p],
     ds_ids := (ds_ids s)(np_getSrcTalId p := ds_ids s (np_getSrcTalId p) @ [sa_getUniqueId p])\<rparr>"

definition ds_free :: "sa_packet list \<Rightarrow> dec_state \<Rightarrow> dec_state" where
  "ds_free ps s = s\<lparr>ds_freed := ds_freed s @ map sp_addr ps\<rparr>"

definition ds_init :: "sa_packet list \<Rightarrow> dec_state" where
  "ds_init acc = \<lparr>ds_ids = (\<lambda>_. []), ds_acc = acc, ds_freed = []\<rparr>"

definition clear_slots :: "slots \<Rightarrow> slots" where
  "clear_slots sl = map (\<lambda>(n, ps). (n, [])) sl"

section \<open>DSA\<close>

fun dsa_loop :: "slots \<Rightarrow> dec_state \<Rightarrow> u16 \<Rightarrow> dec_state \<times> u16" where
  "dsa_loop [] s nbr = (s, nbr)"
| "dsa_loop ((n, []) # sl) s nbr = dsa_loop sl s nbr"
| "dsa_loop ((n, [p]) # sl) s nbr =
     (if \<not> id_known s p then dsa_loop sl (ds_accept p s) nbr
      else dsa_loop sl (ds_free [p] s) nbr)"
| "dsa_loop ((n, p # q # ps) # sl) s nbr =
     dsa_loop sl (ds_free (p # q # ps) s) (nbr + of_nat (length (p # q # ps)))"

text \<open>The result: the cleared slots, the accepted packets, the deletions and the count.\<close>

definition dsa_removeCollisions ::
    "slots \<Rightarrow> sa_packet list \<Rightarrow> slots \<times> sa_packet list \<times> addr list \<times> u16" where
  "dsa_removeCollisions sl acc =
     (let (s, nbr) = dsa_loop sl (ds_init acc) 0
      in (clear_slots sl, ds_acc s, ds_freed s, nbr))"

section \<open>CRDSA\<close>

text \<open>
  Signal suppression on one slot: every packet already accepted on another slot is erased, and
  deleted unless it is the accepted object itself.
\<close>

fun suppress :: "sa_packet list \<Rightarrow> dec_state \<Rightarrow> sa_packet list \<times> dec_state" where
  "suppress [] s = ([], s)"
| "suppress (p # ps) s =
     (if id_known s p
      then suppress ps (if sp_addr p \<in> set (map sp_addr (ds_acc s)) then s else ds_free [p] s)
      else (let (r, s') = suppress ps s in (p # r, s')))"

definition visit_slot :: "sa_packet list \<Rightarrow> dec_state \<Rightarrow> sa_packet list \<times> dec_state \<times> bool" where
  "visit_slot slot s =
     (if slot = [] then (slot, s, False)
      else let (slot', s') = suppress slot s
           in if length slot' = 1 then (slot', ds_accept (hd slot') s', True)
              else (slot', s', False))"

fun crdsa_pass :: "slots \<Rightarrow> dec_state \<Rightarrow> slots \<times> dec_state \<times> bool" where
  "crdsa_pass [] s = ([], s, False)"
| "crdsa_pass ((n, slot) # sl) s =
     (let (slot', s1, a1) = visit_slot slot s;
          (sl', s2, a2) = crdsa_pass sl s1
      in ((n, slot') # sl', s2, a1 \<or> a2))"

lemma suppress_eq:
  "suppress ps s = (filter (\<lambda>p. \<not> id_known s p) ps,
     ds_free (filter (\<lambda>p. id_known s p \<and> sp_addr p \<notin> sp_addr ` set (ds_acc s)) ps) s)"
proof (induction ps s rule: suppress.induct)
  case (1 s)
  then show ?case by (simp add: ds_free_def)
next
  case (2 p ps s)
  have ks: "id_known (ds_free [p] s) = id_known s"
    by (simp add: ds_free_def id_known_def fun_eq_iff)
  show ?case using 2 ks by (auto simp: ds_free_def Let_def)
qed

lemma id_known_accept: "id_known (ds_accept p s) q \<longleftrightarrow> id_known s q \<or> sa_key q = sa_key p"
  by (auto simp: id_known_def ds_accept_def sa_key_def)

lemma id_known_free [simp]: "id_known (ds_free ps s) = id_known s"
  by (simp add: fun_eq_iff id_known_def ds_free_def)

lemma visit_slot_cases:
  obtains s1 where "s1 = ds_free (filter (\<lambda>p. id_known s p \<and> sp_addr p \<notin> sp_addr ` set (ds_acc s)) slot) s"
    and "length (filter (\<lambda>p. \<not> id_known s p) slot) \<noteq> 1
      \<and> visit_slot slot s = (filter (\<lambda>p. \<not> id_known s p) slot, s1, False)"
  | s1 p where "s1 = ds_free (filter (\<lambda>p. id_known s p \<and> sp_addr p \<notin> sp_addr ` set (ds_acc s)) slot) s"
    and "filter (\<lambda>p. \<not> id_known s p) slot = [p]" "visit_slot slot s = ([p], ds_accept p s1, True)"
proof (cases "length (filter (\<lambda>p. \<not> id_known s p) slot) = 1")
  case True
  then obtain p where p: "filter (\<lambda>p. \<not> id_known s p) slot = [p]"
    by (auto simp: length_Suc_conv)
  then have "slot \<noteq> []" by auto
  then show ?thesis using that(2) [OF refl p] p by (simp add: visit_slot_def suppress_eq)
next
  case False
  show ?thesis
  proof (rule that(1) [OF refl], rule conjI [OF False])
    show "visit_slot slot s = (filter (\<lambda>p. \<not> id_known s p) slot,
        ds_free (filter (\<lambda>p. id_known s p \<and> sp_addr p \<notin> sp_addr ` set (ds_acc s)) slot) s, False)"
      using False by (cases "slot = []") (simp_all add: visit_slot_def suppress_eq ds_free_def)
  qed
qed

text \<open>The loop ends: each pass that accepts a packet leaves fewer packets undecoded.\<close>

definition undecoded :: "slots \<Rightarrow> dec_state \<Rightarrow> nat" where
  "undecoded sl s = (\<Sum>slot \<leftarrow> map snd sl. length (filter (\<lambda>p. \<not> id_known s p) slot))"

lemma undecoded_Nil [simp]: "undecoded [] s = 0"
  by (simp add: undecoded_def)

lemma undecoded_Cons [simp]:
  "undecoded ((n, slot) # sl) s = length (filter (\<lambda>p. \<not> id_known s p) slot) + undecoded sl s"
  by (simp add: undecoded_def)

lemma filter_mono_length: "(\<And>x. P x \<Longrightarrow> Q x) \<Longrightarrow> length (filter P xs) \<le> length (filter Q xs)"
  by (induction xs) auto

lemma undecoded_mono:
  "(\<And>p. id_known s p \<Longrightarrow> id_known t p) \<Longrightarrow> undecoded sl t \<le> undecoded sl s"
proof (induction sl)
  case (Cons a sl)
  then show ?case
    using filter_mono_length [of "\<lambda>p. \<not> id_known t p" "\<lambda>p. \<not> id_known s p" "snd a"]
    by (cases a) (auto intro: add_mono)
qed simp

lemma visit_slot_known:
  "visit_slot slot s = (slot', s', a) \<Longrightarrow> id_known s p \<Longrightarrow> id_known s' p"
  by (rule visit_slot_cases [of s slot]) (auto simp: id_known_accept)

lemma crdsa_pass_known:
  "crdsa_pass sl s = (sl', s', a) \<Longrightarrow> id_known s p \<Longrightarrow> id_known s' p"
proof (induction sl s arbitrary: sl' s' a rule: crdsa_pass.induct)
  case (2 n slot sl s)
  obtain slot1 s1 a1 where v: "visit_slot slot s = (slot1, s1, a1)" by (cases "visit_slot slot s")
  obtain sl2 s2 a2 where c: "crdsa_pass sl s1 = (sl2, s2, a2)" by (cases "crdsa_pass sl s1")
  show ?case
    using 2 v c visit_slot_known [OF v] by auto
qed simp

lemma visit_slot_undecoded:
  assumes "visit_slot slot s = (slot', s', a)" "\<And>p. id_known s' p \<Longrightarrow> id_known t p"
  shows "length (filter (\<lambda>p. \<not> id_known t p) slot') + (if a then 1 else 0)
           \<le> length (filter (\<lambda>p. \<not> id_known s p) slot)"
proof (rule visit_slot_cases [of s slot])
  fix s1
  assume "length (filter (\<lambda>p. \<not> id_known s p) slot) \<noteq> 1
      \<and> visit_slot slot s = (filter (\<lambda>p. \<not> id_known s p) slot, s1, False)"
  then show ?thesis using assms(1) by (auto intro: filter_mono_length)
next
  fix s1 p
  assume "filter (\<lambda>p. \<not> id_known s p) slot = [p]" "visit_slot slot s = ([p], ds_accept p s1, True)"
  then show ?thesis using assms by (auto simp: id_known_accept)
qed

lemma crdsa_pass_undecoded:
  "crdsa_pass sl s = (sl', s', a) \<Longrightarrow> undecoded sl' s' + (if a then 1 else 0) \<le> undecoded sl s"
proof (induction sl s arbitrary: sl' s' a rule: crdsa_pass.induct)
  case (2 n slot sl s)
  obtain slot1 s1 a1 where v: "visit_slot slot s = (slot1, s1, a1)" by (cases "visit_slot slot s")
  obtain sl2 s2 a2 where c: "crdsa_pass sl s1 = (sl2, s2, a2)" by (cases "crdsa_pass sl s1")
  have r: "sl' = (n, slot1) # sl2" "s' = s2" "a = (a1 \<or> a2)" using "2.prems" v c by auto
  have "undecoded sl2 s2 + (if a2 then 1 else 0) \<le> undecoded sl s1"
    using "2.IH" [OF v [symmetric] refl refl, of sl2 s2 a2] c by simp
  moreover have "undecoded sl s1 \<le> undecoded sl s"
    by (rule undecoded_mono) (rule visit_slot_known [OF v])
  moreover have "length (filter (\<lambda>p. \<not> id_known s2 p) slot1) + (if a1 then 1 else 0)
      \<le> length (filter (\<lambda>p. \<not> id_known s p) slot)"
    by (rule visit_slot_undecoded [OF v]) (rule crdsa_pass_known [OF c])
  ultimately show ?case unfolding r by (auto split: if_splits)
qed simp

function crdsa_loop :: "slots \<Rightarrow> dec_state \<Rightarrow> slots \<times> dec_state" where
  "crdsa_loop sl s =
     (case crdsa_pass sl s of
        (sl', s', True) \<Rightarrow> crdsa_loop sl' s'
      | (sl', s', False) \<Rightarrow> (sl', s'))"
  by pat_completeness auto
termination
  by (relation "measure (\<lambda>(sl, s). undecoded sl s)") (auto dest!: sym [THEN crdsa_pass_undecoded])

declare crdsa_loop.simps [simp del]

text \<open>The slots left with a collision are counted and their packets deleted.\<close>

fun crdsa_flush :: "slots \<Rightarrow> dec_state \<Rightarrow> u16 \<Rightarrow> dec_state \<times> u16" where
  "crdsa_flush [] s nbr = (s, nbr)"
| "crdsa_flush ((n, slot) # sl) s nbr =
     (if 1 < length slot then crdsa_flush sl (ds_free slot s) (nbr + of_nat (length slot))
      else crdsa_flush sl s nbr)"

definition crdsa_removeCollisions ::
    "slots \<Rightarrow> sa_packet list \<Rightarrow> slots \<times> sa_packet list \<times> addr list \<times> u16" where
  "crdsa_removeCollisions sl acc =
     (let (sl', s) = crdsa_loop sl (ds_init acc);
          (s', nbr) = crdsa_flush sl' s 0
      in (clear_slots sl', ds_acc s', ds_freed s', nbr))"

end
