(* ===== verification/SalohaCategory.thy ===== *)
theory SalohaCategory
  imports SalohaAlgo
begin

text \<open>
  The carriers of a Slotted Aloha category: \<open>dvb/utils/Slot.cpp\<close>, \<open>CarriersGroup.cpp\<close>,
  \<open>CarriersGroupSaloha.cpp\<close>, \<open>TerminalCategory.h\<close> and \<open>TerminalCategorySaloha.cpp\<close>. The symbol rate
  is a double that the modelled code only compares and hands to the unit converter: its type is
  the variable \<open>'r\<close>, the converter's slot count for a group (0 without a FMT definition) is the
  parameter \<open>slots_of\<close>, and the capacity in symbols the parameter \<open>cap\<close>.
\<close>

section \<open>Slots and carriers groups\<close>

record slot =
  sl_carriers_id :: u32
  sl_slot_id :: u32
  sl_packets :: "sa_packet list"

definition new_slot :: "u32 \<Rightarrow> u32 \<Rightarrow> slot" where
  "new_slot c i = \<lparr>sl_carriers_id = c, sl_slot_id = i, sl_packets = []\<rparr>"

record 'r carriers_group =
  cg_carriers_id :: u32
  cg_carriers_number :: u32
  cg_ratio :: u32
  cg_capacity_sym :: u32
  cg_symbol_rate :: 'r
  cg_access_type :: int
  cg_slots :: "(u32, slot) omap"

definition new_carriers_group :: "u32 \<Rightarrow> u32 \<Rightarrow> 'r \<Rightarrow> int \<Rightarrow> 'r carriers_group" where
  "new_carriers_group cid ratio rate access =
     \<lparr>cg_carriers_id = cid, cg_carriers_number = 0, cg_ratio = ratio, cg_capacity_sym = 0,
      cg_symbol_rate = rate, cg_access_type = access, cg_slots = []\<rparr>"

definition cg_setCarriersNumber :: "u32 \<Rightarrow> 'r carriers_group \<Rightarrow> 'r carriers_group" where
  "cg_setCarriersNumber n g = g\<lparr>cg_carriers_number := n\<rparr>"

definition cg_getTotalCapacity :: "'r carriers_group \<Rightarrow> u32" where
  "cg_getTotalCapacity g = cg_capacity_sym g * cg_carriers_number g"

lemma unat_succ_less: "i < e \<Longrightarrow> unat ((i :: u32) + 1) = unat i + 1"
  using unat_u32_less [of e] by (intro unat_succ_u32) (simp add: word_less_nat_alt)

text \<open>
  \<open>setSlotsNumber\<close>: the loop counts in \<open>unsigned int\<close> from \<open>last_id\<close> to
  \<open>last_id + slots_nbr * carriers_number\<close>, both modulo \<open>2 ^ 32\<close>.
\<close>

function add_slots :: "u32 \<Rightarrow> u32 \<Rightarrow> u32 \<Rightarrow> (u32, slot) omap \<Rightarrow> (u32, slot) omap" where
  "add_slots cid i e m =
     (if i < e then add_slots cid (i + 1) e (om_put i (new_slot cid i) m) else m)"
  by auto

termination
  by (relation "measure (\<lambda>(cid, i, e, m). unat e - unat i)")
    (auto simp: word_less_nat_alt unat_succ_less)

declare add_slots.simps [simp del]

definition cg_setSlotsNumber :: "u32 \<Rightarrow> u32 \<Rightarrow> 'r carriers_group \<Rightarrow> 'r carriers_group" where
  "cg_setSlotsNumber slots_nbr last_id g =
     g\<lparr>cg_slots := add_slots (cg_carriers_id g) last_id
         (last_id + slots_nbr * cg_carriers_number g) (cg_slots g)\<rparr>"

definition cg_getSlotsNumber :: "'r carriers_group \<Rightarrow> u32" where
  "cg_getSlotsNumber g = of_nat (length (cg_slots g))"

section \<open>Categories\<close>

record 'r category =
  ct_label :: string
  ct_desired_access :: int
  ct_groups :: "'r carriers_group list"
  ct_other :: "'r carriers_group list"
  ct_rates :: "('r, u32) omap"            \<comment> \<open>\<open>symbol_rate_list\<close>\<close>
  ct_terminals :: "tal_id_t list"
  ct_accepted :: "sa_packet list"
  ct_received :: u32

definition new_category :: "string \<Rightarrow> int \<Rightarrow> 'r category" where
  "new_category l access = \<lparr>ct_label = l, ct_desired_access = access, ct_groups = [], ct_other = [],
     ct_rates = [], ct_terminals = [], ct_accepted = [], ct_received = 0\<rparr>"

text \<open>\<open>addCarriersGroup\<close>; for Slotted Aloha carriers \<open>addVcm\<close> does nothing.\<close>

definition ct_addCarriersGroup ::
    "u32 \<Rightarrow> u32 \<Rightarrow> 'r::linorder \<Rightarrow> int \<Rightarrow> 'r category \<Rightarrow> 'r category" where
  "ct_addCarriersGroup cid ratio rate access ct =
     (if cid \<in> cg_carriers_id ` set (ct_groups ct) \<or> cid \<in> cg_carriers_id ` set (ct_other ct) then ct
      else let g = new_carriers_group cid ratio rate access;
               ct1 = (if access = ct_desired_access ct then ct\<lparr>ct_groups := ct_groups ct @ [g]\<rparr>
                      else ct\<lparr>ct_other := ct_other ct @ [g]\<rparr>)
      in if om_find (ct_rates ct1) rate = None then ct1\<lparr>ct_rates := om_put rate 0 (ct_rates ct1)\<rparr>
         else ct1)"

definition ct_getRatio :: "'r category \<Rightarrow> u32" where
  "ct_getRatio ct = sum_list (map cg_ratio (ct_groups ct)) + sum_list (map cg_ratio (ct_other ct))"

definition ct_getCarriersNumber :: "'r category \<Rightarrow> u32" where
  "ct_getCarriersNumber ct = sum_list (map cg_carriers_number (ct_groups ct))"

text \<open>
  \<open>updateCarriersGroups\<close>: the quotient is one of unsigned integers, so the surrounding \<open>round\<close>
  does nothing; a total ratio of 0 divides by zero.
\<close>

definition group_share :: "u32 \<Rightarrow> u32 \<Rightarrow> u32 \<Rightarrow> u32" where
  "group_share carriers_number ratio total_ratio =
     (let number = carriers_number * ratio div total_ratio in if number = 0 then 1 else number)"

fun update_groups ::
    "('r \<Rightarrow> u32) \<Rightarrow> u32 \<Rightarrow> u32 \<Rightarrow> 'r::linorder carriers_group list \<Rightarrow> ('r, u32) omap
      \<Rightarrow> 'r carriers_group list \<times> ('r, u32) omap" where
  "update_groups cap n tot [] rates = ([], rates)"
| "update_groups cap n tot (g # gs) rates =
     (let number = group_share n (cg_ratio g) tot; r = cg_symbol_rate g;
          rates1 = (case om_find rates r of None \<Rightarrow> om_put r number rates
                    | Some k \<Rightarrow> om_put r (k + number) rates);
          g1 = g\<lparr>cg_carriers_number := number, cg_capacity_sym := cap r\<rparr>;
          (gs1, rates2) = update_groups cap n tot gs rates1
      in (g1 # gs1, rates2))"

definition ct_updateCarriersGroups ::
    "('r \<Rightarrow> u32) \<Rightarrow> u32 \<Rightarrow> 'r::linorder category \<Rightarrow> 'r category res" where
  "ct_updateCarriersGroups cap carriers_number ct =
     (let n = (if unat carriers_number < length (ct_groups ct) then of_nat (length (ct_groups ct))
               else carriers_number);
          (gs, rates) = update_groups cap n (ct_getRatio ct) (ct_groups ct) (ct_rates ct)
      in if ct_groups ct \<noteq> [] \<and> ct_getRatio ct = 0 then Inl DivByZero
         else Inr (ct\<lparr>ct_groups := gs, ct_rates := rates, ct_other := []\<rparr>))"

definition ct_addTerminal :: "tal_id_t \<Rightarrow> 'r category \<Rightarrow> 'r category" where
  "ct_addTerminal t ct = ct\<lparr>ct_terminals := ct_terminals ct @ [t]\<rparr>"

definition ct_removeTerminal :: "tal_id_t \<Rightarrow> 'r category \<Rightarrow> bool \<times> 'r category" where
  "ct_removeTerminal t ct =
     (if t \<in> set (ct_terminals ct) then (True, ct\<lparr>ct_terminals := remove1 t (ct_terminals ct)\<rparr>)
      else (False, ct))"

fun set_group_slots ::
    "('r carriers_group \<Rightarrow> u32) \<Rightarrow> u32 \<Rightarrow> 'r carriers_group list \<Rightarrow> 'r carriers_group list" where
  "set_group_slots slots_of tot [] = []"
| "set_group_slots slots_of tot (g # gs) =
     (let g1 = cg_setSlotsNumber (slots_of g) tot g
      in g1 # set_group_slots slots_of (tot + cg_getSlotsNumber g1) gs)"

definition ct_computeSlotsNumber :: "('r carriers_group \<Rightarrow> u32) \<Rightarrow> 'r category \<Rightarrow> 'r category" where
  "ct_computeSlotsNumber slots_of ct = ct\<lparr>ct_groups := set_group_slots slots_of 0 (ct_groups ct)\<rparr>"

definition ct_getSlotsNumber :: "'r category \<Rightarrow> u32" where
  "ct_getSlotsNumber ct = sum_list (map cg_getSlotsNumber (ct_groups ct))"

text \<open>\<open>map::insert\<close> of a range keeps the entries that are there.\<close>

fun om_insert_all :: "('k::linorder \<times> 'v) list \<Rightarrow> ('k, 'v) omap \<Rightarrow> ('k, 'v) omap" where
  "om_insert_all [] m = m"
| "om_insert_all ((k, v) # kvs) m =
     om_insert_all kvs (if om_find m k = None then om_put k v m else m)"

definition ct_getSlots :: "'r category \<Rightarrow> (u32, slot) omap" where
  "ct_getSlots ct = fold (\<lambda>g m. om_insert_all (cg_slots g) m) (ct_groups ct) []"

text \<open>
  \<open>getSlots\<close> copies pointers: writing through its result changes the slot of the first group that
  holds the key.
\<close>

fun put_group_slot ::
    "u32 \<Rightarrow> sa_packet list \<Rightarrow> 'r carriers_group list \<Rightarrow> 'r carriers_group list" where
  "put_group_slot k ps [] = []"
| "put_group_slot k ps (g # gs) =
     (case om_find (cg_slots g) k of
        None \<Rightarrow> g # put_group_slot k ps gs
      | Some s \<Rightarrow> g\<lparr>cg_slots := om_put k (s\<lparr>sl_packets := ps\<rparr>) (cg_slots g)\<rparr> # gs)"

definition ct_slots_view :: "'r category \<Rightarrow> slots" where
  "ct_slots_view ct = map (\<lambda>(k, s). (k, sl_packets s)) (ct_getSlots ct)"

definition ct_put_slots :: "slots \<Rightarrow> 'r category \<Rightarrow> 'r category" where
  "ct_put_slots sl ct =
     ct\<lparr>ct_groups := fold (\<lambda>(k, ps). put_group_slot k ps) sl (ct_groups ct)\<rparr>"

definition ct_push_slot :: "u32 \<Rightarrow> sa_packet \<Rightarrow> 'r category \<Rightarrow> 'r category option" where
  "ct_push_slot k p ct =
     (case om_find (ct_getSlots ct) k of
        None \<Rightarrow> None
      | Some s \<Rightarrow> Some (ct\<lparr>ct_groups := put_group_slot k (sl_packets s @ [p]) (ct_groups ct)\<rparr>))"

definition ct_increaseReceivedPacketsNbr :: "'r category \<Rightarrow> 'r category" where
  "ct_increaseReceivedPacketsNbr ct = ct\<lparr>ct_received := ct_received ct + 1\<rparr>"

definition ct_resetReceivedPacketsNbr :: "'r category \<Rightarrow> 'r category" where
  "ct_resetReceivedPacketsNbr ct = ct\<lparr>ct_received := 0\<rparr>"

section \<open>The slots as one map\<close>

fun group_find :: "'r carriers_group list \<Rightarrow> u32 \<Rightarrow> slot option" where
  "group_find [] k = None"
| "group_find (g # gs) k = (case om_find (cg_slots g) k of Some s \<Rightarrow> Some s | None \<Rightarrow> group_find gs k)"

lemma om_insert_all_wf [simp]: "om_wf m \<Longrightarrow> om_wf (om_insert_all kvs m)"
  by (induction kvs m rule: om_insert_all.induct) auto

lemma om_insert_all_find:
  "om_find (om_insert_all kvs m) k = (case om_find m k of Some v \<Rightarrow> Some v | None \<Rightarrow> om_find kvs k)"
  by (induction kvs m rule: om_insert_all.induct) (auto split: option.splits)

lemma fold_insert_wf: "om_wf m \<Longrightarrow> om_wf (fold (\<lambda>g m. om_insert_all (cg_slots g) m) gs m)"
  by (induction gs arbitrary: m) auto

lemma fold_insert_find:
  "om_find (fold (\<lambda>g m. om_insert_all (cg_slots g) m) gs m) k
     = (case om_find m k of Some v \<Rightarrow> Some v | None \<Rightarrow> group_find gs k)"
  by (induction gs arbitrary: m) (auto simp: om_insert_all_find split: option.splits)

lemma ct_getSlots_wf [simp]: "om_wf (ct_getSlots ct)"
  by (simp add: ct_getSlots_def fold_insert_wf)

lemma ct_getSlots_find: "om_find (ct_getSlots ct) k = group_find (ct_groups ct) k"
  by (simp add: ct_getSlots_def fold_insert_find)

lemma ct_view_wf [simp]: "om_wf (ct_slots_view ct)"
  by (simp add: ct_slots_view_def)

lemma ct_view_find:
  "om_find (ct_slots_view ct) k = map_option sl_packets (group_find (ct_groups ct) k)"
  by (simp add: ct_slots_view_def om_find_map ct_getSlots_find)

lemma put_group_slot_find:
  "map_option sl_packets (group_find (put_group_slot k ps gs) j)
     = (if j = k \<and> group_find gs k \<noteq> None then Some ps else map_option sl_packets (group_find gs j))"
  by (induction k ps gs rule: put_group_slot.induct) (auto split: option.splits)

lemma om_ext:
  assumes "om_wf m" "om_wf m'" "\<And>k. om_find m k = om_find m' k"
  shows "m = m'"
proof -
  have d: "distinct (om_keys m)" "distinct (om_keys m')" using assms om_wf_distinct by auto
  have s: "sorted (om_keys m)" "sorted (om_keys m')" 
    using assms(1,2) by (simp_all add: om_wf_def strict_sorted_iff)
  have e: "set m = set m'"
    using map_of_inject_set [OF d] assms(3) by blast
  have "inj_on fst (set m \<union> set m')" using d(1) e by (simp add: distinct_map)
  then show ?thesis using s d e by (intro map_sorted_distinct_set_unique) simp_all
qed

text \<open>Storing on a slot is \<open>om_put\<close> on the view.\<close>

lemma ct_push_slot_view:
  "ct_push_slot k p ct = (case om_find (ct_slots_view ct) k of
       None \<Rightarrow> None
     | Some ps \<Rightarrow> Some (ct\<lparr>ct_groups := put_group_slot k (ps @ [p]) (ct_groups ct)\<rparr>))"
  by (simp add: ct_push_slot_def ct_view_find ct_getSlots_find split: option.splits)

lemma put_group_slot_view:
  assumes "om_find (ct_slots_view ct) k = Some ps"
  shows "ct_slots_view (ct\<lparr>ct_groups := put_group_slot k qs (ct_groups ct)\<rparr>)
    = om_put k qs (ct_slots_view ct)"
  using assms by (intro om_ext) (auto simp: ct_view_find put_group_slot_find)

lemma fold_put_find:
  "map_option sl_packets (group_find (fold (\<lambda>(k, ps). put_group_slot k ps) sl gs) j)
     = (case om_find (rev sl) j of
          Some ps \<Rightarrow> if group_find gs j \<noteq> None then Some ps else None
        | None \<Rightarrow> map_option sl_packets (group_find gs j))"
proof (induction sl arbitrary: gs)
  case (Cons x sl)
  obtain k ps where x: "x = (k, ps)" by force
  have n: "group_find (put_group_slot k ps gs) j = None \<longleftrightarrow> group_find gs j = None"
    using put_group_slot_find [of k ps gs j] by (metis option.map_disc_iff option.distinct(1))
  show ?case
    using Cons [of "put_group_slot k ps gs"] n
    by (auto simp: x put_group_slot_find map_add_def split: option.splits)
qed simp

lemma om_find_rev: "om_wf m \<Longrightarrow> om_find (rev m) = om_find m"
  by (metis distinct_rev map_of_inject_set om_wf_distinct rev_map set_rev)

lemma ct_put_slots_view:
  assumes "om_wf sl" "om_keys sl = om_keys (ct_slots_view ct)"
  shows "ct_slots_view (ct_put_slots sl ct) = sl"
proof (rule om_ext)
  fix k
  have "om_find sl k = None \<longleftrightarrow> om_find (ct_slots_view ct) k = None"
    using assms(2) by (simp add: map_of_eq_None_iff flip: set_map)
  then show "om_find (ct_slots_view (ct_put_slots sl ct)) k = om_find sl k"
    unfolding ct_view_find by (auto simp: ct_put_slots_def fold_put_find om_find_rev [OF assms(1)]
        split: option.splits)
qed (use assms in simp_all)

section \<open>The numbering of the slots\<close>

definition cg_span :: "('r carriers_group \<Rightarrow> u32) \<Rightarrow> 'r carriers_group \<Rightarrow> nat" where
  "cg_span slots_of g = unat (slots_of g) * unat (cg_carriers_number g)"

lemma om_put_last: "\<forall>j \<in> fst ` set m. j < k \<Longrightarrow> om_put k v m = m @ [(k, v)]"
  by (induction k v m rule: om_put.induct) auto

lemma add_slots_eq:
  assumes "a \<le> b" "b < 4294967296" "\<forall>j \<in> fst ` set m. j < of_nat a"
  shows "add_slots cid (of_nat a) (of_nat b) m
    = m @ map (\<lambda>k. (of_nat k, new_slot cid (of_nat k))) [a..<b]"
  using assms
proof (induction "b - a" arbitrary: a m)
  case 0
  then show ?case by (simp add: add_slots.simps)
next
  case (Suc d)
  have lt: "a < b" using Suc.hyps(2) by simp
  have w: "unat (of_nat a :: u32) = a" "unat (of_nat b :: u32) = b"
    using Suc.prems lt by (simp_all only: u32_of_nat_id)
  then have less: "(of_nat a :: u32) < of_nat b" using lt by (simp add: word_less_nat_alt)
  let ?m = "m @ [(of_nat a, new_slot cid (of_nat a))]"
  have succ: "(of_nat a :: u32) < of_nat (a + 1)"
    using Suc.prems(2) lt u32_of_nat_id [of "a + 1"] w(1) by (simp only: word_less_nat_alt)
  have keys: "\<forall>j \<in> fst ` set ?m. j < of_nat (a + 1)"
    using Suc.prems(3) succ by (auto simp del: of_nat_add intro: less_trans)
  have "add_slots cid (of_nat a) (of_nat b) m = add_slots cid (of_nat (a + 1)) (of_nat b) ?m"
    using less Suc.prems(3) by (subst add_slots.simps) (simp add: om_put_last add.commute)
  also have "\<dots> = ?m @ map (\<lambda>k. (of_nat k, new_slot cid (of_nat k))) [a + 1..<b]"
    using Suc.hyps(1) [OF _ _ Suc.prems(2) keys] Suc.hyps(2) lt by simp
  finally show ?case using lt by (simp add: upt_conv_Cons)
qed

definition fresh_slots :: "u32 \<Rightarrow> nat \<Rightarrow> nat \<Rightarrow> (u32, slot) omap" where
  "fresh_slots cid a b = map (\<lambda>k. (of_nat k, new_slot cid (of_nat k))) [a..<b]"

lemma set_slots_fresh:
  assumes "cg_slots g = []" "a + cg_span slots_of g < 4294967296"
  shows "cg_slots (cg_setSlotsNumber (slots_of g) (of_nat a) g)
    = fresh_slots (cg_carriers_id g) a (a + cg_span slots_of g)"
proof -
  have "of_nat a + slots_of g * cg_carriers_number g = (of_nat (a + cg_span slots_of g) :: u32)"
    by (simp add: cg_span_def)
  then show ?thesis
    using add_slots_eq [of a "a + cg_span slots_of g" "[]"] assms
    by (simp add: cg_setSlotsNumber_def fresh_slots_def)
qed

lemma set_group_slots_fresh:
  assumes "\<forall>g \<in> set gs. cg_slots g = []" "a + (\<Sum>g\<leftarrow>gs. cg_span slots_of g) < 4294967296"
  shows "map fst (concat (map cg_slots (set_group_slots slots_of (of_nat a) gs)))
      = map of_nat [a..<a + (\<Sum>g\<leftarrow>gs. cg_span slots_of g)]
    \<and> (\<forall>(k, s) \<in> set (concat (map cg_slots (set_group_slots slots_of (of_nat a) gs))).
        sl_slot_id s = k \<and> sl_packets s = [])"
  using assms
proof (induction gs arbitrary: a)
  case (Cons g gs)
  let ?s = "cg_span slots_of g"
  have g: "cg_slots (cg_setSlotsNumber (slots_of g) (of_nat a) g)
      = fresh_slots (cg_carriers_id g) a (a + ?s)"
    using Cons.prems by (intro set_slots_fresh) simp_all
  have nxt: "of_nat a + of_nat (length (fresh_slots (cg_carriers_id g) a (a + ?s))) = (of_nat (a + ?s) :: u32)"
    by (simp add: fresh_slots_def)
  have IH: "map fst (concat (map cg_slots (set_group_slots slots_of (of_nat (a + ?s)) gs)))
      = map of_nat [a + ?s..<a + ?s + (\<Sum>g\<leftarrow>gs. cg_span slots_of g)]
    \<and> (\<forall>(k, s) \<in> set (concat (map cg_slots (set_group_slots slots_of (of_nat (a + ?s)) gs))).
        sl_slot_id s = k \<and> sl_packets s = [])"
    using Cons.prems by (intro Cons.IH) (simp_all add: add.assoc)
  have fr: "map fst (fresh_slots c a b) = map of_nat [a..<b]"
    "\<forall>(k, s) \<in> set (fresh_slots c a b). sl_slot_id s = k \<and> sl_packets s = []" for c a b
    by (auto simp: fresh_slots_def new_slot_def)
  have app: "[a..<a + (?s + t)] = [a..<a + ?s] @ [a + ?s..<a + ?s + t]" for t
    using upt_add_eq_append [of a "a + ?s" t] by (simp only: add.assoc le_add1)
  have sg: "set_group_slots slots_of (of_nat a) (g # gs)
      = cg_setSlotsNumber (slots_of g) (of_nat a) g # set_group_slots slots_of (of_nat (a + ?s)) gs"
    unfolding set_group_slots.simps Let_def cg_getSlotsNumber_def g nxt ..
  have cc: "concat (map cg_slots (set_group_slots slots_of (of_nat a) (g # gs)))
      = fresh_slots (cg_carriers_id g) a (a + ?s)
        @ concat (map cg_slots (set_group_slots slots_of (of_nat (a + ?s)) gs))"
    unfolding sg by (simp only: list.map concat.simps g)
  have sm: "(\<Sum>g\<leftarrow>g # gs. cg_span slots_of g) = ?s + (\<Sum>g\<leftarrow>gs. cg_span slots_of g)" by simp
  show ?case
    unfolding cc sm map_append app set_append fr(1) IH [THEN conjunct1]
    using fr(2) IH [THEN conjunct2] by blast
qed simp

lemma sorted_of_nat_upt: "b \<le> 4294967296 \<Longrightarrow> sorted_wrt (<) (map (of_nat :: nat \<Rightarrow> u32) [a..<b])"
  unfolding sorted_wrt_map
  by (rule sorted_wrt_mono_rel [OF _ sorted_wrt_upt]) (auto simp: word_less_nat_alt u32_of_nat_id)

lemma om_insert_all_append:
  "om_wf (m @ kvs) \<Longrightarrow> om_insert_all kvs m = m @ kvs"
proof (induction kvs m rule: om_insert_all.induct)
  case (2 k v kvs m)
  have lt: "\<forall>j \<in> fst ` set m. j < k"
    using "2.prems" by (auto simp: om_wf_def sorted_wrt_append)
  then have "k \<notin> fst ` set m" by auto
  then have "om_find m k = None" by (rule om_find_notin)
  then show ?case using 2 lt by (simp add: om_put_last)
qed simp

lemma om_wf_appendD: "om_wf (m @ n) \<Longrightarrow> om_wf m"
  by (simp add: om_wf_def sorted_wrt_append)

lemma fold_insert_concat:
  "om_wf (m @ concat (map cg_slots gs)) \<Longrightarrow>
     fold (\<lambda>g m. om_insert_all (cg_slots g) m) gs m = m @ concat (map cg_slots gs)"
proof (induction gs arbitrary: m)
  case (Cons g gs)
  have "om_wf (m @ cg_slots g)"
    using Cons.prems om_wf_appendD [of "m @ cg_slots g" "concat (map cg_slots gs)"] by simp
  then show ?case using Cons by (simp add: om_insert_all_append)
qed simp

section \<open>Properties\<close>

lemma slots_numbered:
  assumes "\<forall>g \<in> set (ct_groups ct). cg_slots g = []"
    and "(\<Sum>g\<leftarrow>ct_groups ct. cg_span slots_of g) < 4294967296"
  shows "om_keys (ct_getSlots (ct_computeSlotsNumber slots_of ct))
      = map of_nat [0..<(\<Sum>g\<leftarrow>ct_groups ct. cg_span slots_of g)]"
    and "\<forall>(k, s) \<in> set (ct_getSlots (ct_computeSlotsNumber slots_of ct)). sl_slot_id s = k \<and> sl_packets s = []"
    and "ct_getSlotsNumber (ct_computeSlotsNumber slots_of ct)
      = of_nat (\<Sum>g\<leftarrow>ct_groups ct. cg_span slots_of g)"
proof -
  let ?N = "\<Sum>g\<leftarrow>ct_groups ct. cg_span slots_of g"
  let ?gs = "set_group_slots slots_of 0 (ct_groups ct)"
  have f: "map fst (concat (map cg_slots ?gs)) = map of_nat [0..<?N]"
    "\<forall>(k, s) \<in> set (concat (map cg_slots ?gs)). sl_slot_id s = k \<and> sl_packets s = []"
    using set_group_slots_fresh [of "ct_groups ct" 0 slots_of] assms by simp_all
  then have "om_wf (concat (map cg_slots ?gs))"
    using sorted_of_nat_upt [of ?N 0] assms(2) by (simp add: om_wf_def)
  then have g: "ct_getSlots (ct_computeSlotsNumber slots_of ct) = concat (map cg_slots ?gs)"
    using fold_insert_concat [of "[]" ?gs] by (simp add: ct_getSlots_def ct_computeSlotsNumber_def)
  show "om_keys (ct_getSlots (ct_computeSlotsNumber slots_of ct)) = map of_nat [0..<?N]"
    "\<forall>(k, s) \<in> set (ct_getSlots (ct_computeSlotsNumber slots_of ct)). sl_slot_id s = k \<and> sl_packets s = []"
    using f unfolding g by blast+
  have "length (concat (map cg_slots ?gs)) = ?N"
    using arg_cong [OF f(1), of length] by simp
  moreover have "sum_list (map cg_getSlotsNumber hs) = of_nat (length (concat (map cg_slots hs)))"
    for hs :: "'a carriers_group list"
    by (induction hs) (simp_all add: cg_getSlotsNumber_def)
  ultimately show "ct_getSlotsNumber (ct_computeSlotsNumber slots_of ct) = of_nat ?N"
    by (simp add: ct_getSlotsNumber_def ct_computeSlotsNumber_def)
qed

text \<open>
  C26: The slots of a category are numbered without a gap or an overlap: whatever the carriers
  groups, \<open>computeSlotsNumber\<close> gives the category the slots \<open>0\<close> to \<open>N - 1\<close>, all empty and each
  knowing its number, where \<open>N\<close> is the sum over the groups of slots per carrier times carriers, and
  \<open>getSlotsNumber\<close> returns \<open>N\<close>.
\<close>

theorem slot_numbering:
  assumes "\<forall>g \<in> set (ct_groups ct). cg_slots g = []"
    and "(\<Sum>g\<leftarrow>ct_groups ct. unat (slots_of g) * unat (cg_carriers_number g)) < 4294967296"
  shows "om_keys (ct_getSlots (ct_computeSlotsNumber slots_of ct))
      = map of_nat [0..<(\<Sum>g\<leftarrow>ct_groups ct. unat (slots_of g) * unat (cg_carriers_number g))]
    \<and> (\<forall>(k, s) \<in> set (ct_getSlots (ct_computeSlotsNumber slots_of ct)).
         sl_slot_id s = k \<and> sl_packets s = [])
    \<and> unat (ct_getSlotsNumber (ct_computeSlotsNumber slots_of ct))
      = (\<Sum>g\<leftarrow>ct_groups ct. unat (slots_of g) * unat (cg_carriers_number g))"
  using slots_numbered [of ct slots_of, unfolded cg_span_def, OF assms] assms(2)
  by (simp only: u32_of_nat_id simp_thms)

definition demo_category :: "nat category" where
  "demo_category =
     (case ct_updateCarriersGroups (\<lambda>r. 0) 3
        (ct_addCarriersGroup 2 1 9 4 (ct_addCarriersGroup 1 2 7 4 (new_category ''Standard'' 4))) of
        Inr ct \<Rightarrow> ct | Inl _ \<Rightarrow> new_category [] 0)"

lemma demo_category_groups:
  "ct_groups demo_category
     = [(new_carriers_group 1 2 7 4)\<lparr>cg_carriers_number := 2\<rparr>,
        (new_carriers_group 2 1 9 4)\<lparr>cg_carriers_number := 1\<rparr>]"
  by (simp add: demo_category_def ct_updateCarriersGroups_def ct_addCarriersGroup_def new_category_def
      new_carriers_group_def ct_getRatio_def group_share_def Let_def)

theorem slot_numbering_witness:
  "om_keys (ct_getSlots (ct_computeSlotsNumber (\<lambda>g. 2) demo_category)) = [0, 1, 2, 3, 4, 5]"
proof -
  have "\<forall>g \<in> set (ct_groups demo_category). cg_slots g = []"
    "(\<Sum>g\<leftarrow>ct_groups demo_category. unat (2 :: u32) * unat (cg_carriers_number g)) = 6"
    by (simp_all add: demo_category_groups new_carriers_group_def)
  with slot_numbering [of demo_category "\<lambda>g. 2"] show ?thesis
    by (simp add: upt_rec)
qed

end
