(* ===== verification/DvbFifo.thy ===== *)
theory DvbFifo
  imports Prelude
begin

text \<open>
  The MAC FIFOs (\<open>dvb/utils/DvbFifo.cpp\<close>, \<open>dvb/utils/MacFifoElement.cpp\<close>): the queue of
  elements, its counters and its statistics. The virtual \<open>getTotalLength\<close> of the contained
  packet is the parameter \<open>len\<close>. Every public operation holds the FIFO's mutex for its whole
  body, so operations are atomic steps. The locale \<open>bounded_fifo\<close> is what the schedulers
  rely on.
\<close>

section \<open>Elements\<close>

record 'e fifo_elem =
  fe_elem :: 'e
  fe_tick_in :: int
  fe_tick_out :: int

definition new_fifo_elem :: "'e \<Rightarrow> int \<Rightarrow> int \<Rightarrow> 'e fifo_elem" where
  "new_fifo_elem e tin tout = \<lparr>fe_elem = e, fe_tick_in = tin, fe_tick_out = tout\<rparr>"

definition fe_setElem :: "'e \<Rightarrow> 'e fifo_elem \<Rightarrow> 'e fifo_elem" where
  "fe_setElem e x = x\<lparr>fe_elem := e\<rparr>"

definition fe_getTotalLength :: "('e \<Rightarrow> nat) \<Rightarrow> 'e fifo_elem \<Rightarrow> nat" where
  "fe_getTotalLength len x = len (fe_elem x)"

section \<open>The FIFO\<close>

record fifo_stats =
  current_pkt_nbr :: vol_pkt_t
  current_length_bytes :: vol_bytes_t
  in_pkt_nbr :: vol_pkt_t
  out_pkt_nbr :: vol_pkt_t
  in_length_bytes :: vol_bytes_t
  out_length_bytes :: vol_bytes_t
  drop_pkt_nbr :: vol_pkt_t
  drop_bytes :: vol_bytes_t

record 'e dvb_fifo =
  fi_queue :: "'e fifo_elem list"
  fi_priority :: u32
  fi_name :: string
  fi_access_type :: int
  fi_vcm_id :: u32
  fi_new_size_pkt :: vol_pkt_t
  fi_cur_length_bytes :: vol_bytes_t
  fi_new_length_bytes :: vol_bytes_t
  fi_max_size_pkt :: vol_pkt_t
  fi_carrier_id :: u8
  fi_stat :: fifo_stats
  fi_cni :: u8

text \<open>
  The access types: \<open>ret_access_type_t\<close> of \<open>dvb/utils/Sac.h\<close> and \<open>fwd_access_type_t\<close>. The field is
  an \<open>int\<close> that both enumerations share, so \<open>access_acm\<close> and \<open>access_dama_vbdc\<close> coincide, as do
  \<open>access_vcm\<close> and \<open>access_dama_rbdc\<close>.
\<close>

definition access_acm :: int where "access_acm = 0"
definition access_vcm :: int where "access_vcm = 1"
definition access_dama_vbdc :: int where "access_dama_vbdc = 0"
definition access_dama_rbdc :: int where "access_dama_rbdc = 1"
definition access_dama_avbdc :: int where "access_dama_avbdc = 2"
definition access_dama_cra :: int where "access_dama_cra = 3"
definition access_saloha :: int where "access_saloha = 4"

definition zero_stats :: fifo_stats where
  "zero_stats = \<lparr>current_pkt_nbr = 0, current_length_bytes = 0, in_pkt_nbr = 0, out_pkt_nbr = 0,
     in_length_bytes = 0, out_length_bytes = 0, drop_pkt_nbr = 0, drop_bytes = 0\<rparr>"

text \<open>\<open>sscanf(s, "VCM%d", &vcm_id)\<close>: without a number behind the prefix the target stays.\<close>

definition code_of :: "char \<Rightarrow> nat" where
  "code_of c = of_char c"

definition scan_int :: "string \<Rightarrow> int option" where
  "scan_int s =
     (let t = dropWhile (\<lambda>c. code_of c = 32 \<or> 9 \<le> code_of c \<and> code_of c \<le> 13) s;
          neg = (t \<noteq> [] \<and> code_of (hd t) = 45);
          u = (if t \<noteq> [] \<and> (code_of (hd t) = 45 \<or> code_of (hd t) = 43) then tl t else t);
          ds = takeWhile (\<lambda>c. 48 \<le> code_of c \<and> code_of c \<le> 57) u;
          v = foldl (\<lambda>a c. 10 * a + (int (code_of c) - 48)) 0 ds
      in if ds = [] then None else Some (if neg then - v else v))"

definition type_access :: "string \<Rightarrow> int" where
  "type_access type_name =
     (if type_name = ''DAMA_RBDC'' then access_dama_rbdc
      else if type_name = ''DAMA_VBDC'' then access_dama_vbdc
      else if type_name = ''SALOHA'' then access_saloha
      else if type_name = ''DAMA_CRA'' then access_dama_cra
      else if type_name = ''ACM'' then access_acm
      else if take 3 type_name = ''VCM'' then access_vcm
      else 0)"

text \<open>
  The constructor of a terminal's FIFO. \<open>cur_length_bytes\<close> and \<open>new_length_bytes\<close> are missing from
  its initialiser list: they start with whatever the memory held (\<open>junk\<close>).
\<close>

definition new_dvb_fifo ::
    "vol_bytes_t \<times> vol_bytes_t \<Rightarrow> u32 \<Rightarrow> string \<Rightarrow> string \<Rightarrow> vol_pkt_t \<Rightarrow> 'e dvb_fifo" where
  "new_dvb_fifo junk prio name type_name max_size =
     \<lparr>fi_queue = [], fi_priority = prio, fi_name = name, fi_access_type = type_access type_name,
      fi_vcm_id =
        (if type_access type_name = access_vcm \<and> take 3 type_name = ''VCM''
         then (case scan_int (drop 3 type_name) of None \<Rightarrow> 0 | Some v \<Rightarrow> word_of_int v) else 0),
      fi_new_size_pkt = 0, fi_cur_length_bytes = fst junk, fi_new_length_bytes = snd junk,
      fi_max_size_pkt = max_size, fi_carrier_id = 0, fi_stat = zero_stats, fi_cni = 0\<rparr>"

text \<open>The constructor of a carrier's FIFO, which leaves \<open>cni\<close> uninitialised too.\<close>

definition new_carrier_fifo ::
    "vol_bytes_t \<times> vol_bytes_t \<times> u32 \<times> u8 \<Rightarrow> u8 \<Rightarrow> vol_pkt_t \<Rightarrow> string \<Rightarrow> 'e dvb_fifo" where
  "new_carrier_fifo junk carrier_id max_size name =
     \<lparr>fi_queue = [], fi_priority = 0, fi_name = name, fi_access_type = 0,
      fi_vcm_id = fst (snd (snd junk)), fi_new_size_pkt = 0, fi_cur_length_bytes = fst junk,
      fi_new_length_bytes = fst (snd junk), fi_max_size_pkt = max_size,
      fi_carrier_id = carrier_id, fi_stat = zero_stats, fi_cni = snd (snd (snd junk))\<rparr>"

definition fifo_getCurrentSize :: "'e dvb_fifo \<Rightarrow> vol_pkt_t" where
  "fifo_getCurrentSize f = of_nat (length (fi_queue f))"

definition fifo_getTickOut :: "'e dvb_fifo \<Rightarrow> int" where
  "fifo_getTickOut f = (case fi_queue f of [] \<Rightarrow> 0 | x # _ \<Rightarrow> fe_tick_out x)"

definition fifo_resetNew :: "int \<Rightarrow> 'e dvb_fifo \<Rightarrow> 'e dvb_fifo" where
  "fifo_resetNew cr_type f =
     (if fi_access_type f = cr_type then f\<lparr>fi_new_size_pkt := 0, fi_new_length_bytes := 0\<rparr> else f)"

definition fifo_resetStats :: "'e dvb_fifo \<Rightarrow> 'e dvb_fifo" where
  "fifo_resetStats f = f\<lparr>fi_stat := (fi_stat f)\<lparr>in_pkt_nbr := 0, out_pkt_nbr := 0,
     in_length_bytes := 0, out_length_bytes := 0, drop_pkt_nbr := 0, drop_bytes := 0\<rparr>\<rparr>"

definition fifo_push :: "('e \<Rightarrow> nat) \<Rightarrow> 'e fifo_elem \<Rightarrow> 'e dvb_fifo \<Rightarrow> bool \<times> 'e dvb_fifo" where
  "fifo_push len x f =
     (let l = of_nat (fe_getTotalLength len x); st = fi_stat f
      in if unat (fi_max_size_pkt f) \<le> length (fi_queue f)
         then (False, f\<lparr>fi_stat := st\<lparr>drop_pkt_nbr := drop_pkt_nbr st + 1,
                                       drop_bytes := drop_bytes st + l\<rparr>\<rparr>)
         else (True, f\<lparr>fi_queue := fi_queue f @ [x],
                 fi_new_size_pkt := fi_new_size_pkt f + 1,
                 fi_new_length_bytes := fi_new_length_bytes f + l,
                 fi_cur_length_bytes := fi_cur_length_bytes f + l,
                 fi_stat := st\<lparr>current_pkt_nbr := of_nat (length (fi_queue f) + 1),
                               in_pkt_nbr := in_pkt_nbr st + 1,
                               current_length_bytes := current_length_bytes st + l,
                               in_length_bytes := in_length_bytes st + l\<rparr>\<rparr>))"

text \<open>Putting a fragment back, in front or behind: the new counters do not move.\<close>

definition fifo_putBack ::
    "('e \<Rightarrow> nat) \<Rightarrow> 'e fifo_elem \<Rightarrow> 'e fifo_elem list \<Rightarrow> 'e dvb_fifo \<Rightarrow> bool \<times> 'e dvb_fifo" where
  "fifo_putBack len x q f =
     (let l = of_nat (fe_getTotalLength len x); st = fi_stat f
      in if length (fi_queue f) < unat (fi_max_size_pkt f)
         then (True, f\<lparr>fi_queue := q, fi_cur_length_bytes := fi_cur_length_bytes f + l,
                 fi_stat := st\<lparr>current_pkt_nbr := of_nat (length q),
                               current_length_bytes := current_length_bytes st + l,
                               out_length_bytes := out_length_bytes st - l\<rparr>\<rparr>)
         else (False, f))"

definition fifo_pushFront :: "('e \<Rightarrow> nat) \<Rightarrow> 'e fifo_elem \<Rightarrow> 'e dvb_fifo \<Rightarrow> bool \<times> 'e dvb_fifo" where
  "fifo_pushFront len x f = fifo_putBack len x (x # fi_queue f) f"

definition fifo_pushBack :: "('e \<Rightarrow> nat) \<Rightarrow> 'e fifo_elem \<Rightarrow> 'e dvb_fifo \<Rightarrow> bool \<times> 'e dvb_fifo" where
  "fifo_pushBack len x f = fifo_putBack len x (fi_queue f @ [x]) f"

definition fifo_pop :: "('e \<Rightarrow> nat) \<Rightarrow> 'e dvb_fifo \<Rightarrow> 'e fifo_elem option \<times> 'e dvb_fifo" where
  "fifo_pop len f =
     (case fi_queue f of
        [] \<Rightarrow> (None, f)
      | x # q \<Rightarrow>
          let l = of_nat (fe_getTotalLength len x); st = fi_stat f
          in (Some x, f\<lparr>fi_queue := q, fi_cur_length_bytes := fi_cur_length_bytes f - l,
                fi_stat := st\<lparr>current_pkt_nbr := of_nat (length q),
                              out_pkt_nbr := out_pkt_nbr st + 1,
                              current_length_bytes := current_length_bytes st - l,
                              out_length_bytes := out_length_bytes st + l\<rparr>\<rparr>))"

definition fifo_flush :: "'e dvb_fifo \<Rightarrow> 'e dvb_fifo" where
  "fifo_flush f = fifo_resetStats (f\<lparr>fi_queue := [], fi_new_size_pkt := 0,
     fi_new_length_bytes := 0, fi_cur_length_bytes := 0\<rparr>)"

definition fifo_getStatsCxt :: "'e dvb_fifo \<Rightarrow> fifo_stats \<times> 'e dvb_fifo" where
  "fifo_getStatsCxt f = (fi_stat f, fifo_resetStats f)"

section \<open>The contract the schedulers rely on\<close>

text \<open>\<open>drain\<close> pops up to \<open>n\<close> elements, as the scheduling loops do.\<close>

fun drain :: "('f \<Rightarrow> 'x option \<times> 'f) \<Rightarrow> nat \<Rightarrow> 'f \<Rightarrow> 'x list \<times> 'f" where
  "drain pop 0 f = ([], f)"
| "drain pop (Suc n) f =
     (case pop f of
        (None, f') \<Rightarrow> ([], f')
      | (Some x, f') \<Rightarrow> (let (xs, f'') = drain pop n f' in (x # xs, f'')))"

fun push_all :: "('x \<Rightarrow> 'f \<Rightarrow> bool \<times> 'f) \<Rightarrow> 'x list \<Rightarrow> 'f \<Rightarrow> bool list \<times> 'f" where
  "push_all push [] f = ([], f)"
| "push_all push (x # xs) f =
     (let (b, f') = push x f; (bs, f'') = push_all push xs f' in (b # bs, f''))"

locale bounded_fifo =
  fixes push :: "'x \<Rightarrow> 'f \<Rightarrow> bool \<times> 'f"
    and pop :: "'f \<Rightarrow> 'x option \<times> 'f"
    and content :: "'f \<Rightarrow> 'x list"
    and cap :: "'f \<Rightarrow> nat"
  assumes push_room: "length (content f) < cap f \<Longrightarrow>
      \<exists>f'. push x f = (True, f') \<and> content f' = content f @ [x] \<and> cap f' = cap f"
    and push_full: "cap f \<le> length (content f) \<Longrightarrow>
      \<exists>f'. push x f = (False, f') \<and> content f' = content f \<and> cap f' = cap f"
    and pop_nil: "content f = [] \<Longrightarrow> pop f = (None, f)"
    and pop_cons: "content f = x # xs \<Longrightarrow>
      \<exists>f'. pop f = (Some x, f') \<and> content f' = xs \<and> cap f' = cap f"
begin

lemma push_all_content:
  assumes "length (content f) \<le> cap f"
  shows "\<exists>f'. push_all push xs f = (map (\<lambda>i. i < cap f - length (content f)) [0..<length xs], f')
    \<and> content f' = take (cap f) (content f @ xs) \<and> cap f' = cap f"
  using assms
proof (induction xs arbitrary: f)
  case Nil
  then show ?case by simp
next
  case (Cons x xs)
  show ?case
  proof (cases "length (content f) < cap f")
    case True
    then obtain g where g: "push x f = (True, g)" "content g = content f @ [x]" "cap g = cap f"
      using push_room by blast
    have idx: "map (\<lambda>i. i < cap f - length (content f)) [0..<length (x # xs)]
        = True # map (\<lambda>i. i < cap g - length (content g)) [0..<length xs]"
      using True g by (simp add: upt_conv_Cons map_Suc_upt [symmetric] del: upt_Suc) auto
    show ?thesis using Cons.IH [of g] True g unfolding idx by auto
  next
    case False
    then obtain g where g: "push x f = (False, g)" "content g = content f" "cap g = cap f"
      using push_full by (meson not_less)
    have "cap f - length (content f) = 0" using False by simp
    then show ?thesis using Cons.IH [of g] Cons.prems False g
      by (auto simp: map_replicate_const upt_conv_Cons simp del: upt_Suc)
  qed
qed

lemma drain_content:
  "\<exists>f'. drain pop n f = (take n (content f), f') \<and> content f' = drop n (content f) \<and>
     (n \<le> length (content f) \<longrightarrow> cap f' = cap f)"
proof (induction n arbitrary: f)
  case 0
  then show ?case by simp
next
  case (Suc n)
  show ?case
  proof (cases "content f")
    case Nil
    then show ?thesis using pop_nil by simp
  next
    case (Cons x xs)
    then obtain g where g: "pop f = (Some x, g)" "content g = xs" "cap g = cap f"
      using pop_cons by blast
    then show ?thesis using Suc.IH [of g] Cons by auto
  qed
qed

end

interpretation fifo: bounded_fifo "fifo_push len" "fifo_pop len" fi_queue
  "\<lambda>f. unat (fi_max_size_pkt f)" for len :: "'e \<Rightarrow> nat"
proof
  fix f :: "'e dvb_fifo" and x
  assume "length (fi_queue f) < unat (fi_max_size_pkt f)"
  then show "\<exists>f'. fifo_push len x f = (True, f') \<and> fi_queue f' = fi_queue f @ [x]
      \<and> unat (fi_max_size_pkt f') = unat (fi_max_size_pkt f)"
    by (simp add: fifo_push_def Let_def)
qed (simp_all add: fifo_push_def fifo_pop_def Let_def)

section \<open>Properties\<close>

text \<open>
  C31: A FIFO is first in, first out and bounded: of the elements offered to an empty FIFO those
  that find room are accepted and the others refused, and popping returns the accepted ones in
  the order they were offered.
\<close>

theorem fifo_order:
  assumes "fi_queue f = []" "push_all (fifo_push len) xs f = (bs, g)"
  shows "bs = map (\<lambda>i. i < unat (fi_max_size_pkt f)) [0..<length xs]
    \<and> fst (drain (fifo_pop len) n g) = take n (take (unat (fi_max_size_pkt f)) xs)"
  using fifo.push_all_content [of f len xs] fifo.drain_content [of len n g] assms by auto

theorem fifo_order_witness:
  "fst (drain (fifo_pop length) 5 (snd (push_all (fifo_push length)
      [new_fifo_elem ''a'' 0 0, new_fifo_elem ''b'' 0 0, new_fifo_elem ''c'' 0 0]
      (new_dvb_fifo (7, 9) 1 ''EF'' ''SALOHA'' 2))))
   = [new_fifo_elem ''a'' 0 0, new_fifo_elem ''b'' 0 0]"
proof -
  let ?f = "new_dvb_fifo (7, 9) 1 ''EF'' ''SALOHA'' 2"
  let ?xs = "[new_fifo_elem ''a'' 0 0, new_fifo_elem ''b'' 0 0, new_fifo_elem ''c'' 0 0]"
  obtain bs g where g: "push_all (fifo_push length) ?xs ?f = (bs, g)"
    by (cases "push_all (fifo_push length) ?xs ?f")
  have "fi_queue ?f = []" by (simp add: new_dvb_fifo_def)
  from fifo_order [OF this g, of 5] g show ?thesis by (simp add: new_dvb_fifo_def)
qed

text \<open>Sequences of the data operations, between two reports of the statistics.\<close>

datatype 'e fifo_op = FPush "'e fifo_elem" | FPushFront "'e fifo_elem" | FPushBack "'e fifo_elem" | FPop

fun fifo_apply :: "('e \<Rightarrow> nat) \<Rightarrow> 'e fifo_op \<Rightarrow> 'e dvb_fifo \<Rightarrow> 'e dvb_fifo" where
  "fifo_apply len (FPush x) f = snd (fifo_push len x f)"
| "fifo_apply len (FPushFront x) f = snd (fifo_pushFront len x f)"
| "fifo_apply len (FPushBack x) f = snd (fifo_pushBack len x f)"
| "fifo_apply len FPop f = snd (fifo_pop len f)"

definition queue_bytes :: "('e \<Rightarrow> nat) \<Rightarrow> 'e dvb_fifo \<Rightarrow> vol_bytes_t" where
  "queue_bytes len f = (\<Sum>x \<leftarrow> fi_queue f. of_nat (fe_getTotalLength len x))"

definition byte_ledger :: "'e dvb_fifo \<Rightarrow> vol_bytes_t" where
  "byte_ledger f = in_length_bytes (fi_stat f) - out_length_bytes (fi_stat f)
     - current_length_bytes (fi_stat f)"

definition byte_drift :: "('e \<Rightarrow> nat) \<Rightarrow> 'e dvb_fifo \<Rightarrow> vol_bytes_t" where
  "byte_drift len f = fi_cur_length_bytes f - queue_bytes len f"

lemma fifo_op_ledger:
  "byte_ledger (fifo_apply len p f) = byte_ledger f"
  "byte_drift len (fifo_apply len p f) = byte_drift len f"
  "fi_max_size_pkt (fifo_apply len p f) = fi_max_size_pkt f"
  "length (fi_queue f) \<le> unat (fi_max_size_pkt f) \<Longrightarrow>
     length (fi_queue (fifo_apply len p f)) \<le> unat (fi_max_size_pkt f)"
  "current_pkt_nbr (fi_stat f) = of_nat (length (fi_queue f)) \<Longrightarrow>
     current_pkt_nbr (fi_stat (fifo_apply len p f)) = of_nat (length (fi_queue (fifo_apply len p f)))"
  by (cases p; auto simp: byte_ledger_def byte_drift_def queue_bytes_def fifo_push_def
      fifo_pushFront_def fifo_pushBack_def fifo_putBack_def fifo_pop_def Let_def algebra_simps
      split: list.splits)+

lemma fifo_run_ledger:
  "byte_ledger (fold (fifo_apply len) ops f) = byte_ledger f"
  "byte_drift len (fold (fifo_apply len) ops f) = byte_drift len f"
  "length (fi_queue f) \<le> unat (fi_max_size_pkt f) \<Longrightarrow>
     length (fi_queue (fold (fifo_apply len) ops f)) \<le> unat (fi_max_size_pkt f)"
  "current_pkt_nbr (fi_stat f) = of_nat (length (fi_queue f)) \<Longrightarrow>
     current_pkt_nbr (fi_stat (fold (fifo_apply len) ops f))
       = of_nat (length (fi_queue (fold (fifo_apply len) ops f)))"
proof (induction ops arbitrary: f)
  case (Cons p ops)
  {
    case 1 show ?case using Cons.IH(1) by (simp add: fifo_op_ledger)
  next
    case 2 show ?case using Cons.IH(2) by (simp add: fifo_op_ledger)
  next
    case 3 then show ?case using Cons.IH(3) [of "fifo_apply len p f"] by (simp add: fifo_op_ledger)
  next
    case 4 then show ?case using Cons.IH(4) [of "fifo_apply len p f"] by (simp add: fifo_op_ledger)
  }
qed simp_all

definition fifo_from :: "('e \<Rightarrow> nat) \<Rightarrow> vol_bytes_t \<times> vol_bytes_t \<Rightarrow> string \<Rightarrow> vol_pkt_t
    \<Rightarrow> 'e fifo_op list \<Rightarrow> 'e dvb_fifo" where
  "fifo_from len junk ty mx ops =
     fold (fifo_apply len) ops (new_dvb_fifo junk 0 ''fifo'' ty mx)"

text \<open>The books of a FIFO balance over any run of its operations from construction: bytes in minus
  bytes out is the statistic of the bytes held, modulo \<open>2 ^ 32\<close>; the FIFO never holds more
  than its maximum; and \<open>getCurrentDataLength\<close> is the real content plus the uninitialised value the
  constructor left in \<open>cur_length_bytes\<close>.
\<close>

theorem fifo_books:
  "in_length_bytes (fi_stat (fifo_from len junk ty mx ops))
      - out_length_bytes (fi_stat (fifo_from len junk ty mx ops))
    = current_length_bytes (fi_stat (fifo_from len junk ty mx ops))
    \<and> length (fi_queue (fifo_from len junk ty mx ops)) \<le> unat mx
    \<and> fi_cur_length_bytes (fifo_from len junk ty mx ops)
        = fst junk + queue_bytes len (fifo_from len junk ty mx ops)"
proof -
  let ?n = "new_dvb_fifo junk 0 ''fifo'' ty mx"
  have n: "byte_ledger ?n = 0" "byte_drift len ?n = fst junk"
    by (simp_all add: byte_ledger_def byte_drift_def queue_bytes_def new_dvb_fifo_def zero_stats_def)
  have a: "byte_ledger (fifo_from len junk ty mx ops) = 0"
    "byte_drift len (fifo_from len junk ty mx ops) = fst junk"
    unfolding fifo_from_def fifo_run_ledger(1,2) using n(1,2) by blast+
  have b: "length (fi_queue (fifo_from len junk ty mx ops)) \<le> unat mx"
    unfolding fifo_from_def using fifo_run_ledger(3) [of ?n len ops] by (simp add: new_dvb_fifo_def)
  show ?thesis
    using a(1) a(2) [symmetric] b unfolding byte_ledger_def byte_drift_def by simp
qed

text \<open>Flushing a FIFO leaves its statistics stale: the queue is empty, yet the next report still
  shows the number of packets held before the flush.
\<close>

theorem flush_stale_statistics:
  "fi_queue (fifo_flush (fifo_from len junk ty mx ops)) = []
    \<and> fi_cur_length_bytes (fifo_flush (fifo_from len junk ty mx ops)) = 0
    \<and> current_pkt_nbr (fst (fifo_getStatsCxt (fifo_flush (fifo_from len junk ty mx ops))))
        = of_nat (length (fi_queue (fifo_from len junk ty mx ops)))"
proof -
  let ?n = "new_dvb_fifo junk 0 ''fifo'' ty mx"
  have "current_pkt_nbr (fi_stat ?n) = of_nat (length (fi_queue ?n))"
    by (simp add: new_dvb_fifo_def zero_stats_def)
  from fifo_run_ledger(4) [OF this, of len ops] show ?thesis
    unfolding fifo_from_def by (simp add: fifo_flush_def fifo_resetStats_def fifo_getStatsCxt_def)
qed

end
