(* ===== verification/SalohaTal.thy ===== *)
theory SalohaTal
  imports SalohaFrame SalohaBackoff SalohaSlots SalohaCategory DvbFifo
begin

text \<open>
  The Slotted Aloha terminal: \<open>dvb/saloha/SlottedAlohaTal.cpp\<close> on \<open>dvb/saloha/SlottedAloha.cpp\<close>.
  \<open>probes\<close> are the QoS for which \<open>init\<close> registered probes: putting a value in any other one
  dereferences a null pointer. A slot iterator is the list of the slots still ahead of it; the
  packets deleted are logged by address.
\<close>

section \<open>State\<close>

record 'r tal =
  tl_tal_id :: tal_id_t
  tl_timeout_saf :: time_sf_t
  tl_wait_ack :: "(qos_t, sa_packet list) omap"   \<comment> \<open>\<open>packets_wait_ack\<close>\<close>
  tl_retrans :: "sa_packet list"                  \<comment> \<open>\<open>retransmission_packets\<close>\<close>
  tl_nb_success :: u16
  tl_nb_max_packets :: u16
  tl_nb_replicas :: u16
  tl_nb_max_retrans :: u16
  tl_base_id :: u32
  tl_kind :: backoff_kind
  tl_backoff :: backoff
  tl_category :: "'r category"
  tl_fifos :: "(qos_t, sa_packet dvb_fifo) omap"  \<comment> \<open>\<open>dvb_fifos\<close>\<close>
  tl_probes :: "qos_t list"
  tl_sf_per_saframe :: time_sf_t
  tl_frame_duration_ms :: time_ms_t
  tl_rand :: "nat stream"
  tl_next :: addr                                 \<comment> \<open>the address of the next object\<close>
  tl_freed :: "addr list"

section \<open>Initialisation\<close>

record saloha_conf =
  cf_nb_max_packets :: "u16 option"
  cf_nb_replicas :: "u16 option"
  cf_timeout :: "time_sf_t option"
  cf_maxdelay :: "time_ms_t option"
  cf_nb_max_retrans :: "u16 option"
  cf_backoff :: "string option"
  cf_cw_max :: "u16 option"
  cf_multiple :: "u16 option"

definition backoff_named :: "string \<Rightarrow> backoff_kind option" where
  "backoff_named s = (if s = ''BEB'' then Some Beb else if s = ''EIED'' then Some Eied
     else if s = ''MIMD'' then Some Mimd else None)"

text \<open>The products are computed in \<open>int\<close> and \<open>unsigned int\<close>; the quotient is stored on 16 bits.\<close>

definition limit_packets :: "u16 \<Rightarrow> u16 \<Rightarrow> u32 \<Rightarrow> u32 \<Rightarrow> u16 res" where
  "limit_packets nb_max nb_replicas slots carriers =
     (if carriers = 0 then Inl DivByZero
      else if slots div carriers < (ucast nb_max * ucast nb_replicas :: u32)
      then (if ucast nb_replicas * carriers = 0 then Inl DivByZero
            else Inr (ucast (slots div (ucast nb_replicas * carriers))))
      else Inr nb_max)"

definition saloha_fifos :: "(qos_t, sa_packet dvb_fifo) omap \<Rightarrow> (qos_t, sa_packet dvb_fifo) omap" where
  "saloha_fifos fs = filter (\<lambda>(q, f). fi_access_type f = access_saloha) fs"

text \<open>
  \<open>init\<close>, after the check of the parent: the parameters are read in the code's order and the
  first one missing ends it; the object keeps what was set before.
\<close>

definition tal_init_backoff :: "saloha_conf \<Rightarrow> 'r tal \<Rightarrow> (bool \<times> 'r tal) res" where
  "tal_init_backoff cf st =
     (case (cf_nb_max_retrans cf, cf_backoff cf, cf_cw_max cf, cf_multiple cf) of
        (Some mr, Some name, Some mx, Some factor) \<Rightarrow>
          (let st1 = st\<lparr>tl_nb_max_retrans := mr\<rparr>
           in case backoff_named name of
                None \<Rightarrow> Inr (False, st1)
              | Some k \<Rightarrow> res_bind (new_backoff k mx factor (shd (tl_rand st1))) (\<lambda>b.
                  Inr (True, st1\<lparr>tl_kind := k, tl_backoff := b, tl_rand := stl (tl_rand st1),
                    tl_probes := map fst (saloha_fifos (tl_fifos st1))\<rparr>)))
      | (Some mr, _) \<Rightarrow> Inr (False, st\<lparr>tl_nb_max_retrans := mr\<rparr>)
      | (None, _) \<Rightarrow> Inr (False, st))"

definition tal_init_timeout :: "saloha_conf \<Rightarrow> 'r tal \<Rightarrow> (bool \<times> 'r tal) res" where
  "tal_init_timeout cf st =
     (case cf_timeout cf of
        None \<Rightarrow> Inr (False, st)
      | Some timeout \<Rightarrow>
          (let st1 = st\<lparr>tl_timeout_saf := timeout\<rparr>
           in case cf_maxdelay cf of
                None \<Rightarrow> Inr (False, st1)
              | Some sat_delay \<Rightarrow>
                  (let saf = ucast (tl_sf_per_saframe st1); dur = tl_frame_duration_ms st1;
                       timeout_ms = ucast timeout * dur * saf;
                       min_timeout_ms = 2 * sat_delay + saf * dur
                   in if timeout_ms \<le> min_timeout_ms then Inr (False, st1)
                      else tal_init_backoff cf st1)))"

definition tal_init ::
    "tal_id_t \<Rightarrow> 'r category \<Rightarrow> (qos_t, sa_packet dvb_fifo) omap \<Rightarrow> ('r carriers_group \<Rightarrow> u32)
      \<Rightarrow> bool \<Rightarrow> saloha_conf \<Rightarrow> 'r tal \<Rightarrow> (bool \<times> 'r tal) res" where
  "tal_init tal_id ct fifos slots_of is_parent_init cf st =
     (if \<not> is_parent_init then Inr (False, st)
      else let ct1 = ct_computeSlotsNumber slots_of ct;
               st1 = st\<lparr>tl_tal_id := tal_id, tl_category := ct1, tl_fifos := fifos\<rparr>
      in case cf_nb_max_packets cf of
           None \<Rightarrow> Inr (False, st1)
         | Some nb_max \<Rightarrow>
             (case cf_nb_replicas cf of
                None \<Rightarrow> Inr (False, st1\<lparr>tl_nb_max_packets := nb_max\<rparr>)
              | Some nb_rep \<Rightarrow>
                  res_bind (limit_packets nb_max nb_rep (ct_getSlotsNumber ct1) (ct_getCarriersNumber ct1))
                    (\<lambda>m. tal_init_timeout cf (st1\<lparr>tl_nb_max_packets := m, tl_nb_replicas := nb_rep\<rparr>))))"

section \<open>Sending: the header of an encapsulation packet\<close>

definition tal_addSalohaHeader ::
    "u8 \<Rightarrow> net_packet \<Rightarrow> u16 \<Rightarrow> u16 \<Rightarrow> 'r tal \<Rightarrow> (sa_packet \<times> 'r tal) res" where
  "tal_addSalohaHeader junk e offset burst_size st =
     res_bind (new_sa_packet (tl_next st) junk (np_data e) (tl_base_id st) 0 offset burst_size
         (tl_nb_replicas st) (tl_timeout_saf st)) (\<lambda>p.
       Inr (sa_setQos (np_qos e) (np_setSrcTalId (np_getSrcTalId e) p),
         st\<lparr>tl_next := tl_next st + 1,
            tl_base_id := (if uint offset = uint burst_size - 1 then tl_base_id st + 1
                           else tl_base_id st)\<rparr>))"

section \<open>Acknowledgements\<close>

text \<open>The first waiting packet of the identifier, and the others.\<close>

fun take_id :: "data \<Rightarrow> sa_packet list \<Rightarrow> (sa_packet \<times> sa_packet list) option" where
  "take_id i [] = None"
| "take_id i (p # ps) =
     (if sa_getUniqueId p = i then Some (p, ps)
      else case take_id i ps of None \<Rightarrow> None | Some (q, qs) \<Rightarrow> Some (q, p # qs))"

definition tal_ack :: "u16 list \<Rightarrow> data \<Rightarrow> 'r tal \<Rightarrow> 'r tal res" where
  "tal_ack old i st =
     (let qos = ucast (convertPacketId i old ! 3);
          (ps, w1) = om_at [] (tl_wait_ack st) qos; st1 = st\<lparr>tl_wait_ack := w1\<rparr>
      in case take_id i ps of
           None \<Rightarrow> Inr st1
         | Some (p, rest) \<Rightarrow>
             res_bind (setReady (tl_kind st1) (shd (tl_rand st1)) (tl_backoff st1)) (\<lambda>b.
               Inr (st1\<lparr>tl_wait_ack := om_put qos rest w1, tl_nb_success := tl_nb_success st1 + 1,
                 tl_backoff := b, tl_rand := stl (tl_rand st1),
                 tl_freed := tl_freed st1 @ [sp_addr p]\<rparr>)))"

definition tal_ctrl_body :: "u16 list \<Rightarrow> data \<Rightarrow> nat \<Rightarrow> 'r tal \<Rightarrow> 'r tal res" where
  "tal_ctrl_body old payload current_length st =
     res_bind (ctrl_of_raw payload current_length) (\<lambda>d.
       if length d < sizeof_ctrl_hdr then Inl BadHeader
       else if ctrl_getTerminalId d \<noteq> tl_tal_id st then Inr st
       else if ctrl_getCtrlType d = SALOHA_CTRL_ACK
       then res_bind (ctrl_getId d) (\<lambda>i. tal_ack old i st)
       else Inr st)"

definition tal_onRcvFrame :: "u16 list \<Rightarrow> dvb_frame \<Rightarrow> 'r tal \<Rightarrow> 'r tal res" where
  "tal_onRcvFrame old dvb_frame st =
     (let frame = df_as_saloha dvb_frame
      in if length (df_data frame) < sizeof_DVB_SALOHA then Inl BadHeader
         else if saf_getDataLength frame \<le> 0 then Inr st
         else frame_loop ctrl_getPacketLength (tal_ctrl_body old) frame
                (unat (saf_getDataLength frame)) 0 st)"

section \<open>Scheduling: time-outs and retransmissions\<close>

definition tal_dec_timeouts :: "'r tal \<Rightarrow> 'r tal" where
  "tal_dec_timeouts st =
     st\<lparr>tl_wait_ack := map (\<lambda>(q, ps). (q, map sa_decTimeout ps)) (tl_wait_ack st)\<rparr>"

text \<open>
  The scan of one QoS: the packets that stay, the number of retransmissions so far, the state.
  A packet to retransmit is inserted behind those found before it.
\<close>

fun scan_waiting :: "sa_packet list \<Rightarrow> u16 \<Rightarrow> 'r tal \<Rightarrow> (sa_packet list \<times> u16 \<times> 'r tal) res" where
  "scan_waiting [] nb st = Inr ([], nb, st)"
| "scan_waiting (p # ps) nb st =
     (if sa_isTimeout p
      then (if sa_canBeRetransmitted (tl_nb_max_retrans st) p
            then scan_waiting ps (nb + 1)
              (st\<lparr>tl_retrans := take (unat nb) (tl_retrans st)
                 @ [sa_setTimeout (tl_timeout_saf st) (sa_incNbRetransmissions p)]
                 @ drop (unat nb) (tl_retrans st)\<rparr>)
            else if sa_getQos p \<notin> set (tl_probes st) then Inl NullDeref
            else res_bind (setCollision (tl_kind st) (shd (tl_rand st)) (tl_backoff st)) (\<lambda>b.
              scan_waiting ps nb (st\<lparr>tl_backoff := b, tl_rand := stl (tl_rand st),
                tl_freed := tl_freed st @ [sp_addr p]\<rparr>)))
      else res_bind (scan_waiting ps nb st) (\<lambda>(rest, nb', st'). Inr (p # rest, nb', st')))"

fun scan_all ::
    "(qos_t \<times> sa_packet list) list \<Rightarrow> u16 \<Rightarrow> 'r tal \<Rightarrow> ((qos_t, sa_packet list) omap \<times> u16 \<times> 'r tal) res" where
  "scan_all [] nb st = Inr ([], nb, st)"
| "scan_all ((q, ps) # w) nb st =
     res_bind (scan_waiting ps nb st) (\<lambda>(rest, nb1, st1).
     res_bind (scan_all w nb1 st1) (\<lambda>(w', nb2, st2). Inr ((q, rest) # w', nb2, st2)))"

definition tal_collect :: "'r tal \<Rightarrow> 'r tal res" where
  "tal_collect st =
     res_bind (scan_all (tl_wait_ack st) 0 st) (\<lambda>(w, nb, st1).
       let st2 = st1\<lparr>tl_wait_ack := w\<rparr>
       in Inr (if nb = 0 then st2 else st2\<lparr>tl_nb_success := 0\<rparr>))"

section \<open>Scheduling: time slots\<close>

definition pending_packets :: "'r tal \<Rightarrow> u16" where
  "pending_packets st = of_nat (length (tl_retrans st))
     + (\<Sum>(q, f) \<leftarrow> saloha_fifos (tl_fifos st). fifo_getCurrentSize f)"

definition tal_getTimeSlots :: "nat \<Rightarrow> 'r tal \<Rightarrow> (ts_set \<times> 'r tal) res" where
  "tal_getTimeSlots fuel st =
     (let slots = ct_getSlotsNumber (tl_category st); carriers = ct_getCarriersNumber (tl_category st);
          mx = min (pending_packets st) (tl_nb_max_packets st) * tl_nb_replicas st
      in if carriers = 0 then Inl DivByZero
         else let spc = unat (slots div carriers)
         in res_bind (draw_slots fuel spc (unat mx) [] (tl_rand st)) (\<lambda>(tmp, rs).
              let (time_slots, rs') = spread_slots (unat carriers) spc tmp [] rs
              in Inr (time_slots, st\<lparr>tl_rand := rs'\<rparr>)))"

section \<open>Scheduling: filling the frames\<close>

text \<open>The frames completed, the current one, the slots ahead of the iterator.\<close>

record fill =
  fl_complete :: "dvb_frame list"
  fl_frame :: dvb_frame
  fl_slots :: ts_set

fun place_replicas :: "u16 list \<Rightarrow> sa_packet \<Rightarrow> fill \<Rightarrow> bool \<times> sa_packet \<times> fill" where
  "place_replicas [] p fl = (True, p, fl)"
| "place_replicas (r # rs) p fl =
     (let fl1 = (if df_getFreeSpace (fl_frame fl) < sa_getTotalLength p
                 then fl\<lparr>fl_complete := fl_complete fl @ [fl_frame fl], fl_frame := new_saf_data\<rparr>
                 else fl);
          p1 = sa_setTs r p;
          (ok, frame) = saf_addPacket (sa_getTotalLength p1) (np_data p1) (fl_frame fl1)
      in if ok then place_replicas rs p1 (fl1\<lparr>fl_frame := frame\<rparr>)
         else (False, p1, fl1\<lparr>fl_frame := frame\<rparr>))"

text \<open>\<open>addPacketInFrames\<close>, without the final insertion in \<open>packets_wait_ack\<close>.\<close>

definition addPacketInFrames :: "sa_packet \<Rightarrow> fill \<Rightarrow> (bool \<times> sa_packet \<times> fill) res" where
  "addPacketInFrames p fl =
     (let n = unat (sa_getNbReplicas p)
      in if length (fl_slots fl) < n then Inl EndDeref
         else res_bind (sa_setReplicas (Some (take n (fl_slots fl))) n p) (\<lambda>p1.
           Inr (place_replicas (take n (fl_slots fl)) p1 (fl\<lparr>fl_slots := drop n (fl_slots fl)\<rparr>))))"

definition wait_for_ack :: "qos_t \<Rightarrow> sa_packet \<Rightarrow> 'r tal \<Rightarrow> 'r tal" where
  "wait_for_ack qos p st =
     (let (ps, w) = om_at [] (tl_wait_ack st) qos in st\<lparr>tl_wait_ack := om_put qos (ps @ [p]) w\<rparr>)"

text \<open>
  The loop over the retransmissions: what stays in the vector, the number of slots used
  (\<open>nbr_packets_total\<close>), the frames, the state; \<open>sz\<close> is \<open>ts.size()\<close>.
\<close>

fun send_retrans ::
    "nat \<Rightarrow> sa_packet list \<Rightarrow> u16 \<Rightarrow> fill \<Rightarrow> 'r tal \<Rightarrow> (sa_packet list \<times> u16 \<times> fill \<times> 'r tal) res" where
  "send_retrans sz [] tot fl st = Inr ([], tot, fl, st)"
| "send_retrans sz (p # ps) tot fl st =
     (if unat tot + unat (sa_getNbReplicas p) \<le> sz
      then res_bind (addPacketInFrames p fl) (\<lambda>(ok, p1, fl1).
        if \<not> ok
        then res_bind (send_retrans sz ps tot fl1 st) (\<lambda>(rest, r). Inr (p1 # rest, r))
        else if sa_getQos p \<notin> set (tl_probes st) then Inl NullDeref
        else send_retrans sz ps (tot + sa_getNbReplicas p1) fl1 (wait_for_ack (sa_getQos p) p1 st))
      else Inr (p # ps, tot, fl, st))"

text \<open>The loop over one FIFO; every turn pops an element, so \<open>n\<close> is the length of the queue.\<close>

fun send_fifo ::
    "nat \<Rightarrow> nat \<Rightarrow> qos_t \<Rightarrow> sa_packet dvb_fifo \<Rightarrow> u16 \<Rightarrow> fill \<Rightarrow> 'r tal
      \<Rightarrow> (sa_packet dvb_fifo \<times> u16 \<times> fill \<times> 'r tal) res" where
  "send_fifo 0 sz qos f tot fl st = Inr (f, tot, fl, st)"
| "send_fifo (Suc n) sz qos f tot fl st =
     (if fifo_getCurrentSize f \<noteq> 0 \<and> unat tot + unat (tl_nb_replicas st) \<le> sz
      then (case fifo_pop sa_getTotalLength f of
              (None, f1) \<Rightarrow> Inl NullDeref
            | (Some x, f1) \<Rightarrow>
                res_bind (addPacketInFrames (fe_elem x) fl) (\<lambda>(ok, p1, fl1).
                  if ok then send_fifo n sz qos f1 (tot + sa_getNbReplicas p1) fl1
                               (wait_for_ack qos p1 st)
                  else send_fifo n sz qos f1 tot fl1 st))
      else Inr (f, tot, fl, st))"

fun send_fifos ::
    "nat \<Rightarrow> (qos_t, sa_packet dvb_fifo) omap \<Rightarrow> u16 \<Rightarrow> fill \<Rightarrow> 'r tal
      \<Rightarrow> ((qos_t, sa_packet dvb_fifo) omap \<times> fill \<times> 'r tal) res" where
  "send_fifos sz [] tot fl st = Inr ([], fl, st)"
| "send_fifos sz ((q, f) # fs) tot fl st =
     (if sz \<le> unat tot then Inr ((q, f) # fs, fl, st)
      else if fi_access_type f \<noteq> access_saloha
      then res_bind (send_fifos sz fs tot fl st) (\<lambda>(fs', r). Inr ((q, f) # fs', r))
      else res_bind (send_fifo (length (fi_queue f)) sz q f tot fl st) (\<lambda>(f1, tot1, fl1, st1).
           res_bind (send_fifos sz fs tot1 fl1 st1) (\<lambda>(fs', r). Inr ((q, f1) # fs', r))))"

definition tal_send :: "ts_set \<Rightarrow> dvb_frame list \<Rightarrow> 'r tal \<Rightarrow> (dvb_frame list \<times> 'r tal) res" where
  "tal_send ts complete st =
     res_bind (send_retrans (length ts) (tl_retrans st) 0
         \<lparr>fl_complete = complete, fl_frame = new_saf_data, fl_slots = ts\<rparr> st) (\<lambda>(rest, tot, fl, st1).
     res_bind (send_fifos (length ts) (tl_fifos st1) tot fl (st1\<lparr>tl_retrans := rest\<rparr>)) (\<lambda>(fs, fl1, st2).
       Inr (fl_complete fl1 @ (if saf_getDataLength (fl_frame fl1) \<noteq> 0 then [fl_frame fl1] else []),
            st2\<lparr>tl_fifos := fs\<rparr>)))"

text \<open>The end of \<open>schedule\<close>, where all its paths meet: the probes are refreshed.\<close>

definition tal_probes_put :: "dvb_frame list \<times> 'r tal \<Rightarrow> (dvb_frame list \<times> 'r tal) res" where
  "tal_probes_put r =
     (if set (map fst (tl_wait_ack (snd r))) \<union> set (map fst (saloha_fifos (tl_fifos (snd r))))
         \<subseteq> set (tl_probes (snd r)) then Inr r else Inl NullDeref)"

definition tal_schedule ::
    "nat \<Rightarrow> dvb_frame list \<Rightarrow> time_sf_t \<Rightarrow> 'r tal \<Rightarrow> (dvb_frame list \<times> 'r tal) res" where
  "tal_schedule fuel complete sf_counter st =
     res_bind (isSalohaFrameTick (tl_sf_per_saframe st) sf_counter) (\<lambda>tick.
       if \<not> tick then tal_probes_put (complete, st)
       else let st1 = tal_dec_timeouts (st\<lparr>tl_backoff := bk_tick (tl_backoff st)\<rparr>)
       in if \<not> isReady (tl_backoff st1) then tal_probes_put (complete, st1)
          else res_bind (tal_collect st1) (\<lambda>st2.
               res_bind (tal_getTimeSlots fuel st2) (\<lambda>(ts, st3).
               res_bind (tal_send ts complete st3) tal_probes_put)))"

end
