(* ===== verification/SalohaTalSpec.thy ===== *)
theory SalohaTalSpec
  imports SalohaTal
begin

text \<open>
  What the terminal's operations achieve: the frames of a schedule carry, for each packet sent, one
  copy per time slot drawn for it; every packet is afterwards in exactly one place (waiting for its
  acknowledgement, to be retransmitted, in its FIFO) or has been deleted; an acknowledgement removes
  the packet it names and no other.
\<close>

section \<open>Packets that can be sent\<close>

text \<open>A packet with \<open>n\<close> replicas that fits an empty frame.\<close>

definition pkt_ok :: "nat \<Rightarrow> sa_packet \<Rightarrow> bool" where
  "pkt_ok n p \<longleftrightarrow> (\<exists>q pid ts seq pdu rs d. sa_built p q pid ts seq pdu rs d \<and> length rs = n
     \<and> 15 + 2 * n + length d \<le> 1199)"

lemma length_be16s [simp]: "length (concat (map be16 rs)) = 2 * length rs"
  by (induction rs) simp_all

lemma sa_built_length:
  "sa_built p q pid ts seq pdu rs d \<Longrightarrow> length (np_data p) = 15 + 2 * length rs + length d"
  by (simp add: sa_built_def)

lemma sa_built_uid:
  "sa_built p q pid ts seq pdu rs d \<Longrightarrow> sa_getUniqueId p = id_str pid seq pdu q"
  by (simp add: sa_getUniqueId_def sa_built_getters)

lemma sa_built_wire:
  "sa_built p q pid ts seq pdu rs d \<Longrightarrow> np_data (sa_setTs r p)
     = sa_hdr q pid r seq pdu (of_nat (length rs)) (of_nat (15 + 2 * length rs + length d))
       @ concat (map be16 rs) @ d"
  by (simp add: sa_built_def sa_setTs_def sa_hdr_set_ts)

lemma sa_setTs_only [simp]:
  "sp_addr (sa_setTs r p) = sp_addr p" "sp_timeout (sa_setTs r p) = sp_timeout p"
  "sp_nb_retrans (sa_setTs r p) = sp_nb_retrans p" "np_src_tal_id (sa_setTs r p) = np_src_tal_id p"
  by (simp_all add: sa_setTs_def)

section \<open>Frames under construction\<close>

text \<open>
  \<open>fill_inv base bs fl\<close>: behind the frames \<open>base\<close> the completed ones and the current one hold,
  frame after frame, the packets \<open>bs\<close>.
\<close>

definition fill_inv :: "dvb_frame list \<Rightarrow> data list \<Rightarrow> fill \<Rightarrow> bool" where
  "fill_inv base bs fl \<longleftrightarrow> (\<exists>bss cs b. fl_complete fl = base @ cs
     \<and> list_all2 (saf_holds MSG_TYPE_SALOHA_DATA) bss cs
     \<and> saf_holds MSG_TYPE_SALOHA_DATA b (fl_frame fl) \<and> bs = concat bss @ b)"

lemma fill_inv_start:
  "fill_inv base [] \<lparr>fl_complete = base, fl_frame = new_saf_data, fl_slots = ts\<rparr>"
  unfolding fill_inv_def
  by (rule exI [of _ "[]"], rule exI [of _ "[]"], rule exI [of _ "[]"]) (simp add: new_saf_holds)

lemma fill_inv_slots [simp]: "fill_inv base bs (fl\<lparr>fl_slots := s\<rparr>) = fill_inv base bs fl"
  by (simp add: fill_inv_def)

lemma fill_inv_new_frame:
  assumes "fill_inv base bs fl"
  shows "fill_inv base bs (fl\<lparr>fl_complete := fl_complete fl @ [fl_frame fl], fl_frame := new_saf_data\<rparr>)"
proof -
  obtain bss cs b where h: "fl_complete fl = base @ cs"
    "list_all2 (saf_holds MSG_TYPE_SALOHA_DATA) bss cs"
    "saf_holds MSG_TYPE_SALOHA_DATA b (fl_frame fl)" "bs = concat bss @ b"
    using assms unfolding fill_inv_def by blast
  show ?thesis unfolding fill_inv_def
    by (rule exI [of _ "bss @ [b]"], rule exI [of _ "cs @ [fl_frame fl]"], rule exI [of _ "[]"])
      (use h in \<open>simp add: new_saf_holds list_all2_appendI\<close>)
qed

text \<open>A packet that fits is added; the current frame has room for it or is a new one.\<close>

lemma fill_inv_add:
  assumes "fill_inv base bs fl" "w \<noteq> []" "length w \<le> df_getFreeSpace (fl_frame fl)"
  shows "fst (saf_addPacket (length w) w (fl_frame fl))"
    and "fill_inv base (bs @ [w]) (fl\<lparr>fl_frame := snd (saf_addPacket (length w) w (fl_frame fl))\<rparr>)"
proof -
  obtain bss cs b where h: "fl_complete fl = base @ cs"
    "list_all2 (saf_holds MSG_TYPE_SALOHA_DATA) bss cs"
    "saf_holds MSG_TYPE_SALOHA_DATA b (fl_frame fl)" "bs = concat bss @ b"
    using assms(1) unfolding fill_inv_def by blast
  have "5 + length (concat b) \<le> MSG_SALOHA_SIZE_MAX" using h(3) by (simp add: saf_holds_def)
  then have fit: "5 + length (concat b) + length w \<le> MSG_SALOHA_SIZE_MAX"
    using assms(3) df_getFreeSpace_holds [OF h(3)] by simp
  show "fst (saf_addPacket (length w) w (fl_frame fl))"
    using saf_addPacket_holds(1) [OF h(3) assms(2)] fit by simp
  show "fill_inv base (bs @ [w]) (fl\<lparr>fl_frame := snd (saf_addPacket (length w) w (fl_frame fl))\<rparr>)"
    unfolding fill_inv_def
    by (rule exI [of _ bss], rule exI [of _ cs], rule exI [of _ "b @ [w]"])
      (use h saf_addPacket_holds(2) [OF h(3) assms(2) fit] in simp)
qed

lemma new_frame_space: "df_getFreeSpace new_saf_data = 1199"
  using df_getFreeSpace_holds [OF new_saf_holds(2)] by (simp add: MSG_SALOHA_SIZE_MAX_def)

lemma place_replicas_ok:
  assumes "sa_built p q pid ts seq pdu rs d" "15 + 2 * length rs + length d \<le> 1199"
    and "fill_inv base bs fl"
  shows "\<exists>p1 fl1 ts'. place_replicas sl p fl = (True, p1, fl1) \<and> sa_built p1 q pid ts' seq pdu rs d
    \<and> p1 = p\<lparr>np_data := np_data p1\<rparr> \<and> fl_slots fl1 = fl_slots fl
    \<and> fill_inv base (bs @ map (\<lambda>r. np_data (sa_setTs r p)) sl) fl1"
  using assms
proof (induction sl p fl arbitrary: ts bs rule: place_replicas.induct)
  case (1 p fl)
  then show ?case by auto
next
  case (2 r sl p fl)
  define fl1 where "fl1 = (if df_getFreeSpace (fl_frame fl) < sa_getTotalLength p
      then fl\<lparr>fl_complete := fl_complete fl @ [fl_frame fl], fl_frame := new_saf_data\<rparr> else fl)"
  let ?p = "sa_setTs r p"
  have b: "sa_built ?p q pid r seq pdu rs d" by (rule sa_built_setTs [OF 2(2)])
  have len: "sa_getTotalLength p = length (np_data p)" "sa_getTotalLength ?p = length (np_data ?p)"
    "length (np_data ?p) = length (np_data p)" "length (np_data p) \<le> 1199" "np_data ?p \<noteq> []"
    using sa_built_getters(7) [OF 2(2)] sa_built_getters(7) [OF b] sa_built_length [OF 2(2)]
      sa_built_length [OF b] 2(3) by auto
  have inv1: "fill_inv base bs fl1" using 2(4) fill_inv_new_frame by (simp add: fl1_def)
  have room: "length (np_data ?p) \<le> df_getFreeSpace (fl_frame fl1)"
    using len new_frame_space by (auto simp: fl1_def)
  obtain ok fr where add: "saf_addPacket (sa_getTotalLength ?p) (np_data ?p) (fl_frame fl1) = (ok, fr)"
    by force
  have ok: ok and inv2: "fill_inv base (bs @ [np_data ?p]) (fl1\<lparr>fl_frame := fr\<rparr>)"
    using fill_inv_add [OF inv1 len(5) room] add len(2) by simp_all
  have step: "place_replicas (r # sl) p fl = place_replicas sl ?p (fl1\<lparr>fl_frame := fr\<rparr>)"
    using add ok by (simp add: fl1_def Let_def)
  obtain p1 fl2 ts' where IH: "place_replicas sl ?p (fl1\<lparr>fl_frame := fr\<rparr>) = (True, p1, fl2)"
    "sa_built p1 q pid ts' seq pdu rs d" "p1 = ?p\<lparr>np_data := np_data p1\<rparr>"
    "fl_slots fl2 = fl_slots (fl1\<lparr>fl_frame := fr\<rparr>)"
    "fill_inv base ((bs @ [np_data ?p]) @ map (\<lambda>r. np_data (sa_setTs r ?p)) sl) fl2"
    using 2(1) [OF fl1_def refl refl add [symmetric] ok b 2(3) inv2] by blast
  have wire: "np_data (sa_setTs r' ?p) = np_data (sa_setTs r' p)" for r'
    using sa_built_wire [OF b, of r'] sa_built_wire [OF 2(2), of r'] by simp
  have "p1 = p\<lparr>np_data := np_data p1\<rparr>" using IH(3) by (simp add: sa_setTs_def)
  moreover have "fl_slots fl2 = fl_slots fl" using IH(4) by (simp add: fl1_def)
  ultimately show ?case using step IH(1,2,5) wire by auto
qed

text \<open>\<open>addPacketInFrames\<close> on a packet that can be sent, with enough slots ahead.\<close>

lemma addPacketInFrames_ok:
  assumes p: "pkt_ok n p" and inv: "fill_inv base bs fl" and n: "n \<le> length (fl_slots fl)"
  obtains p1 fl1 where "addPacketInFrames p fl = Inr (True, p1, fl1)" "pkt_ok n p1"
    "p1 = p\<lparr>np_data := np_data p1\<rparr>" "sa_getUniqueId p1 = sa_getUniqueId p"
    "sa_getQos p1 = sa_getQos p" "unat (sa_getNbReplicas p1) = n"
    "\<forall>i < n. sa_getReplica p1 (of_nat i) = fl_slots fl ! i"
    "fl_slots fl1 = drop n (fl_slots fl)"
    "fill_inv base (bs @ map (\<lambda>r. np_data (sa_setTs r p1)) (take n (fl_slots fl))) fl1"
proof -
  obtain q pid ts seq pdu rs d where b: "sa_built p q pid ts seq pdu rs d" "length rs = n"
    "15 + 2 * n + length d \<le> 1199" using p unfolding pkt_ok_def by blast
  let ?rs = "take n (fl_slots fl)"
  have lr: "length ?rs = length rs" using n b(2) by simp
  obtain p' where p': "sa_setReplicas (Some ?rs) (length rs) p = Inr p'"
    "sa_built p' q pid ts seq pdu ?rs d" "p' = p\<lparr>np_data := np_data p'\<rparr>"
    using sa_built_setReplicas [OF b(1) lr] by blast
  have len: "15 + 2 * length ?rs + length d \<le> 1199" using b lr by simp
  obtain p1 fl1 ts' where pl: "place_replicas ?rs p' (fl\<lparr>fl_slots := drop n (fl_slots fl)\<rparr>) = (True, p1, fl1)"
    "sa_built p1 q pid ts' seq pdu ?rs d" "p1 = p'\<lparr>np_data := np_data p1\<rparr>"
    "fl_slots fl1 = drop n (fl_slots fl)"
    "fill_inv base (bs @ map (\<lambda>r. np_data (sa_setTs r p')) ?rs) fl1"
    using place_replicas_ok [OF p'(2) len, of base bs "fl\<lparr>fl_slots := drop n (fl_slots fl)\<rparr>" ?rs] inv
    by (auto simp del: length_take)
  have nb: "unat (sa_getNbReplicas p) = n" using sa_built_getters(6) [OF b(1)] b(2) by simp
  have wire: "np_data (sa_setTs r p') = np_data (sa_setTs r p1)" for r
    using sa_built_wire [OF p'(2), of r] sa_built_wire [OF pl(2), of r] by simp
  show ?thesis
  proof (rule that)
    show "addPacketInFrames p fl = Inr (True, p1, fl1)"
      using n p'(1) pl(1) b(2) by (simp add: addPacketInFrames_def nb)
    show "pkt_ok n p1" unfolding pkt_ok_def using pl(2) lr b(2,3) by blast
    have "p1 = p'\<lparr>np_data := np_data p1\<rparr>" by (rule pl(3))
    also have "\<dots> = p\<lparr>np_data := np_data p1\<rparr>" by (subst p'(3)) simp
    finally show "p1 = p\<lparr>np_data := np_data p1\<rparr>" .
    show "sa_getUniqueId p1 = sa_getUniqueId p"
      using sa_built_uid [OF pl(2)] sa_built_uid [OF b(1)] by simp
    show "sa_getQos p1 = sa_getQos p"
      using sa_built_getters(5) [OF pl(2)] sa_built_getters(5) [OF b(1)] by simp
    show nb1: "unat (sa_getNbReplicas p1) = n"
      using sa_built_getters(6) [OF pl(2)] lr b(2) by simp
    show "fl_slots fl1 = drop n (fl_slots fl)" by (rule pl(4))
    show "fill_inv base (bs @ map (\<lambda>r. np_data (sa_setTs r p1)) ?rs) fl1"
      using pl(5) wire by simp
    show "\<forall>i < n. sa_getReplica p1 (of_nat i) = fl_slots fl ! i"
    proof (intro allI impI)
      fix i assume i: "i < n"
      then have u: "unat (of_nat i :: u16) = i" using b(3) by (intro u16_of_nat_id) simp
      have "rd16 (np_data p1) (15 + 2 * i) = ?rs ! i"
        using pl(2) i lr b(2) by (simp add: sa_built_def rd16_be16s)
      moreover have "\<not> sa_getNbReplicas p1 < of_nat i" using nb1 u i by (simp add: word_less_nat_alt)
      ultimately show "sa_getReplica p1 (of_nat i) = fl_slots fl ! i"
        using i by (simp add: sa_getReplica_def saloha_hdr_len_def u)
    qed
  qed
qed

section \<open>What has been sent\<close>

text \<open>
  The packets sent with the slots of their replicas, each satisfying \<open>K\<close>, a predicate that the
  replicas written in the packet do not change; \<open>wires\<close> are the bytes put in the frames. The
  slots used are the first ones of the set drawn.
\<close>

type_synonym sent = "(sa_packet \<times> u16 list) list"

definition wires :: "sent \<Rightarrow> data list" where
  "wires s = concat (map (\<lambda>(p, sl). map (\<lambda>r. np_data (sa_setTs r p)) sl) s)"

definition stable_pred :: "(sa_packet \<Rightarrow> bool) \<Rightarrow> bool" where
  "stable_pred K \<longleftrightarrow> (\<forall>p d. K p \<longrightarrow> sa_getQos (p\<lparr>np_data := d\<rparr>) = sa_getQos p \<longrightarrow> K (p\<lparr>np_data := d\<rparr>))"

definition pkt_inv :: "nat \<Rightarrow> (sa_packet \<Rightarrow> bool) \<Rightarrow> sa_packet \<Rightarrow> bool" where
  "pkt_inv n K p \<longleftrightarrow> pkt_ok n p \<and> K p"

definition sent_ok :: "nat \<Rightarrow> (sa_packet \<Rightarrow> bool) \<Rightarrow> sa_packet \<times> u16 list \<Rightarrow> bool" where
  "sent_ok n K x \<longleftrightarrow> pkt_inv n K (fst x) \<and> length (snd x) = n
     \<and> (\<forall>i < n. sa_getReplica (fst x) (of_nat i) = snd x ! i)"

definition progress :: "nat \<Rightarrow> (sa_packet \<Rightarrow> bool) \<Rightarrow> ts_set \<Rightarrow> dvb_frame list \<Rightarrow> sent \<Rightarrow> u16 \<Rightarrow> fill \<Rightarrow> bool" where
  "progress n K ts base s tot fl \<longleftrightarrow> fill_inv base (wires s) fl \<and> fl_slots fl = drop (unat tot) ts
     \<and> unat tot \<le> length ts \<and> concat (map snd s) = take (unat tot) ts \<and> (\<forall>x \<in> set s. sent_ok n K x)"

lemma progress_start:
  "progress n K ts base [] 0 \<lparr>fl_complete = base, fl_frame = new_saf_data, fl_slots = ts\<rparr>"
  by (simp add: progress_def wires_def fill_inv_start)

lemma wires_append: "wires (s @ [(p, sl)]) = wires s @ map (\<lambda>r. np_data (sa_setTs r p)) sl"
  by (simp add: wires_def)

lemma unat_plus_u16: "unat (a :: u16) + unat b < 65536 \<Longrightarrow> unat (a + b) = unat a + unat b"
proof -
  assume *: "unat a + unat b < 65536"
  have "a + b = of_nat (unat a + unat b)" by simp
  then show ?thesis using * by (simp only: u16_of_nat_id)
qed

lemma progress_step:
  assumes pr: "progress n K ts base s tot fl" and p: "pkt_inv n K p"
    and le: "unat tot + n \<le> length ts" and ts: "length ts < 65536" and K: "stable_pred K"
  obtains p1 fl1 where "addPacketInFrames p fl = Inr (True, p1, fl1)"
    "progress n K ts base (s @ [(p1, take n (drop (unat tot) ts))]) (tot + sa_getNbReplicas p1) fl1"
    "pkt_inv n K p1" "p1 = p\<lparr>np_data := np_data p1\<rparr>" "sa_getUniqueId p1 = sa_getUniqueId p"
    "sa_getQos p1 = sa_getQos p" "unat (tot + sa_getNbReplicas p1) = unat tot + n"
proof -
  have sl: "fl_slots fl = drop (unat tot) ts" and inv: "fill_inv base (wires s) fl"
    using pr by (simp_all add: progress_def)
  have "n \<le> length (fl_slots fl)" using le sl by simp
  then obtain p1 fl1 where a: "addPacketInFrames p fl = Inr (True, p1, fl1)" "pkt_ok n p1"
    "p1 = p\<lparr>np_data := np_data p1\<rparr>" "sa_getUniqueId p1 = sa_getUniqueId p"
    "sa_getQos p1 = sa_getQos p" "unat (sa_getNbReplicas p1) = n"
    "\<forall>i < n. sa_getReplica p1 (of_nat i) = fl_slots fl ! i"
    "fl_slots fl1 = drop n (fl_slots fl)"
    "fill_inv base (wires s @ map (\<lambda>r. np_data (sa_setTs r p1)) (take n (fl_slots fl))) fl1"
    by (rule addPacketInFrames_ok [OF p [unfolded pkt_inv_def, THEN conjunct1] inv])
  have "K (p\<lparr>np_data := np_data p1\<rparr>)"
    using K p a(3,5) unfolding stable_pred_def pkt_inv_def by metis
  then have inv1: "pkt_inv n K p1" using a(2,3) by (simp add: pkt_inv_def)
  have tot: "unat (tot + sa_getNbReplicas p1) = unat tot + n"
    using le ts a(6) by (simp add: unat_plus_u16)
  have cat: "take (unat tot) ts @ take n (drop (unat tot) ts) = take (unat tot + n) ts"
    by (simp add: take_add)
  have ok: "sent_ok n K (p1, take n (drop (unat tot) ts))"
    using inv1 a(7) le sl by (simp add: sent_ok_def)
  have "progress n K ts base (s @ [(p1, take n (drop (unat tot) ts))]) (tot + sa_getNbReplicas p1) fl1"
    using pr a(8,9) tot cat ok le sl by (simp add: progress_def wires_append add.commute)
  with a inv1 tot show ?thesis by (intro that)
qed

section \<open>The loops\<close>

abbreviation st_wait :: "'r tal \<Rightarrow> sa_packet list" where
  "st_wait st \<equiv> concat (map snd (tl_wait_ack st))"

definition waits :: "qos_t \<Rightarrow> sent \<Rightarrow> 'r tal \<Rightarrow> 'r tal" where
  "waits q s st = fold (\<lambda>(p, _). wait_for_ack q p) s st"

definition waits_own :: "sent \<Rightarrow> 'r tal \<Rightarrow> 'r tal" where
  "waits_own s st = fold (\<lambda>(p, _). wait_for_ack (sa_getQos p) p) s st"

lemma wait_for_ack_keeps [simp]:
  "tl_probes (wait_for_ack q p st) = tl_probes st"
  "tl_nb_replicas (wait_for_ack q p st) = tl_nb_replicas st"
  by (simp_all add: wait_for_ack_def split: prod.splits)

lemma send_retrans_ok:
  assumes "progress n K ts base s tot fl" "length ts < 65536" "stable_pred K"
    and "\<forall>p \<in> set ps. pkt_inv n K p \<and> sa_getQos p \<in> set (tl_probes st)"
  shows "\<exists>new rest tot' fl'. send_retrans (length ts) ps tot fl st = Inr (rest, tot', fl', waits_own new st)
    \<and> progress n K ts base (s @ new) tot' fl'
    \<and> (\<exists>k. rest = drop k ps \<and> map (\<lambda>x. sp_addr (fst x)) new = map sp_addr (take k ps))"
  using assms
proof (induction ps arbitrary: s tot fl st)
  case Nil
  show ?case
    by (rule exI [of _ "[]"]) (use Nil in \<open>simp add: waits_own_def\<close>)
next
  case (Cons p ps)
  have p: "pkt_inv n K p" "sa_getQos p \<in> set (tl_probes st)" using Cons.prems(4) by simp_all
  have nb: "unat (sa_getNbReplicas p) = n"
    using p(1) unfolding pkt_inv_def pkt_ok_def by (auto dest: sa_built_getters(6))
  show ?case
  proof (cases "unat tot + n \<le> length ts")
    case False
    show ?thesis
    proof (intro exI conjI)
      show "send_retrans (length ts) (p # ps) tot fl st = Inr (p # ps, tot, fl, waits_own [] st)"
        using False nb by (simp add: waits_own_def)
      show "progress n K ts base (s @ []) tot fl" using Cons.prems(1) by simp
      show "p # ps = drop 0 (p # ps)" "map (\<lambda>x. sp_addr (fst x)) [] = map sp_addr (take 0 (p # ps))"
        by simp_all
    qed
  next
    case True
    obtain p1 fl1 where a: "addPacketInFrames p fl = Inr (True, p1, fl1)"
      "progress n K ts base (s @ [(p1, take n (drop (unat tot) ts))]) (tot + sa_getNbReplicas p1) fl1"
      "pkt_inv n K p1" "p1 = p\<lparr>np_data := np_data p1\<rparr>" "sa_getUniqueId p1 = sa_getUniqueId p"
      "sa_getQos p1 = sa_getQos p"
      by (rule progress_step [OF Cons.prems(1) p(1) True Cons.prems(2,3)])
    let ?st = "wait_for_ack (sa_getQos p) p1 st"
    have "\<forall>p \<in> set ps. pkt_inv n K p \<and> sa_getQos p \<in> set (tl_probes ?st)" using Cons.prems(4) by simp
    from Cons.IH [OF a(2) Cons.prems(2,3) this] obtain new rest tot' fl' k where IH:
      "send_retrans (length ts) ps (tot + sa_getNbReplicas p1) fl1 ?st = Inr (rest, tot', fl', waits_own new ?st)"
      "progress n K ts base ((s @ [(p1, take n (drop (unat tot) ts))]) @ new) tot' fl'"
      "rest = drop k ps" "map (\<lambda>x. sp_addr (fst x)) new = map sp_addr (take k ps)" by blast
    have ad: "sp_addr p1 = sp_addr p" by (subst a(4)) simp
    show ?thesis
    proof (intro exI conjI)
      show "send_retrans (length ts) (p # ps) tot fl st
          = Inr (rest, tot', fl', waits_own ((p1, take n (drop (unat tot) ts)) # new) st)"
        using True nb a(1,6) p(2) IH(1) by (simp add: waits_own_def)
      show "progress n K ts base (s @ (p1, take n (drop (unat tot) ts)) # new) tot' fl'" using IH(2) by simp
      show "rest = drop (Suc k) (p # ps)" using IH(3) by simp
      show "map (\<lambda>x. sp_addr (fst x)) ((p1, take n (drop (unat tot) ts)) # new)
          = map sp_addr (take (Suc k) (p # ps))" using IH(4) ad by simp
    qed
  qed
qed

definition fifo_pkts :: "sa_packet dvb_fifo \<Rightarrow> sa_packet list" where
  "fifo_pkts f = map fe_elem (fi_queue f)"

lemma send_fifo_ok:
  assumes "progress n K ts base s tot fl" "length ts < 65536" "stable_pred K" "unat (tl_nb_replicas st) = n"
    and "\<forall>p \<in> set (fifo_pkts f). pkt_inv n K p" "length (fi_queue f) = m" "m < 65536"
  shows "\<exists>new f' tot' fl'. send_fifo m (length ts) q f tot fl st = Inr (f', tot', fl', waits q new st)
    \<and> progress n K ts base (s @ new) tot' fl' \<and> fi_access_type f' = fi_access_type f
    \<and> (\<exists>k. fifo_pkts f' = drop k (fifo_pkts f)
        \<and> map (\<lambda>x. sp_addr (fst x)) new = map sp_addr (take k (fifo_pkts f)))"
  using assms
proof (induction m arbitrary: s tot fl st f)
  case 0
  show ?case
    by (rule exI [of _ "[]"]) (use 0 in \<open>simp add: waits_def fifo_pkts_def\<close>)
next
  case (Suc m)
  obtain x xs where q: "fi_queue f = x # xs" using Suc.prems(6) by (cases "fi_queue f") auto
  have p: "pkt_inv n K (fe_elem x)" using Suc.prems(5) q by (simp add: fifo_pkts_def)
  have "unat (fifo_getCurrentSize f) = length (fi_queue f)"
    unfolding fifo_getCurrentSize_def using Suc.prems(6,7) by (intro u16_of_nat_id) simp
  then have size: "fifo_getCurrentSize f \<noteq> 0" using q by auto
  show ?case
  proof (cases "unat tot + n \<le> length ts")
    case False
    show ?thesis
    proof (intro exI conjI)
      show "send_fifo (Suc m) (length ts) q f tot fl st = Inr (f, tot, fl, waits q [] st)"
        using False Suc.prems(4) by (simp add: waits_def)
      show "progress n K ts base (s @ []) tot fl" using Suc.prems(1) by simp
      show "fifo_pkts f = drop 0 (fifo_pkts f)"
        "map (\<lambda>x. sp_addr (fst x)) [] = map sp_addr (take 0 (fifo_pkts f))"
        by simp_all
    qed simp
  next
    case True
    obtain p1 fl1 where a: "addPacketInFrames (fe_elem x) fl = Inr (True, p1, fl1)"
      "progress n K ts base (s @ [(p1, take n (drop (unat tot) ts))]) (tot + sa_getNbReplicas p1) fl1"
      "pkt_inv n K p1" "p1 = (fe_elem x)\<lparr>np_data := np_data p1\<rparr>"
      by (rule progress_step [OF Suc.prems(1) p True Suc.prems(2,3)])
    obtain f1 where pop: "fifo_pop sa_getTotalLength f = (Some x, f1)" "fi_queue f1 = xs"
      "fi_access_type f1 = fi_access_type f"
      using q by (simp add: fifo_pop_def Let_def)
    let ?st = "wait_for_ack q p1 st"
    have f1: "fifo_pkts f = fe_elem x # fifo_pkts f1" using q pop(2) by (simp add: fifo_pkts_def)
    have pre: "unat (tl_nb_replicas ?st) = n" "\<forall>p \<in> set (fifo_pkts f1). pkt_inv n K p"
      "length (fi_queue f1) = m" "m < 65536"
      using Suc.prems(4-7) f1 pop(2) q by simp_all
    from Suc.IH [OF a(2) Suc.prems(2,3) pre] obtain new f' tot' fl' k where IH:
      "send_fifo m (length ts) q f1 (tot + sa_getNbReplicas p1) fl1 ?st = Inr (f', tot', fl', waits q new ?st)"
      "progress n K ts base ((s @ [(p1, take n (drop (unat tot) ts))]) @ new) tot' fl'"
      "fi_access_type f' = fi_access_type f1" "fifo_pkts f' = drop k (fifo_pkts f1)"
      "map (\<lambda>x. sp_addr (fst x)) new = map sp_addr (take k (fifo_pkts f1))" by blast
    have ad: "sp_addr p1 = sp_addr (fe_elem x)" by (subst a(4)) simp
    show ?thesis
    proof (intro exI conjI)
      show "send_fifo (Suc m) (length ts) q f tot fl st
          = Inr (f', tot', fl', waits q ((p1, take n (drop (unat tot) ts)) # new) st)"
        using True size Suc.prems(4) pop(1) a(1) IH(1) by (simp add: waits_def)
      show "progress n K ts base (s @ (p1, take n (drop (unat tot) ts)) # new) tot' fl'" using IH(2) by simp
      show "fi_access_type f' = fi_access_type f" using IH(3) pop(3) by simp
      show "fifo_pkts f' = drop (Suc k) (fifo_pkts f)" using IH(4) f1 by simp
      show "map (\<lambda>x. sp_addr (fst x)) ((p1, take n (drop (unat tot) ts)) # new)
          = map sp_addr (take (Suc k) (fifo_pkts f))" using IH(5) ad f1 by simp
    qed
  qed
qed

section \<open>The packets that wait for an acknowledgement\<close>

definition waitl :: "(qos_t \<times> sa_packet) list \<Rightarrow> 'r tal \<Rightarrow> 'r tal" where
  "waitl xs st = fold (\<lambda>(q, p). wait_for_ack q p) xs st"

lemma waits_waitl:
  "waits q s st = waitl (map (\<lambda>x. (q, fst x)) s) st"
  "waits_own s st = waitl (map (\<lambda>x. (sa_getQos (fst x), fst x)) s) st"
  by (induction s arbitrary: st) (auto simp: waits_def waits_own_def waitl_def)

lemma wait_for_ack_wait:
  assumes "om_wf (tl_wait_ack st)"
  shows "om_wf (tl_wait_ack (wait_for_ack q p st))"
    and "mset (st_wait (wait_for_ack q p st)) = add_mset p (mset (st_wait st))"
    and "fst ` set (tl_wait_ack (wait_for_ack q p st)) = insert q (fst ` set (tl_wait_ack st))"
    and "wait_for_ack q p st = st\<lparr>tl_wait_ack := tl_wait_ack (wait_for_ack q p st)\<rparr>"
proof -
  let ?w = "tl_wait_ack st"
  show "om_wf (tl_wait_ack (wait_for_ack q p st))"
    "fst ` set (tl_wait_ack (wait_for_ack q p st)) = insert q (fst ` set ?w)"
    "wait_for_ack q p st = st\<lparr>tl_wait_ack := tl_wait_ack (wait_for_ack q p st)\<rparr>"
    using assms by (auto simp: wait_for_ack_def om_at_def fst_set_om_put split: option.splits prod.splits)
  show "mset (st_wait (wait_for_ack q p st)) = add_mset p (mset (st_wait st))"
  proof (cases "om_find ?w q")
    case None
    have "mset (concat (map snd (om_put q [] ?w))) = mset (st_wait st)"
      using om_put_values [OF assms, of q "[]"] None by simp
    then show ?thesis
      using None assms om_put_values [of "om_put q [] ?w" q "[p]"]
      by (simp add: wait_for_ack_def om_at_def)
  next
    case (Some ps)
    then show ?thesis
      using om_put_values [OF assms, of q "ps @ [p]"]
      by (simp add: wait_for_ack_def om_at_def)
  qed
qed

lemma waitl_wait:
  assumes "om_wf (tl_wait_ack st)"
  shows "om_wf (tl_wait_ack (waitl xs st))"
    and "mset (st_wait (waitl xs st)) = mset (st_wait st) + mset (map snd xs)"
    and "fst ` set (tl_wait_ack (waitl xs st)) = fst ` set (tl_wait_ack st) \<union> fst ` set xs"
    and "waitl xs st = st\<lparr>tl_wait_ack := tl_wait_ack (waitl xs st)\<rparr>"
proof -
  have "om_wf (tl_wait_ack (waitl xs st))
    \<and> mset (st_wait (waitl xs st)) = mset (st_wait st) + mset (map snd xs)
    \<and> fst ` set (tl_wait_ack (waitl xs st)) = fst ` set (tl_wait_ack st) \<union> fst ` set xs
    \<and> waitl xs st = st\<lparr>tl_wait_ack := tl_wait_ack (waitl xs st)\<rparr>"
    using assms
  proof (induction xs arbitrary: st)
    case (Cons x xs)
    obtain q p where x: "x = (q, p)" by force
    let ?s = "wait_for_ack q p st"
    have e: "waitl (x # xs) st = waitl xs ?s" by (simp add: waitl_def x)
    note w = wait_for_ack_wait [OF Cons.prems, of q p]
    note IH = Cons.IH [OF w(1)]
    have "waitl xs ?s = ?s\<lparr>tl_wait_ack := tl_wait_ack (waitl xs ?s)\<rparr>" using IH by blast
    also have "\<dots> = st\<lparr>tl_wait_ack := tl_wait_ack (waitl xs ?s)\<rparr>" by (subst w(4)) simp
    finally have "waitl xs ?s = st\<lparr>tl_wait_ack := tl_wait_ack (waitl xs ?s)\<rparr>" .
    then show ?case unfolding e using IH w(2,3) x by simp
  qed (simp add: waitl_def)
  then show "om_wf (tl_wait_ack (waitl xs st))"
    "mset (st_wait (waitl xs st)) = mset (st_wait st) + mset (map snd xs)"
    "fst ` set (tl_wait_ack (waitl xs st)) = fst ` set (tl_wait_ack st) \<union> fst ` set xs"
    "waitl xs st = st\<lparr>tl_wait_ack := tl_wait_ack (waitl xs st)\<rparr>" by blast+
qed

lemma waitl_append: "waitl ys (waitl xs st) = waitl (xs @ ys) st"
  by (simp add: waitl_def)

lemma waitl_keeps [simp]:
  "tl_probes (waitl xs st) = tl_probes st" "tl_nb_replicas (waitl xs st) = tl_nb_replicas st"
  by (induction xs arbitrary: st) (auto simp: waitl_def)

section \<open>All the FIFOs\<close>

type_synonym fifos = "(qos_t, sa_packet dvb_fifo) omap"

definition fifos_pkts :: "fifos \<Rightarrow> sa_packet list" where
  "fifos_pkts fs = concat (map (\<lambda>(q, f). fifo_pkts f) fs)"

definition fifo_ok :: "nat \<Rightarrow> (sa_packet \<Rightarrow> bool) \<Rightarrow> sa_packet dvb_fifo \<Rightarrow> bool" where
  "fifo_ok n K f \<longleftrightarrow> fi_access_type f = access_saloha \<longrightarrow>
     (\<forall>p \<in> set (fifo_pkts f). pkt_inv n K p) \<and> length (fi_queue f) < 65536"

definition less_fifo :: "qos_t \<times> sa_packet dvb_fifo \<Rightarrow> qos_t \<times> sa_packet dvb_fifo \<Rightarrow> bool" where
  "less_fifo x y \<longleftrightarrow> fst y = fst x \<and> fi_access_type (snd y) = fi_access_type (snd x)
     \<and> set (fifo_pkts (snd y)) \<subseteq> set (fifo_pkts (snd x))
     \<and> length (fi_queue (snd y)) \<le> length (fi_queue (snd x))"

definition same_fifos :: "fifos \<Rightarrow> fifos \<Rightarrow> bool" where
  "same_fifos fs fs' \<longleftrightarrow> list_all2 less_fifo fs fs'"

lemma same_fifos_refl: "same_fifos fs fs"
  by (simp add: same_fifos_def list_all2_same less_fifo_def)

lemma same_fifos_Cons:
  "same_fifos fs fs' \<Longrightarrow> fi_access_type f' = fi_access_type f \<Longrightarrow> set (fifo_pkts f') \<subseteq> set (fifo_pkts f)
     \<Longrightarrow> length (fi_queue f') \<le> length (fi_queue f) \<Longrightarrow> same_fifos ((q, f) # fs) ((q, f') # fs')"
  by (simp add: same_fifos_def less_fifo_def)

lemma send_fifos_ok:
  assumes "progress n K ts base s tot fl" "length ts < 65536" "stable_pred K" "unat (tl_nb_replicas st) = n"
    and "\<forall>(q, f) \<in> set fs. fifo_ok n K f"
  shows "\<exists>new xs fs' tot' fl'. send_fifos (length ts) fs tot fl st = Inr (fs', fl', waitl xs st)
    \<and> progress n K ts base (s @ new) tot' fl' \<and> same_fifos fs fs'
    \<and> map snd xs = map fst new \<and> fst ` set xs \<subseteq> fst ` set (saloha_fifos fs)
    \<and> mset (map sp_addr (fifos_pkts fs))
      = mset (map (\<lambda>x. sp_addr (fst x)) new) + mset (map sp_addr (fifos_pkts fs'))"
  using assms
proof (induction fs arbitrary: s tot fl st)
  case Nil
  show ?case
    by (rule exI [of _ "[]"], rule exI [of _ "[]"])
      (use Nil in \<open>auto simp: waitl_def fifos_pkts_def same_fifos_def\<close>)
next
  case (Cons qf fs)
  obtain q f where qf: "qf = (q, f)" by force
  have fs: "\<forall>(q, f) \<in> set fs. fifo_ok n K f" using Cons.prems(5) by simp
  consider (stop) "length ts \<le> unat tot"
    | (skip) "\<not> length ts \<le> unat tot" "fi_access_type f \<noteq> access_saloha"
    | (send) "\<not> length ts \<le> unat tot" "fi_access_type f = access_saloha" by blast
  then show ?case
  proof cases
    case stop
    show ?thesis
      by (rule exI [of _ "[]"], rule exI [of _ "[]"])
        (use stop Cons.prems qf in \<open>auto simp: waitl_def same_fifos_refl\<close>)
  next
    case skip
    from Cons.IH [OF Cons.prems(1-4) fs] obtain new xs fs' tot' fl' where IH:
      "send_fifos (length ts) fs tot fl st = Inr (fs', fl', waitl xs st)"
      "progress n K ts base (s @ new) tot' fl'" "same_fifos fs fs'" "map snd xs = map fst new"
      "fst ` set xs \<subseteq> fst ` set (saloha_fifos fs)"
      "mset (map sp_addr (fifos_pkts fs))
        = mset (map (\<lambda>x. sp_addr (fst x)) new) + mset (map sp_addr (fifos_pkts fs'))" by blast
    have "send_fifos (length ts) (qf # fs) tot fl st = Inr ((q, f) # fs', fl', waitl xs st)"
      using skip IH(1) qf by simp
    moreover have "same_fifos (qf # fs) ((q, f) # fs')" using IH(3) qf by (simp add: same_fifos_Cons)
    moreover have "fst ` set xs \<subseteq> fst ` set (saloha_fifos (qf # fs))"
      using IH(5) by (auto simp: saloha_fifos_def)
    moreover have "mset (map sp_addr (fifos_pkts (qf # fs)))
        = mset (map (\<lambda>x. sp_addr (fst x)) new) + mset (map sp_addr (fifos_pkts ((q, f) # fs')))"
      using IH(6) qf by (simp add: fifos_pkts_def)
    ultimately show ?thesis using IH(2,4) by blast
  next
    case send
    have ok: "\<forall>p \<in> set (fifo_pkts f). pkt_inv n K p" "length (fi_queue f) < 65536"
      using Cons.prems(5) qf send(2) by (simp_all add: fifo_ok_def)
    from send_fifo_ok [OF Cons.prems(1-4) ok(1) refl ok(2), of q] obtain new1 f' tot1 fl1 k where one:
      "send_fifo (length (fi_queue f)) (length ts) q f tot fl st = Inr (f', tot1, fl1, waits q new1 st)"
      "progress n K ts base (s @ new1) tot1 fl1" "fi_access_type f' = fi_access_type f"
      "fifo_pkts f' = drop k (fifo_pkts f)"
      "map (\<lambda>x. sp_addr (fst x)) new1 = map sp_addr (take k (fifo_pkts f))" by blast
    let ?x1 = "map (\<lambda>x. (q, fst x)) new1"
    have st1: "waits q new1 st = waitl ?x1 st" by (rule waits_waitl)
    have nb: "unat (tl_nb_replicas (waitl ?x1 st)) = n" using Cons.prems(4) by simp
    from Cons.IH [OF one(2) Cons.prems(2,3) nb fs] obtain new xs fs' tot' fl' where IH:
      "send_fifos (length ts) fs tot1 fl1 (waitl ?x1 st) = Inr (fs', fl', waitl xs (waitl ?x1 st))"
      "progress n K ts base ((s @ new1) @ new) tot' fl'" "same_fifos fs fs'" "map snd xs = map fst new"
      "fst ` set xs \<subseteq> fst ` set (saloha_fifos fs)"
      "mset (map sp_addr (fifos_pkts fs))
        = mset (map (\<lambda>x. sp_addr (fst x)) new) + mset (map sp_addr (fifos_pkts fs'))" by blast
    have "length (fifo_pkts f') \<le> length (fifo_pkts f)" by (simp add: one(4))
    then have sub: "set (fifo_pkts f') \<subseteq> set (fifo_pkts f)" "length (fi_queue f') \<le> length (fi_queue f)"
      using one(4) set_drop_subset [of k "fifo_pkts f"] by (simp, simp add: fifo_pkts_def)
    have spl: "mset (map sp_addr (fifo_pkts f))
        = mset (map (\<lambda>x. sp_addr (fst x)) new1) + mset (map sp_addr (fifo_pkts f'))"
      using one(4,5) append_take_drop_id [of k "fifo_pkts f"] by (metis map_append mset_append)
    have "send_fifos (length ts) (qf # fs) tot fl st = Inr ((q, f') # fs', fl', waitl (?x1 @ xs) st)"
      using send one(1) st1 IH(1) qf by (simp add: waitl_append)
    moreover have "progress n K ts base (s @ (new1 @ new)) tot' fl'" using IH(2) by simp
    moreover have "same_fifos (qf # fs) ((q, f') # fs')"
      using IH(3) qf one(3) sub by (simp add: same_fifos_Cons)
    moreover have "map snd (?x1 @ xs) = map fst (new1 @ new)" using IH(4) by (simp add: comp_def)
    moreover have "fst ` set (?x1 @ xs) \<subseteq> fst ` set (saloha_fifos (qf # fs))"
      using IH(5) qf send(2) by (auto simp: saloha_fifos_def)
    moreover have "mset (map sp_addr (fifos_pkts (qf # fs)))
        = mset (map (\<lambda>x. sp_addr (fst x)) (new1 @ new)) + mset (map sp_addr (fifos_pkts ((q, f') # fs')))"
      using IH(6) spl qf by (simp add: fifos_pkts_def)
    ultimately show ?thesis by blast
  qed
qed

section \<open>The invariant of the terminal\<close>

text \<open>What holds of every packet besides its shape: its QoS has probes, its retransmissions are bounded.\<close>

definition known_pkt :: "'r tal \<Rightarrow> sa_packet \<Rightarrow> bool" where
  "known_pkt st p \<longleftrightarrow> sa_getQos p \<in> set (tl_probes st) \<and> sp_nb_retrans p \<le> tl_nb_max_retrans st"

definition tal_ok :: "nat \<Rightarrow> 'r tal \<Rightarrow> bool" where
  "tal_ok n st \<longleftrightarrow> om_wf (tl_wait_ack st) \<and> unat (tl_nb_replicas st) = n
     \<and> (\<forall>p \<in> set (st_wait st) \<union> set (tl_retrans st). pkt_inv n (known_pkt st) p)
     \<and> (\<forall>(q, f) \<in> set (tl_fifos st). fifo_ok n (known_pkt st) f)
     \<and> fst ` set (tl_wait_ack st) \<union> fst ` set (saloha_fifos (tl_fifos st)) \<subseteq> set (tl_probes st)"

lemma tal_okI:
  assumes "om_wf (tl_wait_ack st)" "unat (tl_nb_replicas st) = n"
    and "\<forall>p \<in> set (st_wait st). pkt_inv n (known_pkt st) p"
    and "\<forall>p \<in> set (tl_retrans st). pkt_inv n (known_pkt st) p"
    and "\<forall>(q, f) \<in> set (tl_fifos st). fifo_ok n (known_pkt st) f"
    and "fst ` set (tl_wait_ack st) \<subseteq> set (tl_probes st)"
    and "fst ` set (saloha_fifos (tl_fifos st)) \<subseteq> set (tl_probes st)"
  shows "tal_ok n st"
  unfolding tal_ok_def using assms by (simp only: ball_Un Un_subset_iff simp_thms)

lemma tal_okD:
  assumes "tal_ok n st"
  shows "om_wf (tl_wait_ack st)" "unat (tl_nb_replicas st) = n"
    "\<forall>p \<in> set (st_wait st). pkt_inv n (known_pkt st) p"
    "\<forall>p \<in> set (tl_retrans st). pkt_inv n (known_pkt st) p"
    "\<forall>(q, f) \<in> set (tl_fifos st). fifo_ok n (known_pkt st) f"
    "fst ` set (tl_wait_ack st) \<subseteq> set (tl_probes st)"
    "fst ` set (saloha_fifos (tl_fifos st)) \<subseteq> set (tl_probes st)"
  using assms [unfolded tal_ok_def ball_Un Un_subset_iff] by blast+

text \<open>The addresses of the packets the terminal holds.\<close>

definition tal_live :: "'r tal \<Rightarrow> addr multiset" where
  "tal_live st = mset (map sp_addr (st_wait st)) + mset (map sp_addr (tl_retrans st))
     + mset (map sp_addr (fifos_pkts (tl_fifos st)))"

definition same_setup :: "'r tal \<Rightarrow> 'r tal \<Rightarrow> bool" where
  "same_setup st st' \<longleftrightarrow> tl_category st' = tl_category st \<and> tl_nb_max_packets st' = tl_nb_max_packets st
     \<and> tl_nb_replicas st' = tl_nb_replicas st \<and> tl_probes st' = tl_probes st
     \<and> tl_nb_max_retrans st' = tl_nb_max_retrans st"

lemma stable_known: "stable_pred (known_pkt st)"
  by (simp add: stable_pred_def known_pkt_def)

lemma known_cong: "same_setup st st' \<Longrightarrow> known_pkt st' = known_pkt st"
  by (simp add: fun_eq_iff known_pkt_def same_setup_def)

lemma pkt_inv_data:
  assumes "np_data p' = np_data p" "pkt_inv n (known_pkt st) p" "sp_nb_retrans p' \<le> tl_nb_max_retrans st"
  shows "pkt_inv n (known_pkt st) p'"
proof -
  have "sa_getQos p' = sa_getQos p" using assms(1) by (simp add: sa_getQos_def)
  moreover have "pkt_ok n p'" using assms(1,2) by (simp add: pkt_inv_def pkt_ok_def sa_built_def)
  ultimately show ?thesis using assms(2,3) by (simp add: pkt_inv_def known_pkt_def)
qed

section \<open>Time-outs and retransmissions\<close>

lemma setCollision_Inr: "\<exists>c. setCollision k r b = Inr c"
  by (cases k) (simp_all add: beb_setCollision_def eied_setCollision_def mimd_setCollision_def
      mult_setCollision_def)

text \<open>The effect of a scan on the state.\<close>

definition scanned :: "'r tal \<Rightarrow> sa_packet list \<Rightarrow> backoff \<Rightarrow> nat \<Rightarrow> addr list \<Rightarrow> 'r tal" where
  "scanned st R b k frd = st\<lparr>tl_retrans := R, tl_backoff := b, tl_rand := sdrop k (tl_rand st),
     tl_freed := tl_freed st @ frd\<rparr>"

lemma scanned_simps [simp]:
  "tl_retrans (scanned st R b k frd) = R" "tl_freed (scanned st R b k frd) = tl_freed st @ frd"
  "tl_rand (scanned st R b k frd) = sdrop k (tl_rand st)"
  "tl_wait_ack (scanned st R b k frd) = tl_wait_ack st" "tl_fifos (scanned st R b k frd) = tl_fifos st"
  "same_setup st (scanned st R b k frd)" "known_pkt (scanned st R b k frd) = known_pkt st"
  "scanned (scanned st R b k frd) R' b' k' frd' = scanned st R' b' (k + k') (frd @ frd')"
  by (simp_all add: scanned_def same_setup_def known_pkt_def fun_eq_iff sdrop_add)

lemma scan_waiting_ok:
  assumes "\<forall>p \<in> set ps. pkt_inv n (known_pkt st) p"
  shows "\<exists>rest nb' R b k frd. scan_waiting ps nb st = Inr (rest, nb', scanned st R b k frd)
    \<and> set rest \<subseteq> set ps \<and> (\<forall>p \<in> set R. p \<in> set (tl_retrans st) \<or> pkt_inv n (known_pkt st) p)
    \<and> mset (map sp_addr rest) + mset frd + mset (map sp_addr R)
      = mset (map sp_addr ps) + mset (map sp_addr (tl_retrans st))"
  using assms
proof (induction ps nb st rule: scan_waiting.induct)
  case (1 nb st)
  show ?case
    by (rule exI [of _ "[]"], rule exI [of _ nb], rule exI [of _ "tl_retrans st"],
        rule exI [of _ "tl_backoff st"], rule exI [of _ 0], rule exI [of _ "[]"])
      (simp add: scanned_def)
next
  case (2 p ps nb st)
  have p: "pkt_inv n (known_pkt st) p" and ps: "\<forall>p \<in> set ps. pkt_inv n (known_pkt st) p"
    using 2(4) by simp_all
  consider (retr) "sa_isTimeout p" "sa_canBeRetransmitted (tl_nb_max_retrans st) p"
    | (lost) "sa_isTimeout p" "\<not> sa_canBeRetransmitted (tl_nb_max_retrans st) p"
    | (stay) "\<not> sa_isTimeout p" by blast
  then show ?case
  proof cases
    case retr
    let ?p = "sa_setTimeout (tl_timeout_saf st) (sa_incNbRetransmissions p)"
    let ?R = "take (unat nb) (tl_retrans st) @ [?p] @ drop (unat nb) (tl_retrans st)"
    let ?st = "scanned st ?R (tl_backoff st) 0 []"
    have st1: "st\<lparr>tl_retrans := ?R\<rparr> = ?st" by (simp add: scanned_def)
    have "sp_nb_retrans p < tl_nb_max_retrans st" using retr(2) by (simp add: sa_canBeRetransmitted_def)
    then have "sp_nb_retrans ?p \<le> tl_nb_max_retrans st"
      by (simp add: sa_setTimeout_def sa_incNbRetransmissions_def inc_le)
    then have pi: "pkt_inv n (known_pkt st) ?p"
      by (intro pkt_inv_data [OF _ p]) (simp_all add: sa_setTimeout_def sa_incNbRetransmissions_def)
    have ad: "sp_addr ?p = sp_addr p" by (simp add: sa_setTimeout_def sa_incNbRetransmissions_def)
    have "\<forall>p \<in> set ps. pkt_inv n (known_pkt ?st) p" using ps by simp
    from 2(1) [OF retr, unfolded st1, OF this] obtain rest nb' R b k frd where IH:
      "scan_waiting ps (nb + 1) ?st = Inr (rest, nb', scanned ?st R b k frd)" "set rest \<subseteq> set ps"
      "\<forall>p \<in> set R. p \<in> set (tl_retrans ?st) \<or> pkt_inv n (known_pkt ?st) p"
      "mset (map sp_addr rest) + mset frd + mset (map sp_addr R)
        = mset (map sp_addr ps) + mset (map sp_addr (tl_retrans ?st))" by blast
    have ms: "mset (map sp_addr ?R) = add_mset (sp_addr p) (mset (map sp_addr (tl_retrans st)))"
      using ad mset_append [of "map sp_addr (take (unat nb) (tl_retrans st))"
          "map sp_addr (drop (unat nb) (tl_retrans st))"]
      by (simp flip: map_append)
    show ?thesis
    proof (intro exI conjI)
      show "scan_waiting (p # ps) nb st = Inr (rest, nb', scanned st R b k frd)"
        using retr IH(1) st1 by simp
      show "set rest \<subseteq> set (p # ps)" using IH(2) by auto
      show "\<forall>p \<in> set R. p \<in> set (tl_retrans st) \<or> pkt_inv n (known_pkt st) p"
        using IH(3) pi by (auto dest: in_set_takeD in_set_dropD)
      show "mset (map sp_addr rest) + mset frd + mset (map sp_addr R)
          = mset (map sp_addr (p # ps)) + mset (map sp_addr (tl_retrans st))"
        using IH(4) ms by simp
    qed
  next
    case lost
    obtain c where c: "setCollision (tl_kind st) (shd (tl_rand st)) (tl_backoff st) = Inr c"
      using setCollision_Inr by blast
    let ?st = "scanned st (tl_retrans st) c 1 [sp_addr p]"
    have st1: "st\<lparr>tl_backoff := c, tl_rand := stl (tl_rand st), tl_freed := tl_freed st @ [sp_addr p]\<rparr> = ?st"
      by (simp add: scanned_def)
    have q: "sa_getQos p \<in> set (tl_probes st)" using p by (simp add: pkt_inv_def known_pkt_def)
    then have q': "\<not> sa_getQos p \<notin> set (tl_probes st)" by simp
    have "\<forall>p \<in> set ps. pkt_inv n (known_pkt ?st) p" using ps by simp
    from 2(2) [OF lost q', of c, unfolded st1, OF this] obtain rest nb' R b k frd where IH:
      "scan_waiting ps nb ?st = Inr (rest, nb', scanned ?st R b k frd)" "set rest \<subseteq> set ps"
      "\<forall>p \<in> set R. p \<in> set (tl_retrans ?st) \<or> pkt_inv n (known_pkt ?st) p"
      "mset (map sp_addr rest) + mset frd + mset (map sp_addr R)
        = mset (map sp_addr ps) + mset (map sp_addr (tl_retrans ?st))" by blast
    show ?thesis
    proof (intro exI conjI)
      show "scan_waiting (p # ps) nb st = Inr (rest, nb', scanned st R b (1 + k) ([sp_addr p] @ frd))"
        using lost c q IH(1) st1 by simp
      show "set rest \<subseteq> set (p # ps)" using IH(2) by auto
      show "\<forall>p \<in> set R. p \<in> set (tl_retrans st) \<or> pkt_inv n (known_pkt st) p" using IH(3) by simp
      show "mset (map sp_addr rest) + mset ([sp_addr p] @ frd) + mset (map sp_addr R)
          = mset (map sp_addr (p # ps)) + mset (map sp_addr (tl_retrans st))"
        using IH(4) by simp
    qed
  next
    case stay
    from 2(3) [OF stay ps] obtain rest nb' R b k frd where IH:
      "scan_waiting ps nb st = Inr (rest, nb', scanned st R b k frd)" "set rest \<subseteq> set ps"
      "\<forall>p \<in> set R. p \<in> set (tl_retrans st) \<or> pkt_inv n (known_pkt st) p"
      "mset (map sp_addr rest) + mset frd + mset (map sp_addr R)
        = mset (map sp_addr ps) + mset (map sp_addr (tl_retrans st))" by blast
    show ?thesis
    proof (intro exI conjI)
      show "scan_waiting (p # ps) nb st = Inr (p # rest, nb', scanned st R b k frd)"
        using stay IH(1) by simp
      show "set (p # rest) \<subseteq> set (p # ps)" using IH(2) by auto
      show "mset (map sp_addr (p # rest)) + mset frd + mset (map sp_addr R)
          = mset (map sp_addr (p # ps)) + mset (map sp_addr (tl_retrans st))"
        using IH(4) by simp
    qed (use IH(3) in blast)
  qed
qed

lemma ms_swap:
  assumes "(w' :: 'x multiset) + f' + r' = w + r" "x + f + r = ps + t"
  shows "(x + w') + (f + f') + r' = (ps + w) + t"
proof -
  have "(x + w') + (f + f') + r' = (x + f) + (w' + f' + r')" by (simp add: ac_simps)
  also have "\<dots> = (x + f + r) + w" unfolding assms(1) by (simp add: ac_simps)
  also have "\<dots> = (ps + w) + t" unfolding assms(2) by (simp add: ac_simps)
  finally show ?thesis .
qed

lemma scan_all_ok:
  assumes "\<forall>p \<in> set (concat (map snd w)). pkt_inv n (known_pkt st) p"
    and "\<forall>p \<in> set (tl_retrans st). pkt_inv n (known_pkt st) p"
  shows "\<exists>w' nb' R b k frd. scan_all w nb st = Inr (w', nb', scanned st R b k frd)
    \<and> map fst w' = map fst w \<and> set (concat (map snd w')) \<subseteq> set (concat (map snd w))
    \<and> (\<forall>p \<in> set R. pkt_inv n (known_pkt st) p)
    \<and> mset (map sp_addr (concat (map snd w'))) + mset frd + mset (map sp_addr R)
      = mset (map sp_addr (concat (map snd w))) + mset (map sp_addr (tl_retrans st))"
  using assms
proof (induction w arbitrary: nb st)
  case Nil
  show ?case
    by (rule exI [of _ "[]"], rule exI [of _ nb], rule exI [of _ "tl_retrans st"],
        rule exI [of _ "tl_backoff st"], rule exI [of _ 0], rule exI [of _ "[]"])
      (use Nil in \<open>simp add: scanned_def\<close>)
next
  case (Cons qp w)
  obtain q ps where qp: "qp = (q, ps)" by force
  have ps: "\<forall>p \<in> set ps. pkt_inv n (known_pkt st) p" using Cons.prems(1) qp by simp
  obtain rest nb1 R b k frd where one: "scan_waiting ps nb st = Inr (rest, nb1, scanned st R b k frd)"
    "set rest \<subseteq> set ps" "\<forall>p \<in> set R. p \<in> set (tl_retrans st) \<or> pkt_inv n (known_pkt st) p"
    "mset (map sp_addr rest) + mset frd + mset (map sp_addr R)
      = mset (map sp_addr ps) + mset (map sp_addr (tl_retrans st))"
    using scan_waiting_ok [OF ps, of nb] by blast
  let ?st = "scanned st R b k frd"
  have pre: "\<forall>p \<in> set (concat (map snd w)). pkt_inv n (known_pkt ?st) p"
    "\<forall>p \<in> set (tl_retrans ?st). pkt_inv n (known_pkt ?st) p"
    using Cons.prems one(3) by auto
  from Cons.IH [OF pre, of nb1] obtain w' nb' R' b' k' frd' where IH:
    "scan_all w nb1 ?st = Inr (w', nb', scanned ?st R' b' k' frd')" "map fst w' = map fst w"
    "set (concat (map snd w')) \<subseteq> set (concat (map snd w))" "\<forall>p \<in> set R'. pkt_inv n (known_pkt ?st) p"
    "mset (map sp_addr (concat (map snd w'))) + mset frd' + mset (map sp_addr R')
      = mset (map sp_addr (concat (map snd w))) + mset (map sp_addr (tl_retrans ?st))" by blast
  show ?case
  proof (intro exI conjI)
    show "scan_all (qp # w) nb st = Inr ((q, rest) # w', nb', scanned st R' b' (k + k') (frd @ frd'))"
      using one(1) IH(1) qp by simp
    show "map fst ((q, rest) # w') = map fst (qp # w)" using IH(2) qp by simp
    show "set (concat (map snd ((q, rest) # w'))) \<subseteq> set (concat (map snd (qp # w)))"
      using IH(3) one(2) qp by auto
    show "\<forall>p \<in> set R'. pkt_inv n (known_pkt st) p" using IH(4) by simp
    show "mset (map sp_addr (concat (map snd ((q, rest) # w')))) + mset (frd @ frd') + mset (map sp_addr R')
        = mset (map sp_addr (concat (map snd (qp # w)))) + mset (map sp_addr (tl_retrans st))"
      using ms_swap [OF IH(5) [unfolded scanned_simps] one(4)] qp by (simp add: ac_simps)
  qed
qed

lemma tal_collect_ok:
  assumes "tal_ok n st"
  obtains st' frd k where "tal_collect st = Inr st'" "tal_ok n st'" "same_setup st st'"
    "tl_freed st' = tl_freed st @ frd" "tl_rand st' = sdrop k (tl_rand st)" "tl_fifos st' = tl_fifos st"
    "tal_live st' + mset frd = tal_live st"
proof -
  have pre: "\<forall>p \<in> set (st_wait st). pkt_inv n (known_pkt st) p"
    "\<forall>p \<in> set (tl_retrans st). pkt_inv n (known_pkt st) p"
    using assms by (simp_all add: tal_ok_def)
  obtain w nb R b k frd where s: "scan_all (tl_wait_ack st) 0 st = Inr (w, nb, scanned st R b k frd)"
    "map fst w = map fst (tl_wait_ack st)" "set (concat (map snd w)) \<subseteq> set (st_wait st)"
    "\<forall>p \<in> set R. pkt_inv n (known_pkt st) p"
    "mset (map sp_addr (concat (map snd w))) + mset frd + mset (map sp_addr R)
      = mset (map sp_addr (st_wait st)) + mset (map sp_addr (tl_retrans st))"
    using scan_all_ok [OF pre, of 0] by blast
  let ?t = "(scanned st R b k frd)\<lparr>tl_wait_ack := w\<rparr>"
  define st' where "st' = (if nb = 0 then ?t else ?t\<lparr>tl_nb_success := 0\<rparr>)"
  have f: "tl_wait_ack st' = w" "tl_retrans st' = R" "tl_freed st' = tl_freed st @ frd"
    "tl_rand st' = sdrop k (tl_rand st)" "tl_fifos st' = tl_fifos st" "tl_nb_replicas st' = tl_nb_replicas st"
    "tl_probes st' = tl_probes st"
    by (simp_all add: st'_def scanned_def)
  have su: "same_setup st st'" by (simp add: same_setup_def st'_def scanned_def)
  have kn: "known_pkt st' = known_pkt st" by (rule known_cong [OF su])
  have keys: "fst ` set w = fst ` set (tl_wait_ack st)" using s(2) by (metis set_map)
  have "om_wf w" using tal_okD(1) [OF assms] s(2) by (simp add: om_wf_def)
  then have "tal_ok n st'"
    using s(3,4) tal_okD [OF assms] by (intro tal_okI; unfold f kn keys) blast+
  moreover have "tal_live st' + mset frd = tal_live st"
    unfolding tal_live_def f s(5) [symmetric] by (simp only: ac_simps)
  moreover have "tal_collect st = Inr st'" using s(1) by (simp add: tal_collect_def st'_def)
  ultimately show ?thesis using that [of st' frd k] su f(3-5) by blast
qed

lemma tal_dec_ok:
  assumes "tal_ok n st"
  shows "tal_ok n (tal_dec_timeouts (st\<lparr>tl_backoff := b\<rparr>))"
    and "tal_live (tal_dec_timeouts (st\<lparr>tl_backoff := b\<rparr>)) = tal_live st"
    and "same_setup st (tal_dec_timeouts (st\<lparr>tl_backoff := b\<rparr>))"
proof -
  let ?st = "tal_dec_timeouts (st\<lparr>tl_backoff := b\<rparr>)"
  show su: "same_setup st ?st" by (simp add: same_setup_def tal_dec_timeouts_def)
  have kn: "known_pkt ?st = known_pkt st" by (rule known_cong [OF su])
  have f: "tl_wait_ack ?st = map (\<lambda>(q, ps). (q, map sa_decTimeout ps)) (tl_wait_ack st)"
    "tl_retrans ?st = tl_retrans st" "tl_fifos ?st = tl_fifos st" "tl_nb_replicas ?st = tl_nb_replicas st"
    "tl_probes ?st = tl_probes st"
    by (simp_all add: tal_dec_timeouts_def)
  have w: "st_wait ?st = map sa_decTimeout (st_wait st)"
    unfolding f by (simp add: map_concat comp_def case_prod_beta)
  have keys: "fst ` set (tl_wait_ack ?st) = fst ` set (tl_wait_ack st)"
    unfolding f by force
  have "pkt_inv n (known_pkt st) (sa_decTimeout p)" if "pkt_inv n (known_pkt st) p" for p
    by (rule pkt_inv_data [OF _ that]) (use that in \<open>simp_all add: sa_decTimeout_def pkt_inv_def known_pkt_def\<close>)
  then have "\<forall>p \<in> set (st_wait ?st). pkt_inv n (known_pkt ?st) p"
    using tal_okD(3) [OF assms] unfolding w kn by (simp only: set_map ball_simps) blast
  moreover have "om_wf (tl_wait_ack ?st)" using tal_okD(1) [OF assms] unfolding f by simp
  ultimately show "tal_ok n ?st"
    using tal_okD [OF assms] by (intro tal_okI; unfold keys kn f(2-5)) assumption+
  show "tal_live ?st = tal_live st"
    unfolding tal_live_def w f(2,3) by (simp add: comp_def sa_decTimeout_def)
qed

section \<open>Sending\<close>

lemma data_ok_wire:
  assumes "sent_ok n K x"
  shows "data_ok (np_data (sa_setTs r (fst x)))"
proof -
  obtain q pid ts seq pdu rs d where b: "sa_built (fst x) q pid ts seq pdu rs d"
    using assms unfolding sent_ok_def pkt_inv_def pkt_ok_def by blast
  from sa_built_setTs [OF this, of r] have b': "sa_built (sa_setTs r (fst x)) q pid r seq pdu rs d" .
  show ?thesis
    using sa_built_getters(7) [OF b'] sa_built_length [OF b']
    by (simp add: data_ok_def sa_getTotalLength_def saloha_hdr_len_def)
qed

lemma wires_data_ok: "\<forall>x \<in> set s. sent_ok n K x \<Longrightarrow> b \<in> set (wires s) \<Longrightarrow> data_ok b"
  using data_ok_wire by (fastforce simp: wires_def)

lemma list_all2_concat_mem: "list_all2 P bss cs \<Longrightarrow> bs \<in> set bss \<Longrightarrow> set bs \<subseteq> set (concat bss)"
  by auto

text \<open>The frames a fill leads to, read by a receiver.\<close>

definition received :: "data list list \<Rightarrow> dvb_frame list \<Rightarrow> bool" where
  "received bss fs \<longleftrightarrow>
     list_all2 (\<lambda>bs f. \<forall>phy. receive_all data_plen (df_data f @ phy) = Inr bs) bss fs"

lemma holds_received:
  assumes "list_all2 (saf_holds MSG_TYPE_SALOHA_DATA) bss cs" "\<forall>b \<in> set (concat bss). data_ok b"
  shows "received bss cs"
  unfolding received_def
  using assms(1) by (rule list.rel_mono_strong)
    (use assms(2) in \<open>auto intro!: data_framed.receive_all_holds\<close>)

lemma fill_inv_received:
  assumes "fill_inv base bs fl" "\<forall>b \<in> set bs. data_ok b"
  shows "\<exists>frames bss. fl_complete fl @ (if saf_getDataLength (fl_frame fl) \<noteq> 0 then [fl_frame fl] else [])
      = base @ frames \<and> received bss frames \<and> concat bss = bs"
proof -
  obtain bss cs b where h: "fl_complete fl = base @ cs"
    "list_all2 (saf_holds MSG_TYPE_SALOHA_DATA) bss cs"
    "saf_holds MSG_TYPE_SALOHA_DATA b (fl_frame fl)" "bs = concat bss @ b"
    using assms(1) unfolding fill_inv_def by blast
  have len: "saf_getDataLength (fl_frame fl) = 0 \<longleftrightarrow> b = []"
  proof
    assume "saf_getDataLength (fl_frame fl) = 0"
    then show "b = []" using saf_getDataLength_holds [OF h(3)] saf_count [OF h(3)] by simp
  qed (simp add: saf_getDataLength_holds [OF h(3)])
  show ?thesis
  proof (cases "b = []")
    case True
    then show ?thesis using h len assms(2) holds_received [OF h(2)] by auto
  next
    case False
    have "list_all2 (saf_holds MSG_TYPE_SALOHA_DATA) (bss @ [b]) (cs @ [fl_frame fl])"
      using h(2,3) by (simp add: list_all2_appendI)
    then have "received (bss @ [b]) (cs @ [fl_frame fl])"
      using assms(2) h(4) by (intro holds_received) auto
    then show ?thesis using False len h(1,4)
      by (intro exI [of _ "cs @ [fl_frame fl]"] exI [of _ "bss @ [b]"]) simp
  qed
qed

lemma fifo_ok_less: "less_fifo x y \<Longrightarrow> fifo_ok n K (snd x) \<Longrightarrow> fifo_ok n K (snd y)"
  by (auto simp: less_fifo_def fifo_ok_def)

lemma same_fifos_ok:
  assumes "same_fifos fs fs'"
  shows "\<forall>(q, f) \<in> set fs. fifo_ok n K f \<Longrightarrow> \<forall>(q, f) \<in> set fs'. fifo_ok n K f"
    and "fst ` set (saloha_fifos fs') = fst ` set (saloha_fifos fs)"
proof -
  have l: "list_all2 less_fifo fs fs'" using assms by (simp add: same_fifos_def)
  show "\<forall>(q, f) \<in> set fs'. fifo_ok n K f" if "\<forall>(q, f) \<in> set fs. fifo_ok n K f"
    using l that by (induction rule: list_all2_induct) (auto simp: case_prod_beta dest: fifo_ok_less)
  show "fst ` set (saloha_fifos fs') = fst ` set (saloha_fifos fs)"
    using l by (induction rule: list_all2_induct) (auto simp: saloha_fifos_def less_fifo_def)
qed

lemma tal_send_ok:
  assumes ok: "tal_ok n st" and ts: "length ts < 65536"
  obtains frames bss s st' m where "tal_send ts complete st = Inr (complete @ frames, st')"
    "received bss frames" "concat bss = wires s" "concat (map snd s) = take m ts"
    "\<forall>x \<in> set s. sent_ok n (known_pkt st) x" "tal_ok n st'" "same_setup st st'"
    "tl_freed st' = tl_freed st" "tl_rand st' = tl_rand st" "tal_live st' = tal_live st"
proof -
  note okD = tal_okD [OF ok]
  let ?fl = "\<lparr>fl_complete = complete, fl_frame = new_saf_data, fl_slots = ts\<rparr>"
  have r: "\<forall>p \<in> set (tl_retrans st). pkt_inv n (known_pkt st) p \<and> sa_getQos p \<in> set (tl_probes st)"
    using okD(4) by (simp add: pkt_inv_def known_pkt_def)
  obtain s1 rest tot fl1 k where one:
    "send_retrans (length ts) (tl_retrans st) 0 ?fl st = Inr (rest, tot, fl1, waits_own s1 st)"
    "progress n (known_pkt st) ts complete ([] @ s1) tot fl1" "rest = drop k (tl_retrans st)"
    "map (\<lambda>x. sp_addr (fst x)) s1 = map sp_addr (take k (tl_retrans st))"
    using send_retrans_ok [OF progress_start ts stable_known r] by blast
  define x1 where "x1 = map (\<lambda>x. (sa_getQos (fst x), fst x)) s1"
  have w1: "waits_own s1 st = waitl x1 st" unfolding x1_def by (rule waits_waitl)
  note W1 = waitl_wait [OF okD(1), of x1]
  have eq1: "waitl x1 st = st\<lparr>tl_wait_ack := tl_wait_ack (waitl x1 st)\<rparr>" by (rule W1(4))
  define st1 where "st1 = (waitl x1 st)\<lparr>tl_retrans := rest\<rparr>"
  have f1: "tl_fifos (waitl x1 st) = tl_fifos st" by (subst eq1) simp
  have nb: "unat (tl_nb_replicas st1) = n" using okD(2) by (simp add: st1_def)
  obtain s2 x2 fs' tot' fl2 where two:
    "send_fifos (length ts) (tl_fifos st) tot fl1 st1 = Inr (fs', fl2, waitl x2 st1)"
    "progress n (known_pkt st) ts complete (([] @ s1) @ s2) tot' fl2" "same_fifos (tl_fifos st) fs'"
    "map snd x2 = map fst s2" "fst ` set x2 \<subseteq> fst ` set (saloha_fifos (tl_fifos st))"
    "mset (map sp_addr (fifos_pkts (tl_fifos st)))
      = mset (map (\<lambda>x. sp_addr (fst x)) s2) + mset (map sp_addr (fifos_pkts fs'))"
    using send_fifos_ok [OF one(2) ts stable_known nb okD(5)] by blast
  have wf1: "om_wf (tl_wait_ack st1)" using W1(1) by (simp add: st1_def)
  note W2 = waitl_wait [OF wf1, of x2]
  define st2 where "st2 = (waitl x2 st1)\<lparr>tl_fifos := fs'\<rparr>"
  have st2: "st2 = st\<lparr>tl_retrans := rest, tl_wait_ack := tl_wait_ack st2, tl_fifos := fs'\<rparr>"
    unfolding st2_def by (subst W2(4), simp add: st1_def, subst eq1, simp)
  define s where "s = s1 @ s2"
  have pr: "progress n (known_pkt st) ts complete s tot' fl2" using two(2) by (simp add: s_def)
  have sent: "\<forall>x \<in> set s. sent_ok n (known_pkt st) x" using pr by (simp add: progress_def)
  have bs: "\<forall>b \<in> set (wires s). data_ok b" using wires_data_ok [OF sent] by blast
  have inv: "fill_inv complete (wires s) fl2" using pr by (simp add: progress_def)
  obtain frames bss where fr: "fl_complete fl2 @ (if saf_getDataLength (fl_frame fl2) \<noteq> 0 then [fl_frame fl2] else [])
      = complete @ frames" "received bss frames" "concat bss = wires s"
    using fill_inv_received [OF inv bs] by blast
  have run: "tal_send ts complete st = Inr (complete @ frames, st2)"
    unfolding tal_send_def using one(1) two(1) fr(1) by (simp add: w1 f1 st1_def st2_def)
  have wait: "mset (st_wait st2) = mset (st_wait st) + mset (map fst s)"
    using W1(2) W2(2) two(4) by (simp add: st2_def st1_def x1_def s_def comp_def)
  have keys: "fst ` set (tl_wait_ack st2) = fst ` set (tl_wait_ack st) \<union> fst ` set x1 \<union> fst ` set x2"
    using W1(3) W2(3) by (simp add: st2_def st1_def)
  have su: "same_setup st st2" by (subst st2) (simp add: same_setup_def)
  have kn: "known_pkt st2 = known_pkt st" by (rule known_cong [OF su])
  have pb: "tl_probes st2 = tl_probes st" using su by (simp add: same_setup_def)
  have fields: "tl_retrans st2 = rest" "tl_fifos st2 = fs'" "tl_nb_replicas st2 = tl_nb_replicas st"
    "tl_freed st2 = tl_freed st" "tl_rand st2 = tl_rand st"
    by (subst st2, simp)+
  have kx1: "fst ` set x1 \<subseteq> set (tl_probes st)"
  proof
    fix q assume "q \<in> fst ` set x1"
    then obtain x where x: "x \<in> set s1" "q = sa_getQos (fst x)" by (auto simp: x1_def)
    then have "sent_ok n (known_pkt st) x" using sent by (simp add: s_def)
    then show "q \<in> set (tl_probes st)" using x(2) by (simp add: sent_ok_def pkt_inv_def known_pkt_def)
  qed
  have ok2: "tal_ok n st2"
  proof (rule tal_okI; (unfold kn pb fields)?)
    show "om_wf (tl_wait_ack st2)" using W2(1) by (simp add: st2_def)
    show "unat (tl_nb_replicas st) = n" by (rule okD(2))
    have "set (st_wait st2) = set (st_wait st) \<union> fst ` set s"
      using arg_cong [OF wait, of set_mset] by simp
    then show "\<forall>p \<in> set (st_wait st2). pkt_inv n (known_pkt st) p"
      using okD(3) sent by (auto simp: sent_ok_def)
    show "\<forall>p \<in> set rest. pkt_inv n (known_pkt st) p"
      using okD(4) one(3) by (auto dest: in_set_dropD)
    show "\<forall>(q, f) \<in> set fs'. fifo_ok n (known_pkt st) f"
      using same_fifos_ok(1) [OF two(3) okD(5)] .
    show "fst ` set (tl_wait_ack st2) \<subseteq> set (tl_probes st)"
      using keys kx1 two(5) okD(6,7) by blast
    show "fst ` set (saloha_fifos fs') \<subseteq> set (tl_probes st)"
      using same_fifos_ok(2) [OF two(3)] okD(7) by simp
  qed
  have r2: "mset (map sp_addr (tl_retrans st)) = mset (map (\<lambda>x. sp_addr (fst x)) s1) + mset (map sp_addr rest)"
    unfolding one(3,4) by (metis append_take_drop_id map_append mset_append)
  have "mset (map sp_addr (st_wait st2)) = image_mset sp_addr (mset (st_wait st2))" by simp
  also have "\<dots> = mset (map sp_addr (st_wait st)) + mset (map (\<lambda>x. sp_addr (fst x)) s1)
      + mset (map (\<lambda>x. sp_addr (fst x)) s2)"
    unfolding wait by (simp add: s_def image_mset.compositionality comp_def)
  finally have live: "tal_live st2 = tal_live st"
    unfolding tal_live_def fields r2 two(6) by (simp add: ac_simps)
  show ?thesis
    using that [OF run fr(2,3) _ sent ok2 su fields(4,5) live, of "unat tot'"] pr
    by (simp add: progress_def)
qed

end
