(* ===== verification/SalohaTalCorrect.thy ===== *)
theory SalohaTalCorrect
  imports SalohaTalSpec
begin

text \<open>
  The properties of the terminal: the choice of its time slots, what a whole \<open>schedule\<close> transmits and
  keeps, the effect of an acknowledgement, and the acknowledgement that makes the next \<open>schedule\<close>
  dereference a null pointer.
\<close>

section \<open>Time slots\<close>

definition slots_per_carrier :: "'r tal \<Rightarrow> nat" where
  "slots_per_carrier st =
     unat (ct_getSlotsNumber (tl_category st) div ct_getCarriersNumber (tl_category st))"

definition wanted_slots :: "'r tal \<Rightarrow> nat" where
  "wanted_slots st = unat (min (pending_packets st) (tl_nb_max_packets st) * tl_nb_replicas st)"

text \<open>
  Enough draws, wherever the schedule starts to draw: among any \<open>fuel\<close> consecutive ones there are
  \<open>m\<close> different slots.
\<close>

definition draws_hit :: "nat \<Rightarrow> nat \<Rightarrow> nat \<Rightarrow> nat stream \<Rightarrow> bool" where
  "draws_hit fuel spc m rs \<longleftrightarrow>
     (\<forall>k. m \<le> card ((\<lambda>r. of_nat (scaled r spc) :: u16) ` set (stake fuel (sdrop k rs))))"

lemma draws_hit_sdrop: "draws_hit fuel spc m rs \<Longrightarrow> draws_hit fuel spc m (sdrop k rs)"
  by (simp add: draws_hit_def sdrop_add)

lemma set_stake_sub: "set (stake n s) \<subseteq> sset s"
proof (induction n arbitrary: s)
  case (Suc n)
  then show ?case using shd_sset [of s] stl_sset [of _ s] by fastforce
qed simp

lemma sset_sdrop_sub: "sset (sdrop n s) \<subseteq> sset s"
proof (induction n arbitrary: s)
  case (Suc n)
  then show ?case using stl_sset [of _ s] by fastforce
qed simp

lemma spread_sorted: "sorted_wrt (<) ts \<Longrightarrow> sorted_wrt (<) (fst (spread_slots c spc tmp ts rs))"
  by (induction c spc tmp ts rs rule: spread_slots.induct) simp_all

lemma length_os_insert: "length (os_insert k s) \<le> Suc (length s)"
  by (induction k s rule: os_insert.induct) auto

lemma spread_length: "length (fst (spread_slots c spc tmp ts rs)) \<le> length tmp + length ts"
proof (induction c spc tmp ts rs rule: spread_slots.induct)
  case (2 c spc i tmp ts rs)
  then show ?case using length_os_insert [of "of_nat (scaled (shd rs) c * spc + unat i)" ts] by simp
qed simp

lemma getTimeSlots_eq:
  "ct_getCarriersNumber (tl_category st) \<noteq> 0 \<Longrightarrow> tal_getTimeSlots fuel st =
     res_bind (draw_slots fuel (slots_per_carrier st) (wanted_slots st) [] (tl_rand st)) (\<lambda>(tmp, rs).
       Inr (fst (spread_slots (unat (ct_getCarriersNumber (tl_category st))) (slots_per_carrier st) tmp [] rs),
            st\<lparr>tl_rand := snd (spread_slots (unat (ct_getCarriersNumber (tl_category st)))
                  (slots_per_carrier st) tmp [] rs)\<rparr>))"
  by (simp add: tal_getTimeSlots_def Let_def case_prod_beta slots_per_carrier_def wanted_slots_def)

lemma getTimeSlots_ok:
  assumes "ct_getCarriersNumber (tl_category st) \<noteq> 0" "draws_hit fuel (slots_per_carrier st) m (tl_rand st)"
    and "wanted_slots st \<le> m"
  obtains ts rs where "tal_getTimeSlots fuel st = Inr (ts, st\<lparr>tl_rand := rs\<rparr>)" "sorted_wrt (<) ts"
    "length ts \<le> wanted_slots st"
proof -
  have "m \<le> card ((\<lambda>r. of_nat (scaled r (slots_per_carrier st)) :: u16) ` set (stake fuel (tl_rand st)))"
    using assms(2) unfolding draws_hit_def by (metis sdrop.simps(1))
  then have "wanted_slots st \<le> card (set [] \<union> (\<lambda>r. of_nat (scaled r (slots_per_carrier st)) :: u16)
      ` set (stake fuel (tl_rand st)))" using assms(3) by simp
  then obtain tmp rs where d: "draw_slots fuel (slots_per_carrier st) (wanted_slots st) [] (tl_rand st)
      = Inr (tmp, rs)" using draw_slots_returns [of "[]"] by (metis sorted_wrt.simps(1))
  obtain ts rs' where sp: "spread_slots (unat (ct_getCarriersNumber (tl_category st)))
      (slots_per_carrier st) tmp [] rs = (ts, rs')" by force
  have "length tmp = wanted_slots st" using draw_slots_result(4) [OF d] by simp
  then have "length ts \<le> wanted_slots st" using spread_length [of _ _ tmp "[]" rs] sp by (metis add.right_neutral fst_conv list.size(3))
  moreover have "sorted_wrt (<) ts" using spread_sorted [of "[]" _ _ tmp rs] sp by (metis fst_conv sorted_wrt.simps(1))
  moreover have "tal_getTimeSlots fuel st = Inr (ts, st\<lparr>tl_rand := rs'\<rparr>)"
    unfolding getTimeSlots_eq [OF assms(1)] using d sp by simp
  ultimately show ?thesis using that by blast
qed

text \<open>The different positions among the first \<open>fuel\<close> draws.\<close>

definition drawn :: "nat \<Rightarrow> 'r tal \<Rightarrow> u16 set" where
  "drawn fuel st = (\<lambda>r. of_nat (scaled r (slots_per_carrier st))) ` set (stake fuel (tl_rand st))"

lemma getTimeSlots_result:
  assumes "tal_getTimeSlots fuel st = Inr (ts, st')" "\<forall>r \<in> sset (tl_rand st). r < RAND_MAX"
    and "ct_getCarriersNumber (tl_category st) \<noteq> 0"
    and "ct_getCarriersNumber (tl_category st) \<le> ct_getSlotsNumber (tl_category st)"
    and "unat (ct_getSlotsNumber (tl_category st)) \<le> 65536"
  shows "length ts = wanted_slots st \<and> (\<forall>s \<in> set ts. unat s < unat (ct_getSlotsNumber (tl_category st)))
    \<and> sorted_wrt (<) ts \<and> inj_on (\<lambda>s. unat s mod slots_per_carrier st) (set ts)"
proof -
  let ?c = "ct_getCarriersNumber (tl_category st)" and ?n = "ct_getSlotsNumber (tl_category st)"
  note c = assms(3)
  then have c0: "0 < unat ?c" by (simp add: word_gt_0 unat_gt_0)
  have spc: "slots_per_carrier st = unat ?n div unat ?c"
    by (simp add: slots_per_carrier_def unat_div_distrib)
  have le: "unat ?c \<le> unat ?n" using assms(4) by (simp add: word_le_nat_alt)
  have spc0: "0 < slots_per_carrier st" unfolding spc using le c0 by (simp add: div_greater_zero_iff)
  have prod: "unat ?c * slots_per_carrier st \<le> unat ?n" unfolding spc by simp
  have spc_le: "slots_per_carrier st \<le> 65536"
    using assms(5) div_le_dividend [of "unat ?n" "unat ?c"] unfolding spc by linarith
  obtain tmp rs where d: "draw_slots fuel (slots_per_carrier st) (wanted_slots st) [] (tl_rand st) = Inr (tmp, rs)"
    and ts: "ts = fst (spread_slots (unat ?c) (slots_per_carrier st) tmp [] rs)"
    using assms(1) unfolding getTimeSlots_eq [OF c] by (auto simp: res_bind_Inr)
  have tmp: "sorted_wrt (<) tmp" "length tmp = wanted_slots st"
    using draw_slots_result(3,4) [OF d] by simp_all
  obtain k where k: "rs = sdrop k (tl_rand st)"
    "set tmp = (\<lambda>r. of_nat (scaled r (slots_per_carrier st))) ` set (stake k (tl_rand st))"
    using draw_slots_result(2) [OF d] by auto
  have lt: "\<forall>i \<in> set tmp. unat i < slots_per_carrier st"
  proof
    fix i assume "i \<in> set tmp"
    then obtain r where r: "r \<in> set (stake k (tl_rand st))" "i = of_nat (scaled r (slots_per_carrier st))"
      unfolding k(2) by (elim imageE) simp
    have "r \<in> sset (tl_rand st)" using r(1) set_stake_sub [of k "tl_rand st"] by (rule rev_subsetD)
    then have "r < RAND_MAX" using assms(2) by simp
    then show "unat i < slots_per_carrier st" unfolding r(2) using spc0 spc_le by (rule scaled_slot_less)
  qed
  have rs: "\<forall>r \<in> sset rs. r < RAND_MAX" unfolding k(1) using assms(2) sset_sdrop_sub [of k "tl_rand st"] by (auto dest: subsetD)
  have "unat ?c * slots_per_carrier st \<le> 65536" using prod assms(5) by simp
  note T = spread_slots_spec [OF rs c0 this lt tmp(1) ts]
  show ?thesis using T(1-4) tmp(2) prod by (auto intro: less_le_trans)
qed

text \<open>
  C21: The choice of the time slots of a schedule, its return included. For a category with carriers, at least as many
  slots as carriers and at most 65536, and draws below \<open>RAND_MAX\<close> (a draw equal to it would give the
  position behind the last): the loop has ended within \<open>fuel\<close> draws exactly when these hit as many different
  positions as slots are wanted, and still runs otherwise. Then the slots are as many as wanted, all of the
  category, and on pairwise different positions of the carriers, so that a terminal never transmits on two
  carriers at once; only the random numbers of the state have changed. The number wanted is the smaller of the packets pending (a sum
  modulo \<open>2 ^ 16\<close>, as in the code) and the maximal number of packets, times the replicas, again modulo \<open>2 ^ 16\<close>.
\<close>

theorem time_slots_disjoint:
  assumes "\<forall>r \<in> sset (tl_rand st). r < RAND_MAX" "ct_getCarriersNumber (tl_category st) \<noteq> 0"
    and "ct_getCarriersNumber (tl_category st) \<le> ct_getSlotsNumber (tl_category st)"
    and "unat (ct_getSlotsNumber (tl_category st)) \<le> 65536"
  defines "wanted \<equiv> unat (min (pending_packets st) (tl_nb_max_packets st) * tl_nb_replicas st)"
  shows "if wanted \<le> card (drawn fuel st)
     then \<exists>ts rs. tal_getTimeSlots fuel st = Inr (ts, st\<lparr>tl_rand := rs\<rparr>) \<and> length ts = wanted
       \<and> (\<forall>s \<in> set ts. unat s < unat (ct_getSlotsNumber (tl_category st)))
       \<and> sorted_wrt (<) ts \<and> inj_on (\<lambda>s. unat s mod slots_per_carrier st) (set ts)
     else tal_getTimeSlots fuel st = Inl NoReturn"
proof (cases "wanted \<le> card (drawn fuel st)")
  case True
  then have "wanted_slots st \<le> card (set [] \<union> (\<lambda>r. of_nat (scaled r (slots_per_carrier st)) :: u16)
      ` set (stake fuel (tl_rand st)))" by (simp add: wanted_def wanted_slots_def drawn_def)
  then obtain tmp rs where "draw_slots fuel (slots_per_carrier st) (wanted_slots st) [] (tl_rand st) = Inr (tmp, rs)"
    using draw_slots_returns [of "[]"] by (metis sorted_wrt.simps(1))
  then obtain ts rs' where t: "tal_getTimeSlots fuel st = Inr (ts, st\<lparr>tl_rand := rs'\<rparr>)"
    unfolding getTimeSlots_eq [OF assms(2)] by simp
  show ?thesis using t getTimeSlots_result [OF t assms(1-4)] True
    by (auto simp: wanted_def wanted_slots_def)
next
  case False
  then have "draw_slots fuel (slots_per_carrier st) (wanted_slots st) [] (tl_rand st) = Inl NoReturn"
    by (intro draw_slots_runs) (simp_all add: wanted_def wanted_slots_def drawn_def)
  then show ?thesis using False unfolding getTimeSlots_eq [OF assms(2)] by simp
qed

section \<open>A whole schedule\<close>

text \<open>The configuration \<open>init\<close> leaves: a number of slots that fits its type, carriers, a frame rate.\<close>

definition setup_ok :: "'r tal \<Rightarrow> bool" where
  "setup_ok st \<longleftrightarrow> tl_sf_per_saframe st \<noteq> 0 \<and> ct_getCarriersNumber (tl_category st) \<noteq> 0
     \<and> unat (tl_nb_max_packets st) * unat (tl_nb_replicas st) < 65536"

lemma wanted_slots_le:
  assumes "unat (tl_nb_max_packets st) * unat (tl_nb_replicas st) < 65536"
  shows "wanted_slots st \<le> unat (tl_nb_max_packets st) * unat (tl_nb_replicas st)"
proof -
  let ?a = "min (pending_packets st) (tl_nb_max_packets st)" and ?r = "tl_nb_replicas st"
  have a: "unat ?a \<le> unat (tl_nb_max_packets st)" by (simp add: word_le_nat_alt [symmetric])
  then have le: "unat ?a * unat ?r \<le> unat (tl_nb_max_packets st) * unat ?r" by (rule mult_le_mono1)
  have "?a * ?r = of_nat (unat ?a * unat ?r)" by simp
  then have "wanted_slots st = unat ?a * unat ?r"
    unfolding wanted_slots_def using le assms by (simp only: u16_of_nat_id order.strict_trans1 [OF le assms])
  then show ?thesis using le by simp
qed

lemma tal_ok_rand [simp]:
  "tal_ok n (st\<lparr>tl_rand := rs\<rparr>) = tal_ok n st" "tal_live (st\<lparr>tl_rand := rs\<rparr>) = tal_live st"
  "same_setup st (st\<lparr>tl_rand := rs\<rparr>)"
proof -
  have "known_pkt (st\<lparr>tl_rand := rs\<rparr>) = known_pkt st" by (simp add: known_pkt_def fun_eq_iff)
  then show "tal_ok n (st\<lparr>tl_rand := rs\<rparr>) = tal_ok n st" by (simp add: tal_ok_def)
qed (simp_all add: tal_live_def same_setup_def)

lemma same_setup_trans: "same_setup a b \<Longrightarrow> same_setup b c \<Longrightarrow> same_setup a c"
  by (simp add: same_setup_def)

lemma probes_put_ok: "tal_ok n st \<Longrightarrow> tal_probes_put (fs, st) = Inr (fs, st)"
  using tal_okD(6,7) [of n st] by (simp add: tal_probes_put_def)

text \<open>
  C1: A schedule of the terminal. It returns, given enough random draws, and adds to the completed
  frames those that a receiver reads as: for each packet sent, its copies one after the other, one per
  slot, each copy with its own slot and all of them listing the packet's slots; no slot is used
  twice. Afterwards every packet is in exactly one place, the only packets deleted being those it
  held, the retransmissions stay within their bound, and the invariant holds again.
\<close>

theorem tal_schedule_correct:
  fixes st :: "'r tal"
  assumes "tal_ok n st" "setup_ok st"
    and "draws_hit fuel (slots_per_carrier st)
      (unat (tl_nb_max_packets st) * unat (tl_nb_replicas st)) (tl_rand st)"
  shows "\<exists>frames bss s st' frd. tal_schedule fuel complete sf st = Inr (complete @ frames, st')
    \<and> received bss frames \<and> concat bss = wires s \<and> distinct (concat (map snd s))
    \<and> (\<forall>x \<in> set s. sent_ok n (known_pkt st) x) \<and> tal_ok n st'
    \<and> tl_freed st' = tl_freed st @ frd \<and> tal_live st' + mset frd = tal_live st"
proof -
  let ?m = "unat (tl_nb_max_packets st) * unat (tl_nb_replicas st)"
  let ?st1 = "tal_dec_timeouts (st\<lparr>tl_backoff := bk_tick (tl_backoff st)\<rparr>)"
  note dec = tal_dec_ok [OF assms(1), of "bk_tick (tl_backoff st)"]
  have freed1: "tl_freed ?st1 = tl_freed st" "tl_rand ?st1 = tl_rand st" by (simp_all add: tal_dec_timeouts_def)
  have unsent: "\<exists>frames bss s st'' frd.
        (Inr (complete, st') :: (dvb_frame list \<times> 'r tal) res) = Inr (complete @ frames, st'')
      \<and> received bss frames \<and> concat bss = wires s \<and> distinct (concat (map snd s))
      \<and> (\<forall>x \<in> set s. sent_ok n (known_pkt st) x) \<and> tal_ok n st''
      \<and> tl_freed st'' = tl_freed st @ frd \<and> tal_live st'' + mset frd = tal_live st"
    if "tal_ok n st'" "tl_freed st' = tl_freed st" "tal_live st' = tal_live st" for st'
    by (rule exI [of _ "[]"], rule exI [of _ "[]"], rule exI [of _ "[]"], rule exI [of _ st'],
        rule exI [of _ "[]"]) (use that in \<open>simp add: received_def wires_def\<close>)
  obtain tick where tick: "isSalohaFrameTick (tl_sf_per_saframe st) sf = Inr tick"
    using assms(2) by (simp add: isSalohaFrameTick_def setup_ok_def)
  consider (idle) "\<not> tick" | (wait) "tick" "\<not> isReady (tl_backoff ?st1)"
    | (go) "tick" "isReady (tl_backoff ?st1)" by blast
  then show ?thesis
  proof cases
    case idle
    then have run: "tal_schedule fuel complete sf st = Inr (complete, st)"
      using tick probes_put_ok [OF assms(1)] by (simp add: tal_schedule_def)
    show ?thesis unfolding run by (fact unsent [OF assms(1) refl refl])
  next
    case wait
    then have run: "tal_schedule fuel complete sf st = Inr (complete, ?st1)"
      using tick probes_put_ok [OF dec(1)] by (simp add: tal_schedule_def Let_def)
    show ?thesis unfolding run by (fact unsent [OF dec(1) freed1(1) dec(2)])
  next
    case go
    obtain st2 frd k where c: "tal_collect ?st1 = Inr st2" "tal_ok n st2" "same_setup ?st1 st2"
      "tl_freed st2 = tl_freed ?st1 @ frd" "tl_rand st2 = sdrop k (tl_rand ?st1)"
      "tl_fifos st2 = tl_fifos ?st1" "tal_live st2 + mset frd = tal_live ?st1"
      by (rule tal_collect_ok [OF dec(1)])
    have su: "same_setup st st2" using same_setup_trans dec(3) c(3) by blast
    then have kn: "known_pkt st2 = known_pkt st" by (rule known_cong)
    have conf: "tl_category st2 = tl_category st" "tl_nb_max_packets st2 = tl_nb_max_packets st"
      "tl_nb_replicas st2 = tl_nb_replicas st" using su by (simp_all add: same_setup_def)
    have "ct_getCarriersNumber (tl_category st2) \<noteq> 0" using assms(2) conf by (simp add: setup_ok_def)
    moreover have "draws_hit fuel (slots_per_carrier st2) ?m (tl_rand st2)"
      using draws_hit_sdrop [OF assms(3), of k] conf c(5) freed1 by (simp add: slots_per_carrier_def)
    moreover have "wanted_slots st2 \<le> ?m"
      using wanted_slots_le [of st2] assms(2) conf by (simp add: setup_ok_def)
    ultimately obtain ts rs where t: "tal_getTimeSlots fuel st2 = Inr (ts, st2\<lparr>tl_rand := rs\<rparr>)"
      "sorted_wrt (<) ts" "length ts \<le> wanted_slots st2" by (rule getTimeSlots_ok)
    let ?st3 = "st2\<lparr>tl_rand := rs\<rparr>"
    have ok3: "tal_ok n ?st3" using c(2) by simp
    have len: "length ts < 65536"
      using t(3) \<open>wanted_slots st2 \<le> ?m\<close> assms(2) by (simp add: setup_ok_def)
    obtain frames bss s st4 m where sd: "tal_send ts complete ?st3 = Inr (complete @ frames, st4)"
      "received bss frames" "concat bss = wires s" "concat (map snd s) = take m ts"
      "\<forall>x \<in> set s. sent_ok n (known_pkt ?st3) x" "tal_ok n st4" "same_setup ?st3 st4"
      "tl_freed st4 = tl_freed ?st3" "tl_rand st4 = tl_rand ?st3" "tal_live st4 = tal_live ?st3"
      by (rule tal_send_ok [OF ok3 len])
    have run: "tal_schedule fuel complete sf st = Inr (complete @ frames, st4)"
      using tick go c(1) t(1) sd(1) probes_put_ok [OF sd(6)] by (simp add: tal_schedule_def Let_def)
    have "known_pkt ?st3 = known_pkt st" using kn by (simp add: known_pkt_def fun_eq_iff)
    moreover have "distinct (concat (map snd s))"
      unfolding sd(4) using t(2) by (simp add: strict_sorted_iff)
    moreover have "tl_freed st4 = tl_freed st @ frd" using sd(8) c(4) freed1 by simp
    moreover have "tal_live st4 + mset frd = tal_live st" using sd(10) c(7) dec(2) by simp
    ultimately show ?thesis using run sd(2,3,5,6) by (metis (no_types, lifting))
  qed
qed

section \<open>A terminal to run the properties on\<close>

definition demo_pkt :: sa_packet where
  "demo_pkt = sa_of_data 7 (3, 0) (sa_hdr 2 5 0 0 1 1 18 @ be16 0 @ [9]) 18"

definition demo_fifo :: "sa_packet dvb_fifo" where
  "demo_fifo = (new_dvb_fifo (0, 0) 1 ''EF'' ''SALOHA'' 10)\<lparr>fi_queue := [new_fifo_elem demo_pkt 0 0]\<rparr>"

definition demo_tal :: "nat tal" where
  "demo_tal = \<lparr>tl_tal_id = 3, tl_timeout_saf = 3, tl_wait_ack = [], tl_retrans = [], tl_nb_success = 0,
     tl_nb_max_packets = 1, tl_nb_replicas = 1, tl_nb_max_retrans = 2, tl_base_id = 6, tl_kind = Beb,
     tl_backoff = \<lparr>cw_min = 1, cw_max = 4, cw = 1, bk_backoff = 0, bk_multiple = 2\<rparr>,
     tl_category = ct_computeSlotsNumber (\<lambda>g. 2) demo_category, tl_fifos = [(2, demo_fifo)],
     tl_probes = [2], tl_sf_per_saframe = 1, tl_frame_duration_ms = 53, tl_rand = sconst 9,
     tl_next = 8, tl_freed = []\<rparr>"

lemma demo_pkt_facts: "sa_built demo_pkt 2 5 0 0 1 [0] [9]" "sp_nb_retrans demo_pkt = 0"
  by (simp_all add: sa_built_def demo_pkt_def sa_of_data_def new_net_packet_len_def new_net_packet_def
      net_packet.defs sa_packet.defs)

lemma demo_slots_number:
  "unat (ct_getSlotsNumber (tl_category demo_tal)) = 6" "ct_getCarriersNumber (tl_category demo_tal) = 3"
proof -
  have "\<forall>g \<in> set (ct_groups demo_category). cg_slots g = []"
    "(\<Sum>g\<leftarrow>ct_groups demo_category. cg_span (\<lambda>g. 2) g) = 6"
    by (simp_all add: demo_category_groups new_carriers_group_def cg_span_def)
  then show "unat (ct_getSlotsNumber (tl_category demo_tal)) = 6"
    using slots_numbered(3) [of demo_category "\<lambda>g. 2"] by (simp add: demo_tal_def)
  show "ct_getCarriersNumber (tl_category demo_tal) = 3"
    by (simp add: demo_tal_def ct_getCarriersNumber_def ct_computeSlotsNumber_def demo_category_groups
        cg_setSlotsNumber_def Let_def)
qed

lemma demo_draws: "draws_hit 5 spc 1 (tl_rand demo_tal)"
proof -
  have "(\<lambda>r. of_nat (scaled r spc) :: u16) ` set (stake 5 (sdrop k (tl_rand demo_tal))) \<noteq> {}" for k
    using length_stake [of 5 "sdrop k (tl_rand demo_tal)"] by (cases "stake 5 (sdrop k (tl_rand demo_tal))") auto
  then have "0 < card ((\<lambda>r. of_nat (scaled r spc) :: u16) ` set (stake 5 (sdrop k (tl_rand demo_tal))))" for k
    by (simp only: card_gt_0_iff finite_imageI finite_set simp_thms)
  then show ?thesis by (simp only: draws_hit_def Suc_le_eq One_nat_def simp_thms)
qed

lemma demo_tal_ok: "tal_ok 1 demo_tal" "setup_ok demo_tal"
proof -
  have pk: "pkt_ok 1 demo_pkt"
    unfolding pkt_ok_def by (intro exI conjI, rule demo_pkt_facts(1)) simp_all
  moreover have "sa_getQos demo_pkt = 2" by (rule sa_built_getters(5) [OF demo_pkt_facts(1)])
  ultimately have "pkt_inv 1 (known_pkt demo_tal) demo_pkt"
    using demo_pkt_facts(2) by (simp add: pkt_inv_def known_pkt_def demo_tal_def)
  then show "tal_ok 1 demo_tal"
    by (intro tal_okI) (simp_all add: demo_tal_def fifo_ok_def fifo_pkts_def demo_fifo_def
        new_fifo_elem_def saloha_fifos_def)
  show "setup_ok demo_tal"
    using demo_slots_number(2) by (simp add: setup_ok_def demo_tal_def)
qed

theorem time_slots_disjoint_witness:
  "\<exists>ts rs. tal_getTimeSlots 5 demo_tal = Inr (ts, demo_tal\<lparr>tl_rand := rs\<rparr>) \<and> length ts = 1
    \<and> (\<forall>s \<in> set ts. unat s < 6)"
proof -
  have c: "ct_getCarriersNumber (tl_category demo_tal) \<noteq> 0" using demo_slots_number(2) by simp
  have w: "unat (min (pending_packets demo_tal) (tl_nb_max_packets demo_tal) * tl_nb_replicas demo_tal) = 1"
    by (simp add: pending_packets_def demo_tal_def saloha_fifos_def demo_fifo_def fifo_getCurrentSize_def
        new_dvb_fifo_def type_access_def new_fifo_elem_def)
  have "1 \<le> card (drawn 5 demo_tal)" using demo_draws [of "slots_per_carrier demo_tal"]
    unfolding draws_hit_def drawn_def by (metis sdrop.simps(1))
  moreover have "\<forall>r \<in> sset (tl_rand demo_tal). r < RAND_MAX" by (simp add: demo_tal_def RAND_MAX_def)
  moreover have "ct_getCarriersNumber (tl_category demo_tal) \<le> ct_getSlotsNumber (tl_category demo_tal)"
    using demo_slots_number by (simp add: word_le_nat_alt)
  ultimately show ?thesis using time_slots_disjoint [OF _ c, of 5] demo_slots_number unfolding w by auto
qed

theorem tal_schedule_correct_witness:
  "\<exists>frames bss s st' frd. tal_schedule 5 [] 0 demo_tal = Inr ([] @ frames, st')
    \<and> received bss frames \<and> concat bss = wires s \<and> distinct (concat (map snd s))
    \<and> (\<forall>x \<in> set s. sent_ok 1 (known_pkt demo_tal) x) \<and> tal_ok 1 st'
    \<and> tl_freed st' = tl_freed demo_tal @ frd \<and> tal_live st' + mset frd = {#7#}"
proof -
  have "draws_hit 5 (slots_per_carrier demo_tal)
      (unat (tl_nb_max_packets demo_tal) * unat (tl_nb_replicas demo_tal)) (tl_rand demo_tal)"
    using demo_draws by (simp add: demo_tal_def)
  moreover have "tal_live demo_tal = {#7#}"
    by (simp add: tal_live_def demo_tal_def fifos_pkts_def fifo_pkts_def demo_fifo_def
        new_fifo_elem_def demo_pkt_def sa_of_data_def net_packet.defs sa_packet.defs)
  ultimately show ?thesis using tal_schedule_correct [OF demo_tal_ok, of 5 "[]" 0] by metis
qed

section \<open>Acknowledgements\<close>

lemma take_id_split:
  assumes "take_id i ps = Some (p, rest)"
  shows "sa_getUniqueId p = i" "mset ps = add_mset p (mset rest)"
    "\<exists>a b. ps = a @ p # b \<and> rest = a @ b \<and> (\<forall>x \<in> set a. sa_getUniqueId x \<noteq> i)"
proof -
  have *: "sa_getUniqueId p = i \<and> (\<exists>a b. ps = a @ p # b \<and> rest = a @ b \<and> (\<forall>x \<in> set a. sa_getUniqueId x \<noteq> i))"
    using assms
  proof (induction ps arbitrary: rest)
    case (Cons x ps)
    show ?case
    proof (cases "sa_getUniqueId x = i")
      case True
      then have "sa_getUniqueId p = i" "x # ps = [] @ p # rest" using Cons.prems by simp_all
      then show ?thesis by (metis append_Nil empty_iff list.set(1))
    next
      case False
      then obtain r where r: "take_id i ps = Some (p, r)" "rest = x # r"
        using Cons.prems by (auto split: option.splits)
      from Cons.IH [OF r(1)] obtain a b where "sa_getUniqueId p = i" "ps = a @ p # b" "r = a @ b"
        "\<forall>x \<in> set a. sa_getUniqueId x \<noteq> i" by blast
      then show ?thesis using r(2) False
        by (intro conjI exI [of _ "x # a"] exI [of _ b]) auto
    qed
  qed simp
  then show "sa_getUniqueId p = i"
    "\<exists>a b. ps = a @ p # b \<and> rest = a @ b \<and> (\<forall>x \<in> set a. sa_getUniqueId x \<noteq> i)" by blast+
  then show "mset ps = add_mset p (mset rest)" by auto
qed

lemma take_id_None: "take_id i ps = None \<longleftrightarrow> (\<forall>p \<in> set ps. sa_getUniqueId p \<noteq> i)"
  by (induction ps) (auto split: option.splits)

lemma om_at_values:
  "om_wf m \<Longrightarrow> mset (concat (map snd (snd (om_at [] m k)))) = mset (concat (map snd m))"
  using om_put_values [of m k "[]"] by (auto simp: om_at_def split: option.splits)

text \<open>The effect of the acknowledgement of a packet \<open>p\<close> that waits under its QoS.\<close>

lemma tal_ack_waiting:
  assumes wf: "om_wf (tl_wait_ack st)" and i: "unat (sa_getId p) < 65536"
    and ps: "om_find (tl_wait_ack st) (sa_getQos p) = Some ps" "p \<in> set ps"
    and rdy: "\<exists>b. setReady (tl_kind st) (shd (tl_rand st)) (tl_backoff st) = Inr b"
  obtains st' a b q where "tal_ack old (sa_getUniqueId p) st = Inr st'" "ps = a @ q # b"
    "sa_getUniqueId q = sa_getUniqueId p" "\<forall>x \<in> set a. sa_getUniqueId x \<noteq> sa_getUniqueId p"
    "tl_wait_ack st' = om_put (sa_getQos p) (a @ b) (tl_wait_ack st)"
    "tl_freed st' = tl_freed st @ [sp_addr q]" "tl_nb_success st' = tl_nb_success st + 1"
    "tl_retrans st' = tl_retrans st" "tl_fifos st' = tl_fifos st"
proof -
  have qos: "ucast (convertPacketId (sa_getUniqueId p) old ! 3) = sa_getQos p"
    unfolding convert_small [OF i] by (simp add: ucast_u8_u16)
  obtain q rest where t: "take_id (sa_getUniqueId p) ps = Some (q, rest)"
    using ps(2) take_id_None [of "sa_getUniqueId p" ps] by (cases "take_id (sa_getUniqueId p) ps") auto
  obtain a b where ab: "ps = a @ q # b" "rest = a @ b" "\<forall>x \<in> set a. sa_getUniqueId x \<noteq> sa_getUniqueId p"
    using take_id_split(3) [OF t] by blast
  obtain bk where bk: "setReady (tl_kind st) (shd (tl_rand st)) (tl_backoff st) = Inr bk" using rdy by blast
  have at: "om_at [] (tl_wait_ack st) (sa_getQos p) = (ps, tl_wait_ack st)"
    using ps(1) by (simp add: om_at_def)
  show ?thesis
    using take_id_split(1) [OF t] ab
    by (intro that [of "st\<lparr>tl_wait_ack := om_put (sa_getQos p) rest (tl_wait_ack st),
            tl_nb_success := tl_nb_success st + 1, tl_backoff := bk, tl_rand := stl (tl_rand st),
            tl_freed := tl_freed st @ [sp_addr q]\<rparr>" a q b])
      (use qos at t bk in \<open>simp_all add: tal_ack_def Let_def\<close>)
qed

text \<open>An acknowledgement removes exactly the packet it names: when the identifiers of the waiting
  packets of that QoS are pairwise different, the packet leaves the list and is deleted, and every
  other packet stays where it is.
\<close>

theorem ack_removes_packet:
  assumes "om_wf (tl_wait_ack st)" "unat (sa_getId p) < 65536"
    and "om_find (tl_wait_ack st) (sa_getQos p) = Some ps" "p \<in> set ps"
    and "distinct (map sa_getUniqueId ps)"
    and "bk_multiple (tl_backoff st) \<noteq> 0"
  shows "\<exists>st'. tal_ack old (sa_getUniqueId p) st = Inr st'
    \<and> om_find (tl_wait_ack st') (sa_getQos p) = Some (remove1 p ps)
    \<and> (\<forall>q. q \<noteq> sa_getQos p \<longrightarrow> om_find (tl_wait_ack st') q = om_find (tl_wait_ack st) q)
    \<and> tl_retrans st' = tl_retrans st \<and> tl_fifos st' = tl_fifos st
    \<and> tl_freed st' = tl_freed st @ [sp_addr p]"
proof -
  have rdy: "\<exists>b. setReady (tl_kind st) (shd (tl_rand st)) (tl_backoff st) = Inr b"
    using assms(6) by (cases "tl_kind st") (simp_all add: beb_setReady_def eied_setReady_def mimd_setReady_def)
  obtain st' a b q where s: "tal_ack old (sa_getUniqueId p) st = Inr st'" "ps = a @ q # b"
    "sa_getUniqueId q = sa_getUniqueId p" "\<forall>x \<in> set a. sa_getUniqueId x \<noteq> sa_getUniqueId p"
    "tl_wait_ack st' = om_put (sa_getQos p) (a @ b) (tl_wait_ack st)"
    "tl_freed st' = tl_freed st @ [sp_addr q]" "tl_nb_success st' = tl_nb_success st + 1"
    "tl_retrans st' = tl_retrans st" "tl_fifos st' = tl_fifos st"
    by (rule tal_ack_waiting [OF assms(1-4) rdy])
  have "q \<in> set ps" using s(2) by simp
  then have qp: "q = p" using assms(4,5) s(3) by (auto simp: distinct_map dest: inj_onD)
  have "p \<notin> set a" using s(4) by auto
  then have "remove1 p ps = a @ b" unfolding s(2) qp by (simp add: remove1_append)
  then show ?thesis using s qp by simp
qed

theorem ack_removes_packet_witness:
  "\<exists>st'. tal_ack [0, 0, 0, 0] (sa_getUniqueId demo_pkt) (demo_tal\<lparr>tl_wait_ack := [(2, [demo_pkt])]\<rparr>) = Inr st'
    \<and> om_find (tl_wait_ack st') 2 = Some []"
proof -
  have f: "sa_getQos demo_pkt = 2" "sa_getId demo_pkt = 5"
    using sa_built_getters(1,5) [OF demo_pkt_facts(1)] by simp_all
  show ?thesis
    using ack_removes_packet [of "demo_tal\<lparr>tl_wait_ack := [(2, [demo_pkt])]\<rparr>" demo_pkt "[demo_pkt]" "[0, 0, 0, 0]"]
    by (simp add: f om_wf_Cons demo_tal_def) blast
qed

section \<open>Control frames\<close>

lemma tal_ack_tal_id: "tal_ack old i st = Inr st' \<Longrightarrow> tl_tal_id st' = tl_tal_id st"
  by (auto simp: tal_ack_def Let_def res_bind_Inr split: prod.splits option.splits)

lemma res_fold_cong_inv:
  assumes "\<And>x s. x \<in> set xs \<Longrightarrow> P s \<Longrightarrow> f x s = g x s" "\<And>x s s'. x \<in> set xs \<Longrightarrow> P s \<Longrightarrow> g x s = Inr s' \<Longrightarrow> P s'" "P s"
  shows "res_fold f xs s = res_fold g xs s"
  using assms
proof (induction xs arbitrary: s)
  case (Cons x xs)
  have e: "f x s = g x s" using Cons.prems(1,3) by simp
  show ?case
  proof (cases "g x s")
    case (Inr t)
    have "P t" using Cons.prems(2,3) Inr by auto
    then have "res_fold f xs t = res_fold g xs t"
      using Cons.prems by (intro Cons.IH) (auto intro: Cons.prems(2))
    then show ?thesis using e Inr by simp
  qed (simp add: e)
qed simp

lemma res_fold_filter:
  "res_fold (\<lambda>x. if Q x then f x else Inr) xs s = res_fold f (filter Q xs) s"
  by (induction xs arbitrary: s) (auto simp: res_bind_def split: sum.splits)

lemma res_fold_map: "res_fold f (map h xs) s = res_fold (\<lambda>x. f (h x)) xs s"
  by (induction xs arbitrary: s) (auto simp: res_bind_def split: sum.splits)

text \<open>
  C22: A control frame of the gateway is read as the acknowledgements it holds: the terminal handles
  those addressed to it, in their order, and skips the others, whatever trailer follows the frame.
\<close>

theorem ctrl_frame_acks:
  fixes st :: "'r tal"
  assumes "saf_holds MSG_TYPE_SALOHA_CTRL (map (\<lambda>(i, t). ctrl_packet i SALOHA_CTRL_ACK t) acks) f"
    and "\<forall>(i, t) \<in> set acks. length i < 65531" "acks \<noteq> []"
    and "df_of_data (df_data f @ phy) = Inr g"
  shows "tal_onRcvFrame old g st
    = res_fold (tal_ack old) (map fst (filter (\<lambda>x. snd x = tl_tal_id st) acks)) st"
proof -
  let ?p = "\<lambda>(i, t). ctrl_packet i SALOHA_CTRL_ACK t"
  let ?bs = "map ?p acks"
  obtain g' where g': "df_of_data (df_data f @ phy) = Inr g'" "df_data (df_as_saloha g') = df_data f @ phy"
    "df_header_length (df_as_saloha g') = 5" "df_trailer_length (df_as_saloha g') = length phy"
    using received_holds [OF assms(1)] by blast
  then have g: "df_data (df_as_saloha g) = df_data f @ phy" "df_header_length (df_as_saloha g) = 5"
    "df_trailer_length (df_as_saloha g) = length phy" using assms(4) by simp_all
  have fd: "df_data f = take 5 (df_data f) @ concat ?bs" "length (take 5 (df_data f)) = 5"
    using assms(1) saf_bytes_simps(9) append_take_drop_id [of 5 "df_data f"]
    by (auto simp: saf_holds_def saf_bytes_simps(1))
  have "saf_getDataLength (df_as_saloha g) = of_nat (length ?bs)"
    using assms(1) g(1) by (simp add: saf_getDataLength_def saf_holds_def saf_bytes_simps)
  then have n: "unat (saf_getDataLength (df_as_saloha g)) = length acks"
    using saf_count [OF assms(1)] by simp
  have nz: "\<not> saf_getDataLength (df_as_saloha g) \<le> 0"
    using n assms(3) by (auto simp: word_le_nat_alt)
  have len: "\<not> length (df_data f @ phy) < 5" using fd(2) by simp
  define step where "step = (\<lambda>b. tal_ctrl_body old b (length b) :: 'r tal \<Rightarrow> 'r tal res)"
  have ok: "ctrl_ok b" "length b = 5 + (length b - 5)" if "b \<in> set ?bs" for b
    using that assms(2) ctrl_packet_fields(1,5) by fastforce+
  have "frame_loop ctrl_getPacketLength (tal_ctrl_body old) (df_as_saloha g) (length ?bs)
      (length (concat ([] :: data list))) st = res_fold step ?bs st"
  proof (rule ctrl_framed.frame_loop_fold [where h = "take 5 (df_data f)" and phy = phy and bs = ?bs])
    show "df_data (df_as_saloha g) = take 5 (df_data f) @ concat ?bs @ phy"
      using g(1) fd(1) by simp
    show "tal_ctrl_body old (take (length (concat ?bs)) (b @ r)) (length b) s = step b s"
      if "b \<in> set ?bs" for b r s
    proof -
      have "length b \<le> length (concat ?bs)" using that by (auto dest: split_list)
      then have "ctrl_of_raw (take (length (concat ?bs)) (b @ r)) (length b) = ctrl_of_raw b (length b)"
        by (simp add: ctrl_of_raw_def)
      then show ?thesis by (simp add: step_def tal_ctrl_body_def)
    qed
  qed (use g(2,3) fd(2) ok in simp_all)
  then have "tal_onRcvFrame old g st = res_fold step ?bs st"
    using nz n g(1) len by (simp add: tal_onRcvFrame_def Let_def sizeof_DVB_SALOHA_def)
  also have "\<dots> = res_fold (\<lambda>x. step (?p x)) acks st" by (rule res_fold_map)
  also have "\<dots> = res_fold (\<lambda>x. if snd x = tl_tal_id st then tal_ack old (fst x) else Inr) acks st"
  proof (rule res_fold_cong_inv [where P = "\<lambda>s. tl_tal_id s = tl_tal_id st"])
    fix x and s :: "'r tal" assume x: "x \<in> set acks" and s: "tl_tal_id s = tl_tal_id st"
    obtain i t where it: "x = (i, t)" by force
    then have i: "length i < 65531" using assms(2) x by auto
    note cp = ctrl_packet_fields [OF i, of SALOHA_CTRL_ACK t]
    show "step (?p x) s = (if snd x = tl_tal_id st then tal_ack old (fst x) else Inr) s"
      using s cp unfolding it by (cases "t = tl_tal_id st")
        (simp_all add: step_def tal_ctrl_body_def ctrl_of_raw_def sizeof_ctrl_hdr_def)
  qed (auto dest: tal_ack_tal_id split: if_splits)
  also have "\<dots> = res_fold (\<lambda>x. tal_ack old (fst x)) (filter (\<lambda>x. snd x = tl_tal_id st) acks) st"
    by (rule res_fold_filter)
  finally show ?thesis by (simp add: res_fold_map)
qed

theorem ctrl_frame_acks_witness:
  "\<exists>(f :: dvb_frame) g. df_of_data (df_data f @ [1, 2, 3, 4]) = Inr g
    \<and> tal_onRcvFrame [0, 0, 0, 0] g demo_tal = tal_ack [0, 0, 0, 0] (sa_getUniqueId demo_pkt) demo_tal"
proof -
  let ?acks = "[(sa_getUniqueId demo_pkt, 3), ([48], 4)] :: (data \<times> tal_id_t) list"
  let ?bs = "map (\<lambda>(i, t). ctrl_packet i SALOHA_CTRL_ACK t) ?acks"
  have u: "length (sa_getUniqueId demo_pkt) = 7"
    unfolding sa_built_uid [OF demo_pkt_facts(1)] id_str_def int_str_def by (simp add: dec.simps)
  have l: "length (ctrl_packet (sa_getUniqueId demo_pkt) SALOHA_CTRL_ACK 3) = 12"
    "length (ctrl_packet [48] SALOHA_CTRL_ACK 4) = 6"
    using u by (simp_all add: ctrl_packet_fields(5))
  then have "[] \<notin> set ?bs" by auto
  from saf_fill_holds [OF new_saf_holds(3) this] have f:
    "saf_holds MSG_TYPE_SALOHA_CTRL ?bs (saf_fill ?bs new_saf_ctrl)"
    using l by (simp add: MSG_SALOHA_SIZE_MAX_def)
  obtain g where g: "df_of_data (df_data (saf_fill ?bs new_saf_ctrl) @ [1, 2, 3, 4]) = Inr g"
    using received_holds [OF f] by blast
  have "tal_onRcvFrame [0, 0, 0, 0] g demo_tal
      = res_fold (tal_ack [0, 0, 0, 0]) [sa_getUniqueId demo_pkt] demo_tal"
    using ctrl_frame_acks [OF f _ _ g, of "[0, 0, 0, 0]" demo_tal] u by (simp add: demo_tal_def)
  also have "\<dots> = tal_ack [0, 0, 0, 0] (sa_getUniqueId demo_pkt) demo_tal"
    by (simp add: res_bind_def split: sum.splits)
  finally have "tal_onRcvFrame [0, 0, 0, 0] g demo_tal
      = tal_ack [0, 0, 0, 0] (sa_getUniqueId demo_pkt) demo_tal" .
  with g show ?thesis by (intro exI conjI)
qed

section \<open>Null probes and exhausted slots\<close>

definition wait_keys :: "'r tal \<Rightarrow> qos_t set" where
  "wait_keys st = fst ` set (tl_wait_ack st)"

definition grows :: "'r tal \<Rightarrow> 'r tal \<Rightarrow> bool" where
  "grows st st' \<longleftrightarrow> wait_keys st \<subseteq> wait_keys st' \<and> tl_probes st' = tl_probes st"

lemma grows_refl: "grows st st"
  by (simp add: grows_def)

lemma grows_trans: "grows a b \<Longrightarrow> grows b c \<Longrightarrow> grows a c"
  by (auto simp: grows_def)

lemma wait_for_ack_grows: "grows st (wait_for_ack q p st)"
  by (auto simp: grows_def wait_keys_def wait_for_ack_def om_at_def fst_set_om_put split: option.splits prod.splits)

lemma scan_waiting_keeps:
  "scan_waiting ps nb st = Inr (rest, nb', st') \<Longrightarrow> tl_wait_ack st' = tl_wait_ack st \<and> tl_probes st' = tl_probes st"
  by (induction ps nb st arbitrary: rest rule: scan_waiting.induct)
    (fastforce simp: res_bind_Inr split: if_splits)+

lemma scan_all_keeps:
  "scan_all w nb st = Inr (w', nb', st') \<Longrightarrow> map fst w' = map fst w \<and> tl_probes st' = tl_probes st"
proof (induction w arbitrary: nb st w' nb' st')
  case (Cons x w)
  obtain q ps where x: "x = (q, ps)" by force
  obtain rest nb1 st1 w1 nb2 where r: "scan_waiting ps nb st = Inr (rest, nb1, st1)"
    "scan_all w nb1 st1 = Inr (w1, nb2, st')" "w' = (q, rest) # w1"
    using Cons.prems x by (auto simp: res_bind_Inr)
  show ?case using scan_waiting_keeps [OF r(1)] Cons.IH [OF r(2)] r(3) x by simp
qed simp

lemma send_retrans_grows:
  "send_retrans sz ps tot fl st = Inr (rest, tot', fl', st') \<Longrightarrow> grows st st'"
proof (induction ps arbitrary: tot fl st rest)
  case (Cons p ps)
  show ?case
  proof (cases "unat tot + unat (sa_getNbReplicas p) \<le> sz")
    case le: True
    then obtain ok p1 fl1 where a: "addPacketInFrames p fl = Inr (ok, p1, fl1)"
      using Cons.prems by (cases "addPacketInFrames p fl") auto
    show ?thesis
    proof (cases ok)
      case True
      then have "grows (wait_for_ack (sa_getQos p) p1 st) st'"
        using Cons.prems a le by (intro Cons.IH) (simp split: if_splits)
      then show ?thesis using wait_for_ack_grows grows_trans by blast
    next
      case False
      then obtain r where "send_retrans sz ps tot fl1 st = Inr (r, tot', fl', st')"
        using Cons.prems a le by (auto simp: res_bind_Inr)
      then show ?thesis by (rule Cons.IH)
    qed
  qed (use Cons.prems grows_refl in auto)
qed (simp add: grows_refl)

lemma send_fifo_grows:
  "send_fifo n sz q f tot fl st = Inr (f', tot', fl', st') \<Longrightarrow> grows st st'"
proof (induction n arbitrary: f tot fl st)
  case (Suc n)
  show ?case
  proof (cases "fifo_getCurrentSize f \<noteq> 0 \<and> unat tot + unat (tl_nb_replicas st) \<le> sz")
    case True
    then obtain x f1 ok p1 fl1 where a: "fifo_pop sa_getTotalLength f = (Some x, f1)"
      "addPacketInFrames (fe_elem x) fl = Inr (ok, p1, fl1)"
      using Suc.prems by (auto simp: res_bind_Inr split: prod.splits option.splits)
    show ?thesis
    proof (cases ok)
      case True
      then have "grows (wait_for_ack q p1 st) st'"
        using Suc.prems a \<open>fifo_getCurrentSize f \<noteq> 0 \<and> unat tot + unat (tl_nb_replicas st) \<le> sz\<close>
        by (intro Suc.IH) simp
      then show ?thesis using wait_for_ack_grows grows_trans by blast
    next
      case False
      then show ?thesis
        using Suc.prems a \<open>fifo_getCurrentSize f \<noteq> 0 \<and> unat tot + unat (tl_nb_replicas st) \<le> sz\<close>
        by (intro Suc.IH) simp
    qed
  qed (use Suc.prems grows_refl in auto)
qed (simp add: grows_refl)

lemma send_fifos_grows:
  "send_fifos sz fs tot fl st = Inr (fs', fl', st') \<Longrightarrow> grows st st'"
proof (induction fs arbitrary: tot fl st fs')
  case (Cons x fs)
  obtain q f where x: "x = (q, f)" by force
  show ?case
  proof (cases "sz \<le> unat tot \<or> fi_access_type f \<noteq> access_saloha")
    case True
    then show ?thesis using Cons.prems Cons.IH x by (auto simp: res_bind_Inr grows_refl split: if_splits)
  next
    case False
    then obtain f1 tot1 fl1 st1 fs1 where "send_fifo (length (fi_queue f)) sz q f tot fl st = Inr (f1, tot1, fl1, st1)"
      "send_fifos sz fs tot1 fl1 st1 = Inr (fs1, fl', st')"
      using Cons.prems x by (auto simp: res_bind_Inr)
    then show ?thesis using send_fifo_grows Cons.IH grows_trans by blast
  qed
qed (simp add: grows_refl)

lemma tal_probes_put_Inr: "tal_probes_put r = Inr r' \<Longrightarrow> r' = r \<and> wait_keys (snd r) \<subseteq> set (tl_probes (snd r))"
  by (auto simp: tal_probes_put_def wait_keys_def split: if_splits)

lemma tal_collect_grows:
  assumes "tal_collect st = Inr st'"
  shows "grows st st'"
proof -
  obtain w nb st1 where r: "scan_all (tl_wait_ack st) 0 st = Inr (w, nb, st1)"
    "st' = (if nb = 0 then st1\<lparr>tl_wait_ack := w\<rparr> else st1\<lparr>tl_wait_ack := w, tl_nb_success := 0\<rparr>)"
    using assms by (auto simp: tal_collect_def res_bind_Inr Let_def split: if_splits)
  have m: "map fst w = map fst (tl_wait_ack st)" "tl_probes st1 = tl_probes st"
    using scan_all_keeps [OF r(1)] by simp_all
  have "fst ` set w = fst ` set (tl_wait_ack st)" using m(1) by (metis list.set_map)
  then show ?thesis using m(2) r(2) by (simp add: grows_def wait_keys_def)
qed

lemma tal_send_grows:
  assumes "tal_send ts complete st = Inr (fr, st')"
  shows "grows st st'"
proof -
  obtain rest tot fl st1 fs fl1 st2 where r: "send_retrans (length ts) (tl_retrans st) 0
      \<lparr>fl_complete = complete, fl_frame = new_saf_data, fl_slots = ts\<rparr> st = Inr (rest, tot, fl, st1)"
    "send_fifos (length ts) (tl_fifos st1) tot fl (st1\<lparr>tl_retrans := rest\<rparr>) = Inr (fs, fl1, st2)"
    "st' = st2\<lparr>tl_fifos := fs\<rparr>"
    using assms by (auto simp: tal_send_def res_bind_Inr)
  show ?thesis
    using send_retrans_grows [OF r(1)] send_fifos_grows [OF r(2)] r(3)
    by (auto simp: grows_def wait_keys_def)
qed

lemma tal_schedule_probes:
  assumes "tal_schedule fuel complete sf st = Inr (fr, st')"
  shows "wait_keys st \<subseteq> set (tl_probes st)"
proof -
  let ?st1 = "tal_dec_timeouts (st\<lparr>tl_backoff := bk_tick (tl_backoff st)\<rparr>)"
  have g1: "grows st ?st1"
    by (force simp: grows_def wait_keys_def tal_dec_timeouts_def)
  obtain tick where t: "isSalohaFrameTick (tl_sf_per_saframe st) sf = Inr tick"
    using assms by (auto simp: tal_schedule_def res_bind_Inr)
  consider "\<not> tick" | "tick" "\<not> isReady (tl_backoff ?st1)" | "tick" "isReady (tl_backoff ?st1)" by blast
  then show ?thesis
  proof cases
    case 1
    then show ?thesis using assms t tal_probes_put_Inr [of "(complete, st)"] by (auto simp: tal_schedule_def)
  next
    case 2
    then have "wait_keys ?st1 \<subseteq> set (tl_probes ?st1)"
      using assms t tal_probes_put_Inr [of "(complete, ?st1)"] by (auto simp: tal_schedule_def Let_def)
    then show ?thesis using g1 by (auto simp: grows_def)
  next
    case 3
    then obtain st2 ts st3 r where r: "tal_collect ?st1 = Inr st2" "tal_getTimeSlots fuel st2 = Inr (ts, st3)"
      "tal_send ts complete st3 = Inr r" "tal_probes_put r = Inr (fr, st')"
      using assms t by (auto simp: tal_schedule_def Let_def res_bind_Inr)
    have "\<exists>rs. st3 = st2\<lparr>tl_rand := rs\<rparr>"
      using r(2) by (force simp: tal_getTimeSlots_def Let_def res_bind_Inr case_prod_beta split: if_splits)
    then have g3: "grows st2 st3" by (auto simp: grows_def wait_keys_def)
    have "grows st (snd r)"
      using g1 tal_collect_grows [OF r(1)] g3 tal_send_grows [of ts complete st3 "fst r" "snd r"] r(3)
      by (metis grows_trans prod.collapse)
    then show ?thesis using tal_probes_put_Inr [OF r(4)] by (auto simp: grows_def)
  qed
qed

text \<open>
  C23: The acknowledgement of a packet is looked up under the QoS of its identifier. When no probe is
  registered for that QoS (the packet went out through the default FIFO) the packet is not found:
  every list of waiting packets stays as it was, and the empty entry the lookup leaves behind makes
  every later schedule fault, a null probe being dereferenced at the latest.
\<close>

theorem ack_unregistered_qos_crashes:
  assumes "unat (sa_getId p) < 65536" "sa_getQos p \<notin> set (tl_probes st)"
    and "sa_getQos p \<notin> set (om_keys (tl_wait_ack st))"
  shows "\<exists>st'. tal_ack old (sa_getUniqueId p) st = Inr st'
    \<and> (\<forall>q. q \<noteq> sa_getQos p \<longrightarrow> om_find (tl_wait_ack st') q = om_find (tl_wait_ack st) q)
    \<and> (\<forall>fuel complete sf r. tal_schedule fuel complete sf st' \<noteq> Inr r)"
proof -
  let ?w = "om_put (sa_getQos p) [] (tl_wait_ack st)"
  have qos: "ucast (convertPacketId (sa_getUniqueId p) old ! 3) = sa_getQos p"
    unfolding convert_small [OF assms(1)] by (simp add: ucast_u8_u16)
  have "om_find (tl_wait_ack st) (sa_getQos p) = None"
    using assms(3) by (simp add: map_of_eq_None_iff)
  then have "tal_ack old (sa_getUniqueId p) st = Inr (st\<lparr>tl_wait_ack := ?w\<rparr>)"
    by (simp add: tal_ack_def Let_def qos om_at_def)
  moreover have "tal_schedule fuel complete sf (st\<lparr>tl_wait_ack := ?w\<rparr>) \<noteq> Inr r" for fuel complete sf r
    using tal_schedule_probes [of fuel complete sf "st\<lparr>tl_wait_ack := ?w\<rparr>" "fst r" "snd r"] assms(2)
    by (auto simp: wait_keys_def fst_set_om_put)
  ultimately show ?thesis by (intro exI conjI) auto
qed

theorem ack_unregistered_qos_crashes_witness:
  "\<exists>st'. tal_ack [0, 0, 0, 0] (sa_getUniqueId demo_pkt) (demo_tal\<lparr>tl_probes := [1]\<rparr>) = Inr st'
    \<and> (\<forall>fuel complete sf r. tal_schedule fuel complete sf st' \<noteq> Inr r)"
proof -
  have f: "sa_getQos demo_pkt = 2" "sa_getId demo_pkt = 5"
    using sa_built_getters(1,5) [OF demo_pkt_facts(1)] by simp_all
  show ?thesis
    using ack_unregistered_qos_crashes [of demo_pkt "demo_tal\<lparr>tl_probes := [1]\<rparr>" "[0, 0, 0, 0]"]
    by (simp add: f demo_tal_def) blast
qed

end
