(* ===== verification/SalohaAlgoSpec.thy ===== *)
theory SalohaAlgoSpec
  imports SalohaAlgo
begin

text \<open>
  What the collision removal of \<open>SalohaAlgo\<close> promises: the contract of the virtual function as
  the locale \<open>saloha_algo\<close>, its interpretation on DSA and on CRDSA, and the refinement of CRDSA
  to the order-free specification \<open>decodable\<close>.
\<close>

section \<open>The contract\<close>

definition all_pkts :: "slots \<Rightarrow> sa_packet list" where
  "all_pkts sl = concat (map snd sl)"

lemma all_pkts_simps [simp]:
  "all_pkts [] = []" "all_pkts ((n, ps) # sl) = ps @ all_pkts sl"
  "all_pkts (sl1 @ sl2) = all_pkts sl1 @ all_pkts sl2"
  by (simp_all add: all_pkts_def)

locale saloha_algo =
  fixes remove :: "slots \<Rightarrow> sa_packet list \<Rightarrow> slots \<times> sa_packet list \<times> addr list \<times> u16"
  assumes cleared: "remove sl acc = (sl', acc', fr, nbr) \<Longrightarrow> sl' = clear_slots sl"
    and accepted: "remove sl acc = (sl', acc', fr, nbr) \<Longrightarrow>
      \<exists>new. acc' = acc @ new \<and> distinct (map sa_key new) \<and> set new \<subseteq> set (all_pkts sl)
        \<and> (\<forall>n p. (n, [p]) \<in> set sl \<longrightarrow> sa_key p \<in> sa_key ` set new)
        \<and> (distinct (map sp_addr (acc @ all_pkts sl)) \<longrightarrow>
             mset fr + mset (map sp_addr new) = mset (map sp_addr (all_pkts sl)))"
begin

lemma remove_memory_safe:
  assumes "remove sl acc = (sl', acc', fr, nbr)" "distinct (map sp_addr (acc @ all_pkts sl))"
  shows "distinct fr \<and> set fr \<inter> sp_addr ` set acc' = {}
     \<and> set fr \<union> sp_addr ` set acc' = sp_addr ` (set acc \<union> set (all_pkts sl))"
proof -
  obtain new where new: "acc' = acc @ new" "set new \<subseteq> set (all_pkts sl)"
    and ms: "mset fr + mset (map sp_addr new) = mset (map sp_addr (all_pkts sl))"
    using accepted [OF assms(1)] assms(2) by blast
  have "mset (fr @ map sp_addr new) = mset (map sp_addr (all_pkts sl))" using ms by simp
  note mset_eq_imp_distinct_iff [OF this] mset_eq_setD [OF this]
  moreover have "distinct (map sp_addr (all_pkts sl))" using assms(2) by simp
  ultimately have "distinct (fr @ map sp_addr new)"
    "set (fr @ map sp_addr new) = set (map sp_addr (all_pkts sl))" by (simp_all only:)
  moreover from this(2) have "set fr \<inter> sp_addr ` set acc = {}"
    using assms(2) unfolding map_append distinct_append set_map set_append by blast
  ultimately show ?thesis using new(1) by auto
qed

lemma remove_no_duplicate:
  "remove sl acc = (sl', acc', fr, nbr) \<Longrightarrow> length acc' - length acc \<le> card (sa_key ` set (all_pkts sl))"
proof -
  assume "remove sl acc = (sl', acc', fr, nbr)"
  then obtain new where new: "acc' = acc @ new" "distinct (map sa_key new)"
    "set new \<subseteq> set (all_pkts sl)" using accepted by blast
  have "length new = card (sa_key ` set new)"
    using distinct_card [OF new(2)] by simp
  also have "\<dots> \<le> card (sa_key ` set (all_pkts sl))"
    using new(3) by (intro card_mono) auto
  finally show ?thesis using new(1) by simp
qed

end

section \<open>Accepted packets\<close>

definition known_keys :: "dec_state \<Rightarrow> sa_key set" where
  "known_keys s = {k. snd k \<in> set (ds_ids s (fst k))}"

lemma id_known_keys: "id_known s p \<longleftrightarrow> sa_key p \<in> known_keys s"
  by (simp add: id_known_def known_keys_def sa_key_def)

lemma known_keys_free [simp]: "known_keys (ds_free ps s) = known_keys s"
  by (simp add: known_keys_def ds_free_def)

lemma known_keys_accept [simp]: "known_keys (ds_accept p s) = insert (sa_key p) (known_keys s)"
  by (auto simp: known_keys_def ds_accept_def sa_key_def)

lemma known_keys_init [simp]: "known_keys (ds_init acc) = {}"
  by (simp add: known_keys_def ds_init_def)

text \<open>\<open>new\<close> are the packets accepted since the start, one for each known identifier.\<close>

definition acc_inv :: "sa_packet list \<Rightarrow> sa_packet set \<Rightarrow> dec_state \<Rightarrow> sa_packet list \<Rightarrow> bool" where
  "acc_inv acc A s new \<longleftrightarrow> ds_acc s = acc @ new \<and> distinct (map sa_key new)
     \<and> sa_key ` set new = known_keys s \<and> set new \<subseteq> A"

lemma acc_inv_init [simp]: "acc_inv acc A (ds_init acc) []"
  by (simp add: acc_inv_def ds_init_def known_keys_def)

lemma acc_inv_free [simp]: "acc_inv acc A (ds_free ps s) new \<longleftrightarrow> acc_inv acc A s new"
  by (simp add: acc_inv_def) (simp add: ds_free_def)

lemma acc_inv_accept:
  "acc_inv acc A s new \<Longrightarrow> \<not> id_known s p \<Longrightarrow> p \<in> A \<Longrightarrow> acc_inv acc A (ds_accept p s) (new @ [p])"
  by (auto simp: acc_inv_def id_known_keys) (simp_all add: ds_accept_def)

lemma ds_simps [simp]:
  "ds_freed (ds_accept p s) = ds_freed s" "ds_acc (ds_free ps s) = ds_acc s"
  "ds_freed (ds_free ps s) = ds_freed s @ map sp_addr ps" "ds_freed (ds_init acc) = []"
  "ds_acc (ds_init acc) = acc"
  by (simp_all add: ds_accept_def ds_free_def ds_init_def)

section \<open>DSA keeps the contract\<close>

lemma dsa_loop_inv:
  assumes "dsa_loop sl s nbr = (s', nbr')" "acc_inv acc A s new" "set (all_pkts sl) \<subseteq> A"
  shows "\<exists>new'. acc_inv acc A s' new' \<and> set new \<subseteq> set new'
     \<and> known_keys s' = known_keys s \<union> {sa_key p | n p. (n, [p]) \<in> set sl}
     \<and> mset (ds_freed s') + mset (map sp_addr new')
         = mset (ds_freed s) + mset (map sp_addr new) + mset (map sp_addr (all_pkts sl))"
  using assms
proof (induction sl s nbr arbitrary: new rule: dsa_loop.induct)
  case (3 n p sl s nbr)
  show ?case
  proof (cases "id_known s p")
    case True
    then obtain new' where "acc_inv acc A s' new'" "set new \<subseteq> set new'"
      "known_keys s' = known_keys s \<union> {sa_key p | n p. (n, [p]) \<in> set sl}"
      "mset (ds_freed s') + mset (map sp_addr new') = mset (ds_freed s @ [sp_addr p])
         + mset (map sp_addr new) + mset (map sp_addr (all_pkts sl))"
      using "3.IH"(2) [of new] "3.prems" by auto
    then show ?thesis using True by (intro exI [of _ new']) (auto simp: id_known_keys)
  next
    case False
    then obtain new' where "acc_inv acc A s' new'" "set (new @ [p]) \<subseteq> set new'"
      "known_keys s' = insert (sa_key p) (known_keys s) \<union> {sa_key p | n p. (n, [p]) \<in> set sl}"
      "mset (ds_freed s') + mset (map sp_addr new') = mset (ds_freed s)
         + mset (map sp_addr (new @ [p])) + mset (map sp_addr (all_pkts sl))"
      using "3.IH"(1) [of "new @ [p]"] "3.prems" by (auto simp: acc_inv_accept)
    then show ?thesis by (intro exI [of _ new']) auto
  qed
next
  case (4 n p q ps sl s nbr)
  have "set (all_pkts sl) \<subseteq> A" using "4.prems"(3) by auto
  with "4.IH" [of new] "4.prems"(1,2) obtain new' where "acc_inv acc A s' new'" "set new \<subseteq> set new'"
    "known_keys s' = known_keys s \<union> {sa_key p | n p. (n, [p]) \<in> set sl}"
    "mset (ds_freed s') + mset (map sp_addr new') = mset (ds_freed s @ map sp_addr (p # q # ps))
       + mset (map sp_addr new) + mset (map sp_addr (all_pkts sl))"
    by (simp only: dsa_loop.simps acc_inv_free known_keys_free ds_simps) blast
  then show ?case by (intro exI [of _ new']) auto
next
  case (2 n sl s nbr)
  then show ?case by auto
qed auto

lemma dsa_contract:
  assumes "dsa_removeCollisions sl acc = (sl', acc', fr, nbr)"
  shows "\<exists>new. acc' = acc @ new \<and> distinct (map sa_key new) \<and> set new \<subseteq> set (all_pkts sl)
     \<and> sa_key ` set new = {sa_key p | n p. (n, [p]) \<in> set sl}
     \<and> mset fr + mset (map sp_addr new) = mset (map sp_addr (all_pkts sl))"
proof -
  obtain s where s: "dsa_loop sl (ds_init acc) 0 = (s, nbr)" "acc' = ds_acc s" "fr = ds_freed s"
    using assms by (auto simp: dsa_removeCollisions_def Let_def split: prod.splits)
  from dsa_loop_inv [OF s(1) acc_inv_init subset_refl] obtain new where
    "acc_inv acc (set (all_pkts sl)) s new"
    "known_keys s = {sa_key p | n p. (n, [p]) \<in> set sl}"
    "mset (ds_freed s) + mset (map sp_addr new) = mset (map sp_addr (all_pkts sl))" by auto
  then show ?thesis using s by (intro exI [of _ new]) (auto simp: acc_inv_def)
qed

interpretation dsa: saloha_algo dsa_removeCollisions
proof
  fix sl acc sl' acc' fr nbr
  assume r: "dsa_removeCollisions sl acc = (sl', acc', fr, nbr)"
  show "sl' = clear_slots sl"
    using r by (auto simp: dsa_removeCollisions_def Let_def split: prod.splits)
  show "\<exists>new. acc' = acc @ new \<and> distinct (map sa_key new) \<and> set new \<subseteq> set (all_pkts sl)
      \<and> (\<forall>n p. (n, [p]) \<in> set sl \<longrightarrow> sa_key p \<in> sa_key ` set new)
      \<and> (distinct (map sp_addr (acc @ all_pkts sl)) \<longrightarrow>
           mset fr + mset (map sp_addr new) = mset (map sp_addr (all_pkts sl)))"
  proof -
    obtain new where "acc' = acc @ new" "distinct (map sa_key new)" "set new \<subseteq> set (all_pkts sl)"
      "sa_key ` set new = {sa_key p | n p. (n, [p]) \<in> set sl}"
      "mset fr + mset (map sp_addr new) = mset (map sp_addr (all_pkts sl))"
      using dsa_contract [OF r] by auto
    then show ?thesis by (intro exI [of _ new]) auto
  qed
qed

section \<open>CRDSA refines the decodable packets\<close>

inductive decodable :: "slots \<Rightarrow> sa_key \<Rightarrow> bool" for sl where
  peel: "(n, xs @ p # ys) \<in> set sl \<Longrightarrow> (\<And>q. q \<in> set xs \<union> set ys \<Longrightarrow> decodable sl (sa_key q)) \<Longrightarrow>
    decodable sl (sa_key p)"

inductive_simps decodable_iff: "decodable sl k"

text \<open>Each slot still holds its packets, less some of the known ones.\<close>

definition slots_rel :: "sa_key set \<Rightarrow> slots \<Rightarrow> slots \<Rightarrow> bool" where
  "slots_rel K orig sl \<longleftrightarrow> list_all2 (\<lambda>(n, ps) (m, qs). n = m
     \<and> (\<exists>D \<subseteq> K. qs = filter (\<lambda>p. sa_key p \<notin> D) ps)) orig sl"

lemma slots_rel_refl: "slots_rel K sl sl"
  unfolding slots_rel_def
  by (rule list_all2_refl) (auto intro!: exI [of _ "{}"])

lemma slots_rel_mono: "slots_rel K orig sl \<Longrightarrow> K \<subseteq> L \<Longrightarrow> slots_rel L orig sl"
  unfolding slots_rel_def by (erule list_all2_mono) (clarsimp, blast)

lemma slots_rel_sub:
  assumes "slots_rel K orig sl"
  shows "set (all_pkts sl) \<subseteq> set (all_pkts orig)
    \<and> (distinct (map f (all_pkts orig)) \<longrightarrow> distinct (map f (all_pkts sl)))"
  using assms unfolding slots_rel_def
proof (induction rule: list_all2_induct)
  case (Cons a orig b sl)
  obtain n ps m qs where ab: "a = (n, ps)" "b = (m, qs)" by (cases a, cases b)
  then obtain D where "qs = filter (\<lambda>p. sa_key p \<notin> D) ps" using Cons.hyps by auto
  then show ?case using Cons.IH ab by (auto simp: distinct_map_filter)
qed simp

lemma slots_rel_split:
  assumes "slots_rel K orig (pre @ (n, slot) # post)"
  obtains opre ps opost D where "orig = opre @ (n, ps) # opost" "D \<subseteq> K"
    "slot = filter (\<lambda>p. sa_key p \<notin> D) ps" "slots_rel K opre pre" "slots_rel K opost post"
  using assms unfolding slots_rel_def
  by (auto simp: list_all2_append2 list_all2_Cons2)

lemma slots_rel_update:
  assumes "slots_rel K opre pre" "slots_rel K opost post" "D \<subseteq> K"
  shows "slots_rel K (opre @ (n, ps) # opost) (pre @ (n, filter (\<lambda>p. sa_key p \<notin> D) ps) # post)"
  using assms unfolding slots_rel_def
  by (intro list_all2_appendI list_all2_Cons [THEN iffD2]) auto

text \<open>
  When all the objects are distinct, every packet is deleted, accepted, or still pending on a
  slot without being accepted.
\<close>

definition crdsa_mem ::
    "sa_packet list \<Rightarrow> slots \<Rightarrow> slots \<Rightarrow> dec_state \<Rightarrow> sa_packet list \<Rightarrow> bool" where
  "crdsa_mem acc orig sl s new \<longleftrightarrow> (distinct (map sp_addr (acc @ all_pkts orig)) \<longrightarrow>
     mset (ds_freed s) + mset (map sp_addr new)
       + mset (map sp_addr (filter (\<lambda>p. p \<notin> set new) (all_pkts sl)))
     = mset (map sp_addr (all_pkts orig)))"

lemma addr_in_acc:
  assumes "acc_inv acc (set (all_pkts orig)) s new" "distinct (map sp_addr (acc @ all_pkts orig))"
    and "p \<in> set (all_pkts orig)"
  shows "sp_addr p \<in> sp_addr ` set (ds_acc s) \<longleftrightarrow> p \<in> set new"
proof -
  have inj: "inj_on sp_addr (set (all_pkts orig))" using assms(2) by (simp add: distinct_map)
  have "sp_addr p \<notin> sp_addr ` set acc"
    using assms(2,3) unfolding map_append distinct_append set_map by blast
  moreover have "sp_addr p \<in> sp_addr ` set new \<longleftrightarrow> p \<in> set new"
    using inj assms(1,3) by (intro inj_on_image_mem_iff) (auto simp: acc_inv_def)
  ultimately show ?thesis using assms(1) by (auto simp: acc_inv_def)
qed

lemma mset_filter_split:
  "mset (filter P xs) = mset (filter (\<lambda>x. Q x \<and> P x) xs) + mset (filter P (filter (\<lambda>x. \<not> Q x) xs))"
  unfolding filter_filter by (induction xs) auto

lemma mem_suppress:
  assumes mem: "crdsa_mem acc orig (pre @ (n, slot) # post) s new"
    and A: "acc_inv acc (set (all_pkts orig)) s new"
    and rel: "slots_rel K orig (pre @ (n, slot) # post)"
  shows "crdsa_mem acc orig (pre @ (n, filter (\<lambda>p. \<not> id_known s p) slot) # post)
    (ds_free (filter (\<lambda>p. id_known s p \<and> sp_addr p \<notin> sp_addr ` set (ds_acc s)) slot) s) new"
  unfolding crdsa_mem_def
proof
  assume d: "distinct (map sp_addr (acc @ all_pkts orig))"
  have "set slot \<subseteq> set (all_pkts orig)" using slots_rel_sub [OF rel, of sp_addr] by auto
  then have F: "filter (\<lambda>p. id_known s p \<and> sp_addr p \<notin> sp_addr ` set (ds_acc s)) slot
      = filter (\<lambda>p. id_known s p \<and> p \<notin> set new) slot"
    using addr_in_acc [OF A d] by (intro filter_cong) auto
  show "mset (ds_freed (ds_free (filter (\<lambda>p. id_known s p \<and> sp_addr p \<notin> sp_addr ` set (ds_acc s)) slot) s))
      + mset (map sp_addr new) + mset (map sp_addr (filter (\<lambda>p. p \<notin> set new)
          (all_pkts (pre @ (n, filter (\<lambda>p. \<not> id_known s p) slot) # post))))
      = mset (map sp_addr (all_pkts orig))"
    unfolding F
    using mem d mset_filter_split [of "\<lambda>p. p \<notin> set new" slot "id_known s"]
    by (simp add: crdsa_mem_def union_assoc union_commute union_lcomm)
qed

lemma mem_accept:
  assumes mem: "crdsa_mem acc orig (pre @ (n, [p]) # post) s new"
    and A: "acc_inv acc (set (all_pkts orig)) s new"
    and rel: "slots_rel K orig (pre @ (n, [p]) # post)" and k: "\<not> id_known s p"
  shows "crdsa_mem acc orig (pre @ (n, [p]) # post) (ds_accept p s) (new @ [p])"
  unfolding crdsa_mem_def
proof
  assume d: "distinct (map sp_addr (acc @ all_pkts orig))"
  have "distinct (map sp_addr (all_pkts (pre @ (n, [p]) # post)))"
    using slots_rel_sub [OF rel, of sp_addr] d by simp
  then have notin: "p \<notin> set (all_pkts pre)" "p \<notin> set (all_pkts post)" by auto
  have pn: "p \<notin> set new" using A k by (auto simp: acc_inv_def id_known_keys)
  have "filter (\<lambda>q. q \<notin> set (new @ [p])) (all_pkts pre) = filter (\<lambda>q. q \<notin> set new) (all_pkts pre)"
    "filter (\<lambda>q. q \<notin> set (new @ [p])) (all_pkts post) = filter (\<lambda>q. q \<notin> set new) (all_pkts post)"
    using notin by (auto intro!: filter_cong)
  then show "mset (ds_freed (ds_accept p s)) + mset (map sp_addr (new @ [p]))
      + mset (map sp_addr (filter (\<lambda>q. q \<notin> set (new @ [p])) (all_pkts (pre @ (n, [p]) # post))))
      = mset (map sp_addr (all_pkts orig))"
    using mem d pn by (simp add: crdsa_mem_def)
qed

definition crdsa_inv ::
    "sa_packet list \<Rightarrow> slots \<Rightarrow> slots \<Rightarrow> dec_state \<Rightarrow> sa_packet list \<Rightarrow> bool" where
  "crdsa_inv acc orig sl s new \<longleftrightarrow> acc_inv acc (set (all_pkts orig)) s new
     \<and> slots_rel (known_keys s) orig sl \<and> (\<forall>k \<in> known_keys s. decodable orig k)
     \<and> crdsa_mem acc orig sl s new"

definition stable :: "slots \<Rightarrow> dec_state \<Rightarrow> bool" where
  "stable sl s \<longleftrightarrow> (\<forall>(n, ps) \<in> set sl. length ps \<noteq> 1 \<and> (\<forall>p \<in> set ps. \<not> id_known s p))"

lemma filter_filter_keys:
  assumes "D \<subseteq> K" "slot = filter (\<lambda>p. sa_key p \<notin> D) ps"
  shows "filter (\<lambda>p. sa_key p \<notin> K) slot = filter (\<lambda>p. sa_key p \<notin> K) ps"
  using assms by (auto intro: filter_cong)

lemma visit_slot_inv:
  assumes inv: "crdsa_inv acc orig (pre @ (n, slot) # post) s new"
    and v: "visit_slot slot s = (slot', s', a)"
  shows "\<exists>new'. crdsa_inv acc orig (pre @ (n, slot') # post) s' new'
     \<and> (\<not> a \<longrightarrow> known_keys s' = known_keys s \<and> length slot' \<noteq> 1
          \<and> (\<forall>p \<in> set slot'. \<not> id_known s p))"
proof -
  let ?K = "known_keys s"
  obtain opre ps opost D where o: "orig = opre @ (n, ps) # opost" "D \<subseteq> ?K"
    "slot = filter (\<lambda>p. sa_key p \<notin> D) ps" "slots_rel ?K opre pre" "slots_rel ?K opost post"
    using inv slots_rel_split unfolding crdsa_inv_def by blast
  have A: "acc_inv acc (set (all_pkts orig)) s new"
    and rel: "slots_rel ?K orig (pre @ (n, slot) # post)"
    and mem: "crdsa_mem acc orig (pre @ (n, slot) # post) s new"
    using inv by (simp_all add: crdsa_inv_def)
  note mem1 = mem_suppress [OF mem A rel]
  have kept: "filter (\<lambda>p. \<not> id_known s p) slot = filter (\<lambda>p. sa_key p \<notin> ?K) ps"
    unfolding id_known_keys by (rule filter_filter_keys [OF o(2,3)])
  show ?thesis
  proof (rule visit_slot_cases [of s slot])
    fix s1 assume s1: "s1 = ds_free (filter (\<lambda>p. id_known s p \<and> sp_addr p \<notin> sp_addr ` set (ds_acc s)) slot) s"
      and r: "length (filter (\<lambda>p. \<not> id_known s p) slot) \<noteq> 1
        \<and> visit_slot slot s = (filter (\<lambda>p. \<not> id_known s p) slot, s1, False)"
    have slot': "slot' = filter (\<lambda>p. sa_key p \<notin> ?K) ps" and s': "s' = s1" "\<not> a"
      and len: "length slot' \<noteq> 1" using v r kept by auto
    have "slots_rel ?K orig (pre @ (n, slot') # post)"
      unfolding o(1) slot' by (rule slots_rel_update [OF o(4,5) subset_refl])
    moreover have "crdsa_mem acc orig (pre @ (n, slot') # post) s' new"
      using mem1 unfolding kept slot' s' s1 .
    ultimately show ?thesis using inv s1 s' len slot'
      by (auto simp: crdsa_inv_def id_known_keys intro!: exI [of _ new])
  next
    fix s1 p assume s1: "s1 = ds_free (filter (\<lambda>p. id_known s p \<and> sp_addr p \<notin> sp_addr ` set (ds_acc s)) slot) s"
      and f: "filter (\<lambda>p. \<not> id_known s p) slot = [p]"
      and r: "visit_slot slot s = ([p], ds_accept p s1, True)"
    have slot': "slot' = [p]" "s' = ds_accept p s1" "a" using v r by auto
    have fp: "filter (\<lambda>p. sa_key p \<notin> ?K) ps = [p]" using f kept by simp
    then obtain xs ys where "ps = xs @ p # ys" "\<forall>q \<in> set xs. sa_key q \<in> ?K"
      "filter (\<lambda>p. sa_key p \<notin> ?K) ys = []" and pK: "sa_key p \<notin> ?K"
      by (auto simp: filter_eq_Cons_iff)
    then have split: "ps = xs @ p # ys" "\<forall>q \<in> set xs \<union> set ys. sa_key q \<in> ?K"
      by (auto simp: filter_empty_conv)
    have "decodable orig (sa_key p)"
    proof (rule decodable.peel)
      show "(n, xs @ p # ys) \<in> set orig" using o(1) split(1) by simp
    qed (use inv split(2) in \<open>auto simp: crdsa_inv_def\<close>)
    moreover have "acc_inv acc (set (all_pkts orig)) s' (new @ [p])"
      unfolding slot'(2) s1
      by (rule acc_inv_accept) (use inv pK o(1) split(1) in \<open>auto simp: crdsa_inv_def id_known_keys\<close>)
    moreover have "slots_rel ?K orig (pre @ (n, [p]) # post)"
      unfolding o(1) using slots_rel_update [OF o(4,5) subset_refl, of n ps] fp by simp
    then have "slots_rel (known_keys s') orig (pre @ (n, slot') # post)"
      unfolding slot' by (rule slots_rel_mono) (auto simp: s1)
    moreover have "crdsa_mem acc orig (pre @ (n, slot') # post) s' (new @ [p])"
      unfolding slot'(1,2)
    proof (rule mem_accept)
      show "crdsa_mem acc orig (pre @ (n, [p]) # post) s1 new" using mem1 unfolding f s1 .
      show "slots_rel ?K orig (pre @ (n, [p]) # post)" by fact
    qed (use A pK s1 in \<open>simp_all add: id_known_keys\<close>)
    ultimately show ?thesis using inv slot' s1
      by (auto simp: crdsa_inv_def intro!: exI [of _ "new @ [p]"])
  qed
qed

lemma crdsa_pass_inv:
  assumes "crdsa_inv acc orig (pre @ sl) s new" "crdsa_pass sl s = (sl', s', a)"
  shows "\<exists>new'. crdsa_inv acc orig (pre @ sl') s' new'
     \<and> (\<not> a \<longrightarrow> known_keys s' = known_keys s \<and> stable sl' s')"
  using assms
proof (induction sl s arbitrary: pre new sl' s' a rule: crdsa_pass.induct)
  case (1 s)
  then show ?case by (auto simp: stable_def)
next
  case (2 n slot sl s)
  obtain slot1 s1 a1 where v: "visit_slot slot s = (slot1, s1, a1)" by (cases "visit_slot slot s")
  obtain sl2 s2 a2 where c: "crdsa_pass sl s1 = (sl2, s2, a2)" by (cases "crdsa_pass sl s1")
  have r: "sl' = (n, slot1) # sl2" "s' = s2" "a = (a1 \<or> a2)" using "2.prems" v c by auto
  obtain new1 where n1: "crdsa_inv acc orig (pre @ (n, slot1) # sl) s1 new1"
    "\<not> a1 \<longrightarrow> known_keys s1 = known_keys s \<and> length slot1 \<noteq> 1 \<and> (\<forall>p \<in> set slot1. \<not> id_known s p)"
    using visit_slot_inv [OF "2.prems"(1) v] by blast
  obtain new2 where "crdsa_inv acc orig ((pre @ [(n, slot1)]) @ sl2) s2 new2"
    "\<not> a2 \<longrightarrow> known_keys s2 = known_keys s1 \<and> stable sl2 s2"
    using "2.IH" [OF v [symmetric] refl refl, of "pre @ [(n, slot1)]" new1 sl2 s2 a2] n1 c by auto
  then show ?case
    unfolding r using n1(2) by (auto simp: stable_def id_known_keys intro!: exI [of _ new2])
qed

lemma crdsa_loop_inv:
  "crdsa_inv acc orig sl s new \<Longrightarrow> crdsa_loop sl s = (sl', s') \<Longrightarrow>
    \<exists>new'. crdsa_inv acc orig sl' s' new' \<and> stable sl' s'"
proof (induction sl s arbitrary: new rule: crdsa_loop.induct)
  case (1 sl s)
  obtain sl1 s1 a where p: "crdsa_pass sl s = (sl1, s1, a)" by (cases "crdsa_pass sl s")
  obtain new1 where n1: "crdsa_inv acc orig sl1 s1 new1" "\<not> a \<longrightarrow> stable sl1 s1"
    using crdsa_pass_inv [of acc orig "[]" sl s new] "1.prems"(1) p by auto
  show ?case
  proof (cases a)
    case True
    then show ?thesis
      using "1.IH" p n1(1) "1.prems"(2) by (simp add: crdsa_loop.simps [of sl s])
  next
    case False
    then show ?thesis
      using p n1 "1.prems"(2) by (auto simp: crdsa_loop.simps [of sl s])
  qed
qed

lemma crdsa_inv_init: "crdsa_inv acc sl sl (ds_init acc) []"
  by (simp add: crdsa_inv_def slots_rel_refl crdsa_mem_def)

text \<open>In a stable state every decodable packet is known.\<close>

lemma stable_complete:
  assumes inv: "crdsa_inv acc orig sl s new" and st: "stable sl s"
  shows "decodable orig k \<Longrightarrow> k \<in> known_keys s"
proof (induction rule: decodable.induct)
  case (peel n xs p ys)
  let ?K = "known_keys s"
  obtain opre opost where "orig = opre @ (n, xs @ p # ys) # opost"
    using split_list [OF peel.hyps(1)] by blast
  then obtain pre qs post D where sl: "sl = pre @ (n, qs) # post" "D \<subseteq> ?K"
    "qs = filter (\<lambda>p. sa_key p \<notin> D) (xs @ p # ys)"
    using inv by (auto simp: crdsa_inv_def slots_rel_def list_all2_append1 list_all2_Cons1)
  have "qs = filter (\<lambda>p. sa_key p \<notin> ?K) qs" and len: "length qs \<noteq> 1"
    using st sl(1) by (auto simp: stable_def id_known_keys intro!: filter_True [symmetric])
  then have qs: "qs = filter (\<lambda>p. sa_key p \<notin> ?K) (xs @ p # ys)"
    using filter_filter_keys [OF sl(2,3)] by simp
  have others: "filter (\<lambda>p. sa_key p \<notin> ?K) xs = []" "filter (\<lambda>p. sa_key p \<notin> ?K) ys = []"
    using peel.IH by (auto simp: filter_empty_conv)
  show ?case
  proof (rule ccontr)
    assume "sa_key p \<notin> ?K"
    then have "qs = [p]" unfolding qs filter_append filter.simps others by simp
    with len show False by simp
  qed
qed

lemma crdsa_flush_acc:
  "crdsa_flush sl s nbr = (s', nbr') \<Longrightarrow> ds_acc s' = ds_acc s \<and> known_keys s' = known_keys s"
  by (induction sl s nbr rule: crdsa_flush.induct) (auto split: if_splits)

lemma crdsa_flush_freed:
  "crdsa_flush sl s nbr = (s', nbr') \<Longrightarrow> \<forall>(n, ps) \<in> set sl. length ps \<noteq> 1 \<Longrightarrow>
    ds_freed s' = ds_freed s @ map sp_addr (all_pkts sl)
    \<and> nbr' = nbr + of_nat (length (all_pkts sl))"
proof (induction sl s nbr rule: crdsa_flush.induct)
  case (2 n slot sl s nbr)
  then show ?case by (cases slot) (auto simp: add.assoc split: if_splits)
qed auto

lemma slots_rel_clear: "slots_rel K orig sl \<Longrightarrow> clear_slots sl = clear_slots orig"
  unfolding slots_rel_def clear_slots_def
  by (induction rule: list_all2_induct) auto

lemma crdsa_contract:
  assumes "crdsa_removeCollisions sl acc = (sl', acc', fr, nbr)"
  shows "sl' = clear_slots sl \<and> (\<exists>new. acc' = acc @ new \<and> distinct (map sa_key new)
     \<and> set new \<subseteq> set (all_pkts sl) \<and> sa_key ` set new = {k. decodable sl k}
     \<and> (distinct (map sp_addr (acc @ all_pkts sl)) \<longrightarrow>
           mset fr + mset (map sp_addr new) = mset (map sp_addr (all_pkts sl))))"
proof -
  obtain sl1 s1 where l: "crdsa_loop sl (ds_init acc) = (sl1, s1)"
    by (cases "crdsa_loop sl (ds_init acc)")
  obtain s2 nbr2 where f: "crdsa_flush sl1 s1 0 = (s2, nbr2)" by (cases "crdsa_flush sl1 s1 0")
  have res: "sl' = clear_slots sl1" "acc' = ds_acc s1" "fr = ds_freed s2"
    using assms l f crdsa_flush_acc [OF f] by (auto simp: crdsa_removeCollisions_def)
  obtain new where n: "crdsa_inv acc sl sl1 s1 new" "stable sl1 s1"
    using crdsa_loop_inv [OF crdsa_inv_init l] by blast
  have keys: "known_keys s1 = {k. decodable sl k}"
    using n(1) stable_complete [OF n] by (auto simp: crdsa_inv_def)
  have "fr = ds_freed s1 @ map sp_addr (all_pkts sl1)"
    unfolding res using crdsa_flush_freed [OF f] n(2) by (auto simp: stable_def)
  moreover have "filter (\<lambda>p. p \<notin> set new) (all_pkts sl1) = all_pkts sl1"
  proof (rule filter_True, rule ballI)
    fix p assume "p \<in> set (all_pkts sl1)"
    then have "sa_key p \<notin> known_keys s1"
      using n(2) by (fastforce simp: stable_def all_pkts_def id_known_keys)
    then show "p \<notin> set new" using n(1) by (auto simp: crdsa_inv_def acc_inv_def)
  qed
  ultimately have "distinct (map sp_addr (acc @ all_pkts sl)) \<longrightarrow>
      mset fr + mset (map sp_addr new) = mset (map sp_addr (all_pkts sl))"
    using n(1) by (simp add: crdsa_inv_def crdsa_mem_def ac_simps)
  moreover have "sl' = clear_slots sl"
    using n(1) slots_rel_clear res(1) by (auto simp: crdsa_inv_def)
  ultimately show ?thesis
    using n(1) keys res(2) by (auto simp: crdsa_inv_def acc_inv_def intro!: exI [of _ new])
qed

lemma single_decodable: "(n, [p]) \<in> set sl \<Longrightarrow> decodable sl (sa_key p)"
  using decodable.peel [of n "[]" p "[]" sl] by simp

interpretation crdsa: saloha_algo crdsa_removeCollisions
proof
  fix sl acc sl' acc' fr nbr
  assume r: "crdsa_removeCollisions sl acc = (sl', acc', fr, nbr)"
  show "sl' = clear_slots sl" using crdsa_contract [OF r] by simp
  obtain new where n: "acc' = acc @ new" "distinct (map sa_key new)" "set new \<subseteq> set (all_pkts sl)"
    "sa_key ` set new = {k. decodable sl k}"
    "distinct (map sp_addr (acc @ all_pkts sl)) \<longrightarrow>
       mset fr + mset (map sp_addr new) = mset (map sp_addr (all_pkts sl))"
    using crdsa_contract [OF r] by blast
  show "\<exists>new. acc' = acc @ new \<and> distinct (map sa_key new) \<and> set new \<subseteq> set (all_pkts sl)
      \<and> (\<forall>n p. (n, [p]) \<in> set sl \<longrightarrow> sa_key p \<in> sa_key ` set new)
      \<and> (distinct (map sp_addr (acc @ all_pkts sl)) \<longrightarrow>
           mset fr + mset (map sp_addr new) = mset (map sp_addr (all_pkts sl)))"
    using n single_decodable by (intro exI [of _ new]) auto
qed

section \<open>Properties\<close>

text \<open>
  C13: CRDSA accepts exactly the packets that successive interference cancellation can decode:
  the identifiers of the packets it adds are those of the least set closed under "a packet whose
  companions on some slot are all decoded is decoded", each once and each the identifier of
  a packet received, whatever the order of the slots, and every slot is empty afterwards.
\<close>

theorem crdsa_refines_decodable:
  "case crdsa_removeCollisions sl acc of (sl', acc', fr, nbr) \<Rightarrow>
     \<exists>new. acc' = acc @ new \<and> distinct (map sa_key new) \<and> set new \<subseteq> set (all_pkts sl)
       \<and> sa_key ` set new = {k. decodable sl k} \<and> sl' = clear_slots sl"
proof -
  obtain sl' acc' fr nbr where r: "crdsa_removeCollisions sl acc = (sl', acc', fr, nbr)"
    by (cases "crdsa_removeCollisions sl acc")
  then show ?thesis using crdsa_contract [OF r] by auto
qed

lemma dsa_loop_count:
  "dsa_loop sl s nbr = (s', nbr') \<Longrightarrow>
    nbr' = nbr + of_nat (\<Sum>slot \<leftarrow> map snd sl. if 1 < length slot then length slot else 0)"
  by (induction sl s nbr rule: dsa_loop.induct) (auto split: if_splits simp: add.assoc)

text \<open>
  C25: DSA accepts exactly the packets received alone on a slot, one copy of each, and its
  collision count is the 16-bit sum of the sizes of the slots with two packets or more.
\<close>

theorem dsa_accepts_singletons:
  "case dsa_removeCollisions sl acc of (sl', acc', fr, nbr) \<Rightarrow>
     (\<exists>new. acc' = acc @ new \<and> distinct (map sa_key new)
        \<and> sa_key ` set new = {sa_key p | n p. (n, [p]) \<in> set sl})
     \<and> nbr = of_nat (\<Sum>slot \<leftarrow> map snd sl. if 1 < length slot then length slot else 0)
     \<and> sl' = clear_slots sl"
proof -
  obtain sl' acc' fr nbr where r: "dsa_removeCollisions sl acc = (sl', acc', fr, nbr)"
    by (cases "dsa_removeCollisions sl acc")
  then obtain s where "dsa_loop sl (ds_init acc) 0 = (s, nbr)"
    by (auto simp: dsa_removeCollisions_def Let_def split: prod.splits)
  from dsa_loop_count [OF this] show ?thesis
    using dsa_contract [OF r] dsa.cleared [OF r] r by auto
qed

text \<open>CRDSA never does worse than DSA: on the same slots, every identifier DSA accepts is accepted
  by CRDSA.
\<close>

theorem crdsa_extends_dsa:
  "case (dsa_removeCollisions sl acc, crdsa_removeCollisions sl acc) of
     ((_, acc1, _), (_, acc2, _)) \<Rightarrow> sa_key ` set acc1 \<subseteq> sa_key ` set acc2"
proof -
  obtain sl1 acc1 fr1 n1 where d: "dsa_removeCollisions sl acc = (sl1, acc1, fr1, n1)"
    by (cases "dsa_removeCollisions sl acc")
  obtain sl2 acc2 fr2 n2 where c: "crdsa_removeCollisions sl acc = (sl2, acc2, fr2, n2)"
    by (cases "crdsa_removeCollisions sl acc")
  obtain new1 where n1: "acc1 = acc @ new1" "sa_key ` set new1 = {sa_key p | n p. (n, [p]) \<in> set sl}"
    using dsa_contract [OF d] by auto
  obtain new2 where n2: "acc2 = acc @ new2" "sa_key ` set new2 = {k. decodable sl k}"
    using crdsa_contract [OF c] by auto
  have "{sa_key p | n p. (n, [p]) \<in> set sl} \<subseteq> {k. decodable sl k}"
    using single_decodable by auto
  then have "sa_key ` set acc1 \<subseteq> sa_key ` set acc2"
    by (simp only: n1 n2 set_append image_Un) (rule Un_mono [OF subset_refl])
  then show ?thesis by (simp add: d c)
qed

datatype algo_kind = Dsa | Crdsa

text \<open>The virtual call \<open>algo->removeCollisions\<close>.\<close>

fun algo_removeCollisions ::
    "algo_kind \<Rightarrow> slots \<Rightarrow> sa_packet list \<Rightarrow> slots \<times> sa_packet list \<times> addr list \<times> u16" where
  "algo_removeCollisions Dsa = dsa_removeCollisions"
| "algo_removeCollisions Crdsa = crdsa_removeCollisions"

lemma algo_memory_safe:
  "algo_removeCollisions k sl acc = (sl', acc', fr, nbr) \<Longrightarrow>
    distinct (map sp_addr (acc @ all_pkts sl)) \<Longrightarrow>
    distinct fr \<and> set fr \<inter> sp_addr ` set acc' = {}
    \<and> set fr \<union> sp_addr ` set acc' = sp_addr ` (set acc \<union> set (all_pkts sl))"
  using dsa.remove_memory_safe crdsa.remove_memory_safe by (cases k) simp_all

text \<open>
  C24: Collision removal is memory safe with either algorithm: when the packets on the slots are
  distinct objects, no object is deleted twice, no accepted packet is deleted, and every
  object is deleted or accepted, so none leaks.
\<close>

theorem collisions_memory_safe:
  assumes "distinct (map sp_addr (acc @ all_pkts sl))"
  shows "case algo_removeCollisions k sl acc of (sl', acc', fr, nbr) \<Rightarrow>
    distinct fr \<and> set fr \<inter> sp_addr ` set acc' = {}
    \<and> set fr \<union> sp_addr ` set acc' = sp_addr ` (set acc \<union> set (all_pkts sl))"
proof -
  obtain sl' acc' fr nbr where r: "algo_removeCollisions k sl acc = (sl', acc', fr, nbr)"
    by (cases "algo_removeCollisions k sl acc")
  then show ?thesis using algo_memory_safe [OF r assms] by simp
qed

definition demo_packet :: "addr \<Rightarrow> u32 \<Rightarrow> u8 \<Rightarrow> sa_packet" where
  "demo_packet a i tal = (sa_of_data a (0, 0) (sa_hdr 0 i 0 0 1 0 15) 15)\<lparr>np_src_tal_id := tal\<rparr>"

text \<open>Two terminals with two replicas each; one slot holds both, and CRDSA decodes both.\<close>

definition demo_slots :: slots where
  "demo_slots = [(0, [demo_packet 1 7 1]), (1, [demo_packet 2 7 1, demo_packet 3 5 2]),
                 (2, []), (3, [])]"

lemma demo_addr [simp]: "sp_addr (demo_packet a i tal) = a"
  by (simp add: demo_packet_def sa_of_data_def net_packet.defs sa_packet.defs
      new_net_packet_len_def new_net_packet_def)

theorem collisions_memory_safe_witness:
  "case algo_removeCollisions Crdsa demo_slots [] of (sl', acc', fr, nbr) \<Rightarrow>
    distinct fr \<and> set fr \<inter> sp_addr ` set acc' = {} \<and> set fr \<union> sp_addr ` set acc' = {1, 2, 3}"
proof -
  have "distinct (map sp_addr ([] @ all_pkts demo_slots))" by (simp add: demo_slots_def)
  from collisions_memory_safe [OF this, of Crdsa] show ?thesis
    by (auto simp: demo_slots_def split: prod.splits)
qed

end
