(* ===== verification/TerminalContextSaloha.thy ===== *)
theory TerminalContextSaloha
  imports SalohaId StdMap "HOL-Library.Multiset"
begin

text \<open>
  The reassembly of PDUs at the gateway: \<open>dvb/utils/TerminalContextSaloha.cpp\<close> (\<open>addPacket\<close>,
  \<open>handleOldest\<close>, \<open>findOldest\<close>) on top of \<open>dvb/utils/TerminalContext.cpp\<close>. The abstract
  specification is a function from (QoS, PDU identifier) to the packets that wait; the simulation
  lemma shows that \<open>addPacket\<close> implements it as long as the old-age counter does not overflow.
\<close>

section \<open>State and operations\<close>

type_synonym pdus = "(u32, sa_packet list) omap"

record tcs =
  tc_tal_id :: tal_id_t
  tc_category :: string
  tc_wait :: "(qos_t, pdus) omap"        \<comment> \<open>\<open>wait_propagation\<close>\<close>
  tc_oldest :: "(qos_t, u32) omap"       \<comment> \<open>\<open>oldest_id\<close>\<close>
  tc_old_count :: u32
  tc_freed :: "addr list"                \<comment> \<open>the packets deleted so far\<close>

definition new_tcs :: "tal_id_t \<Rightarrow> tcs" where
  "new_tcs t = \<lparr>tc_tal_id = t, tc_category = [], tc_wait = [], tc_oldest = [],
     tc_old_count = 0, tc_freed = []\<rparr>"

definition tc_setCurrentCategory :: "string \<Rightarrow> tcs \<Rightarrow> tcs" where
  "tc_setCurrentCategory c tc = tc\<lparr>tc_category := c\<rparr>"

definition MAX_OLD_COUNTER :: u32 where
  "MAX_OLD_COUNTER = 65535"

fun oldest_scan :: "qos_t \<Rightarrow> u32 \<Rightarrow> pdus \<Rightarrow> u32 \<Rightarrow> tcs \<Rightarrow> tcs" where
  "oldest_scan qos oldest [] min_diff tc = tc"
| "oldest_scan qos oldest ((pid, _) # ps) min_diff tc =
     (let diff = pid - oldest
      in if diff < min_diff
         then oldest_scan qos oldest ps diff
                (tc\<lparr>tc_oldest := om_put qos pid (tc_oldest tc), tc_old_count := 0\<rparr>)
         else oldest_scan qos oldest ps min_diff tc)"

text \<open>
  The initial \<open>min_diff\<close> is \<open>(uint32_t)pow(2.0, 32)\<close>: the value does not fit, the conversion is
  undefined, and what the platform makes of it is the parameter \<open>md\<close>.
\<close>

definition findOldest :: "u32 \<Rightarrow> qos_t \<Rightarrow> tcs \<Rightarrow> tcs" where
  "findOldest md qos tc =
     (let (oldest, om1) = om_at 0 (tc_oldest tc) qos;
          (pdus, w1) = om_at [] (tc_wait tc) qos;
          tc1 = tc\<lparr>tc_oldest := om1, tc_wait := w1\<rparr>
      in if pdus = [] then tc1\<lparr>tc_oldest := om_erase qos om1\<rparr>
         else oldest_scan qos oldest pdus md tc1)"

definition handleOldest :: "u32 \<Rightarrow> qos_t \<Rightarrow> u32 \<Rightarrow> tcs \<Rightarrow> tcs res" where
  "handleOldest md qos current_id tc =
     (let (oldest, om1) = om_at 0 (tc_oldest tc) qos; tc1 = tc\<lparr>tc_oldest := om1\<rparr>
      in if oldest = current_id then Inr (findOldest md qos tc1)
         else if MAX_OLD_COUNTER < tc_old_count tc1
         then (let (pdus, w1) = om_at [] (tc_wait tc1) qos
               in case om_find pdus oldest of
                    None \<Rightarrow> Inl EndDeref
                  | Some packets \<Rightarrow>
                      Inr (findOldest md qos (tc1\<lparr>tc_freed := tc_freed tc1 @ map sp_addr packets,
                        tc_wait := om_put qos (om_erase oldest pdus) w1\<rparr>)))
         else Inr tc1)"

text \<open>
  \<open>addPacket\<close>: whether a PDU is complete, its packets, the new state. \<open>old\<close> is the content of the
  uninitialised array \<open>id\<close>. \<open>std::sort\<close> on the sequence number is \<open>sort_key\<close>: the only result when the numbers are
  different, and one of those the library may give when a duplicate repeats a number.
\<close>

definition tcs_addPacket ::
    "u16 list \<Rightarrow> u32 \<Rightarrow> sa_packet \<Rightarrow> tcs \<Rightarrow> (bool \<times> sa_packet list \<times> tcs) res" where
  "tcs_addPacket old md p tc =
     (let pdu_id = sa_getId p; qos = sa_getQos p;
          pid = convertPacketId (sa_getUniqueId p) old;
          pdus = (case om_find (tc_wait tc) qos of None \<Rightarrow> [] | Some m \<Rightarrow> m);
          sa_packets = (case om_find pdus pdu_id of None \<Rightarrow> [] | Some l \<Rightarrow> l) @ [p];
          pdus1 = om_put pdu_id sa_packets pdus;
          tc1 = tc\<lparr>tc_wait := om_put qos pdus1 (tc_wait tc)\<rparr>
      in if unat (pid ! 2) = length sa_packets
         then res_bind (handleOldest md qos pdu_id
                (tc1\<lparr>tc_wait := om_put qos (om_erase pdu_id pdus1) (tc_wait tc1),
                     tc_old_count := tc_old_count tc1 + 1\<rparr>))
                (\<lambda>tc2. Inr (True, sort_key sa_getSeq sa_packets, tc2))
         else if om_find (tc_oldest tc1) qos = None
         then Inr (False, [], tc1\<lparr>tc_oldest := om_put qos pdu_id (tc_oldest tc1), tc_old_count := 0\<rparr>)
         else Inr (False, [], tc1))"

section \<open>The abstract specification\<close>

type_synonym pdu_key = "qos_t \<times> u32"

definition pdu_key :: "sa_packet \<Rightarrow> pdu_key" where
  "pdu_key p = (sa_getQos p, sa_getId p)"

definition waiting :: "tcs \<Rightarrow> pdu_key \<Rightarrow> sa_packet list" where
  "waiting tc k = (case om_find (tc_wait tc) (fst k) of None \<Rightarrow> []
     | Some m \<Rightarrow> (case om_find m (snd k) of None \<Rightarrow> [] | Some l \<Rightarrow> l))"

definition reasm_step ::
    "sa_packet \<Rightarrow> (pdu_key \<Rightarrow> sa_packet list) \<Rightarrow> sa_packet list option \<times> (pdu_key \<Rightarrow> sa_packet list)" where
  "reasm_step p m =
     (let l = m (pdu_key p) @ [p]
      in if unat (sa_getPduNb p) = length l
         then (Some (sort_key sa_getSeq l), m(pdu_key p := []))
         else (None, m(pdu_key p := l)))"

definition tcs_wf :: "tcs \<Rightarrow> bool" where
  "tcs_wf tc \<longleftrightarrow> om_wf (tc_wait tc) \<and> om_wf (tc_oldest tc) \<and> (\<forall>(q, m) \<in> set (tc_wait tc). om_wf m)"

lemma waiting_simps [simp]:
  "waiting (tc\<lparr>tc_oldest := a\<rparr>) = waiting tc"
  "waiting (tc\<lparr>tc_old_count := b\<rparr>) = waiting tc"
  "waiting (tc\<lparr>tc_freed := c\<rparr>) = waiting tc"
  by (simp_all add: waiting_def fun_eq_iff)

lemma oldest_scan_wait [simp]:
  "tc_wait (oldest_scan q o' ps md tc) = tc_wait tc"
  "om_wf (tc_oldest tc) \<Longrightarrow> om_wf (tc_oldest (oldest_scan q o' ps md tc))"
  by (induction q o' ps md tc rule: oldest_scan.induct) (simp_all add: Let_def)

lemma oldest_scan_count:
  "tc_old_count (oldest_scan q o' ps md tc) \<le> tc_old_count tc"
  by (induction q o' ps md tc rule: oldest_scan.induct) (auto simp: Let_def)

lemma set_om_put_sub: "set (om_put k v m) \<subseteq> insert (k, v) (set m)"
  by (induction k v m rule: om_put.induct) auto

lemma om_at_Nil_find:
  "om_find (snd (om_at [] w q)) q' = (case om_find w q' of None \<Rightarrow> if q' = q then Some [] else None | Some m \<Rightarrow> Some m)"
  by (auto simp: om_at_def split: option.splits)

lemma waiting_om_at:
  "waiting (tc\<lparr>tc_wait := snd (om_at [] (tc_wait tc) q)\<rparr>) = waiting tc"
  by (auto simp: waiting_def fun_eq_iff om_at_Nil_find split: option.splits)

lemma waiting_cong: "tc_wait a = tc_wait b \<Longrightarrow> waiting a = waiting b"
  by (simp add: waiting_def fun_eq_iff)

lemma tcs_wf_at:
  "tcs_wf tc \<Longrightarrow> tcs_wf (tc\<lparr>tc_wait := snd (om_at [] (tc_wait tc) q)\<rparr>)"
  using set_om_put_sub [of q "[]" "tc_wait tc"]
  by (fastforce simp: tcs_wf_def om_at_def split: option.splits)

lemma findOldest_keeps:
  assumes "tcs_wf tc"
  shows "waiting (findOldest md q tc) = waiting tc" and "tcs_wf (findOldest md q tc)"
    and "tc_old_count (findOldest md q tc) \<le> tc_old_count tc"
proof -
  obtain oldest om1 where o: "om_at 0 (tc_oldest tc) q = (oldest, om1)" by force
  obtain pdus w1 where w: "om_at [] (tc_wait tc) q = (pdus, w1)" by force
  have om1: "om_wf om1" using assms o om_at_wf [of "tc_oldest tc" 0 q] by (simp add: tcs_wf_def)
  let ?t = "findOldest md q tc"
  have wt: "tc_wait ?t = w1" using o w by (simp add: findOldest_def Let_def)
  show "waiting ?t = waiting tc"
    using waiting_cong [of ?t "tc\<lparr>tc_wait := w1\<rparr>"] wt waiting_om_at [of tc q] w by simp
  have "om_wf (tc_oldest ?t)" using o w om1 by (simp add: findOldest_def Let_def)
  then show "tcs_wf ?t" using tcs_wf_at [OF assms, of q] wt w by (simp add: tcs_wf_def)
  show "tc_old_count ?t \<le> tc_old_count tc"
    using o w oldest_scan_count [of q oldest pdus md "tc\<lparr>tc_oldest := om1, tc_wait := w1\<rparr>"]
    by (simp add: findOldest_def Let_def)
qed

lemma handleOldest_keeps:
  assumes "tcs_wf tc" "tc_old_count tc \<le> MAX_OLD_COUNTER"
  obtains tc' where "handleOldest md q cur tc = Inr tc'" "waiting tc' = waiting tc" "tcs_wf tc'"
    "tc_old_count tc' \<le> tc_old_count tc"
proof -
  obtain oldest om1 where o: "om_at 0 (tc_oldest tc) q = (oldest, om1)" by force
  let ?t = "tc\<lparr>tc_oldest := om1\<rparr>"
  have "om_wf om1" using assms(1) o om_at_wf [of "tc_oldest tc" 0 q] by (simp add: tcs_wf_def)
  then have wf: "tcs_wf ?t" using assms(1) by (simp add: tcs_wf_def)
  have "handleOldest md q cur tc = Inr (if oldest = cur then findOldest md q ?t else ?t)"
    using o assms(2) by (auto simp: handleOldest_def Let_def)
  then show ?thesis
    using that [of "findOldest md q ?t"] that [of ?t] findOldest_keeps [OF wf] wf
    by (cases "oldest = cur") simp_all
qed

lemma om_find_wf: "om_find m q = Some x \<Longrightarrow> tcs_wf tc \<Longrightarrow> m = tc_wait tc \<Longrightarrow> om_wf x"
  using om_find_in by (fastforce simp: tcs_wf_def)

lemma tcs_wf_put:
  "tcs_wf tc \<Longrightarrow> om_wf m \<Longrightarrow> tcs_wf (tc\<lparr>tc_wait := om_put q m (tc_wait tc)\<rparr>)"
  using set_om_put_sub [of q m "tc_wait tc"] by (fastforce simp: tcs_wf_def)

lemma tcs_wf_other [simp]:
  "tcs_wf (tc\<lparr>tc_old_count := c\<rparr>) = tcs_wf tc"
  "om_wf m \<Longrightarrow> tcs_wf tc \<Longrightarrow> tcs_wf (tc\<lparr>tc_oldest := m\<rparr>)"
  by (simp_all add: tcs_wf_def)

definition same_pdu :: "sa_packet list option \<Rightarrow> bool \<times> sa_packet list \<Rightarrow> bool" where
  "same_pdu r bp \<longleftrightarrow> (case r of None \<Rightarrow> \<not> fst bp \<and> snd bp = [] | Some l \<Rightarrow> fst bp \<and> snd bp = l)"

text \<open>The simulation: \<open>addPacket\<close> is a step of the specification.\<close>

lemma addPacket_simulates:
  assumes wf: "tcs_wf tc" and i: "unat (sa_getId p) < 65536" and c: "unat (tc_old_count tc) < 65535"
  obtains b pdu tc' where "tcs_addPacket old md p tc = Inr (b, pdu, tc')"
    "same_pdu (fst (reasm_step p (waiting tc))) (b, pdu)"
    "waiting tc' = snd (reasm_step p (waiting tc))" "tcs_wf tc'"
    "unat (tc_old_count tc') \<le> unat (tc_old_count tc) + 1"
proof -
  define m where "m = (case om_find (tc_wait tc) (sa_getQos p) of None \<Rightarrow> [] | Some m \<Rightarrow> m)"
  define l where "l = (case om_find m (sa_getId p) of None \<Rightarrow> [] | Some l \<Rightarrow> l) @ [p]"
  define tc1 where "tc1 = tc\<lparr>tc_wait := om_put (sa_getQos p) (om_put (sa_getId p) l m) (tc_wait tc)\<rparr>"
  define tc2 where "tc2 = tc1\<lparr>tc_wait := om_put (sa_getQos p)
      (om_erase (sa_getId p) (om_put (sa_getId p) l m)) (tc_wait tc1), tc_old_count := tc_old_count tc1 + 1\<rparr>"
  have l: "l = waiting tc (pdu_key p) @ [p]"
    by (auto simp: l_def m_def waiting_def pdu_key_def split: option.splits)
  have wm: "om_wf m" using om_find_wf [OF _ wf refl] by (auto simp: m_def split: option.splits)
  have wf1: "tcs_wf tc1" using wf wm by (simp add: tc1_def tcs_wf_put)
  have wf2: "tcs_wf tc2" unfolding tc2_def using tcs_wf_put [OF wf1] wm by simp
  have w1: "waiting tc1 = (waiting tc)(pdu_key p := l)"
    by (auto simp: waiting_def fun_eq_iff tc1_def pdu_key_def m_def split: option.splits)
  have w2: "waiting tc2 = (waiting tc)(pdu_key p := [])"
    using wm by (auto simp: waiting_def fun_eq_iff tc2_def tc1_def pdu_key_def m_def om_find_erase
        split: option.splits)
  have c2: "unat (tc_old_count tc2) = unat (tc_old_count tc) + 1"
    using c by (simp add: tc2_def tc1_def unat_succ_u32)
  then have "tc_old_count tc2 \<le> MAX_OLD_COUNTER" using c by (simp add: word_le_nat_alt MAX_OLD_COUNTER_def)
  with wf2 obtain tc3 where tc3: "handleOldest md (sa_getQos p) (sa_getId p) tc2 = Inr tc3"
    "waiting tc3 = waiting tc2" "tcs_wf tc3" "tc_old_count tc3 \<le> tc_old_count tc2"
    by (rule handleOldest_keeps)
  have c3: "unat (tc_old_count tc3) \<le> unat (tc_old_count tc) + 1"
    using tc3(4) c2 by (simp add: word_le_nat_alt)
  have step: "tcs_addPacket old md p tc =
     (if unat (sa_getPduNb p) = length l
      then res_bind (handleOldest md (sa_getQos p) (sa_getId p) tc2)
             (\<lambda>t. Inr (True, sort_key sa_getSeq l, t))
      else if om_find (tc_oldest tc1) (sa_getQos p) = None
      then Inr (False, [], tc1\<lparr>tc_oldest := om_put (sa_getQos p) (sa_getId p) (tc_oldest tc1), tc_old_count := 0\<rparr>)
      else Inr (False, [], tc1))"
    by (simp add: tcs_addPacket_def Let_def convert_small [OF i] l_def m_def tc1_def tc2_def)
  have rs: "reasm_step p (waiting tc) = (if unat (sa_getPduNb p) = length l
      then (Some (sort_key sa_getSeq l), (waiting tc)(pdu_key p := []))
      else (None, (waiting tc)(pdu_key p := l)))"
    unfolding reasm_step_def l Let_def by simp
  have c1: "unat (tc_old_count tc1) \<le> unat (tc_old_count tc) + 1" by (simp add: tc1_def)
  have om: "om_wf (tc_oldest tc1)" using wf1 by (simp add: tcs_wf_def)
  consider (full) "unat (sa_getPduNb p) = length l"
    | (first) "unat (sa_getPduNb p) \<noteq> length l" "om_find (tc_oldest tc1) (sa_getQos p) = None"
    | (later) "unat (sa_getPduNb p) \<noteq> length l" "om_find (tc_oldest tc1) (sa_getQos p) \<noteq> None" by blast
  then show ?thesis
  proof cases
    case full
    show ?thesis
      by (rule that [of True "sort_key sa_getSeq l" tc3])
        (use full tc3 w2 c3 step rs in \<open>simp_all add: same_pdu_def\<close>)
  next
    case first
    show ?thesis
      by (rule that [of False "[]" "tc1\<lparr>tc_oldest := om_put (sa_getQos p) (sa_getId p) (tc_oldest tc1),
             tc_old_count := 0\<rparr>"])
        (use first wf1 w1 om step rs in \<open>simp_all add: same_pdu_def\<close>)
  next
    case later
    show ?thesis
      by (rule that [of False "[]" tc1])
        (use later wf1 w1 c1 step rs in \<open>simp_all add: same_pdu_def del: not_None_eq\<close>)
  qed
qed

section \<open>Runs\<close>

text \<open>
  The packets of a terminal one after the other; each call of \<open>addPacket\<close> finds some content in
  its uninitialised array. The PDUs handed on are collected.
\<close>

fun tcs_run :: "u32 \<Rightarrow> (u16 list \<times> sa_packet) list \<Rightarrow> tcs \<Rightarrow> (sa_packet list list \<times> tcs) res" where
  "tcs_run md [] tc = Inr ([], tc)"
| "tcs_run md ((old, p) # ps) tc =
     res_bind (tcs_addPacket old md p tc) (\<lambda>(b, pdu, tc1).
     res_bind (tcs_run md ps tc1) (\<lambda>(out, tc2).
       Inr ((if b then [pdu] else []) @ out, tc2)))"

fun reasm_run :: "sa_packet list \<Rightarrow> (pdu_key \<Rightarrow> sa_packet list) \<Rightarrow> sa_packet list list" where
  "reasm_run [] m = []"
| "reasm_run (p # ps) m =
     (case fst (reasm_step p m) of None \<Rightarrow> [] | Some l \<Rightarrow> [l]) @ reasm_run ps (snd (reasm_step p m))"

lemma tcs_run_refines:
  assumes "tcs_wf tc" "\<And>o' p. (o', p) \<in> set ps \<Longrightarrow> unat (sa_getId p) < 65536"
    "unat (tc_old_count tc) + length ps \<le> 65535"
  shows "\<exists>tc'. tcs_run md ps tc = Inr (reasm_run (map snd ps) (waiting tc), tc')"
  using assms
proof (induction ps arbitrary: tc)
  case (Cons op ps)
  obtain old p where op: "op = (old, p)" by force
  have small: "unat (sa_getId p) < 65536" "unat (tc_old_count tc) < 65535"
    using Cons.prems(2) [of old p] Cons.prems(3) op by auto
  obtain b pdu tc1 where step: "tcs_addPacket old md p tc = Inr (b, pdu, tc1)"
    "same_pdu (fst (reasm_step p (waiting tc))) (b, pdu)"
    "waiting tc1 = snd (reasm_step p (waiting tc))" "tcs_wf tc1"
    "unat (tc_old_count tc1) \<le> unat (tc_old_count tc) + 1"
    by (rule addPacket_simulates [OF Cons.prems(1) small])
  have "\<exists>tc'. tcs_run md ps tc1 = Inr (reasm_run (map snd ps) (waiting tc1), tc')"
    using Cons.IH [OF step(4)] Cons.prems(2,3) step(5) by force
  then show ?case
    using step op by (auto simp: same_pdu_def split: option.splits)
qed simp

definition of_key :: "pdu_key \<Rightarrow> sa_packet list list \<Rightarrow> sa_packet list list" where
  "of_key k = filter (\<lambda>l. pdu_key (hd l) = k)"

lemma hd_sort_in: "l \<noteq> [] \<Longrightarrow> hd (sort_key f l) \<in> set l"
  by (metis hd_in_set set_sort length_0_conv length_sort)

lemma reasm_run_key:
  assumes "\<And>j x. x \<in> set (m j) \<Longrightarrow> pdu_key x = j"
    and "\<And>p. p \<in> set ps \<Longrightarrow> pdu_key p = k \<Longrightarrow> unat (sa_getPduNb p) = n"
    and "length (m k) < n" "length (m k) + length (filter (\<lambda>p. pdu_key p = k) ps) \<le> n"
  shows "of_key k (reasm_run ps m) =
     (if length (m k) + length (filter (\<lambda>p. pdu_key p = k) ps) = n
      then [sort_key sa_getSeq (m k @ filter (\<lambda>p. pdu_key p = k) ps)] else [])"
  using assms
proof (induction ps arbitrary: m)
  case Nil
  then show ?case by (simp add: of_key_def)
next
  case (Cons p ps)
  let ?l = "m (pdu_key p) @ [p]"
  let ?m = "snd (reasm_step p m)"
  have inv: "\<And>j x. x \<in> set (?m j) \<Longrightarrow> pdu_key x = j"
  proof -
    fix j x
    assume "x \<in> set (?m j)"
    then have "x \<in> set (m j) \<or> j = pdu_key p \<and> x = p"
      by (simp add: reasm_step_def Let_def split: if_splits) auto
    then show "pdu_key x = j" using Cons.prems(1) by blast
  qed
  have hd: "pdu_key (hd (sort_key sa_getSeq ?l)) = pdu_key p"
  proof -
    have "hd (sort_key sa_getSeq ?l) \<in> set (m (pdu_key p)) \<or> hd (sort_key sa_getSeq ?l) = p"
      using hd_sort_in [of ?l sa_getSeq] by auto
    then show ?thesis using Cons.prems(1) by metis
  qed
  have nb: "\<And>q. q \<in> set ps \<Longrightarrow> pdu_key q = k \<Longrightarrow> unat (sa_getPduNb q) = n"
    using Cons.prems(2) by auto
  have IH: "length (?m k) < n \<Longrightarrow> length (?m k) + length (filter (\<lambda>p. pdu_key p = k) ps) \<le> n \<Longrightarrow>
      of_key k (reasm_run ps ?m) = (if length (?m k) + length (filter (\<lambda>p. pdu_key p = k) ps) = n
        then [sort_key sa_getSeq (?m k @ filter (\<lambda>p. pdu_key p = k) ps)] else [])"
    by (rule Cons.IH) (use inv nb in blast)+
  have out: "of_key k (reasm_run (p # ps) m) =
      (case fst (reasm_step p m) of None \<Rightarrow> [] | Some l \<Rightarrow> of_key k [l]) @ of_key k (reasm_run ps ?m)"
    by (simp add: of_key_def split: option.splits)
  have fst: "fst (reasm_step p m) = (if unat (sa_getPduNb p) = length ?l
      then Some (sort_key sa_getSeq ?l) else None)"
    by (simp add: reasm_step_def Let_def)
  have one: "of_key k [sort_key sa_getSeq ?l] = (if pdu_key p = k then [sort_key sa_getSeq ?l] else [])"
    unfolding of_key_def filter.simps hd by simp
  show ?case
  proof (cases "pdu_key p = k")
    case False
    then have mk: "?m k = m k" by (simp add: reasm_step_def Let_def)
    have skip: "filter (\<lambda>p. pdu_key p = k) (p # ps) = filter (\<lambda>p. pdu_key p = k) ps"
      using False by simp
    have eq: "of_key k (reasm_run (p # ps) m) = of_key k (reasm_run ps ?m)"
      unfolding out fst using one False by simp
    show ?thesis
      unfolding eq skip using IH Cons.prems(3,4) unfolding mk skip by blast
  next
    case True
    have n: "unat (sa_getPduNb p) = n" using Cons.prems(2) True by simp
    show ?thesis
    proof (cases "length ?l = n")
      case full: True
      have "length (filter (\<lambda>p. pdu_key p = k) ps) = 0"
        using full Cons.prems(4) True by (simp del: length_0_conv)
      then have none: "filter (\<lambda>p. pdu_key p = k) ps = []" by blast
      have "?m k = []" using full n True by (simp add: reasm_step_def Let_def)
      then have "of_key k (reasm_run ps ?m) = []"
        using IH none full by (simp add: True)
      then show ?thesis
        unfolding out fst using full n True one none by simp
    next
      case False
      then have mk: "?m k = m k @ [p]" using n True by (simp add: reasm_step_def Let_def)
      have "length (?m k) < n" using False Cons.prems(3) mk True by simp
      then show ?thesis
        unfolding out fst using IH mk Cons.prems(4) True False n by simp
    qed
  qed
qed

text \<open>A received packet for the examples.\<close>

definition fragment :: "addr \<Rightarrow> u32 \<Rightarrow> u16 \<Rightarrow> u16 \<Rightarrow> sa_packet" where
  "fragment a pid seq pdu_nb = sa_of_data a (0, 0) (sa_hdr 2 pid 0 seq pdu_nb 0 15) 15"

lemma fragment_fields [simp]:
  "sa_getId (fragment a pid seq n) = pid" "sa_getSeq (fragment a pid seq n) = seq"
  "sa_getPduNb (fragment a pid seq n) = n" "sa_getQos (fragment a pid seq n) = 2"
  "sp_addr (fragment a pid seq n) = a"
proof -
  have "np_data (fragment a pid seq n) = sa_hdr 2 pid 0 seq n 0 15 @ []"
    by (simp add: fragment_def sa_of_data_def new_net_packet_len_def new_net_packet_def
        net_packet.defs sa_packet.defs)
  then show "sa_getId (fragment a pid seq n) = pid" "sa_getSeq (fragment a pid seq n) = seq"
    "sa_getPduNb (fragment a pid seq n) = n" "sa_getQos (fragment a pid seq n) = 2"
    by (simp_all only: sa_getters sa_hdr_simps)
  show "sp_addr (fragment a pid seq n) = a"
    by (simp add: fragment_def sa_of_data_def net_packet.defs sa_packet.defs)
qed

text \<open>A terminal whose PDUs of a QoS have all been single packets.\<close>

definition only_singles :: "qos_t \<Rightarrow> nat \<Rightarrow> tcs \<Rightarrow> bool" where
  "only_singles q n tc \<longleftrightarrow> (om_find (tc_wait tc) q = None \<or> om_find (tc_wait tc) q = Some [])
     \<and> (om_find (tc_oldest tc) q = None \<or> om_find (tc_oldest tc) q = Some 0)
     \<and> unat (tc_old_count tc) = n"

lemma addPacket_single:
  assumes "only_singles q n tc" "n < 65536" "sa_getQos p = q" "sa_getPduNb p = 1"
    "sa_getId p \<noteq> 0" "unat (sa_getId p) < 65536"
  shows "if n < 65535 then \<exists>tc'. tcs_addPacket old md p tc = Inr (True, [p], tc') \<and> only_singles q (n + 1) tc'
    else tcs_addPacket old md p tc = Inl EndDeref"
proof -
  have c: "unat (tc_old_count tc + 1) = n + 1"
    using assms(1,2) by (simp add: only_singles_def unat_succ_u32)
  have lt: "MAX_OLD_COUNTER < tc_old_count tc + 1 \<longleftrightarrow> \<not> n < 65535"
    unfolding word_less_nat_alt c using assms(2) by (auto simp: MAX_OLD_COUNTER_def)
  have m: "(case om_find (tc_wait tc) q of None \<Rightarrow> [] | Some m \<Rightarrow> m) = []"
    using assms(1) by (auto simp: only_singles_def)
  have o: "fst (om_at 0 (tc_oldest tc) q) = 0" "om_find (snd (om_at 0 (tc_oldest tc) q)) q = Some 0"
    using assms(1) by (auto simp: only_singles_def om_at_def)
  obtain om1 where om1: "om_at 0 (tc_oldest tc) q = (0, om1)" "om_find om1 q = Some 0"
    using o by (metis prod.collapse)
  have w: "om_at [] (om_put q [] w) q = ([], om_put q [] w)" for w :: "(qos_t, pdus) omap"
    by (simp add: om_at_def)
  have id0: "0 \<noteq> sa_getId p" using assms(5) by simp
  show ?thesis
    unfolding tcs_addPacket_def convert_small [OF assms(6)] assms(3) Let_def m
    using assms(4) om1 id0 lt c
    by (simp add: handleOldest_def w) (simp add: only_singles_def)
qed

lemma tcs_run_singles:
  assumes "only_singles q n tc" "n + length ps = 65536" "ps \<noteq> []"
    and "\<forall>(old, p) \<in> set ps. sa_getQos p = q \<and> sa_getPduNb p = 1 \<and> sa_getId p \<noteq> 0 \<and> unat (sa_getId p) < 65536"
  shows "tcs_run md ps tc = Inl EndDeref"
  using assms
proof (induction ps arbitrary: n tc)
  case (Cons op ps)
  obtain old p where op: "op = (old, p)" by force
  have n: "n < 65536" using Cons.prems(2) by simp
  have p: "sa_getQos p = q" "sa_getPduNb p = 1" "sa_getId p \<noteq> 0" "unat (sa_getId p) < 65536"
    using Cons.prems(4) op by auto
  note step = addPacket_single [OF Cons.prems(1) n p, of old md]
  show ?case
  proof (cases "ps = []")
    case True
    then show ?thesis using step Cons.prems(2) op by simp
  next
    case False
    then have "n < 65535" using Cons.prems(2) by (cases ps) auto
    then obtain tc' where "tcs_addPacket old md p tc = Inr (True, [p], tc')" "only_singles q (n + 1) tc'"
      using step by auto
    then show ?thesis
      using Cons.IH [of "n + 1" tc'] Cons.prems(2,4) False op by simp
  qed
qed simp

section \<open>Properties\<close>

lemma new_tcs_wf: "tcs_wf (new_tcs t)" "waiting (new_tcs t) = (\<lambda>_. [])" "tc_old_count (new_tcs t) = 0"
  by (simp_all add: tcs_wf_def new_tcs_def waiting_def fun_eq_iff)

text \<open>
  C14: PDUs are reassembled whatever the interleaving: among at most 65535 packets of a terminal in
  any order, the packets of one PDU (\<open>n\<close> of them, as each one's header says) yield that PDU once,
  sorted by sequence number, and nothing before the last of them has arrived; no call faults.
\<close>

theorem pdu_reassembly:
  assumes "length ps \<le> 65535" "\<forall>(old, p) \<in> set ps. unat (sa_getId p) < 65536"
    and "\<forall>p \<in> set (map snd ps). pdu_key p = k \<longrightarrow> unat (sa_getPduNb p) = n" "0 < n"
    and "length (filter (\<lambda>p. pdu_key p = k) (map snd ps)) \<le> n"
  shows "\<exists>out tc'. tcs_run md ps (new_tcs t) = Inr (out, tc')
    \<and> of_key k out = (if length (filter (\<lambda>p. pdu_key p = k) (map snd ps)) = n
        then [sort_key sa_getSeq (filter (\<lambda>p. pdu_key p = k) (map snd ps))] else [])"
proof -
  have "\<exists>tc'. tcs_run md ps (new_tcs t) = Inr (reasm_run (map snd ps) (waiting (new_tcs t)), tc')"
    by (rule tcs_run_refines) (use assms(1,2) new_tcs_wf in auto)
  moreover have "of_key k (reasm_run (map snd ps) (\<lambda>_. []))
      = (if length (filter (\<lambda>p. pdu_key p = k) (map snd ps)) = n
         then [sort_key sa_getSeq (filter (\<lambda>p. pdu_key p = k) (map snd ps))] else [])"
    using reasm_run_key [of "\<lambda>_. []" "map snd ps" k n] assms(3-5) by simp
  ultimately show ?thesis by (auto simp: new_tcs_wf)
qed

theorem pdu_reassembly_witness:
  "\<exists>out tc'. tcs_run 0 [([], fragment 1 7 1 2), ([], fragment 2 8 0 3), ([], fragment 3 7 0 2)] (new_tcs 4)
       = Inr (out, tc')
     \<and> of_key (2, 7) out = [[fragment 3 7 0 2, fragment 1 7 1 2]]"
proof -
  have "unat (2 :: u16) = 2" by simp
  then show ?thesis
    using pdu_reassembly [of "[([], fragment 1 7 1 2), ([], fragment 2 8 0 3), ([], fragment 3 7 0 2)]"
        "(2, 7)" 2 0 4]
    by (simp add: pdu_key_def sort_key_def)
qed

text \<open>A duplicate is taken for a missing fragment: the first packet of a two-packet PDU received
  twice (its acknowledgement was lost and the terminal sent it again) completes the PDU, which is
  handed on with that packet twice and without the second one.
\<close>

theorem duplicate_completes_pdu:
  assumes "unat (sa_getId p) < 65536" "sa_getPduNb p = 2" "sa_getUniqueId p' = sa_getUniqueId p"
  shows "\<exists>tc'. tcs_run md [(old, p), (old', p')] (new_tcs t) = Inr ([[p, p']], tc')"
proof -
  have eq: "sa_getId p' = sa_getId p" "sa_getSeq p' = sa_getSeq p" "sa_getPduNb p' = sa_getPduNb p"
    "sa_getQos p' = sa_getQos p"
    using assms(3) by (simp_all add: unique_id_inj)
  have "\<exists>tc'. tcs_run md [(old, p), (old', p')] (new_tcs t)
      = Inr (reasm_run (map snd [(old, p), (old', p')]) (waiting (new_tcs t)), tc')"
    by (rule tcs_run_refines) (use assms eq new_tcs_wf in auto)
  then show ?thesis
    using assms eq by (simp add: new_tcs_wf reasm_step_def Let_def pdu_key_def)
qed

theorem duplicate_completes_pdu_witness:
  "\<exists>tc'. tcs_run 0 [([], fragment 1 7 0 2), ([], fragment 2 7 0 2)] (new_tcs 4)
     = Inr ([[fragment 1 7 0 2, fragment 2 7 0 2]], tc')"
  by (rule duplicate_completes_pdu) (simp_all add: sa_getUniqueId_def)

text \<open>The old-age counter runs into an iterator past the end: \<open>handleOldest\<close> stores the PDU
  identifier 0 as the oldest one when a QoS has none, so 65536 complete single-packet PDUs (none of
  them of identifier 0) later it looks that identifier up and dereferences \<open>end()\<close>.
\<close>

theorem oldest_age_dereferences_end:
  assumes "length ps = 65536"
    and "\<forall>(old, p) \<in> set ps. sa_getQos p = q \<and> sa_getPduNb p = 1 \<and> sa_getId p \<noteq> 0
           \<and> unat (sa_getId p) < 65536"
  shows "tcs_run md ps (new_tcs t) = Inl EndDeref"
proof -
  have "only_singles q 0 (new_tcs t)" by (simp add: only_singles_def new_tcs_def)
  moreover have "ps \<noteq> []" using assms(1) by auto
  ultimately show ?thesis using tcs_run_singles [of q 0 "new_tcs t" ps md] assms by simp
qed

theorem oldest_age_dereferences_end_witness:
  "tcs_run 0 (replicate 65536 ([], fragment 1 7 0 1)) (new_tcs 4) = Inl EndDeref"
proof (rule oldest_age_dereferences_end [where q = 2])
  show "length (replicate 65536 ([] :: u16 list, fragment 1 7 0 1)) = 65536"
    by (rule length_replicate)
  show "\<forall>(old, p) \<in> set (replicate 65536 ([] :: u16 list, fragment 1 7 0 1)). sa_getQos p = 2
      \<and> sa_getPduNb p = 1 \<and> sa_getId p \<noteq> 0 \<and> unat (sa_getId p) < 65536"
    by (auto simp del: replicate.simps simp: in_set_replicate)
qed

end
