(* ===== verification/NetBurst.thy ===== *)
theory NetBurst
  imports NetData
begin

text \<open>
  Bursts of network packets: \<open>common/NetBurst.cpp\<close>, a list of packets with an optional maximum
  (0 for none). A null pointer handed to \<open>add\<close> is \<open>None\<close>.
\<close>

record net_burst =
  nb_limit :: u32
  nb_packets :: "net_packet list"

definition new_net_burst :: "u32 \<Rightarrow> net_burst" where
  "new_net_burst mx = \<lparr>nb_limit = mx, nb_packets = []\<rparr>"

definition nb_setMaxPackets :: "u32 \<Rightarrow> net_burst \<Rightarrow> net_burst" where
  "nb_setMaxPackets mx b = b\<lparr>nb_limit := mx\<rparr>"

definition nb_length :: "net_burst \<Rightarrow> u32" where
  "nb_length b = of_nat (length (nb_packets b))"

definition nb_isFull :: "net_burst \<Rightarrow> bool" where
  "nb_isFull b \<longleftrightarrow> nb_limit b \<noteq> 0 \<and> nb_limit b \<le> nb_length b"

definition nb_add :: "net_packet option \<Rightarrow> net_burst \<Rightarrow> bool \<times> net_burst" where
  "nb_add packet b =
     (case packet of
        None \<Rightarrow> (False, b)
      | Some p \<Rightarrow> if nb_isFull b then (False, b) else (True, b\<lparr>nb_packets := nb_packets b @ [p]\<rparr>))"

definition nb_data :: "net_burst \<Rightarrow> data" where
  "nb_data b = concat (map np_data (nb_packets b))"

definition nb_bytes :: "net_burst \<Rightarrow> int" where
  "nb_bytes b = (\<Sum>p \<leftarrow> nb_packets b. int (nc_getTotalLength p))"

definition nb_type :: "net_burst \<Rightarrow> u16" where
  "nb_type b = (case nb_packets b of [] \<Rightarrow> NET_PROTO_ERROR | p # ps \<Rightarrow> np_type p)"

definition nb_name :: "net_burst \<Rightarrow> string" where
  "nb_name b = (case nb_packets b of [] \<Rightarrow> ''unknown'' | p # ps \<Rightarrow> np_name p)"

text \<open>Several packets at the end of the list, whatever the limit.\<close>

definition nb_append :: "net_packet list \<Rightarrow> net_burst \<Rightarrow> net_burst" where
  "nb_append ps b = b\<lparr>nb_packets := nb_packets b @ ps\<rparr>"

lemma nb_append_simps [simp]:
  "nb_append [] b = b" "nb_append qs (nb_append ps b) = nb_append (ps @ qs) b"
  "nb_limit (nb_append ps b) = nb_limit b" "nb_packets (nb_append ps b) = nb_packets b @ ps"
  by (simp_all add: nb_append_def)

lemma nb_bytes_data: "nb_bytes b = int (length (nb_data b))"
proof -
  have "(\<Sum>p \<leftarrow> ps. int (nc_getTotalLength p)) = int (length (concat (map np_data ps)))"
    for ps :: "net_packet list"
    by (induction ps) (simp_all add: nc_getTotalLength_def)
  then show ?thesis by (simp add: nb_bytes_def nb_data_def)
qed

lemma nb_add_unlimited [simp]:
  "nb_limit b = 0 \<Longrightarrow> nb_add (Some p) b = (True, b\<lparr>nb_packets := nb_packets b @ [p]\<rparr>)"
  by (simp add: nb_add_def nb_isFull_def)

lemma nb_add_bound:
  assumes "nb_limit b \<noteq> 0" "length (nb_packets b) \<le> unat (nb_limit b)"
  shows "length (nb_packets (snd (nb_add p b))) \<le> unat (nb_limit b)"
proof -
  have "length (nb_packets b) < 4294967296"
    using assms(2) unat_u32_less [of "nb_limit b"] by simp
  then have "unat (nb_length b) = length (nb_packets b)"
    unfolding nb_length_def by (rule u32_of_nat_id)
  then show ?thesis
    using assms by (auto simp: nb_add_def nb_isFull_def word_le_nat_alt split: option.splits)
qed

end
