(* ===== verification/SalohaNcc.thy ===== *)
theory SalohaNcc
  imports SalohaAlgoSpec SalohaFrame SalohaCategory SalohaSlots TerminalContextSaloha NetBurst
    "HOL-Library.List_Lexorder" "HOL-Library.Char_ord"
begin

text \<open>
  The Slotted Aloha gateway: \<open>dvb/saloha/SlottedAlohaNcc.cpp\<close> and \<open>SlottedAlohaNcc.h\<close>, with the
  wrappers of \<open>dvb/core/transparent/SpotUpwardTransp.cpp\<close>. A category pointer is the category's
  label; the probes of the categories, all registered by \<open>init\<close>, are left out. The packet handler
  is an encapsulation plugin and a parameter: the caller ignores the value that \<open>getSrc\<close> and \<open>getQos\<close> return, so
  \<open>ph_getSrc\<close> and \<open>ph_getQos\<close> give what the variable holds after the call, also where the plugin refuses the packet
  and leaves it uninitialised. \<open>std::sort\<close> is the parameter \<open>srt\<close> of a call: the
  comparator is no strict weak order, so the order it leaves is open.
\<close>

section \<open>State\<close>

record pkt_hdl =
  ph_getSrc :: "data \<Rightarrow> tal_id_t"
  ph_getQos :: "data \<Rightarrow> qos_t"
  ph_build :: "data \<Rightarrow> nat \<Rightarrow> net_packet option"

record simu =
  si_category :: string
  si_nb_replicas :: u16
  si_nb_tal :: tal_id_t
  si_nb_packets_per_tal :: u16

record 'r ncc =
  nc_sf_per_saframe :: time_sf_t
  nc_categories :: "(string, 'r category) omap"
  nc_affectation :: "(tal_id_t, string option) omap"  \<comment> \<open>\<open>None\<close> for a null pointer\<close>
  nc_default :: "string option"
  nc_spot :: spot_id_t
  nc_terminals :: "(tal_id_t, tcs) omap"
  nc_algo :: "algo_kind option"
  nc_simu :: "simu list"
  nc_rand :: "nat stream"
  nc_next :: addr
  nc_freed :: "addr list"

section \<open>Simulated traffic\<close>

text \<open>
  The constructor of \<open>SlottedAlohaSimu\<close>: \<open>floor\<close> and \<open>round\<close> are applied to integer quotients.
\<close>

definition new_simu :: "'r category \<Rightarrow> u16 \<Rightarrow> u16 \<Rightarrow> u8 \<Rightarrow> simu res" where
  "new_simu ct nb_max_packets nb_replicas ratio =
     (let slots = ct_getSlotsNumber ct; carriers = ct_getCarriersNumber ct
      in if carriers = 0 then Inl DivByZero
         else let slots_per_carrier = ucast (slots div carriers) :: u16;
                  nb_slots = ucast (slots * ucast ratio div 100) :: u16;
                  nb_packets = nb_slots * nb_replicas
         in if nb_max_packets = 0 then Inl DivByZero
            else let nb_tal = nb_slots div nb_max_packets
            in if nb_tal = 0 then Inl DivByZero
               else let per_tal = (nb_slots div nb_tal) * nb_replicas
               in if per_tal \<le> slots_per_carrier
                  then Inr \<lparr>si_category = ct_label ct, si_nb_replicas = nb_replicas,
                         si_nb_tal = nb_tal, si_nb_packets_per_tal = per_tal\<rparr>
                  else if nb_replicas = 0 then Inl DivByZero
                  else let per_tal' = (slots_per_carrier div nb_replicas) * nb_replicas
                  in if per_tal' div nb_replicas = 0 then Inl DivByZero
                     else Inr \<lparr>si_category = ct_label ct, si_nb_replicas = nb_replicas,
                            si_nb_tal = nb_packets div (per_tal' div nb_replicas),
                            si_nb_packets_per_tal = per_tal'\<rparr>)"

text \<open>
  One simulated packet per replica: \<open>reps\<close> is the array of its slots. The state is the category
  and the address of the next object.
\<close>

fun simu_replicas ::
    "u8 \<Rightarrow> tal_id_t \<Rightarrow> u16 \<Rightarrow> u16 list \<Rightarrow> u16 list \<Rightarrow> 'r category \<times> addr \<Rightarrow> ('r category \<times> addr) res" where
  "simu_replicas junk t pdu_id reps [] s = Inr s"
| "simu_replicas junk t pdu_id reps (slot_id # rs) (ct, a) =
     res_bind (new_sa_packet a junk [] (ucast pdu_id) 0 0 0 (of_nat (length reps)) 0) (\<lambda>p.
     res_bind (sa_setReplicas (Some reps) (length reps) (np_setSrcTalId t p)) (\<lambda>q.
       case ct_push_slot (ucast slot_id) (sa_setTs slot_id q) ct of
         None \<Rightarrow> Inl NullDeref
       | Some ct' \<Rightarrow> simu_replicas junk t pdu_id reps rs (ct', a + 1)))"

text \<open>The loop over the slots drawn: a PDU takes as many as it has replicas.\<close>

function simu_pdus ::
    "u8 \<Rightarrow> tal_id_t \<Rightarrow> nat \<Rightarrow> ts_set \<Rightarrow> u16 \<Rightarrow> 'r category \<times> addr \<Rightarrow> ('r category \<times> addr) res" where
  "simu_pdus junk t n ts pdu_id s =
     (if ts = [] then Inr s
      else if n = 0 then Inl NoReturn
      else if length ts < n then Inl EndDeref
      else res_bind (simu_replicas junk t pdu_id (take n ts) (take n ts) s)
             (simu_pdus junk t n (drop n ts) (pdu_id + 1)))"
  by auto
termination
  by (relation "measure (\<lambda>(junk, t, n, ts, pdu_id, s). length ts)") auto

declare simu_pdus.simps [simp del]

text \<open>The loop over the simulated terminals, \<open>n\<close> of them left, \<open>cpt\<close> done.\<close>

fun simu_tals ::
    "nat \<Rightarrow> u8 \<Rightarrow> simu \<Rightarrow> nat \<Rightarrow> u32 \<Rightarrow> 'r category \<times> addr \<Rightarrow> nat stream
      \<Rightarrow> (('r category \<times> addr) \<times> nat stream) res" where
  "simu_tals fuel junk si 0 cpt s rs = Inr (s, rs)"
| "simu_tals fuel junk si (Suc n) cpt (ct, a) rs =
     (let slots = ct_getSlotsNumber ct; carriers = ct_getCarriersNumber ct
      in if carriers = 0 then Inl DivByZero
         else let spc = unat (ucast (slots div carriers) :: u16)
         in res_bind (draw_slots fuel spc (unat (si_nb_packets_per_tal si)) [] rs) (\<lambda>(tmp, rs1).
              let (ts, rs2) = spread_slots (unat carriers) spc tmp [] rs1
              in res_bind (simu_pdus junk (BROADCAST_TAL_ID + 1 + ucast cpt)
                     (unat (si_nb_replicas si)) ts 0 (ct, a)) (\<lambda>s1.
                   simu_tals fuel junk si n (cpt + 1) s1 rs2)))"

definition ncc_simulateTraffic :: "nat \<Rightarrow> u8 \<Rightarrow> simu \<Rightarrow> string \<Rightarrow> 'r ncc \<Rightarrow> 'r ncc res" where
  "ncc_simulateTraffic fuel junk si label st =
     (case om_find (nc_categories st) label of
        None \<Rightarrow> Inl NullDeref
      | Some ct \<Rightarrow>
          res_bind (simu_tals fuel junk si (unat (si_nb_tal si)) 0 (ct, nc_next st) (nc_rand st))
            (\<lambda>((ct', a), rs). Inr (st\<lparr>nc_categories := om_put label ct' (nc_categories st),
               nc_next := a, nc_rand := rs\<rparr>)))"

section \<open>Initialisation\<close>

text \<open>The configuration of the spot, a missing parameter being \<open>None\<close>.\<close>

record simu_conf =
  sc_category :: "string option"
  sc_nb_max_packets :: "u16 option"
  sc_nb_replicas :: "u16 option"
  sc_ratio :: "u8 option"

record ncc_conf =
  nf_spot_list :: bool
  nf_current_spot :: bool
  nf_algo :: "string option"
  nf_simu_list :: "simu_conf list option"

fun ncc_init_simu :: "simu_conf list \<Rightarrow> 'r ncc \<Rightarrow> (bool \<times> 'r ncc) res" where
  "ncc_init_simu [] st = Inr (True, st)"
| "ncc_init_simu (c # cs) st =
     (case (sc_category c, sc_nb_max_packets c, sc_nb_replicas c, sc_ratio c) of
        (Some label, Some nb_max, Some nb_rep, Some ratio) \<Rightarrow>
          if nb_max = 0 then ncc_init_simu cs st
          else (case om_find (nc_categories st) label of
                  None \<Rightarrow> ncc_init_simu cs st
                | Some ct \<Rightarrow> res_bind (new_simu ct nb_max nb_rep ratio) (\<lambda>si.
                    ncc_init_simu cs (st\<lparr>nc_simu := nc_simu st @ [si]\<rparr>)))
      | _ \<Rightarrow> Inr (False, st))"

definition algo_named :: "string \<Rightarrow> algo_kind option" where
  "algo_named s = (if s = ''DSA'' then Some Dsa else if s = ''CRDSA'' then Some Crdsa else None)"

definition ncc_init ::
    "(string, 'r category) omap \<Rightarrow> (tal_id_t, string option) omap \<Rightarrow> string option \<Rightarrow> spot_id_t
      \<Rightarrow> ('r carriers_group \<Rightarrow> u32) \<Rightarrow> bool \<Rightarrow> ncc_conf \<Rightarrow> 'r ncc \<Rightarrow> (bool \<times> 'r ncc) res" where
  "ncc_init categories terminal_affectation default_category spot_id slots_of is_parent_init cf st =
     (let st1 = st\<lparr>nc_spot := spot_id\<rparr>
      in if \<not> is_parent_init then Inr (False, st1)
      else let st2 = st1\<lparr>nc_categories := map (\<lambda>(l, ct). (l, ct_computeSlotsNumber slots_of ct)) categories,
             nc_affectation := terminal_affectation, nc_default := default_category\<rparr>
      in if \<not> nf_spot_list cf \<or> \<not> nf_current_spot cf then Inr (False, st2)
      else (case nf_algo cf of
              None \<Rightarrow> Inr (False, st2)
            | Some name \<Rightarrow>
                (case algo_named name of
                   None \<Rightarrow> Inr (False, st2)
                 | Some k \<Rightarrow>
                     (let st3 = st2\<lparr>nc_algo := Some k\<rparr>
                      in case nf_simu_list cf of
                           None \<Rightarrow> Inr (False, st3)
                         | Some cs \<Rightarrow> ncc_init_simu cs st3))))"

definition ncc_addTerminal :: "tal_id_t \<Rightarrow> 'r ncc \<Rightarrow> bool \<times> 'r ncc" where
  "ncc_addTerminal tal_id st =
     (if om_find (nc_terminals st) tal_id \<noteq> None then (True, st)
      else if BROADCAST_TAL_ID \<le> tal_id then (False, st)
      else (let add = (\<lambda>label.
              case om_find (nc_categories st) label of
                None \<Rightarrow> (True, st)
              | Some ct \<Rightarrow>
                  (True, st\<lparr>nc_terminals := om_put tal_id (tc_setCurrentCategory label (new_tcs tal_id))
                             (nc_terminals st),
                           nc_categories := om_put label (ct_addTerminal tal_id ct) (nc_categories st)\<rparr>))
            in case om_find (nc_affectation st) tal_id of
                 None \<Rightarrow> (case nc_default st of None \<Rightarrow> (False, st) | Some label \<Rightarrow> add label)
               | Some None \<Rightarrow> (True, st)
               | Some (Some label) \<Rightarrow> add label))"

section \<open>Reception\<close>

text \<open>
  A data packet on its way to its slot: \<open>junk\<close> is what the uninitialised time-out fields of an object
  hold.
\<close>

definition ncc_data_body ::
    "pkt_hdl \<Rightarrow> (addr \<Rightarrow> u16 \<times> u16) \<Rightarrow> data \<Rightarrow> nat \<Rightarrow> 'r ncc \<Rightarrow> 'r ncc res" where
  "ncc_data_body hdl junk payload current_length st =
     (let p = sa_of_data (nc_next st) (junk (nc_next st)) payload current_length; st1 = st\<lparr>nc_next := nc_next st + 1\<rparr>
      in if length (np_data p) < saloha_hdr_len then Inl BadHeader
      else res_bind (sa_getPayload p) (\<lambda>encap.
        let src = ph_getSrc hdl encap;
            p1 = sa_setQos (ph_getQos hdl encap) (np_setSrcTalId src p);
            freed = st1\<lparr>nc_freed := nc_freed st1 @ [sp_addr p1]\<rparr>
        in case om_find (nc_terminals st1) src of
             None \<Rightarrow> Inr freed
           | Some tc \<Rightarrow>
               (case om_find (nc_categories st1) (tc_category tc) of
                  None \<Rightarrow> Inl NullDeref
                | Some ct \<Rightarrow>
                    (case ct_push_slot (ucast (sa_getTs p1)) p1 ct of
                       None \<Rightarrow> Inr freed
                     | Some ct' \<Rightarrow> Inr (st1\<lparr>nc_categories := om_put (tc_category tc)
                         (ct_increaseReceivedPacketsNbr ct') (nc_categories st1)\<rparr>)))))"

definition ncc_onRcvFrame :: "pkt_hdl \<Rightarrow> (addr \<Rightarrow> u16 \<times> u16) \<Rightarrow> dvb_frame \<Rightarrow> 'r ncc \<Rightarrow> 'r ncc res" where
  "ncc_onRcvFrame hdl junk dvb_frame st =
     (let frame = df_as_saloha dvb_frame
      in if length (df_data frame) < sizeof_DVB_SALOHA then Inl BadHeader
         else if saf_getDataLength frame \<le> 0 then Inr st
         else frame_loop data_plen (ncc_data_body hdl junk) frame (unat (saf_getDataLength frame)) 0 st)"

section \<open>Scheduling\<close>

text \<open>\<open>AlohaPacketComparator\<close>: only packets of one terminal, other than 0, are ordered.\<close>

definition aloha_less :: "sa_packet \<Rightarrow> sa_packet \<Rightarrow> bool" where
  "aloha_less p q \<longleftrightarrow> sa_getReplica p 0 < sa_getReplica q 0
     \<and> np_getSrcTalId p = np_getSrcTalId q \<and> np_getSrcTalId p \<noteq> 0"

definition ncc_removeCollisions ::
    "(sa_packet list \<Rightarrow> sa_packet list) \<Rightarrow> algo_kind \<Rightarrow> 'r category \<Rightarrow> ('r category \<times> addr list \<times> u16) res" where
  "ncc_removeCollisions srt k ct =
     (if ct_getCarriersNumber ct = 0 \<or> ct_getSlotsNumber ct = 0 then Inl DivByZero
      else let (sl, acc, fr, nbr) = algo_removeCollisions k (ct_slots_view ct) (ct_accepted ct)
      in Inr ((ct_put_slots sl ct)\<lparr>ct_accepted := srt acc\<rparr>, fr, nbr))"

definition removeSalohaHeader :: "pkt_hdl \<Rightarrow> sa_packet \<Rightarrow> net_packet option res" where
  "removeSalohaHeader hdl p =
     res_bind (sa_getPayload p) (\<lambda>d. Inr (ph_build hdl d (sa_getPayloadLength p)))"

text \<open>The packets of a complete PDU go into the burst and are deleted.\<close>

fun burst_pdu :: "pkt_hdl \<Rightarrow> sa_packet list \<Rightarrow> net_burst \<Rightarrow> net_burst res" where
  "burst_pdu hdl [] b = Inr b"
| "burst_pdu hdl (p # ps) b =
     res_bind (removeSalohaHeader hdl p) (\<lambda>e. burst_pdu hdl ps (snd (nb_add e b)))"

text \<open>The state of the loop over the accepted packets.\<close>

record ack_loop =
  al_complete :: "dvb_frame list"
  al_frame :: dvb_frame
  al_burst :: net_burst
  al_terminals :: "(tal_id_t, tcs) omap"
  al_freed :: "addr list"

definition al_free :: "sa_packet \<Rightarrow> ack_loop \<Rightarrow> ack_loop" where
  "al_free p al = al\<lparr>al_freed := al_freed al @ [sp_addr p]\<rparr>"

text \<open>The acknowledgement goes into the frame, or into a new one when there is no room.\<close>

definition al_send_ack :: "spot_id_t \<Rightarrow> data \<Rightarrow> ack_loop \<Rightarrow> bool \<times> ack_loop" where
  "al_send_ack spot ack al =
     (let al1 = (if df_getFreeSpace (al_frame al) < ctrl_getTotalLength ack
                 then al\<lparr>al_complete := al_complete al @ [al_frame al],
                         al_frame := df_setSpot spot new_saf_ctrl\<rparr>
                 else al);
          (ok, frame) = saf_addPacket (ctrl_getTotalLength ack) ack (al_frame al1)
      in (ok, al1\<lparr>al_frame := frame\<rparr>))"

text \<open>
  One turn of the loop; \<open>old\<close> is what the uninitialised array of \<open>addPacket\<close> holds in the call for an
  object.
\<close>

definition ncc_accept ::
    "pkt_hdl \<Rightarrow> (addr \<Rightarrow> u16 list) \<Rightarrow> u32 \<Rightarrow> spot_id_t \<Rightarrow> string \<Rightarrow> sa_packet \<Rightarrow> ack_loop \<Rightarrow> ack_loop res" where
  "ncc_accept hdl old md spot label p al =
     (let tal_id = np_getSrcTalId p
      in if BROADCAST_TAL_ID < tal_id then Inr (al_free p al)
      else case om_find (al_terminals al) tal_id of
        None \<Rightarrow> Inr (al_free p al)
      | Some tc \<Rightarrow>
          if tc_category tc \<noteq> label then Inr (al_free p al)
          else (let (ok, al1) = al_send_ack spot (ctrl_packet (sa_getUniqueId p) SALOHA_CTRL_ACK tal_id) al
            in if \<not> ok then Inr (al_free p al1)
            else res_bind (tcs_addPacket (old (sp_addr p)) md p tc) (\<lambda>(prop, pdu, tc').
                 let al2 = al1\<lparr>al_terminals := om_put tal_id tc' (al_terminals al1)\<rparr>
                 in if \<not> prop then Inr al2
                 else res_bind (burst_pdu hdl pdu (al_burst al2)) (\<lambda>b.
                   Inr (al2\<lparr>al_burst := b, al_freed := al_freed al2 @ map sp_addr pdu\<rparr>)))))"

text \<open>The simulations configured for a category run one after the other.\<close>

fun ncc_simulations :: "nat \<Rightarrow> u8 \<Rightarrow> simu list \<Rightarrow> string \<Rightarrow> 'r ncc \<Rightarrow> 'r ncc res" where
  "ncc_simulations fuel junk [] label st = Inr st"
| "ncc_simulations fuel junk (si # sis) label st =
     (if si_category si = label
      then res_bind (ncc_simulateTraffic fuel junk si label st) (ncc_simulations fuel junk sis label)
      else ncc_simulations fuel junk sis label st)"

text \<open>
  \<open>scheduleCategory\<close>; \<open>burst\<close> and the completed frames are what the caller's variables hold. \<open>algo\<close> is
  set, or \<open>init\<close> has failed.
\<close>

definition ncc_scheduleCategory ::
    "pkt_hdl \<Rightarrow> (sa_packet list \<Rightarrow> sa_packet list) \<Rightarrow> (addr \<Rightarrow> u16 list) \<Rightarrow> u32 \<Rightarrow> nat \<Rightarrow> u8 \<Rightarrow> string
      \<Rightarrow> net_burst option \<times> dvb_frame list \<times> 'r ncc \<Rightarrow> (net_burst option \<times> dvb_frame list \<times> 'r ncc) res" where
  "ncc_scheduleCategory hdl srt old md fuel junk label s =
     (let (burst, complete, st) = s
      in case om_find (nc_categories st) label of
        None \<Rightarrow> Inl NullDeref
      | Some ct0 \<Rightarrow>
          if ct_received ct0 = 0 then Inr (burst, complete, st)
          else res_bind (ncc_simulations fuel junk (nc_simu st) label st) (\<lambda>st1.
            case (om_find (nc_categories st1) label, nc_algo st1) of
              (Some ct, Some k) \<Rightarrow>
                res_bind (ncc_removeCollisions srt k (ct_resetReceivedPacketsNbr ct)) (\<lambda>(ct1, fr, nbr).
                res_bind (res_fold (ncc_accept hdl old md (nc_spot st1) label) (ct_accepted ct1)
                  \<lparr>al_complete = complete, al_frame = df_setSpot (nc_spot st1) new_saf_ctrl,
                   al_burst = new_net_burst 0, al_terminals = nc_terminals st1,
                   al_freed = nc_freed st1 @ fr\<rparr>) (\<lambda>al.
                  Inr (Some (al_burst al),
                    al_complete al @ (if saf_getDataLength (al_frame al) \<noteq> 0 then [al_frame al] else []),
                    st1\<lparr>nc_categories := om_put label (ct1\<lparr>ct_accepted := []\<rparr>) (nc_categories st1),
                        nc_terminals := al_terminals al, nc_freed := al_freed al\<rparr>)))
            | _ \<Rightarrow> Inl NullDeref))"

definition ncc_schedule ::
    "pkt_hdl \<Rightarrow> (sa_packet list \<Rightarrow> sa_packet list) \<Rightarrow> (addr \<Rightarrow> u16 list) \<Rightarrow> u32 \<Rightarrow> nat \<Rightarrow> u8 \<Rightarrow> time_sf_t
      \<Rightarrow> net_burst option \<times> dvb_frame list \<times> 'r ncc \<Rightarrow> (net_burst option \<times> dvb_frame list \<times> 'r ncc) res" where
  "ncc_schedule hdl srt old md fuel junk superframe_counter s =
     res_bind (isSalohaFrameTick (nc_sf_per_saframe (snd (snd s))) superframe_counter) (\<lambda>tick.
       if \<not> tick then Inr s
       else res_fold (ncc_scheduleCategory hdl srt old md fuel junk)
              (om_keys (nc_categories (snd (snd s)))) s)"

end
