(* ===== verification/SalohaNccSpec.thy ===== *)
theory SalohaNccSpec
  imports SalohaNcc
begin

text \<open>
  The gateway against its abstract specification: every accepted packet of a registered terminal is
  acknowledged once, in the order of the accepted packets, and the PDUs handed on are those of one
  reassembly machine per terminal (\<open>TerminalContextSaloha.reasm_step\<close>).
\<close>

section \<open>The identifier fits a control packet\<close>

lemma length_dec: "n < 10 ^ k \<Longrightarrow> 0 < k \<Longrightarrow> length (dec n) \<le> k"
proof (induction k arbitrary: n)
  case (Suc k)
  show ?case
  proof (cases "n < 10")
    case True
    then show ?thesis by (simp add: dec.simps)
  next
    case False
    then have "k \<noteq> 0" using Suc.prems by (cases k) auto
    moreover have "n div 10 < 10 ^ k" using Suc.prems by (simp add: less_mult_imp_div_less mult.commute)
    ultimately have "length (dec (n div 10)) \<le> k" by (intro Suc.IH) simp_all
    then show ?thesis using False by (subst dec.simps) simp
  qed
qed simp

lemma length_int_str: "\<bar>k\<bar> < 10 ^ n \<Longrightarrow> 0 < n \<Longrightarrow> length (int_str k) \<le> n + 1"
proof -
  assume a: "\<bar>k\<bar> < 10 ^ n" "0 < n"
  have "nat \<bar>k\<bar> < 10 ^ n" using a(1) by (simp add: nat_less_iff)
  then have "length (dec (nat \<bar>k\<bar>)) \<le> n" using a(2) by (rule length_dec)
  then show ?thesis by (cases "k < 0") (simp_all add: int_str_def)
qed

lemma length_unique_id: "length (sa_getUniqueId p) \<le> 30"
proof -
  have s: "\<bar>sint (sa_getId p)\<bar> < 10 ^ 10"
    using sint_range_size [of "sa_getId p"] by (simp add: word_size abs_less_iff)
  have u: "\<bar>uint (w :: u16)\<bar> < 10 ^ 5" "\<bar>uint (v :: u8)\<bar> < 10 ^ 3" for w v
    using uint_lt2p [of w] uint_lt2p [of v] by auto
  show ?thesis
    using length_int_str [OF s] length_int_str [OF u(1), of "sa_getSeq p"]
      length_int_str [OF u(1), of "sa_getPduNb p"] length_int_str [OF u(2), of "sa_getQos p"]
    by (simp add: sa_getUniqueId_def id_str_def)
qed

section \<open>The abstract gateway\<close>

type_synonym gw_mem = "tal_id_t \<Rightarrow> pdu_key \<Rightarrow> sa_packet list"

definition served :: "(tal_id_t, tcs) omap \<Rightarrow> string \<Rightarrow> sa_packet \<Rightarrow> bool" where
  "served ts label p \<longleftrightarrow> np_getSrcTalId p \<le> BROADCAST_TAL_ID
     \<and> map_option tc_category (om_find ts (np_getSrcTalId p)) = Some label"

definition gw_step :: "sa_packet \<Rightarrow> gw_mem \<Rightarrow> gw_mem" where
  "gw_step p m = m(np_getSrcTalId p := snd (reasm_step p (m (np_getSrcTalId p))))"

definition gw_out :: "sa_packet \<Rightarrow> gw_mem \<Rightarrow> sa_packet list" where
  "gw_out p m = (case fst (reasm_step p (m (np_getSrcTalId p))) of None \<Rightarrow> [] | Some pdu \<Rightarrow> pdu)"

text \<open>The packets of the PDUs that the packets \<open>ps\<close> complete, PDU after PDU, and the memory after.\<close>

fun gw_run :: "sa_packet list \<Rightarrow> gw_mem \<Rightarrow> sa_packet list \<times> gw_mem" where
  "gw_run [] m = ([], m)"
| "gw_run (p # ps) m = (let (out, m') = gw_run ps (gw_step p m) in (gw_out p m @ out, m'))"

definition ack_of :: "sa_packet \<Rightarrow> data" where
  "ack_of p = ctrl_packet (sa_getUniqueId p) SALOHA_CTRL_ACK (np_getSrcTalId p)"

definition readable :: "sa_packet \<Rightarrow> bool" where
  "readable p \<longleftrightarrow> (\<exists>d. sa_getPayload p = Inr d)"

text \<open>The packet that the plugin makes of the payload.\<close>

definition decap :: "pkt_hdl \<Rightarrow> sa_packet \<Rightarrow> net_packet list" where
  "decap hdl p = (case sa_getPayload p of
     Inl e \<Rightarrow> []
   | Inr d \<Rightarrow> (case ph_build hdl d (sa_getPayloadLength p) of None \<Rightarrow> [] | Some e \<Rightarrow> [e]))"

section \<open>The acknowledgement frames\<close>

text \<open>The frames completed behind \<open>pre\<close> and the one being filled hold the packets \<open>bs\<close>, in order.\<close>

definition acks_in :: "dvb_frame list \<Rightarrow> ack_loop \<Rightarrow> data list \<Rightarrow> bool" where
  "acks_in pre al bs \<longleftrightarrow> (\<exists>fs bss. al_complete al = pre @ fs
     \<and> list_all2 (saf_holds MSG_TYPE_SALOHA_CTRL) bss (fs @ [al_frame al]) \<and> concat bss = bs)"

lemma saf_holds_setSpot [simp]: "saf_holds ty bs (df_setSpot s f) = saf_holds ty bs f"
  by (simp add: saf_holds_def df_setSpot_def)

lemma al_send_ack_ok:
  assumes "acks_in pre al bs" "ack \<noteq> []" "length ack \<le> 1199" "ctrl_getTotalLength ack = length ack"
  obtains al' where "al_send_ack spot ack al = (True, al')" "acks_in pre al' (bs @ [ack])"
    "al_burst al' = al_burst al" "al_terminals al' = al_terminals al" "al_freed al' = al_freed al"
proof -
  obtain fs bss where h: "al_complete al = pre @ fs" "concat bss = bs"
    "list_all2 (saf_holds MSG_TYPE_SALOHA_CTRL) bss (fs @ [al_frame al])"
    using assms(1) by (auto simp: acks_in_def)
  obtain bss1 b where b: "bss = bss1 @ [b]" "list_all2 (saf_holds MSG_TYPE_SALOHA_CTRL) bss1 fs"
    "saf_holds MSG_TYPE_SALOHA_CTRL b (al_frame al)"
    using h(3) by (auto simp: list_all2_append2 list_all2_Cons2)
  define al1 where "al1 = (if df_getFreeSpace (al_frame al) < length ack
    then al\<lparr>al_complete := al_complete al @ [al_frame al], al_frame := df_setSpot spot new_saf_ctrl\<rparr> else al)"
  define cs where "cs = (if df_getFreeSpace (al_frame al) < length ack then bss else bss1)"
  define c where "c = (if df_getFreeSpace (al_frame al) < length ack then [] else b)"
  have c: "\<exists>fs1. al_complete al1 = pre @ fs1 \<and> list_all2 (saf_holds MSG_TYPE_SALOHA_CTRL) cs fs1"
  proof (cases "df_getFreeSpace (al_frame al) < length ack")
    case True
    then show ?thesis using h by (intro exI [of _ "fs @ [al_frame al]"]) (simp add: al1_def cs_def)
  next
    case False
    then show ?thesis using h b by (intro exI [of _ fs]) (simp add: al1_def cs_def)
  qed
  have l: "saf_holds MSG_TYPE_SALOHA_CTRL c (al_frame al1)"
    using b new_saf_holds(3) by (simp add: al1_def c_def)
  have fit: "5 + length (concat c) + length ack \<le> MSG_SALOHA_SIZE_MAX"
    using df_getFreeSpace_holds [OF b(3)] b assms(3)
    by (auto simp: c_def MSG_SALOHA_SIZE_MAX_def saf_holds_def)
  obtain fr where fr: "saf_addPacket (length ack) ack (al_frame al1) = (True, fr)"
    "saf_holds MSG_TYPE_SALOHA_CTRL (c @ [ack]) fr"
    using saf_addPacket_holds(1,2) [OF l(1) assms(2)] fit by (metis prod.collapse)
  have e: "al_send_ack spot ack al = (True, al1\<lparr>al_frame := fr\<rparr>)"
    using fr(1) assms(4) by (simp add: al_send_ack_def al1_def Let_def)
  obtain fs1 where f1: "al_complete al1 = pre @ fs1" "list_all2 (saf_holds MSG_TYPE_SALOHA_CTRL) cs fs1"
    using c by blast
  have "concat (cs @ [c @ [ack]]) = bs @ [ack]"
    using h(2) b(1) by (auto simp: cs_def c_def)
  moreover have "list_all2 (saf_holds MSG_TYPE_SALOHA_CTRL) (cs @ [c @ [ack]]) (fs1 @ [fr])"
    using f1(2) fr(2) by (simp add: list_all2_appendI)
  ultimately have "acks_in pre (al1\<lparr>al_frame := fr\<rparr>) (bs @ [ack])"
    unfolding acks_in_def using f1(1) by (intro exI [of _ fs1] exI [of _ "cs @ [c @ [ack]]"]) simp
  then show ?thesis using that e by (simp add: al1_def)
qed

section \<open>One accepted packet\<close>

lemma oldest_scan_category [simp]: "tc_category (oldest_scan q o' ps md tc) = tc_category tc"
  by (induction q o' ps md tc rule: oldest_scan.induct) (simp_all add: Let_def)

lemma findOldest_category [simp]: "tc_category (findOldest md q tc) = tc_category tc"
  by (simp add: findOldest_def Let_def case_prod_beta)

lemma handleOldest_category: "handleOldest md q i tc = Inr tc' \<Longrightarrow> tc_category tc' = tc_category tc"
  by (auto simp: handleOldest_def Let_def case_prod_beta split: if_splits option.splits)

lemma addPacket_category: "tcs_addPacket old md p tc = Inr (b, pdu, tc') \<Longrightarrow> tc_category tc' = tc_category tc"
  by (auto simp: tcs_addPacket_def Let_def res_bind_Inr dest!: handleOldest_category split: if_splits)

lemma burst_pdu_readable:
  assumes "\<forall>p \<in> set ps. readable p" "nb_limit b = 0"
  shows "burst_pdu hdl ps b = Inr (b\<lparr>nb_packets := nb_packets b @ concat (map (decap hdl) ps)\<rparr>)"
  using assms
proof (induction ps arbitrary: b)
  case (Cons p ps)
  obtain d where d: "sa_getPayload p = Inr d" using Cons.prems(1) by (auto simp: readable_def)
  then have "removeSalohaHeader hdl p = Inr (ph_build hdl d (sa_getPayloadLength p))"
    by (simp add: removeSalohaHeader_def)
  then show ?case
    using Cons d by (cases "ph_build hdl d (sa_getPayloadLength p)")
      (simp_all add: decap_def nb_add_def nb_isFull_def)
qed simp

text \<open>
  The terminals agree with the abstract memory; their old-age counters leave room for the packets
  to come; all that waits can be read.
\<close>

definition terms_ok :: "(tal_id_t, tcs) omap \<Rightarrow> nat \<Rightarrow> gw_mem \<Rightarrow> bool" where
  "terms_ok ts n m \<longleftrightarrow> (\<forall>t tc. om_find ts t = Some tc \<longrightarrow>
     tcs_wf tc \<and> waiting tc = m t \<and> unat (tc_old_count tc) \<le> n)"

definition mem_readable :: "gw_mem \<Rightarrow> bool" where
  "mem_readable m \<longleftrightarrow> (\<forall>t k. \<forall>p \<in> set (m t k). readable p)"

definition same_terms :: "(tal_id_t, tcs) omap \<Rightarrow> (tal_id_t, tcs) omap \<Rightarrow> bool" where
  "same_terms ts ts' \<longleftrightarrow> (\<forall>t. map_option tc_category (om_find ts' t) = map_option tc_category (om_find ts t))"

lemma served_same: "same_terms ts ts' \<Longrightarrow> served ts' label p = served ts label p"
  by (simp add: served_def same_terms_def)

lemma reasm_step_readable:
  assumes "\<And>k. \<forall>q \<in> set (m k). readable q" "readable p"
  shows "\<forall>q \<in> set (snd (reasm_step p m) k). readable q"
    and "fst (reasm_step p m) = Some l \<Longrightarrow> \<forall>q \<in> set l. readable q"
proof -
  have mk: "\<forall>q \<in> set (m (pdu_key p) @ [p]). readable q" using assms by simp
  show "\<forall>q \<in> set (snd (reasm_step p m) k). readable q"
    using mk assms(1) [of k] by (simp add: reasm_step_def Let_def)
  show "fst (reasm_step p m) = Some l \<Longrightarrow> \<forall>q \<in> set l. readable q"
    using mk by (auto simp: reasm_step_def Let_def split: if_splits)
qed

lemma mem_readableD: "mem_readable m \<Longrightarrow> \<forall>q \<in> set (m t k). readable q"
  unfolding mem_readable_def by blast

lemma mem_readable_step: "mem_readable m \<Longrightarrow> readable p \<Longrightarrow> mem_readable (gw_step p m)"
  using reasm_step_readable(1) [of "m (np_getSrcTalId p)" p] mem_readableD [of m]
  unfolding mem_readable_def gw_step_def fun_upd_apply by presburger

lemma gw_out_readable:
  assumes "mem_readable m" "readable p"
  shows "\<forall>q \<in> set (gw_out p m). readable q"
proof -
  have "\<forall>q \<in> set l. readable q" if "fst (reasm_step p (m (np_getSrcTalId p))) = Some l" for l
    by (rule reasm_step_readable(2) [OF _ assms(2) that]) (rule mem_readableD [OF assms(1)])
  then show ?thesis by (cases "fst (reasm_step p (m (np_getSrcTalId p)))") (simp_all add: gw_out_def)
qed

lemma ncc_accept_unserved:
  "\<not> served (al_terminals al) label p \<Longrightarrow> ncc_accept hdl old md spot label p al = Inr (al_free p al)"
  by (auto simp: served_def ncc_accept_def Let_def split: option.splits)

lemma ncc_accept_served:
  assumes s: "served (al_terminals al) label p" and t: "terms_ok (al_terminals al) n m" "n < 65535"
    and m: "mem_readable m" and p: "readable p" "unat (sa_getId p) < 65536"
    and a: "acks_in pre al bs" and b: "nb_limit (al_burst al) = 0"
  obtains al' where "ncc_accept hdl old md spot label p al = Inr al'"
    "terms_ok (al_terminals al') (n + 1) (gw_step p m)" "same_terms (al_terminals al) (al_terminals al')"
    "acks_in pre al' (bs @ [ack_of p])"
    "al_burst al' = (al_burst al)\<lparr>nb_packets := nb_packets (al_burst al) @ concat (map (decap hdl) (gw_out p m))\<rparr>"
    "al_freed al' = al_freed al @ map sp_addr (gw_out p m)"
proof -
  let ?t = "np_getSrcTalId p"
  obtain tc where tc: "om_find (al_terminals al) ?t = Some tc" "tc_category tc = label"
    using s by (auto simp: served_def)
  have bc: "\<not> BROADCAST_TAL_ID < ?t" using s by (auto simp: served_def)
  have wf: "tcs_wf tc" "waiting tc = m ?t" "unat (tc_old_count tc) < 65535"
    using t tc(1) by (fastforce simp: terms_ok_def)+
  obtain pr pdu tc' where ad: "tcs_addPacket (old (sp_addr p)) md p tc = Inr (pr, pdu, tc')"
    "same_pdu (fst (reasm_step p (waiting tc))) (pr, pdu)"
    "waiting tc' = snd (reasm_step p (waiting tc))" "tcs_wf tc'"
    "unat (tc_old_count tc') \<le> unat (tc_old_count tc) + 1"
    by (rule addPacket_simulates [OF wf(1) p(2) wf(3)])
  have pdu: "pdu = gw_out p m" "pr \<or> gw_out p m = []"
    using ad(2) wf(2) by (auto simp: gw_out_def same_pdu_def split: option.splits)
  note rd = gw_out_readable [OF m p(1)]
  note cp = ctrl_packet_fields [of "sa_getUniqueId p" SALOHA_CTRL_ACK ?t]
  have l: "length (sa_getUniqueId p) < 65531" using length_unique_id [of p] by simp
  have k: "ack_of p \<noteq> []" "length (ack_of p) \<le> 1199" "ctrl_getTotalLength (ack_of p) = length (ack_of p)"
    using cp(5) [OF l] cp(1) [OF l] length_unique_id [of p]
    by (auto simp: ack_of_def ctrl_getTotalLength_def ctrl_ok_def)
  obtain al1 where al1: "al_send_ack spot (ack_of p) al = (True, al1)" "acks_in pre al1 (bs @ [ack_of p])"
    "al_burst al1 = al_burst al" "al_terminals al1 = al_terminals al" "al_freed al1 = al_freed al"
    using al_send_ack_ok [OF a k] by blast
  define al2 where "al2 = al1\<lparr>al_terminals := om_put ?t tc' (al_terminals al1),
    al_burst := (al_burst al)\<lparr>nb_packets := nb_packets (al_burst al) @ concat (map (decap hdl) (gw_out p m))\<rparr>,
    al_freed := al_freed al @ map sp_addr (gw_out p m)\<rparr>"
  have "ncc_accept hdl old md spot label p al = Inr al2"
  proof (cases pr)
    case True
    then show ?thesis
      using al1 ad(1) pdu(1) bc tc burst_pdu_readable [OF rd b, of hdl]
      by (simp add: ncc_accept_def Let_def al2_def ack_of_def)
  next
    case False
    then have "gw_out p m = []" using pdu(2) by simp
    then show ?thesis
      using False al1 ad(1) bc tc by (simp add: ncc_accept_def Let_def al2_def ack_of_def)
  qed
  moreover have "terms_ok (al_terminals al2) (n + 1) (gw_step p m)"
    using t(1) ad wf(2) tc(1) al1(4)
    by (fastforce simp: terms_ok_def al2_def gw_step_def split: if_splits)
  moreover have "same_terms (al_terminals al) (al_terminals al2)"
    using tc(1) al1(4) addPacket_category [OF ad(1)] by (simp add: same_terms_def al2_def)
  moreover have "acks_in pre al2 (bs @ [ack_of p])"
    using al1(2) by (simp add: acks_in_def al2_def)
  ultimately show ?thesis using that by (simp add: al2_def)
qed

section \<open>All of them\<close>

lemma same_terms_refl [simp]: "same_terms ts ts"
  by (simp add: same_terms_def)

lemma same_terms_trans: "same_terms a b \<Longrightarrow> same_terms b c \<Longrightarrow> same_terms a c"
  by (simp add: same_terms_def)

lemma served_cong: "same_terms ts ts' \<Longrightarrow> served ts' label = served ts label"
  by (simp add: fun_eq_iff served_same)

lemma ncc_accept_loop:
  assumes "terms_ok (al_terminals al) n m" "n + length ps \<le> 65535" "mem_readable m"
    and "\<And>p. p \<in> set ps \<Longrightarrow> served (al_terminals al) label p \<Longrightarrow> readable p \<and> unat (sa_getId p) < 65536"
    and "acks_in pre al bs" "nb_limit (al_burst al) = 0"
  shows "\<exists>al'. res_fold (ncc_accept hdl old md spot label) ps al = Inr al'
    \<and> acks_in pre al' (bs @ map ack_of (filter (served (al_terminals al) label) ps))
    \<and> al_burst al' = (al_burst al)\<lparr>nb_packets := nb_packets (al_burst al)
        @ concat (map (decap hdl) (fst (gw_run (filter (served (al_terminals al) label) ps) m)))\<rparr>
    \<and> terms_ok (al_terminals al') (n + length ps) (snd (gw_run (filter (served (al_terminals al) label) ps) m))
    \<and> same_terms (al_terminals al) (al_terminals al')
    \<and> mset (al_freed al') = mset (al_freed al)
        + mset (map sp_addr (filter (\<lambda>p. \<not> served (al_terminals al) label p) ps))
        + mset (map sp_addr (fst (gw_run (filter (served (al_terminals al) label) ps) m)))"
  using assms
proof (induction ps arbitrary: al n m bs)
  case Nil
  then show ?case by simp
next
  case (Cons p ps)
  let ?S = "served (al_terminals al) label"
  show ?case
  proof (cases "?S p")
    case False
    have f: "ncc_accept hdl old md spot label p al = Inr (al_free p al)"
      using False by (rule ncc_accept_unserved)
    have "\<exists>al'. res_fold (ncc_accept hdl old md spot label) ps (al_free p al) = Inr al'
      \<and> acks_in pre al' (bs @ map ack_of (filter ?S ps))
      \<and> al_burst al' = (al_burst al)\<lparr>nb_packets := nb_packets (al_burst al)
          @ concat (map (decap hdl) (fst (gw_run (filter ?S ps) m)))\<rparr>
      \<and> terms_ok (al_terminals al') (Suc n + length ps) (snd (gw_run (filter ?S ps) m))
      \<and> same_terms (al_terminals al) (al_terminals al')
      \<and> mset (al_freed al') = mset (al_freed al @ [sp_addr p])
          + mset (map sp_addr (filter (\<lambda>p. \<not> ?S p) ps))
          + mset (map sp_addr (fst (gw_run (filter ?S ps) m)))"
      using Cons.IH [of "al_free p al" "Suc n" m bs] Cons.prems
      by (simp add: al_free_def acks_in_def terms_ok_def le_SucI)
    then show ?thesis using f False by auto
  next
    case True
    have p: "readable p" "unat (sa_getId p) < 65536" using Cons.prems(4) [of p] True by simp_all
    have n: "n < 65535" using Cons.prems(2) by simp
    obtain al1 where a: "ncc_accept hdl old md spot label p al = Inr al1"
      "terms_ok (al_terminals al1) (n + 1) (gw_step p m)" "same_terms (al_terminals al) (al_terminals al1)"
      "acks_in pre al1 (bs @ [ack_of p])"
      "al_burst al1 = (al_burst al)\<lparr>nb_packets := nb_packets (al_burst al) @ concat (map (decap hdl) (gw_out p m))\<rparr>"
      "al_freed al1 = al_freed al @ map sp_addr (gw_out p m)"
      by (rule ncc_accept_served [OF True Cons.prems(1) n Cons.prems(3) p Cons.prems(5,6)])
    have S: "served (al_terminals al1) label = ?S" using a(3) by (rule served_cong)
    obtain al2 where b: "res_fold (ncc_accept hdl old md spot label) ps al1 = Inr al2"
      "acks_in pre al2 ((bs @ [ack_of p]) @ map ack_of (filter ?S ps))"
      "al_burst al2 = (al_burst al1)\<lparr>nb_packets := nb_packets (al_burst al1)
          @ concat (map (decap hdl) (fst (gw_run (filter ?S ps) (gw_step p m))))\<rparr>"
      "terms_ok (al_terminals al2) (n + 1 + length ps) (snd (gw_run (filter ?S ps) (gw_step p m)))"
      "same_terms (al_terminals al1) (al_terminals al2)"
      "mset (al_freed al2) = mset (al_freed al1) + mset (map sp_addr (filter (\<lambda>p. \<not> ?S p) ps))
        + mset (map sp_addr (fst (gw_run (filter ?S ps) (gw_step p m))))"
      using Cons.IH [OF a(2) _ mem_readable_step [OF Cons.prems(3) p(1)] _ a(4)] Cons.prems(2,4,6) a(5) S
      by auto
    have g: "gw_run (p # filter ?S ps) m
      = (gw_out p m @ fst (gw_run (filter ?S ps) (gw_step p m)), snd (gw_run (filter ?S ps) (gw_step p m)))"
      by (simp add: case_prod_beta)
    show ?thesis
      using a b True same_terms_trans [OF a(3) b(5)] by (intro exI [of _ al2]) (simp add: g del: gw_run.simps)
  qed
qed

section \<open>The schedule of a category\<close>

text \<open>What a terminal reads in the frames of a list, whatever trailers follow them.\<close>

definition reads_as :: "dvb_frame list \<Rightarrow> data list \<Rightarrow> bool" where
  "reads_as fs bs \<longleftrightarrow> (\<exists>bss. concat bss = bs
     \<and> list_all2 (\<lambda>f b. \<forall>phy. receive_all ctrl_getPacketLength (df_data f @ phy) = Inr b) fs bss)"

lemma acks_in_reads:
  assumes a: "acks_in pre al bs" and ok: "\<And>b. b \<in> set bs \<Longrightarrow> ctrl_ok b"
  shows "\<exists>fs. al_complete al @ (if saf_getDataLength (al_frame al) \<noteq> 0 then [al_frame al] else []) = pre @ fs
    \<and> reads_as fs bs"
proof -
  obtain fs bss where h: "al_complete al = pre @ fs" "concat bss = bs"
    "list_all2 (saf_holds MSG_TYPE_SALOHA_CTRL) bss (fs @ [al_frame al])"
    using a by (auto simp: acks_in_def)
  obtain bss1 b where b: "bss = bss1 @ [b]" "list_all2 (saf_holds MSG_TYPE_SALOHA_CTRL) bss1 fs"
    "saf_holds MSG_TYPE_SALOHA_CTRL b (al_frame al)"
    using h(3) by (auto simp: list_all2_append2 list_all2_Cons2)
  have rd: "receive_all ctrl_getPacketLength (df_data f @ phy) = Inr c"
    if "saf_holds MSG_TYPE_SALOHA_CTRL c f" "set c \<subseteq> set bs" for f c phy
    using ctrl_framed.receive_all_holds [OF that(1)] ok that(2) by blast
  have sub: "\<forall>c \<in> set bss1. set c \<subseteq> set bs" "set b \<subseteq> set bs" using h(2) b(1) by auto
  have r1: "list_all2 (\<lambda>f b. \<forall>phy. receive_all ctrl_getPacketLength (df_data f @ phy) = Inr b) fs bss1"
    using b(2) sub(1) rd by (auto simp: list_all2_conv_all_nth)
  show ?thesis
  proof (cases "b = []")
    case True
    then have "saf_getDataLength (al_frame al) = 0" using saf_getDataLength_holds [OF b(3)] by simp
    then show ?thesis
      using h(1,2) b(1) r1 True by (intro exI [of _ fs]) (auto simp: reads_as_def)
  next
    case False
    have "unat (saf_getDataLength (al_frame al)) = length b"
      using saf_getDataLength_holds [OF b(3)] saf_count [OF b(3)] by simp
    then have "saf_getDataLength (al_frame al) \<noteq> 0" using False by auto
    moreover have "reads_as (fs @ [al_frame al]) bs"
      unfolding reads_as_def using h(2) b(1) r1 rd [OF b(3) sub(2)]
      by (intro exI [of _ "bss1 @ [b]"]) (simp add: list_all2_appendI)
    ultimately show ?thesis using h(1) by (intro exI [of _ "fs @ [al_frame al]"]) simp
  qed
qed

lemma ack_of_ok: "ctrl_ok (ack_of p)"
  using ctrl_packet_fields(1) [of "sa_getUniqueId p"] length_unique_id [of p] by (simp add: ack_of_def)

lemma ncc_simulations_none:
  "\<forall>si \<in> set sis. si_category si \<noteq> label \<Longrightarrow> ncc_simulations fuel junk sis label st = Inr st"
  by (induction sis) simp_all

text \<open>
  C5: The gateway's schedule of a category refines the abstract gateway, as long as no counter or identifier leaves its
  range. Whatever order \<open>sort\<close> leaves, a terminal reads in the new frames one acknowledgement for each accepted
  packet of a terminal registered in the category, in that order and nothing else; the burst holds
  what the plugin makes of the PDUs that one reassembly machine per terminal completes, in that
  order; the category has nothing accepted left and its counter is 0; no call faults. Conditions: the category
  exists, has received packets, has carriers and slots and no simulated traffic, and an algorithm is configured;
  \<open>sort\<close> keeps the elements; each terminal's reassembly state is one of the abstract machine (\<open>terms_ok\<close>), with its
  counter of completed PDUs (\<open>old_count\<close>) at most \<open>n\<close>, and \<open>n\<close> plus the packets accepted is at most 65535 (a later
  \<open>find\<close> may meet \<open>end()\<close> past that); the PDU identifiers of the accepted packets are below 65536 (those above are
  misread by \<open>convertPacketId\<close>); and the payloads of the packets accepted or waiting can be read, \<open>substr\<close> not throwing.
\<close>

theorem schedule_category_refines:
  fixes st :: "'r ncc"
  assumes "om_find (nc_categories st) label = Some ct" "ct_received ct \<noteq> 0" "nc_algo st = Some k"
    and "\<forall>si \<in> set (nc_simu st). si_category si \<noteq> label"
    and "ct_getCarriersNumber ct \<noteq> 0" "ct_getSlotsNumber ct \<noteq> 0"
    and "algo_removeCollisions k (ct_slots_view ct) (ct_accepted ct) = (sl, acc, fr, nbr)"
    and "set (srt acc) = set acc" "n + length (srt acc) \<le> 65535"
    and "terms_ok (nc_terminals st) n m" "mem_readable m"
    and "\<forall>p \<in> set acc. readable p \<and> unat (sa_getId p) < 65536"
  shows "\<exists>b fs st' ct'. ncc_scheduleCategory hdl srt old md fuel junk label (burst, complete, st)
        = Inr (Some b, complete @ fs, st')
    \<and> reads_as fs (map ack_of (filter (served (nc_terminals st) label) (srt acc)))
    \<and> nb_packets b
      = concat (map (decap hdl) (fst (gw_run (filter (served (nc_terminals st) label) (srt acc)) m)))
    \<and> terms_ok (nc_terminals st') (n + length (srt acc))
        (snd (gw_run (filter (served (nc_terminals st) label) (srt acc)) m))
    \<and> om_find (nc_categories st') label = Some ct' \<and> ct_accepted ct' = [] \<and> ct_received ct' = 0"
proof -
  define ct1 where "ct1 = (ct_put_slots sl (ct_resetReceivedPacketsNbr ct))\<lparr>ct_accepted := srt acc\<rparr>"
  define al where "al = \<lparr>al_complete = complete, al_frame = df_setSpot (nc_spot st) new_saf_ctrl,
    al_burst = new_net_burst 0, al_terminals = nc_terminals st, al_freed = nc_freed st @ fr\<rparr>"
  have v: "ct_slots_view (ct_resetReceivedPacketsNbr ct) = ct_slots_view ct"
    "ct_getCarriersNumber (ct_resetReceivedPacketsNbr ct) = ct_getCarriersNumber ct"
    "ct_getSlotsNumber (ct_resetReceivedPacketsNbr ct) = ct_getSlotsNumber ct"
    "ct_accepted (ct_resetReceivedPacketsNbr ct) = ct_accepted ct"
    by (simp_all add: ct_resetReceivedPacketsNbr_def ct_slots_view_def ct_getSlots_def
        ct_getCarriersNumber_def ct_getSlotsNumber_def)
  have rc: "ncc_removeCollisions srt k (ct_resetReceivedPacketsNbr ct) = Inr (ct1, fr, nbr)"
    using assms(5-7) by (simp add: ncc_removeCollisions_def v ct1_def)
  have "acks_in complete al []"
    using new_saf_holds(3) by (auto simp: acks_in_def al_def intro!: exI [of _ "[[]]"])
  then obtain al' where l: "res_fold (ncc_accept hdl old md (nc_spot st) label) (srt acc) al = Inr al'"
    "acks_in complete al' ([] @ map ack_of (filter (served (nc_terminals st) label) (srt acc)))"
    "al_burst al' = (al_burst al)\<lparr>nb_packets := nb_packets (al_burst al)
        @ concat (map (decap hdl) (fst (gw_run (filter (served (nc_terminals st) label) (srt acc)) m)))\<rparr>"
    "terms_ok (al_terminals al') (n + length (srt acc))
      (snd (gw_run (filter (served (nc_terminals st) label) (srt acc)) m))"
    using ncc_accept_loop [of al n m "srt acc" label complete "[]" hdl old md "nc_spot st"] assms(8-12)
    by (auto simp: al_def new_net_burst_def)
  obtain fs where fs: "al_complete al' @ (if saf_getDataLength (al_frame al') \<noteq> 0 then [al_frame al'] else [])
      = complete @ fs" "reads_as fs (map ack_of (filter (served (nc_terminals st) label) (srt acc)))"
    using acks_in_reads [OF l(2)] ack_of_ok by auto
  define st' where "st' = st\<lparr>nc_categories := om_put label (ct1\<lparr>ct_accepted := []\<rparr>) (nc_categories st),
    nc_terminals := al_terminals al', nc_freed := al_freed al'\<rparr>"
  have ac: "ct_accepted ct1 = srt acc" by (simp add: ct1_def)
  have "ncc_scheduleCategory hdl srt old md fuel junk label (burst, complete, st)
      = Inr (Some (al_burst al'), complete @ fs, st')"
    using assms(1-3) ncc_simulations_none [OF assms(4), of fuel junk st] rc l(1) fs(1)
    by (simp add: ncc_scheduleCategory_def al_def [symmetric] st'_def ac)
  moreover have "nb_packets (al_burst al')
      = concat (map (decap hdl) (fst (gw_run (filter (served (nc_terminals st) label) (srt acc)) m)))"
    using l(3) by (simp add: al_def new_net_burst_def)
  ultimately show ?thesis
    using fs(2) l(4)
    by (intro exI [of _ "al_burst al'"] exI [of _ fs] exI [of _ st'] exI [of _ "ct1\<lparr>ct_accepted := []\<rparr>"])
      (simp add: st'_def ct1_def ct_put_slots_def ct_resetReceivedPacketsNbr_def)
qed

text \<open>A plugin that reads terminal 0 and QoS 2 everywhere and keeps the payload as the packet.\<close>

definition demo_hdl :: pkt_hdl where
  "demo_hdl = \<lparr>ph_getSrc = (\<lambda>d. 0), ph_getQos = (\<lambda>d. 2),
     ph_build = (\<lambda>d n. Some (new_net_packet_len d n))\<rparr>"

text \<open>A gateway with one category of one slot, a packet of terminal 0 on it.\<close>

definition demo_ncc :: "nat ncc" where
  "demo_ncc = \<lparr>nc_sf_per_saframe = 1,
     nc_categories = [(''Standard'', (new_category ''Standard'' 4)
       \<lparr>ct_groups := [(new_carriers_group 1 1 0 4)\<lparr>cg_carriers_number := 1,
            cg_slots := [(0, (new_slot 1 0)\<lparr>sl_packets := [fragment 7 5 0 1]\<rparr>)]\<rparr>],
        ct_terminals := [0], ct_received := 1\<rparr>)],
     nc_affectation = [], nc_default = Some ''Standard'', nc_spot = 1,
     nc_terminals = [(0, tc_setCurrentCategory ''Standard'' (new_tcs 0))],
     nc_algo = Some Dsa, nc_simu = [], nc_rand = sconst 0, nc_next = 8, nc_freed = []\<rparr>"

lemma fragment_src [simp]: "np_getSrcTalId (fragment a pid seq n) = 0"
  by (simp add: fragment_def sa_of_data_def np_getSrcTalId_def new_net_packet_len_def
      new_net_packet_def net_packet.defs)

lemma fragment_readable [simp]: "readable (fragment a pid seq n)"
proof -
  have "np_data (fragment a pid seq n) = sa_hdr 2 pid 0 seq n 0 15 @ []"
    by (simp add: fragment_def sa_of_data_def new_net_packet_len_def new_net_packet_def
        net_packet.defs sa_packet.defs)
  then show ?thesis
    by (simp add: readable_def sa_getPayload_def substr_def sa_getReplicasLength_def saloha_hdr_len_def
        sa_getNbReplicas_def sa_hdr_fields(4) [of _ _ _ _ _ _ _ "[]", simplified])
qed

theorem schedule_category_refines_witness:
  "\<exists>b fs st'. ncc_scheduleCategory demo_hdl id (\<lambda>_. [0, 0, 0, 0]) 0 9 0 ''Standard'' (None, [], demo_ncc)
      = Inr (Some b, fs, st')
    \<and> reads_as fs [ack_of (fragment 7 5 0 1)] \<and> nb_packets b = decap demo_hdl (fragment 7 5 0 1)"
proof -
  obtain ct where ct: "om_find (nc_categories demo_ncc) ''Standard'' = Some ct"
    "ct_received ct = 1" "ct_accepted ct = []" "ct_getCarriersNumber ct = 1" "ct_getSlotsNumber ct = 1"
    "ct_slots_view ct = [(0, [fragment 7 5 0 1])]"
    by (simp add: demo_ncc_def new_category_def ct_getCarriersNumber_def new_carriers_group_def
        ct_getSlotsNumber_def cg_getSlotsNumber_def ct_slots_view_def ct_getSlots_def)
  have d: "algo_removeCollisions Dsa (ct_slots_view ct) (ct_accepted ct)
      = ([(0, [])], [fragment 7 5 0 1], [], 0)"
    by (simp add: ct dsa_removeCollisions_def ds_init_def id_known_def
        ds_accept_def clear_slots_def)
  have s: "filter (served (nc_terminals demo_ncc) ''Standard'') [fragment 7 5 0 1] = [fragment 7 5 0 1]"
    by (simp add: served_def demo_ncc_def tc_setCurrentCategory_def BROADCAST_TAL_ID_def)
  have t: "terms_ok (nc_terminals demo_ncc) 0 (\<lambda>_ _. [])"
    using new_tcs_wf [of 0] by (simp add: terms_ok_def demo_ncc_def tc_setCurrentCategory_def
        tcs_wf_def waiting_def new_tcs_def fun_eq_iff)
  have g: "fst (gw_run [fragment 7 5 0 1] (\<lambda>_ _. [])) = [fragment 7 5 0 1]"
    by (simp add: gw_out_def reasm_step_def case_prod_beta)
  have m: "mem_readable (\<lambda>_ _. [])" "nc_algo demo_ncc = Some Dsa" "nc_simu demo_ncc = []"
    by (simp_all add: mem_readable_def demo_ncc_def)
  show ?thesis
    using schedule_category_refines [OF ct(1) _ m(2) _ _ _ d, of id 0 "\<lambda>_ _. []" demo_hdl "\<lambda>_. [0, 0, 0, 0]" 0 9 0 None "[]"]
      t m ct s g by fastforce
qed

end
