(* ===== verification/SalohaNccRcv.thy ===== *)
theory SalohaNccRcv
  imports SalohaNccSpec
begin

text \<open>
  The other side of the gateway: the frames received, the registration of terminals, and the
  invariant \<open>ncc_wf\<close> that both keep.
\<close>

section \<open>The invariant\<close>

definition ncc_wf :: "'r ncc \<Rightarrow> bool" where
  "ncc_wf st \<longleftrightarrow> om_wf (nc_categories st) \<and> om_wf (nc_terminals st)
     \<and> (\<forall>t tc. om_find (nc_terminals st) t = Some tc \<longrightarrow> tc_tal_id tc = t \<and> t < BROADCAST_TAL_ID
          \<and> (\<exists>ct. om_find (nc_categories st) (tc_category tc) = Some ct \<and> t \<in> set (ct_terminals ct)))"

definition ct_pkts :: "'r category \<Rightarrow> sa_packet list" where
  "ct_pkts ct = concat (map snd (ct_slots_view ct))"

definition ncc_stored :: "'r ncc \<Rightarrow> sa_packet list" where
  "ncc_stored st = concat (map (\<lambda>x. ct_pkts (snd x)) (nc_categories st))"

lemma ncc_stored_put:
  fixes cs :: "(string, 'r category) omap"
  assumes "om_wf cs" "om_find cs l = Some ct"
  shows "mset (concat (map (\<lambda>x. ct_pkts (snd x)) (om_put l ct' cs))) + mset (ct_pkts ct)
    = mset (concat (map (\<lambda>x. ct_pkts (snd x)) cs)) + mset (ct_pkts ct')"
proof -
  let ?f = "\<lambda>(k, v). (k, ct_pkts v)"
  have e: "map (\<lambda>x. ct_pkts (snd x)) m = map snd (map ?f m)" for m :: "(string, 'r category) omap"
    by (simp add: case_prod_beta)
  show ?thesis
    using om_put_values [of "map ?f cs" l "ct_pkts ct'"] assms
    unfolding e [of "om_put l ct' cs"] e [of cs] om_put_map by (simp add: om_find_map del: map_map)
qed

lemma ncc_wf_put:
  assumes "ncc_wf st" "om_find (nc_categories st) l = Some ct" "set (ct_terminals ct) \<subseteq> set (ct_terminals ct')"
  shows "ncc_wf (st\<lparr>nc_categories := om_put l ct' (nc_categories st)\<rparr>)"
proof -
  have "\<exists>c. om_find (om_put l ct' (nc_categories st)) (tc_category tc) = Some c \<and> t \<in> set (ct_terminals c)"
    if "om_find (nc_terminals st) t = Some tc" for t tc
  proof (cases "tc_category tc = l")
    case True
    then have "t \<in> set (ct_terminals ct)" using assms(1,2) that by (fastforce simp: ncc_wf_def)
    then show ?thesis using assms(3) True by auto
  next
    case False
    then show ?thesis using assms(1) that by (fastforce simp: ncc_wf_def)
  qed
  then show ?thesis using assms(1) by (simp add: ncc_wf_def)
qed

lemma ncc_wf_other [simp]:
  "ncc_wf (st\<lparr>nc_next := a\<rparr>) = ncc_wf st"
  "ncc_wf (st\<lparr>nc_freed := fr\<rparr>) = ncc_wf st"
  by (simp_all add: ncc_wf_def)


lemma ct_pkts_received [simp]: "ct_pkts (ct_increaseReceivedPacketsNbr ct) = ct_pkts ct"
  by (simp add: ct_pkts_def ct_slots_view_def ct_getSlots_def ct_increaseReceivedPacketsNbr_def)

section \<open>Reception\<close>










lemma demo_ncc_wf: "ncc_wf demo_ncc"
  by (simp add: ncc_wf_def demo_ncc_def om_wf_Cons tc_setCurrentCategory_def new_tcs_def
      BROADCAST_TAL_ID_def)


section \<open>Registration\<close>

text \<open>The category a terminal is meant for.\<close>

definition ncc_target :: "tal_id_t \<Rightarrow> 'r ncc \<Rightarrow> string option" where
  "ncc_target t st = (case om_find (nc_affectation st) t of None \<Rightarrow> nc_default st | Some l \<Rightarrow> l)"

lemma ncc_addTerminal_cases:
  "(om_find (nc_terminals st) t = None \<and> t < BROADCAST_TAL_ID \<and> (\<exists>l ct. ncc_target t st = Some l
      \<and> om_find (nc_categories st) l = Some ct
      \<and> ncc_addTerminal t st = (True, st\<lparr>nc_terminals := om_put t (tc_setCurrentCategory l (new_tcs t)) (nc_terminals st),
           nc_categories := om_put l (ct_addTerminal t ct) (nc_categories st)\<rparr>)))
   \<or> (snd (ncc_addTerminal t st) = st
      \<and> \<not> (om_find (nc_terminals st) t = None \<and> t < BROADCAST_TAL_ID
            \<and> (\<exists>l. ncc_target t st = Some l \<and> om_find (nc_categories st) l \<noteq> None)))"
  by (auto simp: ncc_addTerminal_def ncc_target_def Let_def split: option.splits)

lemma ct_pkts_addTerminal [simp]: "ct_pkts (ct_addTerminal t ct) = ct_pkts ct"
  by (simp add: ct_pkts_def ct_slots_view_def ct_getSlots_def ct_addTerminal_def)

text \<open>Registration of a terminal: the invariant of the gateway holds again and no packet stored moves.
  A terminal that is new, not simulated and meant for a Slotted Aloha category is registered there,
  once, with an empty memory; any other request, a second one of a terminal included, changes
  nothing; the other terminals keep their context.
\<close>

theorem add_terminal_registers:
  fixes st :: "'r ncc"
  assumes "ncc_wf st"
  shows "ncc_wf (snd (ncc_addTerminal t st))
    \<and> mset (ncc_stored (snd (ncc_addTerminal t st))) = mset (ncc_stored st)
    \<and> (if om_find (nc_terminals st) t = None \<and> t < BROADCAST_TAL_ID
          \<and> (\<exists>l. ncc_target t st = Some l \<and> om_find (nc_categories st) l \<noteq> None)
       then nc_terminals (snd (ncc_addTerminal t st))
          = om_put t (tc_setCurrentCategory (the (ncc_target t st)) (new_tcs t)) (nc_terminals st)
       else snd (ncc_addTerminal t st) = st)
    \<and> (t < BROADCAST_TAL_ID \<and> om_find (nc_terminals (snd (ncc_addTerminal t st))) t \<noteq> None
       \<longrightarrow> ncc_addTerminal t (snd (ncc_addTerminal t st)) = (True, snd (ncc_addTerminal t st)))"
proof -
  have again: "om_find (nc_terminals s) t \<noteq> None \<Longrightarrow> ncc_addTerminal t s = (True, s)" for s :: "'r ncc"
    by (simp add: ncc_addTerminal_def)
  show ?thesis
    using ncc_addTerminal_cases [of st t]
  proof (elim disjE conjE exE)
    fix l ct
    assume new: "om_find (nc_terminals st) t = None" "t < BROADCAST_TAL_ID" "ncc_target t st = Some l"
      "om_find (nc_categories st) l = Some ct"
      "ncc_addTerminal t st = (True, st\<lparr>nc_terminals := om_put t (tc_setCurrentCategory l (new_tcs t)) (nc_terminals st),
           nc_categories := om_put l (ct_addTerminal t ct) (nc_categories st)\<rparr>)"
    let ?s1 = "st\<lparr>nc_categories := om_put l (ct_addTerminal t ct) (nc_categories st)\<rparr>"
    let ?s = "st\<lparr>nc_terminals := om_put t (tc_setCurrentCategory l (new_tcs t)) (nc_terminals st),
           nc_categories := om_put l (ct_addTerminal t ct) (nc_categories st)\<rparr>"
    have w1: "ncc_wf ?s1"
      using ncc_wf_put [OF assms new(4), of "ct_addTerminal t ct"] by (auto simp: ct_addTerminal_def)
    have "ncc_wf ?s"
      using w1 new(2) by (auto simp: ncc_wf_def tc_setCurrentCategory_def new_tcs_def ct_addTerminal_def)
    moreover have "mset (ncc_stored ?s) = mset (ncc_stored st)"
      using ncc_stored_put [OF _ new(4), of "ct_addTerminal t ct"] assms
      by (simp add: ncc_stored_def ncc_wf_def)
    ultimately show ?thesis using new again [of ?s] by simp
  qed (use assms again [of st] in auto)
qed

theorem add_terminal_registers_witness:
  "nc_terminals (snd (ncc_addTerminal 3 demo_ncc))
    = om_put 3 (tc_setCurrentCategory ''Standard'' (new_tcs 3)) (nc_terminals demo_ncc)"
  using add_terminal_registers [OF demo_ncc_wf, of 3]
  by (simp add: demo_ncc_def ncc_target_def BROADCAST_TAL_ID_def)

section \<open>The burst of several categories\<close>

text \<open>A category with traffic builds a new burst: what an earlier category put into the caller's is lost.\<close>

lemma schedule_overwrites_burst:
  assumes "om_find (nc_categories st) label = Some ct" "ct_received ct \<noteq> 0"
  shows "ncc_scheduleCategory hdl srt old md fuel junk label (burst, complete, st)
    = ncc_scheduleCategory hdl srt old md fuel junk label (None, complete, st)"
  using assms by (simp add: ncc_scheduleCategory_def)

end
