(* ===== verification/EncapPlugin.thy ===== *)
theory EncapPlugin
  imports NetBurst StdMap
begin

text \<open>
  What the encapsulation plugins share: \<open>common/EncapPlugin.cpp\<close>, the part of a packet that fits
  what a frame has left (\<open>encapNextPacket\<close>) and the cutting of a frame's payload into packets
  (\<open>getEncapsulatedPackets\<close>). The virtual functions of a packet handler are the record \<open>encap_hdl\<close>.
  The locale \<open>self_delimiting\<close> is the contract a format keeps when its packets tell their length.
\<close>

text \<open>The recursion of a loop may depend on what its body returned.\<close>

lemma res_bind_cong [fundef_cong]:
  "r = r' \<Longrightarrow> (\<And>x. r' = Inr x \<Longrightarrow> f x = g x) \<Longrightarrow> res_bind r f = res_bind r' g"
  by (simp add: res_bind_def split: sum.splits)

definition NET_PROTO_ATM :: u16 where "NET_PROTO_ATM = 0x0601"
definition NET_PROTO_AAL5 :: u16 where "NET_PROTO_AAL5 = 0x0602"
definition NET_PROTO_MPEG :: u16 where "NET_PROTO_MPEG = 0x0603"
definition NET_PROTO_ULE :: u16 where "NET_PROTO_ULE = 0x0604"

section \<open>The interface of a packet handler\<close>

text \<open>
  \<open>getLength\<close> reads what a pointer leads to: the bytes from there on. \<open>build\<close> has the data, its
  length, the QoS, the source and the destination.
\<close>

record encap_hdl =
  eh_min :: nat                                        \<comment> \<open>\<open>getMinLength\<close>\<close>
  eh_length :: "data \<Rightarrow> nat"                          \<comment> \<open>\<open>getLength\<close>\<close>
  eh_build :: "data \<Rightarrow> nat \<Rightarrow> u8 \<Rightarrow> u8 \<Rightarrow> u8 \<Rightarrow> net_packet option"  \<comment> \<open>\<open>build\<close>\<close>

text \<open>\<open>getChunk\<close>: \<open>None\<close> when it returns false, else the chunk and the rest, each maybe null.\<close>

type_synonym get_chunk = "net_packet \<Rightarrow> nat \<Rightarrow> (net_packet option \<times> net_packet option) option"

definition BROADCAST_TAL_ID8 :: u8 where "BROADCAST_TAL_ID8 = 0x1F"

section \<open>Chunks\<close>

text \<open>
  \<open>encap_packets\<close> maps the address of a packet to what remains of it. The result: the value
  returned, \<open>partial_encap\<close>, \<open>*encap_packet\<close> and the map.
\<close>

definition encapNextPacket ::
    "get_chunk \<Rightarrow> addr \<Rightarrow> net_packet \<Rightarrow> nat \<Rightarrow> (addr, net_packet) omap
      \<Rightarrow> bool \<times> bool \<times> net_packet option \<times> (addr, net_packet) omap" where
  "encapNextPacket chunk a packet remaining_length pkts =
     (let it = om_find pkts a;
          packet_to_encap = (case it of None \<Rightarrow> packet | Some q \<Rightarrow> q)
      in case chunk packet_to_encap remaining_length of
           None \<Rightarrow> (False, False, None, pkts)
         | Some (None, None) \<Rightarrow> (False, False, None, pkts)
         | Some (d, Some rest) \<Rightarrow> (True, True, d, om_put a rest pkts)
         | Some (d, None) \<Rightarrow> (True, False, d, if it = None then pkts else om_erase a pkts))"

section \<open>Cutting a payload into packets\<close>

text \<open>The loop of \<open>getEncapsulatedPackets\<close>; \<open>None\<close> is the exit through \<open>destroy_packets\<close>.\<close>

fun cut_packets ::
    "encap_hdl \<Rightarrow> (nat \<Rightarrow> data res) \<Rightarrow> nat \<Rightarrow> nat \<Rightarrow> net_packet list \<Rightarrow> net_packet list option res" where
  "cut_packets h getPayload 0 previous_length packets = Inr (Some packets)"
| "cut_packets h getPayload (Suc n) previous_length packets =
     res_bind (getPayload previous_length) (\<lambda>payload.
       let current_length = eh_length h payload
       in if current_length \<le> 0 then Inr None
          else case eh_build h payload current_length 0 BROADCAST_TAL_ID8 BROADCAST_TAL_ID8 of
                 None \<Rightarrow> Inr None
               | Some p \<Rightarrow> cut_packets h getPayload n (previous_length + current_length) (packets @ [p]))"

text \<open>The value returned and \<open>decap_packets\<close>, which keeps its content (\<open>old\<close>) on failure.\<close>

definition getEncapsulatedPackets ::
    "encap_hdl \<Rightarrow> (nat \<Rightarrow> data res) \<Rightarrow> nat \<Rightarrow> net_packet list \<Rightarrow> (bool \<times> net_packet list) res" where
  "getEncapsulatedPackets h getPayload decap_packets_count old =
     (if decap_packets_count \<le> 0 then Inr (True, [])
      else res_bind (cut_packets h getPayload decap_packets_count 0 []) (\<lambda>r.
        Inr (case r of None \<Rightarrow> (False, old) | Some ps \<Rightarrow> (True, ps))))"

text \<open>A layer above that keeps the identifiers it is given.\<close>

definition keeps_ids :: "encap_hdl \<Rightarrow> bool" where
  "keeps_ids up \<longleftrightarrow> (\<forall>d n qos src dst q. eh_build up d n qos src dst = Some q
     \<longrightarrow> np_qos q = qos \<and> np_src_tal_id q = src \<and> np_dst_tal_id q = dst)"

section \<open>Self-delimiting formats\<close>

text \<open>
  \<open>ok\<close> are the packets of the format: the length can be read in front of whatever follows, and a
  packet is not shorter than the minimum that the carrier of the format relies on.
\<close>

locale self_delimiting =
  fixes h :: encap_hdl and ok :: "data \<Rightarrow> bool"
  assumes len: "ok p \<Longrightarrow> p @ r = q \<Longrightarrow> eh_length h q = length p"
    and pos: "ok p \<Longrightarrow> 0 < length p"
begin

lemma cut_concat:
  assumes "\<forall>p \<in> set ps. ok p"
    and "\<And>p r. ok p \<Longrightarrow> eh_build h (p @ r) (length p) 0 BROADCAST_TAL_ID8 BROADCAST_TAL_ID8 = Some (mk p)"
    and "\<And>pos. pos \<le> length (pre @ concat ps) \<Longrightarrow> getPayload pos = Inr (drop pos (pre @ concat ps @ tr))"
  shows "cut_packets h getPayload (length ps) (length pre) out = Inr (Some (out @ map mk ps))"
  using assms
proof (induction ps arbitrary: pre out)
  case (Cons p ps)
  have ok: "ok p" using Cons.prems(1) by simp
  have g: "getPayload (length pre) = Inr (p @ concat ps @ tr)"
    using Cons.prems(3) [of "length pre"] by simp
  have l: "eh_length h (p @ concat ps @ tr) = length p" by (rule len [OF ok refl])
  have "cut_packets h getPayload (length ps) (length (pre @ p)) (out @ [mk p])
      = Inr (Some ((out @ [mk p]) @ map mk ps))"
    by (rule Cons.IH) (use Cons.prems in auto)
  then show ?case using g l pos [OF ok] Cons.prems(2) [OF ok] by simp
qed simp

end

end
