(* ===== verification/MpegPacket.thy ===== *)
theory MpegPacket
  imports EncapPlugin
begin

text \<open>
  MPEG2-TS packets and the two contexts of a PID: \<open>mandatory_plugins/mpeg/MpegPacket.cpp\<close>,
  \<open>MpegEncapCtx.cpp\<close>, \<open>MpegDeencapCtx.cpp\<close>. A packet has 188 bytes: \<open>0x47\<close>, the flags and the 13 bits of
  the PID, the continuity counter, then 184 bytes of payload which start with the payload pointer when
  the PUSI flag is set. The PID holds the destination (5 bits), the source (5) and the QoS (3).
\<close>

definition TS_PACKETSIZE :: nat where "TS_PACKETSIZE = 188"
definition TS_HEADERSIZE :: nat where "TS_HEADERSIZE = 4"
definition TS_DATASIZE :: nat where "TS_DATASIZE = 184"

section \<open>Packets\<close>

definition mp_sync :: "data \<Rightarrow> u8 res" where
  "mp_sync d = at_res d 0"

definition mp_tei :: "data \<Rightarrow> bool res" where
  "mp_tei d = res_bind (at_res d 1) (\<lambda>b. Inr (unat b div 128 mod 2 = 1))"

definition mp_pusi :: "data \<Rightarrow> bool res" where
  "mp_pusi d = res_bind (at_res d 1) (\<lambda>b. Inr (unat b div 64 mod 2 = 1))"

definition mp_tp :: "data \<Rightarrow> bool res" where
  "mp_tp d = res_bind (at_res d 1) (\<lambda>b. Inr (unat b div 32 mod 2 = 1))"

definition mp_getPid :: "data \<Rightarrow> u16 res" where
  "mp_getPid d = res_bind (at_res d 1) (\<lambda>b1. res_bind (at_res d 2) (\<lambda>b2.
     Inr (of_nat (unat b1 mod 32 * 256 + unat b2))))"

definition mp_tsc :: "data \<Rightarrow> u8 res" where
  "mp_tsc d = res_bind (at_res d 3) (\<lambda>b. Inr (of_nat (unat b div 64 * 64)))"

definition mp_cc :: "data \<Rightarrow> u8 res" where
  "mp_cc d = res_bind (at_res d 3) (\<lambda>b. Inr (of_nat (unat b mod 16)))"

definition mp_pp :: "data \<Rightarrow> u8 res" where
  "mp_pp d = at_res d 4"

definition pid_qos :: "u16 \<Rightarrow> u8" where
  "pid_qos pid = of_nat (unat pid mod 8)"

definition pid_src :: "u16 \<Rightarrow> u8" where
  "pid_src pid = of_nat (unat pid div 8 mod 32)"

definition pid_dst :: "u16 \<Rightarrow> u8" where
  "pid_dst pid = of_nat (unat pid div 256 mod 32)"

text \<open>\<open>&&\<close> and the early exits of \<open>isValid\<close> read a field only when those before it are right.\<close>

definition mp_isValid :: "data \<Rightarrow> bool res" where
  "mp_isValid d =
     (if length d \<noteq> TS_PACKETSIZE then Inr False
      else res_bind (mp_sync d) (\<lambda>s. if s \<noteq> 0x47 then Inr False
      else res_bind (mp_tei d) (\<lambda>tei. if tei then Inr False
      else res_bind (mp_tsc d) (\<lambda>tsc. if tsc \<noteq> 0 then Inr False
      else res_bind (mp_pusi d) (\<lambda>pusi.
        if \<not> pusi then Inr True
        else res_bind (mp_pp d) (\<lambda>pp. Inr (unat pp < TS_DATASIZE - 1)))))))"

text \<open>\<open>MpegPacket(data)\<close>: the identifiers are read from the PID.\<close>

definition new_mpeg_packet :: "data \<Rightarrow> net_packet res" where
  "new_mpeg_packet d = res_bind (mp_getPid d) (\<lambda>pid.
     Inr ((new_net_packet d)\<lparr>np_name := ''MPEG2-TS'', np_type := NET_PROTO_MPEG,
       np_header_length := TS_HEADERSIZE, np_src_tal_id := pid_src pid,
       np_dst_tal_id := pid_dst pid, np_qos := pid_qos pid\<rparr>))"

definition getPidFromPacket :: "net_packet \<Rightarrow> u16" where
  "getPidFromPacket p = of_nat (unat (np_dst_tal_id p) mod 32 * 256
     + unat (np_src_tal_id p) mod 32 * 8 + unat (np_qos p) mod 8)"

section \<open>Encapsulation contexts\<close>

record ectx =
  ec_frame :: data
  ec_pid :: u16
  ec_cc :: u8
  ec_spot :: spot_id_t

definition ec_header :: "u16 \<Rightarrow> u8 \<Rightarrow> data" where
  "ec_header pid cc = [0x47, of_nat (unat pid div 256 mod 32), of_nat (unat pid mod 256),
     of_nat (16 + unat cc mod 16)]"

definition ec_initFrame :: "ectx \<Rightarrow> ectx" where
  "ec_initFrame c = c\<lparr>ec_frame := ec_header (ec_pid c) (ec_cc c)\<rparr>"

definition new_ectx :: "u16 \<Rightarrow> spot_id_t \<Rightarrow> ectx" where
  "new_ectx pid spot = ec_initFrame \<lparr>ec_frame = [], ec_pid = pid, ec_cc = 0, ec_spot = spot\<rparr>"

definition ec_reset :: "ectx \<Rightarrow> ectx" where
  "ec_reset c = ec_initFrame (c\<lparr>ec_cc := of_nat ((unat (ec_cc c) + 1) mod 16)\<rparr>)"

definition ec_length :: "ectx \<Rightarrow> u32" where
  "ec_length c = of_nat (length (ec_frame c))"

definition ec_left :: "ectx \<Rightarrow> u32" where
  "ec_left c = of_nat TS_PACKETSIZE - ec_length c"

text \<open>\<open>append(data, offset, length)\<close> throws when the offset is past the end.\<close>

definition ec_add :: "data \<Rightarrow> nat \<Rightarrow> nat \<Rightarrow> ectx \<Rightarrow> ectx res" where
  "ec_add d offset len c = res_bind (substr d offset len) (\<lambda>s. Inr (c\<lparr>ec_frame := ec_frame c @ s\<rparr>))"

definition ec_pusi :: "ectx \<Rightarrow> bool res" where
  "ec_pusi c = mp_pusi (ec_frame c)"

definition ec_setPusi :: "ectx \<Rightarrow> ectx res" where
  "ec_setPusi c = res_bind (at_res (ec_frame c) 1) (\<lambda>b.
     Inr (c\<lparr>ec_frame := (ec_frame c)[1 := or b 0x40]\<rparr>))"

definition ec_addPP :: "ectx \<Rightarrow> ectx" where
  "ec_addPP c =
     (if TS_HEADERSIZE < length (ec_frame c)
      then c\<lparr>ec_frame := take TS_HEADERSIZE (ec_frame c)
         @ [of_nat (length (ec_frame c) - TS_HEADERSIZE)] @ drop TS_HEADERSIZE (ec_frame c)\<rparr>
      else c\<lparr>ec_frame := ec_frame c @ [0]\<rparr>)"

definition ec_padding :: "ectx \<Rightarrow> ectx" where
  "ec_padding c = (if 0 < ec_left c
     then c\<lparr>ec_frame := ec_frame c @ replicate (unat (ec_left c)) 0xff\<rparr> else c)"

section \<open>Deencapsulation contexts\<close>

text \<open>\<open>dc_sndu_len\<close> is not initialised by the constructor.\<close>

record dctx =
  dc_data :: data
  dc_pid :: u16
  dc_cc :: u8
  dc_need_pusi :: bool
  dc_sndu_len :: u32
  dc_spot :: spot_id_t

definition new_dctx :: "u32 \<Rightarrow> u16 \<Rightarrow> spot_id_t \<Rightarrow> dctx" where
  "new_dctx junk pid spot = \<lparr>dc_data = [], dc_pid = pid, dc_cc = 0, dc_need_pusi = True,
     dc_sndu_len = junk, dc_spot = spot\<rparr>"

definition dc_reset :: "dctx \<Rightarrow> dctx" where
  "dc_reset c = c\<lparr>dc_data := []\<rparr>"

definition dc_length :: "dctx \<Rightarrow> u32" where
  "dc_length c = of_nat (length (dc_data c))"

definition dc_incCc :: "dctx \<Rightarrow> dctx" where
  "dc_incCc c = c\<lparr>dc_cc := of_nat ((unat (dc_cc c) + 1) mod 16)\<rparr>"

definition dc_setCc :: "u8 \<Rightarrow> dctx \<Rightarrow> dctx" where
  "dc_setCc cc c = c\<lparr>dc_cc := of_nat (unat cc mod 16)\<rparr>"

definition dc_set_need_pusi :: "bool \<Rightarrow> dctx \<Rightarrow> dctx" where
  "dc_set_need_pusi b c = c\<lparr>dc_need_pusi := b\<rparr>"

definition dc_set_sndu_len :: "u32 \<Rightarrow> dctx \<Rightarrow> dctx" where
  "dc_set_sndu_len n c = c\<lparr>dc_sndu_len := n\<rparr>"

definition dc_add :: "data \<Rightarrow> nat \<Rightarrow> nat \<Rightarrow> dctx \<Rightarrow> dctx res" where
  "dc_add d offset len c = res_bind (substr d offset len) (\<lambda>s. Inr (c\<lparr>dc_data := dc_data c @ s\<rparr>))"

section \<open>The PID\<close>

lemma unat_getPid:
  "unat (getPidFromPacket p)
     = unat (np_dst_tal_id p) mod 32 * 256 + unat (np_src_tal_id p) mod 32 * 8 + unat (np_qos p) mod 8"
proof -
  let ?n = "unat (np_dst_tal_id p) mod 32 * 256 + unat (np_src_tal_id p) mod 32 * 8 + unat (np_qos p) mod 8"
  have "unat (np_dst_tal_id p) mod 32 < 32" "unat (np_src_tal_id p) mod 32 < 32" "unat (np_qos p) mod 8 < 8"
    by simp_all
  then have "?n < 65536" by linarith
  then show ?thesis unfolding getPidFromPacket_def by (rule u16_of_nat_id)
qed

lemma pid_fields:
  assumes "unat (np_dst_tal_id p) < 32" "unat (np_src_tal_id p) < 32" "unat (np_qos p) < 8"
  shows "pid_dst (getPidFromPacket p) = np_dst_tal_id p" "pid_src (getPidFromPacket p) = np_src_tal_id p"
    "pid_qos (getPidFromPacket p) = np_qos p"
proof -
  let ?d = "unat (np_dst_tal_id p)" and ?s = "unat (np_src_tal_id p)" and ?q = "unat (np_qos p)"
  have n: "unat (getPidFromPacket p) = ?d * 256 + (?s * 8 + ?q)"
    using assms by (simp add: unat_getPid)
  have s: "?s * 8 + ?q < 256" using assms by linarith
  have e: "?d * 256 + (?s * 8 + ?q) = ?q + (?d * 32 + ?s) * 8" by simp
  have "(?d * 256 + (?s * 8 + ?q)) div 256 = ?d" using s by simp
  moreover have "(?d * 256 + (?s * 8 + ?q)) mod 8 = ?q" "(?d * 256 + (?s * 8 + ?q)) div 8 = ?d * 32 + ?s"
    unfolding e using assms(3) mod_mult_self1 [of ?q "?d * 32 + ?s" 8] by (simp_all del: mod_mult_self1)
  ultimately show "pid_dst (getPidFromPacket p) = np_dst_tal_id p"
    "pid_src (getPidFromPacket p) = np_src_tal_id p" "pid_qos (getPidFromPacket p) = np_qos p"
    using assms unfolding pid_dst_def pid_src_def pid_qos_def n by simp_all
qed

end
