(* ===== verification/Mpeg.thy ===== *)
theory Mpeg
  imports MpegPacket
begin

text \<open>
  The MPEG2-TS plugin: \<open>mandatory_plugins/mpeg/Mpeg.cpp\<close>. The upper plugin is a parameter \<open>up\<close>
  (\<open>current_upper\<close>). The contexts of the sender and of the receiver are maps from PIDs. Offsets are
  32-bit: \<open>TS_DATASIZE - sndu_offset\<close> wraps.
\<close>

section \<open>State\<close>

record mpeg =
  mg_encap :: "(int, ectx) omap"
  mg_deencap :: "(int, dctx) omap"
  mg_threshold :: nat          \<comment> \<open>\<open>packing_threshold\<close>\<close>
  mg_dst_tal_id :: u8          \<comment> \<open>the terminal of the receiver\<close>

section \<open>Encapsulation\<close>

definition find_encap_context :: "u16 \<Rightarrow> spot_id_t \<Rightarrow> mpeg \<Rightarrow> ectx \<times> mpeg" where
  "find_encap_context pid spot m =
     (case om_find (mg_encap m) (uint pid) of
        Some c \<Rightarrow> (c, m)
      | None \<Rightarrow> (let c = new_ectx pid spot in (c, m\<lparr>mg_encap := om_put (uint pid) c (mg_encap m)\<rparr>)))"

text \<open>\<open>new MpegPacket(*context->frame())\<close> with its spot, added to the burst; then the context is reset.\<close>

definition ec_emit :: "spot_id_t \<Rightarrow> ectx \<Rightarrow> net_burst \<Rightarrow> (ectx \<times> net_burst) res" where
  "ec_emit spot c b = res_bind (new_mpeg_packet (ec_frame c)) (\<lambda>p.
     Inr (ec_reset c, snd (nb_add (Some (p\<lparr>np_spot := spot\<rparr>)) b)))"

lemma ec_left_reset [simp]: "ec_left (ec_reset c) = 184"
  by (simp add: ec_left_def ec_length_def ec_reset_def ec_initFrame_def ec_header_def TS_PACKETSIZE_def)

lemma ec_emit_left: "ec_emit spot c b = Inr (c', b') \<Longrightarrow> ec_left c' = 184"
  by (auto simp: ec_emit_def res_bind_Inr)

text \<open>The \<open>while(packet_len > 0)\<close>: \<open>d\<close> is the packet's data from \<open>packet_off\<close> on.\<close>

function ec_fill :: "spot_id_t \<Rightarrow> data \<Rightarrow> ectx \<Rightarrow> net_burst \<Rightarrow> (ectx \<times> net_burst) res" where
  "ec_fill spot d c b =
     (if d = [] then Inr (c, b)
      else let len = min (length d) (unat (ec_left c));
               c1 = c\<lparr>ec_frame := ec_frame c @ take len d\<rparr>
      in if ec_left c1 = 0
         then res_bind (ec_emit spot c1 b) (\<lambda>(c2, b2). ec_fill spot (drop len d) c2 b2)
         else ec_fill spot (drop len d) c1 b)"
  by pat_completeness auto
termination
proof (relation "measure (\<lambda>(spot, d, c, b). 2 * length d + (if ec_left c = 0 then 1 else 0))", goal_cases)
  case (2 spot d c b len c1 r c2 b2)
  have "ec_left c2 = 184" using ec_emit_left [of spot c1 b c2 b2] 2 by simp
  then show ?case using 2 by (cases "ec_left c = 0") (auto simp: min_def unat_gt_0)
next
  case (3 spot d c b len c1)
  then show ?case by (cases "ec_left c = 0") (auto simp: min_def unat_gt_0)
qed simp

declare ec_fill.simps [simp del]

text \<open>
  \<open>encapMpeg\<close>, first in the context of the PID: \<open>context_id\<close>, \<open>time\<close>, the burst and the state; it returns true, as
  \<open>find_encap_context\<close> never gives a null pointer.
\<close>

definition mg_put_encap :: "ectx \<Rightarrow> u16 \<Rightarrow> mpeg \<Rightarrow> mpeg" where
  "mg_put_encap c pid m = m\<lparr>mg_encap := om_put (uint pid) c (mg_encap m)\<rparr>"

definition encap_in_ctx :: "encap_hdl \<Rightarrow> nat \<Rightarrow> spot_id_t \<Rightarrow> data \<Rightarrow> ectx \<Rightarrow> net_burst \<Rightarrow> (ectx \<times> nat \<times> net_burst) res" where
  "encap_in_ctx up threshold spot d c0 b =
     res_bind (ec_pusi c0) (\<lambda>pusi.
     res_bind (if \<not> pusi then res_bind (ec_setPusi c0) (\<lambda>c. Inr (ec_addPP c)) else Inr c0) (\<lambda>c1.
     res_bind (ec_fill spot d c1 b) (\<lambda>(c2, b2).
     res_bind (ec_pusi c2) (\<lambda>pusi2.
       if threshold = 0 \<or> unat (ec_left c2) < eh_min up \<or> (unat (ec_left c2) = eh_min up \<and> \<not> pusi2)
       then res_bind (ec_emit spot (ec_padding c2) b2) (\<lambda>(c3, b3). Inr (c3, 0, b3))
       else Inr (c2, threshold, b2)))))"

definition encapMpeg :: "encap_hdl \<Rightarrow> net_packet \<Rightarrow> net_burst \<Rightarrow> mpeg \<Rightarrow> (int \<times> nat \<times> net_burst \<times> mpeg) res" where
  "encapMpeg up packet b m =
     (let spot = np_spot packet; pid = getPidFromPacket packet; (c0, m1) = find_encap_context pid spot m
      in res_bind (encap_in_ctx up (mg_threshold m) spot (np_data packet) c0 b) (\<lambda>(c, time, b').
           Inr (uint (ec_pid c0), time, b', mg_put_encap c pid m1)))"

text \<open>\<open>encapsulate\<close>: \<open>time_contexts\<close> maps times to contexts; \<open>insert\<close> keeps an entry that is there.\<close>

definition om_insert :: "'k::linorder \<Rightarrow> 'v \<Rightarrow> ('k, 'v) omap \<Rightarrow> ('k, 'v) omap" where
  "om_insert k v m = (if om_find m k = None then om_put k v m else m)"

definition mg_encap_step ::
    "encap_hdl \<Rightarrow> net_packet \<Rightarrow> net_burst \<times> (nat, int) omap \<times> mpeg \<Rightarrow> (net_burst \<times> (nat, int) omap \<times> mpeg) res" where
  "mg_encap_step up packet s =
     (let (b, times, m) = s
      in res_bind (encapMpeg up packet b m) (\<lambda>(cid, time, b', m'). Inr (b', om_insert time cid times, m')))"

definition mg_encapsulate ::
    "encap_hdl \<Rightarrow> net_packet list \<Rightarrow> (nat, int) omap \<times> mpeg \<Rightarrow> (net_burst \<times> (nat, int) omap \<times> mpeg) res" where
  "mg_encapsulate up burst s =
     (let (times, m) = s in res_fold (mg_encap_step up) burst (new_net_burst 0, times, m))"

text \<open>\<open>flush\<close>; no burst (a null pointer) when the context is not found.\<close>

definition mg_flush :: "int \<Rightarrow> mpeg \<Rightarrow> (net_burst option \<times> mpeg) res" where
  "mg_flush cid m =
     (case om_find (mg_encap m) cid of
        None \<Rightarrow> Inr (None, m)
      | Some c \<Rightarrow>
          if 0 < length (ec_frame c)
          then res_bind (ec_emit (ec_spot c) (ec_padding c) (new_net_burst 0)) (\<lambda>(c', b).
            Inr (Some b, m\<lparr>mg_encap := om_put cid c' (mg_encap m)\<rparr>))
          else Inr (None, m))"

fun mg_flush_list :: "(int, ectx) omap \<Rightarrow> net_burst \<Rightarrow> ((int, ectx) omap \<times> net_burst) res" where
  "mg_flush_list [] b = Inr ([], b)"
| "mg_flush_list ((pid, c) # cs) b =
     res_bind (if 0 < ec_length c then ec_emit (ec_spot c) (ec_padding c) b else Inr (c, b)) (\<lambda>(c', b').
     res_bind (mg_flush_list cs b') (\<lambda>(cs', b''). Inr ((pid, c') # cs', b'')))"

definition mg_flushAll :: "mpeg \<Rightarrow> (net_burst \<times> mpeg) res" where
  "mg_flushAll m = res_bind (mg_flush_list (mg_encap m) (new_net_burst 0)) (\<lambda>(cs, b).
     Inr (b, m\<lparr>mg_encap := cs\<rparr>))"

section \<open>Deencapsulation\<close>

text \<open>How the analysis of a frame ends: start again at the payload pointer, drop the frame, or keep it.\<close>

datatype verdict = Restart | Drop | Done

text \<open>Resets the context and asks for a frame with PUSI; the frame is analysed again if it can help.\<close>

definition dec_resync :: "bool \<Rightarrow> dctx \<Rightarrow> net_packet list \<Rightarrow> verdict \<times> dctx \<times> net_packet list" where
  "dec_resync again c tmp =
     (if again then Restart else Drop, dc_set_need_pusi True (dc_reset c), tmp)"

fun pad_bytes :: "data \<Rightarrow> nat \<Rightarrow> nat \<Rightarrow> bool res" where
  "pad_bytes payload i 0 = Inr True"
| "pad_bytes payload i (Suc n) =
     res_bind (at_res payload i) (\<lambda>b. if b \<noteq> 0xff then Inr False else pad_bytes payload (i + 1) n)"

definition dec_padding ::
    "data \<Rightarrow> u32 \<Rightarrow> dctx \<Rightarrow> net_packet list \<Rightarrow> (verdict \<times> dctx \<times> net_packet list) res" where
  "dec_padding payload off c tmp =
     (if unat off < TS_DATASIZE
      then res_bind (pad_bytes payload (unat off) (TS_DATASIZE - unat off)) (\<lambda>ok.
        if ok then Inr (Done, c, tmp) else Inr (dec_resync False c []))
      else if unat off = TS_DATASIZE then Inr (Done, c, tmp)
      else Inl DoubleFree)"

text \<open>What the analysis reads of the packet, of its frame and of the upper plugin.\<close>

record dec_env =
  de_up :: encap_hdl
  de_frame :: data
  de_payload :: data
  de_packet :: net_packet

text \<open>
  The end of a turn: the SNDU is complete (the loop goes on), needs the next frame, or is too long.
  \<open>again\<close> is \<open>pusi && !pp_used\<close>.
\<close>

definition dec_built :: "dec_env \<Rightarrow> dctx \<Rightarrow> net_packet list \<Rightarrow> net_packet list" where
  "dec_built e c tmp =
     (case eh_build (de_up e) (dc_data c) (unat (dc_length c)) (np_qos (de_packet e))
             (np_src_tal_id (de_packet e)) (np_dst_tal_id (de_packet e)) of
        None \<Rightarrow> tmp
      | Some p \<Rightarrow> tmp @ [p\<lparr>np_spot := np_spot (de_packet e)\<rparr>])"

text \<open>
  The first part of a turn: the context the bytes are added to, or the end of the analysis.
\<close>

datatype turn = Stop "verdict \<times> dctx \<times> net_packet list" | Padding | Take dctx

definition dec_head :: "dec_env \<Rightarrow> u32 \<Rightarrow> bool \<Rightarrow> dctx \<Rightarrow> net_packet list \<Rightarrow> turn res" where
  "dec_head e off again c tmp =
     (if 0 < dc_length c
      then (if dc_sndu_len c \<le> dc_length c then Inr (Stop (dec_resync again c tmp)) else Inr (Take c))
      else res_bind (at_res (de_payload e) (unat off)) (\<lambda>b0.
           res_bind (if b0 = 0xff then at_res (de_payload e) (unat (off + 1)) else Inr 0) (\<lambda>b1.
           if b0 = 0xff \<and> b1 = 0xff then Inr Padding
           else let len = of_nat (eh_length (de_up e) (drop (unat off) (de_payload e)))
           in if len = 0 then Inr (Stop (Drop, c, tmp)) else Inr (Take (dc_set_sndu_len len c)))))"

fun dec_loop ::
    "nat \<Rightarrow> dec_env \<Rightarrow> bool \<Rightarrow> u32 \<Rightarrow> bool \<Rightarrow> dctx \<Rightarrow> net_packet list \<Rightarrow> (verdict \<times> dctx \<times> net_packet list) res" where
  "dec_loop 0 e pusi off pp_used c tmp = Inl NoReturn"
| "dec_loop (Suc n) e pusi off pp_used c tmp =
     (let avail = of_nat TS_DATASIZE - off
      in if unat avail < eh_min (de_up e) then dec_padding (de_payload e) off c tmp
         else res_bind (mp_pp (de_frame e)) (\<lambda>pp.
           let pp_used1 = (pp_used \<or> off = ucast pp + 1); again = (pusi \<and> \<not> pp_used1)
           in res_bind (dec_head e off again c tmp) (\<lambda>t.
             case t of
               Stop r \<Rightarrow> Inr r
             | Padding \<Rightarrow> dec_padding (de_payload e) off c tmp
             | Take c1 \<Rightarrow>
                 (let max_len = min avail (dc_sndu_len c1 - dc_length c1); off1 = off + max_len
                  in res_bind (dc_add (de_payload e) (unat off) (unat max_len) c1) (\<lambda>c2.
                    if dc_length c2 = dc_sndu_len c2
                    then dec_loop n e pusi off1 pp_used1 (dc_reset c2) (dec_built e c2 tmp)
                    else if dc_length c2 < dc_sndu_len c2
                    then (if unat off1 < TS_DATASIZE then Inr (dec_resync again c2 tmp)
                          else if TS_DATASIZE < unat off1 then Inr (dec_resync False c2 [])
                          else dec_loop n e pusi off1 pp_used1 c2 tmp)
                    else Inr (dec_resync again c2 tmp))))))"

declare dec_loop.simps [simp del]

text \<open>
  The analysis from a given offset: the check of the payload pointer, then the loop. Each turn of
  the loop moves the offset or throws, so there are at most as many turns as bytes.
\<close>

definition dec_body ::
    "dec_env \<Rightarrow> bool \<Rightarrow> u32 \<Rightarrow> dctx \<Rightarrow> net_packet list \<Rightarrow> (verdict \<times> dctx \<times> net_packet list) res" where
  "dec_body e pusi off c tmp =
     res_bind (if pusi then mp_pp (de_frame e) else Inr 0) (\<lambda>pp.
       if pusi \<and> TS_DATASIZE < unat pp + 1
          \<and> unat (of_nat TS_DATASIZE - 1 - ucast pp :: u32) < eh_min (de_up e)
       then Inr (dec_resync False c tmp)
       else dec_loop (length (de_payload e) + 2) e pusi off False c tmp)"

text \<open>
  From the label \<open>restart\<close> on: the value returned, the context and the packets to add. A frame is
  restarted with \<open>need_pusi\<close> set, which no turn then restarts.
\<close>

fun dec_restart :: "nat \<Rightarrow> dec_env \<Rightarrow> dctx \<Rightarrow> net_packet list \<Rightarrow> (bool \<times> dctx \<times> net_packet list) res" where
  "dec_restart 0 e c tmp = Inl NoReturn"
| "dec_restart (Suc n) e c tmp =
     res_bind (mp_pusi (de_frame e)) (\<lambda>pusi.
     res_bind (mp_cc (de_frame e)) (\<lambda>cc.
       let c1 = dc_incCc c;
           finish = (\<lambda>(v, c', tmp'). case v of
               Restart \<Rightarrow> dec_restart n e c' tmp'
             | Drop \<Rightarrow> Inr (False, c', [])
             | Done \<Rightarrow> Inr (True, c', tmp'))
       in if dc_need_pusi c
          then (if pusi
                then res_bind (mp_pp (de_frame e)) (\<lambda>pp.
                  res_bind (dec_body e pusi (1 + ucast pp) (dc_set_need_pusi False (dc_setCc cc c)) tmp) finish)
                else Inr (False, c, []))
          else if cc \<noteq> dc_cc c1
          then (let c2 = dc_set_need_pusi True (dc_reset c1)
                in if pusi then dec_restart n e c2 tmp else Inr (False, c2, []))
          else res_bind (dec_body e pusi (if pusi then 1 else 0) c1 tmp) finish))"

declare dec_restart.simps [simp del]

text \<open>
  \<open>deencapMpeg\<close>; \<open>junk\<close> is what the uninitialised length of a new context holds. The packets go to the
  end of the list whatever the limit of the burst.
\<close>

definition deencapMpeg ::
    "u32 \<Rightarrow> encap_hdl \<Rightarrow> net_packet \<Rightarrow> net_burst \<times> mpeg \<Rightarrow> (bool \<times> net_burst \<times> mpeg) res" where
  "deencapMpeg junk up packet s =
     (let (b, m) = s
      in if np_type packet \<noteq> NET_PROTO_MPEG then Inr (False, b, m)
      else res_bind (new_mpeg_packet (np_data packet)) (\<lambda>p.
           res_bind (mp_getPid (np_data p)) (\<lambda>pid.
           res_bind (nc_getPayload p) (\<lambda>payload.
           res_bind (dec_restart 3
               \<lparr>de_up = up, de_frame = np_data p, de_payload = payload, de_packet = packet\<rparr>
               (case om_find (mg_deencap m) (uint pid) of
                  Some c \<Rightarrow> c | None \<Rightarrow> new_dctx junk pid (np_spot packet)) [])
             (\<lambda>(ok, c, ps). Inr (ok, b\<lparr>nb_packets := nb_packets b @ ps\<rparr>,
               m\<lparr>mg_deencap := om_put (uint pid) c (mg_deencap m)\<rparr>))))))"

definition mg_deencap_step ::
    "u32 \<Rightarrow> encap_hdl \<Rightarrow> net_packet option \<Rightarrow> net_burst \<times> mpeg \<Rightarrow> (net_burst \<times> mpeg) res" where
  "mg_deencap_step junk up packet s =
     (case packet of
        None \<Rightarrow> Inr s
      | Some p \<Rightarrow>
          if np_type p \<noteq> NET_PROTO_MPEG then Inr s
          else if np_dst_tal_id p \<noteq> mg_dst_tal_id (snd s) \<and> np_dst_tal_id p \<noteq> BROADCAST_TAL_ID8 then Inr s
          else res_bind (deencapMpeg junk up p s) (\<lambda>(ok, s'). Inr s'))"

definition mg_deencapsulate ::
    "u32 \<Rightarrow> encap_hdl \<Rightarrow> net_packet option list \<Rightarrow> mpeg \<Rightarrow> (net_burst \<times> mpeg) res" where
  "mg_deencapsulate junk up burst m = res_fold (mg_deencap_step junk up) burst (new_net_burst 0, m)"

section \<open>The packet handler\<close>

definition mpeg_build :: "data \<Rightarrow> nat \<Rightarrow> u8 \<Rightarrow> u8 \<Rightarrow> u8 \<Rightarrow> net_packet option res" where
  "mpeg_build d data_length qos src dst =
     (if data_length \<noteq> TS_PACKETSIZE then Inr None
      else res_bind (mp_getPid (take data_length d)) (\<lambda>pid.
        Inr (Some (full_net_packet d data_length ''MPEG2-TS'' NET_PROTO_MPEG
          (pid_qos pid) (pid_src pid) (pid_dst pid) TS_HEADERSIZE))))"

definition mpeg_getChunk :: get_chunk where
  "mpeg_getChunk packet remaining_length =
     (if remaining_length < TS_PACKETSIZE then Some (None, Some packet) else Some (Some packet, None))"

text \<open>\<open>None\<close> where the code returns false.\<close>

definition mpeg_getSrc :: "data \<Rightarrow> u8 option res" where
  "mpeg_getSrc d = res_bind (mp_getPid (take TS_PACKETSIZE d)) (\<lambda>pid.
     res_bind (mp_isValid (take TS_PACKETSIZE d)) (\<lambda>ok. Inr (if ok then Some (pid_src pid) else None)))"

definition mpeg_getQos :: "data \<Rightarrow> u8 option res" where
  "mpeg_getQos d = res_bind (mp_getPid (take TS_PACKETSIZE d)) (\<lambda>pid.
     res_bind (mp_isValid (take TS_PACKETSIZE d)) (\<lambda>ok. Inr (if ok then Some (pid_qos pid) else None)))"

end
