(* ===== verification/MpegRcv.thy ===== *)
theory MpegRcv
  imports Mpeg
begin

text \<open>
  The receiver of MPEG2-TS frames, frame by frame. A frame is described by what it carries: the end
  \<open>t\<close> of an SNDU started earlier, whole SNDUs \<open>ss\<close>, the start \<open>y\<close> of one that goes on in the next frame,
  \<open>k\<close> bytes of padding. The lemmas state what \<open>dec_restart\<close> does with such a frame when the context is
  synchronised and when it is not. The locale \<open>mpeg_upper\<close> is the contract of the upper plugin.
\<close>

section \<open>Frames as bytes\<close>

definition fr_pusi :: "data list \<Rightarrow> data \<Rightarrow> bool" where
  "fr_pusi ss y \<longleftrightarrow> ss \<noteq> [] \<or> y \<noteq> []"

definition fr_header :: "u16 \<Rightarrow> u8 \<Rightarrow> bool \<Rightarrow> data" where
  "fr_header pid cc pusi = [0x47, of_nat (unat pid div 256 mod 32 + (if pusi then 64 else 0)),
     of_nat (unat pid mod 256), of_nat (16 + unat cc mod 16)]"

definition fr_payload :: "data \<Rightarrow> data list \<Rightarrow> data \<Rightarrow> nat \<Rightarrow> data" where
  "fr_payload t ss y k =
     (if fr_pusi ss y then [of_nat (length t)] else []) @ t @ concat ss @ y @ replicate k 0xff"

lemma fr_header_fields:
  assumes "unat pid < 8192" "unat cc < 16"
  shows "mp_pusi (fr_header pid cc pusi @ p) = Inr pusi" "mp_getPid (fr_header pid cc pusi @ p) = Inr pid"
    "mp_cc (fr_header pid cc pusi @ p) = Inr cc"
proof -
  have c: "unat (of_nat (16 + unat cc) :: u8) = 16 + unat cc"
    by (rule u8_of_nat_id) (use assms(2) in simp)
  have p: "unat (of_nat (unat pid mod 256) :: u8) = unat pid mod 256" by (rule u8_of_nat_id) simp
  have hi: "unat pid div 256 < 32" using assms(1) by simp
  have bb: "unat (of_nat (unat pid div 256 + 64) :: u8) = unat pid div 256 + 64"
    "unat (of_nat (unat pid div 256) :: u8) = unat pid div 256"
    by (rule u8_of_nat_id, use hi in simp)+
  have pid: "unat pid div 256 * 256 + unat pid mod 256 = unat pid" by simp
  show "mp_pusi (fr_header pid cc pusi @ p) = Inr pusi"
    using hi bb by (auto simp: mp_pusi_def fr_header_def at_res_def simp del: of_nat_add)
  have m: "(unat pid div 256 + 64) mod 32 = unat pid div 256"
    using hi mod_mult_self1 [of "unat pid div 256" 2 32] by (simp del: mod_mult_self1)
  show "mp_getPid (fr_header pid cc pusi @ p) = Inr pid"
    using hi by (cases pusi) (simp_all add: mp_getPid_def fr_header_def at_res_def bb m p pid del: of_nat_add of_nat_mult)
  show "mp_cc (fr_header pid cc pusi @ p) = Inr cc"
    using assms(2) by (simp add: mp_cc_def fr_header_def at_res_def c del: of_nat_add)
qed

lemma fr_header_length [simp]: "length (fr_header pid cc pusi) = 4"
  by (simp add: fr_header_def)

section \<open>The contract of the upper plugin\<close>

locale mpeg_upper =
  fixes up :: encap_hdl and ok :: "data \<Rightarrow> bool"
  assumes min_bounds: "2 \<le> eh_min up" "eh_min up \<le> 183"
    and ok_length: "ok s \<Longrightarrow> eh_min up \<le> length s \<and> length s < 4294967296"
    and ok_header: "ok s \<Longrightarrow> eh_min up \<le> n \<Longrightarrow> n \<le> length s \<Longrightarrow> eh_length up (take n s @ r) = length s"
    and ok_no_end: "ok s \<Longrightarrow> \<not> (s ! 0 = 0xff \<and> s ! 1 = 0xff)"
begin

lemma ok_ne: "ok s \<Longrightarrow> s \<noteq> []"
  using ok_length [of s] min_bounds(1) by auto

text \<open>What one SNDU becomes.\<close>

definition sndu_packet :: "net_packet \<Rightarrow> data \<Rightarrow> net_packet list" where
  "sndu_packet p s =
     (case eh_build up s (length s) (np_qos p) (np_src_tal_id p) (np_dst_tal_id p) of
        None \<Rightarrow> [] | Some q \<Rightarrow> [q\<lparr>np_spot := np_spot p\<rparr>])"

definition env_ok :: "dec_env \<Rightarrow> bool" where
  "env_ok e \<longleftrightarrow> de_up e = up \<and> length (de_payload e) = 184 \<and> (\<exists>pp. mp_pp (de_frame e) = Inr pp)"

lemma dec_built_eq:
  "de_up e = up \<Longrightarrow> length (dc_data c) < 4294967296 \<Longrightarrow>
    dec_built e c tmp = tmp @ sndu_packet (de_packet e) (dc_data c)"
  by (simp add: dec_built_def sndu_packet_def dc_length_def u32_of_nat_id split: option.splits)

lemma word_avail: "o' \<le> 184 \<Longrightarrow> of_nat TS_DATASIZE - of_nat o' = (of_nat (184 - o') :: u32)"
  by (simp add: TS_DATASIZE_def of_nat_diff)

lemma word_min: "a < 4294967296 \<Longrightarrow> b < 4294967296 \<Longrightarrow> min (of_nat a) (of_nat b :: u32) = of_nat (min a b)"
  by (simp add: min_def word_le_nat_alt u32_of_nat_id)

text \<open>A turn that adds bytes, once the context they go to is known.\<close>

lemma loop_take:
  assumes e: "env_ok e" and o: "off + eh_min up \<le> 184"
    and head: "\<And>again. dec_head e (of_nat off) again c tmp = Inr (Take c1)"
    and data: "dc_data c1 = pre" "dc_sndu_len c1 = of_nat (length pre + need)" "0 < need"
      "length pre + need < 4294967296"
    and t: "t = take need (drop off (de_payload e))"
  obtains pu1 where "dec_loop (Suc n) e pusi (of_nat off) pu c tmp =
    (if length t = need
     then dec_loop n e pusi (of_nat (off + need)) pu1 (c1\<lparr>dc_data := []\<rparr>)
            (tmp @ sndu_packet (de_packet e) (pre @ t))
     else dec_loop n e pusi (of_nat 184) pu1 (c1\<lparr>dc_data := pre @ t\<rparr>) tmp)"
proof -
  obtain pp where pp: "mp_pp (de_frame e) = Inr pp" and l: "length (de_payload e) = 184" and u: "de_up e = up"
    using e by (auto simp: env_ok_def)
  have av: "of_nat TS_DATASIZE - of_nat off = (of_nat (184 - off) :: u32)" by (rule word_avail) (use o in simp)
  have uav: "unat (of_nat (184 - off) :: u32) = 184 - off" by (rule u32_of_nat_id) simp
  have uo: "unat (of_nat off :: u32) = off" by (rule u32_of_nat_id) (use o in simp)
  have nd: "dc_sndu_len c1 - dc_length c1 = of_nat need" by (simp add: data dc_length_def)
  have mx: "min (of_nat (184 - off)) (dc_sndu_len c1 - dc_length c1) = of_nat (min (184 - off) need)"
    unfolding nd by (rule word_min) (use data in simp_all)
  have umx: "unat (of_nat (min (184 - off) need) :: u32) = min (184 - off) need" by (rule u32_of_nat_id) simp
  have lt: "length t = min (184 - off) need" using t l by simp
  have tt: "take (min (184 - off) need) (drop off (de_payload e)) = t"
    using t l by (simp add: min_def)
  have add: "dc_add (de_payload e) off (min (184 - off) need) c1 = Inr (c1\<lparr>dc_data := pre @ t\<rparr>)"
    using o l tt data by (simp add: dc_add_def substr_def)
  have len: "dc_length (c1\<lparr>dc_data := pre @ t\<rparr>) = of_nat (length pre + length t)" by (simp add: dc_length_def)
  have cmp: "unat (of_nat (length pre + length t) :: u32) = length pre + length t"
    "unat (of_nat (length pre + need) :: u32) = length pre + need"
    by (rule u32_of_nat_id, use data lt in simp)+
  let ?pu = "pu \<or> of_nat off = (ucast pp + 1 :: u32)"
  have nl: "\<not> 184 - off < eh_min up" using o by simp
  have step: "dec_loop (Suc n) e pusi (of_nat off) pu c tmp
      = (let off1 = of_nat off + of_nat (min (184 - off) need); c2 = c1\<lparr>dc_data := pre @ t\<rparr>;
             again = (pusi \<and> \<not> ?pu)
         in if dc_length c2 = dc_sndu_len c2
            then dec_loop n e pusi off1 ?pu (dc_reset c2) (dec_built e c2 tmp)
            else if dc_length c2 < dc_sndu_len c2
            then (if unat off1 < TS_DATASIZE then Inr (dec_resync again c2 tmp)
                  else if TS_DATASIZE < unat off1 then Inr (dec_resync False c2 [])
                  else dec_loop n e pusi off1 ?pu c2 tmp)
            else Inr (dec_resync again c2 tmp))"
    by (simp only: dec_loop.simps Let_def av uav uo pp u nl if_False res_bind_simps head turn.case mx umx add)
  show ?thesis
  proof (cases "need \<le> 184 - off")
    case True
    then have "length t = need" "min (184 - off) need = need" using lt by simp_all
    moreover have "length (pre @ t) < 4294967296" using data lt by simp
    ultimately have "dec_loop (Suc n) e pusi (of_nat off) pu c tmp
        = dec_loop n e pusi (of_nat (off + need)) ?pu (c1\<lparr>dc_data := []\<rparr>)
            (tmp @ sndu_packet (de_packet e) (pre @ t))"
      unfolding step by (simp add: data dc_reset_def dec_built_eq u len Let_def)
    then show ?thesis using that \<open>length t = need\<close> by simp
  next
    case False
    then have lt': "length t = 184 - off" "min (184 - off) need = 184 - off" using lt by simp_all
    have ne: "(of_nat (length pre + length t) :: u32) \<noteq> of_nat (length pre + need)"
      using cmp False lt' by (metis add_left_cancel nat_le_linear)
    have less: "(of_nat (length pre + length t) :: u32) < of_nat (length pre + need)"
      using cmp False lt' by (simp add: word_less_nat_alt)
    have "off + (184 - off) = 184" using o by simp
    then have off1: "of_nat off + of_nat (184 - off) = (of_nat 184 :: u32)" by (metis of_nat_add)
    have "dec_loop (Suc n) e pusi (of_nat off) pu c tmp
        = dec_loop n e pusi (of_nat 184) ?pu (c1\<lparr>dc_data := pre @ t\<rparr>) tmp"
      unfolding step using ne less by (simp add: data len Let_def off1 lt' TS_DATASIZE_def
          del: of_nat_diff of_nat_add)
    then show ?thesis using that lt' False by simp
  qed
qed

lemma head_new:
  assumes e: "env_ok e" and c: "dc_data c = []" and s: "ok s" "eh_min up \<le> n" "n \<le> length s"
    and d: "drop off (de_payload e) = take n s @ r"
  shows "dec_head e (of_nat off) again c tmp = Inr (Take (c\<lparr>dc_sndu_len := of_nat (length s)\<rparr>))"
proof -
  have l: "length (de_payload e) = 184" and u: "de_up e = up" using e by (simp_all add: env_ok_def)
  have n: "2 \<le> n" using s(2) min_bounds(1) by simp
  have "length (drop off (de_payload e)) \<ge> n" using d s(3) by simp
  then have o: "off + n \<le> 184" using l n by simp
  have uo: "unat (of_nat off :: u32) = off" "unat (of_nat off + 1 :: u32) = off + 1"
    using u32_of_nat_id [of off] u32_of_nat_id [of "off + 1"] o n by (simp_all add: add.commute)
  have b: "de_payload e ! off = s ! 0" "de_payload e ! (off + 1) = s ! 1"
  proof -
    have "de_payload e ! (off + i) = s ! i" if "i < n" for i
    proof -
      have "drop off (de_payload e) ! i = s ! i" using that s(3) unfolding d by (simp add: nth_append)
      then show ?thesis using that o l by simp
    qed
    from this [of 0] this [of 1] show "de_payload e ! off = s ! 0" "de_payload e ! (off + 1) = s ! 1"
      using n by simp_all
  qed
  have len: "(of_nat (eh_length up (take n s @ r)) :: u32) = of_nat (length s)"
    using ok_header [OF s] by simp
  have pos: "(of_nat (length s) :: u32) \<noteq> 0"
    using u32_of_nat_id [of "length s"] ok_length [OF s(1)] ok_ne [OF s(1)] by (metis length_0_conv unat_0)
  have ne: "\<not> (s ! 0 = 0xff \<and> s ! 1 = 0xff)" by (rule ok_no_end [OF s(1)])
  have in1: "off < length (de_payload e)" "off + 1 < length (de_payload e)" using o n l by simp_all
  show ?thesis
    using ne pos c in1
    by (auto simp: dec_head_def dc_length_def uo b b [simplified] u d len dc_set_sndu_len_def Let_def at_res_def)
qed

lemma head_cont:
  assumes "dc_data c = pre" "pre \<noteq> []" "dc_sndu_len c = of_nat (length pre + need)" "0 < need"
    "length pre + need < 4294967296"
  shows "dec_head e off again c tmp = Inr (Take c)"
proof -
  have u: "unat (dc_length c) = length pre" "unat (dc_sndu_len c) = length pre + need"
    using assms u32_of_nat_id [of "length pre"] u32_of_nat_id [of "length pre + need"]
    by (simp_all add: dc_length_def)
  have "0 < dc_length c" "\<not> dc_sndu_len c \<le> dc_length c"
    using u assms(2,4) by (simp_all add: word_less_nat_alt word_le_nat_alt)
  then show ?thesis by (simp add: dec_head_def)
qed

text \<open>Whole SNDUs in front.\<close>

lemma loop_whole:
  assumes "env_ok e" "dc_data c = []" "\<forall>s \<in> set ss. ok s" "drop off (de_payload e) = concat ss @ r" "off \<le> 184"
  obtains pu1 l where "dec_loop (length ss + n) e pusi (of_nat off) pu c tmp
    = dec_loop n e pusi (of_nat (off + length (concat ss))) pu1 (c\<lparr>dc_sndu_len := l\<rparr>)
        (tmp @ concat (map (sndu_packet (de_packet e)) ss))"
  using assms
proof (induction ss arbitrary: off pu c tmp thesis)
  case Nil
  show ?case by (rule Nil.prems(1) [of pu "dc_sndu_len c"]) simp
next
  case (Cons s ss)
  have ok: "ok s" using Cons.prems(4) by simp
  have l: "length (de_payload e) = 184" using Cons.prems(2) by (simp add: env_ok_def)
  have d: "drop off (de_payload e) = take (length s) s @ (concat ss @ r)" using Cons.prems(5) by simp
  have "length s \<le> length (drop off (de_payload e))" unfolding d by simp
  then have o: "off + length s \<le> 184" using l Cons.prems(6) by simp
  have ls: "eh_min up \<le> length s" "length s < 4294967296" using ok_length [OF ok] by simp_all
  let ?c1 = "c\<lparr>dc_sndu_len := of_nat (length s)\<rparr>"
  obtain pu1 where pu1: "dec_loop (Suc (length ss + n)) e pusi (of_nat off) pu c tmp =
      (if length s = length s
       then dec_loop (length ss + n) e pusi (of_nat (off + length s)) pu1 (?c1\<lparr>dc_data := []\<rparr>)
            (tmp @ sndu_packet (de_packet e) ([] @ s))
       else dec_loop (length ss + n) e pusi (of_nat 184) pu1 (?c1\<lparr>dc_data := [] @ s\<rparr>) tmp)"
  proof (rule loop_take [OF Cons.prems(2), of off c tmp ?c1 "[]" "length s" s "length ss + n" pusi pu])
    show "dec_head e (of_nat off) again c tmp = Inr (Take ?c1)" for again
      by (rule head_new [OF Cons.prems(2,3) ok ls(1) _ d]) simp
    show "s = take (length s) (drop off (de_payload e))" unfolding d by simp
  qed (use o ls ok_ne [OF ok] Cons.prems(3) in auto)
  have d': "drop (off + length s) (de_payload e) = concat ss @ r"
    using arg_cong [OF Cons.prems(5), of "drop (length s)"] by (simp add: add.commute)
  show ?case
  proof (rule Cons.IH [where pu = pu1 and c = "?c1\<lparr>dc_data := []\<rparr>" and tmp = "tmp @ sndu_packet (de_packet e) s"
        and off = "off + length s"])
    fix pu2 k
    assume "dec_loop (length ss + n) e pusi (of_nat (off + length s)) pu1 (?c1\<lparr>dc_data := []\<rparr>)
        (tmp @ sndu_packet (de_packet e) s)
      = dec_loop n e pusi (of_nat (off + length s + length (concat ss))) pu2
          (?c1\<lparr>dc_data := [], dc_sndu_len := k\<rparr>)
          ((tmp @ sndu_packet (de_packet e) s) @ concat (map (sndu_packet (de_packet e)) ss))"
    then show ?thesis
      using Cons.prems(1) [of pu2 k] pu1 Cons.prems(3)
      by (cases c) (simp add: add.assoc)
  qed (use Cons.prems(2,4) d' o in auto)
qed

text \<open>Padding, and the start of an SNDU that goes on in the next frame.\<close>

lemma pad_bytes_ff: "drop i p = replicate k 0xff \<Longrightarrow> n \<le> k \<Longrightarrow> pad_bytes p i n = Inr True"
proof (induction n arbitrary: i k)
  case (Suc n)
  then have l: "i < length p"
    by (metis drop_all length_replicate list.size(3) not_less not_less_zero order_less_le_trans zero_less_Suc)
  then have "p ! i = drop i p ! 0" by simp
  also have "\<dots> = 0xff" using Suc.prems by (cases k) simp_all
  finally have b: "p ! i = 0xff" .
  have "drop (i + 1) p = replicate (k - 1) 0xff"
    using arg_cong [OF Suc.prems(1), of "drop 1"] by simp
  then show ?case using Suc.IH [of "i + 1" "k - 1"] Suc.prems(2) l b by simp
qed simp

lemma loop_padding:
  assumes e: "env_ok e" and c: "dc_data c = []" and d: "drop off (de_payload e) = replicate k 0xff" and o: "off \<le> 184"
  shows "dec_loop (Suc n) e pusi (of_nat off) pu c tmp = Inr (Done, c, tmp)"
proof -
  obtain pp where pp: "mp_pp (de_frame e) = Inr pp" and l: "length (de_payload e) = 184" and u: "de_up e = up"
    using e by (auto simp: env_ok_def)
  have k: "k = 184 - off" using arg_cong [OF d, of length] l by simp
  have uo: "unat (of_nat off :: u32) = off" by (rule u32_of_nat_id) (use o in simp)
  have pad: "dec_padding (de_payload e) (of_nat off) c tmp = Inr (Done, c, tmp)"
    using pad_bytes_ff [OF d, of "184 - off"] k o by (auto simp: dec_padding_def uo TS_DATASIZE_def)
  have av: "of_nat TS_DATASIZE - of_nat off = (of_nat (184 - off) :: u32)" by (rule word_avail [OF o])
  have uav: "unat (of_nat (184 - off) :: u32) = 184 - off" by (rule u32_of_nat_id) simp
  show ?thesis
  proof (cases "184 - off < eh_min up")
    case True
    then show ?thesis by (simp only: dec_loop.simps Let_def av uav u if_True pad)
  next
    case False
    then have i: "off + 1 < 184" using min_bounds(1) by simp
    have b: "de_payload e ! off = 0xff" "de_payload e ! (off + 1) = 0xff"
    proof -
      have "de_payload e ! (off + j) = 0xff" if "j < 2" for j
      proof -
        have "drop off (de_payload e) ! j = 0xff" unfolding d using that i k by simp
        then show ?thesis using that i l by simp
      qed
      from this [of 0] this [of 1] show "de_payload e ! off = 0xff" "de_payload e ! (off + 1) = 0xff" by simp_all
    qed
    have uo1: "unat (of_nat off + 1 :: u32) = off + 1" using u32_of_nat_id [of "off + 1"] i by (simp add: add.commute)
    have "dec_head e (of_nat off) again c tmp = Inr Padding" for again
      using b i c l by (simp add: dec_head_def dc_length_def uo uo1)
    then show ?thesis
      using False by (simp only: dec_loop.simps Let_def av uav u if_False res_bind_simps turn.case pad pp)
  qed
qed

lemma loop_full: "env_ok e \<Longrightarrow> dec_loop (Suc n) e pusi (of_nat 184) pu c tmp = Inr (Done, c, tmp)"
  using min_bounds(1) word_avail [of 184]
  by (auto simp: env_ok_def dec_padding_def TS_DATASIZE_def dec_loop.simps)

definition tail_ok :: "data \<Rightarrow> data \<Rightarrow> nat \<Rightarrow> bool" where
  "tail_ok y x k \<longleftrightarrow> (y = [] \<and> x = []) \<or> (y \<noteq> [] \<and> x \<noteq> [] \<and> ok (y @ x) \<and> eh_min up \<le> length y \<and> k = 0)"

lemma loop_rest:
  assumes e: "env_ok e" and c: "dc_data c = []" and ss: "\<forall>s \<in> set ss. ok s" and t: "tail_ok y x k"
    and d: "drop off (de_payload e) = concat ss @ y @ replicate k 0xff" and o: "off \<le> 184"
  obtains l where "dec_loop (length ss + Suc (Suc n)) e pusi (of_nat off) pu c tmp
      = Inr (Done, c\<lparr>dc_data := y, dc_sndu_len := l\<rparr>, tmp @ concat (map (sndu_packet (de_packet e)) ss))"
    "y \<noteq> [] \<longrightarrow> l = of_nat (length (y @ x))"
proof -
  obtain pu1 l where w: "dec_loop (length ss + Suc (Suc n)) e pusi (of_nat off) pu c tmp
    = dec_loop (Suc (Suc n)) e pusi (of_nat (off + length (concat ss))) pu1 (c\<lparr>dc_sndu_len := l\<rparr>)
        (tmp @ concat (map (sndu_packet (de_packet e)) ss))"
    using loop_whole [OF e c ss d o] by blast
  let ?o = "off + length (concat ss)" and ?tmp = "tmp @ concat (map (sndu_packet (de_packet e)) ss)"
  let ?c = "c\<lparr>dc_sndu_len := l\<rparr>"
  have d1: "drop ?o (de_payload e) = y @ replicate k 0xff"
    using arg_cong [OF d, of "drop (length (concat ss))"] by (simp add: add.commute)
  have lp: "length (de_payload e) = 184" using e by (simp add: env_ok_def)
  have o1: "?o \<le> 184" using arg_cong [OF d, of length] lp o by simp
  show ?thesis
  proof (cases "y = []")
    case True
    have dp: "drop ?o (de_payload e) = replicate k 0xff" using d1 True by simp
    have dc: "dc_data ?c = []" using c by simp
    have "dec_loop (Suc (Suc n)) e pusi (of_nat ?o) pu1 ?c ?tmp = Inr (Done, ?c, ?tmp)"
      by (rule loop_padding [OF e dc dp o1])
    moreover have "?c = c\<lparr>dc_data := y, dc_sndu_len := l\<rparr>" using c True by (cases c) simp
    ultimately show ?thesis using that [of l] w True by simp
  next
    case False
    then have y: "x \<noteq> []" "ok (y @ x)" "eh_min up \<le> length y" "k = 0" using t by (auto simp: tail_ok_def)
    have ly: "?o + length y = 184" using arg_cong [OF d1, of length] lp o1 y(4) by simp
    have ls: "length (y @ x) < 4294967296" using ok_length [OF y(2)] by simp
    let ?c1 = "?c\<lparr>dc_sndu_len := of_nat (length (y @ x))\<rparr>"
    obtain pu2 where "dec_loop (Suc (Suc n)) e pusi (of_nat ?o) pu1 ?c ?tmp =
      (if length y = length (y @ x)
       then dec_loop (Suc n) e pusi (of_nat (?o + length (y @ x))) pu2 (?c1\<lparr>dc_data := []\<rparr>)
              (?tmp @ sndu_packet (de_packet e) ([] @ y))
       else dec_loop (Suc n) e pusi (of_nat 184) pu2 (?c1\<lparr>dc_data := [] @ y\<rparr>) ?tmp)"
    proof (rule loop_take [OF e, of ?o ?c ?tmp ?c1 "[]" "length (y @ x)" y "Suc n" pusi pu1])
      show "dec_head e (of_nat ?o) again ?c ?tmp = Inr (Take ?c1)" for again
        by (rule head_new [OF e _ y(2,3)]) (use c d1 y(4) in auto)
      show "y = take (length (y @ x)) (drop ?o (de_payload e))" unfolding d1 y(4) by simp
    qed (use ly y ls c False in auto)
    then have "dec_loop (Suc (Suc n)) e pusi (of_nat ?o) pu1 ?c ?tmp = Inr (Done, ?c1\<lparr>dc_data := y\<rparr>, ?tmp)"
      using y(1) loop_full [OF e] by simp
    then show ?thesis using that [of "of_nat (length (y @ x))"] w by simp
  qed
qed

section \<open>Frames\<close>

text \<open>
  \<open>carries (pre, x) t ss y k (pre', x')\<close>: before the frame the receiver holds \<open>pre\<close> of an SNDU of which
  \<open>x\<close> is still to come, after it \<open>pre'\<close> and \<open>x'\<close> (all empty between two SNDUs).
\<close>

definition carries :: "data \<times> data \<Rightarrow> data \<Rightarrow> data list \<Rightarrow> data \<Rightarrow> nat \<Rightarrow> data \<times> data \<Rightarrow> bool" where
  "carries px t ss y k px' \<longleftrightarrow> (case px of (pre, x) \<Rightarrow> case px' of (pre', x') \<Rightarrow>
     (\<forall>s \<in> set ss. ok s) \<and> (if pre = [] then x = [] else x \<noteq> [] \<and> ok (pre @ x))
     \<and> ((x = t \<and> tail_ok y x' k \<and> pre' = y)
        \<or> (pre \<noteq> [] \<and> t \<noteq> [] \<and> x = t @ x' \<and> x' \<noteq> [] \<and> ss = [] \<and> y = [] \<and> k = 0 \<and> pre' = pre @ t)))"

definition holds :: "dctx \<Rightarrow> data \<times> data \<Rightarrow> bool" where
  "holds c px \<longleftrightarrow> dc_data c = fst px
     \<and> (fst px \<noteq> [] \<longrightarrow> dc_sndu_len c = of_nat (length (fst px) + length (snd px)))"

definition completed :: "data \<times> data \<Rightarrow> data \<Rightarrow> data list \<Rightarrow> data list" where
  "completed px t ss = (if fst px \<noteq> [] \<and> snd px = t then [fst px @ t] else []) @ ss"

lemma two_bytes_each: "\<forall>s \<in> set ss. ok s \<Longrightarrow> 2 * length ss \<le> length (concat ss)"
proof (induction ss)
  case (Cons s ss)
  then show ?case using ok_length [of s] min_bounds(1) by simp
qed simp

lemma loop_carried:
  assumes e: "env_ok e" and h: "holds c px" and cr: "carries px t ss y k px'"
    and d: "drop off (de_payload e) = t @ concat ss @ y @ replicate k 0xff" and o: "off \<le> 1"
  obtains c' where "dec_loop (length (de_payload e) + 2) e pusi (of_nat off) pu c tmp
      = Inr (Done, c', tmp @ concat (map (sndu_packet (de_packet e)) (completed px t ss)))"
    "holds c' px'" "dc_cc c' = dc_cc c" "dc_need_pusi c' = dc_need_pusi c"
proof -
  obtain pre x pre' x' where px: "px = (pre, x)" "px' = (pre', x')" by (cases px, cases px')
  have lp: "length (de_payload e) = 184" using e by (simp add: env_ok_def)
  have ss: "\<forall>s \<in> set ss. ok s" using cr px by (simp add: carries_def)
  have lt: "off + length t + length (concat ss) + length y + k = 184"
    using arg_cong [OF d, of length] lp o by simp
  have few: "2 * length ss \<le> 184" using two_bytes_each [OF ss] lt by simp
  have fuel: "length (de_payload e) + 2 = Suc (length ss + Suc (Suc (183 - length ss)))"
    "length (de_payload e) + 2 = length ss + Suc (Suc (184 - length ss))"
    using few lp by simp_all
  show ?thesis
  proof (cases "pre = []")
    case True
    then have x: "x = []" "t = []" "pre' = y" and tl: "tail_ok y x' k"
      using cr px by (auto simp: carries_def)
    have dc: "dc_data c = []" using h px True by (simp add: holds_def)
    have d0: "drop off (de_payload e) = concat ss @ y @ replicate k 0xff" using d x by simp
    have o2: "off \<le> 184" using o by simp
    obtain l where l: "dec_loop (length ss + Suc (Suc (184 - length ss))) e pusi (of_nat off) pu c tmp
        = Inr (Done, c\<lparr>dc_data := y, dc_sndu_len := l\<rparr>, tmp @ concat (map (sndu_packet (de_packet e)) ss))"
        "y \<noteq> [] \<longrightarrow> l = of_nat (length (y @ x'))"
      using loop_rest [OF e dc ss tl d0 o2] by blast
    show ?thesis
      by (rule that [of "c\<lparr>dc_data := y, dc_sndu_len := l\<rparr>"], unfold fuel(2))
        (use l px x True in \<open>simp_all add: completed_def holds_def\<close>)
  next
    case False
    then have x: "x \<noteq> []" "ok (pre @ x)" using cr px by (auto simp: carries_def)
    have dc: "dc_data c = pre" "dc_sndu_len c = of_nat (length pre + length x)"
      using h px False by (simp_all add: holds_def)
    have small: "length pre + length x < 4294967296" using ok_length [OF x(2)] by simp
    have hd: "dec_head e (of_nat off) again c tmp = Inr (Take c)" for again
      by (rule head_cont [OF dc(1) False dc(2) _ small]) (use x in simp)
    have min: "off + eh_min up \<le> 184" using min_bounds(2) o by simp
    let ?t = "take (length x) (drop off (de_payload e))"
    obtain pu1 where step: "dec_loop (Suc (length ss + Suc (Suc (183 - length ss)))) e pusi (of_nat off) pu c tmp =
      (if length ?t = length x
       then dec_loop (length ss + Suc (Suc (183 - length ss))) e pusi (of_nat (off + length x)) pu1 (c\<lparr>dc_data := []\<rparr>)
            (tmp @ sndu_packet (de_packet e) (pre @ ?t))
       else dec_loop (length ss + Suc (Suc (183 - length ss))) e pusi (of_nat 184) pu1 (c\<lparr>dc_data := pre @ ?t\<rparr>) tmp)"
      using loop_take [OF e min hd dc _ small refl] x(1) by blast
    consider (fin) "x = t" "tail_ok y x' k" "pre' = y"
      | (mid) "t \<noteq> []" "x = t @ x'" "x' \<noteq> []" "ss = []" "y = []" "k = 0" "pre' = pre @ t"
      using cr px by (auto simp: carries_def)
    then show ?thesis
    proof cases
      case fin
      have tt: "?t = t" unfolding d fin(1) by simp
      have d1: "drop (off + length x) (de_payload e) = concat ss @ y @ replicate k 0xff"
        using arg_cong [OF d, of "drop (length t)"] by (simp add: fin(1) add.commute)
      have o2: "off + length x \<le> 184" using lt fin(1) by simp
      have dn: "dc_data (c\<lparr>dc_data := []\<rparr>) = []" by simp
      obtain l where l: "dec_loop (length ss + Suc (Suc (183 - length ss))) e pusi (of_nat (off + length x)) pu1
            (c\<lparr>dc_data := []\<rparr>) (tmp @ sndu_packet (de_packet e) (pre @ t))
          = Inr (Done, c\<lparr>dc_data := []\<rparr>\<lparr>dc_data := y, dc_sndu_len := l\<rparr>,
              (tmp @ sndu_packet (de_packet e) (pre @ t)) @ concat (map (sndu_packet (de_packet e)) ss))"
          "y \<noteq> [] \<longrightarrow> l = of_nat (length (y @ x'))"
        using loop_rest [OF e dn ss fin(2) d1 o2] by blast
      have "length ?t = length x" using arg_cong [OF tt, of length] fin(1) by (simp only:)
      then have "dec_loop (length (de_payload e) + 2) e pusi (of_nat off) pu c tmp
          = Inr (Done, c\<lparr>dc_data := y, dc_sndu_len := l\<rparr>,
              (tmp @ sndu_packet (de_packet e) (pre @ t)) @ concat (map (sndu_packet (de_packet e)) ss))"
        unfolding fuel(1) step if_P [OF \<open>length ?t = length x\<close>] unfolding tt l(1) by simp
      then show ?thesis
        by (intro that [of "c\<lparr>dc_data := y, dc_sndu_len := l\<rparr>"])
          (use l(2) px fin False in \<open>simp_all add: completed_def holds_def\<close>)
    next
      case mid
      have tt: "?t = t" unfolding d using mid by simp
      have "dec_loop (length (de_payload e) + 2) e pusi (of_nat off) pu c tmp = Inr (Done, c\<lparr>dc_data := pre @ t\<rparr>, tmp)"
        unfolding fuel(1) step tt using mid loop_full [OF e, of 184] by simp
      then show ?thesis
        by (intro that [of "c\<lparr>dc_data := pre @ t\<rparr>"])
          (use px mid dc in \<open>simp_all add: completed_def holds_def\<close>)
    qed
  qed
qed

text \<open>What the analysis reads of a frame.\<close>

definition frame_env :: "dec_env \<Rightarrow> u16 \<Rightarrow> u8 \<Rightarrow> data \<Rightarrow> data list \<Rightarrow> data \<Rightarrow> nat \<Rightarrow> bool" where
  "frame_env e pid cc t ss y k \<longleftrightarrow> de_up e = up \<and> de_payload e = fr_payload t ss y k
     \<and> de_frame e = fr_header pid cc (fr_pusi ss y) @ fr_payload t ss y k
     \<and> length (fr_payload t ss y k) = 184 \<and> unat pid < 8192 \<and> unat cc < 16"

lemma frame_envD:
  assumes "frame_env e pid cc t ss y k"
  shows "mp_pusi (de_frame e) = Inr (fr_pusi ss y)" "mp_cc (de_frame e) = Inr cc" "env_ok e"
    and "fr_pusi ss y \<Longrightarrow> mp_pp (de_frame e) = Inr (of_nat (length t))"
    and "fr_pusi ss y \<Longrightarrow> length t < 184"
    and "drop (if fr_pusi ss y then 1 else 0) (de_payload e) = t @ concat ss @ y @ replicate k 0xff"
proof -
  have f: "de_frame e = fr_header pid cc (fr_pusi ss y) @ fr_payload t ss y k" "unat pid < 8192" "unat cc < 16"
    "length (fr_payload t ss y k) = 184" "de_payload e = fr_payload t ss y k" "de_up e = up"
    using assms by (simp_all add: frame_env_def)
  show "mp_pusi (de_frame e) = Inr (fr_pusi ss y)" "mp_cc (de_frame e) = Inr cc"
    unfolding f(1) by (simp_all add: fr_header_fields f(2,3))
  have "mp_pp (de_frame e) = Inr (fr_payload t ss y k ! 0)"
    unfolding f(1) mp_pp_def using f(4) by (simp add: at_res_def nth_append)
  then show "env_ok e" "fr_pusi ss y \<Longrightarrow> mp_pp (de_frame e) = Inr (of_nat (length t))"
    using f(4-6) by (simp add: env_ok_def, simp add: fr_payload_def)
  show "fr_pusi ss y \<Longrightarrow> length t < 184" using f(4) by (simp add: fr_payload_def)
  show "drop (if fr_pusi ss y then 1 else 0) (de_payload e) = t @ concat ss @ y @ replicate k 0xff"
    by (simp add: f(5) fr_payload_def)
qed

lemma body_loop:
  assumes "frame_env e pid cc t ss y k"
  shows "dec_body e (fr_pusi ss y) off c tmp
    = dec_loop (length (de_payload e) + 2) e (fr_pusi ss y) off False c tmp"
proof (cases "fr_pusi ss y")
  case True
  have "unat (of_nat (length t) :: u8) = length t"
    by (rule u8_of_nat_id) (use frame_envD(5) [OF assms True] in simp)
  then show ?thesis
    using True frame_envD(4) [OF assms True] frame_envD(5) [OF assms True]
    by (simp add: dec_body_def TS_DATASIZE_def)
qed (simp add: dec_body_def)

definition synced :: "u8 \<Rightarrow> data \<times> data \<Rightarrow> dctx \<Rightarrow> bool" where
  "synced cc px c \<longleftrightarrow> \<not> dc_need_pusi c \<and> dc_cc c = cc \<and> holds c px"

definition lost :: "dctx \<Rightarrow> bool" where
  "lost c \<longleftrightarrow> dc_need_pusi c \<and> dc_data c = []"

abbreviation "out e ss \<equiv> concat (map (sndu_packet (de_packet e)) ss)"

lemma next_cc: "unat cc < 16 \<Longrightarrow> cc = of_nat ((unat cc0 + 1) mod 16) \<Longrightarrow> of_nat (unat cc mod 16) = cc"
  by simp

text \<open>A frame in sequence.\<close>

lemma restart_synced:
  assumes e: "frame_env e pid cc t ss y k" and s: "synced cc0 px c" and cc: "cc = of_nat ((unat cc0 + 1) mod 16)"
    and cr: "carries px t ss y k px'"
  obtains c' where "dec_restart (Suc n) e c tmp = Inr (True, c', tmp @ out e (completed px t ss))" "synced cc px' c'"
proof -
  let ?o = "if fr_pusi ss y then 1 else 0 :: nat" and ?c = "dc_incCc c"
  have h: "holds ?c px" using s by (simp add: synced_def holds_def dc_incCc_def)
  obtain c' where c': "dec_loop (length (de_payload e) + 2) e (fr_pusi ss y) (of_nat ?o) False ?c tmp
      = Inr (Done, c', tmp @ out e (completed px t ss))"
      "holds c' px'" "dc_cc c' = dc_cc ?c" "dc_need_pusi c' = dc_need_pusi ?c"
    by (rule loop_carried [OF frame_envD(3) [OF e] h cr frame_envD(6) [OF e],
          where pusi = "fr_pusi ss y" and pu = False and tmp = tmp]) simp_all
  have o: "(if fr_pusi ss y then 1 else 0) = (of_nat ?o :: u32)" by simp
  have "dec_restart (Suc n) e c tmp = Inr (True, c', tmp @ out e (completed px t ss))"
    using s cc c'(1) unfolding dec_restart.simps body_loop [OF e] o frame_envD(1,2) [OF e]
    by (simp add: synced_def dc_incCc_def frame_envD(1,2) [OF e] body_loop [OF e] Let_def split: if_splits)
  moreover have "synced cc px' c'"
    using c' s cc by (simp add: synced_def dc_incCc_def)
  ultimately show ?thesis using that by blast
qed

text \<open>A frame without context: only what starts in it counts.\<close>

lemma restart_lost:
  assumes e: "frame_env e pid cc t ss y k" and l: "lost c" and cr: "carries px t ss y k px'"
  obtains (pusi) c' where "fr_pusi ss y" "dec_restart (Suc n) e c tmp = Inr (True, c', tmp @ out e ss)" "synced cc px' c'"
    | (no_pusi) "\<not> fr_pusi ss y" "dec_restart (Suc n) e c tmp = Inr (False, c, [])"
proof (cases "fr_pusi ss y")
  case False
  then have "dec_restart (Suc n) e c tmp = Inr (False, c, [])"
    using l by (simp add: dec_restart.simps frame_envD(1,2) [OF e] lost_def Let_def)
  with False show ?thesis using no_pusi by blast
next
  case True
  note ev = frame_envD [OF e]
  let ?c = "dc_set_need_pusi False (dc_setCc cc c)"
  have c: "dc_data ?c = []" using l by (simp add: lost_def dc_set_need_pusi_def dc_setCc_def)
  have cs: "\<forall>s \<in> set ss. ok s" "tail_ok y (snd px') k" "fst px' = y"
    using cr True by (cases px; cases px'; auto simp: carries_def fr_pusi_def)+
  have lt: "length t < 184" by (rule ev(5) [OF True])
  have d: "drop (1 + length t) (de_payload e) = concat ss @ y @ replicate k 0xff"
    using arg_cong [OF ev(6), of "drop (length t)"] True by (simp add: add.commute)
  have few: "2 * length ss \<le> 184"
    using two_bytes_each [OF cs(1)] arg_cong [OF d, of length] ev(3) by (simp add: env_ok_def)
  have fuel: "length (de_payload e) + 2 = length ss + Suc (Suc (184 - length ss))"
    using few ev(3) by (simp add: env_ok_def)
  obtain m where m: "dec_loop (length (de_payload e) + 2) e (fr_pusi ss y) (of_nat (1 + length t)) False ?c tmp
      = Inr (Done, ?c\<lparr>dc_data := y, dc_sndu_len := m\<rparr>, tmp @ out e ss)"
      "y \<noteq> [] \<longrightarrow> m = of_nat (length (y @ snd px'))"
    unfolding fuel using loop_rest [OF ev(3) c cs(1,2) d] lt by (metis Suc_leI plus_1_eq_Suc)
  have bl: "dec_body e True off c tmp = dec_loop (length (de_payload e) + 2) e True off False c tmp" for off c tmp
    using body_loop [OF e] True by simp
  have off: "1 + ucast (of_nat (length t) :: u8) = (of_nat (1 + length t) :: u32)"
  proof -
    have "unat (of_nat (length t) :: u8) = length t" by (rule u8_of_nat_id) (use lt in simp)
    then have "ucast (of_nat (length t) :: u8) = (of_nat (length t) :: u32)"
      by (metis of_nat_unat ucast_id unsigned_word_eqI of_nat_unat)
    then show ?thesis by simp
  qed
  have "dec_restart (Suc n) e c tmp = Inr (True, ?c\<lparr>dc_data := y, dc_sndu_len := m\<rparr>, tmp @ out e ss)"
    using True l m(1) bl by (simp add: dec_restart.simps ev(1,2,4) lost_def Let_def off)
  moreover have "synced cc px' (?c\<lparr>dc_data := y, dc_sndu_len := m\<rparr>)"
    using m(2) cs(3) e by (simp add: synced_def holds_def dc_set_need_pusi_def dc_setCc_def frame_env_def)
  ultimately show ?thesis using pusi True by blast
qed

text \<open>A frame out of sequence: as without context.\<close>

lemma restart_gap:
  assumes e: "frame_env e pid cc t ss y k" and s: "synced cc0 px c" and cc: "cc \<noteq> of_nat ((unat cc0 + 1) mod 16)"
  obtains c1 where "lost c1" "dec_restart (Suc (Suc n)) e c tmp = dec_restart (Suc n) e c1 tmp
    \<or> (\<not> fr_pusi ss y \<and> dec_restart (Suc (Suc n)) e c tmp = Inr (False, c1, []))"
proof (rule that)
  let ?c1 = "dc_set_need_pusi True (dc_reset (dc_incCc c))"
  have r: "dec_restart (Suc (Suc n)) e c tmp
      = (if fr_pusi ss y then dec_restart (Suc n) e ?c1 tmp else Inr (False, ?c1, []))"
    using s cc by (subst dec_restart.simps)
      (simp add: frame_envD(1,2) [OF e] synced_def dc_incCc_def Let_def)
  show "lost ?c1" by (simp add: lost_def dc_set_need_pusi_def dc_reset_def)
  show "dec_restart (Suc (Suc n)) e c tmp = dec_restart (Suc n) e ?c1 tmp
    \<or> (\<not> fr_pusi ss y \<and> dec_restart (Suc (Suc n)) e c tmp = Inr (False, ?c1, []))"
    unfolding r by simp
qed

end

end
