(* ===== verification/MpegSend.thy ===== *)
theory MpegSend
  imports MpegRcv
begin

text \<open>
  The sender of MPEG2-TS frames: what \<open>encapMpeg\<close> emits is a chain of frames in the sense of
  \<open>MpegRcv\<close>, each one carrying on what the one before has begun, and the context that stays open holds
  the rest. \<open>pending\<close> are the SNDUs that will be complete with the open frame.
\<close>

section \<open>Chains of frames\<close>

type_synonym fdesc = "(data \<times> data) \<times> data \<times> data list \<times> data \<times> nat"

definition fd_bytes :: "u16 \<Rightarrow> u8 \<Rightarrow> fdesc \<Rightarrow> data" where
  "fd_bytes pid cc d = (case d of (px, t, ss, y, k) \<Rightarrow> fr_header pid cc (fr_pusi ss y) @ fr_payload t ss y k)"

definition next_counter :: "u8 \<Rightarrow> u8" where
  "next_counter cc = of_nat ((unat cc + 1) mod 16)"

fun fd_frames :: "u16 \<Rightarrow> u8 \<Rightarrow> fdesc list \<Rightarrow> data list" where
  "fd_frames pid cc [] = []"
| "fd_frames pid cc (d # ds) = fd_bytes pid cc d # fd_frames pid (next_counter cc) ds"

definition counter_after :: "u8 \<Rightarrow> nat \<Rightarrow> u8" where
  "counter_after cc n = (next_counter ^^ n) cc"

text \<open>The packet made of a frame.\<close>

definition ts_packet :: "u16 \<Rightarrow> spot_id_t \<Rightarrow> data \<Rightarrow> net_packet" where
  "ts_packet pid spot d = (new_net_packet d)\<lparr>np_name := ''MPEG2-TS'', np_type := NET_PROTO_MPEG,
     np_header_length := TS_HEADERSIZE, np_src_tal_id := pid_src pid, np_dst_tal_id := pid_dst pid,
     np_qos := pid_qos pid, np_spot := spot\<rparr>"

lemma next_counter_less [simp]: "unat (next_counter cc) < 16"
proof -
  have "unat (of_nat ((unat cc + 1) mod 16) :: u8) = (unat cc + 1) mod 16"
    by (rule u8_of_nat_id) (use mod_less_divisor [of 16 "unat cc + 1"] in linarith)
  then show ?thesis by (simp add: next_counter_def)
qed

lemma counter_after_simps [simp]:
  "counter_after cc 0 = cc" "counter_after cc (Suc n) = counter_after (next_counter cc) n"
  by (simp_all add: counter_after_def funpow_Suc_right del: funpow.simps(2))

lemma counter_after_add: "counter_after (counter_after cc m) n = counter_after cc (m + n)"
  by (induction m arbitrary: cc) simp_all

lemma counter_after_next: "next_counter (counter_after cc n) = counter_after (next_counter cc) n"
  using counter_after_add [of cc n 1] counter_after_add [of cc 1 n] by simp

lemma fd_frames_append:
  "fd_frames pid cc (ds @ es) = fd_frames pid cc ds @ fd_frames pid (counter_after cc (length ds)) es"
  by (induction ds arbitrary: cc) simp_all

lemma fr_header_reset: "ec_frame (ec_reset c) = fr_header (ec_pid c) (next_counter (ec_cc c)) False"
  by (simp add: ec_reset_def ec_initFrame_def ec_header_def fr_header_def next_counter_def)

lemma ec_reset_fields [simp]:
  "ec_pid (ec_reset c) = ec_pid c" "ec_cc (ec_reset c) = next_counter (ec_cc c)" "ec_spot (ec_reset c) = ec_spot c"
  by (simp_all add: ec_reset_def ec_initFrame_def next_counter_def)

lemma emit_frame:
  assumes "ec_frame c = fr_header pid cc p @ d" "unat pid < 8192" "unat cc < 16" "nb_limit b = 0"
  shows "ec_emit spot c b = Inr (ec_reset c, nb_append [ts_packet pid spot (ec_frame c)] b)"
  using fr_header_fields(2) [OF assms(2,3)] assms(1,4)
  by (simp add: ec_emit_def new_mpeg_packet_def ts_packet_def nb_append_def)

lemma left_room: "length (ec_frame c) \<le> 188 \<Longrightarrow> unat (ec_left c) = 188 - length (ec_frame c)"
proof -
  assume "length (ec_frame c) \<le> 188"
  then have "ec_left c = of_nat (188 - length (ec_frame c))"
    by (simp add: ec_left_def ec_length_def TS_PACKETSIZE_def of_nat_diff)
  then show ?thesis by (simp only: u32_of_nat_id)
qed

lemma left_zero: "length (ec_frame c) \<le> 188 \<Longrightarrow> ec_left c = 0 \<longleftrightarrow> length (ec_frame c) = 188"
  using left_room [of c] by (auto simp: unat_eq_zero [symmetric])

lemma fill_step:
  assumes "length (ec_frame c) < 188" "d \<noteq> []"
  shows "ec_fill spot d c b =
    (let room = 188 - length (ec_frame c)
     in if length d < room then Inr (c\<lparr>ec_frame := ec_frame c @ d\<rparr>, b)
        else res_bind (ec_emit spot (c\<lparr>ec_frame := ec_frame c @ take room d\<rparr>) b)
               (\<lambda>(c2, b2). ec_fill spot (drop room d) c2 b2))"
proof -
  have r: "unat (ec_left c) = 188 - length (ec_frame c)" using left_room assms(1) by simp
  have z: "ec_left (c\<lparr>ec_frame := ec_frame c @ take n d\<rparr>) = 0 \<longleftrightarrow> length (ec_frame c) + min (length d) n = 188"
    if "n \<le> 188 - length (ec_frame c)" for n
    using left_zero [of "c\<lparr>ec_frame := ec_frame c @ take n d\<rparr>"] that assms(1) by simp
  show ?thesis
  proof (cases "length d < 188 - length (ec_frame c)")
    case True
    then have "length (ec_frame c) + length d \<noteq> 188" by simp
    with True show ?thesis
      using assms(2) z [of "length d"] by (subst ec_fill.simps) (simp add: r Let_def ec_fill.simps [of spot "[]"])
  next
    case False
    then have m: "min (length d) (188 - length (ec_frame c)) = 188 - length (ec_frame c)" by simp
    then have "ec_left (c\<lparr>ec_frame := ec_frame c @ take (188 - length (ec_frame c)) d\<rparr>) = 0"
      using z [of "188 - length (ec_frame c)"] assms(1) by simp
    then show ?thesis
      using assms(2) False by (subst ec_fill.simps) (simp add: r Let_def m)
  qed
qed

text \<open>Setting PUSI in the header of a frame.\<close>

lemma or_64: "n < 32 \<Longrightarrow> or (of_nat n :: u8) 0x40 = of_nat (n + 64)"
proof -
  have "list_all (\<lambda>n. or (of_nat n :: u8) 0x40 = of_nat (n + 64)) [0..<32]" by code_simp
  then show "n < 32 \<Longrightarrow> ?thesis" by (simp add: list_all_iff)
qed

lemma set_pusi: "(fr_header pid cc False @ r)[1 := or ((fr_header pid cc False @ r) ! 1) 0x40] = fr_header pid cc True @ r"
  using or_64 [of "unat pid div 256 mod 32"] by (simp add: fr_header_def del: of_nat_add)

context mpeg_upper
begin

fun chain :: "data \<times> data \<Rightarrow> fdesc list \<Rightarrow> data \<times> data \<Rightarrow> bool" where
  "chain px [] px' = (px = px')"
| "chain px ((px0, t, ss, y, k) # ds) px' =
     (px0 = px \<and> length (fr_payload t ss y k) = 184 \<and> (\<exists>px1. carries px t ss y k px1 \<and> chain px1 ds px'))"

definition fd_sndus :: "fdesc list \<Rightarrow> data list" where
  "fd_sndus ds = concat (map (\<lambda>(px, t, ss, y, k). completed px t ss) ds)"

lemma fd_sndus_simps [simp]:
  "fd_sndus [] = []" "fd_sndus ((px, t, ss, y, k) # ds) = completed px t ss @ fd_sndus ds"
  "fd_sndus (ds @ es) = fd_sndus ds @ fd_sndus es"
  by (simp_all add: fd_sndus_def)

lemma chain_append: "chain px ds px1 \<Longrightarrow> chain px1 es px2 \<Longrightarrow> chain px (ds @ es) px2"
  by (induction px ds px1 rule: chain.induct) auto

text \<open>
  An open frame: the receiver holds \<open>pre\<close>, the frame holds the rest \<open>t\<close> of that SNDU and whole SNDUs
  \<open>ss\<close>; PUSI is set when one of these starts in it.
\<close>

definition opened :: "ectx \<Rightarrow> data \<times> data \<Rightarrow> data list \<Rightarrow> bool" where
  "opened c px ss \<longleftrightarrow> (case px of (pre, t) \<Rightarrow>
     ec_frame c = fr_header (ec_pid c) (ec_cc c) (ss \<noteq> []) @ (if ss \<noteq> [] then [of_nat (length t)] else []) @ t @ concat ss
     \<and> length (ec_frame c) < 188 \<and> (\<forall>s \<in> set ss. ok s)
     \<and> (if pre = [] then t = [] else t \<noteq> [] \<and> ok (pre @ t)) \<and> unat (ec_pid c) < 8192 \<and> unat (ec_cc c) < 16)"

definition pending :: "data \<times> data \<Rightarrow> data list \<Rightarrow> data list" where
  "pending px ss = completed px (snd px) ss"

lemma opened_length: "opened c px ss \<Longrightarrow> length (ec_frame c) < 188"
proof -
  assume "opened c px ss"
  then have "opened c (fst px, snd px) ss" by simp
  then show "length (ec_frame c) < 188" unfolding opened_def prod.case by blast
qed

lemma opened_fresh: "unat (ec_pid c) < 8192 \<Longrightarrow> opened (ec_reset c) ([], []) []"
  by (simp add: opened_def fr_header_reset)

lemma pending_simps [simp]:
  "pending ([], []) ss = ss" "pre \<noteq> [] \<Longrightarrow> pending (pre, t) ss = (pre @ t) # ss"
  by (simp_all add: pending_def completed_def)

text \<open>The frames after the first one of an SNDU.\<close>

lemma fill_rest:
  assumes "pre \<noteq> []" "d \<noteq> []" "ok (pre @ d)" "ec_frame c = fr_header (ec_pid c) (ec_cc c) False"
    "unat (ec_pid c) < 8192" "unat (ec_cc c) < 16" "nb_limit b = 0"
  obtains ds c' px' where
    "ec_fill spot d c b = Inr (c', nb_append (map (ts_packet (ec_pid c) spot) (fd_frames (ec_pid c) (ec_cc c) ds)) b)"
    "chain (pre, d) ds px'" "opened c' px' []" "fd_sndus ds @ pending px' [] = [pre @ d]"
    "ec_pid c' = ec_pid c" "ec_spot c' = ec_spot c" "ec_cc c' = counter_after (ec_cc c) (length ds)"
  using assms
proof (induction "length d" arbitrary: d pre c b thesis rule: less_induct)
  case less
  note a = less.prems
  have l4: "length (ec_frame c) = 4" using a(5) by simp
  have step: "ec_fill spot d c b =
    (if length d < 184 then Inr (c\<lparr>ec_frame := ec_frame c @ d\<rparr>, b)
     else res_bind (ec_emit spot (c\<lparr>ec_frame := ec_frame c @ take 184 d\<rparr>) b)
               (\<lambda>(c2, b2). ec_fill spot (drop 184 d) c2 b2))"
    using fill_step [of c d spot b] l4 a(3) by (simp add: Let_def)
  show ?case
  proof (cases "length d < 184")
    case True
    show ?thesis
      by (rule a(1) [of "c\<lparr>ec_frame := ec_frame c @ d\<rparr>" "[]" "(pre, d)"])
        (use True step a in \<open>simp_all add: opened_def\<close>)
  next
    case False
    let ?f = "fr_header (ec_pid c) (ec_cc c) False @ take 184 d"
    have em: "ec_emit spot (c\<lparr>ec_frame := ec_frame c @ take 184 d\<rparr>) b
        = Inr (ec_reset c, nb_append [ts_packet (ec_pid c) spot ?f] b)"
      using emit_frame [of "c\<lparr>ec_frame := ec_frame c @ take 184 d\<rparr>" "ec_pid c" "ec_cc c" False "take 184 d" b spot] a
      by (simp add: ec_reset_def ec_initFrame_def)
    have fb: "fd_bytes (ec_pid c) (ec_cc c) ((pre, d), take 184 d, [], [], 0) = ?f"
      by (simp add: fd_bytes_def fr_pusi_def fr_payload_def)
    have pl: "length (fr_payload (take 184 d) [] [] 0) = 184"
      using False by (simp add: fr_payload_def fr_pusi_def)
    show ?thesis
    proof (cases "length d = 184")
      case True
      have d: "take 184 d = d" "drop 184 d = []" using True by simp_all
      show ?thesis
        by (rule a(1) [of "ec_reset c" "[((pre, d), d, [], [], 0)]" "([], [])"])
          (use step em fb pl a True in \<open>simp_all add: d ec_fill.simps [of spot "[]"] opened_fresh carries_def tail_ok_def
            completed_def\<close>)
    next
      case neq: False
      let ?d = "drop 184 d" and ?pre = "pre @ take 184 d"
      have nd: "?d \<noteq> []" "?pre \<noteq> []" "length ?d < length d" using False neq a(2) by auto
      have nt: "d \<noteq> take 184 d" using nd(1) by (metis drop_eq_Nil take_all_iff)
      have cr: "carries (pre, d) (take 184 d) [] [] 0 (?pre, ?d)"
        using a(2,3,4) nd False by (auto simp: carries_def)
      let ?b = "nb_append [ts_packet (ec_pid c) spot ?f] b" and ?r = "ec_reset c"
      have p: "ok (?pre @ ?d)" "ec_frame ?r = fr_header (ec_pid ?r) (ec_cc ?r) False"
        "unat (ec_pid ?r) < 8192" "unat (ec_cc ?r) < 16" "nb_limit ?b = 0"
        using a by (simp_all add: fr_header_reset)
      obtain ds c' px' where ih0:
        "ec_fill spot ?d ?r ?b
          = Inr (c', nb_append (map (ts_packet (ec_pid ?r) spot) (fd_frames (ec_pid ?r) (ec_cc ?r) ds)) ?b)"
        "chain (?pre, ?d) ds px'" "opened c' px' []" "fd_sndus ds @ pending px' [] = [?pre @ ?d]"
        "ec_pid c' = ec_pid ?r" "ec_spot c' = ec_spot ?r" "ec_cc c' = counter_after (ec_cc ?r) (length ds)"
        by (rule less.hyps [OF nd(3) _ nd(2) nd(1) p])
      note ih = ih0 [unfolded ec_reset_fields append_assoc append_take_drop_id nb_append_simps]
      show ?thesis
        by (rule a(1) [of c' "((pre, d), take 184 d, [], [], 0) # ds" px'])
          (use step False em fb pl ih cr nt in \<open>auto simp: completed_def\<close>)
    qed
  qed
qed

text \<open>An SNDU that starts behind what the open frame holds, PUSI and the payload pointer being set.\<close>

lemma fill_sndu:
  assumes s: "ok s" and f: "ec_frame c = fr_header (ec_pid c) (ec_cc c) True @ [of_nat (length t)] @ t @ concat ss"
    and room: "length (ec_frame c) + eh_min up \<le> 188" and ss: "\<forall>u \<in> set ss. ok u"
    and px: "if pre = [] then t = [] else t \<noteq> [] \<and> ok (pre @ t)"
    and lim: "unat (ec_pid c) < 8192" "unat (ec_cc c) < 16" "nb_limit b = 0"
  obtains ds c' px' ss' where
    "ec_fill spot s c b = Inr (c', nb_append (map (ts_packet (ec_pid c) spot) (fd_frames (ec_pid c) (ec_cc c) ds)) b)"
    "chain (pre, t) ds px'" "opened c' px' ss'" "fd_sndus ds @ pending px' ss' = pending (pre, t) ss @ [s]"
    "ec_pid c' = ec_pid c" "ec_spot c' = ec_spot c" "ec_cc c' = counter_after (ec_cc c) (length ds)"
proof -
  let ?room = "188 - length (ec_frame c)"
  have r: "0 < ?room" "eh_min up \<le> ?room" "length (ec_frame c) < 188" using room min_bounds(1) by simp_all
  have ls: "s \<noteq> []" by (rule ok_ne [OF s])
  have step: "ec_fill spot s c b =
    (if length s < ?room then Inr (c\<lparr>ec_frame := ec_frame c @ s\<rparr>, b)
     else res_bind (ec_emit spot (c\<lparr>ec_frame := ec_frame c @ take ?room s\<rparr>) b)
               (\<lambda>(c2, b2). ec_fill spot (drop ?room s) c2 b2))"
    using fill_step [OF r(3) ls] by (simp add: Let_def)
  let ?y = "take ?room s" and ?x = "drop ?room s"
  let ?p = "[of_nat (length t)] @ t @ concat ss @ ?y"
  let ?f = "fr_header (ec_pid c) (ec_cc c) True @ ?p"
  have ff: "ec_frame c @ ?y = ?f" using f by simp
  have em: "ec_emit spot (c\<lparr>ec_frame := ec_frame c @ ?y\<rparr>) b
      = Inr (ec_reset c, nb_append [ts_packet (ec_pid c) spot ?f] b)"
    using emit_frame [of "c\<lparr>ec_frame := ec_frame c @ ?y\<rparr>" "ec_pid c" "ec_cc c" True ?p b spot] ff lim
    by (simp add: ec_reset_def ec_initFrame_def)
  have lp: "5 + length t + length (concat ss) + ?room = 188" using r f by simp
  consider "length s < ?room" | "length s = ?room" | "?room < length s" by linarith
  then show ?thesis
  proof cases
    case 1
    show ?thesis
      by (rule that [of "c\<lparr>ec_frame := ec_frame c @ s\<rparr>" "[]" "(pre, t)" "ss @ [s]"])
        (use 1 step f ss s px lim r in \<open>auto simp: opened_def pending_def completed_def\<close>)
  next
    case 2
    have d: "?y = s" "?x = []" using 2 by simp_all
    have fb: "fd_bytes (ec_pid c) (ec_cc c) ((pre, t), t, ss @ [s], [], 0) = ?f"
      unfolding d(1) by (simp add: fd_bytes_def fr_pusi_def fr_payload_def)
    have pl: "length (fr_payload t (ss @ [s]) [] 0) = 184"
      using lp 2 by (simp add: fr_payload_def fr_pusi_def)
    have "ec_fill spot s c b = Inr (ec_reset c, nb_append [ts_packet (ec_pid c) spot ?f] b)"
      unfolding step using 2 em d(2) by (simp add: ec_fill.simps [of spot "[]"])
    moreover have "carries (pre, t) t (ss @ [s]) [] 0 ([], [])"
      using px ss s by (auto simp: carries_def tail_ok_def)
    ultimately show ?thesis
      by (intro that [of "ec_reset c" "[((pre, t), t, ss @ [s], [], 0)]" "([], [])" "[]"])
        (use fb pl lim in \<open>simp_all add: opened_fresh pending_def completed_def\<close>)
  next
    case 3
    have ne: "?y \<noteq> []" "?x \<noteq> []" "ok (?y @ ?x)" using 3 r(1) s ls by auto
    have fb: "fd_bytes (ec_pid c) (ec_cc c) ((pre, t), t, ss, ?y, 0) = ?f"
      using ne(1) by (simp add: fd_bytes_def fr_pusi_def fr_payload_def)
    have pl: "length (fr_payload t ss ?y 0) = 184"
      using lp 3 ne(1) by (simp add: fr_payload_def fr_pusi_def)
    let ?r = "ec_reset c" and ?b = "nb_append [ts_packet (ec_pid c) spot ?f] b"
    have p: "ec_frame ?r = fr_header (ec_pid ?r) (ec_cc ?r) False" "unat (ec_pid ?r) < 8192"
      "unat (ec_cc ?r) < 16" "nb_limit ?b = 0"
      using lim by (simp_all add: fr_header_reset)
    obtain ds c' px' where rest0:
      "ec_fill spot ?x ?r ?b
        = Inr (c', nb_append (map (ts_packet (ec_pid ?r) spot) (fd_frames (ec_pid ?r) (ec_cc ?r) ds)) ?b)"
      "chain (?y, ?x) ds px'" "opened c' px' []" "fd_sndus ds @ pending px' [] = [?y @ ?x]"
      "ec_pid c' = ec_pid ?r" "ec_spot c' = ec_spot ?r" "ec_cc c' = counter_after (ec_cc ?r) (length ds)"
      by (rule fill_rest [OF ne p])
    note rest = rest0 [unfolded ec_reset_fields append_take_drop_id nb_append_simps]
    have "length ?y = ?room" using 3 by simp
    then have "carries (pre, t) t ss ?y 0 (?y, ?x)"
      using px ss ne r(2) by (auto simp: carries_def tail_ok_def)
    then show ?thesis
      by (intro that [of c' "((pre, t), t, ss, ?y, 0) # ds" px' "[]"])
        (use 3 step em fb pl rest in \<open>auto simp: pending_def completed_def\<close>)
  qed
qed

section \<open>One SNDU in the context of its PID\<close>

definition room_ok :: "ectx \<Rightarrow> data list \<Rightarrow> bool" where
  "room_ok c ss \<longleftrightarrow> length (ec_frame c) + eh_min up + (if ss \<noteq> [] then 0 else 1) \<le> 188"

lemma opened_pusi: "opened c px ss \<Longrightarrow> ec_pusi c = Inr (ss \<noteq> [])"
  by (cases px) (simp add: opened_def ec_pusi_def fr_header_fields)

text \<open>The payload pointer leads to the first SNDU that starts in the frame.\<close>

lemma start_sndu:
  assumes "opened c (pre, t) ss" "room_ok c ss"
  obtains c1 where "res_bind (ec_pusi c) (\<lambda>pusi. if \<not> pusi then res_bind (ec_setPusi c) (\<lambda>c. Inr (ec_addPP c)) else Inr c) = Inr c1"
    "ec_frame c1 = fr_header (ec_pid c) (ec_cc c) True @ [of_nat (length t)] @ t @ concat ss"
    "length (ec_frame c1) + eh_min up \<le> 188" "ec_pid c1 = ec_pid c" "ec_cc c1 = ec_cc c" "ec_spot c1 = ec_spot c"
proof (cases "ss = []")
  case True
  let ?h = "fr_header (ec_pid c) (ec_cc c)"
  have f: "ec_frame c = ?h False @ t" using assms(1) True by (simp add: opened_def)
  have sp: "ec_setPusi c = Inr (c\<lparr>ec_frame := ?h True @ t\<rparr>)"
    using set_pusi [of "ec_pid c" "ec_cc c" t] f by (simp add: ec_setPusi_def)
  have "ec_frame (ec_addPP (c\<lparr>ec_frame := ?h True @ t\<rparr>)) = ?h True @ [of_nat (length t)] @ t"
    by (cases "t = []") (simp_all add: ec_addPP_def TS_HEADERSIZE_def)
  then show ?thesis
    using opened_pusi [OF assms(1)] True sp assms(2) f
    by (intro that [of "ec_addPP (c\<lparr>ec_frame := ?h True @ t\<rparr>)"])
      (simp_all add: room_ok_def, simp_all add: ec_addPP_def)
next
  case False
  then show ?thesis
    using opened_pusi [OF assms(1)] assms by (intro that [of c]) (simp_all add: opened_def room_ok_def)
qed

lemma padding_frame:
  assumes "length (ec_frame c) < 188"
  shows "ec_padding c = c\<lparr>ec_frame := ec_frame c @ replicate (188 - length (ec_frame c)) 0xff\<rparr>"
  using left_room [of c] left_zero [of c] assms by (simp add: ec_padding_def word_gt_0)

text \<open>An open frame that is padded and sent.\<close>

lemma padded_frame:
  assumes o: "opened c px ss"
  obtains k where "fd_bytes (ec_pid c) (ec_cc c) (px, snd px, ss, [], k) = ec_frame (ec_padding c)"
    "chain px [(px, snd px, ss, [], k)] ([], [])" "fd_sndus [(px, snd px, ss, [], k)] = pending px ss"
proof -
  obtain pre t where px: "px = (pre, t)" by force
  let ?k = "188 - length (ec_frame c)"
  note o' = o [unfolded opened_def px, simplified]
  have l: "length (ec_frame c) < 188" by (rule opened_length [OF o])
  have fb: "fd_bytes (ec_pid c) (ec_cc c) (px, snd px, ss, [], ?k) = ec_frame (ec_padding c)"
    using o' by (simp add: fd_bytes_def padding_frame [OF l] fr_payload_def fr_pusi_def px)
  have "length (fd_bytes (ec_pid c) (ec_cc c) (px, snd px, ss, [], ?k)) = 188"
    unfolding fb padding_frame [OF l] using l by simp
  then have pl: "length (fr_payload t ss [] ?k) = 184" by (simp add: fd_bytes_def px)
  have "carries px (snd px) ss [] ?k ([], [])"
    using o' px by (auto simp: carries_def tail_ok_def)
  then show ?thesis
    by (intro that [of ?k]) (use fb pl px in \<open>simp_all add: pending_def\<close>)
qed

lemma emit_padded:
  assumes o: "opened c px ss" and "nb_limit b = 0"
  shows "ec_emit spot (ec_padding c) b
    = Inr (ec_reset c, nb_append [ts_packet (ec_pid c) spot (ec_frame (ec_padding c))] b)"
proof -
  obtain pre t where px: "px = (pre, t)" by force
  note o' = o [unfolded opened_def px, simplified]
  have l: "length (ec_frame c) < 188" by (rule opened_length [OF o])
  obtain d where d: "ec_frame (ec_padding c) = fr_header (ec_pid c) (ec_cc c) (ss \<noteq> []) @ d"
    using o' by (simp add: padding_frame [OF l])
  have "ec_emit spot (ec_padding c) b = Inr (ec_reset (ec_padding c), nb_append [ts_packet (ec_pid c) spot (ec_frame (ec_padding c))] b)"
    by (rule emit_frame [OF d]) (use o' assms(2) in simp_all)
  moreover have "ec_reset (ec_padding c) = ec_reset c"
    by (simp add: ec_padding_def ec_reset_def ec_initFrame_def)
  ultimately show ?thesis by simp
qed

text \<open>The whole of \<open>encap_in_ctx\<close>.\<close>

lemma encap_in_ctx_chain:
  assumes o: "opened c px ss" and r: "room_ok c ss" and s: "ok s" and lim: "nb_limit b = 0"
  obtains ds c' time px' ss' where
    "encap_in_ctx up th spot s c b
      = Inr (c', time, nb_append (map (ts_packet (ec_pid c) spot) (fd_frames (ec_pid c) (ec_cc c) ds)) b)"
    "chain px ds px'" "opened c' px' ss'" "room_ok c' ss'" "fd_sndus ds @ pending px' ss' = pending px ss @ [s]"
    "ec_pid c' = ec_pid c" "ec_spot c' = ec_spot c" "ec_cc c' = counter_after (ec_cc c) (length ds)"
    "th = 0 \<Longrightarrow> pending px' ss' = []"
proof -
  obtain pre t where px: "px = (pre, t)" by force
  obtain c1 where c1: "res_bind (ec_pusi c) (\<lambda>pusi. if \<not> pusi then res_bind (ec_setPusi c) (\<lambda>c. Inr (ec_addPP c)) else Inr c) = Inr c1"
    "ec_frame c1 = fr_header (ec_pid c) (ec_cc c) True @ [of_nat (length t)] @ t @ concat ss"
    "length (ec_frame c1) + eh_min up \<le> 188" "ec_pid c1 = ec_pid c" "ec_cc c1 = ec_cc c" "ec_spot c1 = ec_spot c"
    by (rule start_sndu [OF o [unfolded px] r])
  have op: "\<forall>u \<in> set ss. ok u" "if pre = [] then t = [] else t \<noteq> [] \<and> ok (pre @ t)"
    "unat (ec_pid c1) < 8192" "unat (ec_cc c1) < 16"
    using o px c1 by (simp_all add: opened_def)
  obtain ds c2 px2 ss2 where f:
    "ec_fill spot s c1 b = Inr (c2, nb_append (map (ts_packet (ec_pid c1) spot) (fd_frames (ec_pid c1) (ec_cc c1) ds)) b)"
    "chain (pre, t) ds px2" "opened c2 px2 ss2" "fd_sndus ds @ pending px2 ss2 = pending (pre, t) ss @ [s]"
    "ec_pid c2 = ec_pid c1" "ec_spot c2 = ec_spot c1" "ec_cc c2 = counter_after (ec_cc c1) (length ds)"
    by (rule fill_sndu [OF s _ c1(3) op lim]) (use c1 in simp_all)
  let ?u = "unat (ec_left c2)"
  have l2: "length (ec_frame c2) < 188" by (rule opened_length [OF f(3)])
  have u: "?u = 188 - length (ec_frame c2)" using left_room l2 by simp
  have enc: "encap_in_ctx up th spot s c b =
      (if th = 0 \<or> ?u < eh_min up \<or> (?u = eh_min up \<and> ss2 = [])
       then res_bind (ec_emit spot (ec_padding c2)
              (nb_append (map (ts_packet (ec_pid c1) spot) (fd_frames (ec_pid c1) (ec_cc c1) ds)) b))
            (\<lambda>(c3, b3). Inr (c3, 0, b3))
       else Inr (c2, th, nb_append (map (ts_packet (ec_pid c1) spot) (fd_frames (ec_pid c1) (ec_cc c1) ds)) b))"
  proof -
    have "encap_in_ctx up th spot s c b = res_bind (res_bind (ec_pusi c) (\<lambda>pusi. if \<not> pusi
        then res_bind (ec_setPusi c) (\<lambda>c. Inr (ec_addPP c)) else Inr c)) (\<lambda>c1.
      res_bind (ec_fill spot s c1 b) (\<lambda>(c2, b2).
      res_bind (ec_pusi c2) (\<lambda>pusi2.
       if th = 0 \<or> unat (ec_left c2) < eh_min up \<or> (unat (ec_left c2) = eh_min up \<and> \<not> pusi2)
       then res_bind (ec_emit spot (ec_padding c2) b2) (\<lambda>(c3, b3). Inr (c3, 0, b3))
       else Inr (c2, th, b2))))"
      unfolding encap_in_ctx_def res_bind_assoc ..
    then show ?thesis unfolding c1(1) by (simp add: f(1) opened_pusi [OF f(3)])
  qed
  show ?thesis
  proof (cases "th = 0 \<or> ?u < eh_min up \<or> (?u = eh_min up \<and> ss2 = [])")
    case False
    then have "room_ok c2 ss2" using u l2 by (auto simp: room_ok_def)
    then show ?thesis
      using that [of c2 th ds px2 ss2] enc False f c1 px by simp
  next
    case True
    let ?b2 = "nb_append (map (ts_packet (ec_pid c1) spot) (fd_frames (ec_pid c1) (ec_cc c1) ds)) b"
    have nl: "nb_limit ?b2 = 0" using lim by simp
    obtain k where k: "fd_bytes (ec_pid c2) (ec_cc c2) (px2, snd px2, ss2, [], k) = ec_frame (ec_padding c2)"
      "chain px2 [(px2, snd px2, ss2, [], k)] ([], [])" "fd_sndus [(px2, snd px2, ss2, [], k)] = pending px2 ss2"
      by (rule padded_frame [OF f(3)])
    note em = emit_padded [OF f(3) nl, of spot]
    have "room_ok (ec_reset c2) []" using min_bounds by (simp add: room_ok_def fr_header_reset)
    moreover have "opened (ec_reset c2) ([], []) []" by (rule opened_fresh) (use f(5) op(3) in simp)
    moreover have "chain px (ds @ [(px2, snd px2, ss2, [], k)]) ([], [])"
      using chain_append [OF f(2) k(2)] px by simp
    ultimately show ?thesis
      using enc True em k(1,3) f(4-7) c1(4-6) px
      by (intro that [of "ec_reset c2" 0 "ds @ [(px2, snd px2, ss2, [], k)]" "([], [])" "[]"])
        (simp_all add: fd_frames_append counter_after_next del: fd_sndus_simps(2))
  qed
qed

end

end
