(* ===== verification/MpegLink.thy ===== *)
theory MpegLink
  imports MpegSend "HOL-Library.Sublist"
begin

text \<open>
  The sender and the receiver of MPEG2-TS together, with all their PIDs: the frames of each PID are a
  chain that carries the SNDUs of that PID in order, and the receiver rebuilds them. With losses it
  delivers a subsequence of what was sent, never a mixture of two SNDUs.
\<close>

section \<open>A session of the sender\<close>

text \<open>Bursts to encapsulate and contexts whose timer has expired; at the end all contexts are flushed.\<close>

datatype mg_event = Encap "net_packet list" | Flush int

fun mg_send :: "encap_hdl \<Rightarrow> mg_event list \<Rightarrow> mpeg \<Rightarrow> (net_packet list \<times> mpeg) res" where
  "mg_send up [] m = res_bind (mg_flushAll m) (\<lambda>(b, m'). Inr (nb_packets b, m'))"
| "mg_send up (Encap burst # es) m =
     res_bind (mg_encapsulate up burst ([], m)) (\<lambda>(b, tms, m1).
     res_bind (mg_send up es m1) (\<lambda>(ps, m2). Inr (nb_packets b @ ps, m2)))"
| "mg_send up (Flush cid # es) m =
     res_bind (mg_flush cid m) (\<lambda>(b, m1).
     res_bind (mg_send up es m1) (\<lambda>(ps, m2).
       Inr ((case b of None \<Rightarrow> [] | Some b \<Rightarrow> nb_packets b) @ ps, m2)))"

fun event_packets :: "mg_event list \<Rightarrow> net_packet list" where
  "event_packets [] = []"
| "event_packets (Encap burst # es) = burst @ event_packets es"
| "event_packets (Flush cid # es) = event_packets es"

abbreviation "of_pid p \<equiv> filter (\<lambda>q. getPidFromPacket q = p)"

lemma pid_less: "unat (getPidFromPacket q) < 8192"
proof -
  have "unat (np_dst_tal_id q) mod 32 < 32" "unat (np_src_tal_id q) mod 32 < 32" "unat (np_qos q) mod 8 < 8"
    by simp_all
  then show ?thesis unfolding unat_getPid by linarith
qed

lemma ts_packet_pid: "unat p < 8192 \<Longrightarrow> getPidFromPacket (ts_packet p sp d) = p"
proof -
  assume p: "unat p < 8192"
  have q: "unat (of_nat (unat p mod 8) :: u8) = unat p mod 8" "unat (of_nat (unat p div 8 mod 32) :: u8) = unat p div 8 mod 32"
    "unat (of_nat (unat p div 256 mod 32) :: u8) = unat p div 256 mod 32"
    by (rule u8_of_nat_id, rule less_trans [OF mod_less_divisor], simp, simp)+
  have hi: "unat p div 256 < 32" using p by simp
  have qd: "unat (of_nat (unat p div 256) :: u8) = unat p div 256" by (rule u8_of_nat_id) (use p in simp)
  have d: "unat p div 256 = unat p div 8 div 32" by (simp add: div_mult2_eq [symmetric])
  have "unat p = unat p div 8 * 8 + unat p mod 8" "unat p div 8 = unat p div 8 div 32 * 32 + unat p div 8 mod 32"
    by simp_all
  then have "unat p = unat p div 256 * 256 + unat p div 8 mod 32 * 8 + unat p mod 8"
    unfolding d by linarith
  then have "unat (getPidFromPacket (ts_packet p sp d)) = unat p"
    unfolding unat_getPid using qd hi by (simp add: mod_less [OF hi] ts_packet_def pid_dst_def pid_src_def pid_qos_def q)
  then show ?thesis by (rule unsigned_word_eqI)
qed

lemma of_pid_ts: "unat p < 8192 \<Longrightarrow> of_pid r (map (ts_packet p sp) ds) = (if r = p then map (ts_packet p sp) ds else [])"
  by (induction ds) (auto simp: ts_packet_pid)

context mpeg_upper
begin

text \<open>The state of a PID: the frames sent so far, the SNDUs given so far, its context if there is one.\<close>

definition ctx_is :: "u16 \<Rightarrow> spot_id_t \<Rightarrow> fdesc list \<Rightarrow> data \<times> data \<Rightarrow> data list \<Rightarrow> ectx option \<Rightarrow> bool" where
  "ctx_is p sp ds px ss co \<longleftrightarrow> (case co of
     None \<Rightarrow> ds = [] \<and> px = ([], []) \<and> ss = []
   | Some c \<Rightarrow> opened c px ss \<and> room_ok c ss \<and> ec_pid c = p \<and> ec_spot c = sp
       \<and> ec_cc c = counter_after 0 (length ds))"

definition sent_by :: "u16 \<Rightarrow> spot_id_t \<Rightarrow> mpeg \<Rightarrow> net_packet list \<Rightarrow> data list \<Rightarrow> bool" where
  "sent_by p sp m frames sndus \<longleftrightarrow> (\<exists>ds px ss.
     of_pid p frames = map (ts_packet p sp) (fd_frames p 0 ds) \<and> chain ([], []) ds px
     \<and> fd_sndus ds @ pending px ss = sndus \<and> ctx_is p sp ds px ss (om_find (mg_encap m) (uint p)))"

definition sender_ok :: "spot_id_t \<Rightarrow> mpeg \<Rightarrow> net_packet list \<Rightarrow> net_packet list \<Rightarrow> bool" where
  "sender_ok sp m frames packets \<longleftrightarrow> om_wf (mg_encap m)
     \<and> (\<forall>p. unat p < 8192 \<longrightarrow> sent_by p sp m frames (map np_data (of_pid p packets)))
     \<and> (\<forall>q \<in> set frames. \<exists>p d. unat p < 8192 \<and> q = ts_packet p sp d)
     \<and> (\<forall>k c. om_find (mg_encap m) k = Some c \<longrightarrow> k = uint (ec_pid c) \<and> unat (ec_pid c) < 8192)"

lemma sender_okD: "sender_ok sp m E P \<Longrightarrow> unat p < 8192 \<Longrightarrow> sent_by p sp m E (map np_data (of_pid p P))"
  by (simp add: sender_ok_def)

lemma sender_update:
  assumes ok: "sender_ok sp m E P" and p: "unat p < 8192"
    and base: "of_pid p E = map (ts_packet p sp) (fd_frames p 0 ds)" "chain ([], []) ds px"
      "fd_sndus ds @ pending px ss = map np_data (of_pid p P)"
    and new: "chain px es px'" "opened c' px' ss'" "room_ok c' ss'" "ec_pid c' = p" "ec_spot c' = sp"
      "ec_cc c' = counter_after (counter_after 0 (length ds)) (length es)"
    and data: "fd_sndus es @ pending px' ss' = pending px ss @ map np_data Q" "\<forall>q \<in> set Q. getPidFromPacket q = p"
    and m': "om_wf (mg_encap m')" "\<And>k. om_find (mg_encap m') k = (if k = uint p then Some c' else om_find (mg_encap m) k)"
  shows "sender_ok sp m' (E @ map (ts_packet p sp) (fd_frames p (counter_after 0 (length ds)) es)) (P @ Q)"
  unfolding sender_ok_def
proof (intro conjI allI impI ballI)
  let ?fs = "map (ts_packet p sp) (fd_frames p (counter_after 0 (length ds)) es)"
  show "om_wf (mg_encap m')" by (rule m'(1))
  show "sent_by r sp m' (E @ ?fs) (map np_data (of_pid r (P @ Q)))" if r: "unat r < 8192" for r
  proof (cases "r = p")
    case True
    have q: "of_pid p Q = Q" using data(2) by (simp add: filter_id_conv)
    have "of_pid p (E @ ?fs) = map (ts_packet p sp) (fd_frames p 0 (ds @ es))"
      using base(1) of_pid_ts [OF p] by (simp add: fd_frames_append)
    moreover have "fd_sndus (ds @ es) @ pending px' ss' = map np_data (of_pid p (P @ Q))"
      using base(3) data(1) q by simp
    moreover have "ctx_is p sp (ds @ es) px' ss' (om_find (mg_encap m') (uint p))"
      using new m'(2) by (simp add: ctx_is_def counter_after_add)
    ultimately show ?thesis
      using chain_append [OF base(2) new(1)] True unfolding sent_by_def by blast
  next
    case False
    have q: "of_pid r Q = []" using data(2) False by (simp add: filter_empty_conv)
    have "of_pid r (E @ ?fs) = of_pid r E" using of_pid_ts [OF p] False by simp
    moreover have "om_find (mg_encap m') (uint r) = om_find (mg_encap m) (uint r)"
      using m'(2) False by (simp add: word_uint_eq_iff)
    ultimately show ?thesis
      using ok r q unfolding sender_ok_def sent_by_def by simp
  qed
  show "\<exists>p d. unat p < 8192 \<and> q = ts_packet p sp d" if "q \<in> set (E @ ?fs)" for q
    using that ok p by (auto simp: sender_ok_def)
  show "k = uint (ec_pid c)" "unat (ec_pid c) < 8192" if "om_find (mg_encap m') k = Some c" for k c
    using that ok m'(2) [of k] new(4) p by (auto simp: sender_ok_def split: if_splits)
qed

lemma new_ectx_opened: "unat p < 8192 \<Longrightarrow> opened (new_ectx p sp) ([], []) [] \<and> room_ok (new_ectx p sp) []
    \<and> ec_pid (new_ectx p sp) = p \<and> ec_spot (new_ectx p sp) = sp \<and> ec_cc (new_ectx p sp) = 0"
  using min_bounds by (simp add: new_ectx_def opened_def room_ok_def ec_initFrame_def ec_header_def fr_header_def)

text \<open>A packet of any PID.\<close>

lemma encapMpeg_step:
  assumes ok: "sender_ok sp m E P" and x: "np_spot x = sp" "ok (np_data x)" and lim: "nb_limit b = 0"
  obtains cid time fs m' where "encapMpeg up x b m = Inr (cid, time, nb_append fs b, m')"
    "sender_ok sp m' (E @ fs) (P @ [x])"
proof -
  let ?p = "getPidFromPacket x"
  have p: "unat ?p < 8192" by (rule pid_less)
  obtain ds px ss where sb: "of_pid ?p E = map (ts_packet ?p sp) (fd_frames ?p 0 ds)" "chain ([], []) ds px"
    "fd_sndus ds @ pending px ss = map np_data (of_pid ?p P)" "ctx_is ?p sp ds px ss (om_find (mg_encap m) (uint ?p))"
    using ok p unfolding sender_ok_def sent_by_def by blast
  obtain c m1 where fc: "find_encap_context ?p sp m = (c, m1)" by force
  have c: "ctx_is ?p sp ds px ss (Some c)"
    using sb(4) fc new_ectx_opened [OF p, of sp]
    by (auto simp: find_encap_context_def ctx_is_def Let_def split: option.splits)
  have wf: "om_wf (mg_encap m)" using ok by (simp add: sender_ok_def)
  have m1: "om_wf (mg_encap m1)" "k \<noteq> uint ?p \<Longrightarrow> om_find (mg_encap m1) k = om_find (mg_encap m) k" for k
    using fc wf by (auto simp: find_encap_context_def Let_def split: option.splits)
  note cd = c [unfolded ctx_is_def option.case]
  obtain es c' time px' ss' where e:
    "encap_in_ctx up (mg_threshold m) sp (np_data x) c b
      = Inr (c', time, nb_append (map (ts_packet (ec_pid c) sp) (fd_frames (ec_pid c) (ec_cc c) es)) b)"
    "chain px es px'" "opened c' px' ss'" "room_ok c' ss'"
    "fd_sndus es @ pending px' ss' = pending px ss @ [np_data x]"
    "ec_pid c' = ec_pid c" "ec_spot c' = ec_spot c" "ec_cc c' = counter_after (ec_cc c) (length es)"
    by (rule encap_in_ctx_chain [OF conjunct1 [OF cd] conjunct1 [OF conjunct2 [OF cd]] x(2) lim])
  let ?fs = "map (ts_packet ?p sp) (fd_frames ?p (counter_after 0 (length ds)) es)"
  let ?m = "mg_put_encap c' ?p m1"
  have "encapMpeg up x b m = Inr (uint (ec_pid c), time, nb_append ?fs b, ?m)"
    using e(1) cd by (simp add: encapMpeg_def x(1) fc Let_def)
  moreover have "sender_ok sp ?m (E @ ?fs) (P @ [x])"
    by (rule sender_update [OF ok p sb(1-3) e(2-4)])
      (use e cd wf m1 in \<open>auto simp: mg_put_encap_def\<close>)
  ultimately show ?thesis using that by blast
qed

lemma encapsulate_ok:
  assumes "sender_ok sp m E P" "\<forall>x \<in> set burst. np_spot x = sp \<and> ok (np_data x)"
  obtains fs tms' m' where "mg_encapsulate up burst (tms, m) = Inr (nb_append fs (new_net_burst 0), tms', m')"
    "sender_ok sp m' (E @ fs) (P @ burst)"
proof -
  have "\<exists>fs tms' m'. res_fold (mg_encap_step up) burst (b, tms, m) = Inr (nb_append fs b, tms', m')
      \<and> sender_ok sp m' (E @ fs) (P @ burst)" if "nb_limit b = 0" for b
    using assms that
  proof (induction burst arbitrary: b tms m E P)
    case Nil
    then show ?case by (intro exI [of _ "[]"] exI [of _ tms] exI [of _ m]) simp
  next
    case (Cons x burst)
    have x: "np_spot x = sp" "ok (np_data x)" using Cons.prems(2) by simp_all
    obtain cid time fs m1 where s: "encapMpeg up x b m = Inr (cid, time, nb_append fs b, m1)"
      "sender_ok sp m1 (E @ fs) (P @ [x])"
      by (rule encapMpeg_step [OF Cons.prems(1) x Cons.prems(3)])
    have "\<exists>gs tms' m'. res_fold (mg_encap_step up) burst (nb_append fs b, om_insert time cid tms, m1)
        = Inr (nb_append gs (nb_append fs b), tms', m') \<and> sender_ok sp m' ((E @ fs) @ gs) ((P @ [x]) @ burst)"
      using Cons.prems by (intro Cons.IH [OF s(2)]) auto
    then obtain gs tms' m' where "res_fold (mg_encap_step up) burst (nb_append fs b, om_insert time cid tms, m1)
        = Inr (nb_append (fs @ gs) b, tms', m')" "sender_ok sp m' (E @ fs @ gs) (P @ x # burst)" by auto
    moreover have "mg_encap_step up x (b, tms, m) = Inr (nb_append fs b, om_insert time cid tms, m1)"
      using s(1) by (simp add: mg_encap_step_def)
    ultimately show ?case by (intro exI [of _ "fs @ gs"]) simp
  qed
  from this [of "new_net_burst 0"] show ?thesis
    using that by (auto simp: mg_encapsulate_def new_net_burst_def)
qed

text \<open>Flushing one context, and all of them.\<close>

lemma flush_update:
  assumes ok: "sender_ok sp m E P" and c: "om_find (mg_encap m) (uint p) = Some c" "unat p < 8192"
    and m': "om_wf (mg_encap m')"
      "\<And>k. om_find (mg_encap m') k = (if k = uint p then Some (ec_reset c) else om_find (mg_encap m) k)"
  shows "sender_ok sp m' (E @ [ts_packet p sp (ec_frame (ec_padding c))]) P"
    and "nb_limit b = 0 \<Longrightarrow> ec_emit (ec_spot c) (ec_padding c) b
      = Inr (ec_reset c, nb_append [ts_packet p sp (ec_frame (ec_padding c))] b)"
proof -
  obtain ds px ss where sb: "of_pid p E = map (ts_packet p sp) (fd_frames p 0 ds)" "chain ([], []) ds px"
    "fd_sndus ds @ pending px ss = map np_data (of_pid p P)" "ctx_is p sp ds px ss (Some c)"
    using sender_okD [OF ok c(2)] unfolding sent_by_def c(1) by blast
  note cd = sb(4) [unfolded ctx_is_def option.case]
  have o: "opened c px ss" using cd by simp
  obtain k where k: "fd_bytes (ec_pid c) (ec_cc c) (px, snd px, ss, [], k) = ec_frame (ec_padding c)"
      "chain px [(px, snd px, ss, [], k)] ([], [])" "fd_sndus [(px, snd px, ss, [], k)] = pending px ss"
    by (rule padded_frame [OF o])
  have "room_ok (ec_reset c) []" using min_bounds by (simp add: room_ok_def fr_header_reset)
  moreover have "opened (ec_reset c) ([], []) []" by (rule opened_fresh) (use cd c(2) in simp)
  ultimately have "sender_ok sp m' (E @ map (ts_packet p sp)
      (fd_frames p (counter_after 0 (length ds)) [(px, snd px, ss, [], k)])) (P @ [])"
    by (intro sender_update [OF ok c(2) sb(1-3) k(2) _ _ _ _ _ _ _ m'])
      (use cd k(3) in \<open>simp_all add: counter_after_next del: fd_sndus_simps(2)\<close>)
  then show "sender_ok sp m' (E @ [ts_packet p sp (ec_frame (ec_padding c))]) P"
    using k(1) cd by simp
  show "nb_limit b = 0 \<Longrightarrow> ec_emit (ec_spot c) (ec_padding c) b
      = Inr (ec_reset c, nb_append [ts_packet p sp (ec_frame (ec_padding c))] b)"
    using emit_padded [OF o, of b "ec_spot c"] cd by simp
qed

lemma ctx_keys: "sender_ok sp m E P \<Longrightarrow> om_find (mg_encap m) k = Some c \<Longrightarrow>
    k = uint (ec_pid c) \<and> unat (ec_pid c) < 8192 \<and> length (ec_frame c) < 188 \<and> 4 \<le> length (ec_frame c)"
proof -
  assume a: "sender_ok sp m E P" "om_find (mg_encap m) k = Some c"
  then have k: "k = uint (ec_pid c)" "unat (ec_pid c) < 8192" by (auto simp: sender_ok_def)
  then obtain ds px ss where "ctx_is (ec_pid c) sp ds px ss (Some c)"
    using sender_okD [OF a(1) k(2)] a(2) unfolding sent_by_def by auto
  then have o: "opened c px ss" by (simp add: ctx_is_def)
  then have "4 \<le> length (ec_frame c)" by (cases px) (auto simp: opened_def)
  then show ?thesis using k opened_length [OF o] by simp
qed

lemma flush_ok:
  assumes ok: "sender_ok sp m E P"
  obtains b fs m' where "mg_flush cid m = Inr (b, m')" "(case b of None \<Rightarrow> [] | Some b \<Rightarrow> nb_packets b) = fs"
    "sender_ok sp m' (E @ fs) P"
proof (cases "om_find (mg_encap m) cid")
  case None
  then show ?thesis using that [of None m "[]"] ok by (simp add: mg_flush_def)
next
  case (Some c)
  let ?m = "m\<lparr>mg_encap := om_put cid (ec_reset c) (mg_encap m)\<rparr>" and ?p = "ec_pid c"
  have k: "cid = uint ?p" "unat ?p < 8192" "4 \<le> length (ec_frame c)" using ctx_keys [OF ok Some] by simp_all
  have wf: "om_wf (mg_encap ?m)" using ok by (simp add: sender_ok_def)
  have fk: "om_find (mg_encap ?m) k = (if k = uint ?p then Some (ec_reset c) else om_find (mg_encap m) k)" for k
    using k(1) by simp
  note fu = flush_update [OF ok Some [unfolded k(1)] k(2) wf fk]
  have "mg_flush cid m = Inr (Some (nb_append [ts_packet ?p sp (ec_frame (ec_padding c))] (new_net_burst 0)), ?m)"
    using Some k(3) fu(2) [of "new_net_burst 0"] by (auto simp: mg_flush_def new_net_burst_def)
  then show ?thesis using that fu(1) by (simp add: new_net_burst_def)
qed

definition idle :: "ectx \<Rightarrow> bool" where
  "idle c \<longleftrightarrow> length (ec_frame c) = 4"

lemma om_find_mid: "om_wf (pre @ (k, c) # cs) \<Longrightarrow> om_find (pre @ (k, c) # cs) k = Some c"
  by (rule om_in_find) auto

lemma om_find_mid_upd:
  "om_wf (pre @ (k, c) # cs) \<Longrightarrow> om_find (pre @ (k, d) # cs) j = (if j = k then Some d else om_find (pre @ (k, c) # cs) j)"
  by (auto simp: map_add_def om_wf_def sorted_wrt_append dest!: map_of_SomeD split: option.splits)

lemma flush_list_ok:
  assumes "sender_ok sp m E P" "mg_encap m = pre @ cs" "nb_limit b = 0"
  obtains cs' fs where "mg_flush_list cs b = Inr (cs', nb_append fs b)"
    "sender_ok sp (m\<lparr>mg_encap := pre @ cs'\<rparr>) (E @ fs) P" "\<forall>c \<in> snd ` set cs'. idle c"
  using assms
proof (induction cs arbitrary: pre m E b thesis)
  case Nil
  have e: "m\<lparr>mg_encap := pre @ []\<rparr> = m" using Nil.prems(3) by (cases m) simp
  show ?case by (rule Nil.prems(1) [of "[]" "[]", unfolded e]) (use Nil.prems in simp_all)
next
  case (Cons kc cs)
  obtain k c where kc: "kc = (k, c)" by force
  note prems = Cons.prems [unfolded kc]
  have wf: "om_wf (pre @ (k, c) # cs)" using prems(2,3) by (simp add: sender_ok_def)
  have fc: "om_find (mg_encap m) k = Some c" unfolding prems(3) by (rule om_find_mid [OF wf])
  have ck: "k = uint (ec_pid c)" "unat (ec_pid c) < 8192" "length (ec_frame c) < 188" "4 \<le> length (ec_frame c)"
    using ctx_keys [OF prems(2) fc] by simp_all
  let ?m = "m\<lparr>mg_encap := pre @ (k, ec_reset c) # cs\<rparr>" and ?q = "ts_packet (ec_pid c) sp (ec_frame (ec_padding c))"
  have wf': "om_wf (mg_encap ?m)" using wf by (simp add: om_wf_def)
  have fk: "om_find (mg_encap ?m) j = (if j = uint (ec_pid c) then Some (ec_reset c) else om_find (mg_encap m) j)" for j
    using om_find_mid_upd [OF wf, of "ec_reset c" j] prems(3) ck(1) by simp
  note fu = flush_update [OF prems(2) fc [unfolded ck(1)] ck(2) wf' fk]
  have len: "0 < ec_length c"
  proof -
    have "unat (ec_length c) = length (ec_frame c)"
      unfolding ec_length_def by (rule u32_of_nat_id) (use ck(3) in simp)
    then show ?thesis using ck(4) by (auto simp: word_less_nat_alt)
  qed
  obtain cs' fs where ih: "mg_flush_list cs (nb_append [?q] b) = Inr (cs', nb_append fs (nb_append [?q] b))"
    "sender_ok sp (?m\<lparr>mg_encap := (pre @ [(k, ec_reset c)]) @ cs'\<rparr>) ((E @ [?q]) @ fs) P" "\<forall>c \<in> snd ` set cs'. idle c"
    by (rule Cons.IH [of "nb_append [?q] b" "pre @ [(k, ec_reset c)]", OF _ fu(1)])
      (use prems(4) in simp_all)
  show ?case
  proof (rule prems(1))
    show "mg_flush_list ((k, c) # cs) b = Inr ((k, ec_reset c) # cs', nb_append (?q # fs) b)"
      using len fu(2) [OF prems(4)] ih(1) by simp
    show "sender_ok sp (m\<lparr>mg_encap := pre @ (k, ec_reset c) # cs'\<rparr>) (E @ ?q # fs) P" using ih(2) by simp
    show "\<forall>d \<in> snd ` set ((k, ec_reset c) # cs'). idle d" using ih(3) by (simp add: idle_def fr_header_reset)
  qed
qed

text \<open>A whole session: the frames of each PID carry the SNDUs of that PID, all of them.\<close>

lemma send_ok:
  assumes "sender_ok sp m E P" "\<forall>x \<in> set (event_packets es). np_spot x = sp \<and> ok (np_data x)"
  obtains fs m' where "mg_send up es m = Inr (fs, m')" "sender_ok sp m' (E @ fs) (P @ event_packets es)"
    "\<forall>c \<in> snd ` set (mg_encap m'). idle c"
  using assms
proof (induction es arbitrary: m E P thesis)
  case Nil
  obtain cs' fs where "mg_flush_list (mg_encap m) (new_net_burst 0) = Inr (cs', nb_append fs (new_net_burst 0))"
    "sender_ok sp (m\<lparr>mg_encap := [] @ cs'\<rparr>) (E @ fs) P" "\<forall>c \<in> snd ` set cs'. idle c"
    by (rule flush_list_ok [OF Nil.prems(2), of "[]" "mg_encap m" "new_net_burst 0"]) (simp_all add: new_net_burst_def)
  then show ?case
    by (intro Nil.prems(1) [of fs "m\<lparr>mg_encap := cs'\<rparr>"]) (simp_all add: mg_flushAll_def new_net_burst_def)
next
  case (Cons e es)
  show ?case
  proof (cases e)
    case (Encap burst)
    obtain fs tms m1 where "mg_encapsulate up burst ([], m) = Inr (nb_append fs (new_net_burst 0), tms, m1)"
      "sender_ok sp m1 (E @ fs) (P @ burst)"
      by (rule encapsulate_ok [OF Cons.prems(2), of burst "[]"]) (use Cons.prems(3) Encap in auto)
    moreover obtain gs m' where "mg_send up es m1 = Inr (gs, m')"
      "sender_ok sp m' ((E @ fs) @ gs) ((P @ burst) @ event_packets es)" "\<forall>c \<in> snd ` set (mg_encap m'). idle c"
      by (rule Cons.IH [OF _ calculation(2)]) (use Cons.prems(3) Encap in auto)
    ultimately show ?thesis
      by (intro Cons.prems(1) [of "fs @ gs" m']) (simp_all add: Encap new_net_burst_def)
  next
    case (Flush cid)
    obtain b fs m1 where "mg_flush cid m = Inr (b, m1)" "(case b of None \<Rightarrow> [] | Some b \<Rightarrow> nb_packets b) = fs"
      "sender_ok sp m1 (E @ fs) P"
      by (rule flush_ok [OF Cons.prems(2)])
    moreover obtain gs m' where "mg_send up es m1 = Inr (gs, m')"
      "sender_ok sp m' ((E @ fs) @ gs) (P @ event_packets es)" "\<forall>c \<in> snd ` set (mg_encap m'). idle c"
      by (rule Cons.IH [OF _ calculation(3)]) (use Cons.prems(3) Flush in auto)
    ultimately show ?thesis by (intro Cons.prems(1) [of "fs @ gs" m']) (simp_all add: Flush)
  qed
qed

end

end
