(* ===== verification/MpegDeliver.thy ===== *)
theory MpegDeliver
  imports MpegLink
begin

text \<open>
  What a receiver delivers of a chain of frames: everything when all frames arrive, a subsequence when
  some are lost, as long as fewer than 16 in a row are (the continuity counter has four bits).
  Then the frames of several PIDs, interleaved in any way: each PID is served on its own.
\<close>

section \<open>Continuity counters\<close>

lemma unat_next_counter: "unat (next_counter cc) = (unat cc + 1) mod 16"
proof -
  have "(unat cc + 1) mod 16 < 16" by simp
  then show ?thesis unfolding next_counter_def by (intro u8_of_nat_id) linarith
qed

lemma unat_counter_after: "unat cc < 16 \<Longrightarrow> unat (counter_after cc n) = (unat cc + n) mod 16"
proof (induction n arbitrary: cc)
  case (Suc n)
  have "unat (counter_after (next_counter cc) n) = ((unat cc + 1) mod 16 + n) mod 16"
    using Suc.IH [of "next_counter cc"] by (simp add: unat_next_counter)
  then show ?case by (simp add: mod_simps)
qed simp

lemma counter_gap:
  assumes "unat cc < 16" "0 < n" "n < 16"
  shows "counter_after cc n \<noteq> cc"
proof
  assume "counter_after cc n = cc"
  then have "(unat cc + n) mod 16 = unat cc" using unat_counter_after [OF assms(1), of n] by simp
  then have "n mod 16 = 0"
    using assms by (cases "unat cc + n < 16") (auto simp: mod_if split: if_splits)
  then show False using assms by simp
qed

section \<open>Losses\<close>

fun pick :: "bool list \<Rightarrow> 'a list \<Rightarrow> 'a list" where
  "pick (True # bs) (x # xs) = x # pick bs xs"
| "pick (False # bs) (x # xs) = pick bs xs"
| "pick _ _ = []"

text \<open>No 16 losses in a row, \<open>g\<close> having been lost already.\<close>

fun short_gaps :: "nat \<Rightarrow> bool list \<Rightarrow> bool" where
  "short_gaps g [] = True"
| "short_gaps g (True # bs) = short_gaps 0 bs"
| "short_gaps g (False # bs) = (g + 1 < 16 \<and> short_gaps (g + 1) bs)"

text \<open>The PIDs a receiver is given, and the frames of a spot.\<close>

definition accepts :: "mpeg \<Rightarrow> u16 \<Rightarrow> bool" where
  "accepts m p \<longleftrightarrow> unat p < 8192 \<and> (pid_dst p = mg_dst_tal_id m \<or> pid_dst p = BROADCAST_TAL_ID8)"

definition ts_frame :: "spot_id_t \<Rightarrow> net_packet \<Rightarrow> bool" where
  "ts_frame sp q \<longleftrightarrow> (\<exists>p d. unat p < 8192 \<and> q = ts_packet p sp d \<and> mp_getPid d = Inr p \<and> 4 \<le> length d)"

context mpeg_upper
begin

section \<open>One PID\<close>

definition rcv1 :: "u32 \<Rightarrow> u16 \<Rightarrow> net_packet \<Rightarrow> dctx option \<Rightarrow> (bool \<times> dctx \<times> net_packet list) res" where
  "rcv1 junk p q co = dec_restart 3
     \<lparr>de_up = up, de_frame = np_data q, de_payload = drop 4 (np_data q), de_packet = q\<rparr>
     (case co of Some c \<Rightarrow> c | None \<Rightarrow> new_dctx junk p (np_spot q)) []"

fun rcv_fold :: "u32 \<Rightarrow> u16 \<Rightarrow> net_packet list \<Rightarrow> dctx option \<Rightarrow> (dctx option \<times> net_packet list) res" where
  "rcv_fold junk p [] co = Inr (co, [])"
| "rcv_fold junk p (q # qs) co =
     res_bind (rcv1 junk p q co) (\<lambda>(b, c, ps).
     res_bind (rcv_fold junk p qs (Some c)) (\<lambda>(co', ps'). Inr (co', ps @ ps')))"

text \<open>What an SNDU of a PID becomes at the receiver.\<close>

definition delivered :: "u16 \<Rightarrow> spot_id_t \<Rightarrow> data list \<Rightarrow> net_packet list" where
  "delivered p sp ss = concat (map (sndu_packet (ts_packet p sp [])) ss)"

lemma delivered_simps [simp]:
  "delivered p sp [] = []" "delivered p sp (ss @ ts) = delivered p sp ss @ delivered p sp ts"
  by (simp_all add: delivered_def)

lemma out_delivered: "concat (map (sndu_packet (ts_packet p sp d)) ss) = delivered p sp ss"
proof -
  have "sndu_packet (ts_packet p sp d) = sndu_packet (ts_packet p sp [])"
    by (simp add: fun_eq_iff sndu_packet_def ts_packet_def split: option.split)
  then show ?thesis by (simp add: delivered_def)
qed

lemma rcv1_env:
  assumes "d = (px, t, ss, y, k)" "length (fr_payload t ss y k) = 184" "unat p < 8192" "unat cc < 16"
  shows "frame_env \<lparr>de_up = up, de_frame = np_data (ts_packet p sp (fd_bytes p cc d)),
      de_payload = drop 4 (np_data (ts_packet p sp (fd_bytes p cc d))), de_packet = ts_packet p sp (fd_bytes p cc d)\<rparr>
    p cc t ss y k"
  using assms by (simp add: frame_env_def fd_bytes_def ts_packet_def new_net_packet_def)

lemma rcv1_synced:
  assumes d: "d = (px, t, ss, y, k)" "length (fr_payload t ss y k) = 184" "unat p < 8192" "unat (next_counter cc0) < 16"
    and s: "synced cc0 px c" and cr: "carries px t ss y k px'"
  obtains c' where "rcv1 junk p (ts_packet p sp (fd_bytes p (next_counter cc0) d)) (Some c)
      = Inr (True, c', delivered p sp (completed px t ss))" "synced (next_counter cc0) px' c'"
proof -
  show ?thesis
    by (rule restart_synced [OF rcv1_env [OF d] s _ cr, where n = 2 and tmp = "[]"])
      (auto simp: next_counter_def rcv1_def out_delivered numeral_3_eq_3 intro: that)
qed

text \<open>Without context, or out of sequence: the frame is taken from its payload pointer on, or dropped.\<close>

definition unsynced :: "u8 \<Rightarrow> dctx option \<Rightarrow> bool" where
  "unsynced cc co \<longleftrightarrow> (case co of None \<Rightarrow> True
     | Some c \<Rightarrow> lost c \<or> (\<exists>cc0 px0. synced cc0 px0 c \<and> cc \<noteq> next_counter cc0))"

lemma rcv1_unsynced:
  assumes d: "d = (px, t, ss, y, k)" "length (fr_payload t ss y k) = 184" "unat p < 8192" "unat cc < 16"
    and u: "unsynced cc co" and cr: "carries px t ss y k px'"
  obtains (pusi) b c' where "fr_pusi ss y" "rcv1 junk p (ts_packet p sp (fd_bytes p cc d)) co = Inr (b, c', delivered p sp ss)"
      "synced cc px' c'"
    | (no_pusi) b c' where "\<not> fr_pusi ss y" "rcv1 junk p (ts_packet p sp (fd_bytes p cc d)) co = Inr (b, c', [])" "lost c'"
proof -
  let ?q = "ts_packet p sp (fd_bytes p cc d)"
  let ?e = "\<lparr>de_up = up, de_frame = np_data ?q, de_payload = drop 4 (np_data ?q), de_packet = ?q\<rparr>"
  note env = rcv1_env [OF d, of sp]
  have lost_case: thesis if l: "lost c" and r: "rcv1 junk p ?q co = dec_restart (Suc n) ?e c []" for c n
    by (rule restart_lost [OF env l cr, where n = n and tmp = "[]"])
      (use pusi no_pusi l r in \<open>auto simp: out_delivered\<close>)
  show ?thesis
  proof (cases co)
    case None
    have "lost (new_dctx junk p sp)" by (simp add: lost_def new_dctx_def)
    then show ?thesis
      by (rule lost_case [of _ 2]) (simp add: rcv1_def None ts_packet_def numeral_3_eq_3)
  next
    case (Some c)
    then consider "lost c" | cc0 px0 where "synced cc0 px0 c" "cc \<noteq> next_counter cc0"
      using u by (auto simp: unsynced_def)
    then show ?thesis
    proof cases
      case 1
      then show ?thesis by (rule lost_case [of _ 2]) (simp add: rcv1_def Some numeral_3_eq_3)
    next
      case 2
      have ne: "cc \<noteq> of_nat ((unat cc0 + 1) mod 16)" using 2(2) by (simp add: next_counter_def)
      obtain c1 where c1: "lost c1" "dec_restart (Suc (Suc 1)) ?e c [] = dec_restart (Suc 1) ?e c1 []
        \<or> (\<not> fr_pusi ss y \<and> dec_restart (Suc (Suc 1)) ?e c [] = Inr (False, c1, []))"
        by (rule restart_gap [OF env 2(1) ne])
      have r: "rcv1 junk p ?q co = dec_restart (Suc (Suc 1)) ?e c []" by (simp add: rcv1_def Some numeral_3_eq_3)
      show ?thesis using c1(2) lost_case [OF c1(1), of 1] no_pusi [of False c1] c1(1) r by auto
    qed
  qed
qed

section \<open>A chain of frames\<close>

definition awaits :: "u8 \<Rightarrow> data \<times> data \<Rightarrow> dctx option \<Rightarrow> bool" where
  "awaits cc px co \<longleftrightarrow> (case co of None \<Rightarrow> px = ([], [])
     | Some c \<Rightarrow> (lost c \<and> px = ([], [])) \<or> (\<exists>cc0. cc = next_counter cc0 \<and> synced cc0 px c))"

lemma carries_start: "carries ([], []) t ss y k px' \<Longrightarrow> t = [] \<and> completed ([], []) t ss = ss \<and> (\<not> fr_pusi ss y \<longrightarrow> ss = [] \<and> px' = ([], []))"
  by (cases px') (auto simp: carries_def completed_def fr_pusi_def tail_ok_def)

lemma rcv_chain:
  assumes "chain px ds px'" "awaits cc px co" "unat p < 8192" "unat cc < 16"
  shows "\<exists>co'. rcv_fold junk p (map (ts_packet p sp) (fd_frames p cc ds)) co = Inr (co', delivered p sp (fd_sndus ds))"
  using assms
proof (induction ds arbitrary: px cc co)
  case (Cons d ds)
  obtain t ss y k where d: "d = (px, t, ss, y, k)" using Cons.prems(1) by (cases d) auto
  obtain px1 where c: "length (fr_payload t ss y k) = 184" "carries px t ss y k px1" "chain px1 ds px'"
    using Cons.prems(1) d by auto
  have n: "unat (next_counter cc) < 16" by simp
  have go: ?case if "rcv1 junk p (ts_packet p sp (fd_bytes p cc d)) co = Inr (b, c', delivered p sp (completed px t ss))"
      "awaits (next_counter cc) px1 (Some c')" for b c'
    using Cons.IH [OF c(3) that(2) Cons.prems(3) n] that(1) d by auto
  consider (sync) c0 cc0 where "co = Some c0" "cc = next_counter cc0" "synced cc0 px c0"
    | (start) "unsynced cc co" "px = ([], [])"
    using Cons.prems(2) by (auto simp: awaits_def unsynced_def split: option.splits)
  then show ?case
  proof cases
    case sync
    obtain c' where "rcv1 junk p (ts_packet p sp (fd_bytes p (next_counter cc0) d)) (Some c0)
        = Inr (True, c', delivered p sp (completed px t ss))" "synced (next_counter cc0) px1 c'"
      by (rule rcv1_synced [OF d c(1) Cons.prems(3) _ sync(3) c(2)]) simp
    then show ?thesis by (intro go [of True c']) (use sync in \<open>auto simp: awaits_def\<close>)
  next
    case start
    note st = carries_start [OF c(2) [unfolded start(2)]]
    show ?thesis
    proof (rule rcv1_unsynced [OF d c(1) Cons.prems(3,4) start(1) c(2)])
      fix b c'
      assume "fr_pusi ss y" "rcv1 junk p (ts_packet p sp (fd_bytes p cc d)) co = Inr (b, c', delivered p sp ss)"
        "synced cc px1 c'"
      then show ?thesis by (intro go [of b c']) (use st start(2) in \<open>auto simp: awaits_def\<close>)
    next
      fix b c'
      assume "\<not> fr_pusi ss y" "rcv1 junk p (ts_packet p sp (fd_bytes p cc d)) co = Inr (b, c', [])" "lost c'"
      then show ?thesis by (intro go [of b c']) (use st start(2) in \<open>auto simp: awaits_def\<close>)
    qed
  qed
qed simp

text \<open>With losses: \<open>g\<close> frames have been lost since the last one that arrived.\<close>

definition awaits_gap :: "nat \<Rightarrow> u8 \<Rightarrow> data \<times> data \<Rightarrow> dctx option \<Rightarrow> bool" where
  "awaits_gap g cc px co \<longleftrightarrow> (case co of None \<Rightarrow> True
     | Some c \<Rightarrow> lost c \<or> (\<exists>cc0 px0. synced cc0 px0 c \<and> cc = counter_after (next_counter cc0) g \<and> (g = 0 \<longrightarrow> px0 = px)))"

lemma awaits_gap_synced: "synced cc px c \<Longrightarrow> awaits_gap 0 (next_counter cc) px (Some c)"
  unfolding awaits_gap_def option.case by (metis counter_after_simps(1))

lemma delivered_completed: "subseq (delivered p sp ss) (delivered p sp (completed px t ss))"
  by (auto simp: completed_def)

lemma rcv_lossy:
  assumes "chain px ds px'" "awaits_gap g cc px co" "unat p < 8192" "unat cc < 16" "short_gaps g bs" "g < 16"
    and "length bs = length ds"
  shows "\<exists>co' out. rcv_fold junk p (pick bs (map (ts_packet p sp) (fd_frames p cc ds))) co = Inr (co', out)
    \<and> subseq out (delivered p sp (fd_sndus ds))"
  using assms
proof (induction ds arbitrary: px cc co bs g)
  case (Cons d ds)
  obtain t ss y k where d: "d = (px, t, ss, y, k)" using Cons.prems(1) by (cases d) auto
  obtain px1 where c: "length (fr_payload t ss y k) = 184" "carries px t ss y k px1" "chain px1 ds px'"
    using Cons.prems(1) d by auto
  obtain b bs' where bs: "bs = b # bs'" "length bs' = length ds" using Cons.prems(7) by (cases bs) auto
  have n: "unat (next_counter cc) < 16" by simp
  show ?case
  proof (cases b)
    case False
    have aw: "awaits_gap (g + 1) (next_counter cc) px1 co"
      using Cons.prems(2) by (fastforce simp: awaits_gap_def counter_after_next split: option.splits)
    have sg: "short_gaps (g + 1) bs'" "g + 1 < 16" using Cons.prems(5) bs(1) False by simp_all
    obtain co' out where "rcv_fold junk p (pick bs' (map (ts_packet p sp) (fd_frames p (next_counter cc) ds))) co = Inr (co', out)"
      "subseq out (delivered p sp (fd_sndus ds))"
      using Cons.IH [OF c(3) aw Cons.prems(3) n sg bs(2)] by blast
    then show ?thesis using bs(1) False d by (auto intro: subseq_drop_many)
  next
    case True
    have sg: "short_gaps 0 bs'" using Cons.prems(5) bs(1) True by simp
    have go: ?thesis if r: "rcv1 junk p (ts_packet p sp (fd_bytes p cc d)) co = Inr (b', c', out1)"
        "subseq out1 (delivered p sp (completed px t ss))" "awaits_gap 0 (next_counter cc) px1 (Some c')" for b' c' out1
    proof -
      obtain co' out where "rcv_fold junk p (pick bs' (map (ts_packet p sp) (fd_frames p (next_counter cc) ds))) (Some c')
          = Inr (co', out)" "subseq out (delivered p sp (fd_sndus ds))"
        using Cons.IH [OF c(3) r(3) Cons.prems(3) n sg _ bs(2)] by auto
      then show ?thesis using r(1,2) bs(1) True d by (auto intro: list_emb_append_mono)
    qed
    consider (sync) c0 cc0 where "co = Some c0" "cc = next_counter cc0" "synced cc0 px c0" | (un) "unsynced cc co"
    proof -
      have "unsynced cc co" if "co = Some c0" "synced cc0 px0 c0" "cc = counter_after (next_counter cc0) g" "g \<noteq> 0" for c0 cc0 px0
        using that counter_gap [of "next_counter cc0" g] Cons.prems(6)
        unfolding unsynced_def option.case that(1) by (metis next_counter_less not_gr_zero)
      then show ?thesis
        using Cons.prems(2) that by (auto simp: awaits_gap_def unsynced_def split: option.splits)
    qed
    then show ?thesis
    proof cases
      case sync
      obtain c' where "rcv1 junk p (ts_packet p sp (fd_bytes p (next_counter cc0) d)) (Some c0)
          = Inr (True, c', delivered p sp (completed px t ss))" "synced (next_counter cc0) px1 c'"
        by (rule rcv1_synced [OF d c(1) Cons.prems(3) _ sync(3) c(2)]) simp
      then show ?thesis by (intro go [of True c']) (use sync in \<open>auto simp: awaits_gap_synced\<close>)
    next
      case un
      show ?thesis
      proof (rule rcv1_unsynced [OF d c(1) Cons.prems(3,4) un c(2)])
        fix b' c'
        assume "fr_pusi ss y" "rcv1 junk p (ts_packet p sp (fd_bytes p cc d)) co = Inr (b', c', delivered p sp ss)"
          "synced cc px1 c'"
        then show ?thesis by (intro go [of b' c']) (auto simp: awaits_gap_synced delivered_completed)
      next
        fix b' c'
        assume "\<not> fr_pusi ss y" "rcv1 junk p (ts_packet p sp (fd_bytes p cc d)) co = Inr (b', c', [])" "lost c'"
        then show ?thesis by (intro go [of b' c']) (auto simp: awaits_gap_def)
      qed
    qed
  qed
next
  case Nil
  then show ?case by auto
qed

section \<open>All PIDs\<close>

lemma deencapMpeg_ts:
  assumes "unat p < 8192" "q = ts_packet p sp d" "mp_getPid d = Inr p" "4 \<le> length d"
  shows "deencapMpeg junk up q (b, m) = res_bind (rcv1 junk p q (om_find (mg_deencap m) (uint p)))
    (\<lambda>(ok, c, ps). Inr (ok, nb_append ps b, m\<lparr>mg_deencap := om_put (uint p) c (mg_deencap m)\<rparr>))"
  using assms
  by (simp add: deencapMpeg_def rcv1_def ts_packet_def new_net_packet_def new_mpeg_packet_def nc_getPayload_def
      substr_def nc_getPayloadLength_def nc_getTotalLength_def TS_HEADERSIZE_def nb_append_def)

end

text \<open>A plugin that keeps the identifiers it is given.\<close>

locale mpeg_upper_ids = mpeg_upper +
  assumes build_ids: "eh_build up s n qos src dst = Some q \<Longrightarrow>
    np_qos q = qos \<and> np_src_tal_id q = src \<and> np_dst_tal_id q = dst"
begin

lemma delivered_pid: "unat p < 8192 \<Longrightarrow> q \<in> set (delivered p sp ss) \<Longrightarrow> getPidFromPacket q = p"
proof -
  assume p: "unat p < 8192" and "q \<in> set (delivered p sp ss)"
  then obtain s r where "eh_build up s (length s) (pid_qos p) (pid_src p) (pid_dst p) = Some r" "q = r\<lparr>np_spot := sp\<rparr>"
    by (auto simp: delivered_def sndu_packet_def ts_packet_def split: option.splits dest!: sym [of "Some _"])
  then have "getPidFromPacket q = getPidFromPacket (ts_packet p sp [])"
    using build_ids [of s "length s" "pid_qos p" "pid_src p" "pid_dst p" r]
    by (simp add: getPidFromPacket_def ts_packet_def)
  then show "getPidFromPacket q = p" by (simp add: ts_packet_pid [OF p])
qed

text \<open>Each PID is served on its own, however the frames are interleaved.\<close>

lemma deencap_project:
  assumes "\<forall>q \<in> set E. ts_frame sp q"
    and "\<And>p. accepts m p \<Longrightarrow> \<exists>co. rcv_fold junk p (of_pid p E) (om_find (mg_deencap m) (uint p)) = Inr (co, outs p)"
    and "\<And>p q. accepts m p \<Longrightarrow> q \<in> set (outs p) \<Longrightarrow> getPidFromPacket q = p"
  shows "\<exists>out m'. res_fold (mg_deencap_step junk up) (map Some E) (b, m) = Inr (nb_append out b, m')
    \<and> (\<forall>p. accepts m p \<longrightarrow> of_pid p out = outs p) \<and> (\<forall>q \<in> set out. accepts m (getPidFromPacket q))"
  using assms
proof (induction E arbitrary: b m outs)
  case Nil
  have "outs p = []" if "accepts m p" for p using Nil.prems(2) [OF that] by simp
  then show ?case by (intro exI [of _ "[]"]) simp
next
  case (Cons q E)
  obtain p d where q: "unat p < 8192" "q = ts_packet p sp d" "mp_getPid d = Inr p" "4 \<le> length d"
    using Cons.prems(1) by (auto simp: ts_frame_def)
  have pid: "getPidFromPacket q = p" using q(1,2) by (simp add: ts_packet_pid)
  have fields: "np_type q = NET_PROTO_MPEG" "np_dst_tal_id q = pid_dst p" by (simp_all add: q(2) ts_packet_def)
  show ?case
  proof (cases "accepts m p")
    case False
    then have skip: "mg_deencap_step junk up (Some q) (b, m) = Inr (b, m)"
      using q(1) fields by (simp add: mg_deencap_step_def accepts_def)
    have "\<exists>out m'. res_fold (mg_deencap_step junk up) (map Some E) (b, m) = Inr (nb_append out b, m')
      \<and> (\<forall>p. accepts m p \<longrightarrow> of_pid p out = outs p) \<and> (\<forall>q \<in> set out. accepts m (getPidFromPacket q))"
    proof (rule Cons.IH)
      show "\<exists>co. rcv_fold junk r (of_pid r E) (om_find (mg_deencap m) (uint r)) = Inr (co, outs r)" if "accepts m r" for r
        using Cons.prems(2) [OF that] that False pid by (auto split: if_splits)
    qed (use Cons.prems in auto)
    then show ?thesis using skip by simp
  next
    case True
    obtain co where "rcv_fold junk p (q # of_pid p E) (om_find (mg_deencap m) (uint p)) = Inr (co, outs p)"
      using Cons.prems(2) [OF True] pid by auto
    then obtain ok c ps rest where r: "rcv1 junk p q (om_find (mg_deencap m) (uint p)) = Inr (ok, c, ps)"
      "rcv_fold junk p (of_pid p E) (Some c) = Inr (co, rest)" "outs p = ps @ rest"
      by (auto simp: res_bind_Inr)
    let ?m = "m\<lparr>mg_deencap := om_put (uint p) c (mg_deencap m)\<rparr>" and ?outs = "outs(p := rest)"
    have acc: "accepts ?m = accepts m" by (simp add: accepts_def fun_eq_iff)
    have step: "mg_deencap_step junk up (Some q) (b, m) = Inr (nb_append ps b, ?m)"
      using True fields deencapMpeg_ts [OF q, of junk b m] r(1)
      by (auto simp: mg_deencap_step_def accepts_def)
    have "\<exists>out m'. res_fold (mg_deencap_step junk up) (map Some E) (nb_append ps b, ?m) = Inr (nb_append out (nb_append ps b), m')
      \<and> (\<forall>p. accepts ?m p \<longrightarrow> of_pid p out = ?outs p) \<and> (\<forall>q \<in> set out. accepts ?m (getPidFromPacket q))"
    proof (rule Cons.IH)
      show "\<exists>co. rcv_fold junk s (of_pid s E) (om_find (mg_deencap ?m) (uint s)) = Inr (co, ?outs s)" if "accepts ?m s" for s
      proof (cases "s = p")
        case True then show ?thesis using r(2) by simp
      next
        case False
        then have "uint s \<noteq> uint p" by (simp add: word_uint_eq_iff)
        then show ?thesis using Cons.prems(2) [of s] that False pid by (auto simp: acc)
      qed
      show "getPidFromPacket x = s" if "accepts ?m s" "x \<in> set (?outs s)" for s x
        using Cons.prems(3) [of s x] that acc r(3) by (auto split: if_splits)
    qed (use Cons.prems(1) in auto)
    then obtain out m' where out: "res_fold (mg_deencap_step junk up) (map Some E) (nb_append ps b, ?m) = Inr (nb_append (ps @ out) b, m')"
      "\<forall>p. accepts m p \<longrightarrow> of_pid p out = ?outs p" "\<forall>q \<in> set out. accepts m (getPidFromPacket q)"
      by (auto simp: acc)
    have tag: "\<forall>x \<in> set ps. getPidFromPacket x = p" using Cons.prems(3) [OF True] r(3) by auto
    then have own: "of_pid p ps = ps" "\<And>s. s \<noteq> p \<Longrightarrow> of_pid s ps = []"
      by (auto simp: filter_id_conv filter_empty_conv)
    have "\<forall>s. accepts m s \<longrightarrow> of_pid s (ps @ out) = outs s" using out(2) r(3) own by auto
    moreover have "\<forall>x \<in> set (ps @ out). accepts m (getPidFromPacket x)" using out(3) tag True by auto
    ultimately show ?thesis using step out(1) by auto
  qed
qed

end

end
