(* ===== verification/Ule.thy ===== *)
theory Ule
  imports EncapPlugin
begin

text \<open>
  The ULE plugin: \<open>mandatory_plugins/ule/UlePacket.cpp\<close>, \<open>UleExt.cpp\<close>, \<open>UleExtTest.cpp\<close>,
  \<open>UleExtPadding.cpp\<close> and \<open>Ule.cpp\<close>. A packet is the D bit and 15 bits of length, the type, the
  destination address when D is 0, the payload and four bytes of CRC; the length counts what follows the
  address. The extension by encryption is not part of the build. The upper plugin is a parameter.
\<close>

definition ULE_HEADER_LEN :: nat where "ULE_HEADER_LEN = 4"
definition ULE_ADDR_LEN :: nat where "ULE_ADDR_LEN = 6"
definition ULE_CRC_LEN :: nat where "ULE_CRC_LEN = 4"

section \<open>The CRC\<close>

definition crc_table :: "u32 list" where
  "crc_table =
    [0x00000000, 0x04c11db7, 0x09823b6e, 0x0d4326d9, 0x130476dc, 0x17c56b6b,
     0x1a864db2, 0x1e475005, 0x2608edb8, 0x22c9f00f, 0x2f8ad6d6, 0x2b4bcb61,
     0x350c9b64, 0x31cd86d3, 0x3c8ea00a, 0x384fbdbd, 0x4c11db70, 0x48d0c6c7,
     0x4593e01e, 0x4152fda9, 0x5f15adac, 0x5bd4b01b, 0x569796c2, 0x52568b75,
     0x6a1936c8, 0x6ed82b7f, 0x639b0da6, 0x675a1011, 0x791d4014, 0x7ddc5da3,
     0x709f7b7a, 0x745e66cd, 0x9823b6e0, 0x9ce2ab57, 0x91a18d8e, 0x95609039,
     0x8b27c03c, 0x8fe6dd8b, 0x82a5fb52, 0x8664e6e5, 0xbe2b5b58, 0xbaea46ef,
     0xb7a96036, 0xb3687d81, 0xad2f2d84, 0xa9ee3033, 0xa4ad16ea, 0xa06c0b5d,
     0xd4326d90, 0xd0f37027, 0xddb056fe, 0xd9714b49, 0xc7361b4c, 0xc3f706fb,
     0xceb42022, 0xca753d95, 0xf23a8028, 0xf6fb9d9f, 0xfbb8bb46, 0xff79a6f1,
     0xe13ef6f4, 0xe5ffeb43, 0xe8bccd9a, 0xec7dd02d, 0x34867077, 0x30476dc0,
     0x3d044b19, 0x39c556ae, 0x278206ab, 0x23431b1c, 0x2e003dc5, 0x2ac12072,
     0x128e9dcf, 0x164f8078, 0x1b0ca6a1, 0x1fcdbb16, 0x018aeb13, 0x054bf6a4,
     0x0808d07d, 0x0cc9cdca, 0x7897ab07, 0x7c56b6b0, 0x71159069, 0x75d48dde,
     0x6b93dddb, 0x6f52c06c, 0x6211e6b5, 0x66d0fb02, 0x5e9f46bf, 0x5a5e5b08,
     0x571d7dd1, 0x53dc6066, 0x4d9b3063, 0x495a2dd4, 0x44190b0d, 0x40d816ba,
     0xaca5c697, 0xa864db20, 0xa527fdf9, 0xa1e6e04e, 0xbfa1b04b, 0xbb60adfc,
     0xb6238b25, 0xb2e29692, 0x8aad2b2f, 0x8e6c3698, 0x832f1041, 0x87ee0df6,
     0x99a95df3, 0x9d684044, 0x902b669d, 0x94ea7b2a, 0xe0b41de7, 0xe4750050,
     0xe9362689, 0xedf73b3e, 0xf3b06b3b, 0xf771768c, 0xfa325055, 0xfef34de2,
     0xc6bcf05f, 0xc27dede8, 0xcf3ecb31, 0xcbffd686, 0xd5b88683, 0xd1799b34,
     0xdc3abded, 0xd8fba05a, 0x690ce0ee, 0x6dcdfd59, 0x608edb80, 0x644fc637,
     0x7a089632, 0x7ec98b85, 0x738aad5c, 0x774bb0eb, 0x4f040d56, 0x4bc510e1,
     0x46863638, 0x42472b8f, 0x5c007b8a, 0x58c1663d, 0x558240e4, 0x51435d53,
     0x251d3b9e, 0x21dc2629, 0x2c9f00f0, 0x285e1d47, 0x36194d42, 0x32d850f5,
     0x3f9b762c, 0x3b5a6b9b, 0x0315d626, 0x07d4cb91, 0x0a97ed48, 0x0e56f0ff,
     0x1011a0fa, 0x14d0bd4d, 0x19939b94, 0x1d528623, 0xf12f560e, 0xf5ee4bb9,
     0xf8ad6d60, 0xfc6c70d7, 0xe22b20d2, 0xe6ea3d65, 0xeba91bbc, 0xef68060b,
     0xd727bbb6, 0xd3e6a601, 0xdea580d8, 0xda649d6f, 0xc423cd6a, 0xc0e2d0dd,
     0xcda1f604, 0xc960ebb3, 0xbd3e8d7e, 0xb9ff90c9, 0xb4bcb610, 0xb07daba7,
     0xae3afba2, 0xaafbe615, 0xa7b8c0cc, 0xa379dd7b, 0x9b3660c6, 0x9ff77d71,
     0x92b45ba8, 0x9675461f, 0x8832161a, 0x8cf30bad, 0x81b02d74, 0x857130c3,
     0x5d8a9099, 0x594b8d2e, 0x5408abf7, 0x50c9b640, 0x4e8ee645, 0x4a4ffbf2,
     0x470cdd2b, 0x43cdc09c, 0x7b827d21, 0x7f436096, 0x7200464f, 0x76c15bf8,
     0x68860bfd, 0x6c47164a, 0x61043093, 0x65c52d24, 0x119b4be9, 0x155a565e,
     0x18197087, 0x1cd86d30, 0x029f3d35, 0x065e2082, 0x0b1d065b, 0x0fdc1bec,
     0x3793a651, 0x3352bbe6, 0x3e119d3f, 0x3ad08088, 0x2497d08d, 0x2056cd3a,
     0x2d15ebe3, 0x29d4f654, 0xc5a92679, 0xc1683bce, 0xcc2b1d17, 0xc8ea00a0,
     0xd6ad50a5, 0xd26c4d12, 0xdf2f6bcb, 0xdbee767c, 0xe3a1cbc1, 0xe760d676,
     0xea23f0af, 0xeee2ed18, 0xf0a5bd1d, 0xf464a0aa, 0xf9278673, 0xfde69bc4,
     0x89b8fd09, 0x8d79e0be, 0x803ac667, 0x84fbdbd0, 0x9abc8bd5, 0x9e7d9662,
     0x933eb0bb, 0x97ffad0c, 0xafb010b1, 0xab710d06, 0xa6322bdf, 0xa2f33668,
     0xbcb4666d, 0xb8757bda, 0xb5365d03, 0xb1f740b4]"

definition crc_step :: "u8 \<Rightarrow> u32 \<Rightarrow> u32" where
  "crc_step b crc = xor (push_bit 8 crc) (crc_table ! unat (and (xor (drop_bit 24 crc) (ucast b)) 0xff))"

text \<open>
  The bound of the loop is \<open>(unsigned int) this->getTotalLength() - ULE_ADDR_LEN\<close>, which wraps.
\<close>

definition calcCrc :: "bool \<Rightarrow> data \<Rightarrow> u32" where
  "calcCrc enabled d =
     (if enabled then fold crc_step (take (unat (of_nat (length d) - of_nat ULE_ADDR_LEN :: u32)) d) 0xffffffff
      else 0xffffffff)"

section \<open>Packets\<close>

text \<open>\<open>UlePacket(type, address, payload, crc_enabled)\<close>; \<open>append(address, 0, 6)\<close> clips.\<close>

definition ule_bytes :: "u16 \<Rightarrow> data option \<Rightarrow> data \<Rightarrow> bool \<Rightarrow> data" where
  "ule_bytes ptype address payload crc_enabled =
     (let len = length payload + ULE_CRC_LEN;
          d = [of_nat ((if address = None then 128 else 0) + len div 256 mod 128), of_nat (len mod 256)]
              @ be16 ptype @ (case address of None \<Rightarrow> [] | Some a \<Rightarrow> take ULE_ADDR_LEN a) @ payload
      in d @ be32 (calcCrc crc_enabled d))"

definition new_ule_packet :: "data \<Rightarrow> net_packet" where
  "new_ule_packet d = (new_net_packet d)\<lparr>np_name := ''ULE'', np_type := NET_PROTO_ULE,
     np_header_length := ULE_HEADER_LEN\<rparr>"

definition ule_length_field :: "data \<Rightarrow> nat res" where
  "ule_length_field d = res_bind (at_res d 0) (\<lambda>b0. res_bind (at_res d 1) (\<lambda>b1.
     Inr (unat b0 mod 128 * 256 + unat b1)))"

definition ule_getPayloadLength :: "data \<Rightarrow> nat res" where
  "ule_getPayloadLength d = res_bind (ule_length_field d) (\<lambda>l. Inr (size_sub l ULE_CRC_LEN))"

definition ule_isDstAddrPresent :: "data \<Rightarrow> bool res" where
  "ule_isDstAddrPresent d = res_bind (at_res d 0) (\<lambda>b. Inr (unat b div 128 = 0))"

definition ule_getPayload :: "data \<Rightarrow> data res" where
  "ule_getPayload d = res_bind (ule_getPayloadLength d) (\<lambda>n.
     substr d (size_sub (size_sub (length d) n) ULE_CRC_LEN) n)"

definition ule_getPayloadType :: "data \<Rightarrow> u16 res" where
  "ule_getPayloadType d = res_bind (at_res d 2) (\<lambda>b2. res_bind (at_res d 3) (\<lambda>b3.
     Inr (of_nat (unat b2 * 256 + unat b3))))"

definition ule_destAddr :: "data \<Rightarrow> data res" where
  "ule_destAddr d = substr d 4 ULE_ADDR_LEN"

text \<open>\<open>crc()\<close>; the position of the first byte is an \<open>unsigned int\<close>.\<close>

definition ule_crc :: "data \<Rightarrow> u32 res" where
  "ule_crc d = (if length d < 4 then Inl OutOfRange else Inr (rd32 d (length d - 4)))"

text \<open>The expected length is stored on 16 bits.\<close>

definition ule_isValid :: "bool \<Rightarrow> data \<Rightarrow> bool res" where
  "ule_isValid crc_enabled d =
     (if length d < 2 then Inr False
      else res_bind (ule_isDstAddrPresent d) (\<lambda>present. res_bind (ule_getPayloadLength d) (\<lambda>n.
        if length d \<noteq> unat (of_nat (ULE_HEADER_LEN + (if present then ULE_ADDR_LEN else 0) + n + ULE_CRC_LEN) :: u16)
        then Inr False
        else res_bind (ule_crc d) (\<lambda>c. Inr (c = calcCrc crc_enabled d)))))"

section \<open>Extensions\<close>

datatype ule_extension = ExtTest | ExtPadding

datatype ext_status = ExtOk | ExtDiscard | ExtError

definition ext_type :: "ule_extension \<Rightarrow> u8" where
  "ext_type e = 0"

definition ext_mandatory :: "ule_extension \<Rightarrow> bool" where
  "ext_mandatory e \<longleftrightarrow> e = ExtTest"

text \<open>\<open>build\<close>: the status, then \<open>payloadType()\<close> and \<open>payload()\<close>.\<close>

fun ext_build :: "ule_extension \<Rightarrow> u16 \<Rightarrow> data \<Rightarrow> ext_status \<times> u16 \<times> data" where
  "ext_build ExtTest ptype payload = (ExtOk, ucast (ext_type ExtTest), payload)"
| "ext_build ExtPadding ptype payload =
     (ExtOk, 5 * 256 + ucast (ext_type ExtPadding), replicate 8 0 @ be16 ptype @ payload)"

text \<open>\<open>decode\<close>: the type and the payload behind the extension when the status is \<open>ExtOk\<close>.\<close>

fun ext_decode :: "ule_extension \<Rightarrow> nat \<Rightarrow> data \<Rightarrow> ext_status \<times> u16 \<times> data" where
  "ext_decode ExtTest hlen payload = (if hlen \<noteq> 0 then ExtError else ExtDiscard, 0, [])"
| "ext_decode ExtPadding hlen payload =
     (if hlen < 1 \<or> 5 < hlen then (ExtError, 0, [])
      else if length payload < hlen * 2 then (ExtError, 0, [])
      else (ExtOk, rd16 payload (hlen * 2 - 2), drop (hlen * 2) payload))"

section \<open>The plugin\<close>

record ule =
  ul_mandatory :: "(u8, ule_extension) omap"
  ul_optional :: "(u8, ule_extension) omap"
  ul_build :: "ule_extension list"
  ul_crc :: bool

text \<open>\<open>init\<close>: no extension is registered, no CRC is computed.\<close>

definition ule_init :: "ule \<Rightarrow> ule" where
  "ule_init u = u\<lparr>ul_build := [], ul_crc := False\<rparr>"

definition ule_addExt :: "ule_extension option \<Rightarrow> bool \<Rightarrow> ule \<Rightarrow> bool \<times> ule" where
  "ule_addExt ext activated u =
     (case ext of
        None \<Rightarrow> (False, u)
      | Some e \<Rightarrow>
          (let exts = (if ext_mandatory e then ul_mandatory u else ul_optional u)
           in if om_find exts (ext_type e) \<noteq> None then (False, u)
              else let exts' = om_put (ext_type e) e exts;
                       u1 = (if ext_mandatory e then u\<lparr>ul_mandatory := exts'\<rparr> else u\<lparr>ul_optional := exts'\<rparr>)
                   in (True, if activated then u1\<lparr>ul_build := ul_build u1 @ [e]\<rparr> else u1)))"

text \<open>The extensions to build: \<open>None\<close> when one fails.\<close>

fun build_exts :: "ule_extension list \<Rightarrow> u16 \<Rightarrow> data \<Rightarrow> (u16 \<times> data) option" where
  "build_exts [] ptype payload = Some (ptype, payload)"
| "build_exts (e # es) ptype payload =
     (case ext_build e ptype payload of
        (ExtOk, ptype', payload') \<Rightarrow> build_exts es ptype' payload'
      | _ \<Rightarrow> None)"

definition encapUle :: "ule \<Rightarrow> net_packet \<Rightarrow> net_burst \<Rightarrow> bool \<times> net_burst" where
  "encapUle u packet b =
     (case build_exts (ul_build u) (np_type packet) (np_data packet) of
        None \<Rightarrow> (False, b)
      | Some (ptype, payload) \<Rightarrow>
          (True, snd (nb_add (Some ((new_ule_packet (ule_bytes ptype None payload (ul_crc u)))
             \<lparr>np_src_tal_id := np_src_tal_id packet, np_dst_tal_id := np_dst_tal_id packet,
              np_qos := np_qos packet, np_spot := np_spot packet\<rparr>)) b)))"

definition ule_encapsulate :: "ule \<Rightarrow> net_packet list \<Rightarrow> net_burst" where
  "ule_encapsulate u burst = fold (\<lambda>p b. snd (encapUle u p b)) burst (new_net_burst 0)"

lemma ext_decode_shorter: "ext_decode e hlen payload = (ExtOk, t, p) \<Longrightarrow> length p < length payload"
  by (cases e) (auto split: if_splits)

text \<open>
  The loop over the extensions of a packet; the \<open>else\<close> of the test on \<open>hlen\<close> makes every lookup one
  in \<open>optional_exts\<close>. An extension that is decoded is cut off the payload.
\<close>

function decode_exts :: "ule \<Rightarrow> u16 \<Rightarrow> data \<Rightarrow> (u16 \<times> data) option" where
  "decode_exts u ptype payload =
     (if 1536 \<le> unat ptype then Some (ptype, payload)
      else let hlen = unat ptype div 256 mod 8; htype = of_nat (unat ptype mod 256)
      in if 6 \<le> hlen then None
         else case om_find (ul_optional u) htype of
                None \<Rightarrow> None
              | Some e \<Rightarrow>
                  (case ext_decode e hlen payload of
                     (ExtOk, ptype', payload') \<Rightarrow> decode_exts u ptype' payload'
                   | _ \<Rightarrow> None))"
  by pat_completeness auto

termination
  by (relation "measure (\<lambda>(u, ptype, payload). length payload)")
    (simp, metis ext_decode_shorter in_measure prod.case)

declare decode_exts.simps [simp del]

definition deencapUle :: "encap_hdl \<Rightarrow> ule \<Rightarrow> net_packet \<Rightarrow> net_burst \<Rightarrow> (bool \<times> net_burst) res" where
  "deencapUle up u packet b =
     (if np_type packet \<noteq> NET_PROTO_ULE then Inr (False, b)
      else let d = np_data packet
      in res_bind (ule_isValid (ul_crc u) d) (\<lambda>valid.
         if \<not> valid then Inr (False, b)
         else res_bind (ule_getPayloadType d) (\<lambda>ptype. res_bind (ule_getPayload d) (\<lambda>payload.
           case decode_exts u ptype payload of
             None \<Rightarrow> Inr (False, b)
           | Some (t, pl) \<Rightarrow>
               (case eh_build up pl (length pl) (np_qos packet) (np_src_tal_id packet) (np_dst_tal_id packet) of
                  None \<Rightarrow> Inr (False, b)
                | Some p \<Rightarrow> Inr (True, snd (nb_add (Some (p\<lparr>np_spot := np_spot packet\<rparr>)) b)))))))"

definition ule_deencap_step :: "encap_hdl \<Rightarrow> ule \<Rightarrow> net_packet option \<Rightarrow> net_burst \<Rightarrow> net_burst res" where
  "ule_deencap_step up u packet b =
     (case packet of
        None \<Rightarrow> Inr b
      | Some p \<Rightarrow>
          if np_type p \<noteq> NET_PROTO_ULE then Inr b
          else res_bind (deencapUle up u p b) (\<lambda>(ok, b'). Inr b'))"

definition ule_deencapsulate :: "encap_hdl \<Rightarrow> ule \<Rightarrow> net_packet option list \<Rightarrow> net_burst res" where
  "ule_deencapsulate up u burst = res_fold (ule_deencap_step up u) burst (new_net_burst 0)"

section \<open>The packet handler\<close>

text \<open>\<open>getLength\<close> reads two bytes behind a pointer; a short buffer is followed by a zero byte.\<close>

definition ule_getLength :: "data \<Rightarrow> nat" where
  "ule_getLength d = ULE_HEADER_LEN + (if unat (byte_at d 0) div 128 = 0 then ULE_ADDR_LEN else 0)
     + unat (byte_at d 0) mod 128 * 256 + unat (byte_at d 1)"

definition ule_build :: "data \<Rightarrow> nat \<Rightarrow> u8 \<Rightarrow> u8 \<Rightarrow> u8 \<Rightarrow> net_packet option" where
  "ule_build d data_length qos src dst =
     Some (full_net_packet d data_length ''ULE'' NET_PROTO_ULE qos src dst ULE_HEADER_LEN)"

definition ule_hdl :: encap_hdl where
  "ule_hdl = \<lparr>eh_min = 2, eh_length = ule_getLength, eh_build = ule_build\<rparr>"

end
