(* ===== verification/UleCorrect.thy ===== *)
theory UleCorrect
  imports Ule
begin

text \<open>
  ULE: the table-driven CRC against the division by the polynomial, bit by bit; the round trip of
  packets, with padding extensions; the extensions that are never looked up.
\<close>

section \<open>The CRC, bit by bit\<close>

definition crc_bit :: "u32 \<Rightarrow> u32" where
  "crc_bit c = (if bit c 31 then xor (push_bit 1 c) 0x04c11db7 else push_bit 1 c)"

definition crc_8 :: "u32 \<Rightarrow> u32" where
  "crc_8 c = crc_bit (crc_bit (crc_bit (crc_bit (crc_bit (crc_bit (crc_bit (crc_bit c)))))))"

definition crc_byte :: "u8 \<Rightarrow> u32 \<Rightarrow> u32" where
  "crc_byte b c = crc_8 (xor c (push_bit 24 (ucast b)))"

lemma crc_bit_xor: "crc_bit (xor a b) = xor (crc_bit a) (crc_bit b)"
  by (simp add: crc_bit_def bit_xor_iff xor.assoc xor.left_commute xor.commute)

lemma crc_8_xor: "crc_8 (xor a b) = xor (crc_8 a) (crc_8 b)"
  by (simp add: crc_8_def crc_bit_xor)

text \<open>The table doubles: the entries from \<open>2 ^ k\<close> on are those before it, plus the entry \<open>2 ^ k\<close>.\<close>

fun grow :: "u32 list \<Rightarrow> u32 list \<Rightarrow> u32 list" where
  "grow [] xs = xs"
| "grow (b # bs) xs = grow bs (xs @ map (xor b) xs)"

definition entry :: "nat \<Rightarrow> u32" where
  "entry i = crc_8 (push_bit 24 (of_nat i))"

lemma crc_table_grown:
  "crc_table = grow [0x04c11db7, 0x09823b6e, 0x130476dc, 0x2608edb8, 0x4c11db70, 0x9823b6e0, 0x34867077, 0x690ce0ee] [0]"
  by (simp add: crc_table_def)

lemma entry_powers:
  "entry 0 = 0" "entry 1 = 0x04c11db7" "entry 2 = 0x09823b6e" "entry 4 = 0x130476dc" "entry 8 = 0x2608edb8"
  "entry 16 = 0x4c11db70" "entry 32 = 0x9823b6e0" "entry 64 = 0x34867077" "entry 128 = 0x690ce0ee"
  by (simp_all add: entry_def crc_8_def crc_bit_def)

lemma entry_add: "i < 2 ^ k \<Longrightarrow> entry (2 ^ k + i) = xor (entry (2 ^ k)) (entry i)"
proof -
  assume i: "i < 2 ^ k"
  have "\<not> bit i k" using i by (simp add: bit_nat_def)
  then have "and (2 ^ k) i = 0" by (simp add: and_exp_eq_0_iff_not_bit and.commute)
  then have "2 ^ k + i = xor (2 ^ k) i" by (rule disjunctive_add_eq_xor)
  then show ?thesis by (simp add: entry_def of_nat_xor_eq crc_8_xor)
qed

lemma entries_double: "map entry [0..<2 ^ Suc k] = map entry [0..<2 ^ k] @ map (xor (entry (2 ^ k))) (map entry [0..<2 ^ k])"
proof -
  have "[0..<2 ^ Suc k] = [0..<2 ^ k] @ map (\<lambda>i. 2 ^ k + i) [0..<2 ^ k]"
    using upt_add_eq_append [of 0 "2 ^ k" "2 ^ k"] map_add_upt [of "2 ^ k" "2 ^ k"]
    by (simp add: add.commute mult_2)
  then show ?thesis by (simp add: entry_add)
qed

lemma grow_entries: "grow (map (\<lambda>k. entry (2 ^ k)) [m..<m + n]) (map entry [0..<2 ^ m]) = map entry [0..<2 ^ (m + n)]"
proof (induction n arbitrary: m)
  case (Suc n)
  have u: "[m..<m + Suc n] = m # [Suc m..<Suc m + n]" by (simp add: upt_rec)
  show ?case
    unfolding u list.map grow.simps entries_double [symmetric] using Suc.IH [of "Suc m"] by (simp del: upt_Suc power_Suc)
qed simp

lemma crc_table_entries: "crc_table = map entry [0..<256]"
proof -
  have "grow (map (\<lambda>k. entry (2 ^ k)) [0..<8]) (map entry [0..<1]) = map entry [0..<256]"
    using grow_entries [of 0 8] by simp
  moreover have "map (\<lambda>k. entry (2 ^ k)) [0..<8]
      = [0x04c11db7, 0x09823b6e, 0x130476dc, 0x2608edb8, 0x4c11db70, 0x9823b6e0, 0x34867077, 0x690ce0ee]"
    using entry_powers by (simp add: upt_rec)
  moreover have "map entry [0..<1] = [0]" using entry_powers by simp
  ultimately show ?thesis unfolding crc_table_grown by simp
qed

lemma crc_8_low: "crc_8 (take_bit 24 c) = push_bit 8 c"
proof -
  have "(crc_bit ^^ k) (take_bit 24 c) = push_bit k (take_bit 24 c)" if "k \<le> 8" for k
    using that
  proof (induction k)
    case (Suc k)
    then have "\<not> bit (push_bit k (take_bit 24 c)) 31" by (auto simp: bit_simps)
    then show ?case using Suc by (simp add: crc_bit_def push_bit_push_bit)
  qed simp
  then have "(crc_bit ^^ 8) (take_bit 24 c) = push_bit 8 (take_bit 24 c)" by blast
  then have "crc_8 (take_bit 24 c) = push_bit 8 (take_bit 24 c)"
    by (simp add: crc_8_def numeral_eq_Suc)
  moreover have "push_bit 8 (take_bit 24 c) = push_bit 8 c"
    by (rule bit_word_eqI) (auto simp: bit_simps)
  ultimately show ?thesis by simp
qed

lemma crc_step_byte: "crc_step b c = crc_byte b c"
proof -
  define i :: u32 where "i = take_bit 8 (xor (drop_bit 24 c) (ucast b))"
  have mask: "and x 0xff = take_bit 8 x" for x :: u32
    by (simp add: take_bit_eq_mask mask_eq_exp_minus_1)
  have i: "and (xor (drop_bit 24 c) (ucast b)) 0xff = i" by (simp only: mask i_def)
  have lt: "unat i < 256"
    unfolding i_def by (simp only: unsigned_take_bit_eq) (simp add: take_bit_eq_mod)
  have split: "xor c (push_bit 24 (ucast b)) = xor (push_bit 24 i) (take_bit 24 c)"
    unfolding i_def by (rule bit_word_eqI) (auto simp: bit_simps)
  have "crc_table ! unat i = crc_8 (push_bit 24 i)"
    unfolding crc_table_entries using lt by (simp add: entry_def)
  then show ?thesis
    unfolding crc_step_def crc_byte_def i split crc_8_xor crc_8_low by (simp add: xor.commute)
qed

text \<open>C18: The table-driven CRC of \<open>UlePacket::calcCrc\<close>, its 256 constants included, is the division of the
  bytes it covers, bit by bit and most significant bit first, by the CRC-32 polynomial \<open>0x04c11db7\<close>.
\<close>

theorem crc_is_polynomial_division:
  "calcCrc True d = fold crc_byte (take (unat (of_nat (length d) - 6 :: u32)) d) 0xffffffff"
proof -
  have "crc_step = crc_byte" by (intro ext crc_step_byte)
  then show ?thesis by (simp add: calcCrc_def ULE_ADDR_LEN_def)
qed

section \<open>Round trip\<close>

lemma rd32_append_be32: "rd32 (h @ be32 w) (length h) = w"
  by (rule rd32_be32) (simp_all add: byte_at_def nth_append)

text \<open>The fields of a packet that was built without address and without CRC.\<close>

lemma ule_bytes_fields:
  fixes ptype :: u16
  assumes "length payload + 4 < 32768"
  defines "d \<equiv> ule_bytes ptype None payload False"
  shows "length d = length payload + 8" "ule_getLength d = length d" "ule_isValid False d = Inr True"
    "ule_getPayloadType d = Inr ptype" "ule_getPayload d = Inr payload" "unat (d ! 0) = 128 + (length payload + 4) div 256"
proof -
  let ?l = "length payload + 4"
  have hi: "?l div 256 < 128" using assms(1) by linarith
  have "unat (of_nat (128 + ?l div 256) :: u8) = 128 + ?l div 256" by (rule u8_of_nat_id) (use hi in linarith)
  then have b0: "unat (d ! 0) = 128 + ?l div 256"
    using hi by (simp add: d_def ule_bytes_def Let_def ULE_CRC_LEN_def del: of_nat_add)
  have b1: "unat (d ! 1) = ?l mod 256"
    by (simp add: d_def ule_bytes_def Let_def ULE_CRC_LEN_def unat_u8_div_mod del: of_nat_add)
  have m: "(128 + ?l div 256) mod 128 = ?l div 256" "(128 + ?l div 256) div 128 = 1"
    using hi by simp_all
  have sum: "?l div 256 * 256 + ?l mod 256 = ?l" by simp
  show len: "length d = length payload + 8"
    by (simp add: d_def ule_bytes_def Let_def be16_def)
  have lf: "ule_length_field d = Inr ?l"
    using len b0 b1 m sum by (simp add: ule_length_field_def del: add_mult_distrib)
  have pl: "ule_getPayloadLength d = Inr (length payload)"
    by (simp add: ule_getPayloadLength_def lf ULE_CRC_LEN_def)
  show "unat (d ! 0) = 128 + ?l div 256" by (rule b0)
  have present: "ule_isDstAddrPresent d = Inr False" using len b0 m by (simp add: ule_isDstAddrPresent_def)
  show "ule_getLength d = length d"
    using len b0 b1 m sum by (simp add: ule_getLength_def byte_at_def ULE_HEADER_LEN_def)
  have tot: "unat (of_nat (8 + length payload) :: u16) = length payload + 8"
    using assms(1) by (subst u16_of_nat_id) linarith+
  have crc: "ule_crc d = Inr 0xffffffff"
  proof -
    obtain h where h: "d = h @ be32 0xffffffff"
      unfolding d_def ule_bytes_def Let_def calcCrc_def by simp
    then show ?thesis by (simp add: ule_crc_def rd32_append_be32)
  qed
  show "ule_isValid False d = Inr True"
    using len tot by (simp add: ule_isValid_def present pl crc calcCrc_def ULE_HEADER_LEN_def ULE_CRC_LEN_def add.commute)
  have "rd16 d 2 = ptype"
    by (rule rd16_be16) (simp_all add: byte_at_def d_def ule_bytes_def Let_def be16_def)
  then show "ule_getPayloadType d = Inr ptype"
    using len by (simp add: ule_getPayloadType_def rd16_def byte_at_def)
  show "ule_getPayload d = Inr payload"
    using len by (simp add: ule_getPayload_def pl substr_def ULE_CRC_LEN_def)
      (simp add: d_def ule_bytes_def Let_def be16_def)
qed

text \<open>The extensions are taken off in the reverse order they were put on.\<close>

lemma ext_build_decode:
  assumes "om_find (ul_optional u) 0 = Some ExtPadding" "ext_build ExtPadding t pl = (st, t', pl')"
  shows "decode_exts u t' pl' = decode_exts u t pl"
proof -
  have e: "t' = 1280" "pl' = replicate 8 0 @ be16 t @ pl"
    using assms(2) by (auto simp: ext_type_def)
  have r: "rd16 (replicate 8 0 @ be16 t @ pl) 8 = t"
    by (rule rd16_be16) (simp_all add: byte_at_def nth_append)
  have d: "ext_decode ExtPadding 5 pl' = (ExtOk, t, pl)" using r by (simp add: e(2))
  show ?thesis
    by (subst decode_exts.simps) (simp add: e(1) assms(1) d del: ext_decode.simps)
qed

lemma build_exts_padding:
  assumes "\<forall>e \<in> set es. e = ExtPadding \<and> om_find (ul_optional u) 0 = Some ExtPadding"
  obtains t' pl' where "build_exts es t pl = Some (t', pl')" "decode_exts u t' pl' = decode_exts u t pl"
    "length pl' = length pl + 10 * length es"
  using assms
proof (induction es arbitrary: t pl thesis)
  case (Cons e es)
  obtain st t1 pl1 where b: "ext_build ExtPadding t pl = (st, t1, pl1)" by (cases "ext_build ExtPadding t pl") auto
  then have l: "st = ExtOk" "length pl1 = length pl + 10" by auto
  obtain t' pl' where r: "build_exts es t1 pl1 = Some (t', pl')" "decode_exts u t' pl' = decode_exts u t1 pl1"
    "length pl' = length pl1 + 10 * length es"
    using Cons.IH [of t1 pl1] Cons.prems(2) by auto
  have e: "e = ExtPadding" "om_find (ul_optional u) 0 = Some ExtPadding" using Cons.prems(2) by simp_all
  show ?case
    by (rule Cons.prems(1) [of t' pl'])
      (use r b l e ext_build_decode [OF e(2) b] in \<open>simp_all del: ext_build.simps\<close>)
qed simp

text \<open>What the receiver gives for a packet that was sent.\<close>

definition ule_sdu :: "encap_hdl \<Rightarrow> net_packet \<Rightarrow> net_packet list" where
  "ule_sdu up p =
     (case eh_build up (np_data p) (length (np_data p)) (np_qos p) (np_src_tal_id p) (np_dst_tal_id p) of
        None \<Rightarrow> [] | Some q \<Rightarrow> [q\<lparr>np_spot := np_spot p\<rparr>])"

definition ule_fits :: "ule \<Rightarrow> net_packet \<Rightarrow> bool" where
  "ule_fits u p \<longleftrightarrow> 1536 \<le> unat (np_type p) \<and> length (np_data p) + 10 * length (ul_build u) + 4 < 32768"

definition ule_config :: "ule \<Rightarrow> bool" where
  "ule_config u \<longleftrightarrow> \<not> ul_crc u
     \<and> (\<forall>e \<in> set (ul_build u). e = ExtPadding \<and> om_find (ul_optional u) 0 = Some ExtPadding)"

lemma encapUle_packet:
  assumes "ule_config u" "ule_fits u p" "nb_limit b = 0"
  obtains t pl where
    "encapUle u p b = (True, nb_append [(new_ule_packet (ule_bytes t None pl False))
       \<lparr>np_src_tal_id := np_src_tal_id p, np_dst_tal_id := np_dst_tal_id p, np_qos := np_qos p,
        np_spot := np_spot p\<rparr>] b)"
    "length pl = length (np_data p) + 10 * length (ul_build u)" "decode_exts u t pl = Some (np_type p, np_data p)"
proof -
  obtain t pl where b: "build_exts (ul_build u) (np_type p) (np_data p) = Some (t, pl)"
    "decode_exts u t pl = decode_exts u (np_type p) (np_data p)"
    "length pl = length (np_data p) + 10 * length (ul_build u)"
    by (rule build_exts_padding [of "ul_build u" u]) (use assms(1) in \<open>auto simp: ule_config_def\<close>)
  have "decode_exts u (np_type p) (np_data p) = Some (np_type p, np_data p)"
    by (subst decode_exts.simps) (use assms(2) in \<open>simp add: ule_fits_def\<close>)
  then show ?thesis
    by (intro that [of t pl]) (use b assms in \<open>simp_all add: encapUle_def ule_config_def ule_fits_def nb_append_def\<close>)
qed

lemma deencapUle_packet:
  assumes "ule_config u" "length pl + 4 < 32768" "decode_exts u t pl = Some (ty, sdu)" "nb_limit b = 0"
    "np_data q = ule_bytes t None pl False" "np_type q = NET_PROTO_ULE"
    "ids = (np_qos q, np_src_tal_id q, np_dst_tal_id q, np_spot q)"
    "ids = (np_qos p, np_src_tal_id p, np_dst_tal_id p, np_spot p)" "np_data p = sdu"
  shows "ule_deencap_step up u (Some q) b = Inr (nb_append (ule_sdu up p) b)"
  using assms ule_bytes_fields [OF assms(2), of t]
  by (auto simp: ule_deencap_step_def deencapUle_def ule_config_def ule_sdu_def nb_append_def split: option.splits)

text \<open>C17: Round trip of the ULE plugin: without CRC, with any number of padding extensions to build, the packets
  of a burst that \<open>Ule::Context::encapsulate\<close> made are deencapsulated to the packets the upper plugin
  builds from the original data, in order, with the same QoS, terminals and spot, as long as the type
  of each packet is an EtherType and its data with its extensions fits the 15 bits of the length.
\<close>

theorem ule_roundtrip:
  assumes "ule_config u" "\<forall>p \<in> set ps. ule_fits u p"
  shows "ule_deencapsulate up u (map Some (nb_packets (ule_encapsulate u ps)))
    = Inr \<lparr>nb_limit = 0, nb_packets = concat (map (ule_sdu up) ps)\<rparr>"
proof -
  have "\<exists>qs. fold (\<lambda>p b. snd (encapUle u p b)) ps b = nb_append qs b
      \<and> res_fold (ule_deencap_step up u) (map Some qs) c = Inr (nb_append (concat (map (ule_sdu up) ps)) c)"
    if "nb_limit b = 0" "nb_limit c = 0" for b c
    using assms(2) that
  proof (induction ps arbitrary: b c)
    case Nil
    show ?case by (rule exI [of _ "[]"]) simp
  next
    case (Cons p ps)
    obtain t pl where e: "encapUle u p b = (True, nb_append [(new_ule_packet (ule_bytes t None pl False))
        \<lparr>np_src_tal_id := np_src_tal_id p, np_dst_tal_id := np_dst_tal_id p, np_qos := np_qos p,
         np_spot := np_spot p\<rparr>] b)" (is "_ = (True, nb_append [?q] b)")
      "length pl = length (np_data p) + 10 * length (ul_build u)" "decode_exts u t pl = Some (np_type p, np_data p)"
      by (rule encapUle_packet [OF assms(1)]) (use Cons.prems in auto)
    have len: "length pl + 4 < 32768" using e(2) Cons.prems(1) by (simp add: ule_fits_def)
    have d: "ule_deencap_step up u (Some ?q) c = Inr (nb_append (ule_sdu up p) c)"
      by (rule deencapUle_packet [OF assms(1) len e(3) Cons.prems(3)])
        (simp_all add: new_ule_packet_def new_net_packet_def)
    obtain qs where "fold (\<lambda>p b. snd (encapUle u p b)) ps (nb_append [?q] b) = nb_append qs (nb_append [?q] b)"
      "res_fold (ule_deencap_step up u) (map Some qs) (nb_append (ule_sdu up p) c)
        = Inr (nb_append (concat (map (ule_sdu up) ps)) (nb_append (ule_sdu up p) c))"
      using Cons.IH [of "nb_append [?q] b" "nb_append (ule_sdu up p) c"] Cons.prems by auto
    then show ?case using e(1) d by (intro exI [of _ "?q # qs"]) simp
  qed
  from this [of "new_net_burst 0" "new_net_burst 0"] show ?thesis
    by (auto simp: ule_encapsulate_def ule_deencapsulate_def new_net_burst_def nb_append_def)
qed

theorem ule_roundtrip_witness:
  "let u = snd (ule_addExt (Some ExtPadding) True (ule_init \<lparr>ul_mandatory = [], ul_optional = [], ul_build = [], ul_crc = True\<rparr>));
       ip = \<lparr>eh_min = 20, eh_length = length, eh_build = (\<lambda>d n q s t. Some (full_net_packet d n ''IP'' 0x0800 q s t 20))\<rparr>;
       p = (new_net_packet [0x45, 0, 7])\<lparr>np_type := 0x0800, np_qos := 2, np_src_tal_id := 3, np_dst_tal_id := 4, np_spot := 1\<rparr>
   in ule_deencapsulate ip u (map Some (nb_packets (ule_encapsulate u [p, p])))
      = Inr \<lparr>nb_limit = 0, nb_packets = [p\<lparr>np_name := ''IP'', np_header_length := 20\<rparr>, p\<lparr>np_name := ''IP'', np_header_length := 20\<rparr>]\<rparr>"
  unfolding Let_def
  by (subst ule_roundtrip)
    (simp_all add: ule_config_def ule_fits_def ule_addExt_def ule_init_def ule_sdu_def ext_mandatory_def ext_type_def
      new_net_packet_def full_net_packet_def)

section \<open>Extensions that are never looked up\<close>

lemma decode_exts_mandatory: "decode_exts (u\<lparr>ul_mandatory := exts\<rparr>) t pl = decode_exts u t pl"
proof (induction pl arbitrary: t rule: length_induct)
  case (1 pl)
  have same: "ul_optional (u\<lparr>ul_mandatory := exts\<rparr>) = ul_optional u" by simp
  show ?case
  proof (cases "om_find (ul_optional u) (of_nat (unat t mod 256))")
    case None
    then show ?thesis by (simp only: decode_exts.simps [of _ t pl] Let_def same option.case)
  next
    case (Some e)
    obtain st t' pl' where d: "ext_decode e (unat t div 256 mod 8) pl = (st, t', pl')" by (metis prod_cases3)
    have "decode_exts (u\<lparr>ul_mandatory := exts\<rparr>) t' pl' = decode_exts u t' pl'" if "st = ExtOk"
      using 1 ext_decode_shorter [of e _ pl t' pl'] d that by blast
    then show ?thesis using Some d by (cases st) (simp_all only: decode_exts.simps [of _ t pl] Let_def same option.case prod.case ext_status.case)
  qed
qed

text \<open>Whatever mandatory extensions are registered, \<open>Ule::Context::deencapsulate\<close> gives the same burst:
  the map of the mandatory extensions is never looked up, and a packet with a mandatory extension is
  decoded, or dropped, by what the optional ones say.
\<close>

theorem mandatory_exts_never_used:
  "ule_deencapsulate up (u\<lparr>ul_mandatory := exts\<rparr>) burst = ule_deencapsulate up u burst"
proof -
  have "deencapUle up (u\<lparr>ul_mandatory := exts\<rparr>) p b = deencapUle up u p b" for p b
    unfolding deencapUle_def decode_exts_mandatory by simp
  then have "ule_deencap_step up (u\<lparr>ul_mandatory := exts\<rparr>) = ule_deencap_step up u"
    by (intro ext) (simp add: ule_deencap_step_def split: option.split)
  then show ?thesis by (simp add: ule_deencapsulate_def)
qed

section \<open>The bytes the CRC covers\<close>

lemma crc_mismatch:
  "ule_isValid True (ule_bytes 0x0800 None [0x45, 0, 7, 9] True) = Inr False"
proof -
  have step: "crc_step b c = crc_8 (xor c (push_bit 24 (ucast b)))" for b c
    by (simp add: crc_step_byte crc_byte_def)
  have sent: "calcCrc True [128, 8, 8, 0, 69, 0, 7, 9] = 0xa433515d"
    by (simp add: calcCrc_def ULE_ADDR_LEN_def step crc_8_def crc_bit_def)
  have d: "ule_bytes 0x0800 None [0x45, 0, 7, 9] True = [128, 8, 8, 0, 69, 0, 7, 9, 164, 51, 81, 93]"
    using sent by (simp add: ule_bytes_def ULE_CRC_LEN_def be16_def be32_def)
  have "calcCrc True [128, 8, 8, 0, 69, 0, 7, 9, 164, 51, 81, 93] = 0xf1c99594"
    by (simp add: calcCrc_def ULE_ADDR_LEN_def step crc_8_def crc_bit_def)
  then show ?thesis
    unfolding d by (simp add: ule_isValid_def ule_isDstAddrPresent_def ule_getPayloadLength_def ule_length_field_def
      ule_crc_def rd32_def byte_at_def ULE_HEADER_LEN_def ULE_CRC_LEN_def)
qed

text \<open>With the CRC enabled the plugin drops its own packets: \<open>calcCrc\<close> covers all but the last 6 bytes of the
  packet it is called on, which in the constructor has not got its 4 bytes of CRC yet and in
  \<open>isValid\<close> has. Here a burst of one packet comes back empty.
\<close>

theorem crc_rejects_own_packet:
  "let u = \<lparr>ul_mandatory = [], ul_optional = [], ul_build = [], ul_crc = True\<rparr>;
       p = (new_net_packet [0x45, 0, 7, 9])\<lparr>np_type := 0x0800\<rparr>
   in ule_deencapsulate up u (map Some (nb_packets (ule_encapsulate u [p]))) = Inr (new_net_burst 0)"
  by (simp add: Let_def ule_deencapsulate_def ule_encapsulate_def encapUle_def new_net_packet_def new_net_burst_def
      new_ule_packet_def ule_deencap_step_def deencapUle_def crc_mismatch)

end
