(* ===== verification/MpegUle.thy ===== *)
theory MpegUle
  imports MpegDeliver UleCorrect
begin

text \<open>
  A session of the MPEG2-TS plugin, from the bursts given to the sender to the packets the receiver
  delivers, with and without losses; then ULE as its upper plugin: \<open>ule_hdl\<close> keeps the contract of
  the carrier, and the two plugins together carry the packets of the layer above.
\<close>

section \<open>A session, for any upper plugin\<close>

lemma fd_frames_length: "length (fd_frames p cc ds) = length ds"
  by (induction ds arbitrary: cc) simp_all

context mpeg_upper
begin

lemma idle_pending:
  assumes "opened c px ss" "idle c"
  shows "pending px ss = []"
proof -
  obtain pre t where px: "px = (pre, t)" by force
  have l: "length (ec_frame c) = 4" using assms(2) by (simp add: idle_def)
  have o: "ec_frame c = fr_header (ec_pid c) (ec_cc c) (ss \<noteq> []) @ (if ss \<noteq> [] then [of_nat (length t)] else []) @ t @ concat ss"
    "if pre = [] then t = [] else t \<noteq> [] \<and> ok (pre @ t)"
    using assms(1) by (simp_all add: opened_def px)
  have ss: "ss = []" using l o(1) by (cases "ss = []") simp_all
  have t: "t = []" using l o(1) ss by simp
  have "pre = []" using o(2) t by (cases "pre = []") simp_all
  then show ?thesis using t ss px by simp
qed

lemma fd_frames_pid:
  "unat p < 8192 \<Longrightarrow> unat cc < 16 \<Longrightarrow> d \<in> set (fd_frames p cc ds) \<Longrightarrow> mp_getPid d = Inr p \<and> 4 \<le> length d"
proof (induction ds arbitrary: cc)
  case (Cons x ds)
  have "mp_getPid (fd_bytes p cc x) = Inr p \<and> 4 \<le> length (fd_bytes p cc x)"
    using Cons.prems fr_header_fields(2) by (simp add: fd_bytes_def split: prod.split)
  then show ?case using Cons.IH [of "next_counter cc"] Cons.prems by auto
qed simp

definition session :: "spot_id_t \<Rightarrow> net_packet list \<Rightarrow> net_packet list \<Rightarrow> bool" where
  "session sp fs P \<longleftrightarrow> (\<forall>q \<in> set fs. ts_frame sp q)
     \<and> (\<forall>p. unat p < 8192 \<longrightarrow> (\<exists>ds px. of_pid p fs = map (ts_packet p sp) (fd_frames p 0 ds)
          \<and> chain ([], []) ds px \<and> fd_sndus ds = map np_data (of_pid p P)))"

lemma sender_ok_empty:
  assumes "mg_encap m = []"
  shows "sender_ok sp m [] []"
proof -
  have "sent_by p sp m [] []" if "unat p < 8192" for p
    unfolding sent_by_def using assms by (intro exI [of _ "[]"] exI [of _ "([], [])"]) (simp add: ctx_is_def)
  then show ?thesis using assms by (simp add: sender_ok_def)
qed

lemma send_session:
  assumes "mg_encap m = []" "\<forall>x \<in> set (event_packets es). np_spot x = sp \<and> ok (np_data x)"
  obtains fs m' where "mg_send up es m = Inr (fs, m')" "session sp fs (event_packets es)"
proof -
  from send_ok [OF sender_ok_empty [OF assms(1)] assms(2)] obtain fs m' where s: "mg_send up es m = Inr (fs, m')"
    "sender_ok sp m' fs (event_packets es)" "\<forall>c \<in> snd ` set (mg_encap m'). idle c" by auto
  have per: "\<exists>ds px. of_pid p fs = map (ts_packet p sp) (fd_frames p 0 ds) \<and> chain ([], []) ds px
      \<and> fd_sndus ds = map np_data (of_pid p (event_packets es))" if p: "unat p < 8192" for p
  proof -
    obtain ds px ss where b: "of_pid p fs = map (ts_packet p sp) (fd_frames p 0 ds)" "chain ([], []) ds px"
      "fd_sndus ds @ pending px ss = map np_data (of_pid p (event_packets es))"
      "ctx_is p sp ds px ss (om_find (mg_encap m') (uint p))"
      using sender_okD [OF s(2) p] unfolding sent_by_def by blast
    have "pending px ss = []"
    proof (cases "om_find (mg_encap m') (uint p)")
      case None
      then show ?thesis using b(4) by (simp add: ctx_is_def)
    next
      case (Some c)
      then have "idle c" using s(3) by (force dest: map_of_SomeD)
      moreover have "opened c px ss" using b(4) Some by (simp add: ctx_is_def)
      ultimately show ?thesis by (rule idle_pending [rotated])
    qed
    then have "fd_sndus ds = map np_data (of_pid p (event_packets es))" using b(3) by simp
    then show ?thesis using b(1,2) by blast
  qed
  have "ts_frame sp q" if q: "q \<in> set fs" for q
  proof -
    obtain p d where d: "unat p < 8192" "q = ts_packet p sp d" using s(2) q by (auto simp: sender_ok_def)
    obtain ds where "of_pid p fs = map (ts_packet p sp) (fd_frames p 0 ds)" using per [OF d(1)] by blast
    moreover have "q \<in> set (of_pid p fs)" using q d by (simp add: ts_packet_pid)
    ultimately obtain d' where "q = ts_packet p sp d'" "d' \<in> set (fd_frames p 0 ds)" by auto
    then show ?thesis using fd_frames_pid [of p 0 d' ds] d(1) unfolding ts_frame_def by auto
  qed
  then show ?thesis using that s(1) per by (simp add: session_def)
qed

end

section \<open>Losses, PID by PID\<close>

text \<open>The part of a loss pattern that concerns the frames of a PID.\<close>

fun pid_mask :: "u16 \<Rightarrow> bool list \<Rightarrow> net_packet list \<Rightarrow> bool list" where
  "pid_mask p (b # bs) (q # qs) = (if getPidFromPacket q = p then b # pid_mask p bs qs else pid_mask p bs qs)"
| "pid_mask p _ _ = []"

lemma of_pid_pick: "length bs = length qs \<Longrightarrow> of_pid p (pick bs qs) = pick (pid_mask p bs qs) (of_pid p qs)"
proof (induction bs arbitrary: qs)
  case (Cons b bs)
  then obtain q qs' where "qs = q # qs'" "length bs = length qs'" by (cases qs) auto
  then show ?case using Cons.IH [of qs'] by (cases b) simp_all
qed simp

lemma length_pid_mask: "length bs = length qs \<Longrightarrow> length (pid_mask p bs qs) = length (of_pid p qs)"
proof (induction bs arbitrary: qs)
  case (Cons b bs)
  then obtain q qs' where "qs = q # qs'" "length bs = length qs'" by (cases qs) auto
  then show ?case using Cons.IH [of qs'] by simp
qed simp

lemma set_pick: "set (pick bs xs) \<subseteq> set xs"
  by (induction bs xs rule: pick.induct) auto

context mpeg_upper_ids
begin

lemma fresh_find: "mg_deencap r = [] \<Longrightarrow> om_find (mg_deencap r) k = None"
  by simp

lemma session_delivers:
  assumes "session sp fs P" "mg_deencap r = []"
  obtains out r' where "mg_deencapsulate junk up (map Some fs) r = Inr (out, r')"
    "\<And>p. accepts r p \<Longrightarrow> of_pid p (nb_packets out) = delivered p sp (map np_data (of_pid p P))"
    "\<And>q. q \<in> set (nb_packets out) \<Longrightarrow> accepts r (getPidFromPacket q)"
proof -
  have "\<exists>out r'. res_fold (mg_deencap_step junk up) (map Some fs) (new_net_burst 0, r) = Inr (nb_append out (new_net_burst 0), r')
    \<and> (\<forall>p. accepts r p \<longrightarrow> of_pid p out = delivered p sp (map np_data (of_pid p P)))
    \<and> (\<forall>q \<in> set out. accepts r (getPidFromPacket q))"
  proof (rule deencap_project)
    show "\<forall>q \<in> set fs. ts_frame sp q" using assms(1) by (simp add: session_def)
    show "\<exists>co. rcv_fold junk p (of_pid p fs) (om_find (mg_deencap r) (uint p))
      = Inr (co, delivered p sp (map np_data (of_pid p P)))" if "accepts r p" for p
    proof -
      have p: "unat p < 8192" using that by (simp add: accepts_def)
      obtain ds px where b: "of_pid p fs = map (ts_packet p sp) (fd_frames p 0 ds)" "chain ([], []) ds px"
        "fd_sndus ds = map np_data (of_pid p P)"
        using assms(1) p unfolding session_def by blast
      have "awaits 0 ([], []) None" by (simp add: awaits_def)
      from rcv_chain [OF b(2) this p] show ?thesis
        unfolding b(1) b(3) [symmetric] fresh_find [OF assms(2)] by simp
    qed
    show "getPidFromPacket q = p" if "accepts r p" "q \<in> set (delivered p sp (map np_data (of_pid p P)))" for p q
      using delivered_pid that by (simp add: accepts_def)
  qed
  then show ?thesis using that by (auto simp: mg_deencapsulate_def new_net_burst_def)
qed

lemma session_delivers_lossy:
  assumes "session sp fs P" "mg_deencap r = []" "length bs = length fs"
    and gaps: "\<And>p. accepts r p \<Longrightarrow> short_gaps 0 (pid_mask p bs fs)"
  obtains out r' where "mg_deencapsulate junk up (map Some (pick bs fs)) r = Inr (out, r')"
    "\<And>p. accepts r p \<Longrightarrow> subseq (of_pid p (nb_packets out)) (delivered p sp (map np_data (of_pid p P)))"
    "\<And>q. q \<in> set (nb_packets out) \<Longrightarrow> accepts r (getPidFromPacket q)"
proof -
  have "\<exists>co out. rcv_fold junk p (of_pid p (pick bs fs)) (om_find (mg_deencap r) (uint p)) = Inr (co, out)
      \<and> subseq out (delivered p sp (map np_data (of_pid p P)))" if "accepts r p" for p
  proof -
    have p: "unat p < 8192" using that by (simp add: accepts_def)
    obtain ds px where b: "of_pid p fs = map (ts_packet p sp) (fd_frames p 0 ds)" "chain ([], []) ds px"
      "fd_sndus ds = map np_data (of_pid p P)"
      using assms(1) p unfolding session_def by blast
    have len: "length (pid_mask p bs fs) = length ds"
      using length_pid_mask [OF assms(3), of p] b(1) by (simp add: fd_frames_length)
    have "awaits_gap 0 0 ([], []) None" by (simp add: awaits_gap_def)
    from rcv_lossy [OF b(2) this p _ gaps [OF that] _ len] show ?thesis
      unfolding of_pid_pick [OF assms(3)] b(1) b(3) [symmetric] fresh_find [OF assms(2)] by simp
  qed
  then obtain outs where outs: "\<And>p. accepts r p \<Longrightarrow> \<exists>co. rcv_fold junk p (of_pid p (pick bs fs)) (om_find (mg_deencap r) (uint p)) = Inr (co, outs p)"
    "\<And>p. accepts r p \<Longrightarrow> subseq (outs p) (delivered p sp (map np_data (of_pid p P)))"
    by metis
  have "\<exists>out r'. res_fold (mg_deencap_step junk up) (map Some (pick bs fs)) (new_net_burst 0, r) = Inr (nb_append out (new_net_burst 0), r')
    \<and> (\<forall>p. accepts r p \<longrightarrow> of_pid p out = outs p) \<and> (\<forall>q \<in> set out. accepts r (getPidFromPacket q))"
  proof (rule deencap_project [OF _ outs(1)])
    show "\<forall>q \<in> set (pick bs fs). ts_frame sp q" using assms(1) set_pick [of bs fs] by (auto simp: session_def)
    show "getPidFromPacket q = p" if "accepts r p" "q \<in> set (outs p)" for p q
    proof -
      have "q \<in> set (delivered p sp (map np_data (of_pid p P)))" using list_emb_set [OF outs(2) [OF that(1)] that(2)] by auto
      then show ?thesis using delivered_pid that(1) by (simp add: accepts_def)
    qed
  qed
  then show ?thesis using that outs(2) by (auto simp: mg_deencapsulate_def new_net_burst_def)
qed

end

section \<open>ULE packets as SNDUs\<close>

definition ule_sndu :: "data \<Rightarrow> bool" where
  "ule_sndu s \<longleftrightarrow> 2 \<le> length s \<and> ule_getLength s = length s \<and> \<not> (s ! 0 = 0xff \<and> s ! 1 = 0xff)"

lemma ule_getLength_prefix: "2 \<le> n \<Longrightarrow> n \<le> length s \<Longrightarrow> ule_getLength (take n s @ r) = ule_getLength s"
proof -
  assume n: "2 \<le> n" "n \<le> length s"
  then have "byte_at (take n s @ r) 0 = byte_at s 0" "byte_at (take n s @ r) 1 = byte_at s 1"
    by (auto simp: byte_at_def nth_append)
  then show ?thesis by (simp only: ule_getLength_def)
qed

lemma ule_getLength_less: "ule_getLength s < 4294967296"
proof -
  let ?a = "if unat (byte_at s 0) div 128 = 0 then ULE_ADDR_LEN else 0"
  have "unat (byte_at s 0) mod 128 < 128" "unat (byte_at s 1) < 256" "?a \<le> 6"
    by (simp_all add: unat_u8_less ULE_ADDR_LEN_def)
  then show ?thesis unfolding ule_getLength_def ULE_HEADER_LEN_def by linarith
qed

interpretation ule_ts: mpeg_upper_ids ule_hdl ule_sndu
proof unfold_locales
  show "2 \<le> eh_min ule_hdl" "eh_min ule_hdl \<le> 183" by (simp_all add: ule_hdl_def)
  show "ule_sndu s \<Longrightarrow> eh_min ule_hdl \<le> length s \<and> length s < 4294967296" for s
    using ule_getLength_less [of s] by (simp add: ule_sndu_def ule_hdl_def)
  show "ule_sndu s \<Longrightarrow> eh_min ule_hdl \<le> n \<Longrightarrow> n \<le> length s \<Longrightarrow> eh_length ule_hdl (take n s @ r) = length s" for s n r
    using ule_getLength_prefix [of n s r] by (simp add: ule_sndu_def ule_hdl_def)
  show "ule_sndu s \<Longrightarrow> \<not> (s ! 0 = 0xff \<and> s ! 1 = 0xff)" for s by (simp add: ule_sndu_def)
  show "eh_build ule_hdl s n qos src dst = Some q \<Longrightarrow> np_qos q = qos \<and> np_src_tal_id q = src \<and> np_dst_tal_id q = dst"
    for s n qos src dst q
    by (auto simp: ule_hdl_def ule_build_def full_net_packet_def)
qed

interpretation ule_sd: self_delimiting ule_hdl ule_sndu
proof unfold_locales
  show "ule_sndu p \<Longrightarrow> p @ r = q \<Longrightarrow> eh_length ule_hdl q = length p" for p r q
    using ule_getLength_prefix [of "length p" p r] by (auto simp: ule_sndu_def ule_hdl_def)
  show "ule_sndu p \<Longrightarrow> 0 < length p" for p by (auto simp: ule_sndu_def)
qed

text \<open>What a receiver rebuilds of an SNDU with a PID.\<close>

definition ule_of_sndu :: "u16 \<Rightarrow> spot_id_t \<Rightarrow> data \<Rightarrow> net_packet" where
  "ule_of_sndu p sp s = (full_net_packet s (length s) ''ULE'' NET_PROTO_ULE (pid_qos p) (pid_src p) (pid_dst p)
     ULE_HEADER_LEN)\<lparr>np_spot := sp\<rparr>"

lemma ule_delivered: "ule_ts.delivered p sp ss = map (ule_of_sndu p sp) ss"
proof -
  have "eh_build ule_hdl = ule_build" by (simp add: ule_hdl_def)
  then have "ule_ts.sndu_packet (ts_packet p sp []) s = [ule_of_sndu p sp s]" for s
    by (simp add: ule_ts.sndu_packet_def ule_build_def ule_of_sndu_def ts_packet_def)
  then show ?thesis by (induction ss) (simp_all add: ule_ts.delivered_def)
qed

definition session_packets :: "spot_id_t \<Rightarrow> mg_event list \<Rightarrow> bool" where
  "session_packets sp es \<longleftrightarrow> (\<forall>x \<in> set (event_packets es). np_spot x = sp \<and> ule_sndu (np_data x))"

text \<open>C16: ULE packets over MPEG2-TS, all frames arriving in order: whatever bursts the sender is given, with any PIDs
  mixed, any packing threshold and any flushes in between, it does not fault, and a receiver with no context
  yet delivers for every PID it accepts exactly the ULE packets of that PID, in the order they were given,
  and nothing else.
\<close>

theorem mpeg_roundtrip:
  assumes "mg_encap m = []" "mg_deencap r = []" "session_packets sp es"
  shows "\<exists>fs m' out r'. mg_send ule_hdl es m = Inr (fs, m')
    \<and> mg_deencapsulate junk ule_hdl (map Some fs) r = Inr (out, r')
    \<and> (\<forall>p. accepts r p \<longrightarrow> filter (\<lambda>q. getPidFromPacket q = p) (nb_packets out)
          = map (\<lambda>x. ule_of_sndu p sp (np_data x)) (filter (\<lambda>x. getPidFromPacket x = p) (event_packets es)))
    \<and> (\<forall>q \<in> set (nb_packets out). accepts r (getPidFromPacket q))"
proof -
  obtain fs m' where s: "mg_send ule_hdl es m = Inr (fs, m')" "ule_ts.session sp fs (event_packets es)"
    by (rule ule_ts.send_session [OF assms(1)]) (use assms(3) in \<open>simp_all add: session_packets_def\<close>)
  obtain out r' where "mg_deencapsulate junk ule_hdl (map Some fs) r = Inr (out, r')"
    "\<And>p. accepts r p \<Longrightarrow> of_pid p (nb_packets out) = ule_ts.delivered p sp (map np_data (of_pid p (event_packets es)))"
    "\<And>q. q \<in> set (nb_packets out) \<Longrightarrow> accepts r (getPidFromPacket q)"
    by (rule ule_ts.session_delivers [OF s(2) assms(2), of junk]) blast
  then show ?thesis using s(1) by (auto simp: ule_delivered comp_def)
qed

lemma short_gaps_received: "short_gaps g (pid_mask p (replicate n True) qs)"
proof (induction n arbitrary: g qs)
  case (Suc n)
  then show ?case by (cases qs) simp_all
qed simp

lemma short_gaps_one: "short_gaps 0 (pid_mask p (take (length qs) (False # replicate (length qs) True)) qs)"
proof (cases qs)
  case (Cons q qs')
  have "take (length qs') (True # replicate (length qs') True) = replicate (length qs') True"
    by (cases qs') (simp_all flip: replicate_Suc)
  then show ?thesis using Cons short_gaps_received by simp
qed simp

theorem mpeg_roundtrip_witness:
  "let x = (new_ule_packet [128, 6, 8, 0, 1, 2, 255, 255, 255, 255])\<lparr>np_dst_tal_id := 3, np_src_tal_id := 5, np_spot := 1\<rparr>;
       y = x\<lparr>np_src_tal_id := 6\<rparr>; es = [Encap [x, y], Flush 808, Encap [x]];
       m = \<lparr>mg_encap = [], mg_deencap = [], mg_threshold = 2, mg_dst_tal_id = 3\<rparr>
   in \<exists>fs m' out r'. mg_send ule_hdl es m = Inr (fs, m')
    \<and> mg_deencapsulate 7 ule_hdl (map Some fs) m = Inr (out, r')
    \<and> (\<forall>p. accepts m p \<longrightarrow> filter (\<lambda>q. getPidFromPacket q = p) (nb_packets out)
          = map (\<lambda>x. ule_of_sndu p 1 (np_data x)) (filter (\<lambda>x. getPidFromPacket x = p) (event_packets es)))
    \<and> (\<forall>q \<in> set (nb_packets out). accepts m (getPidFromPacket q))"
  unfolding Let_def
  by (rule mpeg_roundtrip)
    (simp_all add: session_packets_def ule_sndu_def ule_getLength_def byte_at_def new_ule_packet_def new_net_packet_def
      ULE_HEADER_LEN_def)

text \<open>C4: Losses: when some frames of a session never arrive, but no 16 frames in a row of an accepted PID are lost,
  the receiver still does not fault, and what it delivers for every accepted PID is a subsequence of the ULE
  packets sent with it: a packet is rebuilt whole or not at all, none is a mixture of two, none is
  repeated or out of order.
\<close>

theorem mpeg_loss_safe:
  assumes "mg_encap m = []" "mg_deencap r = []" "session_packets sp es"
    and "mg_send ule_hdl es m = Inr (fs, m')" "length arrives = length fs"
    and "\<And>p. accepts r p \<Longrightarrow> short_gaps 0 (pid_mask p arrives fs)"
  shows "\<exists>out r'. mg_deencapsulate junk ule_hdl (map Some (pick arrives fs)) r = Inr (out, r')
    \<and> (\<forall>p. accepts r p \<longrightarrow> subseq (filter (\<lambda>q. getPidFromPacket q = p) (nb_packets out))
          (map (\<lambda>x. ule_of_sndu p sp (np_data x)) (filter (\<lambda>x. getPidFromPacket x = p) (event_packets es))))
    \<and> (\<forall>q \<in> set (nb_packets out). accepts r (getPidFromPacket q))"
proof -
  have s: "ule_ts.session sp fs (event_packets es)"
    by (rule ule_ts.send_session [OF assms(1), of es sp]) (use assms(3,4) in \<open>auto simp: session_packets_def\<close>)
  obtain out r' where "mg_deencapsulate junk ule_hdl (map Some (pick arrives fs)) r = Inr (out, r')"
    "\<And>p. accepts r p \<Longrightarrow> subseq (of_pid p (nb_packets out)) (ule_ts.delivered p sp (map np_data (of_pid p (event_packets es))))"
    "\<And>q. q \<in> set (nb_packets out) \<Longrightarrow> accepts r (getPidFromPacket q)"
    by (rule ule_ts.session_delivers_lossy [OF s assms(2,5,6), of junk]) blast+
  then show ?thesis by (auto simp: ule_delivered comp_def)
qed

theorem mpeg_loss_safe_witness:
  "let x = (new_ule_packet [128, 6, 8, 0, 1, 2, 255, 255, 255, 255])\<lparr>np_dst_tal_id := 3, np_src_tal_id := 5, np_spot := 1\<rparr>;
       es = [Encap [x, x], Flush 808, Encap [x]]; m = \<lparr>mg_encap = [], mg_deencap = [], mg_threshold = 2, mg_dst_tal_id = 3\<rparr>
   in \<exists>fs m'. mg_send ule_hdl es m = Inr (fs, m') \<and>
     (\<exists>out r'. mg_deencapsulate 7 ule_hdl (map Some (pick (take (length fs) (False # replicate (length fs) True)) fs)) m = Inr (out, r')
      \<and> (\<forall>p. accepts m p \<longrightarrow> subseq (filter (\<lambda>q. getPidFromPacket q = p) (nb_packets out))
          (map (\<lambda>x. ule_of_sndu p 1 (np_data x)) (filter (\<lambda>x. getPidFromPacket x = p) (event_packets es))))
      \<and> (\<forall>q \<in> set (nb_packets out). accepts m (getPidFromPacket q)))"
proof -
  let ?x = "(new_ule_packet [128, 6, 8, 0, 1, 2, 255, 255, 255, 255])\<lparr>np_dst_tal_id := 3, np_src_tal_id := 5, np_spot := 1\<rparr>"
  let ?es = "[Encap [?x, ?x], Flush 808, Encap [?x]]" and ?m = "\<lparr>mg_encap = [], mg_deencap = [], mg_threshold = 2, mg_dst_tal_id = 3\<rparr>"
  have sp: "session_packets 1 ?es"
    by (simp add: session_packets_def ule_sndu_def ule_getLength_def byte_at_def new_ule_packet_def new_net_packet_def ULE_HEADER_LEN_def)
  obtain fs m' where s: "mg_send ule_hdl ?es ?m = Inr (fs, m')"
    by (rule ule_ts.send_session [of ?m ?es 1]) (use sp in \<open>simp_all add: session_packets_def\<close>)
  have "length (take (length fs) (False # replicate (length fs) True)) = length fs" by simp
  from mpeg_loss_safe [OF _ _ sp s this short_gaps_one] s show ?thesis
    unfolding Let_def by (intro exI [of _ fs] exI [of _ m'] conjI) (assumption, simp)
qed

end
