(* ===== verification/UleOverTs.thy ===== *)
theory UleOverTs
  imports MpegUle
begin

text \<open>
  The stack ULE over MPEG2-TS from end to end: packets of the layer above are put into ULE packets by one
  plugin, these into frames by the other, and both are undone at the receiver.
\<close>

section \<open>What ULE hands to the carrier\<close>

definition ule_carries :: "ule \<Rightarrow> net_packet \<Rightarrow> net_packet \<Rightarrow> bool" where
  "ule_carries u p x \<longleftrightarrow> (\<exists>t pl. np_data x = ule_bytes t None pl False \<and> length pl + 4 < 32767
     \<and> decode_exts u t pl = Some (np_type p, np_data p) \<and> np_qos x = np_qos p
     \<and> np_src_tal_id x = np_src_tal_id p \<and> np_dst_tal_id x = np_dst_tal_id p \<and> np_spot x = np_spot p)"

text \<open>
  Packets for the stack: a length field of 32767 would read as padding, and the identifiers have to fit
  the PID.
\<close>

definition ts_fits :: "ule \<Rightarrow> spot_id_t \<Rightarrow> net_packet \<Rightarrow> bool" where
  "ts_fits u sp p \<longleftrightarrow> 1536 \<le> unat (np_type p) \<and> length (np_data p) + 10 * length (ul_build u) + 4 < 32767
     \<and> np_spot p = sp \<and> unat (np_dst_tal_id p) < 32 \<and> unat (np_src_tal_id p) < 32 \<and> unat (np_qos p) < 8"

lemma ts_fits_ule: "ts_fits u sp p \<Longrightarrow> ule_fits u p"
  by (simp add: ts_fits_def ule_fits_def)

lemma ule_carries_pid: "ule_carries u p x \<Longrightarrow> getPidFromPacket x = getPidFromPacket p"
  by (auto simp: ule_carries_def getPidFromPacket_def)

lemma ule_bytes_sndu:
  assumes "length pl + 4 < 32767"
  shows "ule_sndu (ule_bytes t None pl False)"
proof -
  let ?d = "ule_bytes t None pl False" and ?l = "length pl + 4"
  have f: "length ?d = length pl + 8" "ule_getLength ?d = length ?d" "unat (?d ! 0) = 128 + ?l div 256"
    using ule_bytes_fields [of pl t] assms by simp_all
  have b1: "unat (?d ! 1) = ?l mod 256"
    by (simp add: ule_bytes_def Let_def ULE_CRC_LEN_def unat_u8_div_mod del: of_nat_add)
  have "\<not> (?d ! 0 = 0xff \<and> ?d ! 1 = 0xff)"
  proof
    assume "?d ! 0 = 0xff \<and> ?d ! 1 = 0xff"
    then have "unat (?d ! 0) = 255" "unat (?d ! 1) = 255" by simp_all
    then have "?l div 256 = 127" "?l mod 256 = 255" using f(3) b1 by simp_all
    then have "?l = 127 * 256 + 255" using div_mult_mod_eq [of ?l 256] by simp
    then show False using assms by simp
  qed
  then show ?thesis using f by (simp add: ule_sndu_def)
qed

lemma ule_carries_sndu: "ule_carries u p x \<Longrightarrow> ule_sndu (np_data x) \<and> np_spot x = np_spot p"
  by (auto simp: ule_carries_def ule_bytes_sndu)

lemma encapUle_carries:
  assumes "ule_config u" "ts_fits u sp p" "nb_limit b = 0"
  obtains x where "encapUle u p b = (True, nb_append [x] b)" "ule_carries u p x"
proof -
  obtain t pl where e: "encapUle u p b = (True, nb_append [(new_ule_packet (ule_bytes t None pl False))
      \<lparr>np_src_tal_id := np_src_tal_id p, np_dst_tal_id := np_dst_tal_id p, np_qos := np_qos p,
       np_spot := np_spot p\<rparr>] b)"
    "length pl = length (np_data p) + 10 * length (ul_build u)" "decode_exts u t pl = Some (np_type p, np_data p)"
    by (rule encapUle_packet [OF assms(1) ts_fits_ule [OF assms(2)] assms(3)])
  have "length pl + 4 < 32767" using assms(2) e(2) by (simp add: ts_fits_def)
  then show ?thesis
    by (intro that [OF e(1)])
      (use e(3) in \<open>auto simp: ule_carries_def new_ule_packet_def new_net_packet_def intro!: exI [of _ t] exI [of _ pl]\<close>)
qed

lemma ule_encapsulate_carries:
  assumes "ule_config u" "\<forall>p \<in> set ps. ts_fits u sp p"
  shows "list_all2 (ule_carries u) ps (nb_packets (ule_encapsulate u ps))"
proof -
  have "\<exists>xs. fold (\<lambda>p b. snd (encapUle u p b)) ps b = nb_append xs b \<and> list_all2 (ule_carries u) ps xs"
    if "nb_limit b = 0" for b
    using assms(2) that
  proof (induction ps arbitrary: b)
    case Nil
    show ?case by (rule exI [of _ "[]"]) simp
  next
    case (Cons p ps)
    obtain x where x: "encapUle u p b = (True, nb_append [x] b)" "ule_carries u p x"
      by (rule encapUle_carries [OF assms(1), of sp p b]) (use Cons.prems in auto)
    obtain xs where "fold (\<lambda>p b. snd (encapUle u p b)) ps (nb_append [x] b) = nb_append xs (nb_append [x] b)"
      "list_all2 (ule_carries u) ps xs"
      using Cons.IH [of "nb_append [x] b"] Cons.prems by auto
    then show ?case using x by (intro exI [of _ "x # xs"]) simp
  qed
  from this [of "new_net_burst 0"] show ?thesis
    by (auto simp: ule_encapsulate_def new_net_burst_def)
qed

section \<open>What the receiver makes of it\<close>

definition unpacked :: "encap_hdl \<Rightarrow> ule \<Rightarrow> net_packet \<Rightarrow> net_packet list" where
  "unpacked up u q = (case ule_deencap_step up u (Some q) (new_net_burst 0) of Inr b \<Rightarrow> nb_packets b | Inl e \<Rightarrow> [])"

lemma unpacked_carried:
  assumes "ule_config u" "ule_carries u p x" "ts_fits u sp p" "pid = getPidFromPacket p" "nb_limit b = 0"
  shows "ule_deencap_step up u (Some (ule_of_sndu pid sp (np_data x))) b = Inr (nb_append (ule_sdu up p) b)"
    and "unpacked up u (ule_of_sndu pid sp (np_data x)) = ule_sdu up p"
proof -
  let ?q = "ule_of_sndu pid sp (np_data x)"
  obtain t pl where x: "np_data x = ule_bytes t None pl False" "length pl + 4 < 32767"
    "decode_exts u t pl = Some (np_type p, np_data p)"
    using assms(2) by (auto simp: ule_carries_def)
  have f: "np_data ?q = ule_bytes t None pl False" "np_type ?q = NET_PROTO_ULE"
    "np_qos ?q = np_qos p" "np_src_tal_id ?q = np_src_tal_id p" "np_dst_tal_id ?q = np_dst_tal_id p" "np_spot ?q = np_spot p"
    using assms(3,4) x(1) pid_fields [of p]
    by (simp_all add: ule_of_sndu_def full_net_packet_def new_net_packet_def ts_fits_def)
  have len: "length pl + 4 < 32768" using x(2) by simp
  have step: "ule_deencap_step up u (Some ?q) c = Inr (nb_append (ule_sdu up p) c)" if "nb_limit c = 0" for c
    by (rule deencapUle_packet [OF assms(1) len x(3) that f(1,2) refl]) (simp_all add: f)
  show "ule_deencap_step up u (Some ?q) b = Inr (nb_append (ule_sdu up p) b)" by (rule step [OF assms(5)])
  show "unpacked up u ?q = ule_sdu up p"
    using step [of "new_net_burst 0"] by (simp add: unpacked_def new_net_burst_def)
qed

lemma deencapsulate_unpacked:
  assumes "\<forall>q \<in> set qs. \<exists>ps. \<forall>b. nb_limit b = 0 \<longrightarrow> ule_deencap_step up u (Some q) b = Inr (nb_append ps b)"
  shows "ule_deencapsulate up u (map Some qs) = Inr \<lparr>nb_limit = 0, nb_packets = concat (map (unpacked up u) qs)\<rparr>"
proof -
  have "res_fold (ule_deencap_step up u) (map Some qs) b = Inr (nb_append (concat (map (unpacked up u) qs)) b)"
    if "nb_limit b = 0" for b
    using assms that
  proof (induction qs arbitrary: b)
    case (Cons q qs)
    obtain ps where ps: "\<And>b. nb_limit b = 0 \<Longrightarrow> ule_deencap_step up u (Some q) b = Inr (nb_append ps b)"
      using Cons.prems(1) by auto
    have "unpacked up u q = ps" using ps [of "new_net_burst 0"] by (simp add: unpacked_def new_net_burst_def)
    moreover have "res_fold (ule_deencap_step up u) (map Some qs) (nb_append ps b)
        = Inr (nb_append (concat (map (unpacked up u) qs)) (nb_append ps b))"
      using Cons.IH [of "nb_append ps b"] Cons.prems by simp
    ultimately show ?case using ps [OF Cons.prems(2)] by simp
  qed simp
  from this [of "new_net_burst 0"] show ?thesis
    by (simp add: ule_deencapsulate_def new_net_burst_def nb_append_def)
qed

lemma of_pid_concat:
  assumes "\<And>q r. q \<in> set qs \<Longrightarrow> r \<in> set (g q) \<Longrightarrow> getPidFromPacket r = getPidFromPacket q"
  shows "of_pid p (concat (map g qs)) = concat (map g (of_pid p qs))"
  using assms
proof (induction qs)
  case (Cons q qs)
  have "\<forall>r \<in> set (g q). getPidFromPacket r = getPidFromPacket q" using Cons.prems by simp
  then have "of_pid p (g q) = (if getPidFromPacket q = p then g q else [])"
    by (simp add: filter_id_conv filter_empty_conv)
  then show ?case using Cons by auto
qed simp

lemma list_all2_filter:
  "list_all2 R xs ys \<Longrightarrow> (\<And>x y. R x y \<Longrightarrow> P x = Q y) \<Longrightarrow> list_all2 R (filter P xs) (filter Q ys)"
  by (induction xs ys rule: list_all2_induct) auto

section \<open>End to end\<close>

lemma ule_sdu_pid: "keeps_ids up \<Longrightarrow> r \<in> set (ule_sdu up p) \<Longrightarrow> getPidFromPacket r = getPidFromPacket p"
  by (auto simp: ule_sdu_def keeps_ids_def getPidFromPacket_def split: option.splits)

definition ule_events :: "ule \<Rightarrow> net_packet list list \<Rightarrow> mg_event list" where
  "ule_events u pss = map (\<lambda>ps. Encap (nb_packets (ule_encapsulate u ps))) pss"

lemma ule_events_carry:
  assumes "ule_config u" "\<forall>p \<in> set (concat pss). ts_fits u sp p"
  shows "list_all2 (ule_carries u) (concat pss) (event_packets (ule_events u pss))"
  using assms(2)
proof (induction pss)
  case (Cons ps pss)
  then show ?case
    using ule_encapsulate_carries [OF assms(1), of ps sp] by (auto simp: ule_events_def intro: list_all2_appendI)
qed (simp add: ule_events_def)

lemma list_all2_memberD: "list_all2 R xs ys \<Longrightarrow> y \<in> set ys \<Longrightarrow> \<exists>x \<in> set xs. R x y"
  by (induction xs ys rule: list_all2_induct) auto

text \<open>One PID: the frames' packets are those of \<open>ps\<close>, so unpacking them gives the data of \<open>ps\<close>.\<close>

lemma unpack_pid:
  assumes "ule_config u" "list_all2 (ule_carries u) ps xs" "\<forall>p \<in> set ps. ts_fits u sp p \<and> getPidFromPacket p = pid"
  shows "concat (map (unpacked up u) (map (\<lambda>x. ule_of_sndu pid sp (np_data x)) xs)) = concat (map (ule_sdu up) ps)"
  using assms(2,3)
proof (induction ps xs rule: list_all2_induct)
  case (Cons p ps x xs)
  then show ?case using unpacked_carried(2) [OF assms(1), of p x sp pid "new_net_burst 0"] by (simp add: new_net_burst_def)
qed simp

text \<open>C3: The stack ULE over MPEG2-TS from end to end: whatever bursts of packets of the layer above are given to
  ULE, with any terminals and QoS mixed, and its bursts to MPEG with any packing threshold, a fresh receiver
  which gets all the frames in order deencapsulates them twice without a fault, and for every PID it
  accepts the packets of that PID come out as the layer above builds them from the original data, in
  order. Hypotheses: the packets have an EtherType, fit the 15 bits of the length (32767 excluded, which reads as
  padding), the terminals fit 5 bits and the QoS 3, and the layer above keeps the identifiers.
\<close>

theorem ule_over_ts_end_to_end:
  assumes "ule_config u" "keeps_ids up" "\<forall>p \<in> set (concat pss). ts_fits u sp p"
    and "mg_encap m = []" "mg_deencap r = []"
  shows "\<exists>fs m' b r' out. mg_send ule_hdl (ule_events u pss) m = Inr (fs, m')
    \<and> mg_deencapsulate junk ule_hdl (map Some fs) r = Inr (b, r')
    \<and> ule_deencapsulate up u (map Some (nb_packets b)) = Inr out
    \<and> (\<forall>pid. accepts r pid \<longrightarrow> filter (\<lambda>q. getPidFromPacket q = pid) (nb_packets out)
          = concat (map (ule_sdu up) (filter (\<lambda>p. getPidFromPacket p = pid) (concat pss))))"
proof -
  let ?es = "ule_events u pss" and ?P = "event_packets (ule_events u pss)"
  have car: "list_all2 (ule_carries u) (concat pss) ?P" by (rule ule_events_carry [OF assms(1,3)])
  have ok: "\<forall>x \<in> set ?P. np_spot x = sp \<and> ule_sndu (np_data x)"
  proof
    fix x
    assume "x \<in> set ?P"
    then obtain p where p: "p \<in> set (concat pss)" "ule_carries u p x" using list_all2_memberD [OF car] by blast
    then have "np_spot p = sp" using bspec [OF assms(3) p(1)] by (simp add: ts_fits_def)
    then show "np_spot x = sp \<and> ule_sndu (np_data x)" using ule_carries_sndu [OF p(2)] by simp
  qed
  obtain fs m' where s: "mg_send ule_hdl ?es m = Inr (fs, m')" "ule_ts.session sp fs ?P"
    by (rule ule_ts.send_session [OF assms(4) ok])
  obtain b r' where b: "mg_deencapsulate junk ule_hdl (map Some fs) r = Inr (b, r')"
    "\<And>p. accepts r p \<Longrightarrow> of_pid p (nb_packets b) = ule_ts.delivered p sp (map np_data (of_pid p ?P))"
    "\<And>q. q \<in> set (nb_packets b) \<Longrightarrow> accepts r (getPidFromPacket q)"
    by (rule ule_ts.session_delivers [OF s(2) assms(5), of junk]) blast
  have from_sent: "\<exists>p x. q = ule_of_sndu (getPidFromPacket p) sp (np_data x) \<and> ule_carries u p x
      \<and> ts_fits u sp p \<and> getPidFromPacket q = getPidFromPacket p" if q: "q \<in> set (nb_packets b)" for q
  proof -
    let ?p = "getPidFromPacket q"
    have "q \<in> set (of_pid ?p (nb_packets b))" using q by simp
    then obtain x where x: "x \<in> set ?P" "getPidFromPacket x = ?p" "q = ule_of_sndu ?p sp (np_data x)"
      unfolding b(2) [OF b(3) [OF q]] ule_delivered by auto
    then obtain p where "p \<in> set (concat pss)" "ule_carries u p x" using list_all2_memberD [OF car] by blast
    then show ?thesis using x assms(3) ule_carries_pid by metis
  qed
  have step: "\<exists>ps. \<forall>c. nb_limit c = 0 \<longrightarrow> ule_deencap_step up u (Some q) c = Inr (nb_append ps c)"
    if "q \<in> set (nb_packets b)" for q
    using from_sent [OF that] unpacked_carried(1) [OF assms(1)] by blast
  let ?out = "concat (map (unpacked up u) (nb_packets b))"
  have "of_pid pid ?out = concat (map (ule_sdu up) (of_pid pid (concat pss)))" if acc: "accepts r pid" for pid
  proof -
    have "getPidFromPacket z = getPidFromPacket q" if q: "q \<in> set (nb_packets b)" "z \<in> set (unpacked up u q)" for q z
    proof -
      obtain p x where p: "q = ule_of_sndu (getPidFromPacket p) sp (np_data x)" "ule_carries u p x" "ts_fits u sp p"
        "getPidFromPacket q = getPidFromPacket p" using from_sent [OF q(1)] by blast
      have "unpacked up u q = ule_sdu up p"
        unfolding p(1) by (rule unpacked_carried(2) [OF assms(1) p(2,3) refl, of "new_net_burst 0"]) (simp add: new_net_burst_def)
      then show ?thesis using ule_sdu_pid [OF assms(2)] q(2) p(4) by simp
    qed
    then have "of_pid pid ?out = concat (map (unpacked up u) (of_pid pid (nb_packets b)))" by (rule of_pid_concat)
    also have "\<dots> = concat (map (unpacked up u) (map (\<lambda>x. ule_of_sndu pid sp (np_data x)) (of_pid pid ?P)))"
      unfolding b(2) [OF acc] ule_delivered by (simp add: comp_def)
    also have "\<dots> = concat (map (ule_sdu up) (of_pid pid (concat pss)))"
      by (rule unpack_pid [OF assms(1) list_all2_filter [OF car]])
        (use assms(3) ule_carries_pid in \<open>auto\<close>)
    finally show ?thesis .
  qed
  then show ?thesis using s(1) b(1) deencapsulate_unpacked [of "nb_packets b" up u] step by auto
qed

theorem ule_over_ts_end_to_end_witness:
  "let u = snd (ule_addExt (Some ExtPadding) True \<lparr>ul_mandatory = [], ul_optional = [], ul_build = [], ul_crc = False\<rparr>);
       ip = \<lparr>eh_min = 20, eh_length = length, eh_build = (\<lambda>d n q s t. Some (full_net_packet d n ''IP'' 0x0800 q s t 20))\<rparr>;
       p = (new_net_packet [0x45, 0, 7])\<lparr>np_type := 0x0800, np_qos := 2, np_src_tal_id := 3, np_dst_tal_id := 4, np_spot := 1\<rparr>;
       r = p\<lparr>np_dst_tal_id := 31\<rparr>; pss = [[p, r], [p]];
       m = \<lparr>mg_encap = [], mg_deencap = [], mg_threshold = 0, mg_dst_tal_id = 4\<rparr>
   in \<exists>fs m' b r' out. mg_send ule_hdl (ule_events u pss) m = Inr (fs, m')
    \<and> mg_deencapsulate 9 ule_hdl (map Some fs) m = Inr (b, r')
    \<and> ule_deencapsulate ip u (map Some (nb_packets b)) = Inr out
    \<and> (\<forall>pid. accepts m pid \<longrightarrow> filter (\<lambda>q. getPidFromPacket q = pid) (nb_packets out)
          = concat (map (ule_sdu ip) (filter (\<lambda>p. getPidFromPacket p = pid) (concat pss))))"
  unfolding Let_def
  by (rule ule_over_ts_end_to_end)
    (simp_all add: ule_config_def keeps_ids_def ts_fits_def ule_addExt_def ext_mandatory_def ext_type_def
      new_net_packet_def full_net_packet_def)

end
