(* ===== verification/MpegFaults.thy ===== *)
theory MpegFaults
  imports MpegUle
begin

text \<open>
  Where the MPEG2-TS plugin does not do what it means to: the check of the payload pointer, the timers of the
  contexts, the frames that hold nothing.
\<close>

section \<open>The payload pointer\<close>

lemma bad_pointer_offset:
  fixes pp :: u8
  assumes "184 \<le> unat pp"
  shows "unat (1 + ucast pp :: u32) = 1 + unat pp"
    "185 \<le> unat (of_nat TS_DATASIZE - (1 + ucast pp) :: u32)" "184 \<le> unat (of_nat TS_DATASIZE - 1 - ucast pp :: u32)"
proof -
  obtain n where n: "n = unat pp" "ucast pp = (of_nat n :: u32)" "n < 256"
    using unat_u8_less [of pp] by (simp add: of_nat_unat)
  show "unat (1 + ucast pp :: u32) = 1 + unat pp"
    unfolding n(1) [symmetric] n(2) using u32_of_nat_id [of "1 + n"] n(3) by simp
  have eq: "of_nat TS_DATASIZE - (1 + ucast pp) = (of_nat (4294967296 + 183 - n) :: u32)"
    using n(3) by (simp add: TS_DATASIZE_def n(2) of_nat_diff)
  have u: "unat (of_nat (4294967296 + 183 - n) :: u32) = 4294967296 + 183 - n"
    by (rule u32_of_nat_id) (use assms n(1) in simp)
  then show "185 \<le> unat (of_nat TS_DATASIZE - (1 + ucast pp) :: u32)" unfolding eq using n(3) by simp
  have "of_nat TS_DATASIZE - 1 - ucast pp = (of_nat TS_DATASIZE - (1 + ucast pp) :: u32)" by (simp add: algebra_simps)
  then show "184 \<le> unat (of_nat TS_DATASIZE - 1 - ucast pp :: u32)" unfolding eq u using n(3) by (simp only: u)
qed

text \<open>C32: A frame whose payload pointer leads past its end: the check that is meant to drop it asks for
  \<open>pointer + 1 > TS_DATASIZE\<close> and, in unsigned arithmetic, for \<open>TS_DATASIZE - 1 - pointer\<close> below the minimum of the
  upper plugin, which cannot both hold; so \<open>at\<close> throws \<open>std::out_of_range\<close> out of \<open>deencapMpeg\<close>, for
  every upper plugin with a minimum of at most 184 bytes and every PID without context.
\<close>

theorem bad_pointer_throws:
  assumes "np_type q = NET_PROTO_MPEG" "length (np_data q) = 188" "mp_pusi (np_data q) = Inr True"
    and "mp_pp (np_data q) = Inr pp" "184 \<le> unat pp" "mp_getPid (np_data q) = Inr pid"
    and "om_find (mg_deencap m) (uint pid) = None" "eh_min up \<le> 184"
  shows "deencapMpeg junk up q (b, m) = Inl OutOfRange"
proof -
  let ?e = "\<lparr>de_up = up, de_frame = np_data q, de_payload = drop 4 (np_data q), de_packet = q\<rparr>"
  note off = bad_pointer_offset [OF assms(5)]
  have head: "dec_head ?e (1 + ucast pp) again c tmp = Inl OutOfRange" if "dc_data c = []" for again c tmp
    using that off(1) assms(2,5) by (simp add: dec_head_def dc_length_def at_res_def)
  have body: "dec_body ?e True (1 + ucast pp) c [] = Inl OutOfRange" if "dc_data c = []" for c
  proof -
    have n: "\<not> unat (of_nat TS_DATASIZE - 1 - ucast pp :: u32) < eh_min up"
      "\<not> unat (of_nat TS_DATASIZE - (1 + ucast pp) :: u32) < eh_min up" using off assms(8) by simp_all
    have "dec_loop (Suc k) ?e True (1 + ucast pp) False c [] = Inl OutOfRange" for k
      by (simp only: dec_loop.simps Let_def dec_env.simps assms(4) n if_False head [OF that] res_bind_simps)
    then show ?thesis using n(1) by (simp add: dec_body_def assms(4))
  qed
  obtain cc where cc: "mp_cc (np_data q) = Inr cc" using assms(2) by (simp add: mp_cc_def at_res_def)
  have restart: "dec_restart 3 ?e (new_dctx junk pid (np_spot q)) [] = Inl OutOfRange"
    using body [of "dc_set_need_pusi False (dc_setCc cc (new_dctx junk pid (np_spot q)))"]
    by (simp add: numeral_3_eq_3 dec_restart.simps assms(3,4) cc new_dctx_def dc_set_need_pusi_def dc_setCc_def)
  have "np_data p = np_data q \<and> nc_getPayload p = Inr (drop 4 (np_data q))" if "new_mpeg_packet (np_data q) = Inr p" for p
    using that assms(2) by (auto simp: new_mpeg_packet_def assms(6) nc_getPayload_def substr_def nc_getPayloadLength_def
        nc_getTotalLength_def new_net_packet_def TS_HEADERSIZE_def)
  moreover obtain p where "new_mpeg_packet (np_data q) = Inr p" by (simp add: new_mpeg_packet_def assms(6))
  ultimately show ?thesis
    using assms(1,6,7) restart by (simp add: deencapMpeg_def)
qed

theorem bad_pointer_throws_witness:
  "deencapMpeg 0 ule_hdl ((new_net_packet ([0x47, 0x44, 0x12, 0x10, 200] @ replicate 183 0))\<lparr>np_type := NET_PROTO_MPEG\<rparr>)
     (new_net_burst 0, \<lparr>mg_encap = [], mg_deencap = [], mg_threshold = 0, mg_dst_tal_id = 4\<rparr>) = Inl OutOfRange"
  by (rule bad_pointer_throws [where pp = 200 and pid = 1042])
    (simp_all add: new_net_packet_def mp_pusi_def mp_pp_def mp_getPid_def at_res_def ule_hdl_def)

section \<open>Timers\<close>

lemma encapMpeg_time:
  "encapMpeg up x b m = Inr (cid, time, b', m') \<Longrightarrow> (time = 0 \<or> time = mg_threshold m) \<and> mg_threshold m' = mg_threshold m"
  by (auto simp: encapMpeg_def encap_in_ctx_def res_bind_Inr find_encap_context_def mg_put_encap_def Let_def
      split: if_splits option.splits prod.splits)

text \<open>The contexts to arm a timer for are collected in a map from delays to contexts, and the delay is always 0 or the
  packing threshold: of all the contexts a burst leaves with an open frame, at most one, the first, gets a
  timer; the others keep their data until a later burst fills the frame.
\<close>

theorem one_timer_per_burst:
  assumes "mg_encapsulate up burst ([], m) = Inr (b, tms, m')"
  shows "om_find tms t = None \<or> t = 0 \<or> t = mg_threshold m"
proof -
  have "(\<forall>t. om_find tms' t \<noteq> None \<longrightarrow> t = 0 \<or> t = mg_threshold m)"
    if "res_fold (mg_encap_step up) burst (b0, tms0, m0) = Inr (b1, tms', m1)" "mg_threshold m0 = mg_threshold m"
      "\<forall>t. om_find tms0 t \<noteq> None \<longrightarrow> t = 0 \<or> t = mg_threshold m" for b0 tms0 m0 b1 tms' m1
    using that
  proof (induction burst arbitrary: b0 tms0 m0)
    case (Cons x burst)
    obtain cid time b2 m2 where e: "encapMpeg up x b0 m0 = Inr (cid, time, b2, m2)"
      "res_fold (mg_encap_step up) burst (b2, om_insert time cid tms0, m2) = Inr (b1, tms', m1)"
    proof -
      obtain s1 where s1: "mg_encap_step up x (b0, tms0, m0) = Inr s1" "res_fold (mg_encap_step up) burst s1 = Inr (b1, tms', m1)"
        using Cons.prems(1) by (auto simp: res_bind_Inr)
      obtain cid time b2 m2 where e1: "encapMpeg up x b0 m0 = Inr (cid, time, b2, m2)" "s1 = (b2, om_insert time cid tms0, m2)"
        using s1(1) by (auto simp: mg_encap_step_def res_bind_Inr)
      show ?thesis by (rule that [OF e1(1) s1(2) [unfolded e1(2)]])
    qed
    show ?case
      by (rule Cons.IH [OF e(2)])
        (use encapMpeg_time [OF e(1)] Cons.prems(2,3) in \<open>auto simp: om_insert_def split: if_splits\<close>)
  qed simp
  from this [of "new_net_burst 0" "[]" m b tms m'] assms show ?thesis
    by (auto simp: mg_encapsulate_def)
qed

theorem one_timer_per_burst_witness:
  "let x = (new_ule_packet [128, 6, 8, 0, 1, 2, 255, 255, 255, 255])\<lparr>np_dst_tal_id := 3, np_src_tal_id := 5, np_spot := 1\<rparr>;
       y = x\<lparr>np_src_tal_id := 6\<rparr>; m = \<lparr>mg_encap = [], mg_deencap = [], mg_threshold = 2, mg_dst_tal_id = 3\<rparr>
   in \<exists>b tms m'. mg_encapsulate ule_hdl [x, y] ([], m) = Inr (b, tms, m') \<and> om_find tms 5 = None"
proof -
  let ?x = "(new_ule_packet [128, 6, 8, 0, 1, 2, 255, 255, 255, 255])\<lparr>np_dst_tal_id := 3, np_src_tal_id := 5, np_spot := 1\<rparr>"
  let ?y = "?x\<lparr>np_src_tal_id := 6\<rparr>" and ?m = "\<lparr>mg_encap = [], mg_deencap = [], mg_threshold = 2, mg_dst_tal_id = 3\<rparr>"
  have "ule_ts.sender_ok 1 ?m [] []" by (rule ule_ts.sender_ok_empty) simp
  moreover have "\<forall>x \<in> set [?x, ?y]. np_spot x = 1 \<and> ule_sndu (np_data x)"
    by (simp add: ule_sndu_def ule_getLength_def byte_at_def new_ule_packet_def new_net_packet_def ULE_HEADER_LEN_def)
  ultimately obtain b tms m' where e: "mg_encapsulate ule_hdl [?x, ?y] ([], ?m) = Inr (b, tms, m')"
    by (rule ule_ts.encapsulate_ok)
  then have "om_find tms 5 = None" using one_timer_per_burst [OF e, of 5] by simp
  then show ?thesis using e unfolding Let_def by blast
qed

section \<open>Frames that hold nothing\<close>

text \<open>Flushing a context with nothing to send emits a frame all the same: \<open>length() > 0\<close> is meant to tell whether the
  frame holds data, but an initialised frame always has its header; the frame sent is the header and
  184 bytes of padding, and it takes a continuity counter.
\<close>

theorem flush_sends_padding:
  assumes "om_find (mg_encap m) (uint pid) = Some (new_ectx pid sp)"
  shows "\<exists>q. mg_flush (uint pid) m = Inr (Some \<lparr>nb_limit = 0, nb_packets = [q]\<rparr>,
      m\<lparr>mg_encap := om_put (uint pid) (ec_reset (new_ectx pid sp)) (mg_encap m)\<rparr>)
    \<and> np_data q = ec_header pid 0 @ replicate 184 0xff"
proof -
  let ?c = "new_ectx pid sp"
  have f: "ec_frame ?c = ec_header pid 0" "ec_spot ?c = sp" "length (ec_header pid 0) = 4"
    by (simp_all add: new_ectx_def ec_initFrame_def ec_header_def)
  have l: "ec_left ?c = 184" by (simp add: ec_left_def ec_length_def f TS_PACKETSIZE_def)
  have p: "ec_padding ?c = ?c\<lparr>ec_frame := ec_header pid 0 @ replicate 184 0xff\<rparr>"
    by (simp add: ec_padding_def l f)
  have "mp_getPid (ec_header pid 0 @ replicate 184 0xff) = Inr (of_nat (unat pid div 256 mod 32 mod 32 * 256 + unat pid mod 256))"
    using unat_u8_div_mod u8_of_nat_id [of "unat pid div 256 mod 32"]
    by (simp add: mp_getPid_def ec_header_def at_res_def del: of_nat_add of_nat_mult mod_mod_trivial)
  then obtain q where "new_mpeg_packet (ec_header pid 0 @ replicate 184 0xff) = Inr q" "np_data q = ec_header pid 0 @ replicate 184 0xff"
    by (auto simp: new_mpeg_packet_def new_net_packet_def)
  then show ?thesis
    using assms by (simp add: mg_flush_def f ec_emit_def p new_net_burst_def ec_reset_def ec_initFrame_def nb_add_def nb_isFull_def)
qed

theorem flush_sends_padding_witness:
  "let m = \<lparr>mg_encap = [(42, new_ectx 42 1)], mg_deencap = [], mg_threshold = 0, mg_dst_tal_id = 4\<rparr>
   in \<exists>q. mg_flush 42 m = Inr (Some \<lparr>nb_limit = 0, nb_packets = [q]\<rparr>,
      m\<lparr>mg_encap := om_put 42 (ec_reset (new_ectx 42 1)) (mg_encap m)\<rparr>)
    \<and> np_data q = ec_header 42 0 @ replicate 184 0xff"
  using flush_sends_padding [of "\<lparr>mg_encap = [(42, new_ectx 42 1)], mg_deencap = [], mg_threshold = 0, mg_dst_tal_id = 4\<rparr>" 42 1]
  by (simp add: Let_def)

end
