(* ===== verification/MpegReturns.thy ===== *)
theory MpegReturns
  imports Mpeg
begin

text \<open>
  \<open>deencapMpeg\<close> always ends: every turn of the loop over a frame moves the offset, which stays within
  the payload, and a frame is analysed again at most once. The fuel of \<open>dec_loop\<close> and \<open>dec_restart\<close> is
  never spent.
\<close>

lemma at_res_ret [simp]: "at_res d i \<noteq> Inl NoReturn"
  by (simp add: at_res_def)

lemma pad_bytes_ret: "pad_bytes p i n \<noteq> Inl NoReturn"
  by (induction n arbitrary: i) (auto simp: res_bind_Inl)

lemma dec_padding_ret: "dec_padding p off c tmp \<noteq> Inl NoReturn"
  by (auto simp: dec_padding_def pad_bytes_ret res_bind_Inl)

lemma dec_padding_verdict: "dec_padding p off c tmp \<noteq> Inr (Restart, c', tmp')"
  by (auto simp: dec_padding_def dec_resync_def res_bind_Inr split: if_splits)

lemma dec_head_ret: "dec_head e off again c tmp \<noteq> Inl NoReturn"
  by (auto simp: dec_head_def Let_def res_bind_Inl)

lemma dec_head_take:
  assumes "dec_head e off again c tmp = Inr (Take c1)"
  shows "dc_length c1 < dc_sndu_len c1" "0 < dc_length c \<or> unat off < length (de_payload e)"
proof -
  have "dc_length c1 < dc_sndu_len c1 \<and> (0 < dc_length c \<or> unat off < length (de_payload e))"
  proof (cases "0 < dc_length c")
    case True
    then show ?thesis using assms by (auto simp: dec_head_def split: if_splits)
  next
    case False
    then obtain b0 where b0: "at_res (de_payload e) (unat off) = Inr b0"
      using assms by (auto simp: dec_head_def res_bind_Inr)
    then have "unat off < length (de_payload e)" by (auto simp: at_res_def split: if_splits)
    moreover have "dc_length c = 0" using False by (simp add: word_gt_0)
    moreover have "c1 = dc_set_sndu_len (dc_sndu_len c1) c \<and> dc_sndu_len c1 \<noteq> 0"
      using assms False b0
      by (auto simp: dec_head_def res_bind_Inr Let_def dc_set_sndu_len_def split: if_splits)
    ultimately show ?thesis by (metis dc_length_def dc_set_sndu_len_def dctx.simps(1) dctx.select_convs(1) dctx.update_convs(5) dctx.surjective word_gt_0)
  qed
  then show "dc_length c1 < dc_sndu_len c1" "0 < dc_length c \<or> unat off < length (de_payload e)" by simp_all
qed

lemma dec_resync_restart: "dec_resync again c tmp = (Restart, c', tmp') \<Longrightarrow> again \<and> dc_need_pusi c'"
  by (auto simp: dec_resync_def dc_set_need_pusi_def split: if_splits)

lemma dec_head_stop: "dec_head e off again c tmp = Inr (Stop (Restart, c', tmp')) \<Longrightarrow> again \<and> dc_need_pusi c'"
  by (auto simp: dec_head_def res_bind_Inr Let_def split: if_splits dest: dec_resync_restart)

text \<open>The offset moves on by at least one byte and does not pass the end of the payload.\<close>

lemma offset_moves:
  assumes "unat (off :: u32) < 184" "dc_length c1 < dc_sndu_len c1"
  defines "off1 \<equiv> off + min (of_nat TS_DATASIZE - off) (dc_sndu_len c1 - dc_length c1)"
  shows "unat off < unat off1"
proof -
  let ?avail = "of_nat TS_DATASIZE - off" and ?need = "dc_sndu_len c1 - dc_length c1"
  have lt: "off < of_nat TS_DATASIZE" using assms(1) by (simp add: word_less_nat_alt TS_DATASIZE_def)
  have a: "unat ?avail = 184 - unat off"
    using lt by (simp add: unat_sub TS_DATASIZE_def word_le_nat_alt word_less_nat_alt)
  have need: "0 < ?need" using assms(2) by (simp add: word_gt_0)
  have m: "unat (min ?avail ?need) \<le> 184 - unat off" "0 < unat (min ?avail ?need)"
    using a need assms(1) by (simp_all add: min_def word_le_nat_alt word_less_nat_alt split: if_splits)
  have "unat off + unat (min ?avail ?need) < 2 ^ LENGTH(32)" using m(1) assms(1) by simp
  then have "unat off1 = unat off + unat (min ?avail ?need)" unfolding off1_def by (rule unat_add_lem [THEN iffD1])
  then show ?thesis using m(2) by simp
qed

text \<open>One turn that neither ends the analysis nor faults.\<close>

lemma dec_loop_turn:
  assumes "dec_loop (Suc n) e pusi off pu c tmp = r" "mp_pp (de_frame e) = Inr pp"
  obtains (padding) "r = dec_padding (de_payload e) off c tmp"
    | (stop) v c' tmp' where "r = Inr (v, c', tmp')" "v = Restart \<Longrightarrow> \<not> (pu \<or> off = ucast pp + 1) \<and> dc_need_pusi c'"
    | (fault) f where "r = Inl f" "f \<noteq> NoReturn"
    | (turn) off1 c1 tmp1 where "r = dec_loop n e pusi off1 (pu \<or> off = ucast pp + 1) c1 tmp1"
        "unat off \<le> length (de_payload e)"
        "0 < eh_min (de_up e) \<Longrightarrow> length (de_payload e) \<le> 184 \<Longrightarrow> unat off < unat off1"
proof -
  let ?pu = "pu \<or> off = ucast pp + 1" and ?avail = "of_nat TS_DATASIZE - off :: u32"
  show thesis
  proof (cases "unat ?avail < eh_min (de_up e)")
    case True
    then show ?thesis using assms by (intro padding) (simp add: dec_loop.simps)
  next
    case False
    note step = assms(1) [unfolded dec_loop.simps Let_def assms(2) res_bind_simps if_not_P [OF False]]
    show ?thesis
    proof (cases "dec_head e off (pusi \<and> \<not> ?pu) c tmp")
      case (Inl f)
      then show ?thesis using step dec_head_ret by (intro fault) auto
    next
      case (Inr t)
      show ?thesis
      proof (cases t)
        case (Stop s)
        obtain v c' tmp' where s: "s = (v, c', tmp')" by (cases s)
        have "v = Restart \<Longrightarrow> \<not> ?pu \<and> dc_need_pusi c'" using dec_head_stop [of e off _ c tmp c' tmp'] Inr Stop s by auto
        then show ?thesis using step Inr Stop s by (intro stop [of v c' tmp']) simp_all
      next
        case Padding
        then show ?thesis using step Inr by (intro padding) simp
      next
        case (Take c1)
        let ?m = "min ?avail (dc_sndu_len c1 - dc_length c1)"
        show ?thesis
        proof (cases "dc_add (de_payload e) (unat off) (unat ?m) c1")
          case (Inl f)
          have "f \<noteq> NoReturn" using Inl by (auto simp: dc_add_def substr_def res_bind_Inl split: if_splits)
          then show ?thesis using step \<open>dec_head _ _ _ _ _ = Inr t\<close> Take Inl by (intro fault) auto
        next
          case (Inr c2)
          have le: "unat off \<le> length (de_payload e)" using Inr by (auto simp: dc_add_def substr_def res_bind_Inr split: if_splits)
          have mv: "unat off < unat (off + ?m)" if "0 < eh_min (de_up e)" "length (de_payload e) \<le> 184"
          proof (rule offset_moves)
            show "dc_length c1 < dc_sndu_len c1" using dec_head_take(1) \<open>dec_head _ _ _ _ _ = Inr t\<close> Take by blast
            have "unat off \<noteq> 184"
            proof
              assume "unat off = 184"
              then have "off = of_nat TS_DATASIZE" by (intro unsigned_word_eqI) (simp add: TS_DATASIZE_def)
              then show False using False that(1) by simp
            qed
            then show "unat off < 184" using le that(2) by simp
          qed
          consider (again) "r = Inr (dec_resync (pusi \<and> \<not> ?pu) c2 tmp)" | (never) "r = Inr (dec_resync False c2 [])"
            | (next_sndu) "r = dec_loop n e pusi (off + ?m) ?pu (dc_reset c2) (dec_built e c2 tmp)"
            | (next_frame) "r = dec_loop n e pusi (off + ?m) ?pu c2 tmp"
            using step \<open>dec_head _ _ _ _ _ = Inr t\<close> Take Inr by (auto split: if_splits)
          then show ?thesis
          proof cases
            case again
            obtain v c' tmp' where d: "dec_resync (pusi \<and> \<not> ?pu) c2 tmp = (v, c', tmp')" by (rule prod_cases3)
            show ?thesis by (rule stop [of v c' tmp']) (use again d dec_resync_restart [of _ c2 tmp c' tmp'] in auto)
          next
            case never
            then show ?thesis by (intro stop [of Drop]) (auto simp: dec_resync_def)
          next
            case next_sndu
            then show ?thesis by (rule turn [OF _ le mv])
          next
            case next_frame
            then show ?thesis by (rule turn [OF _ le mv])
          qed
        qed
      qed
    qed
  qed
qed

lemma dec_loop_ret:
  assumes "length (de_payload e) \<le> 184" "0 < eh_min (de_up e)" "mp_pp (de_frame e) = Inr pp" "0 < n" "186 \<le> n + unat off"
  shows "dec_loop n e pusi off pu c tmp \<noteq> Inl NoReturn"
  using assms(4,5)
proof (induction n arbitrary: off pu c tmp)
  case (Suc n)
  obtain r where r: "dec_loop (Suc n) e pusi off pu c tmp = r" by simp
  show ?case
  proof (rule dec_loop_turn [OF r assms(3)])
    fix off1 c1 tmp1
    assume t: "r = dec_loop n e pusi off1 (pu \<or> off = ucast pp + 1) c1 tmp1" "unat off \<le> length (de_payload e)"
      "0 < eh_min (de_up e) \<Longrightarrow> length (de_payload e) \<le> 184 \<Longrightarrow> unat off < unat off1"
    have "unat off < unat off1" by (rule t(3) [OF assms(2,1)])
    then have "0 < n" "186 \<le> n + unat off1" using Suc.prems t(2) assms(1) by simp_all
    then show ?thesis using Suc.IH [of off1] t(1) r by simp
  qed (use r dec_padding_ret in auto)
qed simp

text \<open>Once the offset of the payload pointer has been seen, the frame is not analysed again.\<close>

lemma dec_loop_restart:
  assumes "mp_pp (de_frame e) = Inr pp" "dec_loop n e pusi off pu c tmp = Inr (Restart, c', tmp')"
  shows "\<not> pu" "off \<noteq> ucast pp + 1" "dc_need_pusi c'"
proof -
  have "\<not> (pu \<or> off = ucast pp + 1) \<and> dc_need_pusi c'"
    using assms(2)
  proof (induction n arbitrary: off pu c tmp)
    case 0
    then show ?case by (simp add: dec_loop.simps)
  next
    case (Suc n)
    show ?case
    proof (rule dec_loop_turn [OF Suc.prems assms(1)])
      fix off1 c1 tmp1
      assume "Inr (Restart, c', tmp') = dec_loop n e pusi off1 (pu \<or> off = ucast pp + 1) c1 tmp1"
      then show ?thesis using Suc.IH [of off1 "pu \<or> off = ucast pp + 1" c1 tmp1] by simp
    next
      assume "Inr (Restart, c', tmp') = dec_padding (de_payload e) off c tmp"
      then show ?thesis using dec_padding_verdict [of "de_payload e" off c tmp c' tmp'] by simp
    qed simp_all
  qed
  then show "\<not> pu" "off \<noteq> ucast pp + 1" "dc_need_pusi c'" by simp_all
qed

section \<open>A frame\<close>

lemma dec_body_ret:
  assumes "length (de_payload e) = 184" "0 < eh_min (de_up e)" "mp_pp (de_frame e) = Inr pp"
  shows "dec_body e pusi off c tmp \<noteq> Inl NoReturn"
    and "dec_body e pusi (1 + ucast pp) c tmp \<noteq> Inr (Restart, c', tmp')"
    and "dec_body e pusi off c tmp = Inr (Restart, c', tmp') \<Longrightarrow> dc_need_pusi c'"
proof -
  show "dec_body e pusi off c tmp \<noteq> Inl NoReturn"
    using dec_loop_ret [of e pp 186] assms by (auto simp: dec_body_def)
  show "dec_body e pusi (1 + ucast pp) c tmp \<noteq> Inr (Restart, c', tmp')"
    using dec_loop_restart(2) [OF assms(3), of 186 pusi "ucast pp + 1" False c tmp c' tmp'] assms
    by (auto simp: dec_body_def dec_resync_def add.commute)
  show "dec_body e pusi off c tmp = Inr (Restart, c', tmp') \<Longrightarrow> dc_need_pusi c'"
    using dec_loop_restart(3) [OF assms(3), of 186 pusi off False c tmp c' tmp'] assms
    by (auto simp: dec_body_def dec_resync_def split: if_splits)
qed

lemma restart_need:
  assumes "length (de_payload e) = 184" "0 < eh_min (de_up e)" "mp_pp (de_frame e) = Inr pp"
    "mp_pusi (de_frame e) = Inr pusi" "mp_cc (de_frame e) = Inr cc" "dc_need_pusi c"
  shows "dec_restart (Suc n) e c tmp \<noteq> Inl NoReturn"
proof -
  note b = dec_body_ret [OF assms(1-3)]
  show ?thesis
    by (auto simp: dec_restart.simps assms(3-6) res_bind_Inl Let_def b(1,2) split: verdict.splits)
qed

lemma restart_ret:
  assumes "length (de_payload e) = 184" "0 < eh_min (de_up e)" "mp_pp (de_frame e) = Inr pp"
    "mp_pusi (de_frame e) = Inr pusi" "mp_cc (de_frame e) = Inr cc"
  shows "dec_restart (Suc (Suc n)) e c tmp \<noteq> Inl NoReturn"
proof (cases "dc_need_pusi c")
  case True
  then show ?thesis by (rule restart_need [OF assms])
next
  case False
  note b = dec_body_ret [OF assms(1-3)]
  have n: "dc_need_pusi (dc_set_need_pusi True c')" for c' by (simp add: dc_set_need_pusi_def)
  show ?thesis
    using b(3) False
    by (subst dec_restart.simps)
      (auto simp: assms(4,5) res_bind_Inl Let_def b(1) restart_need [OF assms] n split: verdict.splits)
qed

text \<open>C33: \<open>deencapMpeg\<close> always returns or throws: for every frame of 188 bytes, whatever they are, every context and
  every upper plugin whose minimum length is not 0, the loop over the SNDUs ends and the jumps back to \<open>restart\<close>
  do not go round in a circle.
\<close>

theorem deencap_terminates:
  assumes "length (np_data q) = 188" "0 < eh_min up"
  shows "deencapMpeg junk up q s \<noteq> Inl NoReturn"
proof -
  obtain b m where s: "s = (b, m)" by (cases s)
  obtain pid where pid: "mp_getPid (np_data q) = Inr pid" using assms(1) by (simp add: mp_getPid_def at_res_def)
  have np: "new_mpeg_packet (np_data q) = Inr p \<Longrightarrow> np_data p = np_data q \<and> nc_getPayload p = Inr (drop 4 (np_data q))" for p
    using assms(1) by (auto simp: new_mpeg_packet_def pid nc_getPayload_def substr_def nc_getPayloadLength_def
        nc_getTotalLength_def new_net_packet_def TS_HEADERSIZE_def)
  have r: "dec_restart 3 \<lparr>de_up = up, de_frame = np_data q, de_payload = drop 4 (np_data q), de_packet = q\<rparr> c [] \<noteq> Inl NoReturn" for c
  proof -
    let ?e = "\<lparr>de_up = up, de_frame = np_data q, de_payload = drop 4 (np_data q), de_packet = q\<rparr>"
    obtain pp pusi cc where "mp_pp (np_data q) = Inr pp" "mp_pusi (np_data q) = Inr pusi" "mp_cc (np_data q) = Inr cc"
      using assms(1) by (simp add: mp_pp_def mp_pusi_def mp_cc_def at_res_def)
    then have "dec_restart (Suc (Suc 1)) ?e c [] \<noteq> Inl NoReturn"
      using assms by (intro restart_ret [of ?e pp pusi cc]) simp_all
    then show ?thesis by (simp add: numeral_3_eq_3)
  qed
  obtain p where p: "new_mpeg_packet (np_data q) = Inr p" by (simp add: new_mpeg_packet_def pid)
  show ?thesis
    using np [OF p] r by (auto simp: deencapMpeg_def s p pid res_bind_Inl)
qed

theorem deencap_terminates_witness:
  "deencapMpeg 5 \<lparr>eh_min = 2, eh_length = length, eh_build = (\<lambda>d n q s t. None)\<rparr>
     ((new_net_packet (replicate 188 0xff))\<lparr>np_type := NET_PROTO_MPEG\<rparr>)
     (new_net_burst 0, \<lparr>mg_encap = [], mg_deencap = [], mg_threshold = 0, mg_dst_tal_id = 4\<rparr>) \<noteq> Inl NoReturn"
  by (rule deencap_terminates) (simp_all add: new_net_packet_def)

end
