(* ===== verification/Rounding.thy ===== *)
theory Rounding
  imports Prelude "HOL-Library.Log_Nat"
begin

text \<open>
  The floating-point arithmetic of the unit conversions and of the DAMA computations. A finite
  \<open>float\<close> or \<open>double\<close> is the rational it stands for; every operation of the C++ is the exact
  operation followed by \<open>rnd p\<close>, which rounds to the nearest value with a significand of \<open>p\<close> bits
  (24 for \<open>float\<close>, 53 for \<open>double\<close>), ties to even. The range of the exponent is not limited: the
  values of the modelled code stay between \<open>2 ^ -64\<close> and \<open>2 ^ 100\<close>, well inside both formats.
  A conversion to an unsigned integer truncates; outside the range of the type it is undefined
  behaviour and the fault \<open>Unrepresentable\<close>.
\<close>

section \<open>Rounding to nearest\<close>

definition rhe :: "rat \<Rightarrow> int" where
  "rhe x = (let f = \<lfloor>x\<rfloor>; d = x - of_int f
            in if d < 1 / 2 then f else if 1 / 2 < d then f + 1
               else if even f then f else f + 1)"

lemma rhe_err: "\<bar>of_int (rhe x) - x\<bar> \<le> 1 / 2"
proof -
  have "of_int \<lfloor>x\<rfloor> \<le> x" "x < of_int \<lfloor>x\<rfloor> + 1" by linarith+
  then show ?thesis by (auto simp: rhe_def Let_def abs_le_iff)
qed

lemma rhe_of_int [simp]: "rhe (of_int n) = n"
  by (simp add: rhe_def)

lemma rhe_le: "x \<le> of_int n \<Longrightarrow> rhe x \<le> n"
proof (cases "x = of_int n")
  case False
  assume "x \<le> of_int n"
  with False have "\<lfloor>x\<rfloor> < n" by (simp add: floor_less_iff)
  then show ?thesis by (auto simp: rhe_def Let_def)
qed simp

lemma rhe_ge: "of_int n \<le> x \<Longrightarrow> n \<le> rhe x"
  by (auto simp: rhe_def Let_def le_floor_iff intro: order_trans [of n "\<lfloor>x\<rfloor>"])

lemma rhe_mono: assumes "x \<le> y" shows "rhe x \<le> rhe y"
proof (cases "\<lfloor>x\<rfloor> = \<lfloor>y\<rfloor>")
  case True
  with assms show ?thesis by (auto simp: rhe_def Let_def)
next
  case False
  with assms have "\<lfloor>x\<rfloor> + 1 \<le> \<lfloor>y\<rfloor>" using floor_mono [of x y] by linarith
  moreover have "rhe x \<le> \<lfloor>x\<rfloor> + 1" "\<lfloor>y\<rfloor> \<le> rhe y" by (auto simp: rhe_def Let_def)
  ultimately show ?thesis by linarith
qed

text \<open>The binary exponent of a positive rational.\<close>

definition fexp :: "rat \<Rightarrow> int" where
  "fexp x = (let (a, b) = quotient_of x; e = int (floorlog 2 (nat a)) - int (floorlog 2 (nat b))
             in if (2 :: rat) powi e \<le> x then e else e - 1)"

lemma powi_floorlog:
  assumes "0 < m"
  shows "(2 :: rat) powi (int (floorlog 2 m) - 1) \<le> of_nat m"
    "of_nat m < (2 :: rat) powi int (floorlog 2 m)"
proof -
  obtain i where i: "floorlog 2 m = Suc i"
    using assms by (cases "floorlog 2 m") (auto simp: floorlog_eq_zero_iff)
  have "2 ^ i \<le> m" "m < 2 ^ Suc i" using floorlog_bounds [of m 2] assms i by auto
  then have "(of_nat (2 ^ i) :: rat) \<le> of_nat m" "(of_nat m :: rat) < of_nat (2 ^ Suc i)"
    by (simp_all only: of_nat_le_iff of_nat_less_iff)
  then show "(2 :: rat) powi (int (floorlog 2 m) - 1) \<le> of_nat m"
    "of_nat m < (2 :: rat) powi int (floorlog 2 m)"
    by (simp_all add: i power_int_def nat_add_distrib)
qed

lemma fexp_bounds:
  assumes "0 < x"
  shows "2 powi fexp x \<le> x" "x < 2 powi (fexp x + 1)"
proof -
  obtain a b where q: "quotient_of x = (a, b)" by force
  have x: "x = of_int a / of_int b" by (rule quotient_of_div [OF q])
  have b: "0 < b" by (rule quotient_of_denom_pos [OF q])
  have a: "0 < a" using assms b by (simp add: x zero_less_divide_iff)
  define m n where "m = nat a" and "n = nat b"
  have mn: "0 < m" "0 < n" "x = of_nat m / of_nat n"
    using a b by (simp_all add: m_def n_def x)
  define i j where "i = floorlog 2 m" and "j = floorlog 2 n"
  have rm: "(2 :: rat) powi (int i - 1) \<le> of_nat m" "of_nat m < (2 :: rat) powi int i"
    using powi_floorlog [OF \<open>0 < m\<close>] by (simp_all add: i_def)
  have rn: "(2 :: rat) powi (int j - 1) \<le> of_nat n" "of_nat n < (2 :: rat) powi int j"
    using powi_floorlog [OF \<open>0 < n\<close>] by (simp_all add: j_def)
  have up: "x < 2 powi (int i - int j + 1)"
  proof -
    have "x < 2 powi int i / of_nat n" using rm mn by (simp add: divide_strict_right_mono)
    also have "\<dots> \<le> 2 powi int i / 2 powi (int j - 1)"
      using rn mn by (intro divide_left_mono) auto
    also have "\<dots> = 2 powi (int i - (int j - 1))" by (subst power_int_diff) simp_all
    also have "\<dots> = 2 powi (int i - int j + 1)" by (simp add: algebra_simps)
    finally show ?thesis .
  qed
  have lo: "2 powi (int i - int j - 1) \<le> x"
  proof -
    have "2 powi (int i - int j - 1) = (2 :: rat) powi ((int i - 1) - int j)"
      by (simp add: algebra_simps)
    also have "\<dots> = 2 powi (int i - 1) / 2 powi int j" by (rule power_int_diff) simp
    also have "\<dots> \<le> of_nat m / 2 powi int j" using rm by (intro divide_right_mono) auto
    also have "\<dots> \<le> x" using rn mn by (auto intro!: divide_left_mono)
    finally show ?thesis .
  qed
  have "fexp x = (if 2 powi (int i - int j) \<le> x then int i - int j else int i - int j - 1)"
    by (simp add: fexp_def q i_def j_def m_def n_def)
  then show "2 powi fexp x \<le> x" "x < 2 powi (fexp x + 1)" using lo up by auto
qed

lemma fexp_less:
  assumes "0 < x" "x < 2 powi k"
  shows "fexp x < k"
proof (rule ccontr)
  assume "\<not> fexp x < k"
  then have "(2 :: rat) powi k \<le> 2 powi fexp x" by (intro power_int_increasing) auto
  with fexp_bounds(1) [OF assms(1)] assms(2) show False by linarith
qed

lemma fexp_ge: "0 < x \<Longrightarrow> 2 powi k \<le> x \<Longrightarrow> k \<le> fexp x"
proof (rule ccontr)
  assume "0 < x" "2 powi k \<le> x" "\<not> k \<le> fexp x"
  then have "(2 :: rat) powi (fexp x + 1) \<le> 2 powi k" by (intro power_int_increasing) auto
  with fexp_bounds(2) [OF \<open>0 < x\<close>] \<open>2 powi k \<le> x\<close> show False by linarith
qed

lemma fexp_mono: "0 < x \<Longrightarrow> x \<le> y \<Longrightarrow> fexp x \<le> fexp y"
  using fexp_bounds(1) [of x] by (intro fexp_ge) auto

definition rnd :: "nat \<Rightarrow> rat \<Rightarrow> rat" where
  "rnd p x = (if x = 0 then 0
              else let u = 2 powi (fexp \<bar>x\<bar> - int p + 1) in of_int (rhe (x / u)) * u)"

lemma rnd_0 [simp]: "rnd p 0 = 0"
  by (simp add: rnd_def)

text \<open>The relative error of one operation.\<close>

lemma rnd_err: "\<bar>rnd p x - x\<bar> \<le> \<bar>x\<bar> / 2 ^ p"
proof (cases "x = 0")
  case False
  define u :: rat where "u = 2 powi (fexp \<bar>x\<bar> - int p + 1)"
  have u: "0 < u" by (simp add: u_def)
  have "rnd p x - x = (of_int (rhe (x / u)) - x / u) * u"
    using u False by (simp add: rnd_def Let_def flip: u_def) (simp add: left_diff_distrib)
  then have "\<bar>rnd p x - x\<bar> = \<bar>of_int (rhe (x / u)) - x / u\<bar> * u"
    using u by (simp add: abs_mult)
  also have "\<dots> \<le> 1 / 2 * u" using u rhe_err [of "x / u"] by (intro mult_right_mono) auto
  also have "\<dots> = 2 powi fexp \<bar>x\<bar> / 2 ^ p"
    by (simp add: u_def power_int_add power_int_diff power_int_of_nat)
  also have "\<dots> \<le> \<bar>x\<bar> / 2 ^ p"
    using fexp_bounds(1) [of "\<bar>x\<bar>"] False by (intro divide_right_mono) auto
  finally show ?thesis .
qed simp

text \<open>Values with a short enough significand are exact, and bound what is rounded.\<close>

lemma rnd_nonneg: assumes "0 \<le> x" shows "0 \<le> rnd p x"
  using assms rhe_ge [of 0] by (auto simp: rnd_def Let_def)

text \<open>Below \<open>2 ^ p\<close> the integers are representable, so rounding does not cross one.\<close>

lemma int_on_grid:
  assumes "e < int p"
  shows "of_int n / (2 :: rat) powi (e - int p + 1) = of_int (n * 2 ^ nat (int p - 1 - e))"
proof -
  obtain k where k: "e - int p + 1 = - int k" "nat (int p - 1 - e) = k"
    using assms by (intro that [of "nat (int p - 1 - e)"]) auto
  show ?thesis unfolding k by (simp add: power_int_minus divide_inverse)
qed

lemma rnd_grid:
  assumes "0 < x" "x < 2 ^ p"
  obtains u where "0 < u" "rnd p x = of_int (rhe (x / u)) * u" "\<And>n. \<exists>m. of_int n / u = of_int m"
proof -
  have "x < 2 powi int p" using assms by simp
  then have e: "fexp x < int p" by (rule fexp_less [OF assms(1)])
  show ?thesis
  proof (rule that)
    show "rnd p x = of_int (rhe (x / 2 powi (fexp x - int p + 1))) * 2 powi (fexp x - int p + 1)"
      using assms(1) by (simp add: rnd_def Let_def)
    show "\<exists>m. of_int n / (2 :: rat) powi (fexp x - int p + 1) = of_int m" for n
      using int_on_grid [OF e, of n] by blast
  qed simp
qed

lemma rnd_le:
  assumes "x \<le> of_int n" "0 \<le> x" "x < 2 ^ p"
  shows "rnd p x \<le> of_int n"
proof (cases "x = 0")
  case False
  then obtain u where u: "0 < u" "rnd p x = of_int (rhe (x / u)) * u"
    "\<And>n. \<exists>m. of_int n / u = of_int m"
    using rnd_grid [of x p] assms by auto
  obtain m where m: "of_int n / u = of_int m" using u(3) by blast
  then have n: "of_int n = of_int m * u" using u(1) by (simp add: nonzero_divide_eq_eq)
  have "x / u \<le> of_int m" using assms(1) u(1) by (simp add: pos_divide_le_eq n)
  then have "of_int (rhe (x / u)) \<le> (of_int m :: rat)" by (simp add: rhe_le)
  then show ?thesis using u(1) by (simp add: u(2) n)
qed (use assms in simp)

lemma rnd_ge:
  assumes "of_int n \<le> x" "0 \<le> x" "x < 2 ^ p"
  shows "of_int n \<le> rnd p x"
proof (cases "x = 0")
  case False
  then obtain u where u: "0 < u" "rnd p x = of_int (rhe (x / u)) * u"
    "\<And>n. \<exists>m. of_int n / u = of_int m"
    using rnd_grid [of x p] assms by auto
  obtain m where m: "of_int n / u = of_int m" using u(3) by blast
  then have n: "of_int n = of_int m * u" using u(1) by (simp add: nonzero_divide_eq_eq)
  have "of_int m \<le> x / u" using assms(1) u(1) by (simp add: pos_le_divide_eq n)
  then have "of_int m \<le> (of_int (rhe (x / u)) :: rat)" by (simp add: rhe_ge)
  then show ?thesis using u(1) by (simp add: u(2) n)
qed (use assms in simp)

lemma rnd_int: "0 \<le> n \<Longrightarrow> n < 2 ^ p \<Longrightarrow> rnd p (of_int n) = of_int n"
proof -
  assume "0 \<le> n" "n < 2 ^ p"
  then have "(of_int n :: rat) < of_int (2 ^ p)" by (simp only: of_int_less_iff)
  then show ?thesis using rnd_le [of "of_int n" n p] rnd_ge [of n "of_int n" p] \<open>0 \<le> n\<close> by simp
qed

lemma rnd_nat: "n < 2 ^ p \<Longrightarrow> rnd p (of_nat n) = of_nat n"
  using rnd_int [of "int n" p] by simp

definition f32 :: "rat \<Rightarrow> rat" where "f32 = rnd 24"
definition f64 :: "rat \<Rightarrow> rat" where "f64 = rnd 53"

text \<open>Evaluation on the numerator and the denominator, without fractions in between.\<close>

definition rhe_div :: "int \<Rightarrow> int \<Rightarrow> int" where
  "rhe_div a b = (let q = a div b; r = a mod b
                  in if 2 * r < b then q else if b < 2 * r then q + 1 else if even q then q else q + 1)"

lemma rhe_div: "0 < b \<Longrightarrow> rhe (of_int a / of_int b) = rhe_div a b"
proof -
  assume b: "0 < b"
  have f: "\<lfloor>of_int a / of_int b :: rat\<rfloor> = a div b" by (rule floor_divide_of_int_eq)
  have "(of_int a :: rat) = of_int (a div b) * of_int b + of_int (a mod b)"
    by (simp flip: of_int_mult of_int_add)
  then have d: "of_int a / of_int b - of_int (a div b) = (of_int (a mod b) / of_int b :: rat)"
    using b by (simp add: field_simps)
  have "of_int (a mod b) / of_int b < (1 / 2 :: rat) \<longleftrightarrow> of_int (2 * (a mod b)) < (of_int b :: rat)"
    "(1 / 2 :: rat) < of_int (a mod b) / of_int b \<longleftrightarrow> of_int b < (of_int (2 * (a mod b)) :: rat)"
    using b by (simp_all add: field_simps)
  then show ?thesis by (simp only: rhe_def rhe_div_def Let_def f d of_int_less_iff)
qed

lemma fexp_code [code]:
  "fexp x = (let (a, b) = quotient_of x; e = bitlen a - bitlen b
             in if (if 0 \<le> e then 2 ^ nat e * b \<le> a else b \<le> 2 ^ nat (- e) * a) then e else e - 1)"
proof -
  obtain a b where q: "quotient_of x = (a, b)" by force
  have x: "x = of_int a / of_int b" by (rule quotient_of_div [OF q])
  have b: "0 < (of_int b :: rat)" using quotient_of_denom_pos [OF q] by simp
  have "(2 :: rat) powi e \<le> x \<longleftrightarrow> (if 0 \<le> e then 2 ^ nat e * b \<le> a else b \<le> 2 ^ nat (- e) * a)" for e
  proof (cases "0 \<le> e")
    case True
    have "(2 :: rat) powi e \<le> x \<longleftrightarrow> (of_int (2 ^ nat e * b) :: rat) \<le> of_int a"
      using b True by (simp add: x power_int_def pos_le_divide_eq)
    with True show ?thesis by (simp only: of_int_le_iff if_True)
  next
    case False
    have "(2 :: rat) powi e \<le> x \<longleftrightarrow> (of_int b :: rat) \<le> of_int (2 ^ nat (- e) * a)"
      using b False by (simp add: x power_int_def field_simps)
    with False show ?thesis by (simp only: of_int_le_iff if_False)
  qed
  then show ?thesis by (simp add: fexp_def q bitlen_def Let_def)
qed

lemma rnd_code [code]:
  "rnd p x = (let (a, b) = quotient_of x
              in if a = 0 then 0
                 else let s = fexp \<bar>x\<bar> - int p + 1
                      in if s < 0 then of_int (rhe_div (a * 2 ^ nat (- s)) b) / of_int (2 ^ nat (- s))
                         else of_int (rhe_div a (b * 2 ^ nat s) * 2 ^ nat s))"
proof -
  obtain a b where q: "quotient_of x = (a, b)" by force
  have x: "x = of_int a / of_int b" by (rule quotient_of_div [OF q])
  have b: "0 < b" by (rule quotient_of_denom_pos [OF q])
  define s where "s = fexp \<bar>x\<bar> - int p + 1"
  show ?thesis
  proof (cases "a = 0")
    case False
    have x0: "x \<noteq> 0" using False b by (simp add: x)
    show ?thesis
    proof (cases "s < 0")
      case True
      then have u: "(2 :: rat) powi s = 1 / of_int (2 ^ nat (- s))" by (simp add: power_int_def field_simps)
      have "x / 2 powi s = of_int (a * 2 ^ nat (- s)) / of_int b" by (simp add: u x)
      then have "rnd p x = of_int (rhe_div (a * 2 ^ nat (- s)) b) * 2 powi s"
        using x0 rhe_div [OF b] by (simp only: rnd_def Let_def if_False flip: s_def)
      then show ?thesis using False True by (simp add: q u flip: s_def)
    next
      case s0: False
      then have u: "(2 :: rat) powi s = of_int (2 ^ nat s)" by (simp add: power_int_def)
      have "x / 2 powi s = of_int a / of_int (b * 2 ^ nat s)" by (simp add: u x)
      then have "rnd p x = of_int (rhe_div a (b * 2 ^ nat s)) * 2 powi s"
        using x0 b rhe_div [of "b * 2 ^ nat s" a] by (simp only: rnd_def Let_def if_False flip: s_def) simp
      then show ?thesis using False s0 by (simp add: q u flip: s_def)
    qed
  qed (simp add: q x)
qed

text \<open>Rounding is monotone.\<close>

lemma rnd_le_next: assumes "0 < x" shows "rnd p x \<le> 2 powi (fexp x + 1)"
proof -
  define u :: rat where "u = 2 powi (fexp x - int p + 1)"
  have u: "0 < u" by (simp add: u_def)
  have e: "2 powi (fexp x + 1) = of_int (2 ^ p) * u"
    by (simp add: u_def power_int_diff power_int_add)
  have "x / u \<le> of_int (2 ^ p)"
    using fexp_bounds(2) [OF assms] u by (simp only: e) (simp add: pos_divide_le_eq)
  then have "(of_int (rhe (x / u)) :: rat) \<le> of_int (2 ^ p)" by (simp only: of_int_le_iff rhe_le)
  then have "of_int (rhe (x / u)) * u \<le> of_int (2 ^ p) * u" using u by (intro mult_right_mono) auto
  then show ?thesis using assms by (simp add: rnd_def e flip: u_def)
qed

lemma rnd_ge_exp: assumes "0 < x" "1 \<le> p" shows "2 powi fexp x \<le> rnd p x"
proof -
  define u :: rat where "u = 2 powi (fexp x - int p + 1)"
  have u: "0 < u" by (simp add: u_def)
  have "fexp x = int (p - 1) + (fexp x - int p + 1)" using assms(2) by simp
  then have e: "2 powi fexp x = of_int (2 ^ (p - 1)) * u"
    unfolding u_def by (metis of_int_numeral of_int_power power_int_add power_int_of_nat zero_neq_numeral)
  have "of_int (2 ^ (p - 1)) \<le> x / u"
    using fexp_bounds(1) [OF assms(1)] u by (simp only: e) (simp add: pos_le_divide_eq)
  then have "(of_int (2 ^ (p - 1)) :: rat) \<le> of_int (rhe (x / u))" by (simp only: of_int_le_iff rhe_ge)
  then have "of_int (2 ^ (p - 1)) * u \<le> of_int (rhe (x / u)) * u"
    using u by (intro mult_right_mono) auto
  then show ?thesis using assms by (simp add: rnd_def e flip: u_def)
qed

lemma rnd_mono:
  assumes "0 \<le> x" "x \<le> y" "1 \<le> p"
  shows "rnd p x \<le> rnd p y"
proof (cases "x = 0")
  case True
  then show ?thesis using assms rnd_nonneg by simp
next
  case False
  then have xy: "0 < x" "0 < y" using assms by auto
  show ?thesis
  proof (cases "fexp x = fexp y")
    case True
    have "x / 2 powi (fexp y - int p + 1) \<le> y / 2 powi (fexp y - int p + 1)"
      using assms by (intro divide_right_mono) auto
    then have "rhe (x / 2 powi (fexp y - int p + 1)) \<le> rhe (y / 2 powi (fexp y - int p + 1))"
      by (rule rhe_mono)
    then show ?thesis using xy True by (simp add: rnd_def Let_def mult_right_mono)
  next
    case False
    then have "fexp x + 1 \<le> fexp y" using fexp_mono [OF xy(1) assms(2)] by simp
    then have "(2 :: rat) powi (fexp x + 1) \<le> 2 powi fexp y" by (intro power_int_increasing) auto
    then show ?thesis using rnd_le_next [OF xy(1), of p] rnd_ge_exp [OF xy(2) assms(3)] by linarith
  qed
qed

section \<open>Accumulated error\<close>

text \<open>\<open>near n x y\<close>: \<open>x\<close> is \<open>y\<close> up to \<open>n\<close> roundings to a significand of 24 bits or more.\<close>

definition ulp :: rat where "ulp = 1 / 2 ^ 24"

definition near :: "nat \<Rightarrow> rat \<Rightarrow> rat \<Rightarrow> bool" where
  "near n x y \<longleftrightarrow> 0 \<le> y \<and> y * (1 - ulp) ^ n \<le> x \<and> x \<le> y * (1 + ulp) ^ n"

named_theorems near_intros

lemma ulp_bounds [simp]: "0 < ulp" "0 \<le> ulp" "ulp \<le> 1" "0 \<le> 1 - ulp" "0 < 1 - ulp" "0 \<le> 1 + ulp" "1 - ulp \<le> 1" "1 \<le> 1 + ulp"
  by (simp_all add: ulp_def)

lemma near_nonneg: "near n x y \<Longrightarrow> 0 \<le> x"
  unfolding near_def by (meson mult_nonneg_nonneg order_trans ulp_bounds(4) zero_le_power)

lemma near_refl [near_intros]: "0 \<le> x \<Longrightarrow> near 0 x x"
  by (simp add: near_def)

lemma near_rnd:
  assumes "near n x y" "24 \<le> p"
  shows "near (Suc n) (rnd p x) y"
proof -
  have x: "0 \<le> x" using assms(1) by (rule near_nonneg)
  have "(2 :: rat) ^ 24 \<le> 2 ^ p" using assms(2) by (intro power_increasing) auto
  then have "x / 2 ^ p \<le> x / 2 ^ 24" using x by (intro divide_left_mono) auto
  moreover have "\<bar>rnd p x - x\<bar> \<le> x / 2 ^ p" using rnd_err [of p x] x by simp
  ultimately have "\<bar>rnd p x - x\<bar> \<le> x / 2 ^ 24" by linarith
  then have e: "\<bar>rnd p x - x\<bar> \<le> x * ulp" by (simp add: ulp_def)
  have y: "0 \<le> y" "y * (1 - ulp) ^ n \<le> x" "x \<le> y * (1 + ulp) ^ n"
    using assms(1) by (auto simp: near_def)
  have "y * (1 - ulp) ^ n * (1 - ulp) \<le> x * (1 - ulp)" using y by (intro mult_right_mono) auto
  also have "\<dots> \<le> rnd p x" using e by (simp add: abs_le_iff algebra_simps)
  finally have lo: "y * (1 - ulp) ^ Suc n \<le> rnd p x" by (simp add: mult_ac)
  have "rnd p x \<le> x * (1 + ulp)" using e by (simp add: abs_le_iff algebra_simps)
  also have "\<dots> \<le> y * (1 + ulp) ^ n * (1 + ulp)" using y by (intro mult_right_mono) auto
  finally have "rnd p x \<le> y * (1 + ulp) ^ Suc n" by (simp add: mult_ac)
  with lo y show ?thesis by (simp add: near_def)
qed

lemma near_f32 [near_intros]: "near n x y \<Longrightarrow> near (Suc n) (f32 x) y"
  by (simp add: f32_def near_rnd)

lemma near_f64 [near_intros]: "near n x y \<Longrightarrow> near (Suc n) (f64 x) y"
  by (simp add: f64_def near_rnd)

lemma near_mult [near_intros]:
  assumes "near m x y" "near n x' y'"
  shows "near (m + n) (x * x') (y * y')"
proof -
  have y: "0 \<le> y" "0 \<le> y'" "0 \<le> x" "0 \<le> x'"
    using assms near_nonneg [OF assms(1)] near_nonneg [OF assms(2)] by (auto simp: near_def)
  have "(y * (1 - ulp) ^ m) * (y' * (1 - ulp) ^ n) \<le> x * x'"
    using assms y by (intro mult_mono) (auto simp: near_def intro!: mult_nonneg_nonneg zero_le_power)
  moreover have "x * x' \<le> (y * (1 + ulp) ^ m) * (y' * (1 + ulp) ^ n)"
    using assms y by (intro mult_mono) (auto simp: near_def intro!: mult_nonneg_nonneg zero_le_power)
  ultimately show ?thesis using y by (simp add: near_def power_add mult_ac)
qed

lemma near_lower: "near n x y \<Longrightarrow> y - y * of_nat n * ulp \<le> x"
proof -
  assume a: "near n x y"
  have "1 + of_nat n * (- ulp) \<le> (1 + - ulp) ^ n" by (rule Bernoulli_inequality) (simp add: ulp_def)
  then have "y * (1 - of_nat n * ulp) \<le> y * (1 - ulp) ^ n"
    using a by (intro mult_left_mono) (auto simp: near_def)
  then show ?thesis using a by (simp add: near_def algebra_simps)
qed

lemma near_upper: "near n x y \<Longrightarrow> n \<le> 16 \<Longrightarrow> x \<le> y + y * of_nat n * ulp * 2"
proof -
  have up: "(1 + ulp) ^ m \<le> 1 + of_nat m * ulp * 2" if "m \<le> 16" for m
    using that
  proof (induction m)
    case (Suc m)
    then have ih: "(1 + ulp) ^ m \<le> 1 + of_nat m * ulp * 2" by simp
    have m: "of_nat m * ulp * 2 * ulp \<le> ulp"
      using Suc.prems by (simp add: ulp_def)
    have "(1 + ulp) ^ Suc m \<le> (1 + of_nat m * ulp * 2) * (1 + ulp)"
      using ih by (simp only: power_Suc2) (rule mult_right_mono, simp_all)
    also have "\<dots> = 1 + of_nat m * ulp * 2 + ulp + of_nat m * ulp * 2 * ulp" by (simp add: algebra_simps)
    also have "\<dots> \<le> 1 + of_nat m * ulp * 2 + ulp + ulp" using m by simp
    also have "\<dots> = 1 + of_nat (Suc m) * ulp * 2" by (simp add: algebra_simps)
    finally show ?case .
  qed simp
  assume "near n x y" "n \<le> 16"
  moreover from this have "y * (1 + ulp) ^ n \<le> y * (1 + of_nat n * ulp * 2)"
    using up by (intro mult_left_mono) (auto simp: near_def)
  ultimately show ?thesis by (simp add: near_def algebra_simps)
qed

section \<open>Conversions to unsigned integers\<close>

definition truncate :: "rat \<Rightarrow> int" where
  "truncate x = (if 0 \<le> x then \<lfloor>x\<rfloor> else \<lceil>x\<rceil>)"

definition to_uint :: "rat \<Rightarrow> 'a::len word res" where
  "to_uint x = (let t = truncate x
                in if 0 \<le> t \<and> t < 2 ^ LENGTH('a) then Inr (of_int t) else Inl Unrepresentable)"

abbreviation ceil_uint :: "rat \<Rightarrow> 'a::len word res" where
  "ceil_uint x \<equiv> to_uint (of_int \<lceil>x\<rceil>)"

abbreviation floor_uint :: "rat \<Rightarrow> 'a::len word res" where
  "floor_uint x \<equiv> to_uint (of_int \<lfloor>x\<rfloor>)"

definition rat_of_word :: "'a::len word \<Rightarrow> rat" where
  "rat_of_word w = of_nat (unat w)"

lemma rat_of_word_code [code]: "rat_of_word w = of_int (uint w)"
  by (simp add: rat_of_word_def)

lemma rat_of_word_nonneg [simp]: "0 \<le> rat_of_word w"
  by (simp only: rat_of_word_def of_nat_0_le_iff)

lemma rat_of_word_pos: "0 < w \<Longrightarrow> 0 < rat_of_word w"
  by (simp only: rat_of_word_def of_nat_0_less_iff) (simp add: word_less_nat_alt)

lemma rat_of_word_less: "rat_of_word (w :: 'a::len word) < 2 ^ LENGTH('a)"
proof -
  have "(of_nat (unat w) :: rat) < of_nat (2 ^ LENGTH('a))"
    by (simp only: of_nat_less_iff) (rule unsigned_less)
  then show ?thesis by (simp only: rat_of_word_def) simp
qed

lemma rat_of_word_le_iff [simp]: "rat_of_word v \<le> rat_of_word w \<longleftrightarrow> v \<le> w"
  by (simp only: rat_of_word_def of_nat_le_iff word_le_nat_alt)

lemma truncate_of_int [simp]: "truncate (of_int n) = n"
  by (simp add: truncate_def)

lemma truncate_0 [simp]: "truncate 0 = 0"
  using truncate_of_int [of 0] by (simp del: truncate_of_int)

lemma to_uint_int:
  "to_uint (of_int n) = Inr (w :: 'a::len word) \<longleftrightarrow> n = int (unat w)"
proof
  assume "to_uint (of_int n) = Inr w"
  then have "0 \<le> n" "n < 2 ^ LENGTH('a)" "w = of_int n" by (auto simp: to_uint_def split: if_splits)
  then show "n = int (unat w)" by (simp add: uint_word_of_int take_bit_int_eq_self)
next
  assume n: "n = int (unat w)"
  have "unat w < 2 ^ LENGTH('a)" by (rule unsigned_less)
  then have "int (unat w) < 2 ^ LENGTH('a)" by (metis of_nat_less_iff of_nat_numeral of_nat_power)
  then have "0 \<le> n" "n < 2 ^ LENGTH('a)" by (simp_all add: n del: of_nat_unat)
  moreover have "of_int n = w" by (simp add: n)
  ultimately show "to_uint (of_int n) = Inr w" by (simp add: to_uint_def)
qed

lemma to_uint_ex:
  assumes "0 \<le> n" "n < 2 ^ LENGTH('a)"
  shows "\<exists>w :: 'a::len word. to_uint (of_int n) = Inr w \<and> int (unat w) = n"
  using assms by (auto simp: to_uint_def uint_word_of_int take_bit_int_eq_self)

text \<open>The member \<open>..._inv\<close> of a positive length: a double quotient stored in a \<open>float\<close>.\<close>

definition inv32 :: "'a::len word \<Rightarrow> rat" where
  "inv32 w = (if 0 < w then f32 (f64 (1 / rat_of_word w)) else 0)"

lemma near_inv32 [near_intros]: "0 < w \<Longrightarrow> near 2 (inv32 w) (1 / rat_of_word w)"
  unfolding inv32_def numeral_2_eq_2 by (auto intro!: near_intros)

lemma inv32_nonneg [simp]: "0 \<le> inv32 w"
proof (cases "0 < w")
  case True
  then show ?thesis by (rule near_nonneg [OF near_inv32])
qed (simp add: inv32_def)

end
