(* ===== verification/UnitConverter.thy ===== *)
theory UnitConverter
  imports Rounding
begin

text \<open>
  The unit conversions: \<open>dvb/utils/UnitConverter.cpp\<close> and its two subclasses,
  \<open>UnitConverterFixedBitLength.cpp\<close> (DVB-RCS: a packet has a fixed number of bits) and
  \<open>UnitConverterFixedSymbolLength.cpp\<close> (DVB-RCS2: a fixed number of symbols). A virtual call is a
  case distinction on \<open>uc_kind\<close>. The arithmetic is that of the C++ types: products of unsigned
  integers wrap at 32 bits, a product with one of the \<open>float\<close> inverses is rounded to 24 bits, a
  quotient by \<open>1000.0\<close> to 53 bits, and the result is converted to the return type.
\<close>

type_synonym rate_kbps_t = u16
type_synonym rate_bps_t = u16
type_synonym rate_pktpf_t = u16
type_synonym rate_symps_t = rat
type_synonym vol_kb_t = u16
type_synonym vol_b_t = u32
type_synonym vol_sym_t = u32

datatype uc_kind = FixedBitLength | FixedSymbolLength

record unit_converter =
  uc_kind :: uc_kind
  uc_frame_ms :: time_ms_t
  uc_frame_inv :: rat
  uc_eff :: u32
  uc_eff_inv :: rat
  uc_len :: u32          \<comment> \<open>\<open>packet_length_b\<close> or \<open>packet_length_sym\<close>\<close>
  uc_len_inv :: rat

section \<open>Members\<close>

definition uc_setFrameDuration :: "time_ms_t \<Rightarrow> unit_converter \<Rightarrow> unit_converter" where
  "uc_setFrameDuration d c = c\<lparr>uc_frame_ms := d, uc_frame_inv := inv32 d\<rparr>"

definition uc_setModulationEfficiency :: "u32 \<Rightarrow> unit_converter \<Rightarrow> unit_converter" where
  "uc_setModulationEfficiency e c = c\<lparr>uc_eff := e, uc_eff_inv := inv32 e\<rparr>"

definition bit_setPacketBitLength :: "vol_b_t \<Rightarrow> unit_converter \<Rightarrow> unit_converter" where
  "bit_setPacketBitLength l c = c\<lparr>uc_len := l, uc_len_inv := inv32 l\<rparr>"

definition sym_setPacketSymbolLength :: "vol_sym_t \<Rightarrow> unit_converter \<Rightarrow> unit_converter" where
  "sym_setPacketSymbolLength l c = c\<lparr>uc_len := l, uc_len_inv := inv32 l\<rparr>"

definition new_bit_converter :: "time_ms_t \<Rightarrow> u32 \<Rightarrow> vol_b_t \<Rightarrow> unit_converter" where
  "new_bit_converter d e l =
     \<lparr>uc_kind = FixedBitLength, uc_frame_ms = d, uc_frame_inv = inv32 d, uc_eff = e, uc_eff_inv = inv32 e,
      uc_len = l, uc_len_inv = inv32 l\<rparr>"

definition new_sym_converter :: "time_ms_t \<Rightarrow> u32 \<Rightarrow> vol_sym_t \<Rightarrow> unit_converter" where
  "new_sym_converter d e l =
     \<lparr>uc_kind = FixedSymbolLength, uc_frame_ms = d, uc_frame_inv = inv32 d, uc_eff = e, uc_eff_inv = inv32 e,
      uc_len = l, uc_len_inv = inv32 l\<rparr>"

section \<open>Conversions of the base class\<close>

definition uc_bitsToSym :: "unit_converter \<Rightarrow> vol_b_t \<Rightarrow> vol_sym_t res" where
  "uc_bitsToSym c v = ceil_uint (f32 (f32 (rat_of_word v) * uc_eff_inv c))"

definition uc_symToBits :: "unit_converter \<Rightarrow> vol_sym_t \<Rightarrow> vol_b_t" where
  "uc_symToBits c v = v * uc_eff c"

definition uc_kbitsToSym :: "unit_converter \<Rightarrow> vol_kb_t \<Rightarrow> vol_sym_t res" where
  "uc_kbitsToSym c v = ceil_uint (f32 (f32 (rat_of_word v * 1000) * uc_eff_inv c))"

definition uc_symToKbits :: "unit_converter \<Rightarrow> vol_sym_t \<Rightarrow> vol_kb_t res" where
  "uc_symToKbits c v = ceil_uint (f64 (rat_of_word (v * uc_eff c) / 1000))"

definition uc_bitsToKbits :: "unit_converter \<Rightarrow> vol_b_t \<Rightarrow> vol_kb_t res" where
  "uc_bitsToKbits c v = ceil_uint (f64 (rat_of_word v / 1000))"

definition uc_kbitsToBits :: "unit_converter \<Rightarrow> vol_kb_t \<Rightarrow> vol_b_t" where
  "uc_kbitsToBits c v = ucast v * 1000"

definition uc_bpsToSymps :: "unit_converter \<Rightarrow> rate_bps_t \<Rightarrow> rate_symps_t" where
  "uc_bpsToSymps c r = of_int \<lceil>f32 (rat_of_word r * uc_eff_inv c)\<rceil>"

definition uc_sympsToBps :: "unit_converter \<Rightarrow> rate_symps_t \<Rightarrow> rate_bps_t res" where
  "uc_sympsToBps c r = to_uint (f64 (r * rat_of_word (uc_eff c)))"

definition uc_kbpsToSymps :: "unit_converter \<Rightarrow> rate_kbps_t \<Rightarrow> rate_symps_t" where
  "uc_kbpsToSymps c r = of_int \<lceil>f32 (f32 (rat_of_word r * 1000) * uc_eff_inv c)\<rceil>"

definition uc_sympsToKbps :: "unit_converter \<Rightarrow> rate_symps_t \<Rightarrow> rate_kbps_t res" where
  "uc_sympsToKbps c r = ceil_uint (f64 (f64 (r * rat_of_word (uc_eff c)) / 1000))"

definition uc_bpsToKbps :: "unit_converter \<Rightarrow> rate_bps_t \<Rightarrow> rate_kbps_t res" where
  "uc_bpsToKbps c r = ceil_uint (f64 (rat_of_word r / 1000))"

text \<open>The product is an \<open>int\<close>, cut to 16 bits.\<close>

definition uc_kbpsToBps :: "unit_converter \<Rightarrow> rate_kbps_t \<Rightarrow> rate_bps_t" where
  "uc_kbpsToBps c r = r * 1000"

definition uc_pfToPs :: "unit_converter \<Rightarrow> u32 \<Rightarrow> u32 res" where
  "uc_pfToPs c r = ceil_uint (f32 (f32 (f32 (rat_of_word r) * uc_frame_inv c) * 1000))"

definition uc_psToPf :: "unit_converter \<Rightarrow> u32 \<Rightarrow> u32 res" where
  "uc_psToPf c r = ceil_uint (f64 (rat_of_word (r * uc_frame_ms c) / 1000))"

section \<open>Packets of a fixed number of bits\<close>

definition bit_symToPkt :: "unit_converter \<Rightarrow> vol_sym_t \<Rightarrow> vol_pkt_t res" where
  "bit_symToPkt c v =
     ceil_uint (f32 (f32 (f32 (rat_of_word v) * uc_len_inv c) * f32 (rat_of_word (uc_eff c))))"

definition bit_pktToSym :: "unit_converter \<Rightarrow> vol_pkt_t \<Rightarrow> vol_sym_t res" where
  "bit_pktToSym c v = to_uint (f32 (f32 (rat_of_word (ucast v * uc_len c)) * uc_eff_inv c))"

definition bit_bitsToPkt :: "unit_converter \<Rightarrow> vol_b_t \<Rightarrow> vol_pkt_t res" where
  "bit_bitsToPkt c v = ceil_uint (f32 (f32 (rat_of_word v) * uc_len_inv c))"

definition bit_pktToBits :: "unit_converter \<Rightarrow> vol_pkt_t \<Rightarrow> vol_b_t" where
  "bit_pktToBits c v = ucast v * uc_len c"

definition bit_kbitsToPkt :: "unit_converter \<Rightarrow> vol_kb_t \<Rightarrow> vol_pkt_t res" where
  "bit_kbitsToPkt c v = ceil_uint (f32 (f32 (rat_of_word v * uc_len_inv c) * 1000))"

definition bit_pktToKbits :: "unit_converter \<Rightarrow> vol_pkt_t \<Rightarrow> vol_kb_t res" where
  "bit_pktToKbits c v = ceil_uint (f64 (rat_of_word (ucast v * uc_len c) / 1000))"

text \<open>A symbol rate is a \<open>double\<close>, so its products are rounded to 53 bits.\<close>

definition bit_sympsToPktpf :: "unit_converter \<Rightarrow> rate_symps_t \<Rightarrow> rate_pktpf_t res" where
  "bit_sympsToPktpf c r =
     ceil_uint (f64 (f64 (f64 (f64 (r * uc_len_inv c) * rat_of_word (uc_eff c))
       * rat_of_word (uc_frame_ms c)) * 1000))"

definition bit_pktpfToSymps :: "unit_converter \<Rightarrow> rate_pktpf_t \<Rightarrow> rate_symps_t" where
  "bit_pktpfToSymps c r =
     of_int \<lceil>f64 (f32 (f32 (f32 (rat_of_word (ucast r * uc_len c)) * uc_eff_inv c) * uc_frame_inv c) / 1000)\<rceil>"

definition bit_bpsToPktpf :: "unit_converter \<Rightarrow> rate_bps_t \<Rightarrow> rate_pktpf_t res" where
  "bit_bpsToPktpf c r =
     ceil_uint (f64 (f32 (f32 (rat_of_word r * uc_len_inv c) * f32 (rat_of_word (uc_frame_ms c))) / 1000))"

definition bit_pktpfToBps :: "unit_converter \<Rightarrow> rate_pktpf_t \<Rightarrow> rate_bps_t res" where
  "bit_pktpfToBps c r =
     ceil_uint (f32 (f32 (f32 (rat_of_word (ucast r * uc_len c)) * uc_frame_inv c) * 1000))"

definition bit_kbpsToPktpf :: "unit_converter \<Rightarrow> rate_kbps_t \<Rightarrow> rate_pktpf_t res" where
  "bit_kbpsToPktpf c r =
     ceil_uint (f32 (f32 (rat_of_word r * uc_len_inv c) * f32 (rat_of_word (uc_frame_ms c))))"

definition bit_pktpfToKbps :: "unit_converter \<Rightarrow> rate_pktpf_t \<Rightarrow> rate_kbps_t res" where
  "bit_pktpfToKbps c r = ceil_uint (f32 (f32 (rat_of_word (ucast r * uc_len c)) * uc_frame_inv c))"

section \<open>Packets of a fixed number of symbols\<close>

definition sym_symToPkt :: "unit_converter \<Rightarrow> vol_sym_t \<Rightarrow> vol_pkt_t res" where
  "sym_symToPkt c v = ceil_uint (f32 (f32 (rat_of_word v) * uc_len_inv c))"

definition sym_pktToSym :: "unit_converter \<Rightarrow> vol_pkt_t \<Rightarrow> vol_sym_t" where
  "sym_pktToSym c v = ucast v * uc_len c"

definition sym_bitsToPkt :: "unit_converter \<Rightarrow> vol_b_t \<Rightarrow> vol_pkt_t res" where
  "sym_bitsToPkt c v = ceil_uint (f32 (f32 (f32 (rat_of_word v) * uc_len_inv c) * uc_eff_inv c))"

definition sym_pktToBits :: "unit_converter \<Rightarrow> vol_pkt_t \<Rightarrow> vol_b_t" where
  "sym_pktToBits c v = ucast v * uc_len c * uc_eff c"

definition sym_kbitsToPkt :: "unit_converter \<Rightarrow> vol_kb_t \<Rightarrow> vol_pkt_t res" where
  "sym_kbitsToPkt c v =
     ceil_uint (f32 (f32 (f32 (rat_of_word v * uc_len_inv c) * uc_eff_inv c) * 1000))"

definition sym_pktToKbits :: "unit_converter \<Rightarrow> vol_pkt_t \<Rightarrow> vol_kb_t res" where
  "sym_pktToKbits c v = ceil_uint (f64 (rat_of_word (ucast v * uc_len c * uc_eff c) / 1000))"

definition sym_sympsToPktpf :: "unit_converter \<Rightarrow> rate_symps_t \<Rightarrow> rate_pktpf_t res" where
  "sym_sympsToPktpf c r =
     ceil_uint (f64 (f64 (f64 (r * uc_len_inv c) * rat_of_word (uc_frame_ms c)) * 1000))"

definition sym_pktpfToSymps :: "unit_converter \<Rightarrow> rate_pktpf_t \<Rightarrow> rate_symps_t" where
  "sym_pktpfToSymps c r =
     of_int \<lceil>f64 (f32 (f32 (rat_of_word (ucast r * uc_len c)) * uc_frame_inv c) / 1000)\<rceil>"

definition sym_bpsToPktpf :: "unit_converter \<Rightarrow> rate_bps_t \<Rightarrow> rate_pktpf_t res" where
  "sym_bpsToPktpf c r =
     ceil_uint (f64 (f32 (f32 (f32 (rat_of_word r * uc_len_inv c) * uc_eff_inv c)
       * f32 (rat_of_word (uc_frame_ms c))) / 1000))"

definition sym_pktpfToBps :: "unit_converter \<Rightarrow> rate_pktpf_t \<Rightarrow> rate_bps_t res" where
  "sym_pktpfToBps c r =
     ceil_uint (f32 (f32 (f32 (rat_of_word (ucast r * uc_len c * uc_eff c)) * uc_frame_inv c) * 1000))"

definition sym_kbpsToPktpf :: "unit_converter \<Rightarrow> rate_kbps_t \<Rightarrow> rate_pktpf_t res" where
  "sym_kbpsToPktpf c r =
     ceil_uint (f32 (f32 (f32 (rat_of_word r * uc_len_inv c) * uc_eff_inv c) * f32 (rat_of_word (uc_frame_ms c))))"

definition sym_pktpfToKbps :: "unit_converter \<Rightarrow> rate_pktpf_t \<Rightarrow> rate_kbps_t res" where
  "sym_pktpfToKbps c r =
     ceil_uint (f32 (f32 (rat_of_word (ucast r * uc_len c * uc_eff c)) * uc_frame_inv c))"

section \<open>Virtual calls\<close>

definition uc_symToPkt :: "unit_converter \<Rightarrow> vol_sym_t \<Rightarrow> vol_pkt_t res" where
  "uc_symToPkt c = (case uc_kind c of FixedBitLength \<Rightarrow> bit_symToPkt c | FixedSymbolLength \<Rightarrow> sym_symToPkt c)"

definition uc_pktToSym :: "unit_converter \<Rightarrow> vol_pkt_t \<Rightarrow> vol_sym_t res" where
  "uc_pktToSym c v =
     (case uc_kind c of FixedBitLength \<Rightarrow> bit_pktToSym c v | FixedSymbolLength \<Rightarrow> Inr (sym_pktToSym c v))"

definition uc_kbitsToPkt :: "unit_converter \<Rightarrow> vol_kb_t \<Rightarrow> vol_pkt_t res" where
  "uc_kbitsToPkt c =
     (case uc_kind c of FixedBitLength \<Rightarrow> bit_kbitsToPkt c | FixedSymbolLength \<Rightarrow> sym_kbitsToPkt c)"

definition uc_pktToKbits :: "unit_converter \<Rightarrow> vol_pkt_t \<Rightarrow> vol_kb_t res" where
  "uc_pktToKbits c =
     (case uc_kind c of FixedBitLength \<Rightarrow> bit_pktToKbits c | FixedSymbolLength \<Rightarrow> sym_pktToKbits c)"

definition uc_kbpsToPktpf :: "unit_converter \<Rightarrow> rate_kbps_t \<Rightarrow> rate_pktpf_t res" where
  "uc_kbpsToPktpf c =
     (case uc_kind c of FixedBitLength \<Rightarrow> bit_kbpsToPktpf c | FixedSymbolLength \<Rightarrow> sym_kbpsToPktpf c)"

definition uc_pktpfToKbps :: "unit_converter \<Rightarrow> rate_pktpf_t \<Rightarrow> rate_kbps_t res" where
  "uc_pktpfToKbps c =
     (case uc_kind c of FixedBitLength \<Rightarrow> bit_pktpfToKbps c | FixedSymbolLength \<Rightarrow> sym_pktpfToKbps c)"

definition uc_getPacketBitLength :: "unit_converter \<Rightarrow> vol_b_t" where
  "uc_getPacketBitLength c =
     (case uc_kind c of FixedBitLength \<Rightarrow> uc_len c | FixedSymbolLength \<Rightarrow> uc_symToBits c (uc_len c))"

definition uc_getPacketKbitLength :: "unit_converter \<Rightarrow> vol_kb_t res" where
  "uc_getPacketKbitLength c =
     (case uc_kind c of FixedBitLength \<Rightarrow> uc_bitsToKbits c (uc_len c)
      | FixedSymbolLength \<Rightarrow> uc_symToKbits c (uc_len c))"

definition uc_getPacketSymbolLength :: "unit_converter \<Rightarrow> vol_sym_t res" where
  "uc_getPacketSymbolLength c =
     (case uc_kind c of FixedBitLength \<Rightarrow> uc_bitsToSym c (uc_len c) | FixedSymbolLength \<Rightarrow> Inr (uc_len c))"

definition uc_getSlotsNumber :: "unit_converter \<Rightarrow> rate_symps_t \<Rightarrow> u32 res" where
  "uc_getSlotsNumber c carrier_symps =
     res_bind (uc_pktToSym c 1) (\<lambda>slot_sym.
       if slot_sym = 0 then Inr 0
       else res_bind (to_uint carrier_symps) (\<lambda>r. res_bind (uc_psToPf c r) (\<lambda>pf. Inr (pf div slot_sym))))"

end
