(* ===== verification/UnitConverterCorrect.thy ===== *)
theory UnitConverterCorrect
  imports UnitConverter
begin

text \<open>
  What the DAMA computations rely on in the unit converter: a rate or a volume converted to packets
  and back is never smaller than it was, in spite of the inverses rounded to \<open>float\<close>, and the
  conversion from packets is monotone. The locale \<open>packet_converter\<close> states this contract; it is
  interpreted on the rates (\<open>kbpsToPktpf\<close>, \<open>pktpfToKbps\<close>) and on the volumes (\<open>kbitsToPkt\<close>,
  \<open>pktToKbits\<close>) of both converters.
\<close>

section \<open>The contract\<close>

locale packet_converter =
  fixes to_pkt :: "'c \<Rightarrow> u16 \<Rightarrow> u16 res" and of_pkt :: "'c \<Rightarrow> u16 \<Rightarrow> u16 res" and valid :: "'c \<Rightarrow> bool"
  assumes no_loss: "valid c \<Longrightarrow> to_pkt c k = Inr p \<Longrightarrow> of_pkt c p = Inr k' \<Longrightarrow> k \<le> k'"
    and of_pkt_down: "valid c \<Longrightarrow> of_pkt c n = Inr k \<Longrightarrow> m \<le> n \<Longrightarrow> \<exists>k'. of_pkt c m = Inr k' \<and> k' \<le> k"
begin

lemma of_pkt_mono: "valid c \<Longrightarrow> of_pkt c m = Inr j \<Longrightarrow> of_pkt c n = Inr k \<Longrightarrow> m \<le> n \<Longrightarrow> j \<le> k"
  using of_pkt_down by fastforce

text \<open>Fewer packets than were asked for: the grant converts, and is at most the whole request.\<close>

lemma partial_grant:
  assumes "valid c" "to_pkt c k = Inr p" "of_pkt c p = Inr k'" "m \<le> p"
  obtains j where "of_pkt c m = Inr j" "j \<le> k'"
  using of_pkt_down [OF assms(1,3,4)] by blast

lemma full_grant:
  assumes "valid c" "to_pkt c k = Inr p" "of_pkt c m = Inr j" "p \<le> m"
  shows "k \<le> j"
proof -
  obtain k' where "of_pkt c p = Inr k'" "k' \<le> j" using of_pkt_down [OF assms(1,3,4)] by blast
  then show ?thesis using no_loss [OF assms(1,2)] by fastforce
qed

end

section \<open>Rounded conversions\<close>

lemma near_weaken: "near m x y \<Longrightarrow> m \<le> n \<Longrightarrow> near n x y"
proof -
  assume a: "near m x y" "m \<le> n"
  have "(1 - ulp) ^ n \<le> (1 - ulp) ^ m" using a(2) by (intro power_decreasing) simp_all
  moreover have "(1 + ulp) ^ m \<le> (1 + ulp) ^ n" using a(2) by (intro power_increasing) simp_all
  ultimately have "y * (1 - ulp) ^ n \<le> y * (1 - ulp) ^ m" "y * (1 + ulp) ^ m \<le> y * (1 + ulp) ^ n"
    using a(1) by (auto simp: near_def intro: mult_left_mono)
  with a(1) show ?thesis by (auto simp: near_def)
qed

lemma ceil_uint_Inr: "ceil_uint x = Inr (w :: 'a::len word) \<longleftrightarrow> \<lceil>x\<rceil> = int (unat w)"
  by (rule to_uint_int)

lemma of_nat_u16_le: assumes "a < 65536" shows "(of_nat a :: rat) \<le> 65535"
proof -
  have "(of_nat a :: rat) \<le> of_nat 65535" using assms by (simp only: of_nat_le_iff)
  then show ?thesis by simp
qed

lemma ceil_round_trip:
  assumes P: "near 8 P (of_nat a * x)" and Q: "near 4 Q (of_int \<lceil>P\<rceil> / x)"
    and x: "0 < x" and a: "a < 65536"
  shows "int a \<le> \<lceil>Q\<rceil>"
proof -
  have "of_nat a * x - of_nat a * x * 8 * ulp \<le> P" using near_lower [OF P] by simp
  then have "of_nat a * x * (1 - 8 * ulp) \<le> P" by (simp add: algebra_simps)
  also have "\<dots> \<le> of_int \<lceil>P\<rceil>" by (rule le_of_int_ceiling)
  finally have p: "of_nat a * x * (1 - 8 * ulp) \<le> of_int \<lceil>P\<rceil>" .
  have "of_nat a * (1 - 8 * ulp) * (1 - 4 * ulp) = of_nat a * x * (1 - 8 * ulp) / x * (1 - 4 * ulp)"
    using x by simp
  also have "\<dots> \<le> of_int \<lceil>P\<rceil> / x * (1 - 4 * ulp)"
    using p x by (intro mult_right_mono divide_right_mono) (simp_all add: ulp_def)
  also have "\<dots> \<le> Q" using near_lower [OF Q] by (simp add: algebra_simps)
  finally have "of_nat a * (1 - 8 * ulp) * (1 - 4 * ulp) \<le> Q" .
  moreover have "(of_nat a :: rat) \<le> 65535" by (rule of_nat_u16_le [OF a])
  then have "of_nat a - 1 < of_nat a * (1 - 8 * ulp) * (1 - 4 * ulp)" by (simp add: ulp_def)
  ultimately have "of_int (int a - 1) < Q" by simp
  then have "int a - 1 < \<lceil>Q\<rceil>" by (simp only: less_ceiling_iff)
  then show ?thesis by simp
qed

text \<open>What the conversion adds: less than one packet and one unit.\<close>

lemma ceil_round_trip_upper:
  assumes P: "near 8 P (of_nat a * x)" and Q: "near 4 Q (of_int \<lceil>P\<rceil> / x)"
    and x: "0 < x" and a: "a < 65536" and q: "\<lceil>Q\<rceil> < 65536"
  shows "(of_int \<lceil>Q\<rceil> :: rat) < of_nat a + 1 / x + 2"
proof -
  define p :: rat where "p = of_int \<lceil>P\<rceil>"
  have aq: "(of_nat a :: rat) \<le> 65535" by (rule of_nat_u16_le [OF a])
  have P0: "0 \<le> P" by (rule near_nonneg [OF P])
  have p0: "0 \<le> p" "p < P + 1" using P0 ceiling_correct [of P] by (simp_all add: p_def)
  have "P \<le> of_nat a * x * (1 + 16 * ulp)" using near_upper [OF P] by (simp add: algebra_simps)
  then have "p / x \<le> (of_nat a * x * (1 + 16 * ulp) + 1) / x"
    using p0 x by (intro divide_right_mono) auto
  also have "\<dots> = of_nat a * (1 + 16 * ulp) + 1 / x" using x by (simp add: add_divide_distrib)
  finally have px: "p / x \<le> of_nat a * (1 + 16 * ulp) + 1 / x" .
  have "p / x * (1 - 4 * ulp) \<le> Q"
    using near_lower [OF Q] by (simp add: algebra_simps p_def)
  also have "Q \<le> of_int \<lceil>Q\<rceil>" by (rule le_of_int_ceiling)
  also have "\<dots> \<le> of_int 65535" using q by (simp only: of_int_le_iff)
  finally have "p / x * ulp * 8 \<le> 1 / 8" by (simp add: ulp_def)
  moreover have "Q \<le> p / x + p / x * ulp * 8" using near_upper [OF Q] by (simp add: p_def mult_ac)
  ultimately have Q1: "Q \<le> p / x + 1 / 8" by linarith
  have "(of_nat a :: rat) * (16 * ulp) \<le> 1 / 8" using aq by (simp add: ulp_def)
  then have "of_nat a * (1 + 16 * ulp) \<le> of_nat a + (1 / 8 :: rat)" by (simp add: algebra_simps)
  moreover have "of_int \<lceil>Q\<rceil> < Q + 1" by linarith
  ultimately show ?thesis using px Q1 by linarith
qed

section \<open>Both converters\<close>

definition uc_ok :: "unit_converter \<Rightarrow> bool" where
  "uc_ok c \<longleftrightarrow> 0 < uc_frame_ms c \<and> uc_frame_inv c = inv32 (uc_frame_ms c)
     \<and> 0 < uc_len c \<and> uc_len_inv c = inv32 (uc_len c)
     \<and> (case uc_kind c of
          FixedBitLength \<Rightarrow> unat (uc_len c) * 65535 < 2 ^ 32
        | FixedSymbolLength \<Rightarrow> 0 < uc_eff c \<and> uc_eff_inv c = inv32 (uc_eff c)
            \<and> unat (uc_len c) * unat (uc_eff c) * 65535 < 2 ^ 32)"

text \<open>The bits of a packet.\<close>

definition packet_bits :: "unit_converter \<Rightarrow> nat" where
  "packet_bits c =
     (case uc_kind c of FixedBitLength \<Rightarrow> unat (uc_len c)
      | FixedSymbolLength \<Rightarrow> unat (uc_len c) * unat (uc_eff c))"

lemma uc_ok_packet_bits: "uc_ok c \<Longrightarrow> 0 < packet_bits c \<and> packet_bits c * 65535 < 2 ^ 32"
  by (auto simp: uc_ok_def packet_bits_def unat_gt_0 word_gt_0 split: uc_kind.splits)

lemma unat_u32_mult: "unat v * unat w < 2 ^ 32 \<Longrightarrow> unat (v * w :: u32) = unat v * unat w"
  using unat_mult_lem [of v w] by simp

lemma unat_ucast_u16_u32 [simp]: "unat (ucast (w :: u16) :: u32) = unat w"
  using unat_u16_less [of w] by (simp add: unsigned_ucast_eq take_bit_nat_eq_self)

lemma rat_of_word_ucast [simp]: "rat_of_word (ucast (w :: u16) :: u32) = rat_of_word w"
proof -
  have "unat (ucast w :: u32) = unat w" 
    using unat_u16_less [of w] by (simp add: unsigned_ucast_eq take_bit_nat_eq_self)
  then show ?thesis by (simp only: rat_of_word_def)
qed

text \<open>The conversions as one rounded expression.\<close>

lemma near_word16 [near_intros]: "near 0 (rat_of_word w) (rat_of_word w)"
  by (rule near_refl) simp

definition frame_rat :: "unit_converter \<Rightarrow> rat" where
  "frame_rat c = rat_of_word (uc_frame_ms c)"

definition bits_rat :: "unit_converter \<Rightarrow> rat" where
  "bits_rat c = of_nat (packet_bits c)"

lemma uc_ok_pos: "uc_ok c \<Longrightarrow> 0 < frame_rat c \<and> 0 < bits_rat c"
  using uc_ok_packet_bits [of c] by (auto simp: uc_ok_def frame_rat_def bits_rat_def rat_of_word_pos)

lemma near_congI: "near m x y \<Longrightarrow> m \<le> n \<Longrightarrow> y = z \<Longrightarrow> near n x z"
  using near_weaken by blast

lemma kbpsToPktpf_near:
  assumes "uc_ok c"
  obtains P where "uc_kbpsToPktpf c k = ceil_uint P"
    "near 8 P (of_nat (unat k) * (frame_rat c / bits_rat c))"
proof (cases "uc_kind c")
  case FixedBitLength
  let ?P = "f32 (f32 (rat_of_word k * uc_len_inv c) * f32 (rat_of_word (uc_frame_ms c)))"
  have len: "0 < uc_len c" "uc_len_inv c = inv32 (uc_len c)" using assms by (auto simp: uc_ok_def)
  have "near (Suc (Suc (0 + 2) + Suc 0)) ?P
      (rat_of_word k * (1 / rat_of_word (uc_len c)) * rat_of_word (uc_frame_ms c))"
    unfolding len(2) by (intro near_intros len(1))
  then have "near 8 ?P (of_nat (unat k) * (frame_rat c / bits_rat c))"
    by (rule near_congI)
      (simp_all add: frame_rat_def bits_rat_def packet_bits_def FixedBitLength rat_of_word_def)
  then show ?thesis by (rule that [rotated]) (simp add: uc_kbpsToPktpf_def FixedBitLength bit_kbpsToPktpf_def)
next
  case FixedSymbolLength
  let ?P = "f32 (f32 (f32 (rat_of_word k * uc_len_inv c) * uc_eff_inv c) * f32 (rat_of_word (uc_frame_ms c)))"
  have len: "0 < uc_len c" "0 < uc_eff c" "uc_len_inv c = inv32 (uc_len c)" "uc_eff_inv c = inv32 (uc_eff c)"
    using assms FixedSymbolLength by (auto simp: uc_ok_def)
  have "near (Suc (Suc (Suc (0 + 2) + 2) + Suc 0)) ?P
      (rat_of_word k * (1 / rat_of_word (uc_len c)) * (1 / rat_of_word (uc_eff c)) * rat_of_word (uc_frame_ms c))"
    unfolding len(3,4) by (intro near_intros len(1,2))
  then have "near 8 ?P (of_nat (unat k) * (frame_rat c / bits_rat c))"
    by (rule near_congI)
      (simp_all add: frame_rat_def bits_rat_def packet_bits_def FixedSymbolLength rat_of_word_def)
  then show ?thesis by (rule that [rotated]) (simp add: uc_kbpsToPktpf_def FixedSymbolLength sym_kbpsToPktpf_def)
qed

lemma u16_times_bound:
  assumes "n * 65535 < (2 :: nat) ^ 32"
  shows "unat (p :: u16) * n < 2 ^ 32"
proof -
  have "unat p * n \<le> 65535 * n" using unat_u16_less [of p] by (intro mult_right_mono) auto
  also have "\<dots> = n * 65535" by (rule mult.commute)
  also note assms
  finally show ?thesis .
qed

text \<open>The bits of \<open>p\<close> packets, as both classes compute them.\<close>

lemma packets_bits:
  assumes "uc_ok c"
  shows "uc_kind c = FixedBitLength \<Longrightarrow> rat_of_word (ucast p * uc_len c) = of_nat (unat (p :: u16)) * bits_rat c"
    and "uc_kind c = FixedSymbolLength
      \<Longrightarrow> rat_of_word (ucast p * uc_len c * uc_eff c) = of_nat (unat p) * bits_rat c"
proof -
  assume k: "uc_kind c = FixedBitLength"
  then have "unat p * unat (uc_len c) < 2 ^ 32" using assms by (intro u16_times_bound) (simp add: uc_ok_def)
  then have "unat (ucast p * uc_len c) = unat p * packet_bits c"
    by (simp add: unat_u32_mult packet_bits_def k)
  then show "rat_of_word (ucast p * uc_len c) = of_nat (unat p) * bits_rat c"
    by (simp only: rat_of_word_def bits_rat_def of_nat_mult)
next
  assume k: "uc_kind c = FixedSymbolLength"
  have b: "unat p * (unat (uc_len c) * unat (uc_eff c)) < 2 ^ 32"
    using assms k by (intro u16_times_bound) (simp add: uc_ok_def)
  have e: "1 \<le> unat (uc_eff c)" using assms k by (simp add: uc_ok_def word_less_nat_alt)
  have "unat p * unat (uc_len c) * 1 \<le> unat p * unat (uc_len c) * unat (uc_eff c)"
    using e by (rule mult_left_mono) simp
  then have "unat p * unat (uc_len c) < 2 ^ 32" using b by (simp only: mult_1_right mult.assoc)
  then have "unat (ucast p * uc_len c) = unat p * unat (uc_len c)" by (simp add: unat_u32_mult)
  with b have "unat (ucast p * uc_len c * uc_eff c) = unat p * packet_bits c"
    by (simp add: unat_u32_mult [of "ucast p * uc_len c" "uc_eff c"] packet_bits_def k mult.assoc [of "unat p"])
  then show "rat_of_word (ucast p * uc_len c * uc_eff c) = of_nat (unat p) * bits_rat c"
    by (simp only: rat_of_word_def bits_rat_def of_nat_mult)
qed

definition kbps_expr :: "unit_converter \<Rightarrow> u16 \<Rightarrow> rat" where
  "kbps_expr c p = f32 (f32 (of_nat (unat p) * bits_rat c) * uc_frame_inv c)"

definition kbits_expr :: "unit_converter \<Rightarrow> u16 \<Rightarrow> rat" where
  "kbits_expr c p = f64 (of_nat (unat p) * bits_rat c / 1000)"

lemma pktpfToKbps_expr: "uc_ok c \<Longrightarrow> uc_pktpfToKbps c p = ceil_uint (kbps_expr c p)"
  by (cases "uc_kind c")
    (simp_all add: uc_pktpfToKbps_def bit_pktpfToKbps_def sym_pktpfToKbps_def packets_bits kbps_expr_def)

lemma pktToKbits_expr: "uc_ok c \<Longrightarrow> uc_pktToKbits c p = ceil_uint (kbits_expr c p)"
  by (cases "uc_kind c")
    (simp_all add: uc_pktToKbits_def bit_pktToKbits_def sym_pktToKbits_def packets_bits kbits_expr_def)

lemma kbps_expr_near:
  assumes "uc_ok c"
  shows "near 4 (kbps_expr c p) (of_nat (unat p) / (frame_rat c / bits_rat c))"
proof -
  have f: "0 < uc_frame_ms c" "uc_frame_inv c = inv32 (uc_frame_ms c)" using assms by (auto simp: uc_ok_def)
  have "near (Suc (Suc 0 + 2)) (kbps_expr c p)
      (of_nat (unat p) * bits_rat c * (1 / rat_of_word (uc_frame_ms c)))"
    unfolding kbps_expr_def f(2) using f(1)
    by (intro near_intros) (simp_all add: bits_rat_def del: of_nat_unat)
  then show ?thesis by (rule near_congI) (simp_all add: frame_rat_def del: of_nat_unat)
qed

lemma kbits_expr_near:
  assumes "uc_ok c"
  shows "near 4 (kbits_expr c p) (of_nat (unat p) / (1000 / bits_rat c))"
proof -
  have "near (Suc 0) (kbits_expr c p) (of_nat (unat p) * bits_rat c / 1000)"
    unfolding kbits_expr_def by (intro near_intros) (simp_all add: bits_rat_def del: of_nat_unat)
  then show ?thesis by (rule near_congI) (simp_all del: of_nat_unat)
qed

lemma kbitsToPkt_near:
  assumes "uc_ok c"
  obtains P where "uc_kbitsToPkt c k = ceil_uint P" "near 8 P (of_nat (unat k) * (1000 / bits_rat c))"
proof (cases "uc_kind c")
  case FixedBitLength
  let ?P = "f32 (f32 (rat_of_word k * uc_len_inv c) * 1000)"
  have len: "0 < uc_len c" "uc_len_inv c = inv32 (uc_len c)" using assms by (auto simp: uc_ok_def)
  have "near (Suc (Suc (0 + 2) + 0)) ?P (rat_of_word k * (1 / rat_of_word (uc_len c)) * 1000)"
    unfolding len(2) by (intro near_intros len(1)) simp
  then have "near 8 ?P (of_nat (unat k) * (1000 / bits_rat c))"
    by (rule near_congI) (simp_all add: bits_rat_def packet_bits_def FixedBitLength rat_of_word_def)
  then show ?thesis by (rule that [rotated]) (simp add: uc_kbitsToPkt_def FixedBitLength bit_kbitsToPkt_def)
next
  case FixedSymbolLength
  let ?P = "f32 (f32 (f32 (rat_of_word k * uc_len_inv c) * uc_eff_inv c) * 1000)"
  have len: "0 < uc_len c" "0 < uc_eff c" "uc_len_inv c = inv32 (uc_len c)" "uc_eff_inv c = inv32 (uc_eff c)"
    using assms FixedSymbolLength by (auto simp: uc_ok_def)
  have "near (Suc (Suc (Suc (0 + 2) + 2) + 0)) ?P
      (rat_of_word k * (1 / rat_of_word (uc_len c)) * (1 / rat_of_word (uc_eff c)) * 1000)"
    unfolding len(3,4) by (intro near_intros len(1,2)) simp
  then have "near 8 ?P (of_nat (unat k) * (1000 / bits_rat c))"
    by (rule near_congI) (simp_all add: bits_rat_def packet_bits_def FixedSymbolLength rat_of_word_def)
  then show ?thesis by (rule that [rotated]) (simp add: uc_kbitsToPkt_def FixedSymbolLength sym_kbitsToPkt_def)
qed

section \<open>The contract holds\<close>

lemma u16_le_from_ceil:
  assumes "int (unat (a :: u16)) \<le> \<lceil>Q\<rceil>" "\<lceil>Q\<rceil> = int (unat (b :: u16))"
  shows "a \<le> b"
  using assms by (simp add: word_le_nat_alt del: of_nat_unat)

lemma ceil_uint_down:
  assumes "ceil_uint y = Inr (k :: u16)" "0 \<le> x" "x \<le> y"
  shows "\<exists>k' :: u16. ceil_uint x = Inr k' \<and> k' \<le> k"
proof -
  have y: "\<lceil>y\<rceil> = int (unat k)" using assms(1) by (simp only: ceil_uint_Inr)
  have "\<lceil>x\<rceil> \<le> \<lceil>y\<rceil>" "0 \<le> \<lceil>x\<rceil>" using assms by (auto intro: ceiling_mono)
  moreover have "unat k < 65536" by (rule unat_u16_less)
  ultimately have "0 \<le> \<lceil>x\<rceil>" "\<lceil>x\<rceil> < 65536" using y by linarith+
  then have "0 \<le> \<lceil>x\<rceil>" "\<lceil>x\<rceil> < 2 ^ LENGTH(16)" by simp_all
  then obtain k' :: u16 where k': "to_uint (of_int \<lceil>x\<rceil>) = Inr k'" "int (unat k') = \<lceil>x\<rceil>"
    using to_uint_ex [of "\<lceil>x\<rceil>", where 'a = 16] by blast
  have "unat k' \<le> unat k" using k'(2) y \<open>\<lceil>x\<rceil> \<le> \<lceil>y\<rceil>\<close> by linarith
  with k' show ?thesis by (auto simp: word_le_nat_alt)
qed

lemma f32_mono: "0 \<le> x \<Longrightarrow> x \<le> y \<Longrightarrow> f32 x \<le> f32 y"
  by (simp add: f32_def rnd_mono)

lemma f64_mono: "0 \<le> x \<Longrightarrow> x \<le> y \<Longrightarrow> f64 x \<le> f64 y"
  by (simp add: f64_def rnd_mono)

lemma f32_nonneg [simp]: "0 \<le> x \<Longrightarrow> 0 \<le> f32 x"
  by (simp add: f32_def rnd_nonneg)

lemma f64_nonneg [simp]: "0 \<le> x \<Longrightarrow> 0 \<le> f64 x"
  by (simp add: f64_def rnd_nonneg)

lemma packets_mono: "m \<le> (n :: u16) \<Longrightarrow> of_nat (unat m) * bits_rat c \<le> of_nat (unat n) * bits_rat c"
  by (intro mult_right_mono) (simp_all add: word_le_nat_alt bits_rat_def del: of_nat_unat)

lemma packets_nonneg: "0 \<le> of_nat (unat (m :: u16)) * bits_rat c"
  by (simp add: bits_rat_def del: of_nat_unat)

lemma kbps_expr_mono:
  assumes "uc_ok c" "m \<le> n"
  shows "0 \<le> kbps_expr c m" "kbps_expr c m \<le> kbps_expr c n"
proof -
  have f: "0 \<le> uc_frame_inv c" using assms(1) by (simp add: uc_ok_def)
  show "0 \<le> kbps_expr c m" unfolding kbps_expr_def by (intro f32_nonneg mult_nonneg_nonneg f packets_nonneg)
  show "kbps_expr c m \<le> kbps_expr c n" unfolding kbps_expr_def
    by (intro f32_mono mult_right_mono mult_nonneg_nonneg f32_nonneg f packets_nonneg packets_mono assms(2))
qed

lemma kbits_expr_mono:
  assumes "m \<le> n"
  shows "0 \<le> kbits_expr c m" "kbits_expr c m \<le> kbits_expr c n"
proof -
  show "0 \<le> kbits_expr c m" unfolding kbits_expr_def
    by (intro f64_nonneg divide_nonneg_nonneg packets_nonneg) simp
  show "kbits_expr c m \<le> kbits_expr c n" unfolding kbits_expr_def
    by (intro f64_mono divide_right_mono divide_nonneg_nonneg packets_nonneg packets_mono assms) simp_all
qed

lemma rate_no_loss:
  assumes "uc_ok c" "uc_kbpsToPktpf c k = Inr p" "uc_pktpfToKbps c p = Inr k'"
  shows "k \<le> k'"
proof -
  obtain P where P: "uc_kbpsToPktpf c k = ceil_uint P" "near 8 P (of_nat (unat k) * (frame_rat c / bits_rat c))"
    by (rule kbpsToPktpf_near [OF assms(1)])
  have p: "\<lceil>P\<rceil> = int (unat p)" using assms(2) P(1) by (simp only: ceil_uint_Inr)
  have q: "\<lceil>kbps_expr c p\<rceil> = int (unat k')"
    using assms(3) by (simp only: pktpfToKbps_expr [OF assms(1)] ceil_uint_Inr)
  have "near 4 (kbps_expr c p) (of_int \<lceil>P\<rceil> / (frame_rat c / bits_rat c))"
    using kbps_expr_near [OF assms(1), of p] by (simp only: p of_int_of_nat_eq)
  then have "int (unat k) \<le> \<lceil>kbps_expr c p\<rceil>"
    using uc_ok_pos [OF assms(1)] by (intro ceil_round_trip [OF P(2)]) (simp_all add: unat_u16_less)
  then show ?thesis by (rule u16_le_from_ceil) (rule q)
qed

lemma volume_no_loss:
  assumes "uc_ok c" "uc_kbitsToPkt c k = Inr p" "uc_pktToKbits c p = Inr k'"
  shows "k \<le> k'"
proof -
  obtain P where P: "uc_kbitsToPkt c k = ceil_uint P" "near 8 P (of_nat (unat k) * (1000 / bits_rat c))"
    by (rule kbitsToPkt_near [OF assms(1)])
  have p: "\<lceil>P\<rceil> = int (unat p)" using assms(2) P(1) by (simp only: ceil_uint_Inr)
  have q: "\<lceil>kbits_expr c p\<rceil> = int (unat k')"
    using assms(3) by (simp only: pktToKbits_expr [OF assms(1)] ceil_uint_Inr)
  have "near 4 (kbits_expr c p) (of_int \<lceil>P\<rceil> / (1000 / bits_rat c))"
    using kbits_expr_near [OF assms(1), of p] by (simp only: p of_int_of_nat_eq)
  then have "int (unat k) \<le> \<lceil>kbits_expr c p\<rceil>"
    using uc_ok_pos [OF assms(1)] by (intro ceil_round_trip [OF P(2)]) (simp_all add: unat_u16_less)
  then show ?thesis by (rule u16_le_from_ceil) (rule q)
qed

interpretation rate_pkt: packet_converter uc_kbpsToPktpf uc_pktpfToKbps uc_ok
proof
  fix c n k m
  assume c: "uc_ok c" and k: "uc_pktpfToKbps c n = Inr k" and m: "m \<le> n"
  show "\<exists>k'. uc_pktpfToKbps c m = Inr k' \<and> k' \<le> k"
    using k kbps_expr_mono [OF c m] unfolding pktpfToKbps_expr [OF c] by (rule ceil_uint_down)
qed (rule rate_no_loss)

interpretation vol_pkt: packet_converter uc_kbitsToPkt uc_pktToKbits uc_ok
proof
  fix c n k m
  assume c: "uc_ok c" and k: "uc_pktToKbits c n = Inr k" and m: "m \<le> n"
  show "\<exists>k'. uc_pktToKbits c m = Inr k' \<and> k' \<le> k"
    using k kbits_expr_mono [OF m] unfolding pktToKbits_expr [OF c] by (rule ceil_uint_down)
qed (rule volume_no_loss)

text \<open>C34: A rate converted to packets per frame and back (\<open>kbpsToPktpf\<close>, then \<open>pktpfToKbps\<close>) is never
  less than it was, for both kinds of packet, although the lengths are inverted in single precision:
  a constant allocation is never rounded below the rate the terminal subscribed to. It exceeds it by
  less than one packet per frame and 2 kb/s.\<close>

theorem rate_round_trip:
  assumes "uc_ok c" "uc_kbpsToPktpf c k = Inr p" "uc_pktpfToKbps c p = Inr k'"
  shows "k \<le> k' \<and>
    rat_of_word k' < rat_of_word k + of_nat (packet_bits c) / rat_of_word (uc_frame_ms c) + 2"
proof
  show "k \<le> k'" by (rule rate_pkt.no_loss [OF assms])
  obtain P where P: "uc_kbpsToPktpf c k = ceil_uint P" "near 8 P (of_nat (unat k) * (frame_rat c / bits_rat c))"
    by (rule kbpsToPktpf_near [OF assms(1)])
  have p: "\<lceil>P\<rceil> = int (unat p)" using assms(2) P(1) by (simp only: ceil_uint_Inr)
  have q: "\<lceil>kbps_expr c p\<rceil> = int (unat k')"
    using assms(3) by (simp only: pktpfToKbps_expr [OF assms(1)] ceil_uint_Inr)
  have "near 4 (kbps_expr c p) (of_int \<lceil>P\<rceil> / (frame_rat c / bits_rat c))"
    using kbps_expr_near [OF assms(1), of p] by (simp only: p of_int_of_nat_eq)
  moreover have "\<lceil>kbps_expr c p\<rceil> < 65536" using unat_u16_less [of k'] q by linarith
  ultimately have "of_int \<lceil>kbps_expr c p\<rceil> < of_nat (unat k) + 1 / (frame_rat c / bits_rat c) + 2"
    using uc_ok_pos [OF assms(1)] by (intro ceil_round_trip_upper [OF P(2)]) (simp_all add: unat_u16_less)
  then show "rat_of_word k' < rat_of_word k + of_nat (packet_bits c) / rat_of_word (uc_frame_ms c) + 2"
    by (simp only: q of_int_of_nat_eq rat_of_word_def frame_rat_def bits_rat_def) simp
qed

text \<open>Cells of 53 bytes in frames of 53 ms: 100 kb/s are 13 cells per frame, that is 104 kb/s.\<close>

definition cell_converter :: unit_converter where
  "cell_converter = new_bit_converter 53 2 424"

lemma cell_converter_ok: "uc_ok cell_converter"
  by (simp add: uc_ok_def cell_converter_def new_bit_converter_def)

lemma cell_converter_values:
  "uc_kbpsToPktpf cell_converter 100 = Inr 13" "uc_pktpfToKbps cell_converter 13 = Inr 104"
  by code_simp+

lemma rate_round_trip_witness:
  "(100 :: u16) \<le> 104 \<and> rat_of_word (104 :: u16)
     < rat_of_word (100 :: u16) + of_nat (packet_bits cell_converter) / rat_of_word (uc_frame_ms cell_converter) + 2"
  by (rule rate_round_trip [OF cell_converter_ok cell_converter_values])

end
