(* ===== verification/FmtTable.thy ===== *)
theory FmtTable
  imports UnitConverter StdMap
begin

text \<open>
  MODCODs: \<open>dvb/fmt/ModulationTypes.cpp\<close>, \<open>CodingTypes.cpp\<close>, \<open>FmtDefinition.cpp\<close>,
  \<open>FmtDefinitionTable.cpp\<close>, \<open>StFmtSimu.cpp\<close> and \<open>dvb/utils/FmtGroup.cpp\<close>. The table is the
  \<open>std::map\<close> of the definitions; the parsing of its file is not modelled, its entries are built with
  the constructors of \<open>FmtDefinition\<close>. A MODCOD identifier is a \<open>uint8_t\<close>.
\<close>

type_synonym fmt_id_t = u8

section \<open>Modulations and codings\<close>

definition modulation_efficiencies :: "(string \<times> u32) list" where
  "modulation_efficiencies = [(''BPSK'', 1), (''Pi/2BPSK'', 1), (''QPSK'', 2), (''8PSK'', 3),
     (''16APSK'', 4), (''16QAM'', 4), (''32APSK'', 5)]"

definition modulation_getEfficiency :: "string \<Rightarrow> u32" where
  "modulation_getEfficiency l =
     (case map_of modulation_efficiencies l of None \<Rightarrow> 1 | Some e \<Rightarrow> e)"

text \<open>A rate is a double quotient stored in a \<open>float\<close>.\<close>

definition coding_rates :: "(string \<times> rat) list" where
  "coding_rates = map (\<lambda>(l, r). (l, f32 (f64 r)))
     [(''1/4'', 1 / 4), (''1/3'', 1 / 3), (''2/5'', 2 / 5), (''1/2'', 1 / 2), (''3/5'', 3 / 5),
      (''2/3'', 2 / 3), (''3/4'', 3 / 4), (''4/5'', 4 / 5), (''5/6'', 5 / 6), (''6/7'', 6 / 7),
      (''8/9'', 8 / 9), (''9/10'', 9 / 10)]"

definition coding_getRate :: "string \<Rightarrow> rat" where
  "coding_getRate l = (case map_of coding_rates l of None \<Rightarrow> 1 | Some r \<Rightarrow> r)"

section \<open>A MODCOD\<close>

record fmt_def =
  fd_id :: u32
  fd_modulation :: string
  fd_coding :: string
  fd_eff :: u32
  fd_rate :: rat
  fd_spectral :: rat
  fd_esn0 :: rat
  fd_has_burst :: bool
  fd_burst :: vol_sym_t

definition new_fmt_def :: "u32 \<Rightarrow> string \<Rightarrow> string \<Rightarrow> rat \<Rightarrow> rat \<Rightarrow> vol_sym_t option \<Rightarrow> fmt_def" where
  "new_fmt_def i m k se es burst =
     \<lparr>fd_id = i, fd_modulation = m, fd_coding = k, fd_eff = modulation_getEfficiency m,
      fd_rate = coding_getRate k, fd_spectral = se, fd_esn0 = es, fd_has_burst = burst \<noteq> None,
      fd_burst = (case burst of None \<Rightarrow> 0 | Some b \<Rightarrow> b)\<rparr>"

text \<open>\<open>symToKbits\<close>: three double operations.\<close>

definition fd_symToKbits :: "fmt_def \<Rightarrow> vol_sym_t \<Rightarrow> vol_kb_t res" where
  "fd_symToKbits d v =
     ceil_uint (f64 (f64 (f64 (rat_of_word v / 1000) * rat_of_word (fd_eff d)) * fd_rate d))"

text \<open>
  \<open>kbitsToSym\<close> reads the members \<open>modulation_efficiency_inv\<close> and \<open>coding_rate_inv\<close>, which no
  constructor sets: their values are arguments.
\<close>

definition fd_kbitsToSym :: "rat \<Rightarrow> rat \<Rightarrow> fmt_def \<Rightarrow> vol_kb_t \<Rightarrow> vol_sym_t res" where
  "fd_kbitsToSym eff_inv rate_inv d v =
     ceil_uint (f32 (f32 (f32 (rat_of_word v * 1000) * eff_inv) * rate_inv))"

definition fd_addFec :: "fmt_def \<Rightarrow> u32 \<Rightarrow> u32 res" where
  "fd_addFec d n = floor_uint (f64 (rat_of_word n / fd_rate d))"

definition fd_removeFec :: "fmt_def \<Rightarrow> u32 \<Rightarrow> u32 res" where
  "fd_removeFec d n = ceil_uint (f32 (f32 (rat_of_word n) * fd_rate d))"

section \<open>The table\<close>

type_synonym fmt_table = "(fmt_id_t, fmt_def) omap"

definition ft_doFmtIdExist :: "fmt_table \<Rightarrow> fmt_id_t \<Rightarrow> bool" where
  "ft_doFmtIdExist tb i = (om_find tb i \<noteq> None)"

definition ft_add :: "fmt_def \<Rightarrow> fmt_table \<Rightarrow> bool \<times> fmt_table" where
  "ft_add d tb =
     (if ft_doFmtIdExist tb (ucast (fd_id d)) then (False, tb) else (True, om_put (ucast (fd_id d)) d tb))"

definition ft_getDefinition :: "fmt_table \<Rightarrow> fmt_id_t \<Rightarrow> fmt_def option" where
  "ft_getDefinition tb i = om_find tb i"

definition ft_getModulationEfficiency :: "fmt_table \<Rightarrow> fmt_id_t \<Rightarrow> u32" where
  "ft_getModulationEfficiency tb i = (case ft_getDefinition tb i of None \<Rightarrow> 1 | Some d \<Rightarrow> fd_eff d)"

definition ft_getCodingRate :: "fmt_table \<Rightarrow> fmt_id_t \<Rightarrow> rat" where
  "ft_getCodingRate tb i = (case ft_getDefinition tb i of None \<Rightarrow> 1 | Some d \<Rightarrow> fd_rate d)"

definition ft_getSpectralEfficiency :: "fmt_table \<Rightarrow> fmt_id_t \<Rightarrow> rat" where
  "ft_getSpectralEfficiency tb i = (case ft_getDefinition tb i of None \<Rightarrow> 0 | Some d \<Rightarrow> fd_spectral d)"

definition ft_getRequiredEsN0 :: "fmt_table \<Rightarrow> fmt_id_t \<Rightarrow> rat" where
  "ft_getRequiredEsN0 tb i = (case ft_getDefinition tb i of None \<Rightarrow> 0 | Some d \<Rightarrow> fd_esn0 d)"

definition ft_hasBurstLength :: "fmt_table \<Rightarrow> fmt_id_t \<Rightarrow> bool" where
  "ft_hasBurstLength tb i = (case ft_getDefinition tb i of None \<Rightarrow> False | Some d \<Rightarrow> fd_has_burst d)"

definition ft_getBurstLength :: "fmt_table \<Rightarrow> fmt_id_t \<Rightarrow> vol_sym_t" where
  "ft_getBurstLength tb i = (case ft_getDefinition tb i of None \<Rightarrow> 0 | Some d \<Rightarrow> fd_burst d)"

fun id_fold :: "(fmt_id_t \<Rightarrow> fmt_id_t \<Rightarrow> bool) \<Rightarrow> fmt_id_t \<Rightarrow> fmt_table \<Rightarrow> fmt_id_t" where
  "id_fold better i [] = i"
| "id_fold better i ((j, d) # tb) = id_fold better (if better j i then j else i) tb"

definition ft_getMinId :: "fmt_table \<Rightarrow> fmt_id_t" where
  "ft_getMinId tb = (case tb of [] \<Rightarrow> 0 | (i, d) # tb' \<Rightarrow> id_fold (<) i tb')"

definition ft_getMaxId :: "fmt_table \<Rightarrow> fmt_id_t" where
  "ft_getMaxId tb = (case tb of [] \<Rightarrow> 0 | (i, d) # tb' \<Rightarrow> id_fold (>) i tb')"

text \<open>The loop of \<open>getRequiredModcod\<close> over the definitions; \<open>prev\<close> is \<open>previous_cni\<close>.\<close>

fun best_modcod :: "rat \<Rightarrow> fmt_id_t \<Rightarrow> rat \<Rightarrow> fmt_table \<Rightarrow> fmt_id_t" where
  "best_modcod cni i prev [] = i"
| "best_modcod cni i prev ((j, d) # tb) =
     (if cni < fd_esn0 d then best_modcod cni i prev tb
      else if prev \<le> fd_esn0 d then best_modcod cni j (fd_esn0 d) tb
      else best_modcod cni i prev tb)"

definition ft_getRequiredModcod :: "fmt_table \<Rightarrow> rat \<Rightarrow> fmt_id_t" where
  "ft_getRequiredModcod tb cni =
     (let i = best_modcod cni 0 (case tb of [] \<Rightarrow> 0 | (j, d) # tb' \<Rightarrow> fd_esn0 d) tb
      in if i = 0 then ft_getMinId tb else i)"

definition ft_symToKbits :: "fmt_table \<Rightarrow> fmt_id_t \<Rightarrow> vol_sym_t \<Rightarrow> vol_kb_t res" where
  "ft_symToKbits tb i v = (case ft_getDefinition tb i of None \<Rightarrow> Inr 0 | Some d \<Rightarrow> fd_symToKbits d v)"

section \<open>Groups of MODCODs\<close>

text \<open>\<open>tokenize\<close> of \<open>OpenSandCore.h\<close>.\<close>

function tokenize :: "string \<Rightarrow> string \<Rightarrow> string list" where
  "tokenize ds s =
     (case dropWhile (\<lambda>x. x \<in> set ds) s of
        [] \<Rightarrow> []
      | x # r \<Rightarrow> (x # takeWhile (\<lambda>y. y \<notin> set ds) r) # tokenize ds (dropWhile (\<lambda>y. y \<notin> set ds) r))"
  by auto
termination
proof (relation "measure (\<lambda>(ds, s). length s)")
  fix ds s :: string and x r
  assume "dropWhile (\<lambda>x. x \<in> set ds) s = x # r"
  then have "length r < length s" using length_dropWhile_le [of "\<lambda>x. x \<in> set ds" s] by simp
  then show "((ds, dropWhile (\<lambda>y. y \<notin> set ds) r), ds, s) \<in> measure (\<lambda>(ds, s). length s)"
    using length_dropWhile_le [of "\<lambda>y. y \<notin> set ds" r] by simp
qed simp

declare tokenize.simps [simp del]

text \<open>\<open>stringstream >> unsigned int\<close>: leading space, a sign \<open>+\<close>, decimal digits; it fails on none or
  on more than 32 bits. A token has no \<open>-\<close>.\<close>

definition char_code :: "char \<Rightarrow> nat" where "char_code c = of_char c"

definition is_space :: "char \<Rightarrow> bool" where
  "is_space c = (let n = char_code c in n = 32 \<or> 9 \<le> n \<and> n \<le> 13)"

definition is_digit :: "char \<Rightarrow> bool" where
  "is_digit c = (let n = char_code c in 48 \<le> n \<and> n \<le> 57)"

definition read_unsigned :: "string \<Rightarrow> nat option" where
  "read_unsigned s =
     (let t = dropWhile is_space s;
          u = (case t of c # cs \<Rightarrow> if char_code c = 43 then cs else t | [] \<Rightarrow> []);
          ds = takeWhile is_digit u;
          n = foldl (\<lambda>n c. 10 * n + (char_code c - 48)) 0 ds
      in if ds = [] \<or> 2 ^ 32 \<le> n then None else Some n)"

text \<open>A \<open>FmtId\<close>: the identifier and its Es/N0 as a \<open>float\<close>.\<close>

type_synonym fmt_ids = "(fmt_id_t \<times> rat) list"

definition fg_try_add :: "fmt_table \<Rightarrow> fmt_id_t \<Rightarrow> fmt_ids \<Rightarrow> fmt_ids option" where
  "fg_try_add tb v ids =
     (if v \<in> fst ` set ids then Some ids
      else if ft_getRequiredEsN0 tb v = 0 then None
      else Some (ids @ [(v, f32 (ft_getRequiredEsN0 tb v))]))"

text \<open>The values between two identifiers; the bounds are computed in \<open>int\<close> and stored in a \<open>uint8_t\<close>.\<close>

definition fg_fill :: "fmt_table \<Rightarrow> fmt_id_t \<Rightarrow> fmt_id_t \<Rightarrow> fmt_ids \<Rightarrow> fmt_ids" where
  "fg_fill tb prev v ids =
     fold (\<lambda>i ids. case fg_try_add tb (of_nat i) ids of None \<Rightarrow> ids | Some ids' \<Rightarrow> ids')
       [min (unat prev + 1) (unat v + 1) mod 256 ..< max (unat prev) (unat v)] ids"

fun fg_parse_range :: "fmt_table \<Rightarrow> string list \<Rightarrow> fmt_id_t \<Rightarrow> fmt_ids \<Rightarrow> fmt_ids" where
  "fg_parse_range tb [] prev ids = ids"
| "fg_parse_range tb (t # ts) prev ids =
     (case read_unsigned t of
        None \<Rightarrow> fg_parse_range tb ts prev ids
      | Some n \<Rightarrow>
          (case fg_try_add tb (of_nat n) ids of
             None \<Rightarrow> fg_parse_range tb ts prev ids
           | Some ids1 \<Rightarrow>
               if prev = 0 then fg_parse_range tb ts (of_nat n) ids1
               else fg_parse_range tb ts (of_nat n) (fg_fill tb prev (of_nat n) ids1)))"

definition fg_parse :: "fmt_table \<Rightarrow> string \<Rightarrow> fmt_ids" where
  "fg_parse tb s =
     sort_key snd (fold (\<lambda>t ids. fg_parse_range tb (tokenize ''-'' t) 0 ids) (tokenize '';'' s) [])"

definition fg_getFmtIds :: "fmt_ids \<Rightarrow> fmt_id_t list" where
  "fg_getFmtIds ids = map fst ids"

definition fg_getMaxFmtId :: "fmt_ids \<Rightarrow> fmt_id_t res" where
  "fg_getMaxFmtId ids = (if ids = [] then Inl EndDeref else Inr (fst (last ids)))"

definition fg_getNearest :: "fmt_table \<Rightarrow> fmt_ids \<Rightarrow> fmt_id_t \<Rightarrow> fmt_id_t" where
  "fg_getNearest tb ids i =
     (let es = ft_getRequiredEsN0 tb i
      in if es = 0 then 0
         else case find (\<lambda>(j, e). e \<le> f32 es) (rev ids) of None \<Rightarrow> 0 | Some (j, e) \<Rightarrow> j)"

section \<open>The MODCOD of each terminal\<close>

record st_fmt =
  sf_id :: tal_id_t
  sf_changed :: bool
  sf_column :: nat
  sf_modcod :: fmt_id_t

text \<open>
  \<open>updateModcodId\<close> and \<open>updateCni\<close> call each other: \<open>updateCni\<close> always calls back with a margin of
  0, which ends the recursion.
\<close>

definition sf_setModcod :: "fmt_id_t \<Rightarrow> st_fmt \<Rightarrow> st_fmt" where
  "sf_setModcod new s = s\<lparr>sf_changed := sf_changed s \<or> new \<noteq> sf_modcod s, sf_modcod := new\<rparr>"

definition sf_updateCni :: "fmt_table \<Rightarrow> rat \<Rightarrow> rat \<Rightarrow> st_fmt \<Rightarrow> st_fmt" where
  "sf_updateCni tb cni margin s =
     sf_setModcod (ft_getRequiredModcod tb (if margin \<noteq> 0 then f64 (cni - margin) else cni)) s"

definition sf_updateModcodId :: "fmt_table \<Rightarrow> fmt_id_t \<Rightarrow> rat \<Rightarrow> st_fmt \<Rightarrow> st_fmt" where
  "sf_updateModcodId tb new margin s =
     (if margin \<noteq> 0 \<and> new < sf_modcod s
      then sf_updateCni tb (ft_getRequiredEsN0 tb (sf_modcod s)) margin s
      else sf_setModcod new s)"

definition sf_getRequiredCni :: "fmt_table \<Rightarrow> st_fmt \<Rightarrow> rat \<times> st_fmt" where
  "sf_getRequiredCni tb s = (ft_getRequiredEsN0 tb (sf_modcod s), s\<lparr>sf_changed := False\<rparr>)"

text \<open>The list also is a set of terminal identifiers, kept beside the map.\<close>

record sts_list =
  ss_sts :: "(tal_id_t, st_fmt) omap"
  ss_ids :: "tal_id_t set"
  ss_margin :: rat

definition ss_isStPresent :: "sts_list \<Rightarrow> tal_id_t \<Rightarrow> bool" where
  "ss_isStPresent l t = (t \<in> ss_ids l)"

definition ss_delTerminal :: "tal_id_t \<Rightarrow> sts_list \<Rightarrow> bool \<times> sts_list" where
  "ss_delTerminal t l =
     (case om_find (ss_sts l) t of
        None \<Rightarrow> (False, l)
      | Some s \<Rightarrow> (True, l\<lparr>ss_sts := om_erase t (ss_sts l), ss_ids := ss_ids l - {t}\<rparr>))"

text \<open>\<open>insert\<close> does nothing when the key is still there.\<close>

definition ss_addTerminal :: "tal_id_t \<Rightarrow> fmt_id_t \<Rightarrow> sts_list \<Rightarrow> bool \<times> sts_list" where
  "ss_addTerminal t i l =
     (let l1 = (if ss_isStPresent l t then snd (ss_delTerminal t l) else l);
          s = \<lparr>sf_id = t, sf_changed = True, sf_column = unat t, sf_modcod = i\<rparr>
      in (True, l1\<lparr>ss_sts := (if om_find (ss_sts l1) t = None then om_put t s (ss_sts l1) else ss_sts l1),
                   ss_ids := insert t (ss_ids l1)\<rparr>))"

definition ss_setRequiredCni :: "fmt_table \<Rightarrow> tal_id_t \<Rightarrow> rat \<Rightarrow> sts_list \<Rightarrow> sts_list" where
  "ss_setRequiredCni tb t cni l =
     (case om_find (ss_sts l) t of
        None \<Rightarrow> l
      | Some s \<Rightarrow> l\<lparr>ss_sts := om_put t (sf_updateCni tb cni (ss_margin l) s) (ss_sts l)\<rparr>)"

definition ss_getRequiredCni :: "fmt_table \<Rightarrow> tal_id_t \<Rightarrow> sts_list \<Rightarrow> rat \<times> sts_list" where
  "ss_getRequiredCni tb t l =
     (case om_find (ss_sts l) t of
        None \<Rightarrow> (0, l)
      | Some s \<Rightarrow> let (cni, s') = sf_getRequiredCni tb s in (cni, l\<lparr>ss_sts := om_put t s' (ss_sts l)\<rparr>))"

definition ss_getCurrentModcodId :: "sts_list \<Rightarrow> tal_id_t \<Rightarrow> fmt_id_t" where
  "ss_getCurrentModcodId l t = (case om_find (ss_sts l) t of None \<Rightarrow> 0 | Some s \<Rightarrow> sf_modcod s)"

definition ss_getCniHasChanged :: "sts_list \<Rightarrow> tal_id_t \<Rightarrow> bool" where
  "ss_getCniHasChanged l t = (case om_find (ss_sts l) t of None \<Rightarrow> False | Some s \<Rightarrow> sf_changed s)"

fun lower_modcod :: "bool \<Rightarrow> fmt_id_t \<Rightarrow> tal_id_t \<Rightarrow> (tal_id_t, st_fmt) omap \<Rightarrow> tal_id_t" where
  "lower_modcod first low t [] = t"
| "lower_modcod first low t ((u, s) # l) =
     (if first \<or> sf_modcod s < low then lower_modcod False (sf_modcod s) u l
      else lower_modcod False low t l)"

definition ss_getTalIdWithLowerModcod :: "sts_list \<Rightarrow> tal_id_t" where
  "ss_getTalIdWithLowerModcod l = lower_modcod True 0 255 (ss_sts l)"

end
