(* ===== verification/FmtCorrect.thy ===== *)
theory FmtCorrect
  imports FmtTable UnitConverterCorrect
begin

text \<open>
  What holds of the MODCOD tables: adding and removing the FEC is a round trip, the MODCOD chosen for
  a carrier is the best the Es/N0 allows, and so is the one chosen for a C/N.
\<close>

section \<open>FEC\<close>

definition coding_mantissas :: "int list" where
  "coding_mantissas = [16777216, 22369622, 26843546, 33554432, 40265320, 44739244, 50331648, 53687092,
     55924052, 57521884, 59652324, 60397976]"

lemma coding_rates_values: "map snd coding_rates = map (\<lambda>m. of_int m / 2 ^ 26) coding_mantissas"
  by code_simp

lemma coding_rate_cases:
  obtains "coding_getRate k = 1"
  | m where "coding_getRate k = of_int m / 2 ^ 26" "16777216 \<le> m" "m \<le> 60397976"
proof (cases "map_of coding_rates k")
  case None
  then show ?thesis by (intro that(1)) (simp add: coding_getRate_def)
next
  case (Some r)
  then have "r \<in> set (map snd coding_rates)" by (force dest: map_of_SomeD)
  then have "r \<in> (\<lambda>m. of_int m / 2 ^ 26) ` set coding_mantissas" by (simp only: coding_rates_values set_map)
  then obtain m where m: "r = of_int m / 2 ^ 26" "m \<in> set coding_mantissas" by (rule imageE)
  then have "16777216 \<le> m \<and> m \<le> 60397976" unfolding coding_mantissas_def by auto
  with m Some show ?thesis by (intro that(2) [of m]) (auto simp: coding_getRate_def)
qed

text \<open>The integer part of the quotient, at the precision of the operations.\<close>

lemma fec_bounds:
  assumes n: "n < 2 ^ 19" and c: "c = of_int m / 2 ^ 26" "16777216 \<le> m" "m \<le> 60397976"
    and A: "A = \<lfloor>f64 (of_int n / c)\<rfloor>" and n0: "0 \<le> n"
  shows "0 \<le> A" "A < 2 ^ 22" "of_int A * c \<le> of_int n" "of_int n - 95 / 100 < (of_int A :: rat) * c"
proof -
  have "(of_int 16777216 :: rat) \<le> of_int m" "of_int m \<le> (of_int 60397976 :: rat)"
    using c(2,3) by (simp_all only: of_int_le_iff)
  then have mq: "(16777216 :: rat) \<le> of_int m" "of_int m \<le> (60397976 :: rat)" by simp_all
  have c0: "1 / 4 \<le> c" "c \<le> 91 / 100" using mq by (simp_all add: c(1))
  have "of_int n < (of_int (2 ^ 19) :: rat)" using n by (simp only: of_int_less_iff)
  then have nq: "(0 :: rat) \<le> of_int n" "of_int n < (524288 :: rat)" using n0 by simp_all
  define q where "q = of_int n / c"
  have q: "0 \<le> q" "q * c = of_int n" using nq c0 by (simp_all add: q_def)
  have "q \<le> of_int n / (1 / 4)" unfolding q_def using c0 nq by (intro divide_left_mono) auto
  then have q4: "q \<le> 4 * of_int n" by simp
  have "\<bar>f64 q - q\<bar> \<le> q / 2 ^ 53" using rnd_err [of 53 q] q by (simp add: f64_def)
  then have e: "f64 q \<le> q + q / 2 ^ 53" "q - q / 2 ^ 53 \<le> f64 q" unfolding abs_le_iff by linarith+
  have A1: "of_int A \<le> f64 q" "f64 q < of_int A + 1" unfolding A q_def by linarith+
  have "0 \<le> f64 q" using q by simp
  then show "0 \<le> A" by (simp add: A q_def)
  have "of_int A \<le> q + q / 2 ^ 53" using e A1 by linarith
  also have "\<dots> < 2097153" using q4 nq by simp
  finally have "of_int A < (of_int 2097153 :: rat)" by simp
  then have "A < 2097153" by (simp only: of_int_less_iff)
  then show "A < 2 ^ 22" by simp
  have "of_int A * c \<le> (q + q / 2 ^ 53) * c"
    using \<open>of_int A \<le> q + q / 2 ^ 53\<close> c0 by (intro mult_right_mono) auto
  also have "\<dots> = of_int n + of_int n / 2 ^ 53" using q(2) by (simp add: algebra_simps)
  finally have "of_int A * c < of_int n + 1 / 2 ^ 26" using nq by simp
  then have "of_int (A * m) < (of_int (n * 2 ^ 26 + 1) :: rat)" by (simp add: c(1) field_simps)
  then have "A * m \<le> n * 2 ^ 26" by (simp only: of_int_less_iff zless_add1_eq le_less)
  then have "of_int (A * m) \<le> (of_int (n * 2 ^ 26) :: rat)" by (simp only: of_int_le_iff)
  then show "of_int A * c \<le> of_int n" by (simp add: c(1) field_simps)
  have "q - q / 2 ^ 53 - 1 < of_int A" using e A1 by linarith
  then have "(q - q / 2 ^ 53 - 1) * c < of_int A * c" using c0 by (intro mult_strict_right_mono) auto
  moreover have "(q - q / 2 ^ 53 - 1) * c = of_int n - of_int n / 2 ^ 53 - c"
    using q(2) by (simp add: algebra_simps)
  moreover have "of_int n / 2 ^ 53 \<le> (1 / 100 :: rat)" using nq by simp
  ultimately show "of_int n - 95 / 100 < (of_int A :: rat) * c" using c0 by linarith
qed

lemma remove_fec_value:
  assumes "0 \<le> x" "x \<le> of_int n" "of_int n - 95 / 100 < x" "0 \<le> n" "n < 2 ^ 19"
  shows "\<lceil>f32 x\<rceil> = n"
proof -
  have "of_int n < (of_int (2 ^ 19) :: rat)" using assms(5) by (simp only: of_int_less_iff)
  then have nq: "of_int n < (524288 :: rat)" by simp
  have "f32 x \<le> of_int n" unfolding f32_def using assms nq by (intro rnd_le) auto
  moreover have "\<bar>f32 x - x\<bar> \<le> x / 2 ^ 24" using rnd_err [of 24 x] assms(1) by (simp add: f32_def)
  moreover have "x / 2 ^ 24 \<le> 4 / 100" using assms(2) nq by simp
  ultimately have "of_int n - 1 < f32 x" "f32 x \<le> of_int n" using assms(3) unfolding abs_le_iff by linarith+
  then show ?thesis by (intro ceiling_unique)
qed

text \<open>C35: \<open>removeFec\<close> undoes \<open>addFec\<close>: for every coding of the table, known or not, and every length
  under \<open>2 ^ 19\<close>, the length with the FEC is representable and taking the FEC away gives the length
  back, in spite of the two truncations and of the single-precision rate.\<close>

theorem fec_round_trip:
  assumes "fd_rate d = coding_getRate k" "unat n < 2 ^ 19"
  shows "\<exists>a. fd_addFec d n = Inr a \<and> fd_removeFec d a = Inr n"
proof -
  define N c A where "N = int (unat n)" and "c = fd_rate d" and "A = \<lfloor>f64 (of_int N / c)\<rfloor>"
  have N: "0 \<le> N" "rat_of_word n = of_int N"
    by (simp_all only: N_def rat_of_word_def of_int_of_nat_eq of_nat_0_le_iff)
  have "unat n < 524288" using assms(2) by simp
  then have "N < 524288" unfolding N_def by linarith
  then have N19: "N < 2 ^ 19" by simp
  have "0 \<le> A \<and> A < 2 ^ 22 \<and> of_int A * c \<le> of_int N \<and> of_int N - 95 / 100 < (of_int A :: rat) * c \<and> 0 \<le> c"
  proof (rule coding_rate_cases [of k])
    assume "coding_getRate k = 1"
    then have c: "c = 1" by (simp add: c_def assms(1))
    have "f64 (of_int N / c) = of_int N" unfolding f64_def c using N N19 by (simp add: rnd_int)
    then show ?thesis using N N19 by (simp add: A_def c)
  next
    fix m assume m: "coding_getRate k = of_int m / 2 ^ 26" "16777216 \<le> m" "m \<le> 60397976"
    then have c: "c = of_int m / 2 ^ 26" by (simp add: c_def assms(1))
    show ?thesis using fec_bounds [OF N19 c m(2,3) A_def N(1)] m(2) by (simp add: c)
  qed
  then have A: "0 \<le> A" "A < 2 ^ 22" "of_int A * c \<le> of_int N" "of_int N - 95 / 100 < (of_int A :: rat) * c"
    "0 \<le> c" by blast+
  then obtain a :: u32 where a: "to_uint (of_int A) = Inr a" "int (unat a) = A"
    using to_uint_ex [of A, where 'a = 32] by auto
  have "rat_of_word a = of_int A" by (simp only: rat_of_word_def of_int_of_nat_eq flip: a(2))
  moreover have "f32 (of_int A) = of_int A" unfolding f32_def using A by (intro rnd_int) auto
  ultimately have "fd_removeFec d a = to_uint (of_int \<lceil>f32 (of_int A * c)\<rceil>)"
    by (simp only: fd_removeFec_def c_def)
  also have "\<lceil>f32 (of_int A * c)\<rceil> = N" using A N N19 by (intro remove_fec_value) auto
  finally have "fd_removeFec d a = Inr n" by (simp only: to_uint_int N_def)
  moreover have "fd_addFec d n = Inr a" using a(1) by (simp only: fd_addFec_def N(2) A_def c_def)
  ultimately show ?thesis by blast
qed

definition qpsk_3_4 :: fmt_def where
  "qpsk_3_4 = new_fmt_def 5 ''QPSK'' ''3/4'' (3 / 2) 4 None"

lemma fec_round_trip_witness: "\<exists>a. fd_addFec qpsk_3_4 1000 = Inr a \<and> fd_removeFec qpsk_3_4 a = Inr 1000"
  by (rule fec_round_trip [of _ "''3/4''"]) (simp_all add: qpsk_3_4_def new_fmt_def_def)

section \<open>Choosing a MODCOD\<close>

lemma best_modcod_sorted:
  assumes "sorted (map (\<lambda>x. fd_esn0 (snd x)) tb)" "\<And>d. d \<in> snd ` set tb \<Longrightarrow> prev \<le> fd_esn0 d"
  shows "best_modcod cni i prev tb
     = (case rev (filter (\<lambda>(j, d). fd_esn0 d \<le> cni) tb) of [] \<Rightarrow> i | (j, d) # l \<Rightarrow> j)"
  using assms
proof (induction tb arbitrary: i prev)
  case (Cons x tb)
  obtain j d where x: "x = (j, d)" by force
  have s: "sorted (map (\<lambda>x. fd_esn0 (snd x)) tb)" and le: "\<And>d'. d' \<in> snd ` set tb \<Longrightarrow> fd_esn0 d \<le> fd_esn0 d'"
    using Cons.prems(1) by (auto simp: x)
  have p: "prev \<le> fd_esn0 d" "\<And>d'. d' \<in> snd ` set tb \<Longrightarrow> prev \<le> fd_esn0 d'"
    using Cons.prems(2) by (auto simp: x)
  show ?case
  proof (cases "fd_esn0 d \<le> cni")
    case True
    then have "best_modcod cni i prev (x # tb) = best_modcod cni j (fd_esn0 d) tb" using p(1) by (simp add: x)
    also have "\<dots> = (case rev (filter (\<lambda>(j, d). fd_esn0 d \<le> cni) tb) of [] \<Rightarrow> j | (j, d) # l \<Rightarrow> j)"
      by (rule Cons.IH [OF s le])
    finally show ?thesis using True by (cases "rev (filter (\<lambda>(j, d). fd_esn0 d \<le> cni) tb)") (auto simp: x)
  next
    case False
    then show ?thesis using Cons.IH [OF s p(2)] by (simp add: x)
  qed
qed simp

lemma id_fold_first: "\<forall>x \<in> set tb. i < fst x \<Longrightarrow> id_fold (<) i tb = i"
  by (induction tb) (auto dest: less_not_sym)

lemma getMinId_hd: "om_wf tb \<Longrightarrow> tb \<noteq> [] \<Longrightarrow> ft_getMinId tb = fst (hd tb)"
  by (cases tb) (auto simp: ft_getMinId_def om_wf_def id_fold_first)

lemma last_is_Max:
  assumes "sorted_wrt (<) (map fst l)" "l \<noteq> []"
  shows "fst (last l) = (Max (fst ` set l) :: 'k::linorder)"
proof -
  have "\<forall>x \<in> set l. fst x \<le> fst (last l)" using assms
    by (induction l) (auto intro: less_imp_le)
  then show ?thesis using assms(2) by (intro Max_eqI [symmetric]) auto
qed

text \<open>C36: Where the table goes from the most to the least robust MODCOD, \<open>getRequiredModcod\<close> gives the
  least robust one whose Es/N0 the C/N reaches, and the most robust one of the table when there is
  none.\<close>

theorem required_modcod_best:
  assumes "om_wf tb" "tb \<noteq> []" "\<forall>x \<in> set tb. fst x \<noteq> 0" "sorted (map (\<lambda>x. fd_esn0 (snd x)) tb)"
  shows "ft_getRequiredModcod tb cni =
     (let supported = {x \<in> set tb. fd_esn0 (snd x) \<le> cni}
      in if supported = {} then fst (hd tb) else Max (fst ` supported))"
proof -
  define l where "l = filter (\<lambda>(j, d). fd_esn0 d \<le> cni) tb"
  have l: "set l = {x \<in> set tb. fd_esn0 (snd x) \<le> cni}" by (auto simp: l_def)
  obtain j d tb' where tb: "tb = (j, d) # tb'" using assms(2) by (cases tb) auto
  have "best_modcod cni 0 (fd_esn0 d) tb = (case rev l of [] \<Rightarrow> 0 | (j, d) # l \<Rightarrow> j)"
    unfolding l_def using assms(4) by (intro best_modcod_sorted) (auto simp: tb)
  then have best: "best_modcod cni 0 (fd_esn0 d) tb = (if l = [] then 0 else fst (last l))"
    by (cases l rule: rev_cases) (auto split: prod.splits)
  show ?thesis
  proof (cases "l = []")
    case True
    then have "{x \<in> set tb. fd_esn0 (snd x) \<le> cni} = {}" using l by simp
    then show ?thesis using best True getMinId_hd [OF assms(1,2)]
      by (simp add: ft_getRequiredModcod_def tb)
  next
    case False
    then have "last l \<in> set tb" using l last_in_set [OF False] by auto
    then have "fst (last l) \<noteq> 0" using assms(3) by auto
    moreover have "sorted_wrt (<) (map fst l)"
      using assms(1) unfolding l_def om_wf_def by (induction tb) auto
    ultimately have "ft_getRequiredModcod tb cni = Max (fst ` set l)"
      using best False last_is_Max [of l] by (simp add: ft_getRequiredModcod_def tb)
    then show ?thesis using False by (simp flip: l)
  qed
qed

definition three_modcods :: fmt_table where
  "three_modcods = [(1, new_fmt_def 1 ''QPSK'' ''1/3'' (2 / 3) (-1) None),
     (2, new_fmt_def 2 ''QPSK'' ''1/2'' 1 1 None), (3, new_fmt_def 3 ''8PSK'' ''2/3'' 2 (13 / 2) None)]"

lemma required_modcod_best_witness:
  "ft_getRequiredModcod three_modcods 5 =
     (let supported = {x \<in> set three_modcods. fd_esn0 (snd x) \<le> 5}
      in if supported = {} then fst (hd three_modcods) else Max (fst ` supported))"
  by (rule required_modcod_best) (simp_all add: three_modcods_def om_wf_def new_fmt_def_def)

text \<open>The MODCOD of a carrier: the group is sorted by Es/N0.\<close>

lemma parse_sorted: "sorted (map snd (fg_parse tb s))"
  by (simp add: fg_parse_def)

text \<open>The Es/N0 kept beside an identifier is that of the table, as a \<open>float\<close>.\<close>

definition esn0_of_table :: "fmt_table \<Rightarrow> fmt_ids \<Rightarrow> bool" where
  "esn0_of_table tb ids \<longleftrightarrow>
     (\<forall>(j, e) \<in> set ids. ft_getRequiredEsN0 tb j \<noteq> 0 \<and> e = f32 (ft_getRequiredEsN0 tb j))"

lemma try_add_esn0: "esn0_of_table tb ids \<Longrightarrow> fg_try_add tb v ids = Some ids' \<Longrightarrow> esn0_of_table tb ids'"
  by (auto simp: esn0_of_table_def fg_try_add_def split: if_splits)

lemma fill_esn0:
  assumes "esn0_of_table tb ids"
  shows "esn0_of_table tb (fg_fill tb prev v ids)"
proof -
  have "esn0_of_table tb (fold (\<lambda>i ids. case fg_try_add tb (of_nat i) ids of None \<Rightarrow> ids | Some ids' \<Rightarrow> ids') is ids)" for "is"
    using assms by (induction "is" arbitrary: ids) (auto split: option.splits dest: try_add_esn0)
  then show ?thesis by (simp add: fg_fill_def)
qed

lemma parse_range_esn0: "esn0_of_table tb ids \<Longrightarrow> esn0_of_table tb (fg_parse_range tb ts prev ids)"
proof (induction ts arbitrary: prev ids)
  case (Cons t ts)
  show ?case
  proof (cases "read_unsigned t")
    case None
    then show ?thesis using Cons by simp
  next
    case (Some n)
    show ?thesis
    proof (cases "fg_try_add tb (of_nat n) ids")
      case None
      then show ?thesis using Cons Some by simp
    next
      case ids1: (Some ids1)
      have "esn0_of_table tb ids1" by (rule try_add_esn0 [OF Cons.prems ids1])
      then show ?thesis using Cons.IH Some ids1 fill_esn0 by simp
    qed
  qed
qed simp

lemma parse_esn0: "esn0_of_table tb (fg_parse tb s)"
proof -
  have "esn0_of_table tb (fold (\<lambda>t ids. fg_parse_range tb (tokenize ''-'' t) 0 ids) ts ids)" if "esn0_of_table tb ids" for ts ids
    using that by (induction ts arbitrary: ids) (simp_all add: parse_range_esn0)
  from this [of "[]"] show ?thesis by (simp add: fg_parse_def esn0_of_table_def)
qed

lemma nearest_stored:
  assumes "ids = fg_parse tb s" "ft_getRequiredEsN0 tb i \<noteq> 0"
  defines "limit \<equiv> f32 (ft_getRequiredEsN0 tb i)"
  shows "if \<exists>x \<in> set ids. snd x \<le> limit
     then \<exists>e. (fg_getNearest tb ids i, e) \<in> set ids \<and> e \<le> limit \<and> (\<forall>x \<in> set ids. snd x \<le> limit \<longrightarrow> snd x \<le> e)
     else fg_getNearest tb ids i = 0"
proof (cases "find (\<lambda>(j, e). e \<le> limit) (rev ids)")
  case None
  have "fg_getNearest tb ids i = 0" using None assms(2) by (simp add: fg_getNearest_def limit_def)
  then show ?thesis using None by (auto simp: find_None_iff)
next
  case (Some x)
  obtain j e where x: "x = (j, e)" by force
  obtain n where n: "n < length ids" "e \<le> limit" "rev ids ! n = (j, e)"
    "\<And>m. m < n \<Longrightarrow> \<not> snd (rev ids ! m) \<le> limit"
    using Some unfolding x find_Some_iff
    by (metis (mono_tags, lifting) case_prod_beta length_rev prod.sel(2))
  have sorted: "sorted (map snd ids)" using parse_sorted assms(1) by simp
  have "snd y \<le> e" if "y \<in> set ids" "snd y \<le> limit" for y
  proof -
    have "y \<in> set (rev ids)" using that(1) by simp
    then obtain m where m: "m < length (rev ids)" "rev ids ! m = y" unfolding in_set_conv_nth by blast
    then have "n \<le> m" using n(4) [of m] that(2) by (meson not_le)
    then have "map snd ids ! (length ids - Suc m) \<le> map snd ids ! (length ids - Suc n)"
      using sorted m n by (intro sorted_nth_mono) auto
    then show ?thesis using m n by (simp add: rev_nth)
  qed
  moreover have "(j, e) \<in> set ids" using n by (metis length_rev nth_mem set_rev)
  moreover have "fg_getNearest tb ids i = j" using Some assms(2) by (simp add: fg_getNearest_def limit_def x)
  ultimately show ?thesis using n(2) by force
qed

text \<open>C37: For a carrier with the group read from the configuration, \<open>getNearest\<close> gives an identifier of
  the group whose Es/N0 in the table, at single precision, does not exceed that of the desired MODCOD, and no other identifier of the
  group within that bound needs more; it gives 0 when the group has none, and also, whatever the group
  holds, when the Es/N0 of the desired MODCOD is exactly 0 dB or it is not in the table, which the code does not tell apart; for the same reason the
  group never holds an identifier of 0 dB.\<close>

theorem nearest_modcod_best:
  fixes tb :: fmt_table and s :: string and i :: fmt_id_t
  defines "esn0 \<equiv> (\<lambda>j. f32 (ft_getRequiredEsN0 tb j))"
  defines "fits \<equiv> {j \<in> set (fg_getFmtIds (fg_parse tb s)). esn0 j \<le> esn0 i}"
  shows "(if ft_getRequiredEsN0 tb i = 0 \<or> fits = {} then fg_getNearest tb (fg_parse tb s) i = 0
     else fg_getNearest tb (fg_parse tb s) i \<in> fits \<and> (\<forall>j \<in> fits. esn0 j \<le> esn0 (fg_getNearest tb (fg_parse tb s) i)))
    \<and> (\<forall>j \<in> set (fg_getFmtIds (fg_parse tb s)). ft_getRequiredEsN0 tb j \<noteq> 0)"
proof -
  let ?ids = "fg_parse tb s" and ?n = "fg_getNearest tb (fg_parse tb s) i"
  have stored: "snd x = esn0 (fst x)" "ft_getRequiredEsN0 tb (fst x) \<noteq> 0" if "x \<in> set ?ids" for x
    using that parse_esn0 [of tb s] by (auto simp: esn0_of_table_def esn0_def)
  have fits: "fits = {j. \<exists>x \<in> set ?ids. fst x = j \<and> snd x \<le> esn0 i}"
    using stored(1) by (auto simp: fits_def fg_getFmtIds_def)
  have none: "\<forall>j \<in> set (fg_getFmtIds ?ids). ft_getRequiredEsN0 tb j \<noteq> 0"
    using stored(2) by (auto simp: fg_getFmtIds_def)
  show ?thesis
  proof (cases "ft_getRequiredEsN0 tb i = 0")
    case True
    then show ?thesis using none by (simp add: fg_getNearest_def)
  next
    case False
    have near: "if \<exists>x \<in> set ?ids. snd x \<le> esn0 i
        then \<exists>e. (?n, e) \<in> set ?ids \<and> e \<le> esn0 i \<and> (\<forall>x \<in> set ?ids. snd x \<le> esn0 i \<longrightarrow> snd x \<le> e) else ?n = 0"
      unfolding esn0_def by (rule nearest_stored [OF refl False])
    show ?thesis
    proof (cases "\<exists>x \<in> set ?ids. snd x \<le> esn0 i")
      case True
      then obtain e where e: "(?n, e) \<in> set ?ids" "e \<le> esn0 i" "\<forall>x \<in> set ?ids. snd x \<le> esn0 i \<longrightarrow> snd x \<le> e"
        using near by auto
      then have "?n \<in> fits" unfolding fits by force
      moreover have "\<forall>j \<in> fits. esn0 j \<le> esn0 ?n"
        using e(3) stored(1) stored(1) [OF e(1)] unfolding fits by auto
      ultimately show ?thesis using False none by auto
    next
      case none': False
      then have "fits = {}" unfolding fits by auto
      then show ?thesis using near none none' by simp
    qed
  qed
qed

lemma nearest_modcod_best_witness:
  "let n = fg_getNearest three_modcods (fg_parse three_modcods ''1;3'') 2;
     esn0 = (\<lambda>j. f32 (ft_getRequiredEsN0 three_modcods j));
     fits = {j \<in> set (fg_getFmtIds (fg_parse three_modcods ''1;3'')). esn0 j \<le> esn0 2}
   in if fits = {} then n = 0 else n \<in> fits \<and> (\<forall>j \<in> fits. esn0 j \<le> esn0 n)"
proof -
  have "ft_getRequiredEsN0 three_modcods 2 \<noteq> 0"
    by (simp add: three_modcods_def ft_getRequiredEsN0_def ft_getDefinition_def new_fmt_def_def)
  then show ?thesis unfolding Let_def
    using conjunct1 [OF nearest_modcod_best [of three_modcods 2 "''1;3''"]] by (simp only: simp_thms split: if_split)
qed

end
