(* ===== verification/DamaTerminal.thy ===== *)
theory DamaTerminal
  imports FmtTable
begin

text \<open>
  A terminal and a group of carriers as the DAMA controller sees them:
  \<open>dvb/utils/TerminalContextDama.cpp\<close>, \<open>TerminalContextDamaRcs.cpp\<close>, \<open>CarriersGroupDama.cpp\<close> and
  the part of \<open>TerminalCategory.h\<close> and \<open>TerminalCategoryDama.h\<close> it uses. A pointer to a MODCOD
  definition is the definition itself, which is never changed, or \<open>None\<close>.
\<close>

section \<open>Terminals\<close>

record dama_term =
  dt_id :: tal_id_t
  dt_category :: string
  dt_cra_req :: rate_kbps_t
  dt_cra_alloc :: rate_kbps_t
  dt_max_rbdc :: rate_kbps_t
  dt_rbdc_timeout :: time_sf_t
  dt_max_vbdc :: vol_kb_t
  dt_credit :: rat             \<comment> \<open>\<open>rbdc_credit\<close>, a \<open>double\<close>\<close>
  dt_timer :: time_sf_t
  dt_rbdc_req :: rate_kbps_t
  dt_rbdc_alloc :: rate_kbps_t
  dt_vbdc_req :: vol_kb_t
  dt_vbdc_alloc :: vol_kb_t
  dt_fca_alloc :: rate_kbps_t
  dt_carrier :: u32
  dt_req_fmt :: "fmt_def option"
  dt_fmt :: "fmt_def option"

text \<open>The constructors; \<open>cra_alloc_kbps\<close> is left unset, its value is the argument \<open>junk\<close>.\<close>

definition new_dama_term ::
    "rate_kbps_t \<Rightarrow> tal_id_t \<Rightarrow> rate_kbps_t \<Rightarrow> rate_kbps_t \<Rightarrow> time_sf_t \<Rightarrow> vol_kb_t \<Rightarrow> dama_term" where
  "new_dama_term junk i cra max_rbdc timeout max_vbdc =
     \<lparr>dt_id = i, dt_category = [], dt_cra_req = cra, dt_cra_alloc = junk, dt_max_rbdc = max_rbdc,
      dt_rbdc_timeout = timeout, dt_max_vbdc = max_vbdc, dt_credit = 0, dt_timer = 0, dt_rbdc_req = 0,
      dt_rbdc_alloc = 0, dt_vbdc_req = 0, dt_vbdc_alloc = 0, dt_fca_alloc = 0, dt_carrier = 0,
      dt_req_fmt = None, dt_fmt = None\<rparr>"

definition dt_updateRbdcTimeout :: "time_sf_t \<Rightarrow> dama_term \<Rightarrow> dama_term" where
  "dt_updateRbdcTimeout v t = t\<lparr>dt_rbdc_timeout := v\<rparr>"

definition dt_setRequiredCra :: "rate_kbps_t \<Rightarrow> dama_term \<Rightarrow> dama_term" where
  "dt_setRequiredCra v t = t\<lparr>dt_cra_req := v\<rparr>"

definition dt_setCraAllocation :: "rate_kbps_t \<Rightarrow> dama_term \<Rightarrow> dama_term" where
  "dt_setCraAllocation v t = t\<lparr>dt_cra_alloc := v\<rparr>"

definition dt_setMaxRbdc :: "rate_kbps_t \<Rightarrow> dama_term \<Rightarrow> dama_term" where
  "dt_setMaxRbdc v t = t\<lparr>dt_max_rbdc := v\<rparr>"

definition dt_setRequiredRbdc :: "rate_kbps_t \<Rightarrow> dama_term \<Rightarrow> dama_term" where
  "dt_setRequiredRbdc v t =
     t\<lparr>dt_rbdc_req := min v (dt_max_rbdc t), dt_credit := 0, dt_timer := dt_rbdc_timeout t\<rparr>"

definition dt_setRbdcAllocation :: "rate_kbps_t \<Rightarrow> dama_term \<Rightarrow> dama_term" where
  "dt_setRbdcAllocation v t = t\<lparr>dt_rbdc_alloc := v\<rparr>"

definition dt_addRbdcCredit :: "rat \<Rightarrow> dama_term \<Rightarrow> dama_term" where
  "dt_addRbdcCredit v t = t\<lparr>dt_credit := f64 (dt_credit t + v)\<rparr>"

definition dt_setRbdcCredit :: "rat \<Rightarrow> dama_term \<Rightarrow> dama_term" where
  "dt_setRbdcCredit v t = t\<lparr>dt_credit := v\<rparr>"

definition dt_decrementTimer :: "dama_term \<Rightarrow> dama_term" where
  "dt_decrementTimer t = t\<lparr>dt_timer := (if 0 < dt_timer t then dt_timer t - 1 else 0)\<rparr>"

definition dt_setRequiredVbdc :: "vol_kb_t \<Rightarrow> dama_term \<Rightarrow> dama_term" where
  "dt_setRequiredVbdc v t = t\<lparr>dt_vbdc_req := min (dt_vbdc_req t + v) (dt_max_vbdc t)\<rparr>"

definition dt_setVbdcAllocation :: "vol_kb_t \<Rightarrow> dama_term \<Rightarrow> dama_term" where
  "dt_setVbdcAllocation v t =
     t\<lparr>dt_vbdc_alloc := v, dt_vbdc_req := (if v \<le> dt_vbdc_req t then dt_vbdc_req t - v else 0)\<rparr>"

definition dt_setFcaAllocation :: "rate_kbps_t \<Rightarrow> dama_term \<Rightarrow> dama_term" where
  "dt_setFcaAllocation v t = t\<lparr>dt_fca_alloc := v\<rparr>"

definition dt_getTotalRateAllocation :: "dama_term \<Rightarrow> rate_kbps_t" where
  "dt_getTotalRateAllocation t = dt_rbdc_alloc t + dt_fca_alloc t + dt_cra_alloc t"

definition dt_getFmtId :: "dama_term \<Rightarrow> u32" where
  "dt_getFmtId t = (case dt_fmt t of None \<Rightarrow> 0 | Some d \<Rightarrow> fd_id d)"

definition dt_setRequiredFmt :: "fmt_def option \<Rightarrow> dama_term \<Rightarrow> dama_term" where
  "dt_setRequiredFmt d t = t\<lparr>dt_req_fmt := d\<rparr>"

definition dt_setFmt :: "fmt_def option \<Rightarrow> dama_term \<Rightarrow> dama_term" where
  "dt_setFmt d t = t\<lparr>dt_fmt := d\<rparr>"

definition dt_setCarrierId :: "u32 \<Rightarrow> dama_term \<Rightarrow> dama_term" where
  "dt_setCarrierId c t = t\<lparr>dt_carrier := c\<rparr>"

text \<open>The comparisons of \<open>std::stable_sort\<close>: descending credit, descending VBDC request.\<close>

definition sortByRemainingCredit :: "(tal_id_t \<Rightarrow> dama_term) \<Rightarrow> tal_id_t list \<Rightarrow> tal_id_t list" where
  "sortByRemainingCredit f = sort_key (\<lambda>i. - dt_credit (f i))"

definition sortByVbdcReq :: "(tal_id_t \<Rightarrow> dama_term) \<Rightarrow> tal_id_t list \<Rightarrow> tal_id_t list" where
  "sortByVbdcReq f = sort_key (\<lambda>i. - int (unat (dt_vbdc_req (f i))))"

section \<open>Groups of carriers\<close>

record dama_carriers =
  dg_carriers_id :: u32
  dg_fmt_ids :: fmt_ids
  dg_number :: u32
  dg_ratio :: u32
  dg_capacity_sym :: vol_sym_t
  dg_symbol_rate :: rate_symps_t
  dg_access_type :: int
  dg_remaining :: u32
  dg_previous :: u32
  dg_previous_sf :: time_sf_t

text \<open>The carriers of \<open>vcm_carriers\<close> are built without VCM carriers of their own.\<close>

record dama_group = dama_carriers +
  dg_vcm :: "dama_carriers list"

definition new_dama_carriers :: "u32 \<Rightarrow> fmt_ids \<Rightarrow> u32 \<Rightarrow> rate_symps_t \<Rightarrow> int \<Rightarrow> dama_carriers" where
  "new_dama_carriers cid ids ratio rate access =
     \<lparr>dg_carriers_id = cid, dg_fmt_ids = ids, dg_number = 0, dg_ratio = ratio, dg_capacity_sym = 0,
      dg_symbol_rate = rate, dg_access_type = access, dg_remaining = 0, dg_previous = 0,
      dg_previous_sf = 0\<rparr>"

definition new_dama_group :: "u32 \<Rightarrow> fmt_ids \<Rightarrow> u32 \<Rightarrow> rate_symps_t \<Rightarrow> int \<Rightarrow> dama_group" where
  "new_dama_group cid ids ratio rate access =
     dama_carriers.extend (new_dama_carriers cid ids ratio rate access) (dama_group.fields [])"

text \<open>\<open>setCapacity\<close>: the VCM shares are quotients of unsigned integers; \<open>floor\<close> does nothing.\<close>

definition dg_setCapacity :: "vol_sym_t \<Rightarrow> dama_group \<Rightarrow> dama_group res" where
  "dg_setCapacity cap g =
     (if dg_vcm g \<noteq> [] \<and> dg_ratio g = 0 then Inl DivByZero
      else Inr (g\<lparr>dg_capacity_sym := cap,
        dg_vcm := map (\<lambda>v. v\<lparr>dg_capacity_sym := dg_ratio v * cap div dg_ratio g\<rparr>) (dg_vcm g)\<rparr>))"

definition dg_setCarriersNumber :: "u32 \<Rightarrow> dama_group \<Rightarrow> dama_group" where
  "dg_setCarriersNumber n g = g\<lparr>dg_number := n, dg_vcm := map (\<lambda>v. v\<lparr>dg_number := n\<rparr>) (dg_vcm g)\<rparr>"

definition dg_setSymbolRate :: "rate_symps_t \<Rightarrow> dama_group \<Rightarrow> dama_group" where
  "dg_setSymbolRate r g =
     g\<lparr>dg_symbol_rate := r, dg_vcm := map (\<lambda>v. v\<lparr>dg_symbol_rate := r\<rparr>) (dg_vcm g)\<rparr>"

definition dg_addVcm :: "fmt_ids \<Rightarrow> u32 \<Rightarrow> dama_group \<Rightarrow> dama_group" where
  "dg_addVcm ids ratio g =
     g\<lparr>dg_ratio := (if dg_vcm g \<noteq> [] then dg_ratio g + ratio else dg_ratio g),
       dg_vcm := dg_vcm g @
         [new_dama_carriers (dg_carriers_id g) ids ratio (dg_symbol_rate g) (dg_access_type g)]\<rparr>"

definition dg_getTotalCapacity :: "'a dama_carriers_scheme \<Rightarrow> vol_sym_t" where
  "dg_getTotalCapacity g = dg_capacity_sym g * dg_number g"

definition dg_setRemainingCapacity :: "u32 \<Rightarrow> 'a dama_carriers_scheme \<Rightarrow> 'a dama_carriers_scheme" where
  "dg_setRemainingCapacity v g = g\<lparr>dg_remaining := v\<rparr>"

definition dg_setPreviousCapacity :: "u32 \<Rightarrow> time_sf_t \<Rightarrow> dama_group \<Rightarrow> dama_group" where
  "dg_setPreviousCapacity v sf g = g\<lparr>dg_previous := v, dg_previous_sf := sf\<rparr>"

definition dg_getPreviousCapacity :: "time_sf_t \<Rightarrow> dama_group \<Rightarrow> u32" where
  "dg_getPreviousCapacity sf g = (if dg_previous_sf g \<noteq> sf then 0 else dg_previous g)"

definition dg_getNearestFmtId :: "fmt_table \<Rightarrow> u32 \<Rightarrow> dama_group \<Rightarrow> u32" where
  "dg_getNearestFmtId tb i g = ucast (fg_getNearest tb (dg_fmt_ids g) (ucast i))"

text \<open>\<open>front()\<close> and \<open>back()\<close> of the list of MODCODs.\<close>

definition dg_front_fmt :: "dama_group \<Rightarrow> fmt_id_t res" where
  "dg_front_fmt g = (case fg_getFmtIds (dg_fmt_ids g) of [] \<Rightarrow> Inl EndDeref | i # l \<Rightarrow> Inr i)"

definition dg_back_fmt :: "dama_group \<Rightarrow> fmt_id_t res" where
  "dg_back_fmt g = fg_getMaxFmtId (dg_fmt_ids g)"

section \<open>Categories\<close>

text \<open>A category holds pointers to the terminals; they are identifiers of the controller's list.\<close>

record dama_category =
  dc_label :: string
  dc_groups :: "dama_group list"
  dc_terminals :: "tal_id_t list"

definition dc_addTerminal :: "tal_id_t \<Rightarrow> dama_category \<Rightarrow> dama_category" where
  "dc_addTerminal t c = c\<lparr>dc_terminals := dc_terminals c @ [t]\<rparr>"

definition dc_removeTerminal :: "tal_id_t \<Rightarrow> dama_category \<Rightarrow> bool \<times> dama_category" where
  "dc_removeTerminal t c =
     (if t \<in> set (dc_terminals c) then (True, c\<lparr>dc_terminals := remove1 t (dc_terminals c)\<rparr>) else (False, c))"

end
