(* ===== verification/DamaCtrl.thy ===== *)
theory DamaCtrl
  imports DamaTerminal "HOL-Library.List_Lexorder" "HOL-Library.Char_ord"
begin

text \<open>
  The DAMA controller of the gateway: \<open>dvb/dama/DamaCtrl.cpp\<close>, \<open>DamaCtrlRcsCommon.cpp\<close> and
  \<open>DamaCtrlRcs.cpp\<close>. The map of the terminals is their store; the categories list identifiers. The
  output probes are not modelled, except that a write to the probe of a terminal that has none (no
  probe is created for the identifier \<open>BROADCAST_TAL_ID\<close>, nor for simulated terminals above it) goes
  through a null pointer.
\<close>

record dama_ctrl =
  dm_terminals :: "(tal_id_t, dama_term) omap"
  dm_superframe :: time_sf_t
  dm_frame_ms :: time_ms_t
  dm_rbdc_timeout :: time_sf_t
  dm_fca :: rate_kbps_t
  dm_enable_rbdc :: bool
  dm_enable_vbdc :: bool
  dm_categories :: "(string, dama_category) omap"
  dm_affectation :: "(tal_id_t, string option) omap"   \<comment> \<open>\<open>None\<close> for a null pointer\<close>
  dm_default :: "string option"
  dm_table :: fmt_table                                \<comment> \<open>\<open>input_modcod_def\<close>\<close>
  dm_simulated :: bool
  dm_converter :: unit_converter
  dm_probes :: "tal_id_t list"                         \<comment> \<open>terminals with output probes\<close>
  dm_st_num :: int
  dm_rbdc_req_num :: int
  dm_vbdc_req_num :: int
  dm_cra_alloc_kbps :: int
  dm_rbdc_max_kbps :: int
  dm_remaining :: int
  dm_cat_remaining :: "string \<Rightarrow> int"
  dm_carrier_remaining :: "string \<Rightarrow> u32 \<Rightarrow> int"

section \<open>Terminals and probes\<close>

definition dm_getTerminalContext :: "tal_id_t \<Rightarrow> dama_ctrl \<Rightarrow> dama_term option" where
  "dm_getTerminalContext i c = om_find (dm_terminals c) i"

definition dm_term :: "tal_id_t \<Rightarrow> dama_ctrl \<Rightarrow> dama_term res" where
  "dm_term i c = (case om_find (dm_terminals c) i of None \<Rightarrow> Inl EndDeref | Some t \<Rightarrow> Inr t)"

definition dm_set :: "tal_id_t \<Rightarrow> dama_term \<Rightarrow> dama_ctrl \<Rightarrow> dama_ctrl" where
  "dm_set i t c = c\<lparr>dm_terminals := om_put i t (dm_terminals c)\<rparr>"

definition dm_probe :: "tal_id_t \<Rightarrow> dama_ctrl \<Rightarrow> unit res" where
  "dm_probe i c = (if i \<in> set (dm_probes c) then Inr () else Inl NullDeref)"

text \<open>The two tests around the writes: real terminals are below, simulated ones above.\<close>

definition dm_probe_lt :: "tal_id_t \<Rightarrow> dama_ctrl \<Rightarrow> unit res" where
  "dm_probe_lt i c = (if i < BROADCAST_TAL_ID then dm_probe i c else Inr ())"

definition dm_probe_le :: "tal_id_t \<Rightarrow> dama_ctrl \<Rightarrow> unit res" where
  "dm_probe_le i c = (if BROADCAST_TAL_ID < i then Inr () else dm_probe i c)"

fun dm_probes_lt :: "tal_id_t list \<Rightarrow> dama_ctrl \<Rightarrow> unit res" where
  "dm_probes_lt [] c = Inr ()"
| "dm_probes_lt (i # l) c = res_bind (dm_probe_lt i c) (\<lambda>_. dm_probes_lt l c)"

section \<open>Loops over categories and carriers groups\<close>

fun groups_loop :: "(dama_group \<Rightarrow> 's \<Rightarrow> ('s \<times> dama_group) res) \<Rightarrow> dama_group list \<Rightarrow> 's
    \<Rightarrow> ('s \<times> dama_group list) res" where
  "groups_loop f [] s = Inr (s, [])"
| "groups_loop f (g # gs) s =
     res_bind (f g s) (\<lambda>(s1, g1). res_bind (groups_loop f gs s1) (\<lambda>(s2, gs1). Inr (s2, g1 # gs1)))"

fun cats_loop :: "(dama_category \<Rightarrow> 's \<Rightarrow> ('s \<times> dama_category) res) \<Rightarrow> (string, dama_category) omap \<Rightarrow> 's
    \<Rightarrow> ('s \<times> (string, dama_category) omap) res" where
  "cats_loop f [] s = Inr (s, [])"
| "cats_loop f ((l, cat) # cs) s =
     res_bind (f cat s) (\<lambda>(s1, cat1). res_bind (cats_loop f cs s1) (\<lambda>(s2, cs1). Inr (s2, (l, cat1) # cs1)))"

section \<open>Logon and logoff\<close>

text \<open>\<open>createTerminal\<close>: the MODCOD is the best of the table.\<close>

definition dm_createTerminal ::
    "rate_kbps_t \<Rightarrow> tal_id_t \<Rightarrow> rate_kbps_t \<Rightarrow> rate_kbps_t \<Rightarrow> vol_kb_t \<Rightarrow> dama_ctrl \<Rightarrow> dama_term" where
  "dm_createTerminal junk i cra max_rbdc max_vbdc c =
     (let t = new_dama_term junk i cra max_rbdc (dm_rbdc_timeout c) max_vbdc; m = ft_getMaxId (dm_table c)
      in if m = 0 then t else dt_setRequiredFmt (ft_getDefinition (dm_table c) m) t)"

text \<open>The capacity that the logon compares with the CRA, only to warn.\<close>

definition dm_max_capa :: "fmt_table \<Rightarrow> dama_group list \<Rightarrow> u32 res" where
  "dm_max_capa tb gs =
     res_fold (\<lambda>g acc.
       res_bind (dg_back_fmt g) (\<lambda>i.
       res_bind (to_uint (f64 (dg_symbol_rate g * rat_of_word (dg_number g)))) (\<lambda>v.
       res_bind (ft_symToKbits tb i v) (\<lambda>k. Inr (acc + ucast k))))) gs 0"

text \<open>The category of a terminal that logs on, or what \<open>hereIsLogon\<close> returns at once.\<close>

definition dm_affected :: "tal_id_t \<Rightarrow> dama_ctrl \<Rightarrow> bool + string" where
  "dm_affected i c =
     (case om_find (dm_affectation c) i of
        None \<Rightarrow> (case dm_default c of None \<Rightarrow> Inl False | Some l \<Rightarrow> Inr l)
      | Some None \<Rightarrow> Inl True
      | Some (Some l) \<Rightarrow> Inr l)"

record logon_req =
  lr_mac :: tal_id_t
  lr_rt_bandwidth :: rate_kbps_t
  lr_max_rbdc :: rate_kbps_t
  lr_max_vbdc :: vol_kb_t

definition dm_hereIsLogon :: "rate_kbps_t \<Rightarrow> logon_req \<Rightarrow> dama_ctrl \<Rightarrow> (bool \<times> dama_ctrl) res" where
  "dm_hereIsLogon junk r c =
     (let i = lr_mac r in
      case om_find (dm_terminals c) i of
        Some t \<Rightarrow> Inr (True, c)
      | None \<Rightarrow>
          (case dm_affected i c of
             Inl b \<Rightarrow> Inr (b, c)
           | Inr label \<Rightarrow>
               (case om_find (dm_categories c) label of
                  None \<Rightarrow> Inr (True, c)
                | Some cat \<Rightarrow>
                    let t = dm_createTerminal junk i (lr_rt_bandwidth r) (lr_max_rbdc r) (lr_max_vbdc r) c;
                        c1 = (if i < BROADCAST_TAL_ID then c\<lparr>dm_probes := i # dm_probes c\<rparr> else c);
                        c2 = dm_set i (t\<lparr>dt_category := dc_label cat\<rparr>) c1;
                        c3 = c2\<lparr>dm_categories := om_put label (dc_addTerminal i cat) (dm_categories c2),
                               dm_st_num := dm_st_num c2 + 1,
                               dm_rbdc_max_kbps := dm_rbdc_max_kbps c2 + uint (lr_max_rbdc r)\<rparr>
                    in res_bind (dm_max_capa (dm_table c) (dc_groups cat)) (\<lambda>_. Inr (True, c3)))))"

definition dm_hereIsLogoff :: "tal_id_t \<Rightarrow> dama_ctrl \<Rightarrow> bool \<times> dama_ctrl" where
  "dm_hereIsLogoff i c =
     (case om_find (dm_terminals c) i of
        None \<Rightarrow> (False, c)
      | Some t \<Rightarrow>
          let c1 = c\<lparr>dm_st_num := dm_st_num c - 1,
                     dm_rbdc_max_kbps := dm_rbdc_max_kbps c - uint (dt_max_rbdc t),
                     dm_terminals := om_erase (dt_id t) (dm_terminals c)\<rparr>
          in case om_find (dm_categories c1) (dt_category t) of
               None \<Rightarrow> (True, c1)
             | Some cat \<Rightarrow>
                 let (found, cat1) = dc_removeTerminal (dt_id t) cat
                 in (found, c1\<lparr>dm_categories := om_put (dt_category t) cat1 (dm_categories c1)\<rparr>))"

section \<open>Capacity requests\<close>

text \<open>\<open>cr_info_t\<close>, as \<open>Sac::getRequests\<close> gives it.\<close>

record cr_info =
  cr_prio :: u8
  cr_type :: u8
  cr_value :: u32

definition access_dama_vbdc :: u8 where "access_dama_vbdc = 0"
definition access_dama_rbdc :: u8 where "access_dama_rbdc = 1"

text \<open>One request: the RBDC one is reduced by the CRA, in \<open>int\<close>, then both by their maximum.\<close>

definition rbdc_request :: "u16 \<Rightarrow> dama_term \<Rightarrow> u16" where
  "rbdc_request v t = min (of_int (max (uint v - uint (dt_cra_req t)) 0)) (dt_max_rbdc t)"

definition vbdc_request :: "u16 \<Rightarrow> dama_term \<Rightarrow> u16" where
  "vbdc_request v t = min v (dt_max_vbdc t)"

definition dm_request :: "tal_id_t \<Rightarrow> cr_info \<Rightarrow> dama_ctrl \<Rightarrow> dama_ctrl res" where
  "dm_request i r c =
     (if cr_type r = access_dama_vbdc then
        (case om_find (dm_terminals c) i of
           None \<Rightarrow> Inl NullDeref
         | Some t \<Rightarrow> Inr ((dm_set i (dt_setRequiredVbdc (vbdc_request (ucast (cr_value r)) t) t) c)
                          \<lparr>dm_enable_vbdc := True\<rparr>))
      else if cr_type r = access_dama_rbdc then
        (case om_find (dm_terminals c) i of
           None \<Rightarrow> Inl NullDeref
         | Some t \<Rightarrow> Inr ((dm_set i (dt_setRequiredRbdc (rbdc_request (ucast (cr_value r)) t) t) c)
                          \<lparr>dm_enable_rbdc := True\<rparr>))
      else Inr c)"

definition dm_hereIsSAC ::
    "(tal_id_t \<Rightarrow> bool) \<Rightarrow> tal_id_t \<Rightarrow> cr_info list \<Rightarrow> dama_ctrl \<Rightarrow> (bool \<times> dama_ctrl) res" where
  "dm_hereIsSAC is_gw i rs c =
     (if om_find (dm_terminals c) i = None \<and> \<not> is_gw i then Inr (False, c)
      else res_bind (res_fold (dm_request i) rs c) (\<lambda>c'. Inr (True, c')))"

section \<open>Burst time plan\<close>

record time_plan =
  tp_frame :: u8
  tp_tal :: tal_id_t
  tp_offset :: u32
  tp_assignment :: u16
  tp_fmt :: fmt_id_t
  tp_priority :: u8

text \<open>\<open>buildTTP\<close>: the calls of \<open>addTimePlan\<close>, in order; the additions are cut to 16 bits.\<close>

definition dm_time_plan :: "unit_converter \<Rightarrow> dama_term \<Rightarrow> time_plan res" where
  "dm_time_plan uc t =
     res_bind (if dt_getFmtId t \<noteq> 0
               then res_bind (uc_psToPf uc (ucast (dt_getTotalRateAllocation t)))
                      (\<lambda>pf. Inr (dt_vbdc_alloc t + ucast pf))
               else Inr 0)
       (\<lambda>kb. Inr \<lparr>tp_frame = 0, tp_tal = dt_id t, tp_offset = 0, tp_assignment = kb,
                  tp_fmt = ucast (dt_getFmtId t), tp_priority = 0\<rparr>)"

fun dm_plans :: "tal_id_t list \<Rightarrow> dama_ctrl \<Rightarrow> time_plan list res" where
  "dm_plans [] c = Inr []"
| "dm_plans (i # l) c =
     res_bind (dm_term i c) (\<lambda>t. res_bind (dm_time_plan (dm_converter c) t) (\<lambda>p.
       res_bind (dm_plans l c) (\<lambda>ps. Inr (p # ps))))"

definition dm_buildTTP :: "dama_ctrl \<Rightarrow> time_plan list res" where
  "dm_buildTTP c = dm_plans (concat (map (\<lambda>(l, cat). dc_terminals cat) (dm_categories c))) c"

section \<open>Commands of a PEP\<close>

record pep_request =
  pr_st_id :: tal_id_t
  pr_cra :: rate_kbps_t
  pr_rbdc :: rate_kbps_t
  pr_rbdc_max :: rate_kbps_t

definition pep_cra :: "pep_request \<Rightarrow> dama_term \<Rightarrow> dama_term" where
  "pep_cra r t = (if pr_cra r \<noteq> 0 then dt_setRequiredCra (pr_cra r) t else t)"

definition pep_rbdc :: "time_sf_t \<Rightarrow> pep_request \<Rightarrow> dama_term \<Rightarrow> dama_term" where
  "pep_rbdc timeout r t =
     (if pr_rbdc r \<noteq> 0
      then dt_updateRbdcTimeout timeout (dt_setRequiredRbdc (pr_rbdc r) (dt_updateRbdcTimeout 100 t)) else t)"

definition dm_applyPepCommand :: "pep_request \<Rightarrow> dama_ctrl \<Rightarrow> (bool \<times> dama_ctrl) res" where
  "dm_applyPepCommand r c =
     (let i = pr_st_id r in
      case om_find (dm_terminals c) i of
        None \<Rightarrow> Inr (False, c)
      | Some t \<Rightarrow>
          let t1 = pep_cra r t in
          if pr_rbdc_max r \<noteq> 0
          then res_bind (dm_probe (dt_id t) c) (\<lambda>_.
                 Inr (True, (dm_set i (pep_rbdc (dm_rbdc_timeout c) r (dt_setMaxRbdc (pr_rbdc_max r) t1)) c)
                   \<lparr>dm_rbdc_max_kbps :=
                      dm_rbdc_max_kbps c - uint (dt_max_rbdc t1) + uint (pr_rbdc_max r)\<rparr>))
          else Inr (True, dm_set i (pep_rbdc (dm_rbdc_timeout c) r t1) c))"

section \<open>MODCODs\<close>

text \<open>\<open>updateRequiredFmts\<close>: from the C/N, or from the simulation file; 0 is replaced by the most robust.\<close>

definition required_fmt :: "fmt_table \<Rightarrow> fmt_id_t \<Rightarrow> fmt_def option" where
  "required_fmt tb i = ft_getDefinition tb (if i = 0 then ft_getMinId tb else i)"

fun update_fmts :: "bool \<Rightarrow> fmt_table \<Rightarrow> (tal_id_t, dama_term) omap \<Rightarrow> sts_list
    \<Rightarrow> (tal_id_t, dama_term) omap \<times> sts_list" where
  "update_fmts simulated tb [] sts = ([], sts)"
| "update_fmts simulated tb ((i, t) # ts) sts =
     (let (fmt, sts1) =
            (if simulated then (ss_getCurrentModcodId sts (dt_id t), sts)
             else let (cni, sts1) = ss_getRequiredCni tb (dt_id t) sts in (ft_getRequiredModcod tb cni, sts1));
          (ts1, sts2) = update_fmts simulated tb ts sts1
      in ((i, dt_setRequiredFmt (required_fmt tb fmt) t) # ts1, sts2))"

definition dm_updateRequiredFmts :: "dama_ctrl \<Rightarrow> sts_list \<Rightarrow> dama_ctrl \<times> sts_list" where
  "dm_updateRequiredFmts c sts =
     (let (ts, sts1) = update_fmts (dm_simulated c) (dm_table c) (dm_terminals c) sts
      in (c\<lparr>dm_terminals := ts\<rparr>, sts1))"

text \<open>The loop of \<open>updateWaveForms\<close> over the groups: the MODCOD found so far and the terminal.\<close>

fun wave_form :: "fmt_table \<Rightarrow> u32 \<Rightarrow> dama_group list \<Rightarrow> u32 \<times> dama_term \<Rightarrow> u32 \<times> dama_term" where
  "wave_form tb req [] s = s"
| "wave_form tb req (g # gs) (av, t) =
     (let fmt = dg_getNearestFmtId tb req g
      in if req \<le> fmt then (fmt, dt_setCarrierId (dg_carriers_id g) t)
         else wave_form tb req gs (max av fmt, dt_setCarrierId (dg_carriers_id g) t))"

definition dm_wave_form :: "dama_ctrl \<Rightarrow> dama_term \<Rightarrow> dama_term" where
  "dm_wave_form c t =
     (case om_find (dm_categories c) (dt_category t) of
        None \<Rightarrow> t
      | Some cat \<Rightarrow>
          let req = (case dt_req_fmt t of None \<Rightarrow> 0 | Some d \<Rightarrow> fd_id d);
              (av, t1) = wave_form (dm_table c) req (dc_groups cat) (0, t)
          in dt_setFmt (ft_getDefinition (dm_table c) (ucast av)) t1)"

definition dm_updateWaveForms :: "dama_ctrl \<Rightarrow> dama_ctrl" where
  "dm_updateWaveForms c = c\<lparr>dm_terminals := map (\<lambda>(i, t). (i, dm_wave_form c t)) (dm_terminals c)\<rparr>"

section \<open>Start of a superframe\<close>

text \<open>\<open>resetTerminalsAllocations\<close> for one terminal; the result says whether it could be done.\<close>

definition reset_term :: "unit_converter \<Rightarrow> dama_term \<Rightarrow> (bool \<times> unit_converter \<times> dama_term) res" where
  "reset_term uc t =
     (let credit = dt_credit t; request = dt_rbdc_req t;
          t1 = dt_decrementTimer (dt_setFcaAllocation 0 (dt_setVbdcAllocation 0 (dt_setRbdcAllocation 0
                 (dt_setCraAllocation 0 t))))
      in if 0 < dt_timer t1 \<and> 0 < credit
         then (case dt_fmt t1 of
                 None \<Rightarrow> Inr (False, uc, dt_setRbdcCredit 0 t1)
               | Some d \<Rightarrow>
                   let uc1 = uc_setModulationEfficiency (fd_eff d) uc
                   in res_bind (uc_pktpfToKbps uc1 1) (\<lambda>slot.
                        Inr (True, uc1, dt_setRbdcCredit (max (f64 (credit - rat_of_word slot)) 0)
                                          (dt_setRequiredRbdc (request + slot) t1))))
         else Inr (True, uc, t1))"

fun reset_terms :: "(tal_id_t, dama_term) omap \<Rightarrow> unit_converter
    \<Rightarrow> (bool \<times> unit_converter \<times> (tal_id_t, dama_term) omap) res" where
  "reset_terms [] uc = Inr (True, uc, [])"
| "reset_terms ((i, t) # ts) uc =
     res_bind (reset_term uc t) (\<lambda>(ok1, uc1, t1).
     res_bind (reset_terms ts uc1) (\<lambda>(ok2, uc2, ts1). Inr (ok1 \<and> ok2, uc2, (i, t1) # ts1)))"

definition dm_resetTerminalsAllocations :: "dama_ctrl \<Rightarrow> (bool \<times> dama_ctrl) res" where
  "dm_resetTerminalsAllocations c =
     res_bind (reset_terms (dm_terminals c) (dm_converter c)) (\<lambda>(b, uc, ts).
       Inr (b, c\<lparr>dm_terminals := ts, dm_converter := uc\<rparr>))"

text \<open>
  \<open>DamaCtrlRcs::resetCarriersCapacity\<close>: the capacity of each group of carriers in packets per frame,
  and the books in kb/s; \<open>tot\<close> and \<open>cap\<close> are sums cut to 16 bits.
\<close>

definition reset_group :: "string \<Rightarrow> dama_group \<Rightarrow> dama_ctrl \<times> rate_kbps_t \<times> rate_kbps_t
    \<Rightarrow> ((dama_ctrl \<times> rate_kbps_t \<times> rate_kbps_t) \<times> dama_group) res" where
  "reset_group label g = (\<lambda>(c, tot, cap).
     res_bind (dg_front_fmt g) (\<lambda>i.
     res_bind (ft_symToKbits (dm_table c) i (dg_getTotalCapacity g)) (\<lambda>kb.
     res_bind (uc_pfToPs (dm_converter c) (ucast kb)) (\<lambda>ps.
     res_bind (uc_kbitsToPkt (dm_converter c) kb) (\<lambda>pkt.
       let kbps = ucast ps :: u16 in
       Inr ((c\<lparr>dm_carrier_remaining := (dm_carrier_remaining c)(label :=
                 (dm_carrier_remaining c label)(dg_carriers_id g := uint kbps))\<rparr>,
             tot + kbps, cap + kbps),
            dg_setRemainingCapacity (ucast pkt) g))))))"

definition reset_category :: "dama_category \<Rightarrow> dama_ctrl \<times> rate_kbps_t
    \<Rightarrow> ((dama_ctrl \<times> rate_kbps_t) \<times> dama_category) res" where
  "reset_category cat = (\<lambda>(c, tot).
     res_bind (groups_loop (reset_group (dc_label cat)) (dc_groups cat) (c, tot, 0)) (\<lambda>((c1, tot1, cap), gs).
       Inr ((c1\<lparr>dm_cat_remaining := (dm_cat_remaining c1)(dc_label cat := uint cap)\<rparr>, tot1),
            cat\<lparr>dc_groups := gs\<rparr>)))"

definition dm_resetCarriersCapacity :: "dama_ctrl \<Rightarrow> dama_ctrl res" where
  "dm_resetCarriersCapacity c =
     res_bind (cats_loop reset_category (dm_categories c) (c, 0)) (\<lambda>((c1, tot), cats).
       Inr (c1\<lparr>dm_categories := cats, dm_remaining := uint tot\<rparr>))"

end
