(* ===== verification/DamaAlloc.thy ===== *)
theory DamaAlloc
  imports DamaCtrl
begin

text \<open>
  The allocations of a superframe: \<open>DamaCtrl::runOnSuperFrameChange\<close>, \<open>computeTerminalsAllocations\<close>
  and \<open>dvb/dama/DamaCtrlRcsLegacy.cpp\<close>. One function per carriers group and kind of capacity: CRA,
  RBDC, VBDC, FCA, in this order. The remaining capacity of a group is an \<open>unsigned int\<close>, copied to a
  16-bit number of packets per frame while the group is served.
\<close>

text \<open>The state of a loop over the terminals of a group.\<close>

record alloc =
  al_ctrl :: dama_ctrl
  al_rem :: rate_pktpf_t
  al_req :: u16          \<comment> \<open>\<open>request_rate_kbps\<close>, \<open>request_vol_kb\<close>\<close>
  al_alloc :: u16        \<comment> \<open>\<open>alloc_rate_kbps\<close>, \<open>alloc_vol_kb\<close>\<close>

definition new_alloc :: "dama_ctrl \<Rightarrow> dama_group \<Rightarrow> alloc" where
  "new_alloc c g = \<lparr>al_ctrl = c, al_rem = ucast (dg_remaining g), al_req = 0, al_alloc = 0\<rparr>"

text \<open>\<open>getTerminalsInCarriersGroup\<close>\<close>

definition in_carrier :: "u32 \<Rightarrow> dama_ctrl \<Rightarrow> tal_id_t \<Rightarrow> bool" where
  "in_carrier cid c i = (case om_find (dm_terminals c) i of None \<Rightarrow> False | Some t \<Rightarrow> dt_carrier t = cid)"

definition terminals_in_group :: "dama_category \<Rightarrow> u32 \<Rightarrow> dama_ctrl \<Rightarrow> tal_id_t list" where
  "terminals_in_group cat cid c = filter (in_carrier cid c) (dc_terminals cat)"

definition the_term :: "dama_ctrl \<Rightarrow> tal_id_t \<Rightarrow> dama_term" where
  "the_term c i = (case om_find (dm_terminals c) i of None \<Rightarrow> new_dama_term 0 i 0 0 0 0 | Some t \<Rightarrow> t)"

text \<open>The total capacity in packets, computed for the log.\<close>

definition log_total :: "dama_ctrl \<Rightarrow> dama_group \<Rightarrow> vol_pkt_t res" where
  "log_total c g = uc_symToPkt (dm_converter c) (dg_getTotalCapacity g)"

text \<open>The books of the capacity that remains, in kb/s.\<close>

definition spend :: "string \<Rightarrow> u32 \<Rightarrow> u16 \<Rightarrow> dama_ctrl \<Rightarrow> dama_ctrl" where
  "spend label cid kbps c =
     c\<lparr>dm_carrier_remaining := (dm_carrier_remaining c)(label :=
         (dm_carrier_remaining c label)(cid := dm_carrier_remaining c label cid - uint kbps)),
       dm_cat_remaining := (dm_cat_remaining c)(label := dm_cat_remaining c label - uint kbps),
       dm_remaining := dm_remaining c - uint kbps\<rparr>"

section \<open>CRA\<close>

definition cra_term :: "tal_id_t \<Rightarrow> alloc \<Rightarrow> alloc res" where
  "cra_term i a =
     (let c = al_ctrl a in
      res_bind (dm_term i c) (\<lambda>t.
        case dt_fmt t of
          None \<Rightarrow> Inr a
        | Some d \<Rightarrow>
            let uc = uc_setModulationEfficiency (fd_eff d) (dm_converter c);
                a1 = a\<lparr>al_ctrl := c\<lparr>dm_converter := uc\<rparr>, al_req := al_req a + dt_cra_req t\<rparr>
            in res_bind (uc_kbpsToPktpf uc (dt_cra_req t)) (\<lambda>pkt.
               res_bind (uc_pktpfToKbps uc pkt) (\<lambda>kbps.
                 if al_rem a < pkt then Inr a1
                 else res_bind (dm_probe_le i c) (\<lambda>_.
                   Inr (a1\<lparr>al_rem := al_rem a - pkt, al_alloc := al_alloc a + kbps,
                           al_ctrl := dm_set i (dt_setCraAllocation kbps t) (al_ctrl a1)\<rparr>))))))"

definition cra_group :: "dama_category \<Rightarrow> dama_group \<Rightarrow> dama_ctrl \<Rightarrow> (alloc \<times> dama_group) res" where
  "cra_group cat g c =
     res_bind (log_total c g) (\<lambda>_.
     res_bind (res_fold cra_term (terminals_in_group cat (dg_carriers_id g) c) (new_alloc c g)) (\<lambda>a.
       Inr (a, dg_setRemainingCapacity (ucast (al_rem a)) g)))"

section \<open>RBDC\<close>

text \<open>The sum of the requests; \<open>total_request_pktpf\<close> is \<open>al_alloc\<close> here, a 16-bit sum.\<close>

definition rbdc_request_term :: "tal_id_t \<Rightarrow> alloc \<Rightarrow> alloc res" where
  "rbdc_request_term i a =
     (let c = al_ctrl a in
      res_bind (dm_term i c) (\<lambda>t.
      res_bind (uc_kbpsToPktpf (dm_converter c) (dt_rbdc_req t)) (\<lambda>pkt.
        Inr (a\<lparr>al_alloc := al_alloc a + pkt, al_req := al_req a + dt_rbdc_req t,
               al_ctrl := (if 0 < pkt then c\<lparr>dm_rbdc_req_num := dm_rbdc_req_num c + 1\<rparr> else c)\<rparr>))))"

definition fair_share :: "u16 \<Rightarrow> u16 \<Rightarrow> rat" where
  "fair_share tot remaining =
     (let f = f64 (rat_of_word tot / rat_of_word remaining) in if f < 1 then 1 else f)"

text \<open>First step: the integer part of the fair share; its fraction becomes credit.\<close>

definition rbdc_step1 :: "string \<Rightarrow> u32 \<Rightarrow> rat \<Rightarrow> tal_id_t \<Rightarrow> alloc \<Rightarrow> alloc res" where
  "rbdc_step1 label cid fs i a =
     (let c = al_ctrl a; uc = dm_converter c in
      res_bind (dm_term i c) (\<lambda>t.
      res_bind (uc_kbpsToPktpf uc (dt_rbdc_req t)) (\<lambda>pkt.
      let fair = f64 (rat_of_word pkt / fs) in
      res_bind (floor_uint fair) (\<lambda>n.
      res_bind (uc_pktpfToKbps uc n) (\<lambda>kbps.
      res_bind (dm_probe_le i c) (\<lambda>_.
        let t1 = dt_setRbdcAllocation kbps t;
            credit = f64 (f64 (f64 (fair - rat_of_word n) * rat_of_word (uc_getPacketBitLength uc))
                       / rat_of_word (uc_frame_ms uc));
            t2 = (if 1 < fs then dt_addRbdcCredit credit t1 else t1)
        in Inr (a\<lparr>al_alloc := al_alloc a + kbps, al_rem := al_rem a - n,
                  al_ctrl := spend label cid kbps (dm_set i t2 c)\<rparr>)))))))"

text \<open>Second step: one more packet to those whose credit exceeds one, while there are packets.\<close>

fun rbdc_step2 :: "string \<Rightarrow> u32 \<Rightarrow> tal_id_t list \<Rightarrow> alloc \<Rightarrow> alloc res" where
  "rbdc_step2 label cid [] a = Inr a"
| "rbdc_step2 label cid (i # l) a =
     (if al_rem a = 0 then Inr a
      else let c = al_ctrl a in
        res_bind (dm_term i c) (\<lambda>t.
        res_bind (uc_pktpfToKbps (dm_converter c) 1) (\<lambda>slot.
          if rat_of_word slot < dt_credit t
             \<and> uint slot < uint (dt_max_rbdc t) - uint (dt_rbdc_alloc t)
          then rbdc_step2 label cid l
                 (a\<lparr>al_alloc := al_alloc a + slot, al_rem := al_rem a - 1,
                    al_ctrl := spend label cid slot
                      (dm_set i (dt_addRbdcCredit (- rat_of_word slot)
                         (dt_setRbdcAllocation (dt_rbdc_alloc t + slot) t)) c)\<rparr>)
          else rbdc_step2 label cid l a)))"

definition rbdc_group :: "dama_category \<Rightarrow> dama_group \<Rightarrow> dama_ctrl \<Rightarrow> (alloc \<times> dama_group) res" where
  "rbdc_group cat g c =
     (let label = dc_label cat; cid = dg_carriers_id g; tal = terminals_in_group cat cid c; a0 = new_alloc c g in
      res_bind (log_total c g) (\<lambda>_.
      if al_rem a0 = 0 then Inr (a0, g)
      else
      res_bind (res_fold rbdc_request_term tal a0) (\<lambda>a1.
      if al_alloc a1 = 0 then res_bind (dm_probes_lt tal c) (\<lambda>_. Inr (a1, g))
      else
        let fs = fair_share (al_alloc a1) (al_rem a1) in
        res_bind (res_fold (rbdc_step1 label cid fs) tal (a1\<lparr>al_alloc := 0\<rparr>)) (\<lambda>a2.
        res_bind (if 1 < fs then rbdc_step2 label cid (sortByRemainingCredit (the_term (al_ctrl a2)) tal) a2
                  else Inr a2) (\<lambda>a3.
          Inr (a3, dg_setRemainingCapacity (ucast (al_rem a3)) g))))))"

section \<open>VBDC\<close>

definition vbdc_term :: "string \<Rightarrow> u32 \<Rightarrow> tal_id_t \<Rightarrow> alloc \<Rightarrow> alloc res" where
  "vbdc_term label cid i a =
     (let c = al_ctrl a; uc = dm_converter c in
      res_bind (dm_term i c) (\<lambda>t.
      res_bind (uc_kbitsToPkt uc (dt_vbdc_req t)) (\<lambda>req.
        if req = 0 then Inr a
        else
          let n = (if req \<le> al_rem a then req else al_rem a) in
          res_bind (uc_pktToKbits uc n) (\<lambda>kb.
          res_bind (dm_probe_le i c) (\<lambda>_.
          res_bind (uc_pfToPs uc (ucast kb)) (\<lambda>ps.
            Inr (a\<lparr>al_req := al_req a + dt_vbdc_req t, al_alloc := al_alloc a + kb, al_rem := al_rem a - n,
                   al_ctrl := spend label cid (ucast ps)
                     ((dm_set i (dt_setVbdcAllocation kb t) c)\<lparr>dm_vbdc_req_num := dm_vbdc_req_num c + 1\<rparr>)\<rparr>)))))))"

text \<open>The loop that serves, and the one that only counts the requests it could not serve.\<close>

fun vbdc_rest :: "tal_id_t list \<Rightarrow> alloc \<Rightarrow> alloc res" where
  "vbdc_rest [] a = Inr a"
| "vbdc_rest (i # l) a =
     res_bind (dm_term i (al_ctrl a)) (\<lambda>t.
       vbdc_rest l (if 0 < dt_vbdc_req t
         then a\<lparr>al_req := al_req a + dt_vbdc_req t,
                al_ctrl := (al_ctrl a)\<lparr>dm_vbdc_req_num := dm_vbdc_req_num (al_ctrl a) + 1\<rparr>\<rparr>
         else a))"

fun vbdc_loop :: "string \<Rightarrow> u32 \<Rightarrow> tal_id_t list \<Rightarrow> alloc \<Rightarrow> alloc res" where
  "vbdc_loop label cid [] a = Inr a"
| "vbdc_loop label cid (i # l) a =
     (if al_rem a = 0 then vbdc_rest (i # l) a
      else res_bind (vbdc_term label cid i a) (vbdc_loop label cid l))"

definition vbdc_group :: "dama_category \<Rightarrow> dama_group \<Rightarrow> dama_ctrl \<Rightarrow> (alloc \<times> dama_group) res" where
  "vbdc_group cat g c =
     (let cid = dg_carriers_id g; tal = terminals_in_group cat cid c; a0 = new_alloc c g in
      res_bind (log_total c g) (\<lambda>_.
      if al_rem a0 = 0 then res_bind (dm_probes_lt tal c) (\<lambda>_. Inr (a0, g))
      else if tal = [] then Inr (a0, g)
      else
        let order = sortByVbdcReq (the_term c) (sortByVbdcReq (the_term c) tal) in
        res_bind (vbdc_loop (dc_label cat) cid order a0) (\<lambda>a.
          Inr (a, dg_setRemainingCapacity (ucast (al_rem a)) g))))"

section \<open>FCA\<close>

definition fca_term :: "string \<Rightarrow> u32 \<Rightarrow> u16 \<Rightarrow> tal_id_t \<Rightarrow> alloc \<Rightarrow> alloc res" where
  "fca_term label cid fca i a =
     (let c = al_ctrl a in
      res_bind (dm_term i c) (\<lambda>t.
        let n = (if fca < al_rem a then fca else al_rem a) in
        res_bind (uc_pktpfToKbps (dm_converter c) n) (\<lambda>kbps.
        res_bind (dm_probe_le i c) (\<lambda>_.
          Inr (a\<lparr>al_alloc := al_alloc a + kbps, al_rem := (if fca < al_rem a then al_rem a - fca else 0),
                 al_ctrl := spend label cid kbps (dm_set i (dt_setFcaAllocation kbps t) c)\<rparr>)))))"

fun fca_loop :: "string \<Rightarrow> u32 \<Rightarrow> u16 \<Rightarrow> tal_id_t list \<Rightarrow> alloc \<Rightarrow> alloc res" where
  "fca_loop label cid fca [] a = Inr a"
| "fca_loop label cid fca (i # l) a =
     (if al_rem a = 0 then Inr a else res_bind (fca_term label cid fca i a) (fca_loop label cid fca l))"

definition fca_group :: "dama_category \<Rightarrow> dama_group \<Rightarrow> dama_ctrl \<Rightarrow> (alloc \<times> dama_group) res" where
  "fca_group cat g c =
     (let cid = dg_carriers_id g; tal = terminals_in_group cat cid c; a0 = new_alloc c g in
      res_bind (uc_kbpsToPktpf (dm_converter c) (dm_fca c)) (\<lambda>fca.
      if tal = [] then Inr (a0, g)
      else res_bind (log_total c g) (\<lambda>_.
        if al_rem a0 = 0 then res_bind (dm_probes_lt tal c) (\<lambda>_. Inr (a0, g))
        else res_bind (fca_loop (dc_label cat) cid fca (sortByRemainingCredit (the_term c) tal) a0) (\<lambda>a.
          Inr (a, dg_setRemainingCapacity (ucast (al_rem a)) g)))))"

section \<open>All carriers\<close>

text \<open>
  One kind of capacity for all the groups: the status of the CRA (false when a group could not give
  what was asked) and the sums for the probes ride along.
\<close>

type_synonym dama_sums = "bool \<times> u16 \<times> int"   \<comment> \<open>status, requested (16 bits), allocated\<close>

definition group_step :: "(dama_category \<Rightarrow> dama_group \<Rightarrow> dama_ctrl \<Rightarrow> (alloc \<times> dama_group) res)
    \<Rightarrow> dama_category \<Rightarrow> dama_group \<Rightarrow> dama_ctrl \<times> dama_sums \<Rightarrow> ((dama_ctrl \<times> dama_sums) \<times> dama_group) res" where
  "group_step f cat g = (\<lambda>(c, st, req, al).
     res_bind (f cat g c) (\<lambda>(a, g1).
       Inr ((al_ctrl a, st \<and> \<not> al_alloc a < al_req a, req + al_req a, al + uint (al_alloc a)), g1)))"

definition category_step :: "(dama_category \<Rightarrow> dama_group \<Rightarrow> dama_ctrl \<Rightarrow> (alloc \<times> dama_group) res)
    \<Rightarrow> dama_category \<Rightarrow> dama_ctrl \<times> dama_sums \<Rightarrow> ((dama_ctrl \<times> dama_sums) \<times> dama_category) res" where
  "category_step f cat s =
     res_bind (groups_loop (group_step f cat) (dc_groups cat) s) (\<lambda>(s1, gs). Inr (s1, cat\<lparr>dc_groups := gs\<rparr>))"

definition all_carriers :: "(dama_category \<Rightarrow> dama_group \<Rightarrow> dama_ctrl \<Rightarrow> (alloc \<times> dama_group) res)
    \<Rightarrow> dama_ctrl \<Rightarrow> (dama_ctrl \<times> dama_sums) res" where
  "all_carriers f c =
     res_bind (cats_loop (category_step f) (dm_categories c) (c, True, 0, 0)) (\<lambda>((c1, s), cats).
       Inr (c1\<lparr>dm_categories := cats\<rparr>, s))"

definition dm_computeTerminalsCraAllocation :: "dama_ctrl \<Rightarrow> (bool \<times> dama_ctrl) res" where
  "dm_computeTerminalsCraAllocation c =
     res_bind (all_carriers cra_group c) (\<lambda>(c1, st, req, al). Inr (st, c1\<lparr>dm_cra_alloc_kbps := al\<rparr>))"

definition dm_computeTerminalsRbdcAllocation :: "dama_ctrl \<Rightarrow> dama_ctrl res" where
  "dm_computeTerminalsRbdcAllocation c =
     res_bind (all_carriers rbdc_group c) (\<lambda>(c1, _). Inr (c1\<lparr>dm_rbdc_req_num := 0\<rparr>))"

definition dm_computeTerminalsVbdcAllocation :: "dama_ctrl \<Rightarrow> dama_ctrl res" where
  "dm_computeTerminalsVbdcAllocation c =
     res_bind (all_carriers vbdc_group c) (\<lambda>(c1, _). Inr (c1\<lparr>dm_vbdc_req_num := 0\<rparr>))"

definition dm_computeTerminalsFcaAllocation :: "dama_ctrl \<Rightarrow> dama_ctrl res" where
  "dm_computeTerminalsFcaAllocation c =
     (if dm_fca c = 0 then Inr c
      else res_bind (all_carriers fca_group c) (\<lambda>(c1, _). Inr c1))"

definition dm_computeTerminalsAllocations :: "dama_ctrl \<Rightarrow> (bool \<times> dama_ctrl) res" where
  "dm_computeTerminalsAllocations c =
     res_bind (dm_resetTerminalsAllocations c) (\<lambda>(ok1, c1).
     if \<not> ok1 then Inr (False, c1)
     else res_bind (dm_computeTerminalsCraAllocation c1) (\<lambda>(ok2, c2).
     if \<not> ok2 then Inr (False, c2)
     else res_bind (if \<not> dm_enable_rbdc c2
                    then res_bind (dm_probes_lt (om_keys (dm_terminals c2)) c2) (\<lambda>_. Inr c2)
                    else dm_computeTerminalsRbdcAllocation c2) (\<lambda>c3.
          res_bind (if \<not> dm_enable_vbdc c3
                    then res_bind (dm_probes_lt (om_keys (dm_terminals c3)) c3) (\<lambda>_. Inr c3)
                    else dm_computeTerminalsVbdcAllocation c3) (\<lambda>c4.
          res_bind (dm_computeTerminalsFcaAllocation c4) (\<lambda>c5. Inr (True, c5))))))"

text \<open>\<open>runOnSuperFrameChange\<close> ends in \<open>return 0\<close>: its result is false in every case.\<close>

definition dm_runOnSuperFrameChange :: "time_sf_t \<Rightarrow> dama_ctrl \<Rightarrow> (bool \<times> dama_ctrl) res" where
  "dm_runOnSuperFrameChange sf c =
     res_bind (dm_resetCarriersCapacity (c\<lparr>dm_superframe := sf\<rparr>)) (\<lambda>c1.
     res_bind (dm_computeTerminalsAllocations (dm_updateWaveForms c1)) (\<lambda>(ok1, c2). Inr (False, c2)))"

end
