(* ===== verification/DamaGrants.thy ===== *)
theory DamaGrants
  imports DamaAlloc UnitConverterCorrect
begin

text \<open>
  The packets behind the allocations. An allocation of the DAMA controller is a rate or a volume; it
  was given as a number of packets per frame, taken from the capacity of the carriers group. A step of
  a loop over terminals gives packets to one of them and touches no other; the locale \<open>serving\<close> states
  this contract, with a budget where the step does not check the capacity itself, and proves it for
  the loop.
\<close>

section \<open>Allocations and packets\<close>

datatype capacity = CRA | RBDC | VBDC | FCA

fun alloc_of :: "capacity \<Rightarrow> dama_term \<Rightarrow> u16" where
  "alloc_of CRA t = dt_cra_alloc t"
| "alloc_of RBDC t = dt_rbdc_alloc t"
| "alloc_of VBDC t = dt_vbdc_alloc t"
| "alloc_of FCA t = dt_fca_alloc t"

text \<open>\<open>given K uc n v\<close>: the allocation \<open>v\<close> of kind \<open>K\<close> is \<open>n\<close> packets. RBDC has its second step.\<close>

fun given :: "capacity \<Rightarrow> unit_converter \<Rightarrow> nat \<Rightarrow> u16 \<Rightarrow> bool" where
  "given VBDC uc n v \<longleftrightarrow> (\<exists>p. unat p = n \<and> uc_pktToKbits uc p = Inr v)"
| "given RBDC uc n v \<longleftrightarrow> (\<exists>p w. uc_pktpfToKbps uc p = Inr w \<and>
     (n = unat p \<and> v = w \<or> n = unat p + 1 \<and> (\<exists>slot. uc_pktpfToKbps uc 1 = Inr slot \<and> v = w + slot)))"
| "given CRA uc n v \<longleftrightarrow> (\<exists>p. unat p = n \<and> uc_pktpfToKbps uc p = Inr v)"
| "given FCA uc n v \<longleftrightarrow> (\<exists>p. unat p = n \<and> uc_pktpfToKbps uc p = Inr v)"

text \<open>The efficiency of the last terminal served stays in the converter; a packet of a fixed number of
  bits does not depend on it.\<close>

definition bit_ok :: "unit_converter \<Rightarrow> bool" where
  "bit_ok uc \<longleftrightarrow> uc_ok uc \<and> uc_kind uc = FixedBitLength"

definition same_packets :: "unit_converter \<Rightarrow> unit_converter \<Rightarrow> bool" where
  "same_packets uc uc' \<longleftrightarrow> uc_kind uc = FixedBitLength \<and> uc_kind uc' = FixedBitLength
     \<and> uc_frame_ms uc' = uc_frame_ms uc \<and> uc_frame_inv uc' = uc_frame_inv uc
     \<and> uc_len uc' = uc_len uc \<and> uc_len_inv uc' = uc_len_inv uc"

lemma same_packets_refl [simp]: "uc_kind uc = FixedBitLength \<Longrightarrow> same_packets uc uc"
  by (simp add: same_packets_def)

lemma same_packets_trans: "same_packets a b \<Longrightarrow> same_packets b c \<Longrightarrow> same_packets a c"
  by (simp add: same_packets_def)

lemma same_packets_eff [simp]:
  "uc_kind uc = FixedBitLength \<Longrightarrow> same_packets uc (uc_setModulationEfficiency e uc)"
  by (simp add: same_packets_def uc_setModulationEfficiency_def)

lemma same_packets_conv:
  assumes "same_packets uc uc'"
  shows "uc_kbpsToPktpf uc' = uc_kbpsToPktpf uc" "uc_pktpfToKbps uc' = uc_pktpfToKbps uc"
    "uc_kbitsToPkt uc' = uc_kbitsToPkt uc" "uc_pktToKbits uc' = uc_pktToKbits uc" "bit_ok uc' = bit_ok uc"
    "given K uc' = given K uc"
proof -
  show r: "uc_kbpsToPktpf uc' = uc_kbpsToPktpf uc" "uc_pktpfToKbps uc' = uc_pktpfToKbps uc"
    "uc_kbitsToPkt uc' = uc_kbitsToPkt uc" "uc_pktToKbits uc' = uc_pktToKbits uc" "bit_ok uc' = bit_ok uc"
    using assms
    by (auto simp: same_packets_def fun_eq_iff uc_kbpsToPktpf_def uc_pktpfToKbps_def uc_kbitsToPkt_def
      uc_pktToKbits_def bit_kbpsToPktpf_def bit_pktpfToKbps_def bit_kbitsToPkt_def bit_pktToKbits_def
      bit_ok_def uc_ok_def)
  then show "given K uc' = given K uc" by (cases K) (simp_all add: fun_eq_iff)
qed

lemma bit_ok_zero: "bit_ok uc \<Longrightarrow> uc_pktpfToKbps uc 0 = Inr 0 \<and> uc_pktToKbits uc 0 = Inr 0"
  by (simp add: bit_ok_def uc_pktpfToKbps_def uc_pktToKbits_def bit_pktpfToKbps_def bit_pktToKbits_def
      rat_of_word_def f32_def f64_def to_uint_def)

lemma given_zero: "bit_ok uc \<Longrightarrow> given K uc 0 0"
  using bit_ok_zero [of uc] by (cases K) (auto intro!: exI [of _ 0])

section \<open>What a step may change\<close>

text \<open>A terminal but for its allocation of one kind (and what goes with it).\<close>

definition same_but :: "capacity \<Rightarrow> dama_term \<Rightarrow> dama_term \<Rightarrow> bool" where
  "same_but K t t' \<longleftrightarrow> dt_id t' = dt_id t \<and> dt_category t' = dt_category t \<and> dt_carrier t' = dt_carrier t
     \<and> dt_fmt t' = dt_fmt t \<and> dt_rbdc_req t' = dt_rbdc_req t \<and> dt_max_rbdc t' = dt_max_rbdc t
     \<and> dt_cra_req t' = dt_cra_req t
     \<and> (\<forall>K'. K' \<noteq> K \<longrightarrow> alloc_of K' t' = alloc_of K' t)"

lemma same_but_refl [simp]: "same_but K t t"
  by (simp add: same_but_def)

lemma same_but_trans: "same_but K a b \<Longrightarrow> same_but K b c \<Longrightarrow> same_but K a c"
  by (simp add: same_but_def)

definition config where
  "config c = (dm_categories c, dm_fca c, dm_table c, dm_enable_rbdc c, dm_enable_vbdc c, dm_probes c)"

definition touched :: "capacity \<Rightarrow> tal_id_t set \<Rightarrow> dama_ctrl \<Rightarrow> dama_ctrl \<Rightarrow> bool" where
  "touched K S c c' \<longleftrightarrow> om_wf (dm_terminals c')
     \<and> config c' = config c \<and> same_packets (dm_converter c) (dm_converter c')
     \<and> (\<forall>i. i \<notin> S \<longrightarrow> om_find (dm_terminals c') i = om_find (dm_terminals c) i)
     \<and> (\<forall>i. om_find (dm_terminals c) i = None \<longrightarrow> om_find (dm_terminals c') i = None)
     \<and> (\<forall>i t. om_find (dm_terminals c) i = Some t
          \<longrightarrow> (\<exists>t'. om_find (dm_terminals c') i = Some t' \<and> same_but K t t'))"

lemma touched_refl: "om_wf (dm_terminals c) \<Longrightarrow> bit_ok (dm_converter c) \<Longrightarrow> touched K S c c"
  by (simp add: touched_def bit_ok_def)

lemma touched_trans:
  assumes "touched K S a b" "touched K T b c"
  shows "touched K (S \<union> T) a c"
proof -
  have "\<exists>t'. om_find (dm_terminals c) i = Some t' \<and> same_but K t t'"
    if at: "om_find (dm_terminals a) i = Some t" for i t
  proof -
    obtain u where u: "om_find (dm_terminals b) i = Some u" "same_but K t u"
      using assms(1) at unfolding touched_def by blast
    then obtain v where "om_find (dm_terminals c) i = Some v" "same_but K u v"
      using assms(2) unfolding touched_def by blast
    with u show ?thesis by (blast intro: same_but_trans)
  qed
  then show ?thesis using assms unfolding touched_def by (auto elim: same_packets_trans)
qed

lemma touched_mono: "touched K S c c' \<Longrightarrow> S \<subseteq> T \<Longrightarrow> touched K T c c'"
  unfolding touched_def by blast

lemma touched_wf: "touched K S c c' \<Longrightarrow> om_wf (dm_terminals c')"
  by (simp add: touched_def)

lemma touched_conv: "touched K S c c' \<Longrightarrow> same_packets (dm_converter c) (dm_converter c')"
  by (simp add: touched_def)

lemma touched_bit_ok: "touched K S c c' \<Longrightarrow> bit_ok (dm_converter c) \<Longrightarrow> bit_ok (dm_converter c')"
  using same_packets_conv(5) [OF touched_conv] by blast

lemma touched_outside: "touched K S c c' \<Longrightarrow> i \<notin> S \<Longrightarrow> om_find (dm_terminals c') i = om_find (dm_terminals c) i"
  by (simp add: touched_def)

lemma touched_same:
  assumes "touched K S c c'" "om_find (dm_terminals c) i = Some t"
  obtains t' where "om_find (dm_terminals c') i = Some t'" "same_but K t t'"
  using assms unfolding touched_def by blast

lemma touched_config: "touched K S c c' \<Longrightarrow> config c' = config c"
  by (simp add: touched_def)

text \<open>One terminal is written; the books and the efficiency may change beside it.\<close>

lemma touched_set:
  assumes "om_wf (dm_terminals c)" "om_find (dm_terminals c) i = Some t" "same_but K t t'"
    "dm_terminals c' = om_put i t' (dm_terminals c)"
    "config c' = config c" "same_packets (dm_converter c) (dm_converter c')"
  shows "touched K {i} c c'"
  using assms by (auto simp: touched_def)

section \<open>Serving a list of terminals\<close>

text \<open>\<open>accounted\<close>: the terminals of \<open>l\<close> were given packets, taken from the capacity; \<open>G\<close> relates the
  packets and the allocation.\<close>

type_synonym giving = "unit_converter \<Rightarrow> nat \<Rightarrow> u16 \<Rightarrow> bool"

definition giving_ok :: "giving \<Rightarrow> bool" where
  "giving_ok G \<longleftrightarrow> (\<forall>uc. bit_ok uc \<longrightarrow> G uc 0 0) \<and> (\<forall>uc uc'. same_packets uc uc' \<longrightarrow> G uc' = G uc)"

lemma giving_ok_given [simp]: "giving_ok (given K)"
  unfolding giving_ok_def using given_zero same_packets_conv(6) by blast

definition accounted :: "giving \<Rightarrow> capacity \<Rightarrow> tal_id_t list \<Rightarrow> dama_ctrl \<Rightarrow> dama_ctrl \<Rightarrow> nat \<Rightarrow> nat \<Rightarrow> bool" where
  "accounted G K l c c' before after \<longleftrightarrow>
     (\<exists>gr. (\<Sum>i\<leftarrow>l. gr i) + after = before
       \<and> (\<forall>i \<in> set l. \<exists>t. om_find (dm_terminals c') i = Some t
            \<and> G (dm_converter c) (gr i) (alloc_of K t)))"

definition fresh_for :: "capacity \<Rightarrow> tal_id_t list \<Rightarrow> dama_ctrl \<Rightarrow> bool" where
  "fresh_for K l c \<longleftrightarrow> om_wf (dm_terminals c) \<and> bit_ok (dm_converter c)
     \<and> (\<forall>i \<in> set l. \<exists>t. om_find (dm_terminals c) i = Some t \<and> alloc_of K t = 0)"

lemma accounted_nothing:
  assumes "fresh_for K l c" "touched K {} c c'" "giving_ok G"
  shows "accounted G K l c c' n n"
proof -
  have "\<exists>t. om_find (dm_terminals c') i = Some t \<and> G (dm_converter c) 0 (alloc_of K t)"
    if "i \<in> set l" for i
    using assms that touched_outside [OF assms(2), of i] assms(3)
    by (auto simp: fresh_for_def giving_ok_def)
  then show ?thesis unfolding accounted_def by (intro exI [of _ "\<lambda>_. 0"]) simp
qed

lemma accounted_step:
  assumes i: "i \<notin> set l" and t1: "touched K {i} c c1" and t2: "touched K (set l) c1 c2"
    and n: "n + middle = before" and g: "om_find (dm_terminals c1) i = Some t" "G (dm_converter c) n (alloc_of K t)"
    and rest: "accounted G K l c1 c2 middle after" and gok: "giving_ok G"
  shows "accounted G K (i # l) c c2 before after"
proof -
  obtain gr where gr: "(\<Sum>i\<leftarrow>l. gr i) + after = middle"
    "\<forall>i \<in> set l. \<exists>t. om_find (dm_terminals c2) i = Some t \<and> G (dm_converter c1) (gr i) (alloc_of K t)"
    using rest by (auto simp: accounted_def)
  define gr' where "gr' = gr(i := n)"
  have "(\<Sum>j\<leftarrow>l. gr' j) = (\<Sum>j\<leftarrow>l. gr j)" using i by (intro arg_cong [where f = sum_list] map_cong) (auto simp: gr'_def)
  then have "(\<Sum>j\<leftarrow>i # l. gr' j) + after = before" using gr(1) n by (simp add: gr'_def)
  moreover have "G (dm_converter c1) = G (dm_converter c)"
    using gok touched_conv [OF t1] by (auto simp: giving_ok_def)
  moreover have "om_find (dm_terminals c2) i = Some t" using touched_outside [OF t2 i] g(1) by simp
  moreover have "\<exists>t. om_find (dm_terminals c2) j = Some t \<and> G (dm_converter c1) (gr' j) (alloc_of K t)"
    if "j \<in> set l" for j using gr(2) that i by (auto simp: gr'_def)
  moreover have "gr' i = n" by (simp add: gr'_def)
  ultimately have "(\<Sum>j\<leftarrow>i # l. gr' j) + after = before"
    "\<forall>j \<in> set (i # l). \<exists>t. om_find (dm_terminals c2) j = Some t
       \<and> G (dm_converter c) (gr' j) (alloc_of K t)"
    using g(2) by auto
  then show ?thesis unfolding accounted_def by blast
qed

lemma fresh_after:
  assumes "fresh_for K (i # l) c" "touched K {i} c c1" "i \<notin> set l"
  shows "fresh_for K l c1"
proof -
  have "om_find (dm_terminals c1) j = om_find (dm_terminals c) j" if "j \<in> set l" for j
    using touched_outside [OF assms(2), of j] that assms(3) by auto
  then show ?thesis using assms(1) touched_wf [OF assms(2)] touched_bit_ok [OF assms(2)]
    by (auto simp: fresh_for_def)
qed

text \<open>The contract of a step, and its loop.\<close>

locale serving =
  fixes K :: capacity and G :: giving and h :: "tal_id_t \<Rightarrow> alloc \<Rightarrow> alloc res"
    and budget :: "tal_id_t list \<Rightarrow> dama_ctrl \<Rightarrow> nat \<Rightarrow> bool"
  assumes gok: "giving_ok G"
    and step: "fresh_for K (i # l) (al_ctrl a) \<Longrightarrow> i \<notin> set l \<Longrightarrow> budget (i # l) (al_ctrl a) (unat (al_rem a))
    \<Longrightarrow> h i a = Inr a'
    \<Longrightarrow> touched K {i} (al_ctrl a) (al_ctrl a') \<and> budget l (al_ctrl a') (unat (al_rem a'))
       \<and> (\<exists>n t. n + unat (al_rem a') = unat (al_rem a) \<and> om_find (dm_terminals (al_ctrl a')) i = Some t
            \<and> G (dm_converter (al_ctrl a)) n (alloc_of K t))"
begin

lemma loop:
  assumes "res_fold h l a = Inr a'" "distinct l" "fresh_for K l (al_ctrl a)" "budget l (al_ctrl a) (unat (al_rem a))"
  shows "touched K (set l) (al_ctrl a) (al_ctrl a')"
    and "accounted G K l (al_ctrl a) (al_ctrl a') (unat (al_rem a)) (unat (al_rem a'))"
proof -
  have "touched K (set l) (al_ctrl a) (al_ctrl a')
      \<and> accounted G K l (al_ctrl a) (al_ctrl a') (unat (al_rem a)) (unat (al_rem a'))"
    using assms
  proof (induction l arbitrary: a)
    case Nil
    then have "om_wf (dm_terminals (al_ctrl a))" "bit_ok (dm_converter (al_ctrl a))"
      by (auto simp: fresh_for_def)
    then have "touched K {} (al_ctrl a) (al_ctrl a)" by (rule touched_refl)
    with Nil show ?case using accounted_nothing [OF _ _ gok] by auto
  next
    case (Cons i l)
    obtain a1 where a1: "h i a = Inr a1" "res_fold h l a1 = Inr a'"
      using Cons.prems(1) by (auto simp: res_bind_Inr)
    have i: "i \<notin> set l" "distinct l" using Cons.prems(2) by auto
    note s = step [OF Cons.prems(3) i(1) Cons.prems(4) a1(1)]
    then obtain n t where n: "n + unat (al_rem a1) = unat (al_rem a)"
      "om_find (dm_terminals (al_ctrl a1)) i = Some t" "G (dm_converter (al_ctrl a)) n (alloc_of K t)"
      by blast
    have f: "fresh_for K l (al_ctrl a1)" using fresh_after [OF Cons.prems(3) _ i(1)] s by blast
    have ih: "touched K (set l) (al_ctrl a1) (al_ctrl a')"
      "accounted G K l (al_ctrl a1) (al_ctrl a') (unat (al_rem a1)) (unat (al_rem a'))"
      using Cons.IH [OF a1(2) i(2) f] s by auto
    have "touched K ({i} \<union> set l) (al_ctrl a) (al_ctrl a')" using touched_trans s ih(1) by blast
    moreover have "accounted G K (i # l) (al_ctrl a) (al_ctrl a') (unat (al_rem a)) (unat (al_rem a'))"
      using accounted_step [OF i(1) _ ih(1) n ih(2) gok] s by blast
    ultimately show ?case by simp
  qed
  then show "touched K (set l) (al_ctrl a) (al_ctrl a')"
    and "accounted G K l (al_ctrl a) (al_ctrl a') (unat (al_rem a)) (unat (al_rem a'))" by auto
qed

text \<open>A loop that stops serving when the capacity is used up.\<close>

lemma loop_until:
  assumes nil: "\<And>a. L [] a = Inr a"
    and cons: "\<And>i l a. al_rem a \<noteq> 0 \<Longrightarrow> L (i # l) a = res_bind (h i a) (L l)"
    and stop: "\<And>i l a a'. al_rem a = 0 \<Longrightarrow> om_wf (dm_terminals (al_ctrl a)) \<Longrightarrow> bit_ok (dm_converter (al_ctrl a))
        \<Longrightarrow> L (i # l) a = Inr a' \<Longrightarrow> touched K {} (al_ctrl a) (al_ctrl a') \<and> al_rem a' = 0"
    and run: "L l a = Inr a'" "distinct l" "fresh_for K l (al_ctrl a)" "budget l (al_ctrl a) (unat (al_rem a))"
  shows "touched K (set l) (al_ctrl a) (al_ctrl a')
    \<and> accounted G K l (al_ctrl a) (al_ctrl a') (unat (al_rem a)) (unat (al_rem a'))"
  using run
proof (induction l arbitrary: a)
  case Nil
  then have "om_wf (dm_terminals (al_ctrl a))" "bit_ok (dm_converter (al_ctrl a))"
    by (auto simp: fresh_for_def)
  then have "touched K {} (al_ctrl a) (al_ctrl a)" by (rule touched_refl)
  with Nil nil show ?case using accounted_nothing [OF _ _ gok] by auto
next
  case (Cons i l)
  note fresh = Cons.prems(3)
  show ?case
  proof (cases "al_rem a = 0")
    case True
    have s: "touched K {} (al_ctrl a) (al_ctrl a')" "al_rem a' = 0"
      using stop [OF True _ _ Cons.prems(1)] fresh by (auto simp: fresh_for_def)
    then show ?thesis using accounted_nothing [OF fresh s(1) gok, of 0] touched_mono [OF s(1)] True by simp
  next
    case False
    obtain a1 where a1: "h i a = Inr a1" "L l a1 = Inr a'"
      using Cons.prems(1) by (auto simp: cons [OF False] res_bind_Inr)
    have i: "i \<notin> set l" "distinct l" using Cons.prems(2) by auto
    note s = step [OF fresh i(1) Cons.prems(4) a1(1)]
    then obtain n t where n: "n + unat (al_rem a1) = unat (al_rem a)"
      "om_find (dm_terminals (al_ctrl a1)) i = Some t" "G (dm_converter (al_ctrl a)) n (alloc_of K t)"
      by blast
    have f: "fresh_for K l (al_ctrl a1)" using fresh_after [OF fresh _ i(1)] s by blast
    have ih: "touched K (set l) (al_ctrl a1) (al_ctrl a')"
      "accounted G K l (al_ctrl a1) (al_ctrl a') (unat (al_rem a1)) (unat (al_rem a'))"
      using Cons.IH [OF a1(2) i(2) f] s by auto
    have "touched K ({i} \<union> set l) (al_ctrl a) (al_ctrl a')" using touched_trans s ih(1) by blast
    moreover have "accounted G K (i # l) (al_ctrl a) (al_ctrl a') (unat (al_rem a)) (unat (al_rem a'))"
      using accounted_step [OF i(1) _ ih(1) n ih(2) gok] s by blast
    ultimately show ?thesis by simp
  qed
qed

end

end
