(* ===== verification/DamaServe.thy ===== *)
theory DamaServe
  imports DamaGrants
begin

text \<open>
  The four kinds of capacity keep the contract of \<open>DamaGrants\<close>. For the RBDC the packets of the first
  step fit in the capacity because the fair share, a quotient of doubles, never rounds a terminal's
  part up by a whole packet.
\<close>

section \<open>CRA\<close>

lemma config_simps [simp]:
  "config (dm_set i t c) = config c" "config (c\<lparr>dm_converter := uc\<rparr>) = config c"
  "config (spend label cid kbps c) = config c" "config (c\<lparr>dm_vbdc_req_num := n\<rparr>) = config c"
  "config (c\<lparr>dm_rbdc_req_num := n\<rparr>) = config c"
  by (simp_all add: config_def dm_set_def spend_def)

lemma store_simps [simp]:
  "dm_terminals (dm_set i t c) = om_put i t (dm_terminals c)" "dm_converter (dm_set i t c) = dm_converter c"
  "dm_terminals (spend label cid kbps c) = dm_terminals c" "dm_converter (spend label cid kbps c) = dm_converter c"
  by (simp_all add: dm_set_def spend_def)

lemma dm_term_Inr: "dm_term i c = Inr t \<longleftrightarrow> om_find (dm_terminals c) i = Some t"
  by (auto simp: dm_term_def split: option.splits)

lemma unat_take: "n \<le> (r :: u16) \<Longrightarrow> unat n + unat (r - n) = unat r"
  by (simp add: unat_sub word_le_nat_alt)

lemma other_alloc [simp]:
  "K \<noteq> CRA \<Longrightarrow> alloc_of K (t\<lparr>dt_cra_alloc := v\<rparr>) = alloc_of K t"
  "K \<noteq> RBDC \<Longrightarrow> alloc_of K (t\<lparr>dt_rbdc_alloc := v\<rparr>) = alloc_of K t"
  "K \<noteq> VBDC \<Longrightarrow> alloc_of K (t\<lparr>dt_vbdc_alloc := v, dt_vbdc_req := w\<rparr>) = alloc_of K t"
  "K \<noteq> FCA \<Longrightarrow> alloc_of K (t\<lparr>dt_fca_alloc := v\<rparr>) = alloc_of K t"
  "alloc_of K (t\<lparr>dt_credit := r\<rparr>) = alloc_of K t"
  by (cases K; simp)+

lemma same_but_set [simp]:
  "same_but CRA t (dt_setCraAllocation v t)" "same_but FCA t (dt_setFcaAllocation v t)"
  "same_but VBDC t (dt_setVbdcAllocation v t)" "same_but RBDC t (dt_setRbdcAllocation v t)"
  "same_but RBDC t (dt_addRbdcCredit r (dt_setRbdcAllocation v t))"
  by (simp_all add: same_but_def dt_setCraAllocation_def dt_setFcaAllocation_def dt_setVbdcAllocation_def
      dt_setRbdcAllocation_def dt_addRbdcCredit_def)

lemma alloc_of_set [simp]:
  "dt_cra_alloc (dt_setCraAllocation v t) = v" "dt_fca_alloc (dt_setFcaAllocation v t) = v"
  "dt_vbdc_alloc (dt_setVbdcAllocation v t) = v" "dt_rbdc_alloc (dt_setRbdcAllocation v t) = v"
  "dt_rbdc_alloc (dt_addRbdcCredit r t) = dt_rbdc_alloc t"
  by (simp_all add: dt_setCraAllocation_def dt_setFcaAllocation_def dt_setVbdcAllocation_def
      dt_setRbdcAllocation_def dt_addRbdcCredit_def)

interpretation cra: serving CRA "given CRA" cra_term "\<lambda>l c n. True"
proof (rule serving.intro [OF giving_ok_given])
  fix i l a a'
  assume f: "fresh_for CRA (i # l) (al_ctrl a)" and "i \<notin> set l" and r: "cra_term i a = Inr a'"
  define c uc where "c = al_ctrl a" and "uc = dm_converter c"
  have wf: "om_wf (dm_terminals c)" "bit_ok uc" using f by (auto simp: fresh_for_def c_def uc_def)
  then have kind: "uc_kind uc = FixedBitLength" by (simp add: bit_ok_def)
  obtain t where t: "om_find (dm_terminals c) i = Some t" "dt_cra_alloc t = 0"
    using f by (auto simp: fresh_for_def c_def)
  have zero: "given CRA uc 0 (alloc_of CRA t)" using given_zero [OF wf(2)] t(2) by simp
  show "touched CRA {i} (al_ctrl a) (al_ctrl a') \<and> True
    \<and> (\<exists>n t. n + unat (al_rem a') = unat (al_rem a) \<and> om_find (dm_terminals (al_ctrl a')) i = Some t
         \<and> given CRA (dm_converter (al_ctrl a)) n (alloc_of CRA t))"
  proof (cases "dt_fmt t")
    case None
    then have "a' = a" using r t by (simp add: cra_term_def dm_term_def Let_def flip: c_def)
    then show ?thesis using t zero touched_refl [OF wf(1) wf(2) [unfolded uc_def]] by (auto simp flip: c_def uc_def)
  next
    case (Some d)
    define uc1 where "uc1 = uc_setModulationEfficiency (fd_eff d) uc"
    have same: "same_packets uc uc1" using kind by (simp add: uc1_def)
    obtain pkt kbps where k: "uc_kbpsToPktpf uc1 (dt_cra_req t) = Inr pkt" "uc_pktpfToKbps uc1 pkt = Inr kbps"
      and a': "a' = (if al_rem a < pkt
         then a\<lparr>al_ctrl := c\<lparr>dm_converter := uc1\<rparr>, al_req := al_req a + dt_cra_req t\<rparr>
         else a\<lparr>al_ctrl := dm_set i (dt_setCraAllocation kbps t) (c\<lparr>dm_converter := uc1\<rparr>),
                al_req := al_req a + dt_cra_req t, al_rem := al_rem a - pkt, al_alloc := al_alloc a + kbps\<rparr>)"
      using r Some t by (auto simp: cra_term_def dm_term_def Let_def res_bind_Inr simp flip: c_def uc_def uc1_def
          split: if_splits)
    have "uc_pktpfToKbps uc pkt = Inr kbps" using k(2) same_packets_conv(2) [OF same] by simp
    show ?thesis
    proof (cases "al_rem a < pkt")
      case True
      then have a1: "al_ctrl a' = c\<lparr>dm_converter := uc1\<rparr>" "al_rem a' = al_rem a" by (simp_all add: a')
      have "touched CRA {i} c (c\<lparr>dm_converter := uc1\<rparr>)"
        using wf(1) same by (simp add: touched_def flip: uc_def)
      then show ?thesis using t zero by (auto simp: a1 simp flip: c_def uc_def)
    next
      case False
      then have a1: "al_ctrl a' = dm_set i (dt_setCraAllocation kbps t) (c\<lparr>dm_converter := uc1\<rparr>)"
        "al_rem a' = al_rem a - pkt" by (simp_all add: a')
      have "touched CRA {i} c (al_ctrl a')"
        unfolding a1 by (intro touched_set [OF wf(1) t(1)]) (simp_all add: same flip: uc_def)
      moreover have "unat pkt + unat (al_rem a') = unat (al_rem a)" using False unat_take by (simp add: a1)
      moreover have "given CRA uc (unat pkt) kbps" using \<open>uc_pktpfToKbps uc pkt = Inr kbps\<close> by auto
      ultimately show ?thesis
        by (auto simp: a1 dt_setCraAllocation_def simp flip: c_def uc_def)
    qed
  qed
qed

section \<open>VBDC and FCA\<close>

interpretation fca: serving FCA "given FCA" "fca_term label cid fca" "\<lambda>l c n. True" for label cid fca
proof (rule serving.intro [OF giving_ok_given])
  fix i l a a'
  assume f: "fresh_for FCA (i # l) (al_ctrl a)" and "i \<notin> set l" and r: "fca_term label cid fca i a = Inr a'"
  define c where "c = al_ctrl a"
  have wf: "om_wf (dm_terminals c)" "bit_ok (dm_converter c)" using f by (auto simp: fresh_for_def c_def)
  define n where "n = (if fca < al_rem a then fca else al_rem a)"
  obtain t kbps where t: "om_find (dm_terminals c) i = Some t" and k: "uc_pktpfToKbps (dm_converter c) n = Inr kbps"
    and a': "al_ctrl a' = spend label cid kbps (dm_set i (dt_setFcaAllocation kbps t) c)"
      "al_rem a' = (if fca < al_rem a then al_rem a - fca else 0)"
    using r by (auto simp: fca_term_def Let_def res_bind_Inr dm_term_Inr simp flip: c_def n_def)
  have "touched FCA {i} c (al_ctrl a')"
    unfolding a' using wf by (intro touched_set [OF wf(1) t]) (simp_all add: bit_ok_def)
  moreover have "unat n + unat (al_rem a') = unat (al_rem a)"
    using unat_take [of fca "al_rem a"] by (auto simp: n_def a')
  moreover have "given FCA (dm_converter c) (unat n) (alloc_of FCA (dt_setFcaAllocation kbps t))"
    using k by auto
  moreover have "om_find (dm_terminals (al_ctrl a')) i = Some (dt_setFcaAllocation kbps t)" by (simp add: a')
  ultimately show "touched FCA {i} (al_ctrl a) (al_ctrl a') \<and> True
    \<and> (\<exists>n t. n + unat (al_rem a') = unat (al_rem a) \<and> om_find (dm_terminals (al_ctrl a')) i = Some t
         \<and> given FCA (dm_converter (al_ctrl a)) n (alloc_of FCA t))"
    unfolding c_def by blast
qed

interpretation vbdc: serving VBDC "given VBDC" "vbdc_term label cid" "\<lambda>l c n. True" for label cid
proof (rule serving.intro [OF giving_ok_given])
  fix i l a a'
  assume f: "fresh_for VBDC (i # l) (al_ctrl a)" and "i \<notin> set l" and r: "vbdc_term label cid i a = Inr a'"
  define c where "c = al_ctrl a"
  have wf: "om_wf (dm_terminals c)" "bit_ok (dm_converter c)" using f by (auto simp: fresh_for_def c_def)
  obtain t where t: "om_find (dm_terminals c) i = Some t" "dt_vbdc_alloc t = 0"
    using f by (auto simp: fresh_for_def c_def)
  obtain req where req: "uc_kbitsToPkt (dm_converter c) (dt_vbdc_req t) = Inr req"
    using r t by (auto simp: vbdc_term_def Let_def res_bind_Inr dm_term_Inr simp flip: c_def)
  show "touched VBDC {i} (al_ctrl a) (al_ctrl a') \<and> True
    \<and> (\<exists>n t. n + unat (al_rem a') = unat (al_rem a) \<and> om_find (dm_terminals (al_ctrl a')) i = Some t
         \<and> given VBDC (dm_converter (al_ctrl a)) n (alloc_of VBDC t))"
  proof (cases "req = 0")
    case True
    then have "a' = a" using r t req by (simp add: vbdc_term_def Let_def dm_term_def flip: c_def)
    then show ?thesis using t given_zero [OF wf(2), of VBDC] touched_refl [OF wf]
      by (auto simp flip: c_def)
  next
    case False
    define n where "n = (if req \<le> al_rem a then req else al_rem a)"
    obtain kb ps where k: "uc_pktToKbits (dm_converter c) n = Inr kb"
      and a': "al_ctrl a' = spend label cid ps ((dm_set i (dt_setVbdcAllocation kb t) c)
          \<lparr>dm_vbdc_req_num := dm_vbdc_req_num c + 1\<rparr>)" "al_rem a' = al_rem a - n"
      using r t req False by (auto simp: vbdc_term_def Let_def res_bind_Inr dm_term_def simp flip: c_def n_def)
    have "touched VBDC {i} c (al_ctrl a')"
      unfolding a' using wf by (intro touched_set [OF wf(1) t(1)]) (simp_all add: bit_ok_def)
    moreover have "unat n + unat (al_rem a') = unat (al_rem a)"
      unfolding a' by (rule unat_take) (auto simp: n_def)
    moreover have "given VBDC (dm_converter c) (unat n) (alloc_of VBDC (dt_setVbdcAllocation kb t))"
      using k by auto
    moreover have "om_find (dm_terminals (al_ctrl a')) i = Some (dt_setVbdcAllocation kb t)"
      by (simp add: a')
    ultimately show ?thesis
      unfolding c_def by blast
  qed
qed

section \<open>RBDC\<close>

text \<open>The packets of the first step.\<close>

definition fair_packets :: "rat \<Rightarrow> u16 \<Rightarrow> int" where
  "fair_packets fs p = \<lfloor>f64 (rat_of_word p / fs)\<rfloor>"

lemma f64_err: assumes "0 \<le> x" shows "f64 x \<le> x + x / 2 ^ 53" "x - x / 2 ^ 53 \<le> f64 x"
proof -
  have "\<bar>f64 x - x\<bar> \<le> x / 2 ^ 53" using rnd_err [of 53 x] assms by (simp add: f64_def)
  then show "f64 x \<le> x + x / 2 ^ 53" "x - x / 2 ^ 53 \<le> f64 x" unfolding abs_le_iff by linarith+
qed

text \<open>
  The part of a terminal is at most in proportion of its request, in whole packets: the two roundings
  add less than one part in \<open>2 ^ 51\<close>, and a product of two 16-bit numbers is under \<open>2 ^ 32\<close>.
\<close>

lemma fair_packets_le:
  assumes "0 < tot" "0 < remaining" "p \<le> tot"
  shows "0 \<le> fair_packets (fair_share tot remaining) p"
    and "fair_packets (fair_share tot remaining) p * int (unat tot) \<le> int (unat p * unat remaining)"
proof -
  define T R P where "T = rat_of_word tot" and "R = rat_of_word remaining" and "P = rat_of_word p"
  define fs where "fs = fair_share tot remaining"
  define k where "k = fair_packets fs p"
  have pos: "0 < T" "0 < R" "0 \<le> P" using assms by (simp_all add: T_def R_def P_def rat_of_word_pos)
  have bound: "T \<le> 65535" "R \<le> 65535" "P \<le> 65535"
    unfolding T_def R_def P_def rat_of_word_def by (rule of_nat_u16_le, rule unat_u16_less)+
  have fs1: "1 \<le> fs" by (simp add: fs_def fair_share_def Let_def)
  have k0: "0 \<le> P / fs" using pos fs1 by simp
  show "0 \<le> fair_packets (fair_share tot remaining) p"
    using k0 by (simp add: fair_packets_def P_def flip: fs_def)
  have k: "of_int k \<le> P / fs + P / fs / 2 ^ 53"
    using f64_err(1) [OF k0] by (simp add: k_def fair_packets_def P_def) linarith
  define e :: rat where "e = 1 / 2 ^ 53"
  have e: "0 < e" "e < 1" by (simp_all add: e_def)
  have TR: "0 < T / R" using pos by simp
  have R1: "1 \<le> R"
  proof -
    have "(of_nat 1 :: rat) \<le> of_nat (unat remaining)"
      using assms(2) by (simp add: word_less_nat_alt Suc_le_eq del: of_nat_unat of_nat_1)
    then show ?thesis by (simp add: R_def rat_of_word_def)
  qed
  have "T / R * (1 - e) \<le> fs"
  proof (cases "f64 (T / R) < 1")
    case True
    have "T / R \<le> T / 1" using pos R1 by (intro divide_left_mono) auto
    then have "T / R < 2 ^ 53" using bound by simp
    then have "\<not> 1 \<le> T / R" using rnd_ge [of 1 "T / R" 53] TR True by (auto simp: f64_def)
    then have "T / R * (1 - e) \<le> 1 * 1" using TR e by (intro mult_mono) auto
    with fs1 show ?thesis by simp
  next
    case False
    then have "fs = f64 (T / R)" by (simp add: fs_def fair_share_def T_def R_def)
    then show ?thesis using f64_err(2) [of "T / R"] TR by (simp add: e_def algebra_simps)
  qed
  then have "P / fs \<le> P / (T / R * (1 - e))"
    using pos TR e fs1 by (intro divide_left_mono mult_pos_pos) auto
  also have "\<dots> = P * R / (T * (1 - e))" using pos by simp
  finally have Pfs: "P / fs \<le> P * R / (T * (1 - e))" .
  have "of_int k * (T * (1 - e)) \<le> (P / fs * (1 + e)) * (T * (1 - e))"
    using k pos e by (intro mult_right_mono) (auto simp: e_def algebra_simps)
  also have "\<dots> \<le> (P * R / (T * (1 - e)) * (1 + e)) * (T * (1 - e))"
    using Pfs pos e by (intro mult_right_mono) auto
  also have "\<dots> = P * R * (1 + e)" using pos e by simp
  finally have kT: "of_int k * T * (1 - e) \<le> P * R * (1 + e)" by (simp add: mult.assoc)
  have PR: "P * R \<le> 65535 * 65535" "0 \<le> P * R" using bound pos
    mult_mono [of P 65535 R 65535] by auto
  have "\<not> P * R + 1 \<le> of_int k * T"
  proof
    assume "P * R + 1 \<le> of_int k * T"
    then have "(P * R + 1) * (1 - e) \<le> of_int k * T * (1 - e)" using e by (intro mult_right_mono) auto
    then have "1 - e \<le> 2 * e * (P * R)" using kT by (simp add: algebra_simps)
    also have "\<dots> \<le> 2 * e * (65535 * 65535)" using PR e by (intro mult_left_mono) auto
    finally show False by (simp add: e_def)
  qed
  then have "of_int (k * int (unat tot)) < (of_int (int (unat p * unat remaining) + 1) :: rat)"
    by (simp only: T_def P_def R_def rat_of_word_def of_int_mult of_int_add of_nat_mult of_int_of_nat_eq
        of_int_1 not_le)
  then have "k * int (unat tot) < int (unat p * unat remaining) + 1" by (simp only: of_int_less_iff)
  then show "fair_packets (fair_share tot remaining) p * int (unat tot) \<le> int (unat p * unat remaining)"
    unfolding k_def fs_def by linarith
qed

text \<open>All the parts together fit in the capacity, where the total is the sum of the requests.\<close>

lemma fair_packets_sum:
  assumes "0 < tot" "0 < remaining" "\<And>i. i \<in> set l \<Longrightarrow> p i \<le> tot" "(\<Sum>i\<leftarrow>l. unat (p i)) = unat tot"
  shows "(\<Sum>i\<leftarrow>l. nat (fair_packets (fair_share tot remaining) (p i))) \<le> unat remaining"
proof -
  let ?k = "\<lambda>i. nat (fair_packets (fair_share tot remaining) (p i))"
  have "?k i * unat tot \<le> unat (p i) * unat remaining" if "i \<in> set l" for i
  proof -
    have "fair_packets (fair_share tot remaining) (p i) * int (unat tot) \<le> int (unat (p i) * unat remaining)"
      "0 \<le> fair_packets (fair_share tot remaining) (p i)"
      using fair_packets_le assms(1,2) assms(3) [OF that] by blast+
    then have "int (?k i * unat tot) \<le> int (unat (p i) * unat remaining)" by (simp only: of_nat_mult nat_0_le)
    then show ?thesis by (simp only: of_nat_le_iff)
  qed
  then have "(\<Sum>i\<leftarrow>l. ?k i * unat tot) \<le> (\<Sum>i\<leftarrow>l. unat (p i) * unat remaining)"
    by (intro sum_list_mono)
  then have "(\<Sum>i\<leftarrow>l. ?k i) * unat tot \<le> unat tot * unat remaining"
    using assms(4) by (simp only: sum_list_mult_const)
  then show ?thesis using assms(1) by (simp add: mult.commute word_less_nat_alt)
qed

text \<open>The request of a terminal in packets.\<close>

definition rbdc_packets :: "dama_ctrl \<Rightarrow> tal_id_t \<Rightarrow> u16" where
  "rbdc_packets c i =
     (case uc_kbpsToPktpf (dm_converter c) (dt_rbdc_req (the_term c i)) of Inl e \<Rightarrow> 0 | Inr p \<Rightarrow> p)"

lemma the_term_find: "om_find (dm_terminals c) i = Some t \<Longrightarrow> the_term c i = t"
  by (simp add: the_term_def)

lemma rbdc_packets_cong:
  assumes "om_find (dm_terminals c') i = om_find (dm_terminals c) i"
    "uc_kbpsToPktpf (dm_converter c') = uc_kbpsToPktpf (dm_converter c)"
  shows "rbdc_packets c' i = rbdc_packets c i"
  using assms by (simp add: rbdc_packets_def the_term_def)

lemma rbdc_requests:
  assumes "res_fold rbdc_request_term l a = Inr a'" "om_wf (dm_terminals (al_ctrl a))" "bit_ok (dm_converter (al_ctrl a))"
  shows "dm_terminals (al_ctrl a') = dm_terminals (al_ctrl a) \<and> dm_converter (al_ctrl a') = dm_converter (al_ctrl a)
    \<and> touched RBDC {} (al_ctrl a) (al_ctrl a') \<and> al_rem a' = al_rem a
    \<and> al_alloc a' = al_alloc a + (\<Sum>i\<leftarrow>l. rbdc_packets (al_ctrl a) i)"
  using assms
proof (induction l arbitrary: a)
  case Nil
  then show ?case using touched_refl by simp
next
  case (Cons i l)
  let ?c = "al_ctrl a"
  obtain a1 where a1: "rbdc_request_term i a = Inr a1" and f: "res_fold rbdc_request_term l a1 = Inr a'"
    using Cons.prems(1) by (auto simp: res_bind_Inr)
  obtain t pkt where t: "om_find (dm_terminals ?c) i = Some t"
    and p: "uc_kbpsToPktpf (dm_converter ?c) (dt_rbdc_req t) = Inr pkt"
    and c1: "dm_terminals (al_ctrl a1) = dm_terminals ?c" "dm_converter (al_ctrl a1) = dm_converter ?c"
      "config (al_ctrl a1) = config ?c" "al_rem a1 = al_rem a" "al_alloc a1 = al_alloc a + pkt"
    using a1 by (auto simp: rbdc_request_term_def Let_def res_bind_Inr dm_term_Inr)
  have pk: "rbdc_packets ?c i = pkt" using t p by (simp add: rbdc_packets_def the_term_find)
  have same: "rbdc_packets (al_ctrl a1) j = rbdc_packets ?c j" for j
    by (rule rbdc_packets_cong) (simp_all add: c1)
  have t1: "touched RBDC {} ?c (al_ctrl a1)" using Cons.prems(2,3) by (simp add: touched_def c1 bit_ok_def)
  have "dm_terminals (al_ctrl a') = dm_terminals ?c \<and> dm_converter (al_ctrl a') = dm_converter ?c
    \<and> touched RBDC {} (al_ctrl a1) (al_ctrl a') \<and> al_rem a' = al_rem a
    \<and> al_alloc a' = al_alloc a + pkt + (\<Sum>i\<leftarrow>l. rbdc_packets ?c i)"
    using Cons.IH [OF f] Cons.prems(2,3) by (simp add: c1 same)
  then show ?case using touched_trans [OF t1] by (auto simp: pk add.assoc)
qed

definition rbdc_budget :: "rat \<Rightarrow> tal_id_t list \<Rightarrow> dama_ctrl \<Rightarrow> nat \<Rightarrow> bool" where
  "rbdc_budget fs l c n \<longleftrightarrow> (\<Sum>i\<leftarrow>l. nat (fair_packets fs (rbdc_packets c i))) \<le> n"

text \<open>One terminal in the first step, whatever remains.\<close>

lemma rbdc_step1_one:
  assumes r: "rbdc_step1 label cid fs i a = Inr a'" and wf: "om_wf (dm_terminals (al_ctrl a))" "bit_ok (dm_converter (al_ctrl a))"
  obtains n t' where "floor_uint (f64 (rat_of_word (rbdc_packets (al_ctrl a) i) / fs)) = Inr (n :: u16)"
    "al_rem a' = al_rem a - n" "touched RBDC {i} (al_ctrl a) (al_ctrl a')"
    "om_find (dm_terminals (al_ctrl a')) i = Some t'" "uc_pktpfToKbps (dm_converter (al_ctrl a)) n = Inr (dt_rbdc_alloc t')"
    "dm_converter (al_ctrl a') = dm_converter (al_ctrl a)"
proof -
  define c uc where "c = al_ctrl a" and "uc = dm_converter c"
  obtain t pkt n kbps where t: "om_find (dm_terminals c) i = Some t"
    and p: "uc_kbpsToPktpf uc (dt_rbdc_req t) = Inr pkt"
    and n: "floor_uint (f64 (rat_of_word pkt / fs)) = Inr n" and k: "uc_pktpfToKbps uc n = Inr kbps"
    and a': "al_ctrl a' = spend label cid kbps (dm_set i
        (let t1 = dt_setRbdcAllocation kbps t;
             credit = f64 (f64 (f64 (f64 (rat_of_word pkt / fs) - rat_of_word n)
               * rat_of_word (uc_getPacketBitLength uc)) / rat_of_word (uc_frame_ms uc))
         in if 1 < fs then dt_addRbdcCredit credit t1 else t1) c)" "al_rem a' = al_rem a - n"
    using r by (auto simp: rbdc_step1_def Let_def res_bind_Inr dm_term_Inr simp flip: c_def uc_def)
  define t' where "t' = (let t1 = dt_setRbdcAllocation kbps t;
             credit = f64 (f64 (f64 (f64 (rat_of_word pkt / fs) - rat_of_word n)
               * rat_of_word (uc_getPacketBitLength uc)) / rat_of_word (uc_frame_ms uc))
         in if 1 < fs then dt_addRbdcCredit credit t1 else t1)"
  have t': "same_but RBDC t t'" "dt_rbdc_alloc t' = kbps" by (simp_all add: t'_def Let_def)
  have "touched RBDC {i} c (al_ctrl a')"
    unfolding a'(1) t'_def [symmetric] using wf t'(1)
    by (intro touched_set [OF _ t]) (simp_all add: bit_ok_def flip: c_def uc_def)
  moreover have "rbdc_packets c i = pkt" using t p by (simp add: rbdc_packets_def the_term_find uc_def)
  moreover have "om_find (dm_terminals (al_ctrl a')) i = Some t'" by (simp add: a'(1) t'_def)
  moreover have "dm_converter (al_ctrl a') = uc" by (simp add: a'(1) uc_def)
  ultimately show thesis using that n k a'(2) t'(2) unfolding c_def uc_def by simp
qed

interpretation rbdc: serving RBDC "given CRA" "rbdc_step1 label cid fs" "rbdc_budget fs" for label cid fs
proof (rule serving.intro [OF giving_ok_given])
  fix i l a a'
  assume f: "fresh_for RBDC (i # l) (al_ctrl a)" and i: "i \<notin> set l"
    and b: "rbdc_budget fs (i # l) (al_ctrl a) (unat (al_rem a))" and r: "rbdc_step1 label cid fs i a = Inr a'"
  define c where "c = al_ctrl a"
  have wf: "om_wf (dm_terminals c)" "bit_ok (dm_converter c)" using f by (auto simp: fresh_for_def c_def)
  obtain n t' where n: "floor_uint (f64 (rat_of_word (rbdc_packets c i) / fs)) = Inr (n :: u16)"
    and one: "al_rem a' = al_rem a - n" "touched RBDC {i} c (al_ctrl a')" "om_find (dm_terminals (al_ctrl a')) i = Some t'"
      "uc_pktpfToKbps (dm_converter c) n = Inr (dt_rbdc_alloc t')" "dm_converter (al_ctrl a') = dm_converter c"
    using rbdc_step1_one [OF r] wf unfolding c_def by metis
  have "int (unat n) = fair_packets fs (rbdc_packets c i)"
    using n by (simp only: to_uint_int fair_packets_def)
  then have cost: "nat (fair_packets fs (rbdc_packets c i)) = unat n" by (metis nat_int)
  have le: "unat n + (\<Sum>j\<leftarrow>l. nat (fair_packets fs (rbdc_packets c j))) \<le> unat (al_rem a)"
    using b by (simp add: rbdc_budget_def cost flip: c_def)
  have "n \<le> al_rem a" using le by (simp add: word_le_nat_alt)
  then have rem: "unat n + unat (al_rem a') = unat (al_rem a)" unfolding one by (rule unat_take)
  have "rbdc_packets (al_ctrl a') j = rbdc_packets c j" if "j \<in> set l" for j
  proof (rule rbdc_packets_cong)
    show "om_find (dm_terminals (al_ctrl a')) j = om_find (dm_terminals c) j"
      using that i by (intro touched_outside [OF one(2)]) auto
  qed (simp add: one)
  then have "(\<Sum>j\<leftarrow>l. nat (fair_packets fs (rbdc_packets (al_ctrl a') j)))
      = (\<Sum>j\<leftarrow>l. nat (fair_packets fs (rbdc_packets c j)))"
    by (intro arg_cong [where f = sum_list] map_cong) auto
  then have "rbdc_budget fs l (al_ctrl a') (unat (al_rem a'))"
    using le rem by (simp add: rbdc_budget_def)
  moreover have "given CRA (dm_converter c) (unat n) (alloc_of RBDC t')" using one(4) by auto
  ultimately show "touched RBDC {i} (al_ctrl a) (al_ctrl a') \<and> rbdc_budget fs l (al_ctrl a') (unat (al_rem a'))
    \<and> (\<exists>n t. n + unat (al_rem a') = unat (al_rem a) \<and> om_find (dm_terminals (al_ctrl a')) i = Some t
         \<and> given CRA (dm_converter (al_ctrl a)) n (alloc_of RBDC t))"
    using one rem unfolding c_def by blast
qed

end
