(* ===== verification/DamaGroups.thy ===== *)
theory DamaGroups
  imports DamaServe
begin

text \<open>
  One group of carriers: each of the four functions keeps the contract of the locale \<open>sharing\<close>, packets
  given plus what remains is what there was. The locale carries the contract to all the groups of all
  the categories.
\<close>

section \<open>The second step of the RBDC\<close>

definition extra :: "unit_converter \<Rightarrow> nat \<Rightarrow> u16 \<Rightarrow> u16 \<Rightarrow> bool" where
  "extra uc e v v' \<longleftrightarrow> e = 0 \<and> v' = v \<or> e = 1 \<and> (\<exists>slot. uc_pktpfToKbps uc 1 = Inr slot \<and> v' = v + slot)"

lemma given_extra: "given CRA uc n v \<Longrightarrow> extra uc e v v' \<Longrightarrow> given RBDC uc (n + e) v'"
  unfolding extra_def by fastforce

definition topped :: "tal_id_t list \<Rightarrow> dama_ctrl \<Rightarrow> dama_ctrl \<Rightarrow> nat \<Rightarrow> nat \<Rightarrow> bool" where
  "topped l c c' before after \<longleftrightarrow> (\<exists>e. (\<Sum>i\<leftarrow>l. e i) + after = before
     \<and> (\<forall>i \<in> set l. \<forall>t. om_find (dm_terminals c) i = Some t
          \<longrightarrow> (\<exists>t'. om_find (dm_terminals c') i = Some t'
               \<and> extra (dm_converter c) (e i) (dt_rbdc_alloc t) (dt_rbdc_alloc t'))))"

lemma topped_none: "topped l c c n n"
  unfolding topped_def by (intro exI [of _ "\<lambda>_. 0"]) (simp add: extra_def)

lemma topped_step:
  assumes i: "i \<notin> set l" and t1: "touched RBDC {i} c c1" and t2: "touched RBDC (set l) c1 c2"
    and t: "om_find (dm_terminals c) i = Some t" "om_find (dm_terminals c1) i = Some t'"
      "extra (dm_converter c) n (dt_rbdc_alloc t) (dt_rbdc_alloc t')" "n + middle = before"
    and rest: "topped l c1 c2 middle after"
  shows "topped (i # l) c c2 before after"
proof -
  obtain e where e: "(\<Sum>i\<leftarrow>l. e i) + after = middle"
    "\<forall>i \<in> set l. \<forall>t. om_find (dm_terminals c1) i = Some t \<longrightarrow> (\<exists>t'. om_find (dm_terminals c2) i = Some t'
       \<and> extra (dm_converter c1) (e i) (dt_rbdc_alloc t) (dt_rbdc_alloc t'))"
    using rest by (auto simp: topped_def)
  define e' where "e' = e(i := n)"
  have "(\<Sum>j\<leftarrow>l. e' j) = (\<Sum>j\<leftarrow>l. e j)"
    using i by (intro arg_cong [where f = sum_list] map_cong) (auto simp: e'_def)
  then have "(\<Sum>j\<leftarrow>i # l. e' j) + after = before" using e(1) t(4) by (simp add: e'_def)
  moreover have "\<exists>u'. om_find (dm_terminals c2) j = Some u'
      \<and> extra (dm_converter c) (e' j) (dt_rbdc_alloc u) (dt_rbdc_alloc u')"
    if j: "j \<in> set (i # l)" "om_find (dm_terminals c) j = Some u" for j u
  proof (cases "j = i")
    case True
    then show ?thesis using touched_outside [OF t2 i] t j(2) by (auto simp: e'_def)
  next
    case False
    then have "om_find (dm_terminals c1) j = Some u" using touched_outside [OF t1, of j] j(2) by simp
    then show ?thesis using e(2) j(1) False same_packets_conv(2) [OF touched_conv [OF t1]]
      by (auto simp: e'_def extra_def)
  qed
  ultimately show ?thesis unfolding topped_def by blast
qed

lemma step2_one:
  assumes "om_wf (dm_terminals c)" "bit_ok (dm_converter c)" "om_find (dm_terminals c) i = Some t"
    and "uc_pktpfToKbps (dm_converter c) 1 = Inr slot"
    and "c1 = spend label cid slot (dm_set i (dt_addRbdcCredit r (dt_setRbdcAllocation (dt_rbdc_alloc t + slot) t)) c)"
  shows "touched RBDC {i} c c1"
    and "om_find (dm_terminals c1) i = Some (dt_addRbdcCredit r (dt_setRbdcAllocation (dt_rbdc_alloc t + slot) t))"
    and "extra (dm_converter c) 1 (dt_rbdc_alloc t)
      (dt_rbdc_alloc (dt_addRbdcCredit r (dt_setRbdcAllocation (dt_rbdc_alloc t + slot) t)))"
proof -
  have "same_packets (dm_converter c) (dm_converter c)" using assms(2) by (simp add: bit_ok_def)
  then show "touched RBDC {i} c c1"
    unfolding assms(5) by (intro touched_set [OF assms(1,3)]) simp_all
qed (use assms(4) in \<open>simp_all add: assms(5) extra_def\<close>)

lemma rbdc_step2_tops:
  assumes "rbdc_step2 label cid l a = Inr a'" "distinct l" "om_wf (dm_terminals (al_ctrl a))"
    "bit_ok (dm_converter (al_ctrl a))"
  shows "touched RBDC (set l) (al_ctrl a) (al_ctrl a')
    \<and> topped l (al_ctrl a) (al_ctrl a') (unat (al_rem a)) (unat (al_rem a'))"
  using assms
proof (induction l arbitrary: a)
  case Nil
  then show ?case using touched_refl topped_none by simp
next
  case (Cons i l)
  define c where "c = al_ctrl a"
  note wf = Cons.prems(3,4) [folded c_def]
  have i: "i \<notin> set l" "distinct l" using Cons.prems(2) by auto
  show ?case
  proof (cases "al_rem a = 0")
    case True
    then have "a' = a" using Cons.prems(1) by simp
    then show ?thesis using touched_refl [OF wf] topped_none by (simp flip: c_def)
  next
    case False
    obtain t slot where t: "om_find (dm_terminals c) i = Some t" and s: "uc_pktpfToKbps (dm_converter c) 1 = Inr slot"
      and a1: "rbdc_step2 label cid l (if rat_of_word slot < dt_credit t
             \<and> uint slot < uint (dt_max_rbdc t) - uint (dt_rbdc_alloc t)
          then a\<lparr>al_alloc := al_alloc a + slot, al_rem := al_rem a - 1,
                    al_ctrl := spend label cid slot
                      (dm_set i (dt_addRbdcCredit (- rat_of_word slot)
                         (dt_setRbdcAllocation (dt_rbdc_alloc t + slot) t)) c)\<rparr> else a) = Inr a'"
        (is "rbdc_step2 _ _ _ (if ?b then ?a1 else a) = _")
      using Cons.prems(1) False by (auto simp: Let_def res_bind_Inr dm_term_Inr simp flip: c_def split: if_splits)
    show ?thesis
    proof (cases ?b)
      case True
      then have r: "rbdc_step2 label cid l ?a1 = Inr a'" using a1 by (simp del: rbdc_step2.simps)
      define c1 where "c1 = spend label cid slot (dm_set i (dt_addRbdcCredit (- rat_of_word slot)
        (dt_setRbdcAllocation (dt_rbdc_alloc t + slot) t)) c)"
      have a1: "al_ctrl ?a1 = c1" "al_rem ?a1 = al_rem a - 1" by (simp_all add: c1_def)
      note one = step2_one [OF wf t s c1_def]
      have ih: "touched RBDC (set l) c1 (al_ctrl a')" "topped l c1 (al_ctrl a') (unat (al_rem a - 1)) (unat (al_rem a'))"
        using Cons.IH [OF r i(2)] touched_wf [OF one(1)] touched_bit_ok [OF one(1) wf(2)] by (simp_all add: a1)
      have le: "1 \<le> al_rem a" using False unat_gt_0 [of "al_rem a"] by (simp add: word_le_nat_alt Suc_le_eq)
      have rem: "1 + unat (al_rem a - 1) = unat (al_rem a)" using unat_take [OF le] by simp
      have "touched RBDC ({i} \<union> set l) c (al_ctrl a')" by (rule touched_trans [OF one(1) ih(1)])
      moreover have "topped (i # l) c (al_ctrl a') (unat (al_rem a)) (unat (al_rem a'))"
        by (rule topped_step [OF i(1) one(1) ih(1) t one(2,3) rem ih(2)])
      ultimately show ?thesis by (simp flip: c_def)
    next
      case no: False
      have r: "rbdc_step2 label cid l a = Inr a'" using a1 unfolding if_not_P [OF no] .
      have ih: "touched RBDC (set l) c (al_ctrl a')"
        "topped l c (al_ctrl a') (unat (al_rem a)) (unat (al_rem a'))"
        using Cons.IH [OF r i(2)] Cons.prems(3,4) by (simp_all add: c_def)
      have "extra (dm_converter c) 0 (dt_rbdc_alloc t) (dt_rbdc_alloc t)" by (simp add: extra_def)
      then have "topped (i # l) c (al_ctrl a') (unat (al_rem a)) (unat (al_rem a'))"
        using topped_step [OF i(1) touched_refl [OF wf] ih(1) t t _ _ ih(2), of 0] by simp
      then show ?thesis using touched_mono [OF ih(1), of "insert i (set l)"] by (auto simp flip: c_def)
    qed
  qed
qed


section \<open>The books of a group\<close>

lemma accounted_perm: "mset l = mset l' \<Longrightarrow> accounted G K l c c' b a \<Longrightarrow> accounted G K l' c c' b a"
  unfolding accounted_def by (metis mset_eq_setD mset_map sum_mset_sum_list)

lemma topped_perm: "mset l = mset l' \<Longrightarrow> topped l c c' b a \<Longrightarrow> topped l' c c' b a"
  unfolding topped_def by (metis mset_eq_setD mset_map sum_mset_sum_list)

lemma accounted_from:
  assumes "accounted G K l c c' b a" "same_packets (dm_converter c0) (dm_converter c)" "giving_ok G"
  shows "accounted G K l c0 c' b a"
  using assms unfolding accounted_def giving_ok_def by auto

text \<open>What other steps do to other terminals changes nothing.\<close>

lemma accounted_to:
  assumes "accounted G K l c c1 b a" "touched K S c1 c2" "S \<inter> set l = {}"
  shows "accounted G K l c c2 b a"
proof -
  have "om_find (dm_terminals c2) i = om_find (dm_terminals c1) i" if "i \<in> set l" for i
    using touched_outside [OF assms(2)] assms(3) that by blast
  then show ?thesis using assms(1) unfolding accounted_def by auto
qed

lemma accounted_topped:
  assumes "accounted (given CRA) RBDC l c c1 b m" "topped l c1 c2 m a" "same_packets (dm_converter c) (dm_converter c1)"
  shows "accounted (given RBDC) RBDC l c c2 b a"
proof -
  obtain gr where gr: "(\<Sum>i\<leftarrow>l. gr i) + m = b"
    "\<forall>i \<in> set l. \<exists>t. om_find (dm_terminals c1) i = Some t \<and> given CRA (dm_converter c) (gr i) (alloc_of RBDC t)"
    using assms(1) by (auto simp: accounted_def)
  obtain e where e: "(\<Sum>i\<leftarrow>l. e i) + a = m" "\<forall>i \<in> set l. \<forall>t. om_find (dm_terminals c1) i = Some t
      \<longrightarrow> (\<exists>t'. om_find (dm_terminals c2) i = Some t' \<and> extra (dm_converter c1) (e i) (dt_rbdc_alloc t) (dt_rbdc_alloc t'))"
    using assms(2) by (auto simp: topped_def)
  have same: "extra (dm_converter c1) = extra (dm_converter c)"
    by (simp add: fun_eq_iff extra_def same_packets_conv(2) [OF assms(3)])
  have "\<exists>t. om_find (dm_terminals c2) i = Some t \<and> given RBDC (dm_converter c) (gr i + e i) (alloc_of RBDC t)"
    if i: "i \<in> set l" for i
  proof -
    obtain t where t: "om_find (dm_terminals c1) i = Some t" "given CRA (dm_converter c) (gr i) (dt_rbdc_alloc t)"
      using gr(2) i unfolding alloc_of.simps by blast
    obtain t' where "om_find (dm_terminals c2) i = Some t'" "extra (dm_converter c) (e i) (dt_rbdc_alloc t) (dt_rbdc_alloc t')"
      using e(2) i t(1) same by auto
    then show ?thesis using given_extra [OF t(2)] by auto
  qed
  moreover have "(\<Sum>i\<leftarrow>l. gr i + e i) + a = b" using gr(1) e(1) by (simp add: sum_list_addf)
  ultimately show ?thesis unfolding accounted_def by blast
qed

lemma fresh_set: "set l = set l' \<Longrightarrow> fresh_for K l c = fresh_for K l' c"
  by (simp add: fresh_for_def)

lemma fresh_sub: "fresh_for K l c \<Longrightarrow> set l' \<subseteq> set l \<Longrightarrow> fresh_for K l' c"
  by (auto simp: fresh_for_def)

text \<open>The remaining capacity of a group is kept within 16 bits.\<close>

definition small :: "dama_group \<Rightarrow> bool" where
  "small g \<longleftrightarrow> unat (dg_remaining g) < 65536"

definition shared :: "capacity \<Rightarrow> tal_id_t list \<Rightarrow> dama_group \<Rightarrow> dama_group \<Rightarrow> dama_ctrl \<Rightarrow> dama_ctrl \<Rightarrow> bool" where
  "shared K l g g' c c' \<longleftrightarrow> g' = g\<lparr>dg_remaining := dg_remaining g'\<rparr> \<and> small g' \<and> touched K (set l) c c'
     \<and> accounted (given K) K l c c' (unat (dg_remaining g)) (unat (dg_remaining g'))"

lemma unat_ucast_16_32: "unat (ucast (w :: u16) :: u32) = unat w"
  by (simp add: unsigned_ucast_eq unsigned_take_bit_eq take_bit_nat_eq_self)

lemma small_rem: "small g \<Longrightarrow> unat (al_rem (new_alloc c g)) = unat (dg_remaining g)"
  by (simp add: small_def new_alloc_def unsigned_ucast_eq take_bit_eq_mod)

lemma new_alloc_ctrl [simp]: "al_ctrl (new_alloc c g) = c"
  by (simp add: new_alloc_def)

lemma shared_set:
  assumes "small g" "touched K (set l) c (al_ctrl a)"
    "accounted (given K) K l c (al_ctrl a) (unat (al_rem (new_alloc c g))) (unat (al_rem a))"
  shows "shared K l g (dg_setRemainingCapacity (ucast (al_rem a)) g) c (al_ctrl a)"
proof -
  have "unat (al_rem a) < 65536" by (rule unat_u16_less)
  then show ?thesis using assms small_rem [OF assms(1)]
    by (simp add: shared_def dg_setRemainingCapacity_def small_def unat_ucast_16_32)
qed

lemma shared_same:
  assumes "small g" "fresh_for K l c" "touched K {} c c'"
  shows "shared K l g g c c'"
  using assms accounted_nothing [OF assms(2,3)] touched_mono [OF assms(3)] by (auto simp: shared_def)

end
