(* ===== verification/DamaShare.thy ===== *)
theory DamaShare
  imports DamaGroups
begin

text \<open>
  The functions of one carriers group keep the contract \<open>shared\<close>, and the loops over the groups and the
  categories keep it for all the carriers: the locale \<open>sharing\<close>, interpreted with the four functions.
\<close>

section \<open>The four functions\<close>

lemma terminals_distinct: "distinct (dc_terminals cat) \<Longrightarrow> distinct (terminals_in_group cat cid c)"
  by (simp add: terminals_in_group_def)

lemma cra_group_shared:
  assumes "cra_group cat g c = Inr (a, g')" "small g" "distinct (dc_terminals cat)"
    "fresh_for CRA (terminals_in_group cat (dg_carriers_id g) c) c"
  shows "shared CRA (terminals_in_group cat (dg_carriers_id g) c) g g' c (al_ctrl a)"
proof -
  let ?l = "terminals_in_group cat (dg_carriers_id g) c"
  have r: "res_fold cra_term ?l (new_alloc c g) = Inr a" and g': "g' = dg_setRemainingCapacity (ucast (al_rem a)) g"
    using assms(1) by (auto simp: cra_group_def res_bind_Inr)
  have d: "distinct ?l" using assms(3) by (rule terminals_distinct)
  show ?thesis unfolding g' using cra.loop [OF r d] assms(4) by (intro shared_set [OF assms(2)]) simp_all
qed

lemma fca_group_shared:
  assumes "fca_group cat g c = Inr (a, g')" "small g" "distinct (dc_terminals cat)"
    "fresh_for FCA (terminals_in_group cat (dg_carriers_id g) c) c"
  shows "shared FCA (terminals_in_group cat (dg_carriers_id g) c) g g' c (al_ctrl a)"
proof -
  let ?l = "terminals_in_group cat (dg_carriers_id g) c"
  have wf: "om_wf (dm_terminals c)" "bit_ok (dm_converter c)" using assms(4) by (auto simp: fresh_for_def)
  show ?thesis
  proof (cases "a = new_alloc c g \<and> g' = g")
    case True
    then show ?thesis using shared_same [OF assms(2,4)] touched_refl [OF wf] by simp
  next
    case False
    let ?o = "sortByRemainingCredit (the_term c) ?l"
    obtain fca where r: "fca_loop (dc_label cat) (dg_carriers_id g) fca ?o (new_alloc c g) = Inr a"
      and g': "g' = dg_setRemainingCapacity (ucast (al_rem a)) g"
      using assms(1) False by (auto simp: fca_group_def Let_def res_bind_Inr split: if_splits)
    have m: "mset ?o = mset ?l" by (simp add: sortByRemainingCredit_def)
    then have o: "distinct ?o" "set ?o = set ?l"
      using terminals_distinct [OF assms(3)] mset_eq_imp_distinct_iff [OF m] mset_eq_setD [OF m] by auto
    have "touched FCA (set ?o) c (al_ctrl a)
      \<and> accounted (given FCA) FCA ?o c (al_ctrl a) (unat (al_rem (new_alloc c g))) (unat (al_rem a))"
      using fca.loop_until [where L = "fca_loop (dc_label cat) (dg_carriers_id g) fca", OF _ _ _ r o(1)]
        fresh_set [OF o(2)] assms(4) by (auto intro: touched_refl)
    then show ?thesis unfolding g' o(2) by (intro shared_set [OF assms(2)]) (auto intro: accounted_perm [OF m])
  qed
qed

lemma vbdc_rest_touched:
  assumes "vbdc_rest l a = Inr a'" "om_wf (dm_terminals (al_ctrl a))" "bit_ok (dm_converter (al_ctrl a))"
  shows "touched VBDC {} (al_ctrl a) (al_ctrl a') \<and> al_rem a' = al_rem a"
  using assms
proof (induction l arbitrary: a)
  case Nil
  then show ?case using touched_refl by simp
next
  case (Cons i l)
  obtain a1 where r: "vbdc_rest l a1 = Inr a'" and a1: "al_rem a1 = al_rem a"
    "dm_terminals (al_ctrl a1) = dm_terminals (al_ctrl a)" "dm_converter (al_ctrl a1) = dm_converter (al_ctrl a)"
    "config (al_ctrl a1) = config (al_ctrl a)"
    using Cons.prems(1) by (auto simp: res_bind_Inr)
  have "touched VBDC {} (al_ctrl a) (al_ctrl a1)" using Cons.prems(2,3) by (simp add: touched_def bit_ok_def a1)
  then show ?case using Cons.IH [OF r] Cons.prems(2,3) touched_trans [of VBDC "{}" "al_ctrl a" "al_ctrl a1" "{}"]
    by (simp add: a1)
qed

lemma vbdc_group_shared:
  assumes "vbdc_group cat g c = Inr (a, g')" "small g" "distinct (dc_terminals cat)"
    "fresh_for VBDC (terminals_in_group cat (dg_carriers_id g) c) c"
  shows "shared VBDC (terminals_in_group cat (dg_carriers_id g) c) g g' c (al_ctrl a)"
proof -
  let ?l = "terminals_in_group cat (dg_carriers_id g) c"
  have wf: "om_wf (dm_terminals c)" "bit_ok (dm_converter c)" using assms(4) by (auto simp: fresh_for_def)
  show ?thesis
  proof (cases "a = new_alloc c g \<and> g' = g")
    case True
    then show ?thesis using shared_same [OF assms(2,4)] touched_refl [OF wf] by simp
  next
    case False
    let ?o = "sortByVbdcReq (the_term c) (sortByVbdcReq (the_term c) ?l)"
    let ?L = "vbdc_loop (dc_label cat) (dg_carriers_id g)"
    have r: "?L ?o (new_alloc c g) = Inr a" and g': "g' = dg_setRemainingCapacity (ucast (al_rem a)) g"
      using assms(1) False by (auto simp: vbdc_group_def Let_def res_bind_Inr split: if_splits)
    have m: "mset ?o = mset ?l" by (simp add: sortByVbdcReq_def)
    then have o: "distinct ?o" "set ?o = set ?l"
      using terminals_distinct [OF assms(3)] mset_eq_imp_distinct_iff [OF m] mset_eq_setD [OF m] by auto
    have stop: "touched VBDC {} (al_ctrl b) (al_ctrl b') \<and> al_rem b' = 0"
      if "al_rem b = 0" "om_wf (dm_terminals (al_ctrl b))" "bit_ok (dm_converter (al_ctrl b))" "?L (i # k) b = Inr b'"
      for i k b b'
      using vbdc_rest_touched [OF _ that(2,3), of "i # k" b'] that(1,4) by (simp del: vbdc_rest.simps)
    have "touched VBDC (set ?o) c (al_ctrl a)
      \<and> accounted (given VBDC) VBDC ?o c (al_ctrl a) (unat (al_rem (new_alloc c g))) (unat (al_rem a))"
      using vbdc.loop_until [where L = ?L, OF _ _ stop r o(1)] fresh_set [OF o(2)] assms(4) by simp
    then show ?thesis unfolding g' o(2) by (intro shared_set [OF assms(2)]) (auto intro: accounted_perm [OF m])
  qed
qed


text \<open>For the RBDC the total of the requests must not wrap.\<close>

definition rbdc_need :: "dama_category \<Rightarrow> dama_group \<Rightarrow> dama_ctrl \<Rightarrow> bool" where
  "rbdc_need cat g c \<longleftrightarrow> (\<Sum>i\<leftarrow>terminals_in_group cat (dg_carriers_id g) c. unat (rbdc_packets c i)) < 65536"

lemma unat_sum_list:
  assumes "(\<Sum>i\<leftarrow>l. unat (f i :: u16)) < 65536"
  shows "unat (\<Sum>i\<leftarrow>l. f i) = (\<Sum>i\<leftarrow>l. unat (f i))" "\<And>i. i \<in> set l \<Longrightarrow> f i \<le> (\<Sum>i\<leftarrow>l. f i)"
proof -
  show s: "unat (\<Sum>i\<leftarrow>l. f i) = (\<Sum>i\<leftarrow>l. unat (f i))"
    using assms
  proof (induction l)
    case (Cons i l)
    then show ?case by (simp add: unat_word_ariths)
  qed simp
  show "f i \<le> (\<Sum>i\<leftarrow>l. f i)" if "i \<in> set l" for i
    unfolding word_le_nat_alt s using that by (intro member_le_sum_list) simp_all
qed

text \<open>The two steps of the RBDC, once the requests are summed.\<close>

lemma rbdc_steps_shared:
  assumes fresh: "fresh_for RBDC l (al_ctrl a1)" and l: "distinct l" "mset ord = mset l"
    and req: "(\<Sum>i\<leftarrow>l. unat (rbdc_packets (al_ctrl a1) i)) < 65536"
    and tot: "tot = (\<Sum>i\<leftarrow>l. rbdc_packets (al_ctrl a1) i)" "0 < tot" "0 < al_rem a1"
    and fs: "fs = fair_share tot (al_rem a1)"
    and s1: "res_fold (rbdc_step1 label cid fs) l (a1\<lparr>al_alloc := 0\<rparr>) = Inr a2"
    and s2: "(if b then rbdc_step2 label cid ord a2 else Inr a2) = Inr a3"
  shows "touched RBDC (set l) (al_ctrl a1) (al_ctrl a3)
    \<and> accounted (given RBDC) RBDC l (al_ctrl a1) (al_ctrl a3) (unat (al_rem a1)) (unat (al_rem a3))"
proof -
  note p = unat_sum_list [OF req, folded tot(1)]
  have "rbdc_budget fs l (al_ctrl a1) (unat (al_rem a1))"
    unfolding rbdc_budget_def fs using fair_packets_sum [OF tot(2,3) p(2) p(1) [symmetric]] .
  then have t1: "touched RBDC (set l) (al_ctrl a1) (al_ctrl a2)"
    "accounted (given CRA) RBDC l (al_ctrl a1) (al_ctrl a2) (unat (al_rem a1)) (unat (al_rem a2))"
    using rbdc.loop [OF s1 l(1)] fresh by simp_all
  have wf: "om_wf (dm_terminals (al_ctrl a2))" "bit_ok (dm_converter (al_ctrl a2))"
    using touched_wf [OF t1(1)] touched_bit_ok [OF t1(1)] fresh by (auto simp: fresh_for_def)
  have o: "distinct ord" "set ord = set l"
    using l mset_eq_imp_distinct_iff [OF l(2)] mset_eq_setD [OF l(2)] by auto
  have t2: "touched RBDC (set l) (al_ctrl a2) (al_ctrl a3)
    \<and> topped l (al_ctrl a2) (al_ctrl a3) (unat (al_rem a2)) (unat (al_rem a3))"
  proof (cases b)
    case True
    then show ?thesis using rbdc_step2_tops [OF _ o(1) wf, of label cid a3] s2 topped_perm [OF l(2)] o(2) by simp
  next
    case False
    then show ?thesis using s2 touched_refl [OF wf] topped_none by auto
  qed
  have "touched RBDC (set l \<union> set l) (al_ctrl a1) (al_ctrl a3)" using touched_trans t1(1) t2 by blast
  then show ?thesis using accounted_topped [OF t1(2) _ touched_conv [OF t1(1)]] t2 by simp
qed

lemma rbdc_group_shared:
  assumes "rbdc_group cat g c = Inr (a, g')" "small g" "distinct (dc_terminals cat)" "rbdc_need cat g c"
    "fresh_for RBDC (terminals_in_group cat (dg_carriers_id g) c) c"
  shows "shared RBDC (terminals_in_group cat (dg_carriers_id g) c) g g' c (al_ctrl a)"
proof -
  let ?l = "terminals_in_group cat (dg_carriers_id g) c"
  note fresh = assms(5)
  have wf: "om_wf (dm_terminals c)" "bit_ok (dm_converter c)" using fresh by (auto simp: fresh_for_def)
  define a0 where "a0 = new_alloc c g"
  have a0: "al_ctrl a0 = c" "al_alloc a0 = 0" by (simp_all add: a0_def new_alloc_def)
  show ?thesis
  proof (cases "al_rem a0 = 0")
    case True
    then have "a = a0" "g' = g" using assms(1) by (auto simp: rbdc_group_def Let_def res_bind_Inr simp flip: a0_def)
    then show ?thesis using shared_same [OF assms(2) fresh] touched_refl [OF wf] by (simp add: a0)
  next
    case False
    obtain a1 where a1: "res_fold rbdc_request_term ?l a0 = Inr a1"
      using assms(1) False by (auto simp: rbdc_group_def Let_def res_bind_Inr simp flip: a0_def)
    note q = rbdc_requests [OF a1, unfolded a0, OF wf]
    have t1: "touched RBDC {} c (al_ctrl a1)" and r1: "al_rem a1 = al_rem a0"
      and p1: "al_alloc a1 = (\<Sum>i\<leftarrow>?l. rbdc_packets c i)" using q by auto
    show ?thesis
    proof (cases "al_alloc a1 = 0")
      case True
      then have "al_ctrl a = al_ctrl a1" "g' = g" using assms(1) False a1
        by (auto simp: rbdc_group_def Let_def res_bind_Inr simp flip: a0_def split: if_splits)
      then show ?thesis using shared_same [OF assms(2) fresh t1] by simp
    next
      case some: False
      define fs where "fs = fair_share (al_alloc a1) (al_rem a1)"
      obtain a2 where s1: "res_fold (rbdc_step1 (dc_label cat) (dg_carriers_id g) fs) ?l (a1\<lparr>al_alloc := 0\<rparr>) = Inr a2"
        and s2: "(if 1 < fs then rbdc_step2 (dc_label cat) (dg_carriers_id g)
            (sortByRemainingCredit (the_term (al_ctrl a2)) ?l) a2 else Inr a2) = Inr a"
        and g': "g' = dg_setRemainingCapacity (ucast (al_rem a)) g"
        using assms(1) False a1 some
        by (auto simp: rbdc_group_def Let_def res_bind_Inr simp flip: a0_def fs_def split: if_splits)
      have same: "rbdc_packets (al_ctrl a1) = rbdc_packets c"
        using q by (intro ext rbdc_packets_cong) auto
      have f1: "fresh_for RBDC ?l (al_ctrl a1)" using q fresh by (simp add: fresh_for_def)
      have "touched RBDC (set ?l) (al_ctrl a1) (al_ctrl a)
        \<and> accounted (given RBDC) RBDC ?l (al_ctrl a1) (al_ctrl a) (unat (al_rem a1)) (unat (al_rem a))"
        using rbdc_steps_shared [OF f1 terminals_distinct [OF assms(3)] _ _ _ _ _ fs_def s1 s2]
          assms(4) some False r1
        by (simp add: sortByRemainingCredit_def same p1 rbdc_need_def word_gt_0)
      then have t: "touched RBDC (set ?l) (al_ctrl a1) (al_ctrl a)"
        "accounted (given RBDC) RBDC ?l c (al_ctrl a) (unat (al_rem a0)) (unat (al_rem a))"
        using accounted_from [OF _ touched_conv [OF t1]] by (auto simp: r1)
      have "touched RBDC ({} \<union> set ?l) c (al_ctrl a)" using touched_trans [OF t1 t(1)] .
      then show ?thesis unfolding g' using t(2) by (intro shared_set [OF assms(2)]) (simp_all add: a0_def)
    qed
  qed
qed


section \<open>All the carriers\<close>

lemma tig_touched: "touched K S c c' \<Longrightarrow> terminals_in_group cat cid c' = terminals_in_group cat cid c"
  unfolding terminals_in_group_def
proof (rule filter_cong [OF refl])
  fix i assume t: "touched K S c c'"
  show "in_carrier cid c' i = in_carrier cid c i"
  proof (cases "om_find (dm_terminals c) i")
    case None
    then have "om_find (dm_terminals c') i = None" using t by (simp add: touched_def)
    with None show ?thesis by (simp add: in_carrier_def)
  next
    case (Some u)
    then obtain u' where "om_find (dm_terminals c') i = Some u'" "same_but K u u'" using touched_same [OF t] by blast
    with Some show ?thesis by (simp add: in_carrier_def same_but_def)
  qed
qed

lemma fresh_outside:
  assumes "fresh_for K l c" "touched K S c c'" "S \<inter> set l = {}"
  shows "fresh_for K l c'"
proof -
  have "om_find (dm_terminals c') i = om_find (dm_terminals c) i" if "i \<in> set l" for i
    using touched_outside [OF assms(2)] assms(3) that by blast
  then show ?thesis using assms(1) touched_wf [OF assms(2)] touched_bit_ok [OF assms(2)] by (auto simp: fresh_for_def)
qed

text \<open>What the loops show of each group.\<close>

definition served :: "capacity \<Rightarrow> tal_id_t list \<Rightarrow> dama_group \<Rightarrow> dama_group \<Rightarrow> dama_ctrl \<Rightarrow> dama_ctrl \<Rightarrow> bool" where
  "served K l g g' c c' \<longleftrightarrow> g' = g\<lparr>dg_remaining := dg_remaining g'\<rparr> \<and> small g'
     \<and> accounted (given K) K l c c' (unat (dg_remaining g)) (unat (dg_remaining g'))"

lemma shared_served: "shared K l g g' c c' \<Longrightarrow> served K l g g' c c' \<and> touched K (set l) c c'"
  by (simp add: shared_def served_def)

lemma served_to: "served K l g g' c c1 \<Longrightarrow> touched K S c1 c2 \<Longrightarrow> S \<inter> set l = {} \<Longrightarrow> served K l g g' c c2"
  using accounted_to by (auto simp: served_def)

lemma served_from: "served K l g g' c1 c2 \<Longrightarrow> touched K S c c1 \<Longrightarrow> served K l g g' c c2"
  using accounted_from [OF _ touched_conv giving_ok_given] by (auto simp: served_def)

lemma tig_disjoint:
  "cid \<noteq> cid' \<Longrightarrow> set (terminals_in_group cat cid c) \<inter> set (terminals_in_group cat' cid' c) = {}"
  by (auto simp: terminals_in_group_def in_carrier_def split: option.splits)

definition group_terms :: "dama_category \<Rightarrow> dama_group \<Rightarrow> dama_ctrl \<Rightarrow> tal_id_t list" where
  "group_terms cat g c = terminals_in_group cat (dg_carriers_id g) c"

lemma group_terms_touched: "touched K S c c' \<Longrightarrow> group_terms cat g c' = group_terms cat g c"
  by (simp add: group_terms_def tig_touched)

lemma group_terms_sub: "set (group_terms cat g c) \<subseteq> set (dc_terminals cat)"
  by (auto simp: group_terms_def terminals_in_group_def)

lemma group_step_Inr:
  "group_step f cat g (c, s) = Inr ((c1, s1), g1) \<Longrightarrow> \<exists>a. f cat g c = Inr (a, g1) \<and> c1 = al_ctrl a"
  by (cases s) (auto simp: group_step_def res_bind_Inr)

lemma category_step_Inr:
  "category_step f cat (c, s) = Inr ((c1, s1), cat1) \<Longrightarrow>
     \<exists>gs. groups_loop (group_step f cat) (dc_groups cat) (c, s) = Inr ((c1, s1), gs) \<and> cat1 = cat\<lparr>dc_groups := gs\<rparr>"
  by (auto simp: category_step_def res_bind_Inr)

locale sharing =
  fixes K :: capacity and f :: "dama_category \<Rightarrow> dama_group \<Rightarrow> dama_ctrl \<Rightarrow> (alloc \<times> dama_group) res"
    and need :: "dama_category \<Rightarrow> dama_group \<Rightarrow> dama_ctrl \<Rightarrow> bool"
  assumes group: "f cat g c = Inr (a, g') \<Longrightarrow> small g \<Longrightarrow> distinct (dc_terminals cat) \<Longrightarrow> need cat g c
      \<Longrightarrow> fresh_for K (group_terms cat g c) c \<Longrightarrow> shared K (group_terms cat g c) g g' c (al_ctrl a)"
    and keep: "need cat g c \<Longrightarrow> touched K S c c' \<Longrightarrow> S \<inter> set (group_terms cat g c) = {} \<Longrightarrow> need cat g c'"
begin

definition ready :: "dama_category \<Rightarrow> dama_ctrl \<Rightarrow> dama_group \<Rightarrow> bool" where
  "ready cat c g \<longleftrightarrow> small g \<and> need cat g c \<and> fresh_for K (group_terms cat g c) c"

lemma ready_keep: "ready cat c g \<Longrightarrow> touched K S c c' \<Longrightarrow> S \<inter> set (group_terms cat g c) = {} \<Longrightarrow> ready cat c' g"
  using keep [of cat g c S c'] fresh_outside [of K "group_terms cat g c" c S c']
  by (simp add: ready_def group_terms_touched)

lemma groups:
  assumes "groups_loop (group_step f cat) gs (c, s) = Inr ((c', s'), gs')" "distinct (dc_terminals cat)"
    "distinct (map dg_carriers_id gs)" "\<forall>g \<in> set gs. ready cat c g"
    "om_wf (dm_terminals c)" "bit_ok (dm_converter c)"
  shows "touched K (\<Union>g \<in> set gs. set (group_terms cat g c)) c c'
    \<and> list_all2 (\<lambda>g g'. served K (group_terms cat g c) g g' c c') gs gs'"
  using assms
proof (induction gs arbitrary: c s gs')
  case Nil
  then show ?case using touched_refl by simp
next
  case (Cons g gs)
  obtain a g1 s1 gs1 where f: "f cat g c = Inr (a, g1)" and gs': "gs' = g1 # gs1"
    and r: "groups_loop (group_step f cat) gs (al_ctrl a, s1) = Inr ((c', s'), gs1)"
    using Cons.prems(1) by (fastforce simp: res_bind_Inr dest: group_step_Inr)
  define S where "S = set (group_terms cat g c)"
  have one: "served K (group_terms cat g c) g g1 c (al_ctrl a)" "touched K S c (al_ctrl a)"
    using shared_served [OF group [OF f]] Cons.prems(2,4) by (auto simp: ready_def S_def)
  have disj: "S \<inter> set (group_terms cat g' c) = {}" if "g' \<in> set gs" for g'
    unfolding S_def group_terms_def using Cons.prems(3) that by (intro tig_disjoint) force
  then have rd: "\<forall>g \<in> set gs. ready cat (al_ctrl a) g" using ready_keep [OF _ one(2)] Cons.prems(4) by auto
  have ih: "touched K (\<Union>g \<in> set gs. set (group_terms cat g c)) (al_ctrl a) c'"
    "list_all2 (\<lambda>g g'. served K (group_terms cat g c) g g' (al_ctrl a) c') gs gs1"
    using Cons.IH [OF r Cons.prems(2) _ rd] Cons.prems(3) touched_wf [OF one(2)] touched_bit_ok [OF one(2) Cons.prems(6)]
    by (simp_all add: group_terms_touched [OF one(2)])
  have "served K (group_terms cat g c) g g1 c c'" using served_to [OF one(1) ih(1)] disj by (fastforce simp: S_def)
  moreover have "list_all2 (\<lambda>g g'. served K (group_terms cat g c) g g' c c') gs gs1"
    using ih(2) by (rule list_all2_mono) (rule served_from [OF _ one(2)])
  ultimately show ?case using touched_trans [OF one(2) ih(1)] by (simp add: gs' S_def)
qed

lemma categories:
  assumes "cats_loop (category_step f) cs (c, s) = Inr ((c', s'), cs')" "distinct (concat (map (\<lambda>(l, cat). dc_terminals cat) cs))"
    "\<forall>(l, cat) \<in> set cs. distinct (map dg_carriers_id (dc_groups cat)) \<and> (\<forall>g \<in> set (dc_groups cat). ready cat c g)"
    "om_wf (dm_terminals c)" "bit_ok (dm_converter c)"
  shows "touched K (\<Union>(l, cat) \<in> set cs. set (dc_terminals cat)) c c'
    \<and> list_all2 (\<lambda>(l, cat) (l', cat'). l' = l \<and> cat' = cat\<lparr>dc_groups := dc_groups cat'\<rparr>
        \<and> list_all2 (\<lambda>g g'. served K (group_terms cat g c) g g' c c') (dc_groups cat) (dc_groups cat')) cs cs'"
  using assms
proof (induction cs arbitrary: c s cs')
  case Nil
  then show ?case using touched_refl by simp
next
  case (Cons p cs)
  obtain l cat where p: "p = (l, cat)" by fastforce
  obtain c1 s1 gs1 cs1 where g: "groups_loop (group_step f cat) (dc_groups cat) (c, s) = Inr ((c1, s1), gs1)"
    and cs': "cs' = (l, cat\<lparr>dc_groups := gs1\<rparr>) # cs1" and r: "cats_loop (category_step f) cs (c1, s1) = Inr ((c', s'), cs1)"
    using Cons.prems(1) by (fastforce simp: p res_bind_Inr dest: category_step_Inr)
  have d: "distinct (dc_terminals cat)" "distinct (concat (map (\<lambda>(l, cat). dc_terminals cat) cs))"
    "\<And>l' cat'. (l', cat') \<in> set cs \<Longrightarrow> set (dc_terminals cat) \<inter> set (dc_terminals cat') = {}"
    using Cons.prems(2) by (simp_all add: p) fastforce
  have "touched K (\<Union>g \<in> set (dc_groups cat). set (group_terms cat g c)) c c1
    \<and> list_all2 (\<lambda>g g'. served K (group_terms cat g c) g g' c c1) (dc_groups cat) gs1"
    using groups [OF g d(1)] Cons.prems(3-5) by (simp add: p)
  then have one: "touched K (set (dc_terminals cat)) c c1"
    "list_all2 (\<lambda>g g'. served K (group_terms cat g c) g g' c c1) (dc_groups cat) gs1"
    using touched_mono [OF _ UN_least] group_terms_sub by blast+
  have "ready cat' c1 g" if "(l', cat') \<in> set cs" "g \<in> set (dc_groups cat')" for l' cat' g
    using ready_keep [OF _ one(1)] Cons.prems(3) that d(3) [OF that(1)] group_terms_sub [of cat' g c] by fastforce
  then have rd: "\<forall>(l, cat) \<in> set cs. distinct (map dg_carriers_id (dc_groups cat)) \<and> (\<forall>g \<in> set (dc_groups cat). ready cat c1 g)"
    using Cons.prems(3) by auto
  have ih: "touched K (\<Union>(l, cat) \<in> set cs. set (dc_terminals cat)) c1 c'"
    "list_all2 (\<lambda>(l, cat) (l', cat'). l' = l \<and> cat' = cat\<lparr>dc_groups := dc_groups cat'\<rparr>
        \<and> list_all2 (\<lambda>g g'. served K (group_terms cat g c) g g' c1 c') (dc_groups cat) (dc_groups cat')) cs cs1"
    using Cons.IH [OF r d(2) rd] touched_wf [OF one(1)] touched_bit_ok [OF one(1) Cons.prems(5)]
    by (simp_all add: group_terms_touched [OF one(1)])
  have disj: "(\<Union>(l, cat) \<in> set cs. set (dc_terminals cat)) \<inter> set (group_terms cat g c) = {}" for g
    using d(3) group_terms_sub [of cat g c] by fastforce
  have "list_all2 (\<lambda>g g'. served K (group_terms cat g c) g g' c c') (dc_groups cat) gs1"
    using one(2) by (rule list_all2_mono) (rule served_to [OF _ ih(1) disj])
  moreover have "list_all2 (\<lambda>(l, cat) (l', cat'). l' = l \<and> cat' = cat\<lparr>dc_groups := dc_groups cat'\<rparr>
        \<and> list_all2 (\<lambda>g g'. served K (group_terms cat g c) g g' c c') (dc_groups cat) (dc_groups cat')) cs cs1"
    using ih(2) by (rule list_all2_mono) (auto intro: list_all2_mono served_from [OF _ one(1)])
  ultimately show ?case using touched_trans [OF one(1) ih(1)] by (simp add: cs' p)
qed

end

end
