(* ===== verification/DamaBooks.thy ===== *)
theory DamaBooks
  imports DamaShare
begin

text \<open>
  The books of a superframe: the four kinds of capacity are given one after the other, from what the
  ones before have left of each carriers group.
\<close>

section \<open>A well-formed controller\<close>

definition registered :: "dama_ctrl \<Rightarrow> tal_id_t set" where
  "registered c = {i. om_find (dm_terminals c) i \<noteq> None}"

definition listed :: "dama_ctrl \<Rightarrow> tal_id_t list" where
  "listed c = concat (map (\<lambda>(l, cat). dc_terminals cat) (dm_categories c))"

definition dm_wf :: "dama_ctrl \<Rightarrow> bool" where
  "dm_wf c \<longleftrightarrow> om_wf (dm_terminals c) \<and> distinct (listed c) \<and> set (listed c) \<subseteq> registered c
     \<and> (\<forall>(l, cat) \<in> set (dm_categories c). distinct (map dg_carriers_id (dc_groups cat)))"

definition zero :: "capacity \<Rightarrow> dama_ctrl \<Rightarrow> bool" where
  "zero K c \<longleftrightarrow> (\<forall>i t. om_find (dm_terminals c) i = Some t \<longrightarrow> alloc_of K t = 0)"

definition each_group :: "(dama_category \<Rightarrow> dama_group \<Rightarrow> bool) \<Rightarrow> dama_ctrl \<Rightarrow> bool" where
  "each_group P c \<longleftrightarrow> (\<forall>(l, cat) \<in> set (dm_categories c). \<forall>g \<in> set (dc_groups cat). P cat g)"

text \<open>Two lists of categories, group by group; only the remaining capacities differ.\<close>

definition both_cats :: "(dama_category \<Rightarrow> dama_group \<Rightarrow> dama_group \<Rightarrow> bool)
    \<Rightarrow> string \<times> dama_category \<Rightarrow> string \<times> dama_category \<Rightarrow> bool" where
  "both_cats P = (\<lambda>(l, cat) (l', cat'). l' = l \<and> cat' = cat\<lparr>dc_groups := dc_groups cat'\<rparr>
     \<and> list_all2 (P cat) (dc_groups cat) (dc_groups cat'))"

definition both_groups :: "(dama_category \<Rightarrow> dama_group \<Rightarrow> dama_group \<Rightarrow> bool) \<Rightarrow> dama_ctrl \<Rightarrow> dama_ctrl \<Rightarrow> bool" where
  "both_groups P c c' \<longleftrightarrow> list_all2 (both_cats P) (dm_categories c) (dm_categories c')"

lemma fresh_zero:
  "om_wf (dm_terminals c) \<Longrightarrow> bit_ok (dm_converter c) \<Longrightarrow> zero K c \<Longrightarrow> set l \<subseteq> registered c \<Longrightarrow> fresh_for K l c"
  by (auto simp: fresh_for_def zero_def registered_def)

lemma listed_cat: "(l, cat) \<in> set (dm_categories c) \<Longrightarrow> set (dc_terminals cat) \<subseteq> set (listed c)"
  by (auto simp: listed_def)

context sharing begin

lemma all_groups:
  assumes "all_carriers f c = Inr (c', s)" "dm_wf c" "bit_ok (dm_converter c)" "zero K c"
    "each_group (\<lambda>cat g. small g \<and> need cat g c) c"
  shows "\<exists>c1 cats. touched K UNIV c c1 \<and> c' = c1\<lparr>dm_categories := cats\<rparr>
    \<and> both_groups (\<lambda>cat g g'. served K (group_terms cat g c) g g' c c1) c c'"
proof -
  obtain c1 s1 cats where r: "cats_loop (category_step f) (dm_categories c) (c, (True, 0, 0)) = Inr ((c1, s1), cats)"
    and c': "c' = c1\<lparr>dm_categories := cats\<rparr>"
    using assms(1) by (auto simp: all_carriers_def res_bind_Inr)
  have wf: "om_wf (dm_terminals c)" "distinct (concat (map (\<lambda>(l, cat). dc_terminals cat) (dm_categories c)))"
    using assms(2) by (simp_all add: dm_wf_def listed_def)
  have "fresh_for K (group_terms cat g c) c" if "(l, cat) \<in> set (dm_categories c)" for l cat g
    using fresh_zero [OF wf(1) assms(3,4)] listed_cat [OF that] group_terms_sub [of cat g c] assms(2)
    unfolding dm_wf_def by blast
  then have "\<forall>(l, cat) \<in> set (dm_categories c). distinct (map dg_carriers_id (dc_groups cat))
      \<and> (\<forall>g \<in> set (dc_groups cat). ready cat c g)"
    using assms(2,5) by (fastforce simp: dm_wf_def each_group_def ready_def)
  note k = categories [OF r wf(2) this wf(1) assms(3)]
  then have "touched K UNIV c c1" by (auto intro: touched_mono)
  then show ?thesis using k c' by (auto simp: both_groups_def both_cats_def)
qed

end

text \<open>The four interpretations.\<close>

interpretation cra_share: sharing CRA cra_group "\<lambda>cat g c. True"
  by unfold_locales (simp_all add: cra_group_shared group_terms_def)

interpretation vbdc_share: sharing VBDC vbdc_group "\<lambda>cat g c. True"
  by unfold_locales (simp_all add: vbdc_group_shared group_terms_def)

interpretation fca_share: sharing FCA fca_group "\<lambda>cat g c. True"
  by unfold_locales (simp_all add: fca_group_shared group_terms_def)

lemma rbdc_need_same:
  assumes "\<And>i. i \<in> set (group_terms cat g c) \<Longrightarrow> rbdc_packets c' i = rbdc_packets c i"
    "group_terms cat g c' = group_terms cat g c"
  shows "rbdc_need cat g c' = rbdc_need cat g c"
proof -
  have "(\<Sum>i\<leftarrow>group_terms cat g c. unat (rbdc_packets c' i)) = (\<Sum>i\<leftarrow>group_terms cat g c. unat (rbdc_packets c i))"
    using assms(1) by (intro arg_cong [where f = sum_list] map_cong) auto
  then show ?thesis unfolding rbdc_need_def group_terms_def [symmetric] assms(2) by simp
qed

interpretation rbdc_share: sharing RBDC rbdc_group rbdc_need
proof unfold_locales
  fix cat g c a g'
  assume "rbdc_group cat g c = Inr (a, g')" "small g" "distinct (dc_terminals cat)" "rbdc_need cat g c"
    "fresh_for RBDC (group_terms cat g c) c"
  then show "shared RBDC (group_terms cat g c) g g' c (al_ctrl a)"
    unfolding group_terms_def by (rule rbdc_group_shared)
next
  fix cat g c S c'
  assume n: "rbdc_need cat g c" and t: "touched RBDC S c c'" and d: "S \<inter> set (group_terms cat g c) = {}"
  have "rbdc_packets c' i = rbdc_packets c i" if "i \<in> set (group_terms cat g c)" for i
    using touched_outside [OF t] d that same_packets_conv(1) [OF touched_conv [OF t]]
    by (intro rbdc_packets_cong) blast+
  then show "rbdc_need cat g c'" using n rbdc_need_same group_terms_touched [OF t] by blast
qed


section \<open>One kind after the other\<close>

text \<open>A terminal but for its allocations of the kinds \<open>S\<close>.\<close>

definition same_except :: "capacity set \<Rightarrow> dama_term \<Rightarrow> dama_term \<Rightarrow> bool" where
  "same_except S t t' \<longleftrightarrow> dt_id t' = dt_id t \<and> dt_category t' = dt_category t \<and> dt_carrier t' = dt_carrier t
     \<and> dt_fmt t' = dt_fmt t \<and> dt_rbdc_req t' = dt_rbdc_req t \<and> dt_max_rbdc t' = dt_max_rbdc t
     \<and> dt_cra_req t' = dt_cra_req t \<and> (\<forall>K. K \<notin> S \<longrightarrow> alloc_of K t' = alloc_of K t)"

lemma same_except_step: "same_except S t u \<Longrightarrow> same_but K u v \<Longrightarrow> same_except (insert K S) t v"
  by (auto simp: same_except_def same_but_def)

definition terms_kept :: "capacity set \<Rightarrow> dama_ctrl \<Rightarrow> dama_ctrl \<Rightarrow> bool" where
  "terms_kept S c c' \<longleftrightarrow> om_wf (dm_terminals c') \<and> same_packets (dm_converter c) (dm_converter c')
     \<and> (\<forall>i. om_find (dm_terminals c) i = None \<longrightarrow> om_find (dm_terminals c') i = None)
     \<and> (\<forall>i t. om_find (dm_terminals c) i = Some t
          \<longrightarrow> (\<exists>t'. om_find (dm_terminals c') i = Some t' \<and> same_except S t t'))"

lemma terms_kept_refl: "om_wf (dm_terminals c) \<Longrightarrow> bit_ok (dm_converter c) \<Longrightarrow> terms_kept S c c"
  by (simp add: terms_kept_def bit_ok_def same_except_def)

lemma terms_kept_step:
  assumes "terms_kept S c c1" "touched K T c1 c2"
  shows "terms_kept (insert K S) c c2"
proof -
  have "\<exists>t'. om_find (dm_terminals c2) i = Some t' \<and> same_except (insert K S) t t'"
    if it: "om_find (dm_terminals c) i = Some t" for i t
  proof -
    obtain u where u: "om_find (dm_terminals c1) i = Some u" "same_except S t u"
      using assms(1) it unfolding terms_kept_def by blast
    obtain v where "om_find (dm_terminals c2) i = Some v" "same_but K u v" by (rule touched_same [OF assms(2) u(1)])
    then show ?thesis using same_except_step [OF u(2)] by blast
  qed
  then show ?thesis using assms unfolding terms_kept_def touched_def by (auto elim: same_packets_trans)
qed

lemma terms_kept_registered: "terms_kept S c c' \<Longrightarrow> registered c' = registered c"
  unfolding terms_kept_def registered_def by (metis not_Some_eq)

text \<open>The packets of the kinds \<open>S\<close>, and what remains.\<close>

definition paid :: "capacity set \<Rightarrow> tal_id_t list \<Rightarrow> dama_ctrl \<Rightarrow> dama_ctrl \<Rightarrow> dama_group \<Rightarrow> dama_group \<Rightarrow> bool" where
  "paid S l c c' g g' \<longleftrightarrow> g' = g\<lparr>dg_remaining := dg_remaining g'\<rparr> \<and> small g'
     \<and> (\<exists>gr. (\<Sum>i\<leftarrow>l. \<Sum>K\<in>S. gr K i) + unat (dg_remaining g') = unat (dg_remaining g)
          \<and> (\<forall>i \<in> set l. \<exists>t. om_find (dm_terminals c') i = Some t
               \<and> (\<forall>K \<in> S. given K (dm_converter c) (gr K i) (alloc_of K t))))"

definition books :: "capacity set \<Rightarrow> dama_ctrl \<Rightarrow> dama_ctrl \<Rightarrow> bool" where
  "books S c c' \<longleftrightarrow> terms_kept S c c' \<and> both_groups (\<lambda>cat g g'. paid S (group_terms cat g c) c c' g g') c c'"

lemma regroup:
  "g1 = g\<lparr>dg_remaining := x\<rparr> \<Longrightarrow> g2 = g1\<lparr>dg_remaining := y\<rparr> \<Longrightarrow> g2 = (g :: dama_group)\<lparr>dg_remaining := y\<rparr>"
  by simp

lemma paid_step:
  assumes "finite S" "K \<notin> S" "paid S l c c1 g g1" "served K l g1 g2 c1 c2"
    and "same_packets (dm_converter c) (dm_converter c1)"
    and t: "\<And>i t. om_find (dm_terminals c1) i = Some t \<Longrightarrow> \<exists>t'. om_find (dm_terminals c2) i = Some t' \<and> same_but K t t'"
  shows "paid (insert K S) l c c2 g g2"
proof -
  obtain gr where gr: "(\<Sum>i\<leftarrow>l. \<Sum>K\<in>S. gr K i) + unat (dg_remaining g1) = unat (dg_remaining g)"
    "\<forall>i \<in> set l. \<exists>t. om_find (dm_terminals c1) i = Some t \<and> (\<forall>K \<in> S. given K (dm_converter c) (gr K i) (alloc_of K t))"
    using assms(3) by (auto simp: paid_def)
  obtain h where h: "(\<Sum>i\<leftarrow>l. h i) + unat (dg_remaining g2) = unat (dg_remaining g1)"
    "\<forall>i \<in> set l. \<exists>t. om_find (dm_terminals c2) i = Some t \<and> given K (dm_converter c1) (h i) (alloc_of K t)"
    using assms(4) by (auto simp: served_def accounted_def)
  define gr' where "gr' = gr(K := h)"
  have s: "(\<Sum>K'\<in>insert K S. gr' K' i) = h i + (\<Sum>K\<in>S. gr K i)" for i
  proof -
    have "(\<Sum>K'\<in>S. gr' K' i) = (\<Sum>K\<in>S. gr K i)" using assms(2) by (intro sum.cong) (auto simp: gr'_def)
    then show ?thesis using assms(1,2) by (simp add: gr'_def)
  qed
  have "(\<Sum>i\<leftarrow>l. \<Sum>K'\<in>insert K S. gr' K' i) + unat (dg_remaining g2) = unat (dg_remaining g)"
    unfolding s using gr(1) h(1) by (simp add: sum_list_addf)
  moreover have "\<exists>t. om_find (dm_terminals c2) i = Some t
      \<and> (\<forall>K' \<in> insert K S. given K' (dm_converter c) (gr' K' i) (alloc_of K' t))" if i: "i \<in> set l" for i
  proof -
    obtain u where u: "om_find (dm_terminals c1) i = Some u" "\<forall>K \<in> S. given K (dm_converter c) (gr K i) (alloc_of K u)"
      using gr(2) i by blast
    obtain v where v: "om_find (dm_terminals c2) i = Some v" "same_but K u v" using t [OF u(1)] by blast
    have "given K (dm_converter c) (h i) (alloc_of K v)"
      using h(2) i v(1) same_packets_conv(6) [OF assms(5)] by auto
    moreover have "given K' (dm_converter c) (gr K' i) (alloc_of K' v)" if K': "K' \<in> S" for K'
    proof -
      have "K' \<noteq> K" using K' assms(2) by blast
      then have "alloc_of K' v = alloc_of K' u" using v(2) by (simp add: same_but_def)
      then show ?thesis using u(2) K' by metis
    qed
    ultimately have "\<forall>K' \<in> insert K S. given K' (dm_converter c) (gr' K' i) (alloc_of K' v)"
      using assms(2) by (auto simp: gr'_def)
    then show ?thesis using v(1) by blast
  qed
  moreover have "g2 = g\<lparr>dg_remaining := dg_remaining g2\<rparr>" "small g2"
    using regroup assms(3,4) unfolding paid_def served_def by blast+
  ultimately show ?thesis unfolding paid_def by blast
qed


lemma paid_none:
  assumes "S = {} \<or> (\<forall>K \<in> S. zero K c)" "small g" "set l \<subseteq> registered c" "bit_ok (dm_converter c)" "finite S"
  shows "paid S l c c g g"
proof -
  have "\<exists>t. om_find (dm_terminals c) i = Some t \<and> (\<forall>K \<in> S. given K (dm_converter c) 0 (alloc_of K t))"
    if "i \<in> set l" for i
    using assms(1,3) that given_zero [OF assms(4)] by (fastforce simp: registered_def zero_def)
  then show ?thesis using assms(2) unfolding paid_def by (intro conjI exI [of _ "\<lambda>_ _. 0"]) simp_all
qed

lemma both_groups_refl:
  "each_group (\<lambda>cat g. P cat g g) c \<Longrightarrow> both_groups P c c"
  unfolding both_groups_def each_group_def both_cats_def by (auto simp: list_all2_same)


lemma regroup_cat:
  "cat1 = cat\<lparr>dc_groups := x\<rparr> \<Longrightarrow> cat2 = cat1\<lparr>dc_groups := y\<rparr> \<Longrightarrow> cat2 = (cat :: dama_category)\<lparr>dc_groups := y\<rparr>"
  by simp

lemma both_groups_trans:
  assumes "both_groups P c c1" "both_groups Q c1 c2"
    and PQ: "\<And>cat gs g g1 g2. P cat g g1 \<Longrightarrow> Q (cat\<lparr>dc_groups := gs\<rparr>) g1 g2 \<Longrightarrow> R cat g g2"
  shows "both_groups R c c2"
proof -
  have gs: "list_all2 (R cat) l l2" if "list_all2 (P cat) l l1" "list_all2 (Q (cat\<lparr>dc_groups := gs\<rparr>)) l1 l2" for cat gs l l1 l2
    using list_all2_trans [of "P cat" "Q (cat\<lparr>dc_groups := gs\<rparr>)" "R cat"] that PQ by blast
  show ?thesis
    unfolding both_groups_def
  proof (rule list_all2_trans [OF _ assms(1) [unfolded both_groups_def] assms(2) [unfolded both_groups_def]])
    fix p p1 p2 :: "string \<times> dama_category"
    obtain l cat l1 cat1 l2 cat2 where p: "p = (l, cat)" "p1 = (l1, cat1)" "p2 = (l2, cat2)" by (metis surj_pair)
    assume 1: "both_cats P p p1" and 2: "both_cats Q p1 p2"
    have c1: "cat1 = cat\<lparr>dc_groups := dc_groups cat1\<rparr>" and r1: "list_all2 (P cat) (dc_groups cat) (dc_groups cat1)"
      using 1 by (auto simp: p both_cats_def)
    have c2: "cat2 = cat1\<lparr>dc_groups := dc_groups cat2\<rparr>" and r2: "list_all2 (Q cat1) (dc_groups cat1) (dc_groups cat2)"
      using 2 by (auto simp: p both_cats_def)
    have "list_all2 (R cat) (dc_groups cat) (dc_groups cat2)" using gs [OF r1] r2 c1 by metis
    moreover have "cat2 = cat\<lparr>dc_groups := dc_groups cat2\<rparr>" using c1 c2 by (rule regroup_cat)
    ultimately show "both_cats R p p2" using 1 2 by (simp add: p both_cats_def)
  qed
qed

lemma group_terms_kept: "terms_kept S c c' \<Longrightarrow> group_terms cat g c' = group_terms cat g c"
  unfolding group_terms_def terminals_in_group_def
proof (rule filter_cong [OF refl])
  fix i assume t: "terms_kept S c c'"
  show "in_carrier (dg_carriers_id g) c' i = in_carrier (dg_carriers_id g) c i"
  proof (cases "om_find (dm_terminals c) i")
    case None
    then have "om_find (dm_terminals c') i = None" using t by (simp add: terms_kept_def)
    with None show ?thesis by (simp add: in_carrier_def)
  next
    case (Some u)
    then obtain u' where "om_find (dm_terminals c') i = Some u'" "same_except S u u'"
      using t unfolding terms_kept_def by blast
    with Some show ?thesis by (simp add: in_carrier_def same_except_def)
  qed
qed

lemma group_terms_regroup:
  "g1 = g\<lparr>dg_remaining := x\<rparr> \<Longrightarrow> group_terms (cat\<lparr>dc_groups := gs\<rparr>) g1 c = group_terms cat (g :: dama_group) c"
  by (simp add: group_terms_def terminals_in_group_def)

lemma books_step:
  assumes b: "books S c c1" "finite S" "K \<notin> S" and t: "touched K UNIV c1 d"
    and g: "both_groups (\<lambda>cat g g'. served K (group_terms cat g c1) g g' c1 d) c1 (d\<lparr>dm_categories := cats\<rparr>)"
  shows "books (insert K S) c (d\<lparr>dm_categories := cats\<rparr>)"
proof -
  have k: "terms_kept S c c1" using b(1) by (simp add: books_def)
  have "both_groups (\<lambda>cat g g'. paid (insert K S) (group_terms cat g c) c d g g') c (d\<lparr>dm_categories := cats\<rparr>)"
  proof (rule both_groups_trans [OF _ g])
    show "both_groups (\<lambda>cat g g'. paid S (group_terms cat g c) c c1 g g') c c1" using b(1) by (simp add: books_def)
    fix cat gs g g1 g2
    assume p: "paid S (group_terms cat g c) c c1 g g1"
      and s: "served K (group_terms (cat\<lparr>dc_groups := gs\<rparr>) g1 c1) g1 g2 c1 d"
    have "group_terms (cat\<lparr>dc_groups := gs\<rparr>) g1 c1 = group_terms cat g c"
      using group_terms_regroup group_terms_kept [OF k] p unfolding paid_def by metis
    then show "paid (insert K S) (group_terms cat g c) c d g g2"
      using paid_step [OF b(2,3) p] s k t unfolding terms_kept_def touched_def by metis
  qed
  then show ?thesis using terms_kept_step [OF k t] by (simp add: books_def terms_kept_def paid_def)
qed

end
