(* ===== verification/DamaFrame.thy ===== *)
theory DamaFrame
  imports DamaBooks
begin

text \<open>
  A superframe of the DAMA controller: no carriers group gives more packets than it has, whatever the
  kinds of capacity that take part.
\<close>

section \<open>From one kind to the next\<close>

lemma UNIV_capacity: "(UNIV :: capacity set) = {CRA, RBDC, VBDC, FCA}"
  using capacity.exhaust by auto

lemma finite_capacity: "finite (S :: capacity set)"
  by (metis UNIV_capacity finite.emptyI finite.insertI finite_subset subset_UNIV)

lemma both_groups_cat:
  assumes "both_groups P c c'" "(l, cat') \<in> set (dm_categories c')"
  obtains cat where "(l, cat) \<in> set (dm_categories c)" "cat' = cat\<lparr>dc_groups := dc_groups cat'\<rparr>"
    "list_all2 (P cat) (dc_groups cat) (dc_groups cat')"
proof -
  obtain k where k: "k < length (dm_categories c')" "dm_categories c' ! k = (l, cat')"
    using assms(2) unfolding in_set_conv_nth by blast
  then have "k < length (dm_categories c)" "both_cats P (dm_categories c ! k) (l, cat')"
    using assms(1) by (auto simp: both_groups_def list_all2_conv_all_nth)
  moreover obtain l0 cat where "dm_categories c ! k = (l0, cat)" by fastforce
  ultimately show thesis using that nth_mem [of k "dm_categories c"] by (auto simp: both_cats_def)
qed

lemma both_groups_cat_of:
  assumes "both_groups P c c'" "(l, cat) \<in> set (dm_categories c)"
  obtains cat' where "(l, cat') \<in> set (dm_categories c')" "cat' = cat\<lparr>dc_groups := dc_groups cat'\<rparr>"
    "list_all2 (P cat) (dc_groups cat) (dc_groups cat')"
proof -
  obtain k where k: "k < length (dm_categories c)" "dm_categories c ! k = (l, cat)"
    using assms(2) unfolding in_set_conv_nth by blast
  then have "k < length (dm_categories c')" "both_cats P (l, cat) (dm_categories c' ! k)"
    using assms(1) by (auto simp: both_groups_def list_all2_conv_all_nth)
  moreover obtain l0 cat' where "dm_categories c' ! k = (l0, cat')" by fastforce
  ultimately show thesis using that nth_mem [of k "dm_categories c'"] by (auto simp: both_cats_def)
qed

lemma both_groups_listed: "both_groups P c c' \<Longrightarrow> listed c' = listed c"
proof -
  assume b: "both_groups P c c'"
  have "map (\<lambda>(l, cat). dc_terminals cat) cs' = map (\<lambda>(l, cat). dc_terminals cat) cs"
    if "list_all2 (both_cats P) cs cs'" for cs cs'
    using that
  proof (induction rule: list_all2_induct)
    case (Cons p cs p' cs')
    then show ?case by (auto simp: both_cats_def) (metis dama_category.select_convs(3) dama_category.surjective dama_category.update_convs(2))
  qed simp
  then show ?thesis using b by (simp add: listed_def both_groups_def)
qed

lemma books_wf:
  assumes "books S c c'" "dm_wf c"
  shows "dm_wf c'" "each_group (\<lambda>cat g. small g) c'"
proof -
  have b: "both_groups (\<lambda>cat g g'. paid S (group_terms cat g c) c c' g g') c c'" and k: "terms_kept S c c'"
    using assms(1) by (auto simp: books_def)
  have ids: "map dg_carriers_id gs' = map dg_carriers_id gs"
    if "list_all2 (\<lambda>g g'. paid S (group_terms cat g c) c c' g g') gs gs'" for cat gs gs'
    using that
  proof (induction rule: list_all2_induct)
    case (Cons g gs g' gs')
    then have "g' = g\<lparr>dg_remaining := dg_remaining g'\<rparr>" unfolding paid_def by blast
    then have "dg_carriers_id g' = dg_carriers_id g" by (metis dama_carriers.select_convs(1) dama_carriers.surjective dama_carriers.update_convs(8))
    then show ?case using Cons by simp
  qed simp
  have "distinct (map dg_carriers_id (dc_groups cat')) \<and> (\<forall>g \<in> set (dc_groups cat'). small g)"
    if lc: "(l, cat') \<in> set (dm_categories c')" for l cat'
  proof -
    obtain cat where cat: "(l, cat) \<in> set (dm_categories c)" "cat' = cat\<lparr>dc_groups := dc_groups cat'\<rparr>"
      "list_all2 (\<lambda>g g'. paid S (group_terms cat g c) c c' g g') (dc_groups cat) (dc_groups cat')"
      by (rule both_groups_cat [OF b lc])
    have "\<forall>g \<in> set (dc_groups cat'). small g"
      using cat(3) by (auto simp: list_all2_conv_all_nth in_set_conv_nth paid_def)
    then show ?thesis using ids [OF cat(3)] cat(1) assms(2) by (auto simp: dm_wf_def)
  qed
  then show "dm_wf c'" "each_group (\<lambda>cat g. small g) c'"
    using assms(2) both_groups_listed [OF b] terms_kept_registered [OF k] k
    by (auto simp: dm_wf_def each_group_def terms_kept_def)
qed

lemma books_bit_ok: "books S c c' \<Longrightarrow> bit_ok (dm_converter c) \<Longrightarrow> bit_ok (dm_converter c')"
  using same_packets_conv(5) by (auto simp: books_def terms_kept_def)

lemma books_zero:
  assumes "books S c c'" "zero K c" "K \<notin> S"
  shows "zero K c'"
proof -
  have k: "terms_kept S c c'" using assms(1) by (simp add: books_def)
  have "alloc_of K t' = 0" if t': "om_find (dm_terminals c') i = Some t'" for i t'
  proof (cases "om_find (dm_terminals c) i")
    case None
    then show ?thesis using k t' by (simp add: terms_kept_def)
  next
    case (Some t)
    then have "same_except S t t'" using k t' unfolding terms_kept_def by fastforce
    then show ?thesis using assms(2,3) Some by (auto simp: zero_def same_except_def)
  qed
  then show ?thesis by (auto simp: zero_def)
qed

lemma books_widen:
  assumes "books S c c'" "S \<subseteq> T" "finite T" "\<And>K. K \<in> T - S \<Longrightarrow> zero K c" "bit_ok (dm_converter c)"
  shows "books T c c'"
proof -
  have k: "terms_kept S c c'" using assms(1) by (simp add: books_def)
  have "paid T l c c' g g'" if p: "paid S l c c' g g'" for l g g'
  proof -
    obtain gr where gr: "(\<Sum>i\<leftarrow>l. \<Sum>K\<in>S. gr K i) + unat (dg_remaining g') = unat (dg_remaining g)"
      "\<forall>i \<in> set l. \<exists>t. om_find (dm_terminals c') i = Some t \<and> (\<forall>K \<in> S. given K (dm_converter c) (gr K i) (alloc_of K t))"
      using p by (auto simp: paid_def)
    define h where "h = (\<lambda>K i. if K \<in> S then gr K i else 0)"
    have "(\<Sum>K\<in>T. h K i) = (\<Sum>K\<in>S. gr K i)" for i
      using sum.mono_neutral_right [OF assms(3,2), of "\<lambda>K. h K i"] by (simp add: h_def)
    moreover have "\<exists>t. om_find (dm_terminals c') i = Some t \<and> (\<forall>K \<in> T. given K (dm_converter c) (h K i) (alloc_of K t))"
      if i: "i \<in> set l" for i
    proof -
      obtain t where t: "om_find (dm_terminals c') i = Some t" "\<forall>K \<in> S. given K (dm_converter c) (gr K i) (alloc_of K t)"
        using gr(2) i by blast
      have "alloc_of K t = 0" if "K \<in> T" "K \<notin> S" for K
        using books_zero [OF assms(1) assms(4) [of K]] that t(1) by (auto simp: zero_def)
      then have "\<forall>K \<in> T. given K (dm_converter c) (h K i) (alloc_of K t)"
        using t(2) given_zero [OF assms(5)] by (auto simp: h_def)
      then show ?thesis using t(1) by blast
    qed
    ultimately have "(\<Sum>i\<leftarrow>l. \<Sum>K\<in>T. h K i) + unat (dg_remaining g') = unat (dg_remaining g)
      \<and> (\<forall>i \<in> set l. \<exists>t. om_find (dm_terminals c') i = Some t \<and> (\<forall>K \<in> T. given K (dm_converter c) (h K i) (alloc_of K t)))"
      using gr(1) by simp
    then show ?thesis using p unfolding paid_def by blast
  qed
  then have "both_cats (\<lambda>cat g g'. paid T (group_terms cat g c) c c' g g') p p'"
    if "both_cats (\<lambda>cat g g'. paid S (group_terms cat g c) c c' g g') p p'" for p p'
    using that by (auto simp: both_cats_def elim: list_all2_mono)
  moreover have "terms_kept T c c'" using k assms(2) unfolding terms_kept_def same_except_def by blast
  ultimately show ?thesis using assms(1) by (auto simp: books_def both_groups_def elim: list_all2_mono)
qed


text \<open>What the stages after the reset need of the RBDC requests.\<close>

lemma books_need:
  assumes b: "books S c c'" and n: "each_group (\<lambda>cat g. rbdc_need cat g c) c"
  shows "each_group (\<lambda>cat g. rbdc_need cat g c') c'"
proof -
  have bg: "both_groups (\<lambda>cat g g'. paid S (group_terms cat g c) c c' g g') c c'" and k: "terms_kept S c c'"
    using b by (auto simp: books_def)
  have need: "rbdc_need cat g c'" if "rbdc_need cat g c" for cat g
  proof -
    have "rbdc_packets c' i = rbdc_packets c i" for i
    proof (cases "om_find (dm_terminals c) i")
      case None
      then have "om_find (dm_terminals c') i = None" using k by (simp add: terms_kept_def)
      with None show ?thesis using same_packets_conv(1) [of "dm_converter c" "dm_converter c'"] k
        by (intro rbdc_packets_cong) (auto simp: terms_kept_def)
    next
      case (Some t)
      then obtain t' where "om_find (dm_terminals c') i = Some t'" "dt_rbdc_req t' = dt_rbdc_req t"
        using k unfolding terms_kept_def same_except_def by blast
      with Some show ?thesis using same_packets_conv(1) [of "dm_converter c" "dm_converter c'"] k
        by (simp add: rbdc_packets_def the_term_find terms_kept_def)
    qed
    then show ?thesis using rbdc_need_same group_terms_kept [OF k] that by blast
  qed
  have "rbdc_need cat' g' c'" if lc: "(l, cat') \<in> set (dm_categories c')" "g' \<in> set (dc_groups cat')" for l cat' g'
  proof -
    obtain cat where cat: "(l, cat) \<in> set (dm_categories c)" "cat' = cat\<lparr>dc_groups := dc_groups cat'\<rparr>"
      "list_all2 (\<lambda>g g'. paid S (group_terms cat g c) c c' g g') (dc_groups cat) (dc_groups cat')"
      by (rule both_groups_cat [OF bg lc(1)])
    obtain k where "k < length (dc_groups cat')" "dc_groups cat' ! k = g'" using lc(2) unfolding in_set_conv_nth by blast
    then have g: "dc_groups cat ! k \<in> set (dc_groups cat)" "g' = (dc_groups cat ! k)\<lparr>dg_remaining := dg_remaining g'\<rparr>"
      using cat(3) by (auto simp: list_all2_conv_all_nth paid_def)
    have "group_terms cat' g' c' = group_terms cat (dc_groups cat ! k) c'"
      using group_terms_regroup [OF g(2), where cat = cat and gs = "dc_groups cat'" and c = c'] cat(2) by simp
    moreover have "rbdc_need cat (dc_groups cat ! k) c'" using n cat(1) g(1) need by (auto simp: each_group_def)
    ultimately show ?thesis by (simp add: rbdc_need_def group_terms_def)
  qed
  then show ?thesis by (auto simp: each_group_def)
qed

lemma books_refl:
  assumes "dm_wf c" "bit_ok (dm_converter c)" "each_group (\<lambda>cat g. small g) c"
  shows "books {} c c"
proof -
  have "paid {} (group_terms cat g c) c c g g" if "(l, cat) \<in> set (dm_categories c)" "g \<in> set (dc_groups cat)" for l cat g
    using assms listed_cat [OF that(1)] group_terms_sub [of cat g c] that
    by (intro paid_none) (auto simp: dm_wf_def each_group_def)
  then have "both_groups (\<lambda>cat g g'. paid {} (group_terms cat g c) c c g g') c c"
    by (intro both_groups_refl) (auto simp: each_group_def)
  then show ?thesis using assms terms_kept_refl by (simp add: books_def dm_wf_def)
qed

text \<open>One kind of capacity for all the carriers.\<close>

context sharing begin

lemma stage:
  assumes "all_carriers f c1 = Inr (c2, s)" "books S c c1" "dm_wf c" "bit_ok (dm_converter c)" "zero K c" "K \<notin> S"
    and need: "each_group (\<lambda>cat g. need cat g c1) c1"
  shows "books (insert K S) c c2"
proof -
  have "each_group (\<lambda>cat g. small g \<and> need cat g c1) c1"
    using books_wf(2) [OF assms(2,3)] need by (auto simp: each_group_def)
  then obtain d cats where "touched K UNIV c1 d" "c2 = d\<lparr>dm_categories := cats\<rparr>"
    "both_groups (\<lambda>cat g g'. served K (group_terms cat g c1) g g' c1 d) c1 c2"
    using all_groups [OF assms(1) books_wf(1) [OF assms(2,3)] books_bit_ok [OF assms(2,4)] books_zero [OF assms(2,5,6)]]
    by blast
  then show ?thesis using books_step [OF assms(2) finite_capacity assms(6)] by blast
qed

end

lemma each_group_True: "each_group (\<lambda>cat g. True) c"
  by (simp add: each_group_def split_beta)

end
