(* ===== verification/DamaReset.thy ===== *)
theory DamaReset
  imports DamaFrame
begin

text \<open>
  The start of a superframe: the capacity of each group of carriers, the MODCODs of the terminals, their
  allocations back to zero.
\<close>

section \<open>Capacity of the carriers\<close>

text \<open>The capacity of a group in packets per frame, as \<open>resetCarriersCapacity\<close> computes it.\<close>

definition group_capacity :: "dama_ctrl \<Rightarrow> dama_group \<Rightarrow> u16 res" where
  "group_capacity c g = res_bind (dg_front_fmt g) (\<lambda>i.
     res_bind (ft_symToKbits (dm_table c) i (dg_getTotalCapacity g)) (uc_kbitsToPkt (dm_converter c)))"

definition core where
  "core c = (dm_terminals c, dm_categories c, dm_table c, dm_converter c, dm_fca c, dm_enable_rbdc c, dm_enable_vbdc c)"

lemma group_capacity_core: "core c' = core c \<Longrightarrow> group_capacity c' = group_capacity c"
  by (simp add: core_def group_capacity_def fun_eq_iff)

definition refilled :: "dama_ctrl \<Rightarrow> dama_group \<Rightarrow> dama_group \<Rightarrow> bool" where
  "refilled c g g' \<longleftrightarrow> (\<exists>pkt. group_capacity c g = Inr pkt \<and> g' = g\<lparr>dg_remaining := ucast pkt\<rparr>)"

lemma groups_loop_Inr:
  assumes "groups_loop f (g # gs) s = Inr (s', gs')"
  obtains s1 g1 gs1 where "f g s = Inr (s1, g1)" "groups_loop f gs s1 = Inr (s', gs1)" "gs' = g1 # gs1"
  using assms by (auto simp: res_bind_Inr)

lemma cats_loop_Inr:
  assumes "cats_loop f ((l, cat) # cs) s = Inr (s', cs')"
  obtains s1 cat1 cs1 where "f cat s = Inr (s1, cat1)" "cats_loop f cs s1 = Inr (s', cs1)" "cs' = (l, cat1) # cs1"
  using assms by (auto simp: res_bind_Inr)

lemma reset_group_refilled:
  assumes "reset_group label g (c, s) = Inr ((c', s'), g')"
  shows "core c' = core c \<and> refilled c g g'"
  using assms by (cases s) (auto simp: reset_group_def res_bind_Inr Let_def core_def refilled_def group_capacity_def
      dg_setRemainingCapacity_def)

lemma reset_groups_refilled:
  assumes "groups_loop (reset_group label) gs (c, s) = Inr ((c', s'), gs')"
  shows "core c' = core c \<and> list_all2 (refilled c) gs gs'"
  using assms
proof (induction gs arbitrary: c s gs')
  case (Cons g gs)
  obtain x g1 gs1 where x: "reset_group label g (c, s) = Inr (x, g1)"
    "groups_loop (reset_group label) gs x = Inr ((c', s'), gs1)" and gs': "gs' = g1 # gs1"
    by (rule groups_loop_Inr [OF Cons.prems])
  obtain c1 s1 where "x = (c1, s1)" by (cases x)
  note g = x(1) [unfolded this] and r = x(2) [unfolded this]
  have one: "core c1 = core c" "refilled c g g1" using reset_group_refilled [OF g] by auto
  have "refilled c1 = refilled c" by (simp add: fun_eq_iff refilled_def group_capacity_core [OF one(1)])
  then show ?case using Cons.IH [OF r] one by (simp add: gs')
qed simp

lemma reset_category_refilled:
  assumes "reset_category cat (c, tot) = Inr ((c', tot'), cat')"
  shows "core c' = core c \<and> cat' = cat\<lparr>dc_groups := dc_groups cat'\<rparr> \<and> list_all2 (refilled c) (dc_groups cat) (dc_groups cat')"
proof -
  obtain c1 cap where "groups_loop (reset_group (dc_label cat)) (dc_groups cat) (c, tot, 0) = Inr ((c1, tot', cap), dc_groups cat')"
    "core c' = core c1" "cat' = cat\<lparr>dc_groups := dc_groups cat'\<rparr>"
    using assms by (auto simp: reset_category_def res_bind_Inr core_def)
  then show ?thesis using reset_groups_refilled by metis
qed

lemma reset_categories_refilled:
  assumes "cats_loop reset_category cs (c, tot) = Inr ((c', tot'), cs')"
  shows "core c' = core c \<and> list_all2 (both_cats (\<lambda>cat. refilled c)) cs cs'"
  using assms
proof (induction cs arbitrary: c tot cs')
  case (Cons p cs)
  obtain l cat where p: "p = (l, cat)" by fastforce
  obtain x cat1 cs1 where x: "reset_category cat (c, tot) = Inr (x, cat1)"
    "cats_loop reset_category cs x = Inr ((c', tot'), cs1)" and cs': "cs' = (l, cat1) # cs1"
    by (rule cats_loop_Inr [OF Cons.prems [unfolded p]])
  obtain c1 tot1 where "x = (c1, tot1)" by (cases x)
  note g = x(1) [unfolded this] and r = x(2) [unfolded this]
  have one: "core c1 = core c" "both_cats (\<lambda>cat. refilled c) p (l, cat1)"
    using reset_category_refilled [OF g] by (auto simp: both_cats_def p)
  have "refilled c1 = refilled c" by (simp add: fun_eq_iff refilled_def group_capacity_core [OF one(1)])
  then show ?case using Cons.IH [OF r] one by (simp add: cs')
qed simp

lemma reset_capacity:
  assumes "dm_resetCarriersCapacity c = Inr c'"
  shows "both_groups (\<lambda>cat. refilled c) c c'" "dm_terminals c' = dm_terminals c" "dm_converter c' = dm_converter c"
    "dm_table c' = dm_table c"
proof -
  obtain c1 tot cats where r: "cats_loop reset_category (dm_categories c) (c, 0) = Inr ((c1, tot), cats)"
    and c': "c' = c1\<lparr>dm_categories := cats, dm_remaining := uint tot\<rparr>"
    using assms by (auto simp: dm_resetCarriersCapacity_def res_bind_Inr)
  note k = reset_categories_refilled [OF r]
  then show "both_groups (\<lambda>cat. refilled c) c c'" "dm_terminals c' = dm_terminals c" "dm_converter c' = dm_converter c"
    "dm_table c' = dm_table c"
    by (auto simp: c' both_groups_def core_def)
qed

lemma refilled_small: "refilled c g g' \<Longrightarrow> small g'"
  using unat_u16_less by (auto simp: refilled_def small_def unat_ucast_16_32)

lemma reset_capacity_wf:
  assumes "dm_resetCarriersCapacity c = Inr c'" "dm_wf c"
  shows "dm_wf c'" "each_group (\<lambda>cat g. small g) c'"
proof -
  note b = reset_capacity(1) [OF assms(1)]
  have "distinct (map dg_carriers_id (dc_groups cat')) \<and> (\<forall>g \<in> set (dc_groups cat'). small g)"
    if lc: "(l, cat') \<in> set (dm_categories c')" for l cat'
  proof -
    obtain cat where cat: "(l, cat) \<in> set (dm_categories c)" "cat' = cat\<lparr>dc_groups := dc_groups cat'\<rparr>"
      "list_all2 (refilled c) (dc_groups cat) (dc_groups cat')"
      by (rule both_groups_cat [OF b lc])
    have "map dg_carriers_id (dc_groups cat') = map dg_carriers_id (dc_groups cat)"
      using cat(3) by (auto simp: list_all2_conv_all_nth refilled_def intro!: nth_equalityI)
    moreover have "\<forall>g \<in> set (dc_groups cat'). small g"
      using cat(3) refilled_small [of c] by (auto simp: list_all2_conv_all_nth in_set_conv_nth) blast
    ultimately show ?thesis using cat(1) assms(2) by (auto simp: dm_wf_def)
  qed
  then show "dm_wf c'" "each_group (\<lambda>cat g. small g) c'"
    using assms(2) both_groups_listed [OF b] reset_capacity(2) [OF assms(1)]
    by (auto simp: dm_wf_def each_group_def registered_def)
qed

section \<open>MODCODs and allocations\<close>

lemma updateWaveForms_same [simp]:
  "dm_categories (dm_updateWaveForms c) = dm_categories c" "dm_converter (dm_updateWaveForms c) = dm_converter c"
  by (simp_all add: dm_updateWaveForms_def)

lemma updateWaveForms_wf: "dm_wf c \<Longrightarrow> dm_wf (dm_updateWaveForms c)"
  by (simp add: dm_wf_def listed_def registered_def) (simp add: dm_updateWaveForms_def om_find_map om_wf_map)

lemma reset_term_zero:
  assumes "reset_term uc t = Inr (b, uc1, t1)" "uc_kind uc = FixedBitLength"
  shows "same_packets uc uc1" "alloc_of K t1 = 0"
  using assms by (cases K; auto simp: reset_term_def Let_def res_bind_Inr dt_setRequiredRbdc_def dt_setRbdcCredit_def
      dt_decrementTimer_def dt_setFcaAllocation_def dt_setVbdcAllocation_def dt_setRbdcAllocation_def
      dt_setCraAllocation_def split: if_splits option.splits)+

lemma reset_terms_zero:
  assumes "reset_terms ts uc = Inr (b, uc1, ts1)" "uc_kind uc = FixedBitLength"
  shows "om_keys ts1 = om_keys ts \<and> same_packets uc uc1 \<and> (\<forall>(i, t) \<in> set ts1. \<forall>K. alloc_of K t = 0)"
  using assms
proof (induction ts arbitrary: uc b ts1)
  case (Cons p ts)
  obtain i t where p: "p = (i, t)" by fastforce
  obtain b1 uc2 t1 b2 ts2 where t: "reset_term uc t = Inr (b1, uc2, t1)" "reset_terms ts uc2 = Inr (b2, uc1, ts2)"
    and ts1: "ts1 = (i, t1) # ts2"
    using Cons.prems(1) by (fastforce simp: p res_bind_Inr)
  note one = reset_term_zero [OF t(1) Cons.prems(2)]
  then have "uc_kind uc2 = FixedBitLength" by (simp add: same_packets_def)
  then show ?case using Cons.IH [OF t(2)] one same_packets_trans by (auto simp: p ts1)
qed simp

lemma reset_allocations:
  assumes "dm_resetTerminalsAllocations c = Inr (b, c')" "dm_wf c" "bit_ok (dm_converter c)"
  shows "dm_wf c'" "bit_ok (dm_converter c')" "zero K c'" "dm_categories c' = dm_categories c"
    "same_packets (dm_converter c) (dm_converter c')"
proof -
  obtain uc ts where r: "reset_terms (dm_terminals c) (dm_converter c) = Inr (b, uc, ts)"
    and c': "c' = c\<lparr>dm_terminals := ts, dm_converter := uc\<rparr>"
    using assms(1) by (auto simp: dm_resetTerminalsAllocations_def res_bind_Inr)
  have k: "om_keys ts = om_keys (dm_terminals c)" "same_packets (dm_converter c) uc" "\<forall>(i, t) \<in> set ts. \<forall>K. alloc_of K t = 0"
    using reset_terms_zero [OF r] assms(3) by (auto simp: bit_ok_def)
  have dom: "om_find ts i = None \<longleftrightarrow> om_find (dm_terminals c) i = None" for i
    using k(1) by (simp add: map_of_eq_None_iff flip: set_map)
  show "dm_wf c'" using assms(2) k(1) dom by (simp add: dm_wf_def om_wf_def registered_def listed_def c')
  show "bit_ok (dm_converter c')" using same_packets_conv(5) [OF k(2)] assms(3) by (simp add: c')
  show "zero K c'" using k(3) by (fastforce simp: zero_def c' dest: om_find_in)
  show "dm_categories c' = dm_categories c" "same_packets (dm_converter c) (dm_converter c')"
    using k(2) by (simp_all add: c')
qed

end
