(* ===== verification/DamaDemo.thy ===== *)
theory DamaDemo
  imports DamaBooks
begin

text \<open>
  Concrete controllers for the witnesses: one category, one group of carriers, terminals as their logons
  and their RBDC requests leave them.
\<close>

lemma dm_wf_code [code]: "dm_wf c \<longleftrightarrow> om_wf (dm_terminals c) \<and> distinct (listed c)
     \<and> list_all (\<lambda>i. om_find (dm_terminals c) i \<noteq> None) (listed c)
     \<and> (\<forall>(l, cat) \<in> set (dm_categories c). distinct (map dg_carriers_id (dc_groups cat)))"
  by (auto simp: dm_wf_def registered_def list_all_iff)

definition demo_fmt :: fmt_def where
  "demo_fmt = \<lparr>fd_id = 1, fd_modulation = [], fd_coding = [], fd_eff = 2, fd_rate = 1 / 2, fd_spectral = 1,
     fd_esn0 = 3 / 2, fd_has_burst = False, fd_burst = 0\<rparr>"

definition demo_term :: "tal_id_t \<Rightarrow> rate_kbps_t \<Rightarrow> rate_kbps_t \<Rightarrow> dama_term" where
  "demo_term i cra req = (new_dama_term 0 i cra 65535 16 100)\<lparr>dt_category := ''S'', dt_timer := 16,
     dt_rbdc_req := req, dt_req_fmt := Some demo_fmt\<rparr>"

definition demo_ctrl :: "time_ms_t \<Rightarrow> dama_term list \<Rightarrow> vol_sym_t \<Rightarrow> dama_ctrl" where
  "demo_ctrl ms ts vol = \<lparr>dm_terminals = map (\<lambda>t. (dt_id t, t)) ts, dm_superframe = 0, dm_frame_ms = ms,
     dm_rbdc_timeout = 16, dm_fca = 0, dm_enable_rbdc = True, dm_enable_vbdc = False,
     dm_categories = [(''S'', \<lparr>dc_label = ''S'',
        dc_groups = [(new_dama_group 1 [(1, 3 / 2)] 1 1000000 0)\<lparr>dg_number := 1, dg_capacity_sym := vol\<rparr>],
        dc_terminals = map dt_id ts\<rparr>)],
     dm_affectation = [], dm_default = None, dm_table = [(1, demo_fmt)], dm_simulated = False,
     dm_converter = new_bit_converter ms 1 424, dm_probes = map dt_id ts, dm_st_num = 2, dm_rbdc_req_num = 0,
     dm_vbdc_req_num = 0, dm_cra_alloc_kbps = 0, dm_rbdc_max_kbps = 0, dm_remaining = 0,
     dm_cat_remaining = (\<lambda>_. 0), dm_carrier_remaining = (\<lambda>_ _. 0)\<rparr>"

lemma demo_bit_ok: "0 < ms \<Longrightarrow> bit_ok (dm_converter (demo_ctrl ms ts vol))"
  by (simp add: demo_ctrl_def new_bit_converter_def bit_ok_def uc_ok_def)

definition the_res :: "'a \<Rightarrow> 'a res \<Rightarrow> 'a" where
  "the_res d r = (case r of Inl _ \<Rightarrow> d | Inr x \<Rightarrow> x)"

definition ran :: "'a res \<Rightarrow> bool" where
  "ran r \<longleftrightarrow> (case r of Inl _ \<Rightarrow> False | Inr _ \<Rightarrow> True)"

lemma the_res_Inr: "ran r \<Longrightarrow> r = Inr (the_res d r)"
  by (cases r) (auto simp: the_res_def ran_def)

lemma the_res_pair: "ran r \<Longrightarrow> \<exists>b. r = Inr (b, snd (the_res d r))"
  using the_res_Inr [of r d] by (metis prod.collapse)

end
