(* ===== verification/DamaCorrect.thy ===== *)
theory DamaCorrect
  imports DamaReset DamaDemo
begin

text \<open>
  What a superframe of the DAMA controller promises, and where it does not keep it.
\<close>

section \<open>A superframe never gives more than the carriers have\<close>

lemma books_probes [simp]:
  "books S c (c'\<lparr>dm_cra_alloc_kbps := x\<rparr>) = books S c c'" "books S c (c'\<lparr>dm_rbdc_req_num := x\<rparr>) = books S c c'"
  "books S c (c'\<lparr>dm_vbdc_req_num := x\<rparr>) = books S c c'"
  by (simp_all add: books_def terms_kept_def paid_def both_groups_def)

lemma allocations_books:
  assumes r: "dm_resetTerminalsAllocations c = Inr (b0, c1)" and c: "dm_wf c" "bit_ok (dm_converter c)"
    "each_group (\<lambda>cat g. small g) c" "each_group (\<lambda>cat g. rbdc_need cat g c1) c1"
    and run: "dm_computeTerminalsAllocations c = Inr (b, c')"
  shows "books UNIV c1 c'"
proof -
  have wf: "dm_wf c1" "bit_ok (dm_converter c1)" and z: "zero K c1" for K
    using reset_allocations [OF r c(1,2)] by auto
  have "each_group (\<lambda>cat g. small g) c1" using reset_allocations(4) [OF r c(1,2)] c(3) by (simp add: each_group_def)
  then have b1: "books {} c1 c1" using books_refl wf by blast
  have wide: "books UNIV c1 d" if "books S c1 d" for S d
    using books_widen [OF that subset_UNIV finite_capacity _ wf(2)] z by blast
  show ?thesis
  proof (cases b0)
    case False
    then show ?thesis using run r wide [OF b1] by (simp add: dm_computeTerminalsAllocations_def)
  next
    case True
    obtain ok2 c2 where c2: "dm_computeTerminalsCraAllocation c1 = Inr (ok2, c2)"
      using run r True by (auto simp: dm_computeTerminalsAllocations_def res_bind_Inr)
    then have b2: "books {CRA} c1 c2"
      using cra_share.stage [OF _ b1 wf z] each_group_True by (auto simp: dm_computeTerminalsCraAllocation_def res_bind_Inr)
    show ?thesis
    proof (cases ok2)
      case False
      then show ?thesis using run r True c2 wide [OF b2] by (simp add: dm_computeTerminalsAllocations_def)
    next
      case ok2: True
      obtain c3 c4 where c3: "c3 = c2 \<or> dm_computeTerminalsRbdcAllocation c2 = Inr c3"
        and c4: "c4 = c3 \<or> dm_computeTerminalsVbdcAllocation c3 = Inr c4"
        and c5: "dm_computeTerminalsFcaAllocation c4 = Inr c'"
        using run r True c2 ok2 by (auto simp: dm_computeTerminalsAllocations_def res_bind_Inr split: if_splits)
      have b3: "books {CRA} c1 c3 \<or> books {RBDC, CRA} c1 c3"
        using c3 b2 rbdc_share.stage [OF _ b2 wf z _ books_need [OF b2 c(4)]]
        by (auto simp: dm_computeTerminalsRbdcAllocation_def res_bind_Inr)
      then obtain S where S: "books S c1 c3" "VBDC \<notin> S" "FCA \<notin> S" by auto
      have "books S c1 c4 \<or> books (insert VBDC S) c1 c4"
        using c4 S vbdc_share.stage [OF _ S(1) wf z S(2) each_group_True]
        by (auto simp: dm_computeTerminalsVbdcAllocation_def res_bind_Inr)
      then obtain T where T: "books T c1 c4" "FCA \<notin> T" using S by auto
      have "books T c1 c' \<or> books (insert FCA T) c1 c'"
        using c5 T fca_share.stage [OF _ T(1) wf z T(2) each_group_True]
        by (auto simp: dm_computeTerminalsFcaAllocation_def res_bind_Inr split: if_splits)
      then show ?thesis using wide by blast
    qed
  qed
qed

lemma sum_capacity: "(\<Sum>K\<in>UNIV. f K) = f CRA + f RBDC + f VBDC + (f FCA :: nat)"
  by (simp add: UNIV_capacity)

text \<open>C2: Within a superframe of the DAMA controller (\<open>runOnSuperFrameChange\<close>: the capacity of the carriers
  refilled, MODCODs chosen, then CRA, RBDC, VBDC and FCA allocated) no group of carriers is over-committed. For
  every group of every category there are numbers of packets, one per terminal of the group and kind of
  capacity, whose sum together with what remains is the capacity of the group in packets, and each
  allocation stored for a terminal is the conversion of its packets into kb/s or kb. The one condition on
  the traffic is that the RBDC requests of a group sum to less than 2 ^ 16 packets (\<open>rbdc_need\<close>), the
  width of the code's total; for the 2 ^ 53 precision of the doubles that carry the fair share it proves
  that no terminal's part is ever rounded up.\<close>

theorem dama_no_overcommit:
  assumes "dm_wf c" "bit_ok (dm_converter c)" "dm_runOnSuperFrameChange sf c = Inr (b, c')"
    and "dm_resetCarriersCapacity (c\<lparr>dm_superframe := sf\<rparr>) = Inr c1"
    and "dm_resetTerminalsAllocations (dm_updateWaveForms c1) = Inr (b2, c2)"
    and "each_group (\<lambda>cat g. rbdc_need cat g c2) c2"
    and "(l, cat) \<in> set (dm_categories c)" "k < length (dc_groups cat)"
  shows "\<exists>cat' gr pkt. (l, cat') \<in> set (dm_categories c') \<and> group_capacity c (dc_groups cat ! k) = Inr pkt
    \<and> (\<Sum>i\<leftarrow>group_terms cat (dc_groups cat ! k) c2. gr CRA i + gr RBDC i + gr VBDC i + gr FCA i)
        + unat (dg_remaining (dc_groups cat' ! k)) = unat pkt
    \<and> (\<forall>i \<in> set (group_terms cat (dc_groups cat ! k) c2). \<exists>t. om_find (dm_terminals c') i = Some t
        \<and> (\<forall>K. given K (dm_converter c) (gr K i) (alloc_of K t)))"
proof -
  let ?c = "c\<lparr>dm_superframe := sf\<rparr>" and ?w = "dm_updateWaveForms c1"
  have c: "dm_wf ?c" using assms(1) by (simp add: dm_wf_def listed_def registered_def)
  note rc = reset_capacity [OF assms(4)] and wf1 = reset_capacity_wf [OF assms(4) c]
  have w: "dm_wf ?w" "bit_ok (dm_converter ?w)" "each_group (\<lambda>cat g. small g) ?w"
    using updateWaveForms_wf [OF wf1(1)] assms(2) rc(3) wf1(2) by (simp_all add: each_group_def)
  obtain b3 where run: "dm_computeTerminalsAllocations ?w = Inr (b3, c')"
    using assms(3,4) by (auto simp: dm_runOnSuperFrameChange_def res_bind_Inr)
  have books: "books UNIV c2 c'" by (rule allocations_books [OF assms(5) w assms(6) run])
  then have paid: "both_groups (\<lambda>cat g g'. paid UNIV (group_terms cat g c2) c2 c' g g') c2 c'" by (simp add: books_def)
  note r2 = reset_allocations [OF assms(5) w(1,2)]
  have lc: "(l, cat) \<in> set (dm_categories ?c)" using assms(7) by simp
  obtain cat1 where cat1: "(l, cat1) \<in> set (dm_categories c1)" "cat1 = cat\<lparr>dc_groups := dc_groups cat1\<rparr>"
    "list_all2 (refilled ?c) (dc_groups cat) (dc_groups cat1)"
    by (rule both_groups_cat_of [OF rc(1) lc])
  let ?g = "dc_groups cat ! k" and ?g1 = "dc_groups cat1 ! k"
  obtain pkt where pkt: "group_capacity c ?g = Inr pkt" "?g1 = ?g\<lparr>dg_remaining := ucast pkt\<rparr>"
    using cat1(3) assms(8) by (auto simp: list_all2_conv_all_nth refilled_def group_capacity_def)
  have lc2: "(l, cat1) \<in> set (dm_categories c2)" using cat1(1) r2(4) by simp
  obtain cat' where cat': "(l, cat') \<in> set (dm_categories c')"
    "list_all2 (\<lambda>g g'. paid UNIV (group_terms cat1 g c2) c2 c' g g') (dc_groups cat1) (dc_groups cat')"
    by (rule both_groups_cat_of [OF paid lc2])
  have "k < length (dc_groups cat1)" using cat1(3) assms(8) by (simp add: list_all2_lengthD)
  then have "paid UNIV (group_terms cat1 ?g1 c2) c2 c' ?g1 (dc_groups cat' ! k)"
    using cat'(2) by (simp add: list_all2_conv_all_nth)
  moreover have "group_terms cat1 ?g1 c2 = group_terms cat ?g c2"
    using group_terms_regroup [OF pkt(2), where cat = cat and gs = "dc_groups cat1" and c = c2] cat1(2) by simp
  moreover have "unat (dg_remaining ?g1) = unat pkt" unfolding pkt(2) by (simp add: unat_ucast_16_32)
  ultimately obtain gr where gr: "(\<Sum>i\<leftarrow>group_terms cat ?g c2. \<Sum>K\<in>UNIV. gr K i)
      + unat (dg_remaining (dc_groups cat' ! k)) = unat pkt"
    "\<forall>i \<in> set (group_terms cat ?g c2). \<exists>t. om_find (dm_terminals c') i = Some t
      \<and> (\<forall>K. given K (dm_converter c2) (gr K i) (alloc_of K t))"
    unfolding paid_def by auto
  have "given K (dm_converter c2) = given K (dm_converter c)" for K
    using same_packets_conv(6) [OF r2(5)] rc(3) by simp
  then show ?thesis using cat'(1) pkt(1) gr unfolding sum_capacity by auto
qed


text \<open>One carriers group of 47 packets per frame; the RBDC requests are 300 kb/s, of which 64 are CRA, and
  400 kb/s.\<close>

definition busy_ctrl :: dama_ctrl where
  "busy_ctrl = demo_ctrl 53 [demo_term 1 64 236, demo_term 2 0 400] 20000"

definition busy_refilled :: dama_ctrl where
  "busy_refilled = the_res busy_ctrl (dm_resetCarriersCapacity (busy_ctrl\<lparr>dm_superframe := 1\<rparr>))"

definition busy_reset :: dama_ctrl where
  "busy_reset = snd (the_res (False, busy_ctrl) (dm_resetTerminalsAllocations (dm_updateWaveForms busy_refilled)))"

definition busy_after :: dama_ctrl where
  "busy_after = snd (the_res (True, busy_ctrl) (dm_runOnSuperFrameChange 1 busy_ctrl))"

lemma busy_wf: "dm_wf busy_ctrl" "bit_ok (dm_converter busy_ctrl)"
  by code_simp (simp add: busy_ctrl_def demo_bit_ok)

lemma busy_runs:
  "ran (dm_resetCarriersCapacity (busy_ctrl\<lparr>dm_superframe := 1\<rparr>))"
  "ran (dm_resetTerminalsAllocations (dm_updateWaveForms busy_refilled))" "ran (dm_runOnSuperFrameChange 1 busy_ctrl)"
  by code_simp+

lemma busy_packets: "map (\<lambda>(l, cat). map (\<lambda>g. map (rbdc_packets busy_reset) (group_terms cat g busy_reset)) (dc_groups cat))
    (dm_categories busy_reset) = [[[30, 50]]]"
  by code_simp

lemma each_group_list:
  "each_group P c \<longleftrightarrow> list_all (\<lambda>(l, cat). list_all (P cat) (dc_groups cat)) (dm_categories c)"
  by (simp add: each_group_def list_all_iff)

lemma busy_need: "each_group (\<lambda>cat g. rbdc_need cat g busy_reset) busy_reset"
proof -
  have "rbdc_need cat g busy_reset" if "map (rbdc_packets busy_reset) (group_terms cat g busy_reset) = [30, 50]" for cat g
  proof -
    have "(\<Sum>i\<leftarrow>group_terms cat g busy_reset. unat (rbdc_packets busy_reset i))
      = sum_list (map unat (map (rbdc_packets busy_reset) (group_terms cat g busy_reset)))" by (simp add: comp_def)
    also have "\<dots> < 65536" unfolding that by simp
    finally show ?thesis by (simp add: rbdc_need_def group_terms_def)
  qed
  then show ?thesis using busy_packets by (auto simp: each_group_def map_eq_Cons_conv)
qed

lemma dama_no_overcommit_witness:
  "\<exists>l cat cat' gr pkt. (l, cat) \<in> set (dm_categories busy_ctrl) \<and> (l, cat') \<in> set (dm_categories busy_after)
    \<and> group_capacity busy_ctrl (dc_groups cat ! 0) = Inr pkt
    \<and> (\<Sum>i\<leftarrow>group_terms cat (dc_groups cat ! 0) busy_reset. gr CRA i + gr RBDC i + gr VBDC i + gr FCA i)
        + unat (dg_remaining (dc_groups cat' ! 0)) = unat pkt
    \<and> map dt_rbdc_alloc (map snd (dm_terminals busy_after)) = [120, 200]"
proof -
  define cat where "cat = snd (hd (dm_categories busy_ctrl))"
  have c: "(''S'', cat) \<in> set (dm_categories busy_ctrl)" "0 < length (dc_groups cat)"
    by (simp_all add: cat_def busy_ctrl_def demo_ctrl_def)
  obtain b where run: "dm_runOnSuperFrameChange 1 busy_ctrl = Inr (b, busy_after)"
    using the_res_pair [OF busy_runs(3)] unfolding busy_after_def by blast
  obtain b2 where reset: "dm_resetTerminalsAllocations (dm_updateWaveForms busy_refilled) = Inr (b2, busy_reset)"
    using the_res_pair [OF busy_runs(2)] unfolding busy_reset_def by blast
  have refill: "dm_resetCarriersCapacity (busy_ctrl\<lparr>dm_superframe := 1\<rparr>) = Inr busy_refilled"
    using the_res_Inr [OF busy_runs(1)] by (simp add: busy_refilled_def)
  have served: "map dt_rbdc_alloc (map snd (dm_terminals busy_after)) = [120, 200]" by code_simp
  show ?thesis
    using dama_no_overcommit [OF busy_wf run refill reset busy_need c]
    by (elim exE conjE) (intro exI conjI, (rule c(1) served | assumption)+)
qed

end
