(* ===== verification/DamaRbdc.thy ===== *)
theory DamaRbdc
  imports DamaDemo
begin

text \<open>
  How fair the RBDC is: who gets what in a group of carriers, with and without congestion, and when the
  16-bit total of the requests wraps.
\<close>

section \<open>The parts of the first step\<close>

lemma f64_u16: "f64 (rat_of_word (p :: u16)) = rat_of_word p"
proof -
  have "int (unat p) < 65536" "0 \<le> int (unat p)" using unat_u16_less [of p] by linarith+
  then have "f64 (of_int (int (unat p))) = of_int (int (unat p))"
    unfolding f64_def by (intro rnd_int) (assumption, rule order_less_trans, assumption, simp)
  then show ?thesis by (simp only: rat_of_word_def of_int_of_nat_eq)
qed

lemma fair_share_one: "tot \<le> remaining \<Longrightarrow> 0 < remaining \<Longrightarrow> fair_share tot remaining = 1"
proof -
  assume le: "tot \<le> remaining" and r: "0 < remaining"
  have "rat_of_word tot \<le> rat_of_word remaining"
    using le by (simp only: rat_of_word_def of_nat_le_iff word_le_nat_alt)
  then have "rat_of_word tot / rat_of_word remaining \<le> 1" using rat_of_word_pos [of remaining] r by simp
  then have "f64 (rat_of_word tot / rat_of_word remaining) \<le> 1" using rnd_le [of _ 1 53] by (simp add: f64_def)
  then show ?thesis by (simp add: fair_share_def Let_def)
qed

text \<open>The lower bound: a part is less than one packet short of its proportion.\<close>

lemma fair_packets_ge:
  assumes "0 < remaining" "remaining < tot" "p \<le> tot"
  shows "int (unat p * unat remaining) \<le> (fair_packets (fair_share tot remaining) p + 1) * int (unat tot)"
proof -
  define T R P where "T = rat_of_word tot" and "R = rat_of_word remaining" and "P = rat_of_word p"
  define fs where "fs = fair_share tot remaining"
  define k where "k = fair_packets fs p"
  define e :: rat where "e = 1 / 2 ^ 53"
  have e: "0 < e" "e < 1" by (simp_all add: e_def)
  have pos: "0 < R" "0 < T" "0 \<le> P" "0 < T / R" using assms by (simp_all add: T_def R_def P_def rat_of_word_pos)
  have bound: "T \<le> 65535" "R \<le> 65535" "P \<le> 65535"
    unfolding T_def R_def P_def rat_of_word_def by (rule of_nat_u16_le, rule unat_u16_less)+
  have "R \<le> T" using assms(2) by (simp add: T_def R_def rat_of_word_def word_less_nat_alt del: of_nat_unat)
  then have TR: "1 \<le> T / R" using pos by simp
  have "fs \<le> T / R * (1 + e)"
  proof (cases "f64 (T / R) < 1")
    case True
    have "1 * 1 \<le> T / R * (1 + e)" using TR e by (intro mult_mono) auto
    then show ?thesis using True by (simp add: fs_def fair_share_def T_def R_def)
  next
    case False
    then have "fs = f64 (T / R)" by (simp add: fs_def fair_share_def T_def R_def)
    then show ?thesis using f64_err(1) [of "T / R"] pos by (simp add: e_def algebra_simps)
  qed
  moreover have fs1: "1 \<le> fs" by (simp add: fs_def fair_share_def Let_def)
  ultimately have "P / (T / R * (1 + e)) \<le> P / fs" using pos e by (intro divide_left_mono) auto
  then have "P * R / (T * (1 + e)) \<le> P / fs" using pos by (simp add: field_simps)
  then have "P * R / (T * (1 + e)) * (1 - e) \<le> P / fs * (1 - e)" using e by (intro mult_right_mono) auto
  also have "\<dots> \<le> f64 (P / fs)" using f64_err(2) [of "P / fs"] pos fs1 by (simp add: e_def algebra_simps)
  also have "\<dots> < of_int k + 1" by (simp add: k_def fair_packets_def P_def) linarith
  finally have "P * R * (1 - e) / (T * (1 + e)) < of_int k + 1" by (simp only: times_divide_eq_left)
  moreover have "0 < T * (1 + e)" using pos e by simp
  ultimately have "P * R * (1 - e) < (of_int k + 1) * (T * (1 + e))" by (simp only: pos_divide_less_eq)
  then have lt: "P * R * (1 - e) < (of_int k + 1) * T * (1 + e)" by (simp add: mult.assoc)
  have PR: "P * R \<le> 65535 * 65535" "0 \<le> P * R" using bound pos mult_mono [of P 65535 R 65535] by auto
  have "\<not> (of_int k + 1) * T \<le> P * R - 1"
  proof
    assume "(of_int k + 1) * T \<le> P * R - 1"
    then have "(of_int k + 1) * T * (1 + e) \<le> (P * R - 1) * (1 + e)" using e by (intro mult_right_mono) auto
    then have "1 + e < 2 * e * (P * R)" using lt by (simp add: algebra_simps)
    also have "\<dots> \<le> 2 * e * (65535 * 65535)" using PR e by (intro mult_left_mono) auto
    finally show False by (simp add: e_def)
  qed
  then have "(of_int (int (unat p * unat remaining) - 1) :: rat) < of_int ((k + 1) * int (unat tot))"
    by (simp only: T_def P_def R_def rat_of_word_def of_int_mult of_int_add of_int_diff of_nat_mult of_int_of_nat_eq
        of_int_1 not_le)
  then have "int (unat p * unat remaining) - 1 < (k + 1) * int (unat tot)" by (simp only: of_int_less_iff)
  then show ?thesis unfolding k_def fs_def by linarith
qed

text \<open>The first step gives each terminal its part, whatever remains.\<close>

lemma rbdc_step1_parts:
  assumes "res_fold (rbdc_step1 label cid fs) l a = Inr a'" "distinct l" "om_wf (dm_terminals (al_ctrl a))"
    "bit_ok (dm_converter (al_ctrl a))"
  shows "touched RBDC (set l) (al_ctrl a) (al_ctrl a') \<and> dm_converter (al_ctrl a') = dm_converter (al_ctrl a)
    \<and> (\<forall>i \<in> set l. \<exists>n t. floor_uint (f64 (rat_of_word (rbdc_packets (al_ctrl a) i) / fs)) = Inr (n :: u16)
         \<and> om_find (dm_terminals (al_ctrl a')) i = Some t
         \<and> uc_pktpfToKbps (dm_converter (al_ctrl a)) n = Inr (dt_rbdc_alloc t))"
  using assms
proof (induction l arbitrary: a)
  case Nil
  then show ?case using touched_refl by simp
next
  case (Cons i l)
  obtain a1 where a1: "rbdc_step1 label cid fs i a = Inr a1" "res_fold (rbdc_step1 label cid fs) l a1 = Inr a'"
    using Cons.prems(1) by (auto simp: res_bind_Inr)
  obtain n t where n: "floor_uint (f64 (rat_of_word (rbdc_packets (al_ctrl a) i) / fs)) = Inr (n :: u16)"
    and t1: "touched RBDC {i} (al_ctrl a) (al_ctrl a1)" and t: "om_find (dm_terminals (al_ctrl a1)) i = Some t"
      "uc_pktpfToKbps (dm_converter (al_ctrl a)) n = Inr (dt_rbdc_alloc t)"
    and conv: "dm_converter (al_ctrl a1) = dm_converter (al_ctrl a)"
    using rbdc_step1_one [OF a1(1) Cons.prems(3,4)] by metis
  have i: "i \<notin> set l" "distinct l" using Cons.prems(2) by auto
  note ih = Cons.IH [OF a1(2) i(2) touched_wf [OF t1] touched_bit_ok [OF t1 Cons.prems(4)]]
  have same: "rbdc_packets (al_ctrl a1) j = rbdc_packets (al_ctrl a) j" if "j \<in> set l" for j
    using that i touched_outside [OF t1, of j] by (intro rbdc_packets_cong) (auto simp: conv)
  have "touched RBDC ({i} \<union> set l) (al_ctrl a) (al_ctrl a')" using touched_trans [OF t1] ih by blast
  moreover have "om_find (dm_terminals (al_ctrl a')) i = Some t"
    using t(1) ih touched_outside [of RBDC "set l" "al_ctrl a1" "al_ctrl a'" i] i by auto
  ultimately show ?case using ih n t(2) by (auto simp: conv same)
qed


section \<open>The RBDC of a group\<close>

lemma int_parts:
  "floor_uint (f64 (rat_of_word p / fs)) = Inr (n :: u16) \<Longrightarrow> int (unat n) = fair_packets fs p"
  by (simp only: to_uint_int fair_packets_def)

text \<open>A run of \<open>rbdc_group\<close> that serves, whatever the total of the requests.\<close>

lemma rbdc_group_run:
  assumes run: "rbdc_group cat g c = Inr (a, g')" and d: "distinct (dc_terminals cat)"
    and fresh: "fresh_for RBDC (group_terms cat g c) c"
    and pos: "0 < (ucast (dg_remaining g) :: u16)" "0 < (\<Sum>i\<leftarrow>group_terms cat g c. rbdc_packets c i)"
    and fs: "fs = fair_share (\<Sum>i\<leftarrow>group_terms cat g c. rbdc_packets c i) (ucast (dg_remaining g))"
    and i: "i \<in> set (group_terms cat g c)"
  shows "\<exists>n w t e. floor_uint (f64 (rat_of_word (rbdc_packets c i) / fs)) = Inr (n :: u16)
    \<and> uc_pktpfToKbps (dm_converter c) n = Inr w \<and> om_find (dm_terminals (al_ctrl a)) i = Some t
    \<and> extra (dm_converter c) e w (dt_rbdc_alloc t) \<and> (fs = 1 \<longrightarrow> e = 0)"
proof -
  let ?l = "group_terms cat g c"
  define a0 where "a0 = new_alloc c g"
  have a0: "al_ctrl a0 = c" "al_alloc a0 = 0" "al_rem a0 = ucast (dg_remaining g)" by (simp_all add: a0_def new_alloc_def)
  have wf: "om_wf (dm_terminals c)" "bit_ok (dm_converter c)" using fresh by (auto simp: fresh_for_def)
  have l: "distinct ?l" using terminals_distinct [OF d] by (simp add: group_terms_def)
  have nz: "al_rem a0 \<noteq> 0" using pos(1) by (auto simp: a0(3))
  obtain a1 where a1: "res_fold rbdc_request_term ?l a0 = Inr a1"
    using run nz by (auto simp: rbdc_group_def Let_def res_bind_Inr simp flip: a0_def group_terms_def)
  note q = rbdc_requests [OF a1, unfolded a0, OF wf]
  then have tot: "al_alloc a1 = (\<Sum>i\<leftarrow>?l. rbdc_packets c i)" and rem: "al_rem a1 = ucast (dg_remaining g)" by auto
  have nz1: "al_alloc a1 \<noteq> 0" using pos(2) by (auto simp: tot)
  have fs1: "fair_share (al_alloc a1) (al_rem a1) = fs" by (simp add: fs tot rem)
  obtain a2 where s1: "res_fold (rbdc_step1 (dc_label cat) (dg_carriers_id g) fs) ?l (a1\<lparr>al_alloc := 0\<rparr>) = Inr a2"
    and s2: "(if 1 < fs then rbdc_step2 (dc_label cat) (dg_carriers_id g)
        (sortByRemainingCredit (the_term (al_ctrl a2)) ?l) a2 else Inr a2) = Inr a"
    using run nz nz1 a1 by (auto simp: rbdc_group_def Let_def res_bind_Inr fs1 simp flip: a0_def group_terms_def cong: if_cong)
  have same: "rbdc_packets (al_ctrl a1) = rbdc_packets c" using q by (intro ext rbdc_packets_cong) auto
  note p = rbdc_step1_parts [OF s1 l, simplified, unfolded same]
  have t2: "touched RBDC (set ?l) (al_ctrl a1) (al_ctrl a2)" and conv: "dm_converter (al_ctrl a2) = dm_converter c"
    and parts: "\<exists>n t. floor_uint (f64 (rat_of_word (rbdc_packets c i) / fs)) = Inr (n :: u16)
         \<and> om_find (dm_terminals (al_ctrl a2)) i = Some t \<and> uc_pktpfToKbps (dm_converter c) n = Inr (dt_rbdc_alloc t)"
    using p q i wf by auto
  obtain n t where n: "floor_uint (f64 (rat_of_word (rbdc_packets c i) / fs)) = Inr (n :: u16)"
    "om_find (dm_terminals (al_ctrl a2)) i = Some t" "uc_pktpfToKbps (dm_converter c) n = Inr (dt_rbdc_alloc t)"
    using parts by blast
  show ?thesis
  proof (cases "1 < fs")
    case False
    then have "al_ctrl a = al_ctrl a2" using s2 by simp
    then show ?thesis using n by (intro exI [of _ n] exI [of _ "dt_rbdc_alloc t"] exI [of _ t] exI [of _ 0])
        (simp add: extra_def)
  next
    case True
    let ?o = "sortByRemainingCredit (the_term (al_ctrl a2)) ?l"
    have o: "distinct ?o" "set ?o = set ?l" using l by (simp_all add: sortByRemainingCredit_def)
    have wf2: "om_wf (dm_terminals (al_ctrl a2))" "bit_ok (dm_converter (al_ctrl a2))"
      using touched_wf [OF t2] wf conv by auto
    have "topped ?o (al_ctrl a2) (al_ctrl a) (unat (al_rem a2)) (unat (al_rem a))"
      using rbdc_step2_tops [OF _ o(1) wf2] s2 True by simp
    then obtain e t' where "om_find (dm_terminals (al_ctrl a)) i = Some t'"
      "extra (dm_converter c) e (dt_rbdc_alloc t) (dt_rbdc_alloc t')"
      using n(2) i o(2) conv unfolding topped_def by metis
    then show ?thesis using n True by (intro exI [of _ n] exI [of _ "dt_rbdc_alloc t"] exI [of _ t'] exI [of _ e]) simp
  qed
qed

text \<open>A group with nothing to give, or asked for nothing, leaves the terminals as they are.\<close>

lemma rbdc_group_idle:
  assumes run: "rbdc_group cat g c = Inr (a, g')" and fresh: "fresh_for RBDC (group_terms cat g c) c"
    and none: "(ucast (dg_remaining g) :: u16) = 0 \<or> (\<Sum>i\<leftarrow>group_terms cat g c. rbdc_packets c i) = 0"
    and i: "i \<in> set (group_terms cat g c)"
  shows "\<exists>t. om_find (dm_terminals (al_ctrl a)) i = Some t \<and> dt_rbdc_alloc t = 0"
proof -
  define a0 where "a0 = new_alloc c g"
  have a0: "al_ctrl a0 = c" "al_alloc a0 = 0" "al_rem a0 = ucast (dg_remaining g)" by (simp_all add: a0_def new_alloc_def)
  have wf: "om_wf (dm_terminals c)" "bit_ok (dm_converter c)" using fresh by (auto simp: fresh_for_def)
  have "dm_terminals (al_ctrl a) = dm_terminals c"
  proof (cases "al_rem a0 = 0")
    case True
    then show ?thesis using run a0 by (auto simp: rbdc_group_def Let_def res_bind_Inr simp flip: a0_def)
  next
    case False
    then obtain a1 where a1: "res_fold rbdc_request_term (group_terms cat g c) a0 = Inr a1"
      using run by (auto simp: rbdc_group_def Let_def res_bind_Inr simp flip: a0_def group_terms_def)
    note q = rbdc_requests [OF a1, unfolded a0, OF wf]
    then have "al_alloc a1 = 0" using none False a0 by auto
    then have "a = a1" using run False a1
      by (auto simp: rbdc_group_def Let_def res_bind_Inr simp flip: a0_def group_terms_def)
    then show ?thesis using q by simp
  qed
  then show ?thesis using fresh i by (auto simp: fresh_for_def)
qed


text \<open>C6: The RBDC of a carriers group is fair (\<open>computeDamaRbdc\<close> for one group, requests \<open>p\<close> in packets,
  capacity \<open>R\<close>, total \<open>T < 2 ^ 16\<close>). Without congestion, \<open>T \<le> R\<close>, every terminal gets exactly its
  request. With congestion the first step gives it \<open>n\<close> packets with \<open>n \<le> p * R / T \<le> n + 1\<close>, its
  proportional share in whole packets, through the roundings of the doubles; the second step adds
  at most one packet. The allocation stored is the conversion of these packets.\<close>

theorem dama_rbdc_fair:
  assumes "rbdc_group cat g c = Inr (a, g')" "small g" "distinct (dc_terminals cat)" "rbdc_need cat g c"
    "fresh_for RBDC (group_terms cat g c) c" "i \<in> set (group_terms cat g c)"
    and "T = (\<Sum>i\<leftarrow>group_terms cat g c. unat (rbdc_packets c i))" "R = unat (dg_remaining g)"
  shows "\<exists>n w t e. uc_pktpfToKbps (dm_converter c) n = Inr w \<and> om_find (dm_terminals (al_ctrl a)) i = Some t
    \<and> extra (dm_converter c) e w (dt_rbdc_alloc t) \<and> e \<le> 1
    \<and> (T \<le> R \<longrightarrow> n = rbdc_packets c i \<and> e = 0)
    \<and> (R < T \<longrightarrow> unat n * T \<le> unat (rbdc_packets c i) * R \<and> unat (rbdc_packets c i) * R \<le> (unat n + 1) * T)"
proof -
  define p tot rem where "p = rbdc_packets c i" and "tot = (\<Sum>i\<leftarrow>group_terms cat g c. rbdc_packets c i)"
    and "rem = (ucast (dg_remaining g) :: u16)"
  have need: "(\<Sum>i\<leftarrow>group_terms cat g c. unat (rbdc_packets c i)) < 65536"
    using assms(4) by (simp add: rbdc_need_def group_terms_def)
  have T: "unat tot = T" and le: "p \<le> tot" using unat_sum_list [OF need] assms(6,7) by (simp_all add: tot_def p_def)
  have R: "unat rem = R" using small_rem [OF assms(2), of c] assms(8) by (simp add: new_alloc_def rem_def)
  have bit: "bit_ok (dm_converter c)" using assms(5) by (simp add: fresh_for_def)
  show ?thesis
  proof (cases "rem = 0 \<or> tot = 0")
    case True
    obtain t where t: "om_find (dm_terminals (al_ctrl a)) i = Some t" "dt_rbdc_alloc t = 0"
      using rbdc_group_idle [OF assms(1,5) _ assms(6)] True by (auto simp: rem_def tot_def)
    have "unat p \<le> T" using le T by (simp add: word_le_nat_alt)
    then have "T \<le> R \<longrightarrow> p = 0" using True T R by (auto simp: word_unat_eq_iff)
    moreover have "R < T \<longrightarrow> R = 0" using True T R by auto
    ultimately show ?thesis using t bit_ok_zero [OF bit]
      by (intro exI [of _ 0] exI [of _ t]) (auto simp: extra_def simp flip: p_def)
  next
    case False
    then have pos: "0 < rem" "0 < tot" by (simp_all add: word_gt_0)
    obtain n w t e where n: "floor_uint (f64 (rat_of_word p / fair_share tot rem)) = Inr (n :: u16)"
      and w: "uc_pktpfToKbps (dm_converter c) n = Inr w" "om_find (dm_terminals (al_ctrl a)) i = Some t"
        "extra (dm_converter c) e w (dt_rbdc_alloc t)" "fair_share tot rem = 1 \<longrightarrow> e = 0"
      using rbdc_group_run [OF assms(1,3,5) _ _ refl assms(6)] pos unfolding p_def tot_def rem_def by blast
    note k = int_parts [OF n]
    have "n = p \<and> e = 0" if "T \<le> R"
    proof -
      have one: "fair_share tot rem = 1" using that T R pos(1) by (intro fair_share_one) (simp_all add: word_le_nat_alt)
      have "fair_packets 1 p = int (unat p)"
        unfolding fair_packets_def div_by_1 f64_u16 by (simp only: rat_of_word_def floor_of_nat)
      then have "int (unat n) = int (unat p)" using k one by (simp only:)
      then show ?thesis using w(4) one by (simp only: of_nat_eq_iff word_unat_eq_iff simp_thms)
    qed
    moreover have "unat n * T \<le> unat p * R \<and> unat p * R \<le> (unat n + 1) * T" if "R < T"
    proof -
      have "rem < tot" using that T R by (simp add: word_less_nat_alt)
      then have "int (unat n) * int (unat tot) \<le> int (unat p * unat rem)"
        "int (unat p * unat rem) \<le> (int (unat n) + 1) * int (unat tot)"
        using fair_packets_le(2) [OF pos(2,1) le] fair_packets_ge [OF pos(1) _ le] k by simp_all
      then have "int (unat n * T) \<le> int (unat p * R)" "int (unat p * R) \<le> int ((unat n + 1) * T)"
        unfolding T R by (simp_all only: of_nat_mult of_nat_add of_nat_1)
      then show ?thesis by (simp only: of_nat_le_iff)
    qed
    moreover have "e \<le> 1" using w(3) by (auto simp: extra_def)
    ultimately show ?thesis using w(1-3) unfolding p_def by blast
  qed
qed


text \<open>The group of \<open>demo_ctrl\<close> with 40 packets, for requests of 30 and 50 packets.\<close>

definition congested_ctrl :: dama_ctrl where
  "congested_ctrl = demo_ctrl 53 [(demo_term 1 0 236)\<lparr>dt_carrier := 1\<rparr>, (demo_term 2 0 400)\<lparr>dt_carrier := 1\<rparr>] 20000"

definition demo_category :: "dama_ctrl \<Rightarrow> dama_category" where
  "demo_category c = snd (hd (dm_categories c))"

definition demo_group :: "dama_ctrl \<Rightarrow> u32 \<Rightarrow> dama_group" where
  "demo_group c n = dg_setRemainingCapacity n (hd (dc_groups (demo_category c)))"

definition demo_rbdc :: "dama_ctrl \<Rightarrow> u32 \<Rightarrow> (alloc \<times> dama_group) res" where
  "demo_rbdc c n = rbdc_group (demo_category c) (demo_group c n) c"

lemma congested_packets:
  "ran (demo_rbdc congested_ctrl 40)"
  "group_terms (demo_category congested_ctrl) (demo_group congested_ctrl 40) congested_ctrl = [1, 2]"
  "map (rbdc_packets congested_ctrl) [1, 2] = [30, 50]"
  by code_simp+

lemma congested_fresh:
  "fresh_for RBDC [1, 2] congested_ctrl" "small (demo_group congested_ctrl 40)" "distinct (dc_terminals (demo_category congested_ctrl))"
  by (simp_all add: fresh_for_def congested_ctrl_def demo_bit_ok)
    (simp_all add: demo_ctrl_def demo_term_def new_dama_term_def demo_group_def demo_category_def small_def
      dg_setRemainingCapacity_def om_wf_def)

lemma dama_rbdc_fair_witness:
  "\<exists>a n w t e. fst (the_res a (demo_rbdc congested_ctrl 40)) = fst a \<and> uc_pktpfToKbps (dm_converter congested_ctrl) n = Inr w
    \<and> om_find (dm_terminals (al_ctrl (fst a))) 1 = Some t \<and> extra (dm_converter congested_ctrl) e w (dt_rbdc_alloc t)
    \<and> e \<le> 1 \<and> unat n * 80 \<le> 30 * 40 \<and> 30 * 40 \<le> (unat n + 1) * 80"
proof -
  obtain a g' where run: "demo_rbdc congested_ctrl 40 = Inr (a, g')"
    using the_res_Inr [OF congested_packets(1)] by (metis surj_pair)
  note p = congested_packets(2,3)
  have need: "rbdc_need (demo_category congested_ctrl) (demo_group congested_ctrl 40) congested_ctrl"
    using p by (simp add: rbdc_need_def flip: group_terms_def)
  have "80 = (\<Sum>i\<leftarrow>group_terms (demo_category congested_ctrl) (demo_group congested_ctrl 40) congested_ctrl.
      unat (rbdc_packets congested_ctrl i))" using p by simp
  note f = dama_rbdc_fair [OF run [unfolded demo_rbdc_def] congested_fresh(2,3) need _ _ this refl, of 1, unfolded p(1), OF congested_fresh(1)]
  show ?thesis using f p run
    by (simp add: demo_group_def dg_setRemainingCapacity_def the_res_def)
qed


section \<open>When the total wraps\<close>

lemma unat_sum_mod: "unat (\<Sum>i\<leftarrow>l. f i :: u16) = (\<Sum>i\<leftarrow>l. unat (f i)) mod 65536"
  by (induction l) (simp_all add: unat_word_ariths mod_add_right_eq)

text \<open>\<open>total_request_pktpf\<close> is a 16-bit sum and wraps: when the requests \<open>T\<close> of a group reach \<open>2 ^ 16\<close> packets and
  what the sum wraps to is within the capacity \<open>R\<close>, the code sees no congestion and stores for every terminal
  its whole request, more packets in total than the group has.\<close>

theorem rbdc_total_wraps:
  assumes "rbdc_group cat g c = Inr (a, g')" "small g" "distinct (dc_terminals cat)"
    "fresh_for RBDC (group_terms cat g c) c"
    and "T = (\<Sum>i\<leftarrow>group_terms cat g c. unat (rbdc_packets c i))" "R = unat (dg_remaining g)"
    and "65536 \<le> T" "0 < T mod 65536" "T mod 65536 \<le> R"
  shows "R < T \<and> (\<forall>i \<in> set (group_terms cat g c). \<exists>t. om_find (dm_terminals (al_ctrl a)) i = Some t
    \<and> uc_pktpfToKbps (dm_converter c) (rbdc_packets c i) = Inr (dt_rbdc_alloc t))"
proof -
  define tot rem where "tot = (\<Sum>i\<leftarrow>group_terms cat g c. rbdc_packets c i)" and "rem = (ucast (dg_remaining g) :: u16)"
  have tot: "unat tot = T mod 65536" unfolding tot_def unat_sum_mod assms(5) ..
  have rem: "unat rem = R" using small_rem [OF assms(2), of c] assms(6) by (simp add: new_alloc_def rem_def)
  have pos: "0 < rem" "0 < tot" "tot \<le> rem"
    using assms(8,9) by (simp_all add: word_less_nat_alt word_le_nat_alt rem tot)
  have one: "fair_share tot rem = 1" by (rule fair_share_one [OF pos(3,1)])
  have "\<exists>t. om_find (dm_terminals (al_ctrl a)) i = Some t
    \<and> uc_pktpfToKbps (dm_converter c) (rbdc_packets c i) = Inr (dt_rbdc_alloc t)" if i: "i \<in> set (group_terms cat g c)" for i
  proof -
    obtain n w t e where n: "floor_uint (f64 (rat_of_word (rbdc_packets c i) / 1)) = Inr (n :: u16)"
      and w: "uc_pktpfToKbps (dm_converter c) n = Inr w" "om_find (dm_terminals (al_ctrl a)) i = Some t"
        "extra (dm_converter c) e w (dt_rbdc_alloc t)" "e = 0"
      using rbdc_group_run [OF assms(1,3,4) _ _ refl i] pos one unfolding tot_def rem_def by auto
    have "int (unat n) = int (unat (rbdc_packets c i))"
      using int_parts [OF n] unfolding fair_packets_def div_by_1 f64_u16 by (simp only: rat_of_word_def floor_of_nat)
    then have "n = rbdc_packets c i" by (simp only: of_nat_eq_iff word_unat_eq_iff)
    then show ?thesis using w by (auto simp: extra_def)
  qed
  moreover have "R < T" using assms(2,6,7) by (simp add: small_def)
  ultimately show ?thesis by blast
qed

text \<open>Two terminals ask for 40000 packets of a group that has 16384.\<close>

definition wrapping_ctrl :: dama_ctrl where
  "wrapping_ctrl = demo_ctrl 424 [(demo_term 1 0 40000)\<lparr>dt_carrier := 1\<rparr>, (demo_term 2 0 40000)\<lparr>dt_carrier := 1\<rparr>] 20000"

lemma wrapping_packets:
  "ran (demo_rbdc wrapping_ctrl 16384)"
  "group_terms (demo_category wrapping_ctrl) (demo_group wrapping_ctrl 16384) wrapping_ctrl = [1, 2]"
  "map (rbdc_packets wrapping_ctrl) [1, 2] = [40000, 40000]"
  by code_simp+

lemma wrapping_fresh:
  "fresh_for RBDC [1, 2] wrapping_ctrl" "small (demo_group wrapping_ctrl 16384)" "distinct (dc_terminals (demo_category wrapping_ctrl))"
  by (simp_all add: fresh_for_def wrapping_ctrl_def demo_bit_ok)
    (simp_all add: demo_ctrl_def demo_term_def new_dama_term_def demo_group_def demo_category_def small_def
      dg_setRemainingCapacity_def om_wf_def)

lemma rbdc_total_wraps_witness:
  "\<exists>a g'. demo_rbdc wrapping_ctrl 16384 = Inr (a, g') \<and> (16384 :: nat) < 80000
    \<and> (\<forall>i \<in> {1, 2}. \<exists>t. om_find (dm_terminals (al_ctrl a)) i = Some t
         \<and> uc_pktpfToKbps (dm_converter wrapping_ctrl) 40000 = Inr (dt_rbdc_alloc t))"
proof -
  obtain a g' where run: "demo_rbdc wrapping_ctrl 16384 = Inr (a, g')"
    using the_res_Inr [OF wrapping_packets(1)] by (metis surj_pair)
  note p = wrapping_packets(2,3)
  have T: "80000 = (\<Sum>i\<leftarrow>group_terms (demo_category wrapping_ctrl) (demo_group wrapping_ctrl 16384) wrapping_ctrl.
      unat (rbdc_packets wrapping_ctrl i))" using p by simp
  have R: "16384 = unat (dg_remaining (demo_group wrapping_ctrl 16384))" by (simp add: demo_group_def dg_setRemainingCapacity_def)
  show ?thesis
    using rbdc_total_wraps [OF run [unfolded demo_rbdc_def] wrapping_fresh(2,3) _ T R, unfolded p(1), OF wrapping_fresh(1)] p(2) run
    by simp
qed

end
