(* ===== verification/DamaState.thy ===== *)
theory DamaState
  imports DamaReset DamaDemo
begin

text \<open>
  The registers of the DAMA controller over its life: the terminals, and the list of each category.
  Every event keeps them consistent.
\<close>

section \<open>The registers\<close>

definition in_category :: "dama_ctrl \<Rightarrow> tal_id_t \<Rightarrow> dama_term \<Rightarrow> bool" where
  "in_category c i t \<longleftrightarrow> dt_id t = i
     \<and> (\<exists>cat. om_find (dm_categories c) (dt_category t) = Some cat \<and> i \<in> set (dc_terminals cat))"

definition dm_ok :: "dama_ctrl \<Rightarrow> bool" where
  "dm_ok c \<longleftrightarrow> dm_wf c \<and> om_wf (dm_categories c) \<and> (\<forall>(l, cat) \<in> set (dm_categories c). dc_label cat = l)
     \<and> (\<forall>i t. om_find (dm_terminals c) i = Some t \<longrightarrow> in_category c i t)"

text \<open>What most operations do to a terminal.\<close>

definition same_id :: "dama_term \<Rightarrow> dama_term \<Rightarrow> bool" where
  "same_id t t' \<longleftrightarrow> dt_id t' = dt_id t \<and> dt_category t' = dt_category t"

lemma same_id_set [simp]:
  "same_id t t" "same_id t (dt_setCraAllocation v u) = same_id t u" "same_id t (dt_setRbdcAllocation v u) = same_id t u"
  "same_id t (dt_setVbdcAllocation v u) = same_id t u" "same_id t (dt_setFcaAllocation v u) = same_id t u"
  "same_id t (dt_addRbdcCredit r u) = same_id t u" "same_id t (dt_setRbdcCredit r u) = same_id t u"
  "same_id t (dt_setRequiredRbdc v u) = same_id t u" "same_id t (dt_setRequiredVbdc v u) = same_id t u"
  "same_id t (dt_setRequiredCra v u) = same_id t u" "same_id t (dt_setMaxRbdc v u) = same_id t u"
  "same_id t (dt_updateRbdcTimeout s u) = same_id t u" "same_id t (dt_decrementTimer u) = same_id t u"
  "same_id t (dt_setFmt f u) = same_id t u" "same_id t (dt_setRequiredFmt f u) = same_id t u"
  "same_id t (dt_setCarrierId cid u) = same_id t u"
  by (simp_all add: same_id_def dt_setCraAllocation_def dt_setRbdcAllocation_def dt_setVbdcAllocation_def
      dt_setFcaAllocation_def dt_addRbdcCredit_def dt_setRbdcCredit_def dt_setRequiredRbdc_def dt_setRequiredVbdc_def
      dt_setRequiredCra_def dt_setMaxRbdc_def dt_updateRbdcTimeout_def dt_decrementTimer_def dt_setFmt_def
      dt_setRequiredFmt_def dt_setCarrierId_def)

lemma same_id_trans: "same_id a b \<Longrightarrow> same_id b c \<Longrightarrow> same_id a c"
  by (simp add: same_id_def)

definition kept :: "dama_ctrl \<Rightarrow> dama_ctrl \<Rightarrow> bool" where
  "kept c c' \<longleftrightarrow> (om_wf (dm_terminals c) \<longrightarrow> om_wf (dm_terminals c')) \<and> dm_categories c' = dm_categories c
     \<and> (\<forall>i. rel_option same_id (om_find (dm_terminals c) i) (om_find (dm_terminals c') i))"

lemma kept_refl [simp]: "kept c c"
  by (simp add: kept_def option.rel_refl)

lemma kept_trans: "kept a b \<Longrightarrow> kept b c \<Longrightarrow> kept a c"
  unfolding kept_def using option.rel_mono_strong option.rel_compp [of same_id same_id]
  by (smt (verit, best) option.rel_transp same_id_trans transpD transpI)

lemma kept_same: "dm_terminals c' = dm_terminals c \<Longrightarrow> dm_categories c' = dm_categories c \<Longrightarrow> kept c c'"
  by (simp add: kept_def option.rel_refl)

lemma kept_set:
  assumes "om_find (dm_terminals c) i = Some t" "same_id t t'" "dm_terminals c' = om_put i t' (dm_terminals c)"
    "dm_categories c' = dm_categories c"
  shows "kept c c'"
  using assms by (auto simp: kept_def option.rel_refl)

lemma kept_dm_set:
  assumes "om_find (dm_terminals c) i = Some t" "same_id t t'" "kept c c'"
  shows "kept c (dm_set i t' c')"
  using assms by (auto simp: kept_def dm_set_def)

lemma kept_simps [simp]:
  "kept c (spend label cid k c') = kept c c'" "kept c (c'\<lparr>dm_converter := uc\<rparr>) = kept c c'"
  "kept c (c'\<lparr>dm_vbdc_req_num := x\<rparr>) = kept c c'" "kept c (c'\<lparr>dm_rbdc_req_num := x\<rparr>) = kept c c'"
  "kept c (c'\<lparr>dm_cra_alloc_kbps := x\<rparr>) = kept c c'" "kept c (c'\<lparr>dm_enable_rbdc := b\<rparr>) = kept c c'"
  "kept c (c'\<lparr>dm_enable_vbdc := b\<rparr>) = kept c c'" "kept c (c'\<lparr>dm_rbdc_max_kbps := x\<rparr>) = kept c c'"
  by (simp_all add: kept_def spend_def)

lemma kept_ok:
  assumes "kept c c'" "dm_ok c"
  shows "dm_ok c'"
proof -
  have rel: "rel_option same_id (om_find (dm_terminals c) i) (om_find (dm_terminals c') i)" for i
    using assms(1) by (simp add: kept_def)
  have cats: "dm_categories c' = dm_categories c" using assms(1) by (simp add: kept_def)
  have "registered c' = registered c" unfolding registered_def using rel by (metis option.rel_distinct(1,2) not_None_eq)
  moreover have "in_category c' i t'" if t': "om_find (dm_terminals c') i = Some t'" for i t'
  proof -
    obtain t where "om_find (dm_terminals c) i = Some t" "same_id t t'"
      using rel [of i] t' by (cases "om_find (dm_terminals c) i") auto
    then show ?thesis using assms(2) by (auto simp: dm_ok_def in_category_def same_id_def cats)
  qed
  ultimately show ?thesis using assms by (simp add: dm_ok_def dm_wf_def kept_def listed_def)
qed

section \<open>Serving keeps the registers\<close>

text \<open>The contract of a step over the terminals, and of a group.\<close>

locale keeping =
  fixes h :: "tal_id_t \<Rightarrow> alloc \<Rightarrow> alloc res"
  assumes h: "h i a = Inr a' \<Longrightarrow> kept (al_ctrl a) (al_ctrl a')"
begin

lemma loop: "res_fold h l a = Inr a' \<Longrightarrow> kept (al_ctrl a) (al_ctrl a')"
  by (induction l arbitrary: a) (auto simp: res_bind_Inr intro: kept_trans h)

end

locale keeping_groups =
  fixes f :: "dama_category \<Rightarrow> dama_group \<Rightarrow> dama_ctrl \<Rightarrow> (alloc \<times> dama_group) res"
  assumes f: "f cat g c = Inr (a, g') \<Longrightarrow> kept c (al_ctrl a) \<and> dg_carriers_id g' = dg_carriers_id g"
begin

lemma groups:
  "groups_loop (group_step f cat) gs (c, s) = Inr ((c', s'), gs') \<Longrightarrow>
     kept c c' \<and> map dg_carriers_id gs' = map dg_carriers_id gs"
proof (induction gs arbitrary: c s gs')
  case (Cons g gs)
  obtain x g1 gs1 where x: "group_step f cat g (c, s) = Inr (x, g1)"
    "groups_loop (group_step f cat) gs x = Inr ((c', s'), gs1)" and gs': "gs' = g1 # gs1"
    by (rule groups_loop_Inr [OF Cons.prems])
  obtain c1 s1 where c1: "x = (c1, s1)" by (cases x)
  obtain a where a: "f cat g c = Inr (a, g1)" "c1 = al_ctrl a" using group_step_Inr [OF x(1) [unfolded c1]] by blast
  show ?case using f [OF a(1)] Cons.IH [OF x(2) [unfolded c1]] kept_trans [of c c1 c'] by (auto simp: gs' a(2))
qed simp

definition relisted :: "string \<times> dama_category \<Rightarrow> string \<times> dama_category \<Rightarrow> bool" where
  "relisted = both_cats (\<lambda>cat g g'. dg_carriers_id g' = dg_carriers_id g)"

lemma categories:
  "cats_loop (category_step f) cs (c, s) = Inr ((c', s'), cs') \<Longrightarrow> kept c c' \<and> list_all2 relisted cs cs'"
proof (induction cs arbitrary: c s cs')
  case (Cons p cs)
  obtain l cat where p: "p = (l, cat)" by fastforce
  obtain x cat1 cs1 where x: "category_step f cat (c, s) = Inr (x, cat1)"
    "cats_loop (category_step f) cs x = Inr ((c', s'), cs1)" and cs': "cs' = (l, cat1) # cs1"
    by (rule cats_loop_Inr [OF Cons.prems [unfolded p]])
  obtain c1 s1 where c1: "x = (c1, s1)" by (cases x)
  obtain gs where gs: "groups_loop (group_step f cat) (dc_groups cat) (c, s) = Inr ((c1, s1), gs)" "cat1 = cat\<lparr>dc_groups := gs\<rparr>"
    using category_step_Inr [OF x(1) [unfolded c1]] by blast
  have k: "kept c c1" "map dg_carriers_id gs = map dg_carriers_id (dc_groups cat)" using groups [OF gs(1)] by auto
  then have "list_all2 (\<lambda>g g'. dg_carriers_id g' = dg_carriers_id g) (dc_groups cat) gs"
    by (metis (mono_tags, lifting) list_all2_conv_all_nth length_map nth_map)
  then show ?case using Cons.IH [OF x(2) [unfolded c1]] k(1) kept_trans [of c c1 c']
    by (auto simp: cs' p gs(2) relisted_def both_cats_def)
qed simp

lemma all:
  assumes "all_carriers f c = Inr (c', s)"
  obtains c1 where "kept c c1" "both_groups (\<lambda>cat g g'. dg_carriers_id g' = dg_carriers_id g) c1 c'"
    "dm_terminals c' = dm_terminals c1"
proof -
  obtain c1 s1 cats where r: "cats_loop (category_step f) (dm_categories c) (c, (True, 0, 0)) = Inr ((c1, s1), cats)"
    and c': "c' = c1\<lparr>dm_categories := cats\<rparr>"
    using assms by (auto simp: all_carriers_def res_bind_Inr)
  show thesis using categories [OF r] that [of c1] by (simp add: c' both_groups_def relisted_def kept_def)
qed

end

text \<open>New remaining capacities, the same groups.\<close>

lemma both_cats_same:
  assumes "both_cats P (l, cat) (l', cat')"
  shows "l' = l" "dc_terminals cat' = dc_terminals cat"
proof -
  have c: "cat' = cat\<lparr>dc_groups := dc_groups cat'\<rparr>" using assms by (simp add: both_cats_def)
  show "dc_terminals cat' = dc_terminals cat" by (subst c) simp
qed (use assms in \<open>simp add: both_cats_def\<close>)

lemma regrouped_find:
  assumes "list_all2 (both_cats P) cs cs'" "om_find cs l = Some cat"
  shows "\<exists>cat'. om_find cs' l = Some cat' \<and> dc_terminals cat' = dc_terminals cat"
  using assms
proof (induction rule: list_all2_induct)
  case (Cons p cs p' cs')
  then show ?case by (cases p; cases p') (auto dest: both_cats_same split: if_splits)
qed simp

lemma regrouped_ok:
  assumes b: "both_groups (\<lambda>cat g g'. dg_carriers_id g' = dg_carriers_id g) c c'" and t: "dm_terminals c' = dm_terminals c"
    and ok: "dm_ok c"
  shows "dm_ok c'"
proof -
  have keys: "om_keys cs' = om_keys cs" if "list_all2 (both_cats P) cs cs'" for P cs cs'
    using that by (induction rule: list_all2_induct) (auto simp: both_cats_def)
  have "distinct (map dg_carriers_id (dc_groups cat')) \<and> dc_label cat' = l" if lc: "(l, cat') \<in> set (dm_categories c')" for l cat'
  proof -
    obtain cat where cat: "(l, cat) \<in> set (dm_categories c)" "cat' = cat\<lparr>dc_groups := dc_groups cat'\<rparr>"
      "list_all2 (\<lambda>g g'. dg_carriers_id g' = dg_carriers_id g) (dc_groups cat) (dc_groups cat')"
      by (rule both_groups_cat [OF b lc])
    have "map dg_carriers_id (dc_groups cat') = map dg_carriers_id (dc_groups cat)"
      using cat(3) by (auto simp: list_all2_conv_all_nth intro!: nth_equalityI)
    moreover have "dc_label cat' = dc_label cat" by (subst cat(2)) simp
    ultimately show ?thesis using ok cat(1) by (auto simp: dm_ok_def dm_wf_def)
  qed
  moreover have "in_category c' i u" if iu: "om_find (dm_terminals c') i = Some u" for i u
  proof -
    obtain cat where "dt_id u = i" "om_find (dm_categories c) (dt_category u) = Some cat" "i \<in> set (dc_terminals cat)"
      using ok iu unfolding dm_ok_def in_category_def t by blast
    then show ?thesis using regrouped_find [OF b [unfolded both_groups_def]] by (fastforce simp: in_category_def)
  qed
  ultimately show ?thesis
    using ok both_groups_listed [OF b] keys [OF b [unfolded both_groups_def]]
    by (auto simp: dm_ok_def dm_wf_def om_wf_def registered_def t)
qed


section \<open>The four kinds\<close>

interpretation cra_keep: keeping cra_term
  by unfold_locales (auto simp: cra_term_def Let_def res_bind_Inr dm_term_Inr split: option.splits if_splits simp: kept_dm_set)

interpretation request_keep: keeping rbdc_request_term
  by unfold_locales (auto simp: rbdc_request_term_def Let_def res_bind_Inr)

interpretation step1_keep: keeping "rbdc_step1 label cid fs" for label cid fs
  by unfold_locales (auto simp: rbdc_step1_def Let_def res_bind_Inr dm_term_Inr simp: kept_dm_set)

interpretation vbdc_keep: keeping "vbdc_term label cid" for label cid
  by unfold_locales (auto simp: vbdc_term_def Let_def res_bind_Inr dm_term_Inr split: if_splits simp: kept_dm_set)

interpretation fca_keep: keeping "fca_term label cid fca" for label cid fca
  by unfold_locales (auto simp: fca_term_def Let_def res_bind_Inr dm_term_Inr simp: kept_dm_set)

lemma step2_kept: "rbdc_step2 label cid l a = Inr a' \<Longrightarrow> kept (al_ctrl a) (al_ctrl a')"
proof (induction l arbitrary: a)
  case (Cons i l)
  have "\<exists>a1. rbdc_step2 label cid l a1 = Inr a' \<and> kept (al_ctrl a) (al_ctrl a1)" if "al_rem a \<noteq> 0"
    using Cons.prems that
    by (fastforce simp: Let_def res_bind_Inr dm_term_Inr split: if_splits simp: kept_dm_set)
  then show ?case using Cons.IH Cons.prems kept_trans by (cases "al_rem a = 0") auto
qed simp

lemma vbdc_rest_kept: "vbdc_rest l a = Inr a' \<Longrightarrow> kept (al_ctrl a) (al_ctrl a')"
proof (induction l arbitrary: a)
  case (Cons i l)
  obtain a1 where r: "vbdc_rest l a1 = Inr a'" and "dm_terminals (al_ctrl a1) = dm_terminals (al_ctrl a)"
    "dm_categories (al_ctrl a1) = dm_categories (al_ctrl a)"
    using Cons.prems by (auto simp: res_bind_Inr)
  then show ?case using Cons.IH [OF r] kept_same kept_trans by blast
qed simp

lemma vbdc_loop_kept: "vbdc_loop label cid l a = Inr a' \<Longrightarrow> kept (al_ctrl a) (al_ctrl a')"
proof (induction l arbitrary: a)
  case (Cons i l)
  then show ?case using vbdc_rest_kept kept_trans vbdc_keep.h
    by (auto simp: res_bind_Inr simp del: vbdc_rest.simps split: if_splits) blast
qed simp

lemma fca_loop_kept: "fca_loop label cid fca l a = Inr a' \<Longrightarrow> kept (al_ctrl a) (al_ctrl a')"
proof (induction l arbitrary: a)
  case (Cons i l)
  then show ?case using kept_trans fca_keep.h by (auto simp: res_bind_Inr split: if_splits) blast
qed simp

lemma new_remaining [simp]: "dg_carriers_id (dg_setRemainingCapacity v g) = dg_carriers_id g"
  by (simp add: dg_setRemainingCapacity_def)

interpretation cra_group_keep: keeping_groups cra_group
  by unfold_locales (auto simp: cra_group_def res_bind_Inr dest!: cra_keep.loop)

interpretation fca_group_keep: keeping_groups fca_group
  by unfold_locales (auto simp: fca_group_def Let_def res_bind_Inr dest!: fca_loop_kept split: if_splits)

interpretation vbdc_group_keep: keeping_groups vbdc_group
  by unfold_locales (auto simp: vbdc_group_def Let_def res_bind_Inr dest!: vbdc_loop_kept split: if_splits)

interpretation rbdc_group_keep: keeping_groups rbdc_group
proof unfold_locales
  fix cat g c a g'
  assume r: "rbdc_group cat g c = Inr (a, g')"
  let ?l = "terminals_in_group cat (dg_carriers_id g) c"
  have "kept c (al_ctrl a) \<and> dg_carriers_id g' = dg_carriers_id g" if nz: "al_rem (new_alloc c g) \<noteq> 0"
  proof -
    obtain a1 where a1: "res_fold rbdc_request_term ?l (new_alloc c g) = Inr a1"
      using r unfolding rbdc_group_def Let_def res_bind_Inr if_not_P [OF nz] by blast
    then have k1: "kept c (al_ctrl a1)" using request_keep.loop [OF a1] by simp
    show ?thesis
    proof (cases "al_alloc a1 = 0")
      case True
      then show ?thesis using r nz a1 k1 by (auto simp: rbdc_group_def Let_def res_bind_Inr)
    next
      case False
      obtain fs a2 where s: "res_fold (rbdc_step1 (dc_label cat) (dg_carriers_id g) fs) ?l (a1\<lparr>al_alloc := 0\<rparr>) = Inr a2"
        "(if 1 < fs then rbdc_step2 (dc_label cat) (dg_carriers_id g)
            (sortByRemainingCredit (the_term (al_ctrl a2)) ?l) a2 else Inr a2) = Inr a" "dg_carriers_id g' = dg_carriers_id g"
        using r nz a1 False by (auto simp: rbdc_group_def Let_def res_bind_Inr)
      have "kept (al_ctrl a1) (al_ctrl a2)" using step1_keep.loop [OF s(1)] by simp
      moreover have "kept (al_ctrl a2) (al_ctrl a)" using s(2) step2_kept by (auto split: if_splits)
      ultimately show ?thesis using k1 kept_trans s(3) by blast
    qed
  qed
  then show "kept c (al_ctrl a) \<and> dg_carriers_id g' = dg_carriers_id g"
    using r by (cases "al_rem (new_alloc c g) = 0") (auto simp: rbdc_group_def Let_def res_bind_Inr)
qed


section \<open>The events\<close>

lemma mset_listed: "mset (listed c) = mset (concat (map snd (map (\<lambda>(l, cat). (l, dc_terminals cat)) (dm_categories c))))"
  unfolding listed_def by (rule arg_cong [where f = mset], rule arg_cong [where f = concat]) (auto simp: comp_def)

text \<open>The list of one category changes.\<close>

lemma relist:
  assumes "om_wf (dm_categories c)" "om_find (dm_categories c) l = Some cat"
  shows "mset (listed (c\<lparr>dm_categories := om_put l cat' (dm_categories c)\<rparr>)) + mset (dc_terminals cat)
    = mset (listed c) + mset (dc_terminals cat')"
proof -
  let ?m = "map (\<lambda>(l, cat). (l, dc_terminals cat)) (dm_categories c)"
  have "om_wf ?m" "om_find ?m l = Some (dc_terminals cat)" using assms by (simp_all add: om_wf_map om_find_map)
  then show ?thesis using om_put_values [of ?m l "dc_terminals cat'"] by (simp add: mset_listed om_put_map)
qed

lemma ok_cat:
  assumes "dm_ok c" "om_find (dm_categories c) l = Some cat"
  shows "(l, cat) \<in> set (dm_categories c)" "dc_label cat = l" "set (dc_terminals cat) \<subseteq> set (listed c)"
    "distinct (map dg_carriers_id (dc_groups cat))"
proof -
  show lc: "(l, cat) \<in> set (dm_categories c)" by (rule om_find_in [OF assms(2)])
  show "dc_label cat = l" "distinct (map dg_carriers_id (dc_groups cat))" using assms(1) lc by (auto simp: dm_ok_def dm_wf_def)
  show "set (dc_terminals cat) \<subseteq> set (listed c)" by (rule listed_cat [OF lc])
qed

lemma relist_ok:
  assumes ok: "dm_ok c" and cat: "om_find (dm_categories c) l = Some cat"
    and same: "dc_label cat' = dc_label cat" "dc_groups cat' = dc_groups cat"
  shows "om_wf (om_put l cat' (dm_categories c))"
    "\<forall>(j, d) \<in> set (om_put l cat' (dm_categories c)). dc_label d = j \<and> distinct (map dg_carriers_id (dc_groups d))"
proof -
  have wf: "om_wf (dm_categories c)" using ok by (simp add: dm_ok_def)
  then show w: "om_wf (om_put l cat' (dm_categories c))" by simp
  have "dc_label d = j \<and> distinct (map dg_carriers_id (dc_groups d))" if jd: "(j, d) \<in> set (om_put l cat' (dm_categories c))" for j d
  proof (cases "j = l")
    case True
    then have "d = cat'" using om_in_find [OF w jd] by simp
    then show ?thesis using ok_cat [OF ok cat] same True by simp
  next
    case False
    then have "om_find (dm_categories c) j = Some d" using om_in_find [OF w jd] by simp
    then show ?thesis using ok_cat [OF ok] by blast
  qed
  then show "\<forall>(j, d) \<in> set (om_put l cat' (dm_categories c)). dc_label d = j \<and> distinct (map dg_carriers_id (dc_groups d))"
    by auto
qed

lemma create_id: "dt_id (dm_createTerminal junk i cra max_rbdc max_vbdc c) = i"
  by (simp add: dm_createTerminal_def Let_def new_dama_term_def dt_setRequiredFmt_def)

lemma logon_ok:
  assumes ok: "dm_ok c" and run: "dm_hereIsLogon junk r c = Inr (b, c')"
  shows "dm_ok c'"
proof (cases "c' = c")
  case False
  define i where "i = lr_mac r"
  obtain l cat t where new: "om_find (dm_terminals c) i = None" and cat: "om_find (dm_categories c) l = Some cat"
    and t: "dt_id t = i" and c': "dm_terminals c' = om_put i (t\<lparr>dt_category := dc_label cat\<rparr>) (dm_terminals c)"
      "dm_categories c' = om_put l (dc_addTerminal i cat) (dm_categories c)"
    using run False
    using create_id [of junk i "lr_rt_bandwidth r" "lr_max_rbdc r" "lr_max_vbdc r" c]
    by (auto simp: dm_hereIsLogon_def Let_def res_bind_Inr dm_set_def i_def split: option.splits sum.splits if_splits)
  note lc = ok_cat [OF ok cat]
  have wf: "om_wf (dm_categories c)" "om_wf (dm_terminals c)" "distinct (listed c)" "set (listed c) \<subseteq> registered c"
    using ok by (auto simp: dm_ok_def dm_wf_def)
  have "mset (listed c') = mset (listed c) + {#i#}"
    using relist [OF wf(1) cat, of "dc_addTerminal i cat"] by (simp add: listed_def c' dc_addTerminal_def)
  then have m: "mset (listed c') = mset (i # listed c)" by simp
  have "i \<notin> set (listed c)" using wf(4) new by (auto simp: registered_def)
  then have d: "distinct (listed c')" "set (listed c') = insert i (set (listed c))"
    using wf(3) mset_eq_imp_distinct_iff [OF m] mset_eq_setD [OF m] by auto
  have reg: "registered c' = insert i (registered c)" by (auto simp: registered_def c')
  have "in_category c' j u" if u: "om_find (dm_terminals c') j = Some u" for j u
  proof (cases "j = i")
    case True
    then show ?thesis using u t lc(2) by (auto simp: in_category_def c' dc_addTerminal_def)
  next
    case False
    then have "in_category c j u" using u ok by (simp add: dm_ok_def c')
    then show ?thesis using cat by (auto simp: in_category_def c' dc_addTerminal_def)
  qed
  moreover have "om_wf (dm_categories c')" "\<forall>(j, d) \<in> set (dm_categories c'). dc_label d = j \<and> distinct (map dg_carriers_id (dc_groups d))"
    using relist_ok [OF ok cat, of "dc_addTerminal i cat"] by (simp_all add: c' dc_addTerminal_def)
  ultimately show ?thesis using wf d reg by (auto simp: dm_ok_def dm_wf_def c')
qed (use ok in simp)

lemma logoff_ok:
  assumes ok: "dm_ok c" and run: "dm_hereIsLogoff i c = (b, c')"
  shows "dm_ok c'" "i \<in> registered c \<Longrightarrow> b" "i \<notin> registered c'"
proof -
  have "dm_ok c' \<and> (i \<in> registered c \<longrightarrow> b) \<and> i \<notin> registered c'"
  proof (cases "om_find (dm_terminals c) i")
    case None
    then show ?thesis using run ok by (auto simp: dm_hereIsLogoff_def registered_def)
  next
    case (Some t)
    have ok': "in_category c j u" if "om_find (dm_terminals c) j = Some u" for j u
      using ok that by (simp add: dm_ok_def)
    obtain cat where id: "dt_id t = i" and cat: "om_find (dm_categories c) (dt_category t) = Some cat" "i \<in> set (dc_terminals cat)"
      using ok' [OF Some] by (auto simp: in_category_def)
    define cat' where "cat' = cat\<lparr>dc_terminals := remove1 i (dc_terminals cat)\<rparr>"
    have b: b and c': "dm_terminals c' = om_erase i (dm_terminals c)"
      "dm_categories c' = om_put (dt_category t) cat' (dm_categories c)"
      using run Some id cat by (auto simp: dm_hereIsLogoff_def Let_def dc_removeTerminal_def cat'_def)
    note lc = ok_cat [OF ok cat(1)]
    have wf: "om_wf (dm_categories c)" "om_wf (dm_terminals c)" "distinct (listed c)" "set (listed c) \<subseteq> registered c"
      using ok by (auto simp: dm_ok_def dm_wf_def)
    have find: "om_find (dm_terminals c') j = (if j = i then None else om_find (dm_terminals c) j)" for j
      unfolding c' by (rule om_find_erase [OF wf(2)])
    have "mset (listed c') + mset (dc_terminals cat) = mset (listed c) + mset (dc_terminals cat')"
      using relist [OF wf(1) cat(1), of cat'] by (simp add: listed_def c')
    moreover have "mset (dc_terminals cat) = add_mset i (mset (dc_terminals cat'))"
      using cat(2) by (simp add: cat'_def insert_DiffM)
    ultimately have "mset (i # listed c') = mset (listed c)" by simp
    then have d: "distinct (i # listed c')" "set (i # listed c') = set (listed c)"
      using wf(3) mset_eq_imp_distinct_iff mset_eq_setD by blast+
    have reg: "registered c' = registered c - {i}" by (auto simp: registered_def find)
    have "in_category c' j u" if u: "om_find (dm_terminals c') j = Some u" for j u
    proof -
      have j: "j \<noteq> i" "om_find (dm_terminals c) j = Some u" using u find by (auto split: if_splits)
      then show ?thesis using ok' [OF j(2)] cat(1) by (auto simp: in_category_def c' cat'_def)
    qed
    moreover have "om_wf (dm_categories c')" "\<forall>(j, d) \<in> set (dm_categories c'). dc_label d = j \<and> distinct (map dg_carriers_id (dc_groups d))"
      using relist_ok [OF ok cat(1), of cat'] by (simp_all add: c' cat'_def)
    ultimately show ?thesis using wf d reg b by (auto simp: dm_ok_def dm_wf_def c')
  qed
  then show "dm_ok c'" "i \<in> registered c \<Longrightarrow> b" "i \<notin> registered c'" by auto
qed


lemma request_kept: "dm_request i r c = Inr c1 \<Longrightarrow> kept c c1"
  by (auto simp: dm_request_def kept_dm_set split: if_splits option.splits)

lemma requests_kept: "res_fold (dm_request i) rs c = Inr c1 \<Longrightarrow> kept c c1"
proof (induction rs arbitrary: c)
  case (Cons r rs)
  then obtain d where "dm_request i r c = Inr d" "kept d c1" by (auto simp: res_bind_Inr)
  then show ?case using request_kept kept_trans by blast
qed simp

lemma sac_kept: "dm_hereIsSAC gw i rs c = Inr (b, c') \<Longrightarrow> kept c c'"
  by (auto simp: dm_hereIsSAC_def res_bind_Inr requests_kept split: if_splits)

lemma pep_kept: "dm_applyPepCommand r c = Inr (b, c') \<Longrightarrow> kept c c'"
  by (auto simp: dm_applyPepCommand_def Let_def res_bind_Inr pep_cra_def pep_rbdc_def kept_dm_set
      split: option.splits if_splits)

lemma kept_map:
  assumes "dm_terminals c' = map (\<lambda>(i, t). (i, f t)) (dm_terminals c)" "\<And>t. same_id t (f t)"
    "dm_categories c' = dm_categories c"
  shows "kept c c'"
proof -
  have "rel_option same_id x (map_option f x)" for x using assms(2) by (cases x) auto
  then show ?thesis using assms by (simp add: kept_def om_wf_map om_find_map)
qed

lemma wave_form_id: "same_id t u \<Longrightarrow> wave_form tb req gs (av, u) = (av', u') \<Longrightarrow> same_id t u'"
proof (induction gs arbitrary: av u)
  case (Cons g gs)
  then show ?case using Cons.IH [of "dt_setCarrierId (dg_carriers_id g) u"] by (auto simp: Let_def split: if_splits)
qed simp

lemma waveforms_kept: "kept c (dm_updateWaveForms c)"
proof (rule kept_map [where f = "dm_wave_form c"])
  show "same_id t (dm_wave_form c t)" for t
    by (auto simp: dm_wave_form_def Let_def split: option.splits prod.splits intro: wave_form_id [OF same_id_set(1)])
qed (simp_all add: dm_updateWaveForms_def)

text \<open>Loops that rebuild the map of the terminals.\<close>

definition same_ids :: "(tal_id_t, dama_term) omap \<Rightarrow> (tal_id_t, dama_term) omap \<Rightarrow> bool" where
  "same_ids = list_all2 (\<lambda>(i, t) (i', t'). i' = i \<and> same_id t t')"

lemma same_ids_kept:
  assumes "same_ids (dm_terminals c) (dm_terminals c')" "dm_categories c' = dm_categories c"
  shows "kept c c'"
proof -
  have "om_keys m' = om_keys m \<and> (\<forall>i. rel_option same_id (om_find m i) (om_find m' i))" if "same_ids m m'" for m m'
    using that unfolding same_ids_def by (induction rule: list_all2_induct) auto
  then show ?thesis using assms by (auto simp: kept_def om_wf_def)
qed

lemma fmts_kept: "dm_updateRequiredFmts c sts = (c', sts') \<Longrightarrow> kept c c'"
proof -
  have "same_ids ts ts'" if "update_fmts b tb ts s = (ts', s')" for b tb ts s ts' s'
    using that
  proof (induction ts arbitrary: s ts')
    case (Cons p ts)
    obtain i t where p: "p = (i, t)" by fastforce
    obtain f s1 ts1 where "ts' = (i, dt_setRequiredFmt (required_fmt tb f) t) # ts1" "update_fmts b tb ts s1 = (ts1, s')"
      using Cons.prems by (cases b) (auto simp: p Let_def split: prod.splits)
    then show ?case using Cons.IH by (auto simp: p same_ids_def)
  qed (simp add: same_ids_def)
  then show "dm_updateRequiredFmts c sts = (c', sts') \<Longrightarrow> kept c c'"
    by (intro same_ids_kept) (auto simp: dm_updateRequiredFmts_def Let_def split: prod.splits)
qed

lemma allocations_reset_kept: "dm_resetTerminalsAllocations c = Inr (b, c') \<Longrightarrow> kept c c'"
proof -
  have one: "same_id t t1" if "reset_term uc t = Inr (b, uc1, t1)" for b uc uc1 t t1
    using that by (auto simp: reset_term_def Let_def res_bind_Inr split: if_splits option.splits)
  have "same_ids ts ts1" if "reset_terms ts uc = Inr (b, uc1, ts1)" for ts b uc uc1 ts1
    using that
  proof (induction ts arbitrary: b uc ts1)
    case (Cons p ts)
    then show ?case by (cases p) (fastforce simp: same_ids_def res_bind_Inr dest: one)
  qed (simp add: same_ids_def)
  then show "dm_resetTerminalsAllocations c = Inr (b, c') \<Longrightarrow> kept c c'"
    by (intro same_ids_kept) (auto simp: dm_resetTerminalsAllocations_def res_bind_Inr)
qed

lemma both_groups_mono: "both_groups P c c' \<Longrightarrow> (\<And>cat g g'. P cat g g' \<Longrightarrow> Q cat g g') \<Longrightarrow> both_groups Q c c'"
  unfolding both_groups_def both_cats_def by (erule list_all2_mono) (auto elim: list_all2_mono)

lemma capacity_reset_ok:
  assumes "dm_resetCarriersCapacity c = Inr c'" "dm_ok c"
  shows "dm_ok c'"
proof -
  have "both_groups (\<lambda>cat g g'. dg_carriers_id g' = dg_carriers_id g) c c'"
    using reset_capacity(1) [OF assms(1)] by (rule both_groups_mono) (auto simp: refilled_def)
  then show ?thesis by (rule regrouped_ok [OF _ reset_capacity(2) [OF assms(1)] assms(2)])
qed

lemma ok_num [simp]:
  "dm_ok (c\<lparr>dm_superframe := x\<rparr>) = dm_ok c" "dm_ok (c\<lparr>dm_rbdc_req_num := n\<rparr>) = dm_ok c"
  "dm_ok (c\<lparr>dm_vbdc_req_num := n\<rparr>) = dm_ok c" "dm_ok (c\<lparr>dm_cra_alloc_kbps := n\<rparr>) = dm_ok c"
  by (simp_all add: dm_ok_def dm_wf_def listed_def registered_def in_category_def)

context keeping_groups begin

lemma all_ok: "all_carriers f c = Inr (c', s) \<Longrightarrow> dm_ok c \<Longrightarrow> dm_ok c'"
  by (erule all) (rule regrouped_ok, assumption+, rule kept_ok)

end

lemma cra_ok: "dm_computeTerminalsCraAllocation c = Inr (b, c') \<Longrightarrow> dm_ok c \<Longrightarrow> dm_ok c'"
  using cra_group_keep.all_ok by (auto simp: dm_computeTerminalsCraAllocation_def res_bind_Inr)

lemma rbdc_ok: "dm_computeTerminalsRbdcAllocation c = Inr c' \<Longrightarrow> dm_ok c \<Longrightarrow> dm_ok c'"
  using rbdc_group_keep.all_ok by (auto simp: dm_computeTerminalsRbdcAllocation_def res_bind_Inr)

lemma vbdc_ok: "dm_computeTerminalsVbdcAllocation c = Inr c' \<Longrightarrow> dm_ok c \<Longrightarrow> dm_ok c'"
  using vbdc_group_keep.all_ok by (auto simp: dm_computeTerminalsVbdcAllocation_def res_bind_Inr)

lemma fca_ok: "dm_computeTerminalsFcaAllocation c = Inr c' \<Longrightarrow> dm_ok c \<Longrightarrow> dm_ok c'"
  using fca_group_keep.all_ok by (auto simp: dm_computeTerminalsFcaAllocation_def res_bind_Inr split: if_splits)

lemma allocations_ok:
  assumes run: "dm_computeTerminalsAllocations c = Inr (b, c')" and "dm_ok c"
  shows "dm_ok c'"
proof -
  obtain b1 c1 where c1: "dm_resetTerminalsAllocations c = Inr (b1, c1)"
    using run by (auto simp: dm_computeTerminalsAllocations_def res_bind_Inr)
  have ok1: "dm_ok c1" by (rule kept_ok [OF allocations_reset_kept [OF c1] assms(2)])
  show ?thesis
  proof (cases b1)
    case True
    obtain b2 c2 where c2: "dm_computeTerminalsCraAllocation c1 = Inr (b2, c2)"
      using run c1 True by (auto simp: dm_computeTerminalsAllocations_def res_bind_Inr)
    note ok2 = cra_ok [OF c2 ok1]
    show ?thesis
    proof (cases b2)
      case True
      obtain c3 c4 where "c3 = c2 \<or> dm_computeTerminalsRbdcAllocation c2 = Inr c3"
        "c4 = c3 \<or> dm_computeTerminalsVbdcAllocation c3 = Inr c4" "dm_computeTerminalsFcaAllocation c4 = Inr c'"
        using run c1 c2 True \<open>b1\<close> by (auto simp: dm_computeTerminalsAllocations_def res_bind_Inr split: if_splits)
      then show ?thesis using ok2 rbdc_ok vbdc_ok fca_ok by blast
    qed (use run c1 c2 \<open>b1\<close> ok2 in \<open>simp add: dm_computeTerminalsAllocations_def\<close>)
  qed (use run c1 ok1 in \<open>simp add: dm_computeTerminalsAllocations_def\<close>)
qed

lemma superframe_ok:
  assumes "dm_runOnSuperFrameChange sf c = Inr (b, c')" "dm_ok c"
  shows "dm_ok c'"
proof -
  obtain c1 b2 where c1: "dm_resetCarriersCapacity (c\<lparr>dm_superframe := sf\<rparr>) = Inr c1"
    and run: "dm_computeTerminalsAllocations (dm_updateWaveForms c1) = Inr (b2, c')"
    using assms(1) by (auto simp: dm_runOnSuperFrameChange_def res_bind_Inr)
  show ?thesis using allocations_ok [OF run kept_ok [OF waveforms_kept capacity_reset_ok [OF c1]]] assms(2) by simp
qed


section \<open>The life of the controller\<close>

text \<open>The states that the events reach, in any order, as long as no handler goes through a bad pointer.\<close>

inductive dama_reach :: "dama_ctrl \<Rightarrow> dama_ctrl \<Rightarrow> bool" for c0 where
  start: "dama_reach c0 c0"
| logon: "dama_reach c0 c \<Longrightarrow> dm_hereIsLogon junk r c = Inr (b, c') \<Longrightarrow> dama_reach c0 c'"
| logoff: "dama_reach c0 c \<Longrightarrow> dm_hereIsLogoff i c = (b, c') \<Longrightarrow> dama_reach c0 c'"
| sac: "dama_reach c0 c \<Longrightarrow> dm_hereIsSAC gw i rs c = Inr (b, c') \<Longrightarrow> dama_reach c0 c'"
| pep: "dama_reach c0 c \<Longrightarrow> dm_applyPepCommand p c = Inr (b, c') \<Longrightarrow> dama_reach c0 c'"
| fmts: "dama_reach c0 c \<Longrightarrow> dm_updateRequiredFmts c sts = (c', sts') \<Longrightarrow> dama_reach c0 c'"
| superframe: "dama_reach c0 c \<Longrightarrow> dm_runOnSuperFrameChange sf c = Inr (b, c') \<Longrightarrow> dama_reach c0 c'"

text \<open>The controller as the configuration leaves it: categories without terminals.\<close>

definition configured :: "dama_ctrl \<Rightarrow> bool" where
  "configured c \<longleftrightarrow> dm_terminals c = [] \<and> om_wf (dm_categories c)
     \<and> (\<forall>(l, cat) \<in> set (dm_categories c). dc_label cat = l \<and> dc_terminals cat = []
          \<and> distinct (map dg_carriers_id (dc_groups cat)))"

lemma configured_ok:
  assumes "configured c"
  shows "dm_ok c"
proof -
  have l: "listed c = []" unfolding listed_def concat_eq_Nil_conv using assms by (auto simp: configured_def)
  show ?thesis using assms by (auto simp: configured_def dm_ok_def dm_wf_def l)
qed

lemma reach_ok: "dama_reach c0 c \<Longrightarrow> configured c0 \<Longrightarrow> dm_ok c"
  by (induction rule: dama_reach.induct)
    (auto intro: configured_ok logon_ok logoff_ok(1) kept_ok [OF sac_kept] kept_ok [OF pep_kept] kept_ok [OF fmts_kept] superframe_ok)

lemma plans_terminals:
  assumes "dm_plans l c = Inr ps" "\<And>i t. om_find (dm_terminals c) i = Some t \<Longrightarrow> dt_id t = i"
  shows "map tp_tal ps = l"
  using assms by (induction l arbitrary: ps) (auto simp: res_bind_Inr dm_term_Inr dm_time_plan_def)

lemma listed_registered:
  assumes "dm_ok c"
  shows "set (listed c) = registered c"
proof
  show "registered c \<subseteq> set (listed c)"
  proof
    fix i assume "i \<in> registered c"
    then obtain t where "om_find (dm_terminals c) i = Some t" by (auto simp: registered_def)
    then obtain l cat where "om_find (dm_categories c) l = Some cat" "i \<in> set (dc_terminals cat)"
      using assms unfolding dm_ok_def in_category_def by blast
    then show "i \<in> set (listed c)" using ok_cat(3) [OF assms] by blast
  qed
qed (use assms in \<open>simp add: dm_ok_def dm_wf_def\<close>)

text \<open>C12: Whatever the sequence of logons, logoffs, capacity requests, PEP commands, MODCOD updates and
  superframes, the registers of the DAMA controller stay consistent: the lists of the categories together
  name every registered terminal exactly once, a logoff of a registered terminal succeeds and
  removes it, and the burst time plan has exactly one entry per registered terminal, in the order of
  the categories.\<close>

theorem dama_registers_consistent:
  assumes "configured c0" "dama_reach c0 c"
  shows "distinct (listed c) \<and> set (listed c) = registered c
    \<and> (\<forall>i \<in> registered c. \<exists>c'. dm_hereIsLogoff i c = (True, c') \<and> i \<notin> registered c')
    \<and> (\<forall>ps. dm_buildTTP c = Inr ps \<longrightarrow> map tp_tal ps = listed c)"
proof -
  have ok: "dm_ok c" by (rule reach_ok [OF assms(2,1)])
  have "\<exists>c'. dm_hereIsLogoff i c = (True, c') \<and> i \<notin> registered c'" if "i \<in> registered c" for i
  proof -
    obtain b c' where r: "dm_hereIsLogoff i c = (b, c')" by fastforce
    then show ?thesis using logoff_ok(2) [OF ok r that] logoff_ok(3) [OF ok r] by auto
  qed
  moreover have "map tp_tal ps = listed c" if "dm_buildTTP c = Inr ps" for ps
    using that ok by (auto simp: dm_buildTTP_def dm_ok_def in_category_def simp flip: listed_def intro: plans_terminals)
  ultimately show ?thesis using ok listed_registered [OF ok] by (simp add: dm_ok_def dm_wf_def)
qed

text \<open>Two terminals log on, one logs off.\<close>

definition fresh_ctrl :: dama_ctrl where
  "fresh_ctrl = (demo_ctrl 53 [] 20000)\<lparr>dm_default := Some ''S''\<rparr>"

definition logon_of :: "tal_id_t \<Rightarrow> logon_req" where
  "logon_of i = \<lparr>lr_mac = i, lr_rt_bandwidth = 0, lr_max_rbdc = 1000, lr_max_vbdc = 100\<rparr>"

definition one_on :: dama_ctrl where
  "one_on = snd (the_res (True, fresh_ctrl) (dm_hereIsLogon 0 (logon_of 1) fresh_ctrl))"

definition two_on :: dama_ctrl where
  "two_on = snd (the_res (True, fresh_ctrl) (dm_hereIsLogon 0 (logon_of 2) one_on))"

lemma logons_run: "ran (dm_hereIsLogon 0 (logon_of 1) fresh_ctrl)" "ran (dm_hereIsLogon 0 (logon_of 2) one_on)"
  by code_simp+

lemma dama_registers_consistent_witness:
  "listed two_on = [1, 2] \<and> registered two_on = {1, 2} \<and> (\<exists>c'. dm_hereIsLogoff 1 two_on = (True, c') \<and> 1 \<notin> registered c')"
proof -
  obtain b where b: "dm_hereIsLogon 0 (logon_of 1) fresh_ctrl = Inr (b, one_on)"
    using the_res_pair [OF logons_run(1)] unfolding one_on_def by blast
  obtain b' where b': "dm_hereIsLogon 0 (logon_of 2) one_on = Inr (b', two_on)"
    using the_res_pair [OF logons_run(2)] unfolding two_on_def by blast
  have reach: "dama_reach fresh_ctrl two_on"
    by (rule dama_reach.logon [OF dama_reach.logon [OF dama_reach.start b] b'])
  have "configured fresh_ctrl" by (simp add: configured_def fresh_ctrl_def demo_ctrl_def om_wf_def)
  moreover have l: "listed two_on = [1, 2]" by code_simp
  ultimately have r: "set (listed two_on) = registered two_on"
    "\<forall>i \<in> registered two_on. \<exists>c'. dm_hereIsLogoff i two_on = (True, c') \<and> i \<notin> registered c'"
    using dama_registers_consistent [OF _ reach] by auto
  then have "registered two_on = {1, 2}" using l by simp
  with r(2) l show ?thesis by simp
qed


section \<open>The RBDC timer\<close>

lemma reset_terms_find:
  assumes "reset_terms ts uc = Inr (b, uc', ts')" "om_find ts i = Some t"
  shows "\<exists>uc1 b1 uc2 t'. reset_term uc1 t = Inr (b1, uc2, t') \<and> om_find ts' i = Some t'"
  using assms
proof (induction ts arbitrary: uc b ts')
  case (Cons p ts)
  then show ?case by (cases p) (fastforce simp: res_bind_Inr split: if_splits)
qed simp

text \<open>The time-out of an RBDC request does not end it. When the timer of a terminal has run out, the start
  of a superframe leaves its request as it was and its timer at 0, so that the terminal is served
  the same RBDC in every superframe until it sends another request: nothing in the controller reads the
  timer but to refresh the credit.\<close>

theorem rbdc_request_never_expires:
  assumes "dm_resetTerminalsAllocations c = Inr (b, c')" "om_find (dm_terminals c) i = Some t" "dt_timer t \<le> 1"
  shows "\<exists>t'. om_find (dm_terminals c') i = Some t' \<and> dt_rbdc_req t' = dt_rbdc_req t \<and> dt_timer t' = 0"
proof -
  obtain uc1 b1 uc2 t' where t': "reset_term uc1 t = Inr (b1, uc2, t')" "om_find (dm_terminals c') i = Some t'"
    using assms(1,2) reset_terms_find by (fastforce simp: dm_resetTerminalsAllocations_def res_bind_Inr)
  consider "dt_timer t = 0" | "dt_timer t = 1"
    using assms(3) by (simp add: word_le_nat_alt word_unat_eq_iff) linarith
  then have "dt_rbdc_req t' = dt_rbdc_req t \<and> dt_timer t' = 0"
    using t'(1) by cases (auto simp: reset_term_def Let_def dt_decrementTimer_def dt_setFcaAllocation_def
        dt_setVbdcAllocation_def dt_setRbdcAllocation_def dt_setCraAllocation_def)
  then show ?thesis using t'(2) by blast
qed

definition expired_ctrl :: dama_ctrl where
  "expired_ctrl = demo_ctrl 53 [(demo_term 1 0 400)\<lparr>dt_timer := 1\<rparr>] 20000"

lemma rbdc_request_never_expires_witness:
  "\<exists>b c' t'. dm_resetTerminalsAllocations expired_ctrl = Inr (b, c') \<and> om_find (dm_terminals c') 1 = Some t'
    \<and> dt_rbdc_req t' = 400 \<and> dt_timer t' = 0"
proof -
  have "ran (dm_resetTerminalsAllocations expired_ctrl)" by code_simp
  then obtain b c' where r: "dm_resetTerminalsAllocations expired_ctrl = Inr (b, c')"
    by (cases "dm_resetTerminalsAllocations expired_ctrl") (auto simp: ran_def)
  have t: "om_find (dm_terminals expired_ctrl) 1 = Some ((demo_term 1 0 400)\<lparr>dt_timer := 1\<rparr>)"
    by (simp add: expired_ctrl_def demo_ctrl_def demo_term_def new_dama_term_def)
  then show ?thesis using rbdc_request_never_expires [OF r t] r by (auto simp: demo_term_def)
qed

end
