(* ===== verification/DvbRcs.thy ===== *)
theory DvbRcs
  imports SalohaFrame DvbFifo EncapPlugin DamaTerminal
begin

text \<open>
  The DVB-RCS frames and what fills and empties them: \<open>dvb/utils/DvbRcsFrame.cpp\<close>; the schedulers of the return
  link at the terminal (\<open>dvb/dama/ReturnSchedulingRcsCommon.cpp\<close>, \<open>ReturnSchedulingRcs.cpp\<close>) and of the uplink at
  the gateway (\<open>UplinkSchedulingRcsCommon.cpp\<close>, \<open>UplinkSchedulingRcs.cpp\<close>); the reception
  (\<open>dvb/core/DvbRcsStd.cpp\<close>) with the switch of the satellite (\<open>dvb/switch/GenericSwitch.cpp\<close>). Offsets of
  \<open>T_DVB_ENCAP_BURST\<close>: \<open>msg_length\<close> 0, \<open>msg_type\<close> 2, \<open>qty_element\<close> 3, \<open>modcod\<close> 5. The FIFOs hold packets, never
  null pointers.
\<close>

section \<open>Frames\<close>

definition MSG_DVB_RCS_SIZE_MAX :: nat where "MSG_DVB_RCS_SIZE_MAX = 1200 + 4"
definition MSG_TYPE_DVB_BURST :: u8 where "MSG_TYPE_DVB_BURST = 12"
definition sizeof_ENCAP_BURST :: nat where "sizeof_ENCAP_BURST = 6"

definition rcs_put_qty :: "u16 \<Rightarrow> dvb_frame \<Rightarrow> dvb_frame" where
  "rcs_put_qty n f = f\<lparr>df_data := put_at (df_data f) 3 (be16 n)\<rparr>"

definition new_rcs_frame :: dvb_frame where
  "new_rcs_frame = rcs_put_qty 0 (df_setMessageType MSG_TYPE_DVB_BURST (df_setMessageLength (of_nat sizeof_ENCAP_BURST)
     (df_setMaxSize MSG_DVB_RCS_SIZE_MAX
       \<lparr>df_data = replicate sizeof_ENCAP_BURST 0, df_name = ''DVB-RCS frame'', df_header_length = sizeof_ENCAP_BURST,
        df_trailer_length = 0, df_spot = 255, df_max_size = sizeof_ENCAP_BURST, df_num_packets = 0, df_carrier_id = 0\<rparr>)))"

definition rcs_addPacket :: "net_packet \<Rightarrow> dvb_frame \<Rightarrow> bool \<times> dvb_frame" where
  "rcs_addPacket p f =
     (let (added, f') = df_addPacket (nc_getTotalLength p) (np_data p) f
      in if \<not> added then (False, f')
         else (True, rcs_put_qty (df_num_packets f')
                (df_setMessageLength (of_nat (unat (df_getMessageLength f') + nc_getTotalLength p)) f')))"

definition rcs_empty :: "dvb_frame \<Rightarrow> dvb_frame res" where
  "rcs_empty f = (if length (df_data f) < sizeof_ENCAP_BURST then Inl OutOfRange
     else Inr (rcs_put_qty 0 (df_setMessageLength (of_nat sizeof_ENCAP_BURST)
            (f\<lparr>df_data := take sizeof_ENCAP_BURST (df_data f), df_num_packets := 0\<rparr>))))"

definition rcs_getNumPackets :: "dvb_frame \<Rightarrow> u16" where
  "rcs_getNumPackets f = rd16 (df_data f) 3"

definition rcs_setModcodId :: "u8 \<Rightarrow> dvb_frame \<Rightarrow> dvb_frame" where
  "rcs_setModcodId m f = f\<lparr>df_data := put_at (df_data f) 5 [m]\<rparr>"

definition rcs_getModcodId :: "dvb_frame \<Rightarrow> u8" where
  "rcs_getModcodId f = byte_at (df_data f) 5"

text \<open>The frame both schedulers start: \<open>allocateDvbRcsFrame\<close>, and \<open>createIncompleteDvbRcsFrame\<close> without the MODCOD.\<close>

definition rcs_allocate :: "u32 \<Rightarrow> dvb_frame option" where
  "rcs_allocate max_burst_length_b =
     (let length_bytes = drop_bit 3 max_burst_length_b
      in if length_bytes \<le> 0 then None
         else let n = unat (length_bytes + of_nat (df_header_length new_rcs_frame))
              in Some (df_setMaxSize (if MSG_DVB_RCS_SIZE_MAX < n then MSG_DVB_RCS_SIZE_MAX else n) new_rcs_frame))"

section \<open>The return link of a terminal\<close>

type_synonym rcs_fifos = "(u8, net_packet dvb_fifo) omap"

text \<open>
  The loop of \<open>macSchedule\<close>: the frame under construction, the frames complete, the bits in the frame, the
  allocation left and the value to return.
\<close>

record rs =
  rs_frame :: dvb_frame
  rs_complete :: "dvb_frame list"
  rs_length :: u32
  rs_remaining :: u32
  rs_ret :: bool

text \<open>\<open>(vol_b_t)max((int)(remaining_allocation_b - frame_length_b), 0)\<close>\<close>

definition rs_spend :: "rs \<Rightarrow> u32" where
  "rs_spend s = of_int (max (sint (rs_remaining s - rs_length s)) 0)"

text \<open>A full frame that holds packets is completed and another one started; false when there is no other one.\<close>

definition rs_room :: "u32 \<Rightarrow> nat \<Rightarrow> rs \<Rightarrow> bool \<times> rs" where
  "rs_room max_burst_length_b len s =
     (if df_getFreeSpace (rs_frame s) < len \<and> 0 < rcs_getNumPackets (rs_frame s)
      then let s1 = s\<lparr>rs_complete := rs_complete s @ [rs_frame s], rs_remaining := rs_spend s\<rparr>
           in case rcs_allocate max_burst_length_b of
                None \<Rightarrow> (False, s1)
              | Some f \<Rightarrow> (True, s1\<lparr>rs_frame := f, rs_length := 0\<rparr>)
      else (True, s))"

lemma fifo_pop_shorter: "fifo_pop len f = (Some e, f') \<Longrightarrow> length (fi_queue f') < length (fi_queue f)"
  by (auto simp: fifo_pop_def Let_def split: list.splits)

definition fifos_size :: "rcs_fifos \<Rightarrow> nat" where
  "fifos_size fs = (\<Sum>(q, f) \<leftarrow> fs. length (fi_queue f) + 1)"

lemma fifos_size_simps [simp]: "fifos_size [] = 0" "fifos_size ((q, f) # fs) = length (fi_queue f) + 1 + fifos_size fs"
  by (simp_all add: fifos_size_def)

function rs_loop :: "u32 \<Rightarrow> rcs_fifos \<Rightarrow> rs \<Rightarrow> (bool \<times> rs \<times> rcs_fifos) res" where
  "rs_loop mb [] s = Inr (True, s, [])"
| "rs_loop mb ((q, f) # fs) s =
     (if rs_remaining s = 0 then Inr (True, s, (q, f) # fs)
      else if fifo_getCurrentSize f \<le> 0 \<or> fi_access_type f = access_saloha
      then res_bind (rs_loop mb fs s) (\<lambda>(ok, s', fs'). Inr (ok, s', (q, f) # fs'))
      else case fifo_pop nc_getTotalLength f of
             (None, f') \<Rightarrow> Inl NullDeref
           | (Some elem, f') \<Rightarrow>
               let p = fe_elem elem; len = nc_getTotalLength p; length_b = (of_nat (len * 8) :: u32)
               in case rs_room mb len s of
                    (ok, s1) \<Rightarrow>
                      if \<not> ok then Inr (False, s1, (q, f') # fs)
                      else if df_getFreeSpace (rs_frame s1) < len then rs_loop mb ((q, f') # fs) s1
                      else if rs_remaining s1 < rs_length s1 + length_b
                      then Inr (True, s1, (q, snd (fifo_pushFront nc_getTotalLength (fe_setElem p elem) f')) # fs)
                      else let (added, g) = rcs_addPacket p (rs_frame s1)
                           in if \<not> added then rs_loop mb ((q, f') # fs) (s1\<lparr>rs_ret := False\<rparr>)
                              else rs_loop mb ((q, f') # fs)
                                     (s1\<lparr>rs_frame := g, rs_length := rs_length s1 + length_b\<rparr>))"
  by pat_completeness auto
termination
  by (relation "measure (\<lambda>(mb, fs, s). fifos_size fs)") (auto dest: sym dest!: fifo_pop_shorter)

text \<open>The result: the value returned, the frames added to the list, the allocation left and the FIFOs.\<close>

definition rs_macSchedule :: "u32 \<Rightarrow> u32 \<Rightarrow> rcs_fifos \<Rightarrow> (bool \<times> dvb_frame list \<times> u32 \<times> rcs_fifos) res" where
  "rs_macSchedule mb remaining fifos =
     (case rcs_allocate mb of
        None \<Rightarrow> Inr (False, [], remaining, fifos)
      | Some f \<Rightarrow>
          res_bind (rs_loop mb fifos \<lparr>rs_frame = f, rs_complete = [], rs_length = 0, rs_remaining = remaining, rs_ret = True\<rparr>)
            (\<lambda>(ok, s, fifos').
               if \<not> ok then Inr (False, rs_complete s, rs_remaining s, fifos')
               else if 0 < rcs_getNumPackets (rs_frame s)
               then Inr (rs_ret s, rs_complete s @ [rs_frame s], rs_spend s, fifos')
               else Inr (rs_ret s, rs_complete s, rs_remaining s, fifos')))"

definition rs_schedule :: "u32 \<Rightarrow> u32 \<Rightarrow> rcs_fifos \<Rightarrow> (bool \<times> dvb_frame list \<times> u32 \<times> rcs_fifos) res" where
  "rs_schedule mb remaining fifos =
     (if mb \<le> 0 then Inr (True, [], remaining, fifos) else rs_macSchedule mb remaining fifos)"

section \<open>The uplink of the gateway\<close>

record us =
  us_frame :: dvb_frame
  us_complete :: "dvb_frame list"
  us_capacity :: vol_pkt_t

text \<open>
  The loop of \<open>scheduleEncapPackets\<close>, whose condition is on the size of the FIFO; \<open>now\<close> is the current time,
  \<open>create\<close> the new frame of \<open>createIncompleteDvbRcsFrame\<close>. False is the exit through \<open>error\<close>.
\<close>

function us_loop :: "int \<Rightarrow> dvb_frame option \<Rightarrow> net_packet dvb_fifo \<Rightarrow> us \<Rightarrow> (bool \<times> us \<times> net_packet dvb_fifo) res" where
  "us_loop now create f s =
     (if \<not> 0 < fifo_getCurrentSize f \<or> \<not> 0 < us_capacity s then Inr (True, s, f)
      else if now < fifo_getTickOut f then Inr (True, s, f)
      else case fifo_pop nc_getTotalLength f of
             (None, f') \<Rightarrow> Inl NullDeref
           | (Some elem, f') \<Rightarrow>
               let p = fe_elem elem; len = nc_getTotalLength p; full = df_getFreeSpace (us_frame s) < len
               in case (if full then create else Some (us_frame s)) of
                    None \<Rightarrow> Inr (False, s\<lparr>us_complete := us_complete s @ [us_frame s]\<rparr>, f')
                  | Some g \<Rightarrow>
                      let s1 = (if full then s\<lparr>us_complete := us_complete s @ [us_frame s], us_frame := g\<rparr> else s)
                      in if full \<and> df_getFreeSpace g < len then Inr (False, s1, f')
                         else let (added, h) = rcs_addPacket p (us_frame s1)
                              in if \<not> added then Inr (False, s1, f')
                                 else us_loop now create f' (s1\<lparr>us_frame := h, us_capacity := us_capacity s1 - 1\<rparr>))"
  by pat_completeness auto
termination
  by (relation "measure (\<lambda>(now, create, f, s). length (fi_queue f))") (auto dest: sym dest!: fifo_pop_shorter)

definition us_createIncompleteDvbRcsFrame :: "unit_converter \<Rightarrow> u8 \<Rightarrow> dvb_frame option" where
  "us_createIncompleteDvbRcsFrame uc modcod_id =
     map_option (rcs_setModcodId modcod_id) (rcs_allocate (uc_getPacketBitLength uc))"

text \<open>The capacity of the carriers group is written back only at the end of the loop.\<close>

definition us_scheduleEncapPackets ::
    "int \<Rightarrow> unit_converter \<Rightarrow> u8 \<Rightarrow> net_packet dvb_fifo \<Rightarrow> dama_group \<Rightarrow> dvb_frame list
      \<Rightarrow> (bool \<times> net_packet dvb_fifo \<times> dama_group \<times> dvb_frame list) res" where
  "us_scheduleEncapPackets now uc modcod_id f g frames =
     (if fifo_getCurrentSize f \<le> 0 then Inr (True, f, g, frames)
      else case us_createIncompleteDvbRcsFrame uc modcod_id of
             None \<Rightarrow> Inr (False, f, g, frames)
           | Some frame \<Rightarrow>
               res_bind (us_loop now (us_createIncompleteDvbRcsFrame uc modcod_id) f
                           \<lparr>us_frame = frame, us_complete = frames, us_capacity = ucast (dg_remaining g)\<rparr>)
                 (\<lambda>(ok, s, f').
                    if \<not> ok then Inr (False, f', g, us_complete s)
                    else Inr (True, f', dg_setRemainingCapacity (ucast (us_capacity s)) g,
                      us_complete s @ (if 0 < rcs_getNumPackets (us_frame s) then [us_frame s] else []))))"

text \<open>The lowest MODCOD of the category, as the constructor finds it.\<close>

definition us_lowest_modcod :: "fmt_table \<Rightarrow> dama_group list \<Rightarrow> u8 res" where
  "us_lowest_modcod tb gs =
     res_fold (\<lambda>g low. res_bind (dg_front_fmt g) (\<lambda>i. Inr (if i < low then ucast i else low))) gs (ucast (ft_getMaxId tb))"

record uplink =
  ul_table :: fmt_table
  ul_converter :: unit_converter
  ul_lowest :: u8
  ul_groups :: "dama_group list"
  ul_fifos :: rcs_fifos

definition us_init :: "uplink \<Rightarrow> uplink" where
  "us_init u = u\<lparr>ul_converter := uc_setModulationEfficiency (ft_getModulationEfficiency (ul_table u) (ul_lowest u)) (ul_converter u)\<rparr>"

text \<open>The capacity of one group of carriers at the start of the superframe, with its MODCOD.\<close>

definition us_capacity_of :: "u8 \<Rightarrow> uplink \<Rightarrow> dama_group \<Rightarrow> (dama_group \<times> u8 \<times> unit_converter) res" where
  "us_capacity_of desired u g =
     (let m = (ucast (dg_getNearestFmtId (ul_table u) (ucast desired) g) :: u8) in
      res_bind (dg_front_fmt g) (\<lambda>front.
        if m = 0 \<and> ucast (ul_lowest u) \<noteq> front
        then Inr (dg_setRemainingCapacity 0 g, m, ul_converter u)
        else let m' = (if m = 0 then ul_lowest u else m);
                 uc = uc_setModulationEfficiency (ft_getModulationEfficiency (ul_table u) m') (ul_converter u)
             in res_bind (ft_symToKbits (ul_table u) m' (dg_getTotalCapacity g)) (\<lambda>kb.
                res_bind (uc_kbitsToPkt uc kb) (\<lambda>pkt. Inr (dg_setRemainingCapacity (ucast pkt) g, m', uc)))))"

text \<open>
  \<open>carriers_modcod\<close> maps the identifier of a group to its MODCOD: for groups that share one, the last counts.
\<close>

fun us_capacities :: "u8 \<Rightarrow> uplink \<Rightarrow> dama_group list \<Rightarrow> (u32, u8) omap
    \<Rightarrow> (dama_group list \<times> (u32, u8) omap \<times> unit_converter) res" where
  "us_capacities desired u [] m = Inr ([], m, ul_converter u)"
| "us_capacities desired u (g # gs) m =
     res_bind (us_capacity_of desired u g) (\<lambda>(g', i, uc).
     res_bind (us_capacities desired (u\<lparr>ul_converter := uc\<rparr>) gs (om_put (dg_carriers_id g) i m)) (\<lambda>(gs', m', uc').
       Inr (g' # gs', m', uc')))"

text \<open>One FIFO over all the groups.\<close>

fun us_schedule_fifo :: "int \<Rightarrow> fmt_table \<Rightarrow> (u32, u8) omap \<Rightarrow> dama_group list \<Rightarrow> net_packet dvb_fifo \<times> dvb_frame list \<times> unit_converter
    \<Rightarrow> (bool \<times> dama_group list \<times> net_packet dvb_fifo \<times> dvb_frame list \<times> unit_converter) res" where
  "us_schedule_fifo now tb m [] (f, frames, uc) = Inr (True, [], f, frames, uc)"
| "us_schedule_fifo now tb m (g # gs) (f, frames, uc) =
     (let i = fst (om_at 0 m (dg_carriers_id g)); uc1 = uc_setModulationEfficiency (ft_getModulationEfficiency tb i) uc in
      res_bind (us_scheduleEncapPackets now uc1 i f g frames) (\<lambda>(ok, f', g', frames').
        if \<not> ok then Inr (False, g' # gs, f', frames', uc1)
        else res_bind (us_schedule_fifo now tb m gs (f', frames', uc1)) (\<lambda>(ok', gs', s).
               Inr (ok', g' # gs', s))))"

fun us_schedule_fifos :: "int \<Rightarrow> fmt_table \<Rightarrow> (u32, u8) omap \<Rightarrow> rcs_fifos \<Rightarrow> dama_group list \<times> dvb_frame list \<times> unit_converter
    \<Rightarrow> (bool \<times> rcs_fifos \<times> dama_group list \<times> dvb_frame list \<times> unit_converter) res" where
  "us_schedule_fifos now tb m [] s = Inr (True, [], s)"
| "us_schedule_fifos now tb m ((q, f) # fs) (gs, frames, uc) =
     res_bind (us_schedule_fifo now tb m gs (f, frames, uc)) (\<lambda>(ok, gs', f', frames', uc').
       if \<not> ok then Inr (False, (q, f') # fs, gs', frames', uc')
       else res_bind (us_schedule_fifos now tb m fs (gs', frames', uc')) (\<lambda>(ok', fs', s). Inr (ok', (q, f') # fs', s)))"

text \<open>\<open>desired\<close> is \<open>getCurrentModcodId(gw_id)\<close>.\<close>

definition us_schedule :: "int \<Rightarrow> u8 \<Rightarrow> uplink \<Rightarrow> dvb_frame list \<Rightarrow> (bool \<times> uplink \<times> dvb_frame list) res" where
  "us_schedule now desired u frames =
     res_bind (us_capacities desired u (ul_groups u) []) (\<lambda>(gs, m, uc).
     res_bind (us_schedule_fifos now (ul_table u) m (ul_fifos u) (gs, frames, uc)) (\<lambda>(ok, fs, gs', frames', uc').
       Inr (ok, u\<lparr>ul_fifos := fs, ul_groups := gs', ul_converter := uc'\<rparr>, frames')))"

section \<open>The switch of the satellite\<close>

record generic_switch =
  gs_table :: "(tal_id_t, spot_id_t) omap"
  gs_default :: spot_id_t

definition new_generic_switch :: generic_switch where
  "new_generic_switch = \<lparr>gs_table = [], gs_default = 0\<rparr>"

definition gs_add :: "tal_id_t \<Rightarrow> spot_id_t \<Rightarrow> generic_switch \<Rightarrow> bool \<times> generic_switch" where
  "gs_add tal_id spot_id g =
     (True, if om_find (gs_table g) tal_id = None then g\<lparr>gs_table := om_put tal_id spot_id (gs_table g)\<rparr> else g)"

definition gs_setDefault :: "spot_id_t \<Rightarrow> generic_switch \<Rightarrow> generic_switch" where
  "gs_setDefault spot_id g = g\<lparr>gs_default := spot_id\<rparr>"

text \<open>\<open>is_gw\<close> is \<open>OpenSandConf::isGw\<close>.\<close>

definition gs_find :: "(tal_id_t \<Rightarrow> bool) \<Rightarrow> net_packet option \<Rightarrow> generic_switch \<Rightarrow> spot_id_t" where
  "gs_find is_gw packet g =
     (case packet of
        None \<Rightarrow> 0
      | Some p \<Rightarrow>
          let dst = ucast (np_dst_tal_id p); tal_id = (if is_gw dst then ucast (np_src_tal_id p) else dst)
          in case om_find (gs_table g) tal_id of Some s \<Rightarrow> s | None \<Rightarrow> gs_default g)"

section \<open>Reception\<close>

record rcs_std =
  st_fixed :: bool
  st_fixed_length :: nat       \<comment> \<open>\<open>getFixedLength\<close> of the packet handler\<close>
  st_handler :: "encap_hdl option"
  st_switch :: "generic_switch option"

text \<open>One packet of the frame goes to the burst, or is dropped when the switch gives no spot.\<close>

definition rcs_std_add :: "(tal_id_t \<Rightarrow> bool) \<Rightarrow> rcs_std \<Rightarrow> net_packet \<Rightarrow> net_burst \<Rightarrow> net_burst" where
  "rcs_std_add is_gw st p b =
     (case st_switch st of
        None \<Rightarrow> snd (nb_add (Some p) b)
      | Some g \<Rightarrow>
          let spot_id = gs_find is_gw (Some p) g
          in if spot_id = 0 then b else snd (nb_add (Some (p\<lparr>np_spot := spot_id\<rparr>)) b))"

text \<open>The value returned and \<open>*burst\<close>, null where the code leaves it as it was.\<close>

definition rcs_std_onRcvFrame ::
    "(tal_id_t \<Rightarrow> bool) \<Rightarrow> rcs_std \<Rightarrow> dvb_frame option \<Rightarrow> (bool \<times> net_burst option) res" where
  "rcs_std_onRcvFrame is_gw st frame =
     (case (frame, st_handler st) of
        (Some f0, Some h) \<Rightarrow>
          if df_getMessageType f0 \<noteq> MSG_TYPE_DVB_BURST then Inr (False, None)
          else let f = f0\<lparr>df_header_length := sizeof_ENCAP_BURST\<rparr>
          in if df_isCorrupted f \<or> rcs_getNumPackets f \<le> 0 then Inr (True, None)
          else if st_fixed st \<and> st_fixed_length st = 0 then Inr (False, None)
          else res_bind (getEncapsulatedPackets h (df_getPayload_from f) (unat (rcs_getNumPackets f)) []) (\<lambda>(ok, ps).
                 Inr (if \<not> ok then (False, None) else (True, Some (fold (rcs_std_add is_gw st) ps (new_net_burst 0)))))
      | _ \<Rightarrow> Inr (False, None))"

end
