(* ===== verification/RcsReturn.thy ===== *)
theory RcsReturn
  imports DvbRcs
begin

text \<open>
  The return link scheduler of DVB-RCS refines a greedy server: over the FIFOs in the order of their priorities,
  Slotted Aloha ones left out, it sends packet after packet while the allocation lasts, and stops at the first
  that does not fit. The frames it fills are the packets sent, cut into groups that fit a burst.
\<close>

section \<open>Frames\<close>

text \<open>The bytes of a frame are those of \<open>saf_bytes\<close> with the MODCOD behind the header.\<close>

definition rcs_holds :: "nat \<Rightarrow> u8 \<Rightarrow> data list \<Rightarrow> dvb_frame \<Rightarrow> bool" where
  "rcs_holds M m bs f \<longleftrightarrow>
     df_data f = saf_bytes MSG_TYPE_DVB_BURST (of_nat (length bs)) (of_nat (6 + length (concat bs))) (m # concat bs)
     \<and> df_num_packets f = of_nat (length bs) \<and> [] \<notin> set bs \<and> 6 + length (concat bs) \<le> M \<and> M \<le> MSG_DVB_RCS_SIZE_MAX
     \<and> df_max_size f = M \<and> df_header_length f = 6 \<and> df_trailer_length f = 0"

lemma length_concat_ge: "[] \<notin> set bs \<Longrightarrow> length bs \<le> length (concat bs)"
proof (induction bs)
  case (Cons b bs)
  then have "0 < length b" "length bs \<le> length (concat bs)" by auto
  moreover have "length (b # bs) = 1 + length bs" "length (concat (b # bs)) = length b + length (concat bs)" by simp_all
  ultimately show ?case by linarith
qed simp

lemma new_rcs_frame_data: "df_data new_rcs_frame = saf_bytes MSG_TYPE_DVB_BURST 0 6 [0]"
proof -
  have "replicate (Suc (Suc (Suc (Suc (Suc (Suc 0)))))) 0 = saf_bytes 0 0 0 [0]"
    by (simp add: saf_bytes_def be16_def)
  then have z: "replicate 6 0 = saf_bytes 0 0 0 [0]" by (simp only: eval_nat_numeral BitM.simps)
  show ?thesis
    by (simp add: new_rcs_frame_def rcs_put_qty_def df_setMessageType_def df_setMessageLength_def df_setMaxSize_def
        sizeof_ENCAP_BURST_def z saf_bytes_simps MSG_TYPE_DVB_BURST_def)
qed

lemma new_rcs_frame_simps:
  "df_num_packets new_rcs_frame = 0" "df_header_length new_rcs_frame = 6" "df_trailer_length new_rcs_frame = 0"
  by (simp_all add: new_rcs_frame_def rcs_put_qty_def df_setMessageType_def df_setMessageLength_def df_setMaxSize_def
      sizeof_ENCAP_BURST_def)

definition burst_max :: "u32 \<Rightarrow> nat" where
  "burst_max mb = min MSG_DVB_RCS_SIZE_MAX (unat mb div 8 + 6)"

lemma rcs_allocate_holds:
  assumes "8 \<le> unat mb"
  obtains f where "rcs_allocate mb = Some f" "rcs_holds (burst_max mb) 0 [] f"
proof -
  have d: "unat (drop_bit 3 mb) = unat mb div 8" by (simp add: drop_bit_eq_div unat_div_distrib)
  have "unat mb div 8 + 6 < 4294967296" using unat_u32_less [of mb] by simp
  moreover have "drop_bit 3 mb + 6 = of_nat (unat mb div 8 + 6)" by (simp add: d [symmetric])
  ultimately have n: "unat (drop_bit 3 mb + 6) = unat mb div 8 + 6" by (simp only: u32_of_nat_id)
  have nz: "\<not> drop_bit 3 mb \<le> 0" using d assms by (simp add: word_le_nat_alt div_eq_0_iff)
  have "rcs_allocate mb = Some (df_setMaxSize (burst_max mb) new_rcs_frame)"
    using nz n by (simp add: rcs_allocate_def Let_def new_rcs_frame_simps burst_max_def min_def not_less [symmetric])
  moreover have "rcs_holds (burst_max mb) 0 [] (df_setMaxSize (burst_max mb) new_rcs_frame)"
    using assms by (simp add: rcs_holds_def df_setMaxSize_def new_rcs_frame_simps new_rcs_frame_data burst_max_def
        MSG_DVB_RCS_SIZE_MAX_def)
  ultimately show ?thesis using that by blast
qed

lemma rcs_holds_space:
  assumes "rcs_holds M m bs f"
  shows "df_getFreeSpace f = M - (6 + length (concat bs))" "rcs_getNumPackets f = of_nat (length bs)"
    "length bs < 2000" "length (concat bs) < 2000"
proof -
  note h = assms [unfolded rcs_holds_def]
  show "df_getFreeSpace f = M - (6 + length (concat bs))"
    using h by (simp add: df_getFreeSpace_def df_getTotalLength_def saf_bytes_simps size_sub_def)
  show "rcs_getNumPackets f = of_nat (length bs)" using h by (simp add: rcs_getNumPackets_def saf_bytes_simps)
  show "length (concat bs) < 2000" using h by (simp add: MSG_DVB_RCS_SIZE_MAX_def)
  then show "length bs < 2000" using length_concat_ge [of bs] h by linarith
qed

lemma rcs_addPacket_holds:
  assumes "rcs_holds M m bs f" "np_data p \<noteq> []" "6 + length (concat bs) + nc_getTotalLength p \<le> M"
  obtains g where "rcs_addPacket p f = (True, g)" "rcs_holds M m (bs @ [np_data p]) g"
proof -
  note h = assms(1) [unfolded rcs_holds_def]
  note s = rcs_holds_space [OF assms(1)]
  have "\<not> df_getFreeSpace f < nc_getTotalLength p" using s(1) assms(3) by simp
  moreover have "unat (of_nat (6 + length (concat bs)) :: u16) = 6 + length (concat bs)"
    using s(4) by (intro u16_of_nat_id) simp
  ultimately have "fst (rcs_addPacket p f) \<and> rcs_holds M m (bs @ [np_data p]) (snd (rcs_addPacket p f))"
    using h assms(2,3)
    by (simp add: rcs_holds_def rcs_addPacket_def df_addPacket_def df_getMessageLength_def rcs_put_qty_def
        df_setMessageLength_def saf_bytes_simps nc_getTotalLength_def add.assoc add.commute add.left_commute)
  then show ?thesis using that [of "snd (rcs_addPacket p f)"] by (metis prod.collapse)
qed

section \<open>The greedy server\<close>

text \<open>A FIFO: whether it is left out, and its packets.\<close>

fun greedy :: "nat \<Rightarrow> (bool \<times> net_packet list) list \<Rightarrow> net_packet list \<times> (bool \<times> net_packet list) list" where
  "greedy r [] = ([], [])"
| "greedy r ((True, ps) # fs) = (let (s, fs') = greedy r fs in (s, (True, ps) # fs'))"
| "greedy r ((False, []) # fs) = (let (s, fs') = greedy r fs in (s, (False, []) # fs'))"
| "greedy r ((False, p # ps) # fs) =
     (if 8 * nc_getTotalLength p \<le> r
      then let (s, fs') = greedy (r - 8 * nc_getTotalLength p) ((False, ps) # fs) in (p # s, fs')
      else ([], (False, p # ps) # fs))"

definition fifos_abs :: "rcs_fifos \<Rightarrow> (bool \<times> net_packet list) list" where
  "fifos_abs fs = map (\<lambda>(q, f). (fi_access_type f = access_saloha, map fe_elem (fi_queue f))) fs"

definition bits_of :: "net_packet list \<Rightarrow> nat" where
  "bits_of ps = 8 * (\<Sum>p \<leftarrow> ps. nc_getTotalLength p)"

lemma bits_of_simps [simp]: "bits_of [] = 0" "bits_of (p # ps) = 8 * nc_getTotalLength p + bits_of ps"
  "bits_of (ps @ qs) = bits_of ps + bits_of qs"
  by (simp_all add: bits_of_def)

lemma bits_of_data: "bits_of ps = 8 * length (concat (map np_data ps))"
  by (induction ps) (simp_all add: nc_getTotalLength_def)

text \<open>FIFOs within their bound, whose packets are not empty and fit a burst of \<open>M\<close> bytes.\<close>

definition fifos_ok :: "nat \<Rightarrow> rcs_fifos \<Rightarrow> bool" where
  "fifos_ok M fs \<longleftrightarrow> (\<forall>(q, f) \<in> set fs. length (fi_queue f) \<le> unat (fi_max_size_pkt f)
     \<and> (\<forall>x \<in> set (fi_queue f). np_data (fe_elem x) \<noteq> [] \<and> 6 + nc_getTotalLength (fe_elem x) \<le> M))"

lemma greedy_0: "fifos_ok M fs \<Longrightarrow> greedy 0 (fifos_abs fs) = ([], fifos_abs fs)"
proof (induction fs)
  case (Cons a fs)
  obtain q f where a: "a = (q, f)" by force
  have IH: "greedy 0 (fifos_abs fs) = ([], fifos_abs fs)" using Cons by (simp add: fifos_ok_def)
  show ?case
  proof (cases "fi_access_type f = access_saloha")
    case True
    then show ?thesis using IH by (simp add: a fifos_abs_def)
  next
    case False
    then show ?thesis using IH Cons.prems
      by (cases "fi_queue f") (simp_all add: a fifos_abs_def fifos_ok_def nc_getTotalLength_def)
  qed
qed (simp add: fifos_abs_def)

lemma greedy_spends:
  "greedy r fs = (s, fs') \<Longrightarrow> bits_of s \<le> r"
proof (induction r fs arbitrary: s fs' rule: greedy.induct)
  case (4 r p ps fs)
  then show ?case by (auto split: if_splits prod.splits)
qed (auto split: prod.splits)

lemma greedy_subset: "set (fst (greedy r xs)) \<subseteq> set (concat (map snd xs))"
proof (induction r xs rule: greedy.induct)
  case (4 r p ps fs)
  then show ?case by (cases "8 * nc_getTotalLength p \<le> r") (auto simp: case_prod_beta)
qed (auto simp: case_prod_beta)

section \<open>The loop\<close>

text \<open>
  The state between two packets: the packets of the frames complete, those of the frame under construction, and
  the bits that are left.
\<close>

definition rs_inv :: "nat \<Rightarrow> net_packet list list \<Rightarrow> net_packet list \<Rightarrow> rs \<Rightarrow> bool" where
  "rs_inv M gs cur s \<longleftrightarrow> list_all2 (\<lambda>g. rcs_holds M 0 (map np_data g)) gs (rs_complete s) \<and> [] \<notin> set gs
     \<and> rcs_holds M 0 (map np_data cur) (rs_frame s) \<and> unat (rs_length s) = bits_of cur
     \<and> bits_of cur \<le> unat (rs_remaining s) \<and> unat (rs_remaining s) < 2 ^ 31 \<and> rs_ret s"

definition rs_left :: "rs \<Rightarrow> nat" where
  "rs_left s = unat (rs_remaining s) - unat (rs_length s)"

lemma sint_small:
  assumes "unat (w :: u32) < 2 ^ 31"
  shows "sint w = uint w"
proof -
  have "int (unat w) < int (2 ^ 31)" using assms by (simp only: of_nat_less_iff)
  then have "uint w < 2 ^ 31" by (simp only: uint_nat of_nat_power of_nat_numeral)
  moreover have "- (2 ^ 31) \<le> uint w" by (rule order_trans [of _ 0]) simp_all
  ultimately have "signed_take_bit 31 (uint w) = uint w" by (rule signed_take_bit_int_eq_self [rotated])
  then show ?thesis by (simp add: sint_uint)
qed

lemma rs_spend_left:
  assumes "rs_inv M gs cur s"
  shows "unat (rs_spend s) = rs_left s"
proof -
  note h = assms [unfolded rs_inv_def]
  have le: "rs_length s \<le> rs_remaining s" using h by (simp add: word_le_nat_alt)
  then have d: "unat (rs_remaining s - rs_length s) = rs_left s" by (simp add: unat_sub rs_left_def)
  have "rs_left s < 2 ^ 31" unfolding rs_left_def using h by (blast intro: less_imp_diff_less)
  then have "unat (rs_remaining s - rs_length s) < 2 ^ 31" by (simp only: d)
  then have "sint (rs_remaining s - rs_length s) = uint (rs_remaining s - rs_length s)" by (rule sint_small)
  then have "rs_spend s = rs_remaining s - rs_length s" by (simp add: rs_spend_def)
  then show ?thesis using d by simp
qed

lemma rs_room_ok:
  assumes "rs_inv M gs cur s" "8 \<le> unat mb" "M = burst_max mb" "0 < len" "6 + len \<le> M"
  obtains s1 gs1 cur1 where "rs_room mb len s = (True, s1)" "rs_inv M gs1 cur1 s1"
    "concat gs1 @ cur1 = concat gs @ cur" "rs_left s1 = rs_left s" "6 + length (concat (map np_data cur1)) + len \<le> M"
proof -
  note h = assms(1) [unfolded rs_inv_def]
  have holds: "rcs_holds M 0 (map np_data cur) (rs_frame s)" using h by blast
  note sp = rcs_holds_space [OF holds]
  have num: "rcs_getNumPackets (rs_frame s) = 0 \<longleftrightarrow> cur = []"
  proof -
    have "unat (of_nat (length cur) :: u16) = length cur" using sp(3) by (intro u16_of_nat_id) simp
    then show ?thesis using sp(2) by (auto simp: unat_eq_0 [symmetric])
  qed
  show ?thesis
  proof (cases "df_getFreeSpace (rs_frame s) < len \<and> 0 < rcs_getNumPackets (rs_frame s)")
    case True
    then have cur: "cur \<noteq> []" using num by (auto simp: word_neq_0_conv [symmetric])
    obtain f where f: "rcs_allocate mb = Some f" "rcs_holds M 0 [] f"
      using rcs_allocate_holds [OF assms(2)] assms(3) by blast
    let ?s = "s\<lparr>rs_complete := rs_complete s @ [rs_frame s], rs_remaining := rs_spend s, rs_frame := f, rs_length := 0\<rparr>"
    have "rs_room mb len s = (True, ?s)" using True f by (simp add: rs_room_def)
    moreover have "rs_inv M (gs @ [cur]) [] ?s"
      using h f(2) cur rs_spend_left [OF assms(1)]
      by (auto simp: rs_inv_def list_all2_appendI rs_left_def intro: less_imp_diff_less)
    moreover have "rs_left ?s = rs_left s" using rs_spend_left [OF assms(1)] by (simp add: rs_left_def)
    ultimately show ?thesis using that [of ?s "gs @ [cur]" "[]"] assms(5) by simp
  next
    case False
    then have "rs_room mb len s = (True, s)" unfolding rs_room_def by (rule if_not_P)
    moreover have "6 + length (concat (map np_data cur)) + len \<le> M"
    proof (cases "df_getFreeSpace (rs_frame s) < len")
      case True
      then have "cur = []" using False num by (auto simp: word_gt_0)
      then show ?thesis using assms(5) by simp
    next
      case False
      then show ?thesis using sp(1) assms(4) by simp
    qed
    ultimately show ?thesis using that [of s gs cur] assms(1) by simp
  qed
qed

lemma rs_fits_iff:
  assumes "rs_inv M gs cur s" "6 + length (concat (map np_data cur)) + len \<le> M"
  shows "rs_remaining s < rs_length s + of_nat (len * 8) \<longleftrightarrow> rs_left s < 8 * len"
    "unat (rs_length s + of_nat (len * 8)) = bits_of cur + 8 * len"
proof -
  note h = assms(1) [unfolded rs_inv_def]
  have "M \<le> 1204" using h by (simp add: rcs_holds_def MSG_DVB_RCS_SIZE_MAX_def)
  then have small: "bits_of cur + len * 8 < 4294967296" using assms(2) by (simp add: bits_of_data)
  have "rs_length s = of_nat (bits_of cur)" using h by (metis of_nat_unat ucast_id)
  then have e: "rs_length s + of_nat (len * 8) = of_nat (bits_of cur + len * 8)" by simp
  show u: "unat (rs_length s + of_nat (len * 8)) = bits_of cur + 8 * len"
    unfolding e u32_of_nat_id [OF small] by simp
  have "bits_of cur \<le> unat (rs_remaining s)" "unat (rs_length s) = bits_of cur" using h by blast+
  then show "rs_remaining s < rs_length s + of_nat (len * 8) \<longleftrightarrow> rs_left s < 8 * len"
    unfolding word_less_nat_alt u rs_left_def by linarith
qed

lemma rs_add_ok:
  assumes "rs_inv M gs cur s" "np_data p \<noteq> []" "8 * nc_getTotalLength p \<le> rs_left s"
    "6 + length (concat (map np_data cur)) + nc_getTotalLength p \<le> M"
  obtains g where "rcs_addPacket p (rs_frame s) = (True, g)"
    "rs_inv M gs (cur @ [p]) (s\<lparr>rs_frame := g, rs_length := rs_length s + of_nat (nc_getTotalLength p * 8)\<rparr>)"
    "rs_left (s\<lparr>rs_frame := g, rs_length := rs_length s + of_nat (nc_getTotalLength p * 8)\<rparr>) = rs_left s - 8 * nc_getTotalLength p"
proof -
  note h = assms(1) [unfolded rs_inv_def]
  have holds: "rcs_holds M 0 (map np_data cur) (rs_frame s)" using h by blast
  obtain g where g: "rcs_addPacket p (rs_frame s) = (True, g)" "rcs_holds M 0 (map np_data cur @ [np_data p]) g"
    using rcs_addPacket_holds [OF holds assms(2,4)] by blast
  note u = rs_fits_iff(2) [OF assms(1,4)]
  have "bits_of cur + 8 * nc_getTotalLength p \<le> unat (rs_remaining s)"
  proof -
    have "bits_of cur \<le> unat (rs_remaining s)" "unat (rs_length s) = bits_of cur" using h by blast+
    then show ?thesis using assms(3) unfolding rs_left_def by linarith
  qed
  then show ?thesis using that [OF g(1)] g(2) h u by (simp add: rs_inv_def rs_left_def del: of_nat_mult)
qed

lemma fifos_ok_Cons: "fifos_ok M ((q, f) # fs) \<longleftrightarrow> length (fi_queue f) \<le> unat (fi_max_size_pkt f)
    \<and> (\<forall>x \<in> set (fi_queue f). np_data (fe_elem x) \<noteq> [] \<and> 6 + nc_getTotalLength (fe_elem x) \<le> M) \<and> fifos_ok M fs"
  by (auto simp: fifos_ok_def)

lemma fifos_abs_Cons: "fifos_abs ((q, f) # fs) = (fi_access_type f = access_saloha, map fe_elem (fi_queue f)) # fifos_abs fs"
  by (simp add: fifos_abs_def)

lemma current_size_0: "length (fi_queue f) \<le> unat (fi_max_size_pkt f) \<Longrightarrow> fifo_getCurrentSize f \<le> 0 \<longleftrightarrow> fi_queue f = []"
  using unat_u16_less [of "fi_max_size_pkt f"] u16_of_nat_id [of "length (fi_queue f)"]
  by (auto simp: fifo_getCurrentSize_def unat_eq_0 [symmetric] simp del: unat_eq_0)

text \<open>What the loop leaves: a state with the packets the greedy server sends, and its FIFOs.\<close>

definition rs_served ::
    "nat \<Rightarrow> net_packet list \<Rightarrow> nat \<Rightarrow> (bool \<times> net_packet list) list \<times> u8 list \<Rightarrow> (bool \<times> rs \<times> rcs_fifos) res \<Rightarrow> bool" where
  "rs_served M sent r fs res \<longleftrightarrow> (\<exists>s' fifos' gs' cur'. res = Inr (True, s', fifos') \<and> rs_inv M gs' cur' s'
     \<and> concat gs' @ cur' = sent @ fst (greedy r (fst fs)) \<and> fifos_abs fifos' = snd (greedy r (fst fs)) \<and> map fst fifos' = snd fs
     \<and> rs_left s' = r - bits_of (fst (greedy r (fst fs))))"

lemma rs_loop_greedy:
  assumes "rs_inv M gs cur s" "fifos_ok M fs" "8 \<le> unat mb" "M = burst_max mb"
  shows "rs_served M (concat gs @ cur) (rs_left s) (fifos_abs fs, map fst fs) (rs_loop mb fs s)"
  using assms(1,2)
proof (induction "fifos_size fs" arbitrary: fs s gs cur rule: less_induct)
  case less
  note inv = less.prems(1) and ok = less.prems(2)
  show ?case
  proof (cases fs)
    case Nil
    then show ?thesis using inv by (auto simp: rs_served_def fifos_abs_def)
  next
    case (Cons a fs1)
    obtain q f where a: "a = (q, f)" by force
    have fs: "fs = (q, f) # fs1" using Cons a by simp
    note okf = ok [unfolded fs fifos_ok_Cons]
    show ?thesis
    proof (cases "rs_remaining s = 0 \<or> fi_queue f = [] \<or> fi_access_type f = access_saloha")
      case True
      then consider "rs_remaining s = 0" | "rs_remaining s \<noteq> 0" "fi_queue f = [] \<or> fi_access_type f = access_saloha" by blast
      then show ?thesis
      proof cases
        case 1
        have "rs_left s = 0" using 1 by (simp add: rs_left_def)
        then show ?thesis using 1 inv greedy_0 [OF ok] by (auto simp: rs_served_def fs)
      next
        case 2
        have "rs_served M (concat gs @ cur) (rs_left s) (fifos_abs fs1, map fst fs1) (rs_loop mb fs1 s)"
          by (rule less.hyps) (use fs okf inv in simp_all)
        moreover have "rs_loop mb fs s = res_bind (rs_loop mb fs1 s) (\<lambda>(ok, s', fs'). Inr (ok, s', (q, f) # fs'))"
          using 2 current_size_0 okf by (auto simp: fs)
        moreover have "greedy (rs_left s) (fifos_abs fs) = (fst (greedy (rs_left s) (fifos_abs fs1)),
            (fi_access_type f = access_saloha, map fe_elem (fi_queue f)) # snd (greedy (rs_left s) (fifos_abs fs1)))"
          using 2(2) by (cases "fi_access_type f = access_saloha") (auto simp: fs fifos_abs_Cons split: prod.splits)
        ultimately show ?thesis unfolding rs_served_def
          by (fastforce simp: fs fifos_abs_Cons simp del: rs_loop.simps)
      qed
    next
      case False
      then obtain x xs where x: "fi_queue f = x # xs" by (cases "fi_queue f") auto
      let ?p = "fe_elem x" and ?len = "nc_getTotalLength (fe_elem x)"
      have p: "np_data ?p \<noteq> []" "6 + ?len \<le> M" "0 < ?len" using okf x by (auto simp: nc_getTotalLength_def)
      obtain f' where f': "fifo_pop nc_getTotalLength f = (Some x, f')" "fi_queue f' = xs"
          "fi_max_size_pkt f' = fi_max_size_pkt f" "fi_access_type f' = fi_access_type f"
        using x by (simp add: fifo_pop_def Let_def)
      obtain s1 gs1 cur1 where s1: "rs_room mb ?len s = (True, s1)" "rs_inv M gs1 cur1 s1"
          "concat gs1 @ cur1 = concat gs @ cur" "rs_left s1 = rs_left s" "6 + length (concat (map np_data cur1)) + ?len \<le> M"
        using rs_room_ok [OF inv assms(3,4) p(3,2)] by blast
      have space: "\<not> df_getFreeSpace (rs_frame s1) < ?len"
        using rcs_holds_space(1) [of M 0 "map np_data cur1" "rs_frame s1"] s1(2,5) by (simp add: rs_inv_def)
      have ns: "fi_access_type f \<noteq> access_saloha" "rs_remaining s \<noteq> 0" "\<not> fifo_getCurrentSize f \<le> 0"
        using False current_size_0 okf by auto
      note fits = rs_fits_iff(1) [OF s1(2,5)]
      show ?thesis
      proof (cases "8 * ?len \<le> rs_left s")
        case False
        let ?f = "snd (fifo_pushFront nc_getTotalLength (fe_setElem ?p x) f')"
        have "rs_loop mb fs s = Inr (True, s1, (q, ?f) # fs1)"
          using ns f' s1(1,4) space False fits by (simp add: fs Let_def del: of_nat_mult)
        moreover have "fi_queue ?f = x # xs" "fi_access_type ?f = fi_access_type f"
          using okf x f' by (simp_all add: fifo_pushFront_def fifo_putBack_def Let_def fe_setElem_def)
        ultimately show ?thesis using s1(2,3,4) False ns x by (auto simp: rs_served_def fs fifos_abs_Cons)
      next
        case True
        define st where "st g = s1\<lparr>rs_frame := g, rs_length := rs_length s1 + of_nat (?len * 8)\<rparr>" for g
        obtain g where g: "rcs_addPacket ?p (rs_frame s1) = (True, g)" "rs_inv M gs1 (cur1 @ [?p]) (st g)"
            "rs_left (st g) = rs_left s - 8 * ?len"
          using rs_add_ok [OF s1(2) p(1) _ s1(5)] True s1(4) unfolding st_def by metis
        have "rs_loop mb fs s = rs_loop mb ((q, f') # fs1) (st g)"
          using ns f' s1(1,4) space True fits g(1) by (simp add: fs Let_def st_def del: of_nat_mult)
        moreover have "rs_served M (concat gs1 @ cur1 @ [?p]) (rs_left (st g)) (fifos_abs ((q, f') # fs1), q # map fst fs1)
            (rs_loop mb ((q, f') # fs1) (st g))"
          using less.hyps [of "(q, f') # fs1" gs1 "cur1 @ [?p]" "st g"] g(2) okf f' x by (simp add: fs fifos_ok_Cons)
        moreover have "greedy (rs_left s) (fifos_abs fs) = (?p # fst (greedy (rs_left s - 8 * ?len) (fifos_abs ((q, f') # fs1))),
            snd (greedy (rs_left s - 8 * ?len) (fifos_abs ((q, f') # fs1))))"
          using True ns x f' by (simp add: fs fifos_abs_Cons split: prod.splits)
        ultimately show ?thesis using g(3) s1(3) unfolding rs_served_def
          by (fastforce simp: fs simp del: rs_loop.simps)
      qed
    qed
  qed
qed

section \<open>The whole scheduler\<close>

lemma rs_schedule_greedy:
  assumes "8 \<le> unat mb" "unat rem < 2 ^ 31" "fifos_ok (burst_max mb) fs"
  shows "\<exists>frames rem' fs' gs. rs_schedule mb rem fs = Inr (True, frames, rem', fs')
    \<and> list_all2 (\<lambda>g. rcs_holds (burst_max mb) 0 (map np_data g)) gs frames \<and> [] \<notin> set gs
    \<and> concat gs = fst (greedy (unat rem) (fifos_abs fs)) \<and> fifos_abs fs' = snd (greedy (unat rem) (fifos_abs fs))
    \<and> map fst fs' = map fst fs \<and> unat rem' = unat rem - bits_of (concat gs) \<and> bits_of (concat gs) \<le> unat rem"
proof -
  let ?M = "burst_max mb" and ?g = "greedy (unat rem) (fifos_abs fs)"
  obtain f where f: "rcs_allocate mb = Some f" "rcs_holds ?M 0 [] f" using rcs_allocate_holds [OF assms(1)] by blast
  let ?s = "\<lparr>rs_frame = f, rs_complete = [], rs_length = 0, rs_remaining = rem, rs_ret = True\<rparr>"
  have "rs_inv ?M [] [] ?s" "rs_left ?s = unat rem" using f assms(2) by (simp_all add: rs_inv_def rs_left_def)
  then have "rs_served ?M [] (unat rem) (fifos_abs fs, map fst fs) (rs_loop mb fs ?s)"
    using rs_loop_greedy [of ?M "[]" "[]" ?s fs mb] assms(1,3) by simp
  then obtain s' fs' gs cur where loop: "rs_loop mb fs ?s = Inr (True, s', fs')" "rs_inv ?M gs cur s'"
      "concat gs @ cur = fst ?g" "fifos_abs fs' = snd ?g" "map fst fs' = map fst fs" "rs_left s' = unat rem - bits_of (fst ?g)"
    by (auto simp: rs_served_def)
  note h = loop(2) [unfolded rs_inv_def]
  have "\<not> mb \<le> 0" using assms(1) by (auto simp: word_le_nat_alt)
  then have sched: "rs_schedule mb rem fs = (if 0 < rcs_getNumPackets (rs_frame s')
      then Inr (rs_ret s', rs_complete s' @ [rs_frame s'], rs_spend s', fs') else Inr (rs_ret s', rs_complete s', rs_remaining s', fs'))"
    using f loop(1) by (simp add: rs_schedule_def rs_macSchedule_def)
  have spent: "bits_of (fst ?g) \<le> unat rem" using greedy_spends [of "unat rem" "fifos_abs fs"] by (metis prod.collapse)
  have holds: "rcs_holds ?M 0 (map np_data cur) (rs_frame s')" using h by blast
  have num: "0 < rcs_getNumPackets (rs_frame s') \<longleftrightarrow> cur \<noteq> []"
  proof -
    have "unat (of_nat (length cur) :: u16) = length cur"
      using rcs_holds_space(3) [OF holds] by (intro u16_of_nat_id) simp
    then show ?thesis using rcs_holds_space(2) [OF holds] by (simp add: word_less_nat_alt)
  qed
  show ?thesis
  proof (cases "cur = []")
    case True
    have "rs_schedule mb rem fs = Inr (True, rs_complete s', rs_remaining s', fs')" using sched num h True by simp
    moreover have "unat (rs_remaining s') = unat rem - bits_of (fst ?g)" using loop(6) h True by (simp add: rs_left_def)
    ultimately show ?thesis using h loop spent True by auto
  next
    case False
    have "rs_schedule mb rem fs = Inr (True, rs_complete s' @ [rs_frame s'], rs_spend s', fs')" using sched num h False by simp
    moreover have "list_all2 (\<lambda>g. rcs_holds ?M 0 (map np_data g)) (gs @ [cur]) (rs_complete s' @ [rs_frame s'])"
      using h by (simp add: list_all2_appendI)
    moreover have "[] \<notin> set (gs @ [cur])" "concat (gs @ [cur]) = fst ?g" using h False loop(3) by auto
    ultimately show ?thesis using loop(4,5,6) rs_spend_left [OF loop(2)] spent by metis
  qed
qed

section \<open>Reception\<close>

text \<open>Any format that tells the length of its packets is cut out of the frames again.\<close>

lemma df_of_rcs:
  assumes "rcs_holds M m bs f"
  shows "\<exists>f0. df_of_data (df_data (rcs_setModcodId k f)) = Inr f0 \<and> df_trailer_length f0 = 0
    \<and> df_data f0 = saf_bytes MSG_TYPE_DVB_BURST (of_nat (length bs)) (of_nat (6 + length (concat bs))) (k # concat bs)"
proof -
  note h = assms [unfolded rcs_holds_def]
  have l: "unat (of_nat (6 + length (concat bs)) :: u16) = 6 + length (concat bs)"
    using rcs_holds_space(4) [OF assms] by (intro u16_of_nat_id) simp
  have "df_data (rcs_setModcodId k f)
      = saf_bytes MSG_TYPE_DVB_BURST (of_nat (length bs)) (of_nat (6 + length (concat bs))) (k # concat bs)"
    using h by (simp add: rcs_setModcodId_def saf_bytes_def put_at_def)
  then show ?thesis using l by (simp add: df_of_data_def saf_bytes_simps size_sub_def del: of_nat_add)
qed

context self_delimiting
begin

lemma rcs_received:
  assumes "rcs_holds M m bs f" "bs \<noteq> []" "\<forall>p \<in> set bs. ok p"
    and "\<And>p r. ok p \<Longrightarrow> eh_build h (p @ r) (length p) 0 BROADCAST_TAL_ID8 BROADCAST_TAL_ID8 = Some (mk p)"
    and "st_handler st = Some h" "st_switch st = None" "\<not> (st_fixed st \<and> st_fixed_length st = 0)"
  shows "\<exists>f0. df_of_data (df_data (rcs_setModcodId k f)) = Inr f0
    \<and> rcs_std_onRcvFrame is_gw st (Some f0) = Inr (True, Some \<lparr>nb_limit = 0, nb_packets = map mk bs\<rparr>)"
proof -
  obtain f0 where f0: "df_of_data (df_data (rcs_setModcodId k f)) = Inr f0" "df_trailer_length f0 = 0"
      "df_data f0 = saf_bytes MSG_TYPE_DVB_BURST (of_nat (length bs)) (of_nat (6 + length (concat bs))) (k # concat bs)"
    using df_of_rcs [OF assms(1)] by blast
  let ?f = "f0\<lparr>df_header_length := sizeof_ENCAP_BURST\<rparr>"
  have ty: "df_getMessageType f0 = MSG_TYPE_DVB_BURST" "\<not> df_isCorrupted ?f"
    using f0(3) by (simp_all add: df_getMessageType_def df_isCorrupted_def saf_bytes_simps MSG_TYPE_DVB_BURST_def)
  have "rcs_getNumPackets ?f = of_nat (length bs)" using f0(3) by (simp add: rcs_getNumPackets_def saf_bytes_simps)
  moreover have "unat (of_nat (length bs) :: u16) = length bs"
    using rcs_holds_space(3) [OF assms(1)] by (intro u16_of_nat_id) simp
  ultimately have num: "unat (rcs_getNumPackets ?f) = length bs" by simp
  then have pos: "\<not> rcs_getNumPackets ?f \<le> 0" using assms(2) by (auto simp: word_le_nat_alt)
  have d: "drop 6 (df_data f0) = concat bs" "length (df_data f0) = 6 + length (concat bs)"
    by (simp_all add: f0(3) saf_bytes_simps(1)) (simp add: saf_bytes_def)
  have "df_getPayload_from ?f pos = Inr (drop pos (concat bs))" if "pos \<le> length (concat bs)" for pos
  proof -
    have "drop (6 + pos) (df_data f0) = drop pos (concat bs)" by (metis d(1) drop_drop add.commute)
    then show ?thesis using that d(2) f0(2)
      by (simp add: df_getPayload_from_def sizeof_ENCAP_BURST_def df_getTotalLength_def size_sub_def substr_def)
  qed
  then have "cut_packets h (df_getPayload_from ?f) (length bs) 0 [] = Inr (Some (map mk bs))"
    using cut_concat [of bs mk "[]" "df_getPayload_from ?f" "[]" "[]"] assms(3,4) by simp
  moreover have "fold (rcs_std_add is_gw st) ps \<lparr>nb_limit = 0, nb_packets = out\<rparr> = \<lparr>nb_limit = 0, nb_packets = out @ ps\<rparr>" for ps out
    by (induction ps arbitrary: out) (simp_all add: rcs_std_add_def assms(6) nb_add_def nb_isFull_def)
  ultimately show ?thesis
    using f0(1) ty pos num assms(2,5,7)
    by (auto simp: rcs_std_onRcvFrame_def getEncapsulatedPackets_def new_net_burst_def)
qed

end

end
