(* ===== verification/DvbMsg.thy ===== *)
theory DvbMsg
  imports SalohaFrame DamaCtrl
begin

text \<open>
  The signalling messages of \<open>dvb/utils\<close>: \<open>Sof.cpp\<close>, \<open>Logon.cpp\<close>, \<open>Logoff.cpp\<close>, the capacity requests of
  \<open>Sac.cpp\<close> and the burst time plans of \<open>Ttp.cpp\<close>, over the packed structures of \<open>OpenSandFrames.h\<close>. Integers
  travel in network order where the code calls \<open>htons\<close>, and in the order of the host, little-endian, where
  it does not (the group identifiers, the count of time plans). A getter that reads past the end of the
  bytes received is the fault \<open>BadHeader\<close>.
\<close>

section \<open>Fields\<close>

definition fld8 :: "data \<Rightarrow> nat \<Rightarrow> u8 res" where
  "fld8 d i = (if i < length d then Inr (d ! i) else Inl BadHeader)"

definition fld16 :: "data \<Rightarrow> nat \<Rightarrow> u16 res" where
  "fld16 d i = (if i + 2 \<le> length d then Inr (rd16 d i) else Inl BadHeader)"

definition fld32 :: "data \<Rightarrow> nat \<Rightarrow> u32 res" where
  "fld32 d i = (if i + 4 \<le> length d then Inr (rd32 d i) else Inl BadHeader)"

text \<open>Little-endian fields.\<close>

definition le16 :: "u16 \<Rightarrow> data" where
  "le16 w = [of_nat (unat w mod 256), of_nat (unat w div 256)]"

definition fld16_le :: "data \<Rightarrow> nat \<Rightarrow> u16 res" where
  "fld16_le d i = (if i + 2 \<le> length d then Inr (of_nat (unat (d ! (i + 1)) * 256 + unat (d ! i))) else Inl BadHeader)"

text \<open>\<open>DvbFrameTpl<T>()\<close>: the header of \<open>T\<close>, all zeros.\<close>

definition new_dvb_frame :: "nat \<Rightarrow> dvb_frame" where
  "new_dvb_frame n = \<lparr>df_data = replicate n 0, df_name = ''DvbFrame'', df_header_length = n, df_trailer_length = 0,
     df_spot = 255, df_max_size = n, df_num_packets = 0, df_carrier_id = 0\<rparr>"

definition df_put :: "nat \<Rightarrow> data \<Rightarrow> dvb_frame \<Rightarrow> dvb_frame" where
  "df_put i bs f = f\<lparr>df_data := put_at (df_data f) i bs\<rparr>"

definition new_msg :: "u8 \<Rightarrow> nat \<Rightarrow> dvb_frame" where
  "new_msg ty n = df_setMessageLength (of_nat n) (df_setMessageType ty (new_dvb_frame n))"

section \<open>C/N values\<close>

text \<open>\<open>round\<close> goes to the nearest integer, halves away from zero; out of the 16 bits is undefined.\<close>

definition c_round :: "rat \<Rightarrow> int" where
  "c_round x = (if 0 \<le> x then \<lfloor>x + 1 / 2\<rfloor> else - \<lfloor>1 / 2 - x\<rfloor>)"

definition hcnton :: "rat \<Rightarrow> u32 res" where
  "hcnton cn = (let n = c_round (f64 (cn * 100))
     in if - 32768 \<le> n \<and> n < 32768 then Inr (of_int n) else Inl Unrepresentable)"

definition ncntoh :: "u32 \<Rightarrow> rat" where
  "ncntoh w = f64 (of_int (sint (ucast w :: u16)) / 100)"

section \<open>Start of frame, log on, log off\<close>

definition MSG_TYPE_SOF :: u8 where "MSG_TYPE_SOF = 1"
definition MSG_TYPE_SAC :: u8 where "MSG_TYPE_SAC = 10"
definition MSG_TYPE_TTP :: u8 where "MSG_TYPE_TTP = 21"
definition MSG_TYPE_SESSION_LOGON_REQ :: u8 where "MSG_TYPE_SESSION_LOGON_REQ = 50"
definition MSG_TYPE_SESSION_LOGOFF :: u8 where "MSG_TYPE_SESSION_LOGOFF = 51"
definition MSG_TYPE_SESSION_LOGON_RESP :: u8 where "MSG_TYPE_SESSION_LOGON_RESP = 52"

definition new_sof :: "time_sf_t \<Rightarrow> dvb_frame" where
  "new_sof sf_nbr = df_put 3 (be16 sf_nbr) (new_msg MSG_TYPE_SOF 5)"

definition sof_getSuperFrameNumber :: "data \<Rightarrow> time_sf_t res" where
  "sof_getSuperFrameNumber d = fld16 d 3"

definition new_logon_request :: "logon_req \<Rightarrow> bool \<Rightarrow> dvb_frame" where
  "new_logon_request r is_scpc =
     df_put 11 [if is_scpc then 1 else 0] (df_put 9 (be16 (lr_max_vbdc r)) (df_put 7 (be16 (lr_max_rbdc r))
       (df_put 5 (be16 (lr_rt_bandwidth r)) (df_put 3 (be16 (lr_mac r)) (new_msg MSG_TYPE_SESSION_LOGON_REQ 12)))))"

definition lreq_getMac :: "data \<Rightarrow> tal_id_t res" where "lreq_getMac d = fld16 d 3"
definition lreq_getRtBandwidth :: "data \<Rightarrow> rate_kbps_t res" where "lreq_getRtBandwidth d = fld16 d 5"
definition lreq_getMaxRbdc :: "data \<Rightarrow> rate_kbps_t res" where "lreq_getMaxRbdc d = fld16 d 7"
definition lreq_getMaxVbdc :: "data \<Rightarrow> rate_kbps_t res" where "lreq_getMaxVbdc d = fld16 d 9"
definition lreq_getIsScpc :: "data \<Rightarrow> bool res" where "lreq_getIsScpc d = res_bind (fld8 d 11) (\<lambda>b. Inr (b \<noteq> 0))"

definition new_logon_response :: "tal_id_t \<Rightarrow> u16 \<Rightarrow> tal_id_t \<Rightarrow> dvb_frame" where
  "new_logon_response mac group_id logon_id =
     df_put 7 (be16 logon_id) (df_put 5 (le16 group_id) (df_put 3 (be16 mac) (new_msg MSG_TYPE_SESSION_LOGON_RESP 9)))"

definition lresp_getMac :: "data \<Rightarrow> tal_id_t res" where "lresp_getMac d = fld16 d 3"
definition lresp_getGroupId :: "data \<Rightarrow> u16 res" where "lresp_getGroupId d = fld16_le d 5"
definition lresp_getLogonId :: "data \<Rightarrow> tal_id_t res" where "lresp_getLogonId d = fld16 d 7"

definition new_logoff :: "tal_id_t \<Rightarrow> dvb_frame" where
  "new_logoff mac = df_put 3 (be16 mac) (new_msg MSG_TYPE_SESSION_LOGOFF 5)"

definition logoff_getMac :: "data \<Rightarrow> tal_id_t res" where "logoff_getMac d = fld16 d 3"

section \<open>Capacity requests\<close>

definition DVB_CR_RBDC_GRANULARITY :: nat where "DVB_CR_RBDC_GRANULARITY = 2"
definition DVB_CR_RBDC_SCALING_FACTOR :: nat where "DVB_CR_RBDC_SCALING_FACTOR = 16"
definition DVB_CR_RBDC_SCALING_FACTOR2 :: nat where "DVB_CR_RBDC_SCALING_FACTOR2 = 32"
definition DVB_CR_VBDC_SCALING_FACTOR :: nat where "DVB_CR_VBDC_SCALING_FACTOR = 16"
definition DVB_CR_VBDC_SCALING_FACTOR_OFFSET :: nat where "DVB_CR_VBDC_SCALING_FACTOR_OFFSET = 255"
definition DVB_CR_RBDC_SCALING_FACTOR_OFFSET :: nat where "DVB_CR_RBDC_SCALING_FACTOR_OFFSET = 510"
definition NBR_MAX_CR :: nat where "NBR_MAX_CR = 2"

text \<open>Quotient and remainder are cut to 8 bits.\<close>

definition getEncodedRequestValue :: "u16 \<Rightarrow> nat \<Rightarrow> u8" where
  "getEncodedRequestValue value step =
     (let div_quot = (of_nat (unat value div step) :: u8); div_rem = (of_nat (unat value mod step) :: u8)
      in if unat div_rem < step div 2 then div_quot else div_quot + 1)"

definition getScaleAndValue :: "u8 \<Rightarrow> u32 \<Rightarrow> u8 \<times> u8" where
  "getScaleAndValue type value =
     (if type = access_dama_vbdc then
        (if unat value \<le> DVB_CR_VBDC_SCALING_FACTOR_OFFSET then (0, ucast value)
         else (1, getEncodedRequestValue (ucast value) DVB_CR_VBDC_SCALING_FACTOR))
      else if type = access_dama_rbdc then
        (if unat value \<le> DVB_CR_RBDC_SCALING_FACTOR_OFFSET
         then (0, getEncodedRequestValue (ucast value) DVB_CR_RBDC_GRANULARITY)
         else if unat value \<le> DVB_CR_RBDC_SCALING_FACTOR_OFFSET * DVB_CR_RBDC_SCALING_FACTOR
         then (1, getEncodedRequestValue (ucast value) (DVB_CR_RBDC_GRANULARITY * DVB_CR_RBDC_SCALING_FACTOR))
         else (2, getEncodedRequestValue (ucast value) (DVB_CR_RBDC_GRANULARITY * DVB_CR_RBDC_SCALING_FACTOR2)))
      else (0, 0))"

definition getDecodedCrValue :: "u8 \<Rightarrow> u8 \<Rightarrow> u8 \<Rightarrow> u16" where
  "getDecodedCrValue type scale value =
     (if type = access_dama_vbdc then
        (if scale = 0 then ucast value else of_nat (unat value * DVB_CR_VBDC_SCALING_FACTOR))
      else if type = access_dama_rbdc then
        (if scale = 0 then of_nat (unat value * DVB_CR_RBDC_GRANULARITY)
         else if scale = 1 then of_nat (unat value * DVB_CR_RBDC_GRANULARITY * DVB_CR_RBDC_SCALING_FACTOR)
         else of_nat (unat value * DVB_CR_RBDC_GRANULARITY * DVB_CR_RBDC_SCALING_FACTOR2))
      else 0)"

record sac =
  sac_frame :: dvb_frame
  sac_request_nbr :: u8

definition sizeof_SAC :: nat where "sizeof_SAC = 12"

definition new_sac :: "tal_id_t \<Rightarrow> u16 \<Rightarrow> sac" where
  "new_sac tal_id group_id =
     \<lparr>sac_frame = df_put 7 [0] (df_put 8 (be32 (of_int (- 10000))) (df_put 5 (le16 group_id) (df_put 3 (be16 tal_id)
        (df_setMaxSize (sizeof_SAC + 2 * NBR_MAX_CR) (new_msg MSG_TYPE_SAC sizeof_SAC))))),
      sac_request_nbr = 0\<rparr>"

text \<open>\<open>emu_cr_t\<close>: two bits of priority, two of scale, four of type, then the value.\<close>

definition cr_bytes :: "u8 \<Rightarrow> u8 \<Rightarrow> u8 \<Rightarrow> u8 \<Rightarrow> data" where
  "cr_bytes prio scale type value = [of_nat (unat prio mod 4 + unat scale mod 4 * 4 + unat type mod 16 * 16), value]"

definition sac_addRequest :: "u8 \<Rightarrow> u8 \<Rightarrow> u32 \<Rightarrow> sac \<Rightarrow> bool \<times> sac" where
  "sac_addRequest prio type value s =
     (if NBR_MAX_CR \<le> unat (sac_request_nbr s) + 1 then (False, s)
      else let (scale, val) = getScaleAndValue type value; f = sac_frame s;
               f1 = f\<lparr>df_data := df_data f @ cr_bytes prio scale type val\<rparr>;
               f2 = df_put 7 [byte_at (df_data f1) 7 + 1] f1
           in (True, s\<lparr>sac_request_nbr := sac_request_nbr s + 1,
                       sac_frame := df_setMessageLength (df_getMessageLength f2 + 2) f2\<rparr>))"

definition sac_getTerminalId :: "data \<Rightarrow> tal_id_t res" where "sac_getTerminalId d = fld16 d 3"
definition sac_getGroupId :: "data \<Rightarrow> u16 res" where "sac_getGroupId d = fld16_le d 5"
definition sac_getCni :: "data \<Rightarrow> rat res" where "sac_getCni d = res_bind (fld32 d 8) (\<lambda>w. Inr (ncntoh w))"

definition sac_setAcm :: "rat \<Rightarrow> sac \<Rightarrow> sac res" where
  "sac_setAcm cni s = res_bind (hcnton cni) (\<lambda>w. Inr (s\<lparr>sac_frame := df_put 8 (be32 w) (sac_frame s)\<rparr>))"

definition sac_request :: "data \<Rightarrow> nat \<Rightarrow> cr_info res" where
  "sac_request d i =
     res_bind (fld8 d (sizeof_SAC + 2 * i)) (\<lambda>b. res_bind (fld8 d (sizeof_SAC + 2 * i + 1)) (\<lambda>v.
       let prio = of_nat (unat b mod 4); scale = of_nat (unat b div 4 mod 4); type = of_nat (unat b div 16)
       in Inr \<lparr>cr_prio = prio, cr_type = type, cr_value = ucast (getDecodedCrValue type scale v)\<rparr>))"

fun res_list :: "'a res list \<Rightarrow> 'a list res" where
  "res_list [] = Inr []"
| "res_list (r # rs) = res_bind r (\<lambda>x. res_bind (res_list rs) (\<lambda>xs. Inr (x # xs)))"

definition sac_getRequests :: "data \<Rightarrow> cr_info list res" where
  "sac_getRequests d = res_bind (fld8 d 7) (\<lambda>n. res_list (map (sac_request d) [0..<unat n]))"

section \<open>Burst time plans\<close>

definition sizeof_TTP :: nat where "sizeof_TTP = 8"
definition sizeof_frame_info :: nat where "sizeof_frame_info = 3"
definition sizeof_tp :: nat where "sizeof_tp = 10"

text \<open>The plans waiting for \<open>build\<close>, by frame.\<close>

record ttp =
  ttp_frame :: dvb_frame
  ttp_frames :: "(u8, data list) omap"

definition new_ttp :: "u16 \<Rightarrow> time_sf_t \<Rightarrow> ttp" where
  "new_ttp group_id sf =
     \<lparr>ttp_frame = df_put 5 (be16 sf) (df_put 3 (le16 group_id)
        (df_setMaxSize (sizeof_TTP + 1 * (sizeof_frame_info + unat BROADCAST_TAL_ID * sizeof_tp)) (new_msg MSG_TYPE_TTP sizeof_TTP))),
      ttp_frames = []\<rparr>"

definition tp_bytes :: "time_plan \<Rightarrow> data" where
  "tp_bytes p = be16 (tp_tal p) @ be32 (tp_offset p) @ be16 (tp_assignment p) @ [tp_fmt p, tp_priority p]"

definition ttp_addTimePlan :: "time_plan \<Rightarrow> ttp \<Rightarrow> bool \<times> ttp" where
  "ttp_addTimePlan p t =
     (True, t\<lparr>ttp_frames := om_put (tp_frame p)
        (case om_find (ttp_frames t) (tp_frame p) of None \<Rightarrow> [tp_bytes p] | Some tps \<Rightarrow> tps @ [tp_bytes p]) (ttp_frames t)\<rparr>)"

text \<open>
  \<open>build\<close>: a frame is its number, a count that \<open>emu_frame\<close> leaves uninitialised (\<open>junk\<close>) and its plans; the
  count is written behind as if the frames before had no plans.
\<close>

definition ttp_build_frame :: "data \<Rightarrow> u8 \<times> data list \<Rightarrow> dvb_frame \<times> nat \<times> nat \<Rightarrow> dvb_frame \<times> nat \<times> nat" where
  "ttp_build_frame junk = (\<lambda>(n, tps) (f, frame_count, ttp_length).
     let d = df_data f @ [n] @ take 2 (junk @ [0, 0]) @ concat tps
     in (f\<lparr>df_data := put_at d (sizeof_TTP + sizeof_frame_info * frame_count + 1) (le16 (of_nat (length tps)))\<rparr>,
         frame_count + 1, ttp_length + sizeof_frame_info + sizeof_tp * length tps))"

definition ttp_build :: "data \<Rightarrow> ttp \<Rightarrow> bool \<times> ttp" where
  "ttp_build junk t =
     (let (f, frame_count, ttp_length) = fold (ttp_build_frame junk) (ttp_frames t) (ttp_frame t, 0, sizeof_TTP)
      in (True, t\<lparr>ttp_frame := df_setMessageLength (of_nat ttp_length) (df_put 7 [of_nat frame_count] f)\<rparr>))"

definition ttp_getGroupId :: "data \<Rightarrow> u16 res" where "ttp_getGroupId d = fld16_le d 3"
definition ttp_getSuperframeCount :: "data \<Rightarrow> time_sf_t res" where "ttp_getSuperframeCount d = fld16 d 5"

text \<open>
  \<open>getTp\<close>. The plan of the terminal is converted in place, so the bytes change; \<open>length\<close> is a
  \<open>size_t\<close> that wraps. The result: the value returned, the plans by frame and the bytes. In the copy \<open>*tp\<close> the terminal
  is not converted: it is in network order, read here by a little-endian host.
\<close>

definition rd16_le :: "data \<Rightarrow> nat \<Rightarrow> u16" where
  "rd16_le d i = of_nat (unat (byte_at d (i + 1)) * 256 + unat (byte_at d i))"

definition tp_read :: "data \<Rightarrow> nat \<Rightarrow> u8 \<Rightarrow> time_plan" where
  "tp_read d i n = \<lparr>tp_frame = n, tp_tal = rd16_le d i, tp_offset = rd32 d (i + 2), tp_assignment = rd16 d (i + 6),
     tp_fmt = byte_at d (i + 8), tp_priority = byte_at d (i + 9)\<rparr>"

definition tp_swap :: "data \<Rightarrow> nat \<Rightarrow> data" where
  "tp_swap d i = put_at d (i + 2) (rev (take 4 (drop (i + 2) d)) @ rev (take 2 (drop (i + 6) d)))"

fun getTp_plans :: "tal_id_t \<Rightarrow> u8 \<Rightarrow> nat \<Rightarrow> nat \<Rightarrow> (u8, time_plan) omap \<times> data \<Rightarrow> ((u8, time_plan) omap \<times> data) res" where
  "getTp_plans tal_id n 0 pos s = Inr s"
| "getTp_plans tal_id n (Suc k) pos (tps, d) =
     (if length d < pos + sizeof_tp then Inl BadHeader
      else if rd16 d pos \<noteq> tal_id then getTp_plans tal_id n k (pos + sizeof_tp) (tps, d)
      else getTp_plans tal_id n k (pos + sizeof_tp) (om_put n (tp_read d pos n) tps, tp_swap d pos))"

fun getTp_frames :: "tal_id_t \<Rightarrow> nat \<Rightarrow> nat \<Rightarrow> nat \<Rightarrow> (u8, time_plan) omap \<times> data
    \<Rightarrow> (bool \<times> (u8, time_plan) omap \<times> data) res" where
  "getTp_frames tal_id 0 frame_start len s = Inr (True, s)"
| "getTp_frames tal_id (Suc k) frame_start len (tps, d) =
     res_bind (fld8 d frame_start) (\<lambda>n.
     res_bind (fld16_le d (frame_start + 1)) (\<lambda>c. let tp_loop_count = unat c in
       if len < sizeof_frame_info + tp_loop_count * sizeof_tp then Inr (False, tps, d)
       else res_bind (getTp_plans tal_id n tp_loop_count (frame_start + sizeof_frame_info) (tps, d)) (\<lambda>s.
         getTp_frames tal_id k (frame_start + tp_loop_count * sizeof_tp)
           (len - sizeof_frame_info - tp_loop_count * sizeof_tp) s)))"

definition ttp_getTp :: "tal_id_t \<Rightarrow> (u8, time_plan) omap \<Rightarrow> data \<Rightarrow> (bool \<times> (u8, time_plan) omap \<times> data) res" where
  "ttp_getTp tal_id tps d =
     res_bind (fld16 d 0) (\<lambda>len.
       if unat len < sizeof_TTP then Inr (False, tps, d)
       else res_bind (fld8 d 7) (\<lambda>frame_loop_count.
         getTp_frames tal_id (unat frame_loop_count) sizeof_TTP (unat len - sizeof_TTP) (tps, d)))"

end
