(* ===== verification/CircularBuffer.thy ===== *)
theory CircularBuffer
  imports Prelude
begin

text \<open>
  The buffer of the last capacity requests of a terminal (\<open>dvb/dama/CircularBuffer.cpp\<close>) and what it keeps:
  after any run of \<open>Update\<close> the sum is that of the last \<open>size\<close> values (modulo \<open>2 ^ 16\<close>), the previous value is
  the last one inserted and the last value the oldest one kept. The allocation of the values succeeds.
\<close>

section \<open>Model\<close>

record circ =
  cb_values :: "u16 list"
  cb_size :: nat
  cb_index :: nat
  cb_nbr_values :: nat
  cb_sum :: u16
  cb_min :: u16
  cb_only_last :: bool

definition new_circ :: "nat \<Rightarrow> circ" where
  "new_circ buffer_size =
     (let size = (if buffer_size = 0 then 1 else buffer_size)
      in \<lparr>cb_values = replicate size 0, cb_size = size, cb_index = size - 1, cb_nbr_values = 0, cb_sum = 0, cb_min = 0,
          cb_only_last = (buffer_size = 0)\<rparr>)"

text \<open>The new minimum is searched from 0, so it is 0.\<close>

definition cb_new_min :: "u16 \<Rightarrow> nat \<Rightarrow> nat \<Rightarrow> u16 list \<Rightarrow> u16" where
  "cb_new_min value nbr index values =
     fold (\<lambda>i m. min m (if i = index then value else values ! i)) [0..<nbr] 0"

definition cb_Update :: "u16 \<Rightarrow> circ \<Rightarrow> circ" where
  "cb_Update value c =
     (let nbr = min (cb_nbr_values c + 1) (cb_size c); index = (cb_index c + 1) mod cb_size c; old = cb_values c ! index
      in c\<lparr>cb_nbr_values := nbr, cb_index := index, cb_sum := cb_sum c - old + value,
           cb_min := (if value \<le> cb_min c then value
                      else if old = cb_min c then cb_new_min value nbr index (cb_values c) else cb_min c),
           cb_values := (cb_values c)[index := value]\<rparr>)"

definition cb_GetLastValue :: "circ \<Rightarrow> u16" where
  "cb_GetLastValue c = cb_values c ! ((cb_index c + 1) mod cb_size c)"

definition cb_GetPreviousValue :: "circ \<Rightarrow> u16" where
  "cb_GetPreviousValue c = cb_values c ! cb_index c"

definition cb_GetMean :: "circ \<Rightarrow> u16 res" where
  "cb_GetMean c = (if cb_nbr_values c = 0 then Inl DivByZero
     else Inr (of_nat (unat (cb_sum c) div cb_nbr_values c)))"

definition cb_GetMin :: "circ \<Rightarrow> u16" where
  "cb_GetMin c = cb_min c"

definition cb_GetSum :: "circ \<Rightarrow> u16" where
  "cb_GetSum c = (if cb_only_last c then 0 else cb_sum c)"

text \<open>The \<open>int\<close> index becomes a \<open>size_t\<close>: a negative one wraps at \<open>2 ^ 64\<close> before the remainder is taken.\<close>

definition cb_GetValueIndex :: "int \<Rightarrow> circ \<Rightarrow> u16" where
  "cb_GetValueIndex i c = cb_values c ! (nat ((i + int (cb_index c)) mod 2 ^ 64) mod cb_size c)"

definition cb_GetPartialSumFromPrevious :: "nat \<Rightarrow> circ \<Rightarrow> u16" where
  "cb_GetPartialSumFromPrevious n c = fold (\<lambda>i s. s + cb_GetValueIndex (- int i) c) [0..<n] 0"

section \<open>What it keeps\<close>

text \<open>
  The abstract buffer is the list of its last values, the newest first: \<open>holds vs c\<close> says that position
  \<open>index - i\<close> holds the \<open>i\<close>-th of them.
\<close>

definition holds :: "u16 list \<Rightarrow> circ \<Rightarrow> bool" where
  "holds vs c \<longleftrightarrow> 0 < cb_size c \<and> length (cb_values c) = cb_size c \<and> length vs = cb_size c \<and> cb_index c < cb_size c
     \<and> (\<forall>i < cb_size c. cb_values c ! ((cb_index c + cb_size c - i) mod cb_size c) = vs ! i)
     \<and> cb_sum c = sum_list vs \<and> cb_min c = 0"

definition cb_run :: "u16 list \<Rightarrow> nat \<Rightarrow> circ" where
  "cb_run vs n = fold cb_Update vs (new_circ n)"

lemma new_holds: "holds (replicate (cb_size (new_circ n)) 0) (new_circ n)"
  by (auto simp: holds_def new_circ_def Let_def sum_list_replicate)

lemma new_min_0: "cb_new_min v n i vs = 0"
proof -
  have "fold (\<lambda>i m. min m (f i)) is (0 :: u16) = 0" for f and "is" :: "nat list"
    by (induction "is") simp_all
  then show ?thesis by (simp add: cb_new_min_def)
qed

lemma sum_list_butlast:
  fixes vs :: "'a::ab_group_add list"
  shows "vs \<noteq> [] \<Longrightarrow> sum_list (butlast vs) = sum_list vs - last vs"
proof -
  assume "vs \<noteq> []"
  then have "sum_list vs = sum_list (butlast vs) + last vs" by (metis append_butlast_last_id sum_list_append sum_list.Cons
      sum_list.Nil add.right_neutral)
  then show ?thesis by simp
qed

lemma Update_holds:
  assumes "holds vs c"
  shows "holds (v # butlast vs) (cb_Update v c)"
proof -
  let ?n = "cb_size c" and ?j = "(cb_index c + 1) mod cb_size c"
  note h = assms [unfolded holds_def]
  have j: "?j < ?n" using h by simp
  have vs: "vs \<noteq> []" using h by auto
  have "(cb_index c + ?n - (?n - 1)) mod ?n = ?j" using h by simp
  then have old: "cb_values c ! ?j = last vs"
    using h vs by (metis last_conv_nth diff_less zero_less_one)
  have pos: "(cb_values c)[?j := v] ! ((?j + ?n - i) mod ?n) = (v # butlast vs) ! i" if "i < ?n" for i
  proof (cases i)
    case 0
    then show ?thesis using j h by simp
  next
    case (Suc k)
    have "(?j + ?n - i) mod ?n = (cb_index c + ?n - k) mod ?n"
    proof -
      have "(?j + (?n - i)) mod ?n = (cb_index c + 1 + (?n - i)) mod ?n" by (simp add: mod_add_left_eq)
      moreover have "cb_index c + 1 + (?n - i) = cb_index c + ?n - k" "?j + ?n - i = ?j + (?n - i)" using that Suc by arith+
      ultimately show ?thesis by (simp only:)
    qed
    moreover have "(cb_index c + ?n - k) mod ?n \<noteq> ?j"
    proof
      assume e: "(cb_index c + ?n - k) mod ?n = ?j"
      have "cb_index c + ?n - k = cb_index c + 1 + (?n - 1 - k)" using that Suc by arith
      then have "(cb_index c + 1 + (?n - 1 - k)) mod ?n = (cb_index c + 1) mod ?n" using e by simp
      then have "?n dvd (?n - 1 - k)" using mod_eq_dvd_iff_nat [of "cb_index c + 1" "cb_index c + 1 + (?n - 1 - k)" ?n] by simp
      then show False using that Suc by (auto dest: dvd_imp_le)
    qed
    moreover have "k < length (butlast vs)" using that Suc h by simp
    ultimately show ?thesis using Suc that h by (simp add: nth_butlast)
  qed
  have "cb_sum (cb_Update v c) = sum_list (v # butlast vs)"
    using h old sum_list_butlast [OF vs] by (simp add: cb_Update_def Let_def)
  moreover have "cb_min (cb_Update v c) = 0"
    using h by (auto simp: cb_Update_def Let_def new_min_0)
  ultimately show ?thesis
    using h j pos vs by (simp add: holds_def cb_Update_def Let_def)
qed

text \<open>The last \<open>n\<close> values of a run over an initial buffer of zeros, the newest first.\<close>

definition last_values :: "nat \<Rightarrow> u16 list \<Rightarrow> u16 list" where
  "last_values n vs = take n (rev vs @ replicate n 0)"

lemma last_values_snoc: "0 < n \<Longrightarrow> last_values n (vs @ [v]) = v # butlast (last_values n vs)"
proof (cases n)
  case (Suc k)
  have "butlast (take (Suc k) (rev vs @ replicate (Suc k) 0)) = take k (rev vs @ replicate (Suc k) 0)"
    by (subst butlast_take) (simp_all del: take_append take_Suc replicate_Suc)
  also have "\<dots> = take k (rev vs @ replicate k 0)" by (simp del: replicate_Suc)
  finally show ?thesis using Suc by (simp add: last_values_def del: replicate_Suc)
qed simp

lemma length_last_values [simp]: "length (last_values n vs) = n"
  by (simp add: last_values_def)

lemma run_holds: "holds (last_values (cb_size (new_circ n)) vs) (cb_run vs n) \<and> cb_size (cb_run vs n) = cb_size (new_circ n)
    \<and> cb_only_last (cb_run vs n) = (n = 0)"
proof (induction vs rule: rev_induct)
  case Nil
  then show ?case using new_holds [of n] by (simp add: cb_run_def last_values_def new_circ_def Let_def)
next
  case (snoc v vs)
  have "0 < cb_size (new_circ n)" by (simp add: new_circ_def Let_def)
  then show ?case
    using snoc Update_holds [of "last_values (cb_size (new_circ n)) vs" "cb_run vs n" v]
    by (simp add: cb_run_def last_values_snoc) (simp add: cb_Update_def Let_def)
qed

text \<open>C39: The circular buffer of the RBDC requests refines the list of the last values: after any sequence of updates,
  a buffer of size \<open>n\<close> gives as its sum that of the last \<open>n\<close> requests (modulo \<open>2 ^ 16\<close>, zeros before
  the first one), as its previous value the newest one and as its last value the one \<open>n - 1\<close> updates older; of
  size 0 it keeps one value and its sum is 0.
\<close>

theorem circular_buffer_refines:
  assumes "vs \<noteq> []"
  shows "cb_GetSum (cb_run vs n) = (if n = 0 then 0 else sum_list (last_values n vs))
    \<and> cb_GetPreviousValue (cb_run vs n) = last vs
    \<and> cb_GetLastValue (cb_run vs n) = last (last_values (max n 1) vs)"
proof -
  let ?c = "cb_run vs n" and ?n = "cb_size (new_circ n)"
  have n: "?n = max n 1" by (simp add: new_circ_def Let_def)
  note h = run_holds [of n vs, unfolded holds_def]
  have sum: "cb_sum ?c = sum_list (last_values ?n vs)" "cb_only_last ?c = (n = 0)" using h by blast+
  have sum: "cb_GetSum ?c = (if n = 0 then 0 else sum_list (last_values n vs))"
    unfolding cb_GetSum_def sum n by simp
  have size: "cb_size ?c = ?n" "0 < ?n" using h n by presburger+
  have index: "cb_index ?c < cb_size ?c" using h by blast
  have z: "\<forall>i < cb_size ?c. cb_values ?c ! ((cb_index ?c + cb_size ?c - i) mod cb_size ?c) = last_values ?n vs ! i"
    using h by blast
  have "last_values ?n vs ! 0 = last vs"
    using assms n by (simp add: last_values_def nth_append rev_nth last_conv_nth)
  then have prev: "cb_GetPreviousValue ?c = last vs"
    using z [rule_format, of 0] size index by (simp add: cb_GetPreviousValue_def)
  have "(cb_index ?c + cb_size ?c - (?n - 1)) mod cb_size ?c = (cb_index ?c + 1) mod cb_size ?c"
    using size by simp
  moreover have "last (last_values ?n vs) = last_values ?n vs ! (?n - 1)"
    using size last_conv_nth [of "last_values ?n vs"] length_last_values [of ?n vs] by fastforce
  ultimately have "cb_GetLastValue ?c = last (last_values (max n 1) vs)"
    using z [rule_format, of "?n - 1"] size unfolding cb_GetLastValue_def n [symmetric] by simp
  then show ?thesis using sum prev by simp
qed

theorem circular_buffer_refines_witness:
  "cb_GetSum (cb_run [5, 7, 9] 2) = 16 \<and> cb_GetPreviousValue (cb_run [5, 7, 9] 2) = 9 \<and> cb_GetLastValue (cb_run [5, 7, 9] 2) = 7"
  using circular_buffer_refines [of "[5, 7, 9]" 2] by (simp add: last_values_def eval_nat_numeral)

end
