(* ===== verification/DamaAgent.thy ===== *)
theory DamaAgent
  imports DvbMsg DvbRcs CircularBuffer "HOL-Library.Signed_Division"
begin

text \<open>
  The DAMA agent of a terminal: \<open>dvb/dama/DamaAgent.cpp\<close>, \<open>DamaAgentRcsCommon.cpp\<close>, \<open>DamaAgentRcs.cpp\<close>,
  \<open>DamaAgentRcs2.cpp\<close> and their \<open>Legacy\<close> subclasses. It turns the burst time plan of the gateway into an
  allocation, lets the return link scheduler spend it, and asks for capacity from what its FIFOs hold. The
  FIFOs are those of the scheduler too; their packets have any type \<open>'e\<close>. The macro \<open>OPTIMIZE\<close> is defined
  nowhere in the build. The values of the probes are left out.
\<close>

record 'e dama_agent =
  da_table :: fmt_table
  da_fifos :: "(u8, 'e dvb_fifo) omap"
  da_tal_id :: tal_id_t
  da_group_id :: u16
  da_superframe :: time_sf_t
  da_rbdc_enabled :: bool
  da_vbdc_enabled :: bool
  da_frame_ms :: time_ms_t
  da_msl_sf :: time_sf_t
  da_sync_period_sf :: time_sf_t
  da_allocated_kb :: vol_kb_t
  da_dynamic_kb :: vol_kb_t
  da_remaining_b :: vol_b_t
  da_burst_b :: vol_b_t
  da_buffer :: "circ option"           \<comment> \<open>\<open>rbdc_request_buffer\<close>, maybe null\<close>
  da_rbdc_timer :: time_sf_t
  da_converter :: unit_converter
  da_modcod :: fmt_id_t
  da_vbdc_credit :: vol_kb_t

section \<open>Initialisation\<close>

text \<open>The loop of \<open>initParent\<close>: RBDC, VBDC, and false at the first unknown access type.\<close>

fun da_enable :: "'e dvb_fifo list \<Rightarrow> bool \<times> bool \<Rightarrow> bool \<times> bool \<times> bool" where
  "da_enable [] (r, v) = (True, r, v)"
| "da_enable (f # fs) (r, v) =
     (if fi_access_type f = DvbFifo.access_dama_rbdc then da_enable fs (True, v)
      else if fi_access_type f = DvbFifo.access_dama_vbdc then da_enable fs (r, True)
      else if fi_access_type f = DvbFifo.access_dama_cra \<or> fi_access_type f = access_saloha then da_enable fs (r, v)
      else (False, r, v))"

definition da_initParent ::
    "time_ms_t \<Rightarrow> time_sf_t \<Rightarrow> time_sf_t \<Rightarrow> (u8, 'e dvb_fifo) omap \<Rightarrow> 'e dama_agent \<Rightarrow> bool \<times> 'e dama_agent" where
  "da_initParent frame_ms msl sync fifos a =
     (let (ok, r, v) = da_enable (map snd fifos) (da_rbdc_enabled a, da_vbdc_enabled a)
      in (ok, a\<lparr>da_frame_ms := frame_ms, da_msl_sf := msl, da_sync_period_sf := sync, da_fifos := fifos,
               da_rbdc_enabled := r, da_vbdc_enabled := v\<rparr>))"

text \<open>\<open>generateUnitConverter\<close> of DVB-RCS (\<open>getFixedLength\<close> of the packet handler) and of DVB-RCS2 (the burst length
  of the configuration).\<close>

definition rcs_generateUnitConverter :: "u32 \<Rightarrow> 'e dama_agent \<Rightarrow> unit_converter option" where
  "rcs_generateUnitConverter fixed_length a = Some (new_bit_converter (da_frame_ms a) 0 (push_bit 3 fixed_length))"

definition rcs2_generateUnitConverter :: "vol_sym_t option \<Rightarrow> 'e dama_agent \<Rightarrow> unit_converter option" where
  "rcs2_generateUnitConverter length_sym a =
     (case length_sym of
        None \<Rightarrow> None
      | Some l \<Rightarrow> if l = 0 then None else Some (new_sym_converter (da_frame_ms a) 0 l))"

definition da_init :: "('e dama_agent \<Rightarrow> unit_converter option) \<Rightarrow> 'e dama_agent \<Rightarrow> (bool \<times> 'e dama_agent) res" where
  "da_init generateUnitConverter a =
     (if da_rbdc_enabled a \<and> da_sync_period_sf a = 0 then Inl DivByZero
      else let a1 = (if da_rbdc_enabled a
                     then a\<lparr>da_buffer := Some (new_circ (unat (da_msl_sf a) div unat (da_sync_period_sf a)))\<rparr> else a)
           in case generateUnitConverter a1 of
                None \<Rightarrow> Inr (False, a1)
              | Some uc \<Rightarrow>
                  let m = ft_getMaxId (da_table a1)
                  in Inr (True, a1\<lparr>da_modcod := m, da_converter :=
                       (case ft_getDefinition (da_table a1) m of
                          None \<Rightarrow> uc | Some d \<Rightarrow> uc_setModulationEfficiency (fd_eff d) uc)\<rparr>))"

text \<open>
  The constructors of \<open>DamaAgent\<close>, \<open>DamaAgentRcsCommon\<close> and \<open>DamaAgentRcsLegacy\<close>: \<open>junk\<close> holds what they leave
  uninitialised, the terminal, the synchronisation period, the burst length and the converter.
\<close>

definition new_dama_agent :: "'e dama_agent \<Rightarrow> fmt_table \<Rightarrow> 'e dama_agent" where
  "new_dama_agent junk tb = \<lparr>da_table = tb, da_fifos = [], da_tal_id = da_tal_id junk, da_group_id = 0, da_superframe = 0,
     da_rbdc_enabled = False, da_vbdc_enabled = False, da_frame_ms = 0, da_msl_sf = 0, da_sync_period_sf = da_sync_period_sf junk,
     da_allocated_kb = 0, da_dynamic_kb = 0, da_remaining_b = 0, da_burst_b = da_burst_b junk, da_buffer = None,
     da_rbdc_timer = 0, da_converter = da_converter junk, da_modcod = 0, da_vbdc_credit = 0\<rparr>"

text \<open>The start of a DVB-RCS agent: the constructors, \<open>initParent\<close> and \<open>init\<close>.\<close>

definition da_start :: "'e dama_agent \<Rightarrow> fmt_table \<Rightarrow> time_ms_t \<Rightarrow> time_sf_t \<Rightarrow> time_sf_t \<Rightarrow> u32 \<Rightarrow> (u8, 'e dvb_fifo) omap
    \<Rightarrow> (bool \<times> 'e dama_agent) res" where
  "da_start junk tb frame_ms msl sync fixed_length fifos =
     (let (ok, a) = da_initParent frame_ms msl sync fifos (new_dama_agent junk tb)
      in if \<not> ok then Inr (False, a) else da_init (rcs_generateUnitConverter fixed_length) a)"

section \<open>Messages of the gateway\<close>

definition da_hereIsLogonResp :: "data \<Rightarrow> 'e dama_agent \<Rightarrow> (bool \<times> 'e dama_agent) res" where
  "da_hereIsLogonResp response a =
     res_bind (lresp_getGroupId response) (\<lambda>g. res_bind (lresp_getLogonId response) (\<lambda>i.
       Inr (True, a\<lparr>da_group_id := g, da_tal_id := i\<rparr>)))"

definition da_parent_hereIsSOF :: "time_sf_t \<Rightarrow> 'e dama_agent \<Rightarrow> bool \<times> 'e dama_agent" where
  "da_parent_hereIsSOF sf a = (True, a\<lparr>da_superframe := sf\<rparr>)"

definition da_hereIsSOF :: "time_sf_t \<Rightarrow> 'e dama_agent \<Rightarrow> bool \<times> 'e dama_agent" where
  "da_hereIsSOF sf a =
     (let (ok, a1) = da_parent_hereIsSOF sf a
      in if \<not> ok then (False, a1)
         else (True, a1\<lparr>da_rbdc_timer := da_rbdc_timer a1 + 1, da_dynamic_kb := da_allocated_kb a1, da_allocated_kb := 0\<rparr>))"

text \<open>One burst time plan of \<open>hereIsTTP\<close>.\<close>

definition da_plan :: "time_plan \<Rightarrow> 'e dama_agent \<Rightarrow> 'e dama_agent" where
  "da_plan p a =
     (case ft_getDefinition (da_table a) (tp_fmt p) of
        None \<Rightarrow> a\<lparr>da_modcod := tp_fmt p, da_converter := uc_setModulationEfficiency 0 (da_converter a)\<rparr>
      | Some d \<Rightarrow> a\<lparr>da_modcod := tp_fmt p, da_converter := uc_setModulationEfficiency (fd_eff d) (da_converter a),
                    da_allocated_kb := da_allocated_kb a + tp_assignment p\<rparr>)"

text \<open>The bytes of the TTP, which \<open>getTp\<close> converts in place, are thrown away by the caller.\<close>

definition da_hereIsTTP :: "data \<Rightarrow> 'e dama_agent \<Rightarrow> (bool \<times> 'e dama_agent) res" where
  "da_hereIsTTP ttp a =
     (let a0 = a\<lparr>da_allocated_kb := 0\<rparr> in
      res_bind (ttp_getGroupId ttp) (\<lambda>g.
        if da_group_id a \<noteq> g then Inr (True, a0)
        else res_bind (ttp_getTp (da_tal_id a) [] ttp) (\<lambda>(ok, tps, d).
          if \<not> ok then Inr (True, a0)
          else let a1 = fold (\<lambda>(n, p). da_plan p) tps a0
               in res_bind (uc_pfToPs (da_converter a1) (ucast (da_allocated_kb a1))) (\<lambda>kbps. Inr (True, a1)))))"

section \<open>Start of a frame and emission\<close>

definition da_processOnFrameTick :: "'e dama_agent \<Rightarrow> bool \<times> 'e dama_agent" where
  "da_processOnFrameTick a =
     (True, a\<lparr>da_remaining_b := ucast (da_dynamic_kb a) * 1000, da_burst_b := uc_getPacketBitLength (da_converter a)\<rparr>)"

definition rcs2_processOnFrameTick :: "'e dama_agent \<Rightarrow> (bool \<times> 'e dama_agent) res" where
  "rcs2_processOnFrameTick a =
     (let (ok, a1) = da_processOnFrameTick a in
      if \<not> ok then Inr (False, a1)
      else case ft_getDefinition (da_table a1) (da_modcod a1) of
             None \<Rightarrow> Inr (False, a1)
           | Some d \<Rightarrow> res_bind (fd_removeFec d (da_burst_b a1)) (\<lambda>b. Inr (True, a1\<lparr>da_burst_b := b\<rparr>)))"

text \<open>
  \<open>returnSchedule\<close>: \<open>schedule\<close> is the virtual \<open>ret_schedule->schedule\<close> on the maximal burst length, the allocation
  and the FIFOs; \<open>frames\<close> are those already in the list.
\<close>

definition da_returnSchedule ::
    "(vol_b_t \<Rightarrow> vol_b_t \<Rightarrow> (u8, 'e dvb_fifo) omap \<Rightarrow> (bool \<times> dvb_frame list \<times> vol_b_t \<times> (u8, 'e dvb_fifo) omap) res)
      \<Rightarrow> dvb_frame list \<Rightarrow> 'e dama_agent \<Rightarrow> (bool \<times> dvb_frame list \<times> 'e dama_agent) res" where
  "da_returnSchedule schedule frames a =
     res_bind (uc_pfToPs (da_converter a) (da_remaining_b a div 1000)) (\<lambda>_.
     res_bind (schedule (da_burst_b a) (da_remaining_b a) (da_fifos a)) (\<lambda>(ok, fs, remaining, fifos).
       let a1 = a\<lparr>da_fifos := fifos\<rparr> in
       if \<not> ok then Inr (False, frames @ fs, a1)
       else let frames' = map (\<lambda>f. if df_getMessageType f = MSG_TYPE_DVB_BURST then rcs_setModcodId (da_modcod a) f else f)
                            (frames @ fs)
            in res_bind (uc_pfToPs (da_converter a) (remaining div 1000)) (\<lambda>_.
                 Inr (True, frames', a1\<lparr>da_remaining_b := remaining\<rparr>))))"

section \<open>Capacity requests\<close>

definition C_MAX_RBDC_IN_SAC :: rate_kbps_t where "C_MAX_RBDC_IN_SAC = 16320"
definition C_MAX_VBDC_IN_SAC :: vol_kb_t where "C_MAX_VBDC_IN_SAC = 4080"

definition checkRbdcRequest :: "rate_kbps_t \<Rightarrow> rate_kbps_t" where
  "checkRbdcRequest v = min v C_MAX_RBDC_IN_SAC"

definition checkVbdcRequest :: "vol_kb_t \<Rightarrow> vol_kb_t" where
  "checkVbdcRequest v = min v C_MAX_VBDC_IN_SAC"

definition da_getMacBufferLength :: "int \<Rightarrow> 'e dama_agent \<Rightarrow> vol_b_t" where
  "da_getMacBufferLength access a =
     fold (\<lambda>(q, f) n. if fi_access_type f = access then n + push_bit 3 (fi_cur_length_bytes f) else n) (da_fifos a) 0"

definition da_getMacBufferArrivals :: "int \<Rightarrow> 'e dama_agent \<Rightarrow> vol_b_t" where
  "da_getMacBufferArrivals access a =
     fold (\<lambda>(q, f) n. if fi_access_type f = access then n + push_bit 3 (fi_new_length_bytes f) else n) (da_fifos a) 0"

text \<open>An \<open>int\<close> out of its range is undefined.\<close>

definition int32 :: "int \<Rightarrow> int res" where
  "int32 n = (if - 2147483648 \<le> n \<and> n < 2147483648 then Inr n else Inl Unrepresentable)"

text \<open>
  \<open>computeRbdcRequest\<close>. The products are unsigned and wrap, the conversions to \<open>int\<close> keep the bits; the quotient
  of two \<open>int\<close> truncates towards 0.
\<close>

definition da_rbdc_need :: "vol_b_t \<Rightarrow> rate_kbps_t \<Rightarrow> 'e dama_agent \<Rightarrow> int res" where
  "da_rbdc_need length_b in_msl_kbps a =
     (let num = sint (length_b - ucast (da_rbdc_timer a) * da_frame_ms a * ucast in_msl_kbps);
          den = sint (da_frame_ms a * ucast (da_msl_sf a))
      in if den = 0 then Inl DivByZero else int32 (num sdiv den))"

definition da_rbdc_arrived :: "vol_b_t \<Rightarrow> 'e dama_agent \<Rightarrow> int res" where
  "da_rbdc_arrived arrival_b a =
     (let den = ucast (da_rbdc_timer a) * da_frame_ms a
      in if den = 0 then Inl DivByZero else int32 (uint (arrival_b div den)))"

definition da_computeRbdcRequest :: "'e dama_agent \<Rightarrow> rate_kbps_t res" where
  "da_computeRbdcRequest a =
     (case da_buffer a of
        None \<Rightarrow> Inl NullDeref
      | Some buf \<Rightarrow>
          res_bind (da_rbdc_need (da_getMacBufferLength DvbFifo.access_dama_rbdc a) (cb_GetSum buf) a) (\<lambda>req.
          res_bind (if da_rbdc_timer a \<noteq> 0
                    then res_bind (da_rbdc_arrived (da_getMacBufferArrivals DvbFifo.access_dama_rbdc a) a) (\<lambda>n.
                           int32 (n + max 0 req))
                    else Inr (max 0 req))
            (\<lambda>kbps. Inr (checkRbdcRequest (of_int kbps)))))"

definition da_computeVbdcRequest :: "'e dama_agent \<Rightarrow> (vol_kb_t \<times> 'e dama_agent) res" where
  "da_computeVbdcRequest a =
     (let a0 = a\<lparr>da_vbdc_credit := 0\<rparr> in
      res_bind (ceil_uint (f64 (rat_of_word (da_getMacBufferLength DvbFifo.access_dama_vbdc a) / 1000))) (\<lambda>need_kb.
        let request_kb = checkVbdcRequest (of_int (max 0 (uint (need_kb :: u16) - uint (da_vbdc_credit a0))))
        in Inr (request_kb, a0\<lparr>da_vbdc_credit := da_vbdc_credit a0 + request_kb\<rparr>)))"

text \<open>The RBDC request that \<open>buildSAC\<close> computes, when it is one to send.\<close>

definition da_rbdc_cr :: "'e dama_agent \<Rightarrow> rate_kbps_t option res" where
  "da_rbdc_cr a =
     (if da_rbdc_enabled a
      then res_bind (da_computeRbdcRequest a) (\<lambda>kbps.
             case da_buffer a of
               None \<Rightarrow> Inl NullDeref
             | Some buf \<Rightarrow> Inr (if 0 < kbps \<or> kbps \<noteq> cb_GetPreviousValue buf then Some kbps else None))
      else Inr None)"

definition da_vbdc_cr :: "'e dama_agent \<Rightarrow> (vol_kb_t option \<times> 'e dama_agent) res" where
  "da_vbdc_cr a =
     (if da_vbdc_enabled a
      then res_bind (da_computeVbdcRequest a) (\<lambda>(kb, a1). Inr (if 0 < kb then Some kb else None, a1))
      else Inr (None, a))"

definition da_record_rbdc :: "rate_kbps_t option \<Rightarrow> 'e dama_agent \<Rightarrow> 'e dama_agent res" where
  "da_record_rbdc cr a =
     (case da_buffer a of
        None \<Rightarrow> Inl NullDeref
      | Some buf \<Rightarrow>
          (case cr of
             None \<Rightarrow> Inr (a\<lparr>da_buffer := Some (cb_Update 0 buf)\<rparr>)
           | Some kbps \<Rightarrow> Inr (a\<lparr>da_rbdc_timer := 0, da_buffer := Some (cb_Update kbps buf),
               da_fifos := map (\<lambda>(q, f). (q, fifo_resetNew DvbFifo.access_dama_rbdc f)) (da_fifos a)\<rparr>)))"

text \<open>\<open>buildSAC\<close>: \<open>empty\<close>, the message and the agent; it always returns true.\<close>

definition da_buildSAC :: "sac \<Rightarrow> 'e dama_agent \<Rightarrow> (bool \<times> sac \<times> 'e dama_agent) res" where
  "da_buildSAC s a =
     res_bind (da_rbdc_cr a) (\<lambda>rbdc.
     res_bind (da_vbdc_cr a) (\<lambda>(vbdc, a1).
       if rbdc = None \<and> vbdc = None then Inr (True, s, a1)
       else let s1 = (case rbdc of None \<Rightarrow> s | Some kbps \<Rightarrow> snd (sac_addRequest 0 DamaCtrl.access_dama_rbdc (ucast kbps) s)) in
            res_bind (da_record_rbdc rbdc a1) (\<lambda>a2.
              Inr (False, case vbdc of None \<Rightarrow> s1 | Some kb \<Rightarrow> snd (sac_addRequest 0 DamaCtrl.access_dama_vbdc (ucast kb) s1), a2))))"

section \<open>The life of an agent\<close>

text \<open>What the DVB block does with a DVB-RCS agent; \<open>AgFifos\<close> is any change of the FIFOs, which it fills.\<close>

datatype 'e da_event =
    AgLogonResp data
  | AgSof time_sf_t
  | AgTtp data
  | AgTick
  | AgSchedule "dvb_frame list"
  | AgSac sac
  | AgFifos "(u8, 'e dvb_fifo) omap"

fun da_step ::
    "(vol_b_t \<Rightarrow> vol_b_t \<Rightarrow> (u8, 'e dvb_fifo) omap \<Rightarrow> (bool \<times> dvb_frame list \<times> vol_b_t \<times> (u8, 'e dvb_fifo) omap) res)
      \<Rightarrow> 'e da_event \<Rightarrow> 'e dama_agent \<Rightarrow> 'e dama_agent res" where
  "da_step schedule (AgLogonResp d) a = res_bind (da_hereIsLogonResp d a) (\<lambda>(ok, a'). Inr a')"
| "da_step schedule (AgSof sf) a = Inr (snd (da_hereIsSOF sf a))"
| "da_step schedule (AgTtp d) a = res_bind (da_hereIsTTP d a) (\<lambda>(ok, a'). Inr a')"
| "da_step schedule AgTick a = Inr (snd (da_processOnFrameTick a))"
| "da_step schedule (AgSchedule fs) a = res_bind (da_returnSchedule schedule fs a) (\<lambda>(ok, fs', a'). Inr a')"
| "da_step schedule (AgSac s) a = res_bind (da_buildSAC s a) (\<lambda>(empty, s', a'). Inr a')"
| "da_step schedule (AgFifos fs) a = Inr (a\<lparr>da_fifos := fs\<rparr>)"

definition da_run where
  "da_run schedule = res_fold (da_step schedule)"

section \<open>DVB-RCS2\<close>

text \<open>\<open>DamaAgentRcs2Legacy\<close> has the same two computations, copied.\<close>

definition rcs2_computeRbdcRequest :: "'e dama_agent \<Rightarrow> rate_kbps_t res" where
  "rcs2_computeRbdcRequest = da_computeRbdcRequest"

definition rcs2_computeVbdcRequest :: "'e dama_agent \<Rightarrow> (vol_kb_t \<times> 'e dama_agent) res" where
  "rcs2_computeVbdcRequest = da_computeVbdcRequest"

end
