(* ===== verification/DvbMsgCorrect.thy ===== *)
theory DvbMsgCorrect
  imports DvbMsg
begin

text \<open>
  The signalling messages read back: the fields of the start of frame and of the log on and off messages, the
  capacity requests up to the granularity of their coding, and the burst time plans of one frame.
\<close>

section \<open>Fields\<close>

lemma rd16_at:
  assumes "length p = i"
  shows "rd16 (p @ be16 w @ q) i = w"
  by (rule rd16_be16) (simp_all add: assms [symmetric] byte_at_def nth_append be16_def)

lemma rd32_at:
  assumes "length p = i"
  shows "rd32 (p @ be32 w @ q) i = w"
proof (rule rd32_be32)
  fix k :: nat assume "k < 4"
  then show "byte_at (p @ be32 w @ q) (i + k) = be32 w ! k" by (simp add: assms [symmetric] byte_at_def nth_append)
qed

lemma fld16_at: "length p = i \<Longrightarrow> fld16 (p @ be16 w @ q) i = Inr w"
  by (simp add: fld16_def rd16_at)

lemma fld32_at: "length p = i \<Longrightarrow> fld32 (p @ be32 w @ q) i = Inr w"
  by (simp add: fld32_def rd32_at)

lemma fld8_at: "length p = i \<Longrightarrow> fld8 (p @ w # q) i = Inr w"
  by (simp add: fld8_def nth_append)

lemma length_le16 [simp]: "length (le16 w) = 2"
  by (simp add: le16_def)

lemma fld16_le_at:
  assumes "length p = i"
  shows "fld16_le (p @ le16 w @ q) i = Inr w"
proof -
  have "unat (of_nat (unat w div 256) :: u8) = unat w div 256" "unat (of_nat (unat w mod 256) :: u8) = unat w mod 256"
    using unat_u16_less [of w] by (simp_all add: u8_of_nat_id)
  then show ?thesis
    using assms by (simp add: fld16_le_def le16_def nth_append del: of_nat_add of_nat_mult)
qed

lemmas fld_at = fld8_at fld16_at fld32_at fld16_le_at

text \<open>Reading behind writes to other fields.\<close>

lemma rd32_put_at [simp]: "i + 4 \<le> length d \<Longrightarrow> rd32 (put_at d i (be32 w)) i = w"
  by (rule rd32_be32, rule byte_at_put_at_in) simp_all

lemma rd32_put_at_other:
  "i + length bs \<le> length d \<Longrightarrow> j + 4 \<le> i \<or> i + length bs \<le> j \<Longrightarrow> rd32 (put_at d i bs) j = rd32 d j"
  unfolding rd32_def by (subst (1 2 3 4) byte_at_put_at_other) auto

lemma rd16_append [simp]: "i + 2 \<le> length d \<Longrightarrow> rd16 (d @ e) i = rd16 d i"
  by (rule rd16_cong) (simp_all add: byte_at_def nth_append)

lemma rd32_append [simp]: "i + 4 \<le> length d \<Longrightarrow> rd32 (d @ e) i = rd32 d i"
  unfolding rd32_def by (simp add: byte_at_def nth_append)


lemma fld_rd:
  "i + 1 \<le> length d \<Longrightarrow> fld8 d i = Inr (byte_at d i)"
  "i + 2 \<le> length d \<Longrightarrow> fld16 d i = Inr (rd16 d i)"
  "i + 2 \<le> length d \<Longrightarrow> fld16_le d i = Inr (rd16_le d i)"
  "i + 4 \<le> length d \<Longrightarrow> fld32 d i = Inr (rd32 d i)"
  by (simp_all add: fld8_def fld16_def fld16_le_def fld32_def rd16_le_def byte_at_def)

lemma rd16_le_put_at [simp]: "i + 2 \<le> length d \<Longrightarrow> rd16_le (put_at d i (le16 w)) i = w"
proof -
  assume l: "i + 2 \<le> length d"
  have "unat (of_nat (unat w div 256) :: u8) = unat w div 256" "unat (of_nat (unat w mod 256) :: u8) = unat w mod 256"
    using unat_u16_less [of w] by (simp_all add: u8_of_nat_id)
  moreover have "byte_at (put_at d i (le16 w)) i = le16 w ! 0" "byte_at (put_at d i (le16 w)) (i + 1) = le16 w ! 1"
    using byte_at_put_at_in [of i "le16 w" d 0] byte_at_put_at_in [of i "le16 w" d 1] l by simp_all
  ultimately show ?thesis
    by (simp add: rd16_le_def le16_def del: of_nat_add of_nat_mult)
qed

lemma rd16_le_put_at_other:
  "i + length bs \<le> length d \<Longrightarrow> j + 2 \<le> i \<or> i + length bs \<le> j \<Longrightarrow> rd16_le (put_at d i bs) j = rd16_le d j"
  unfolding rd16_le_def by (subst (1 2) byte_at_put_at_other) auto

lemma rd16_le_append [simp]: "i + 2 \<le> length d \<Longrightarrow> rd16_le (d @ e) i = rd16_le d i"
  by (simp add: rd16_le_def byte_at_def nth_append)

lemma byte_at_put_at [simp]: "i + 1 \<le> length d \<Longrightarrow> byte_at (put_at d i [b]) i = b"
  using byte_at_put_at_in [of i "[b]" d 0] by simp

lemmas rd_other = rd16_put_at_other rd32_put_at_other rd16_le_put_at_other byte_at_put_at_other

lemma df_put_simps [simp]:
  "df_data (df_put i bs f) = put_at (df_data f) i bs"
  "df_data (df_setMaxSize n f) = df_data f"
  "df_data (df_setMessageLength l f) = put_at (df_data f) 0 (be16 l)"
  by (simp_all add: df_put_def df_setMaxSize_def df_setMessageLength_def)

lemma new_msg_data:
  "3 \<le> n \<Longrightarrow> length (df_data (new_msg ty n)) = n"
  "3 \<le> n \<Longrightarrow> rd16 (df_data (new_msg ty n)) 0 = of_nat n"
  by (simp_all add: new_msg_def df_setMessageLength_def df_setMessageType_def new_dvb_frame_def)

lemmas msg_reads = fld_rd rd_other new_msg_data

section \<open>Start of frame, log on, log off\<close>

lemma sof_roundtrip: "sof_getSuperFrameNumber (df_data (new_sof sf)) = Inr sf"
  by (simp add: sof_getSuperFrameNumber_def new_sof_def msg_reads)

lemma logon_request_roundtrip:
  "lreq_getMac (df_data (new_logon_request r scpc)) = Inr (lr_mac r)"
  "lreq_getRtBandwidth (df_data (new_logon_request r scpc)) = Inr (lr_rt_bandwidth r)"
  "lreq_getMaxRbdc (df_data (new_logon_request r scpc)) = Inr (lr_max_rbdc r)"
  "lreq_getMaxVbdc (df_data (new_logon_request r scpc)) = Inr (lr_max_vbdc r)"
  "lreq_getIsScpc (df_data (new_logon_request r scpc)) = Inr scpc"
  by (simp_all add: lreq_getMac_def lreq_getRtBandwidth_def lreq_getMaxRbdc_def lreq_getMaxVbdc_def lreq_getIsScpc_def
      new_logon_request_def msg_reads)

lemma logon_response_roundtrip:
  "lresp_getMac (df_data (new_logon_response m g i)) = Inr m"
  "lresp_getGroupId (df_data (new_logon_response m g i)) = Inr g"
  "lresp_getLogonId (df_data (new_logon_response m g i)) = Inr i"
  by (simp_all add: lresp_getMac_def lresp_getGroupId_def lresp_getLogonId_def new_logon_response_def msg_reads)

lemma logoff_roundtrip: "logoff_getMac (df_data (new_logoff m)) = Inr m"
  by (simp add: logoff_getMac_def new_logoff_def msg_reads)

section \<open>Capacity requests\<close>

text \<open>How far the decoded value of a request may be from the one asked for, and up to which value.\<close>

definition cr_error :: "u8 \<Rightarrow> nat \<Rightarrow> nat" where
  "cr_error type v = (if type = access_dama_vbdc then if v \<le> 255 then 0 else 8
     else if v \<le> 510 then 1 else if v \<le> 8160 then 16 else 32)"

definition cr_limit :: "u8 \<Rightarrow> nat" where
  "cr_limit type = (if type = access_dama_vbdc then 4080 else 16320)"

lemma encoded_value:
  assumes "0 < h" "h \<le> 128" "unat v \<le> 255 * (2 * h)"
  shows "unat (getEncodedRequestValue v (2 * h)) * (2 * h) \<le> unat v + h"
    "unat v \<le> unat (getEncodedRequestValue v (2 * h)) * (2 * h) + h"
proof -
  let ?q = "unat v div (2 * h)" and ?r = "unat v mod (2 * h)"
  have v: "?q * (2 * h) + ?r = unat v" by (rule div_mult_mod_eq)
  have r: "?r < 2 * h" using assms(1) by simp
  then have r8: "unat (of_nat ?r :: u8) = ?r" using assms(2) by (intro u8_of_nat_id) linarith
  have q: "?q \<le> 255" using assms(1,3) by (metis div_le_mono less_mult_imp_div_less mult_0_right nonzero_mult_div_cancel_right
        nat_mult_eq_cancel_disj not_gr0 zero_neq_numeral)
  have "unat (getEncodedRequestValue v (2 * h)) = (if ?r < h then ?q else ?q + 1)"
  proof (cases "?r < h")
    case True
    then show ?thesis using q r8 by (simp add: getEncodedRequestValue_def Let_def u8_of_nat_id)
  next
    case False
    have "?q < 255"
    proof (rule ccontr)
      assume "\<not> ?q < 255"
      then have "?q = 255" using q by simp
      then show False using v assms(1,3) False by simp
    qed
    moreover have "(of_nat ?q + 1 :: u8) = of_nat (?q + 1)" by simp
    ultimately have "unat (of_nat ?q + 1 :: u8) = ?q + 1" by (simp only: u8_of_nat_id)
    then show ?thesis using False r8 by (simp add: getEncodedRequestValue_def Let_def)
  qed
  then show "unat (getEncodedRequestValue v (2 * h)) * (2 * h) \<le> unat v + h"
    "unat v \<le> unat (getEncodedRequestValue v (2 * h)) * (2 * h) + h"
    using v r by (simp_all add: algebra_simps split: if_splits)
qed

definition cr_close :: "nat \<Rightarrow> nat \<Rightarrow> nat \<Rightarrow> bool" where
  "cr_close e x y \<longleftrightarrow> x \<le> y + e \<and> y \<le> x + e"

lemma encoded_close:
  assumes "0 < h" "h \<le> 128" "step = 2 * h" "unat v \<le> 255 * step" "unat (v :: u16) < 65000"
  shows "cr_close h (unat (of_nat (unat (getEncodedRequestValue v step) * step) :: u16)) (unat v)"
proof -
  note b = encoded_value [OF assms(1,2) assms(4) [unfolded assms(3)], folded assms(3)]
  then have "unat (getEncodedRequestValue v step) * step < 65536" using assms(2,5) by linarith
  then show ?thesis using b by (simp add: cr_close_def u16_of_nat_id del: of_nat_mult)
qed

lemma unat_ucast_u32_u16: "unat (w :: u32) < 65536 \<Longrightarrow> unat (ucast w :: u16) = unat w"
  by (simp add: unsigned_ucast_eq take_bit_nat_eq_self)

lemma unat_ucast_u32_u8: "unat (w :: u32) < 256 \<Longrightarrow> unat (ucast w :: u8) = unat w"
  by (simp add: unsigned_ucast_eq take_bit_nat_eq_self)

lemma unat_ucast_u8_u16: "unat (ucast (w :: u8) :: u16) = unat w"
  using unat_u8_less [of w] by (simp add: unsigned_ucast_eq take_bit_nat_eq_self)

lemmas cr_constants = DVB_CR_VBDC_SCALING_FACTOR_OFFSET_def DVB_CR_VBDC_SCALING_FACTOR_def
  DVB_CR_RBDC_SCALING_FACTOR_OFFSET_def DVB_CR_RBDC_SCALING_FACTOR_def DVB_CR_RBDC_SCALING_FACTOR2_def
  DVB_CR_RBDC_GRANULARITY_def access_dama_vbdc_def access_dama_rbdc_def

lemma scale_and_value:
  assumes "type \<in> {access_dama_vbdc, access_dama_rbdc}" "unat value \<le> cr_limit type" "getScaleAndValue type value = (scale, val)"
  shows "cr_close (cr_error type (unat value)) (unat (getDecodedCrValue type scale val)) (unat value) \<and> unat scale < 3"
proof -
  have "unat value \<le> 16320" using assms(2) by (auto simp: cr_limit_def split: if_splits)
  then have v: "unat (ucast value :: u16) = unat value" by (intro unat_ucast_u32_u16) simp
  show ?thesis
  proof (cases "type = access_dama_vbdc")
    case True
    then have "unat value \<le> 4080" using assms(2) by (simp add: cr_limit_def)
    then show ?thesis using assms(3) True v encoded_close [of 8 16 "ucast value"]
      by (auto simp: getScaleAndValue_def getDecodedCrValue_def cr_error_def cr_constants cr_close_def unat_ucast_u32_u8
          unat_ucast_u8_u16 simp del: of_nat_mult split: if_splits)
  next
    case False
    then have t: "type = access_dama_rbdc" using assms(1) by simp
    show ?thesis using \<open>unat value \<le> 16320\<close> assms(3) t v encoded_close [of 1 2 "ucast value"] encoded_close [of 16 32 "ucast value"]
        encoded_close [of 32 64 "ucast value"]
      by (auto simp: getScaleAndValue_def getDecodedCrValue_def cr_error_def cr_constants cr_close_def
          mult.assoc simp del: of_nat_mult split: if_splits)
  qed
qed

text \<open>The two bytes of a request.\<close>

lemma cr_bytes_fields:
  assumes "unat prio < 4" "unat scale < 4" "unat type < 16"
  shows "cr_bytes prio scale type val = [b, v] \<Longrightarrow> v = val \<and> of_nat (unat b mod 4) = prio
    \<and> of_nat (unat b div 4 mod 4) = scale \<and> of_nat (unat b div 16) = type"
proof -
  assume c: "cr_bytes prio scale type val = [b, v]"
  have m: "unat prio mod 4 = unat prio" "unat scale mod 4 = unat scale" "unat type mod 16 = unat type" using assms by simp_all
  let ?n = "unat prio + unat scale * 4 + unat type * 16"
  have n: "?n < 256" using assms by linarith
  have "b = of_nat ?n" "v = val" using c by (simp_all only: cr_bytes_def m list.inject)
  then have "unat b = ?n" by (simp only: u8_of_nat_id [OF n])
  moreover have "?n mod 4 = unat prio" "?n div 4 mod 4 = unat scale" "?n div 16 = unat type"
  proof -
    have n4: "?n = unat prio + (unat scale + unat type * 4) * 4" by simp
    have q: "?n div 4 = unat scale + unat type * 4" using assms(1) unfolding n4 by (subst div_mult_self1) simp_all
    show "?n mod 4 = unat prio" using assms(1) unfolding n4 by (subst mod_mult_self1) simp
    show "?n div 4 mod 4 = unat scale" using assms(2) unfolding q by (subst mod_mult_self1) simp
    have "?n div 16 = ?n div 4 div 4" by (simp add: div_mult2_eq [symmetric])
    then show "?n div 16 = unat type" using assms(2) unfolding q by (simp add: div_mult_self1)
  qed
  ultimately show ?thesis using \<open>v = val\<close> by simp
qed

lemma new_sac_data:
  "length (df_data (sac_frame (new_sac t g))) = 12" "sac_request_nbr (new_sac t g) = 0"
  "byte_at (df_data (sac_frame (new_sac t g))) 7 = 0"
  "rd16 (df_data (sac_frame (new_sac t g))) 3 = t" "rd16_le (df_data (sac_frame (new_sac t g))) 5 = g"
  by (simp_all add: new_sac_def sizeof_SAC_def msg_reads)

text \<open>A message with one request, and with no room for another.\<close>

lemma sac_one_request:
  fixes prio :: u8 and t :: tal_id_t and g :: u16
  assumes "getScaleAndValue type value = (scale, val)"
  defines "s \<equiv> snd (sac_addRequest prio type value (new_sac t g))"
  shows "\<exists>h. df_data (sac_frame s) = h @ cr_bytes prio scale type val \<and> length h = 12 \<and> byte_at h 7 = 1
      \<and> rd16 h 3 = t \<and> rd16_le h 5 = g" "sac_request_nbr s = 1"
proof -
  let ?d = "df_data (sac_frame (new_sac t g))"
  let ?c = "cr_bytes prio scale type val"
  have c: "length ?c = 2" by (simp add: cr_bytes_def)
  have put: "put_at (x @ ?c) i bs = put_at x i bs @ ?c" if "i + length bs \<le> length x" for x i bs
    using that by (simp add: put_at_def)
  have "\<exists>l. df_data (sac_frame s) = put_at (put_at ?d 7 [1]) 0 (be16 l) @ ?c"
    using assms(1) by (simp add: s_def sac_addRequest_def NBR_MAX_CR_def new_sac_data Let_def byte_at_append1 put) blast
  then obtain l where l: "df_data (sac_frame s) = put_at (put_at ?d 7 [1]) 0 (be16 l) @ ?c" ..
  show "\<exists>h. df_data (sac_frame s) = h @ ?c \<and> length h = 12 \<and> byte_at h 7 = 1 \<and> rd16 h 3 = t \<and> rd16_le h 5 = g"
    by (rule exI [of _ "put_at (put_at ?d 7 [1]) 0 (be16 l)"]) (simp add: l new_sac_data rd_other)
  show "sac_request_nbr s = 1"
    using assms(1) by (simp add: s_def sac_addRequest_def NBR_MAX_CR_def new_sac_data Let_def)
qed

lemma sac_full: "sac_request_nbr s = 1 \<Longrightarrow> sac_addRequest prio type value s = (False, s)"
  by (simp add: sac_addRequest_def NBR_MAX_CR_def)

lemma sac_request_read:
  fixes t :: tal_id_t and g :: u16
  assumes "unat prio < 4" "type \<in> {access_dama_vbdc, access_dama_rbdc}" "unat value \<le> cr_limit type"
  defines "d \<equiv> df_data (sac_frame (snd (sac_addRequest prio type value (new_sac t g))))"
  shows "sac_getTerminalId d = Inr t \<and> sac_getGroupId d = Inr g
    \<and> (\<exists>r. sac_getRequests d = Inr [r] \<and> cr_prio r = prio \<and> cr_type r = type
         \<and> cr_close (cr_error type (unat value)) (unat (cr_value r)) (unat value))"
proof -
  obtain scale val where sv: "getScaleAndValue type value = (scale, val)" by force
  note n = scale_and_value [OF assms(2,3) sv]
  obtain h where h: "d = h @ cr_bytes prio scale type val" "length h = 12" "byte_at h 7 = 1" "rd16 h 3 = t" "rd16_le h 5 = g"
    using sac_one_request(1) [OF sv, of prio t g] unfolding d_def by blast
  obtain b v where bv: "cr_bytes prio scale type val = [b, v]" by (simp add: cr_bytes_def)
  have ty: "unat type < 16" using assms(2) by (auto simp: access_dama_vbdc_def access_dama_rbdc_def)
  note f = cr_bytes_fields [OF assms(1) _ ty bv]
  have d: "byte_at d 7 = 1" "fld8 d 12 = Inr b" "fld8 d 13 = Inr v" "length d = 14" "fld8 d 7 = Inr 1"
    using h bv by (simp_all add: byte_at_append1 fld8_def nth_append byte_at_def)
  have "sac_getRequests d = Inr [\<lparr>cr_prio = prio, cr_type = type, cr_value = ucast (getDecodedCrValue type scale val)\<rparr>]"
    using d f n by (simp add: sac_getRequests_def sac_request_def sizeof_SAC_def)
  moreover have "unat (ucast (getDecodedCrValue type scale val) :: u32) = unat (getDecodedCrValue type scale val)"
    using unat_u16_less [of "getDecodedCrValue type scale val"] by (simp add: unsigned_ucast_eq take_bit_nat_eq_self)
  ultimately show ?thesis
    using n h by (simp add: sac_getTerminalId_def sac_getGroupId_def fld_rd cr_bytes_def)
qed

section \<open>Burst time plans\<close>

text \<open>The message of a list of plans, added in order and built.\<close>

definition ttp_of :: "data \<Rightarrow> u16 \<Rightarrow> time_sf_t \<Rightarrow> time_plan list \<Rightarrow> ttp" where
  "ttp_of junk g sf ps = snd (ttp_build junk (fold (\<lambda>p t. snd (ttp_addTimePlan p t)) ps (new_ttp g sf)))"

lemma length_tp_bytes [simp]: "length (tp_bytes p) = 10"
  by (simp add: tp_bytes_def)

lemma length_concat_tp [simp]: "length (concat (map tp_bytes ps)) = 10 * length ps"
  by (induction ps) simp_all

lemma ttp_frames_of:
  assumes "\<forall>p \<in> set ps. tp_frame p = n" "ps \<noteq> []"
  shows "fold (\<lambda>p t. snd (ttp_addTimePlan p t)) ps (new_ttp g sf)
    = (new_ttp g sf)\<lparr>ttp_frames := [(n, map tp_bytes ps)]\<rparr>"
  using assms
proof (induction ps rule: rev_induct)
  case (snoc p ps)
  then show ?case by (cases "ps = []") (simp_all add: ttp_addTimePlan_def new_ttp_def)
qed simp

lemma new_ttp_data:
  "length (df_data (ttp_frame (new_ttp g sf))) = 8" "rd16_le (df_data (ttp_frame (new_ttp g sf))) 3 = g"
  "rd16 (df_data (ttp_frame (new_ttp g sf))) 5 = sf" "ttp_frames (new_ttp g sf) = []"
  by (simp_all add: new_ttp_def sizeof_TTP_def msg_reads)

lemma ttp_layout:
  fixes g :: u16 and sf :: time_sf_t
  assumes "\<forall>p \<in> set ps. tp_frame p = n" "ps \<noteq> []"
  shows "\<exists>h. df_data (ttp_frame (ttp_of junk g sf ps)) = h @ n # le16 (of_nat (length ps)) @ concat (map tp_bytes ps)
    \<and> length h = 8 \<and> rd16 h 0 = of_nat (11 + 10 * length ps) \<and> byte_at h 7 = 1 \<and> rd16_le h 3 = g \<and> rd16 h 5 = sf"
proof -
  let ?d = "df_data (ttp_frame (new_ttp g sf))" and ?j = "take 2 (junk @ [0, 0])" and ?c = "concat (map tp_bytes ps)"
  let ?l = "le16 (of_nat (length ps))"
  have put: "put_at (x @ y) i bs = put_at x i bs @ y" if "i + length bs \<le> length x" for x y :: data and i bs
    using that by (simp add: put_at_def)
  have nine: "put_at (?d @ n # ?j @ ?c) 9 ?l = ?d @ n # ?l @ ?c"
    by (simp add: put_at_def new_ttp_data)
  let ?h = "put_at (put_at ?d 7 [1]) 0 (be16 (of_nat (11 + 10 * length ps)))"
  have "df_data (ttp_frame (ttp_of junk g sf ps)) = ?h @ n # ?l @ ?c"
    using nine by (simp add: ttp_of_def ttp_frames_of [OF assms] ttp_build_def ttp_build_frame_def Let_def
        sizeof_TTP_def sizeof_frame_info_def sizeof_tp_def new_ttp_data put del: of_nat_add of_nat_mult)
  moreover have "length ?h = 8" "rd16 ?h 0 = of_nat (11 + 10 * length ps)" "byte_at ?h 7 = 1" "rd16_le ?h 3 = g" "rd16 ?h 5 = sf"
    by (simp_all add: new_ttp_data rd_other del: of_nat_add of_nat_mult)
  ultimately show ?thesis by blast
qed

lemma ttp_empty: "\<exists>h. df_data (ttp_frame (ttp_of junk g sf [])) = h
    \<and> length h = 8 \<and> rd16 h 0 = 8 \<and> byte_at h 7 = 0 \<and> rd16_le h 3 = g \<and> rd16 h 5 = sf"
  by (simp add: ttp_of_def ttp_build_def new_ttp_data sizeof_TTP_def rd_other)

text \<open>Reading the plans back; what a plan changes in the bytes lies inside it.\<close>

definition tp_got :: "time_plan \<Rightarrow> time_plan" where
  "tp_got p = p\<lparr>tp_tal := rd16_le (be16 (tp_tal p)) 0\<rparr>"

lemma tp_got_simps [simp]:
  "tp_frame (tp_got p) = tp_frame p" "tp_offset (tp_got p) = tp_offset p" "tp_assignment (tp_got p) = tp_assignment p"
  "tp_fmt (tp_got p) = tp_fmt p" "tp_priority (tp_got p) = tp_priority p"
  by (simp_all add: tp_got_def)

lemma tp_read_bytes:
  assumes "drop pos d = tp_bytes p @ rest" "tp_frame p = n"
  shows "rd16 d pos = tp_tal p" "tp_read d pos n = tp_got p"
proof -
  have "length d - pos = 10 + length rest" using arg_cong [OF assms(1), of length] by simp
  then have len: "length (take pos d) = pos" by simp
  have d: "d = take pos d @ tp_bytes p @ rest" using assms(1) by (metis append_take_drop_id)
  let ?t = "take pos d"
  have r: "rd16 d pos = tp_tal p" "rd32 d (pos + 2) = tp_offset p" "rd16 d (pos + 6) = tp_assignment p"
    using rd16_at [OF len, of "tp_tal p" "be32 (tp_offset p) @ be16 (tp_assignment p) @ [tp_fmt p, tp_priority p] @ rest"]
      rd32_at [of "?t @ be16 (tp_tal p)" "pos + 2" "tp_offset p" "be16 (tp_assignment p) @ [tp_fmt p, tp_priority p] @ rest"]
      rd16_at [of "?t @ be16 (tp_tal p) @ be32 (tp_offset p)" "pos + 6" "tp_assignment p" "[tp_fmt p, tp_priority p] @ rest"]
      len d by (simp_all add: tp_bytes_def)
  have b: "byte_at d (pos + 8) = tp_fmt p" "byte_at d (pos + 9) = tp_priority p"
  proof -
    have "byte_at (?t @ tp_bytes p @ rest) (length ?t + 8) = tp_fmt p" "byte_at (?t @ tp_bytes p @ rest) (length ?t + 9) = tp_priority p"
      unfolding byte_at_append2 by (simp_all add: byte_at_def tp_bytes_def nth_append)
    then show "byte_at d (pos + 8) = tp_fmt p" "byte_at d (pos + 9) = tp_priority p" by (simp_all only: d [symmetric] len)
  qed
  show "rd16 d pos = tp_tal p" by (rule r)
  let ?r = "be32 (tp_offset p) @ be16 (tp_assignment p) @ [tp_fmt p, tp_priority p] @ rest"
  have d2: "d = (?t @ be16 (tp_tal p)) @ ?r" using d by (simp add: tp_bytes_def)
  have "rd16_le d pos = rd16_le ((?t @ be16 (tp_tal p)) @ ?r) pos" by (simp only: d2 [symmetric])
  also have "\<dots> = rd16_le (?t @ be16 (tp_tal p)) pos" by (rule rd16_le_append) (use len in simp)
  also have "\<dots> = rd16_le (be16 (tp_tal p)) 0"
    using len by (simp add: rd16_le_def byte_at_def nth_append)
  finally show "tp_read d pos n = tp_got p" using assms(2) unfolding tp_read_def r b by (simp add: tp_got_def)
qed

lemma tp_swap_drop:
  assumes "pos + 10 \<le> length d"
  shows "drop (pos + 10) (tp_swap d pos) = drop (pos + 10) d" "length (tp_swap d pos) = length d"
  using assms by (simp_all add: tp_swap_def put_at_def add.commute)

definition tp_add :: "tal_id_t \<Rightarrow> u8 \<Rightarrow> time_plan \<Rightarrow> (u8, time_plan) omap \<Rightarrow> (u8, time_plan) omap" where
  "tp_add tal n p m = (if tp_tal p = tal then om_put n (tp_got p) m else m)"

lemma getTp_plans_read:
  assumes "drop pos d = concat (map tp_bytes ps) @ rest" "\<forall>p \<in> set ps. tp_frame p = n"
  shows "\<exists>d'. getTp_plans tal n (length ps) pos (tps, d) = Inr (fold (tp_add tal n) ps tps, d')"
  using assms
proof (induction ps arbitrary: pos d tps)
  case (Cons p ps)
  have dr: "drop pos d = tp_bytes p @ (concat (map tp_bytes ps) @ rest)" using Cons.prems(1) by simp
  note r = tp_read_bytes [OF dr, of n]
  have len: "pos + 10 \<le> length d" using arg_cong [OF dr, of length] by simp
  have "drop (pos + 10) d = drop 10 (drop pos d)" by (simp add: add.commute)
  then have rest: "drop (pos + 10) d = concat (map tp_bytes ps) @ rest" using dr by simp
  then have swap: "drop (pos + 10) (tp_swap d pos) = concat (map tp_bytes ps) @ rest" using tp_swap_drop [OF len] by simp
  have "\<exists>d'. getTp_plans tal n (length ps) (pos + 10) (tps, d) = Inr (fold (tp_add tal n) ps tps, d')"
    "\<exists>d'. getTp_plans tal n (length ps) (pos + 10) (om_put n (tp_got p) tps, tp_swap d pos)
      = Inr (fold (tp_add tal n) ps (om_put n (tp_got p) tps), d')"
    using Cons.IH [OF rest] Cons.IH [OF swap] Cons.prems(2) by simp_all
  moreover have "tp_add tal n p tps = (if tp_tal p = tal then om_put n (tp_got p) tps else tps)" by (simp add: tp_add_def)
  ultimately show ?case using r Cons.prems(2) len by (auto simp: sizeof_tp_def)
qed simp

definition last_plan :: "tal_id_t \<Rightarrow> u8 \<Rightarrow> time_plan list \<Rightarrow> (u8, time_plan) omap" where
  "last_plan tal n ps = (case rev (filter (\<lambda>p. tp_tal p = tal) ps) of [] \<Rightarrow> [] | p # _ \<Rightarrow> [(n, tp_got p)])"

lemma tp_add_last: "fold (tp_add tal n) ps [] = last_plan tal n ps"
  by (induction ps rule: rev_induct) (auto simp: tp_add_def last_plan_def split: list.splits)

lemma ttp_read:
  fixes junk :: data and g :: u16 and sf :: time_sf_t
  assumes "\<forall>p \<in> set ps. tp_frame p = n" "length ps \<le> 6552"
  defines "d \<equiv> df_data (ttp_frame (ttp_of junk g sf ps))"
  shows "ttp_getGroupId d = Inr g \<and> ttp_getSuperframeCount d = Inr sf
    \<and> (\<exists>d'. ttp_getTp tal [] d = Inr (True, last_plan tal n ps, d'))"
proof (cases "ps = []")
  case True
  obtain h where h: "d = h" "length h = 8" "rd16 h 0 = 8" "byte_at h 7 = 0" "rd16_le h 3 = g" "rd16 h 5 = sf"
    using ttp_empty unfolding d_def True by blast
  then show ?thesis using True
    by (simp add: ttp_getGroupId_def ttp_getSuperframeCount_def ttp_getTp_def fld_rd sizeof_TTP_def last_plan_def)
next
  case False
  let ?k = "length ps" and ?l = "le16 (of_nat (length ps))" and ?c = "concat (map tp_bytes ps)"
  obtain h where h: "d = h @ n # ?l @ ?c" "length h = 8" "rd16 h 0 = of_nat (11 + 10 * ?k)" "byte_at h 7 = 1"
      "rd16_le h 3 = g" "rd16 h 5 = sf"
    using ttp_layout [OF assms(1) False] unfolding d_def by blast
  have len: "unat (of_nat (11 + 10 * ?k) :: u16) = 11 + 10 * ?k" and k: "unat (of_nat ?k :: u16) = ?k"
    using assms(2) by (simp_all only: u16_of_nat_id)
  have f: "fld16 d 0 = Inr (of_nat (11 + 10 * ?k))" "fld8 d 7 = Inr 1" "fld8 d 8 = Inr n" "fld16_le d 9 = Inr (of_nat ?k)"
  proof -
    show "fld16 d 0 = Inr (of_nat (11 + 10 * ?k))" "fld8 d 7 = Inr 1" using h by (simp_all add: fld_rd byte_at_append1)
    show "fld8 d 8 = Inr n" using h(1,2) by (simp add: fld8_at)
    show "fld16_le d 9 = Inr (of_nat ?k)" using h(1,2) fld16_le_at [of "h @ [n]" 9 "of_nat ?k" ?c] by simp
  qed
  have "drop 11 d = ?c @ []" using h(1,2) by simp
  then obtain d' where d': "getTp_plans tal n ?k 11 ([], d) = Inr (last_plan tal n ps, d')"
    using getTp_plans_read [of 11 d ps "[]" n tal "[]"] assms(1) tp_add_last by auto
  have "ttp_getTp tal [] d = Inr (True, last_plan tal n ps, d')"
    using f d' len k by (simp add: ttp_getTp_def sizeof_TTP_def sizeof_frame_info_def sizeof_tp_def Let_def del: of_nat_add of_nat_mult)
  then show ?thesis using h by (simp add: ttp_getGroupId_def ttp_getSuperframeCount_def fld_rd)
qed

end
