(* ===== verification/Atm.thy ===== *)
theory Atm
  imports EncapPlugin "HOL-Library.Product_Lexorder"
begin

text \<open>
  The AAL5/ATM plugin: \<open>mandatory_plugins/aal5_atm/Aal5Packet.cpp\<close>, \<open>AtmCell.cpp\<close>, \<open>AtmIdentifier.h\<close> and
  \<open>Atm.cpp\<close>. An AAL5 packet is the payload, padding up to a multiple of 48 bytes, two zero bytes, the 16-bit
  length and a CRC; it travels in cells of 5 + 48 bytes, the last of which has a mark. The VPI of a cell holds
  the destination, its VCI the source and the QoS. The upper plugin is a parameter.
\<close>

section \<open>AAL5 packets\<close>

definition crc32tab :: "u32 list" where
  "crc32tab =
   [0x00000000, 0x04c11db7, 0x09823b6e, 0x0d4326d9, 0x130476dc, 0x17c56b6b, 0x1a864db2, 0x1e475005,
    0x2608edb8, 0x22c9f00f, 0x2f8ad6d6, 0x2b4bcb61, 0x350c9b64, 0x31cd86d3, 0x3c8ea00a, 0x384fbdbd,
    0x4c11db70, 0x48d0c6c7, 0x4593e01e, 0x4152fda9, 0x5f15adac, 0x5bd4b01b, 0x569796c2, 0x52568b75,
    0x6a1936c8, 0x6ed82b7f, 0x639b0da6, 0x675a1011, 0x791d4014, 0x7ddc5da3, 0x709f7b7a, 0x745e66cd,
    0x9823b6e0, 0x9ce2ab57, 0x91a18d8e, 0x95609039, 0x8b27c03c, 0x8fe6dd8b, 0x82a5fb52, 0x8664e6e5,
    0xbe2b5b58, 0xbaea46ef, 0xb7a96036, 0xb3687d81, 0xad2f2d84, 0xa9ee3033, 0xa4ad16ea, 0xa06c0b5d,
    0xd4326d90, 0xd0f37027, 0xddb056fe, 0xd9714b49, 0xc7361b4c, 0xc3f706fb, 0xceb42022, 0xca753d95,
    0xf23a8028, 0xf6fb9d9f, 0xfbb8bb46, 0xff79a6f1, 0xe13ef6f4, 0xe5ffeb43, 0xe8bccd9a, 0xec7dd02d,
    0x34867077, 0x30476dc0, 0x3d044b19, 0x39c556ae, 0x278206ab, 0x23431b1c, 0x2e003dc5, 0x2ac12072,
    0x128e9dcf, 0x164f8078, 0x1b0ca6a1, 0x1fcdbb16, 0x018aeb13, 0x054bf6a4, 0x0808d07d, 0x0cc9cdca,
    0x7897ab07, 0x7c56b6b0, 0x71159069, 0x75d48dde, 0x6b93dddb, 0x6f52c06c, 0x6211e6b5, 0x66d0fb02,
    0x5e9f46bf, 0x5a5e5b08, 0x571d7dd1, 0x53dc6066, 0x4d9b3063, 0x495a2dd4, 0x44190b0d, 0x40d816ba,
    0xaca5c697, 0xa864db20, 0xa527fdf9, 0xa1e6e04e, 0xbfa1b04b, 0xbb60adfc, 0xb6238b25, 0xb2e29692,
    0x8aad2b2f, 0x8e6c3698, 0x832f1041, 0x87ee0df6, 0x99a95df3, 0x9d684044, 0x902b669d, 0x94ea7b2a,
    0xe0b41de7, 0xe4750050, 0xe9362689, 0xedf73b3e, 0xf3b06b3b, 0xf771768c, 0xfa325055, 0xfef34de2,
    0xc6bcf05f, 0xc27dede8, 0xcf3ecb31, 0xcbffd686, 0xd5b88683, 0xd1799b34, 0xdc3abded, 0xd8fba05a,
    0x690ce0ee, 0x6dcdfd59, 0x608edb80, 0x644fc637, 0x7a089632, 0x7ec98b85, 0x738aad5c, 0x774bb0eb,
    0x4f040d56, 0x4bc510e1, 0x46863638, 0x42472b8f, 0x5c007b8a, 0x58c1663d, 0x558240e4, 0x51435d53,
    0x251d3b9e, 0x21dc2629, 0x2c9f00f0, 0x285e1d47, 0x36194d42, 0x32d850f5, 0x3f9b762c, 0x3b5a6b9b,
    0x0315d626, 0x07d4cb91, 0x0a97ed48, 0x0e56f0ff, 0x1011a0fa, 0x14d0bd4d, 0x19939b94, 0x1d528623,
    0xf12f560e, 0xf5ee4bb9, 0xf8ad6d60, 0xfc6c70d7, 0xe22b20d2, 0xe6ea3d65, 0xeba91bbc, 0xef68060b,
    0xd727bbb6, 0xd3e6a601, 0xdea580d8, 0xda649d6f, 0xc423cd6a, 0xc0e2d0dd, 0xcda1f604, 0xc960ebb3,
    0xbd3e8d7e, 0xb9ff90c9, 0xb4bcb610, 0xb07daba7, 0xae3afba2, 0xaafbe615, 0xa7b8c0cc, 0xa379dd7b,
    0x9b3660c6, 0x9ff77d71, 0x92b45ba8, 0x9675461f, 0x8832161a, 0x8cf30bad, 0x81b02d74, 0x857130c3,
    0x5d8a9099, 0x594b8d2e, 0x5408abf7, 0x50c9b640, 0x4e8ee645, 0x4a4ffbf2, 0x470cdd2b, 0x43cdc09c,
    0x7b827d21, 0x7f436096, 0x7200464f, 0x76c15bf8, 0x68860bfd, 0x6c47164a, 0x61043093, 0x65c52d24,
    0x119b4be9, 0x155a565e, 0x18197087, 0x1cd86d30, 0x029f3d35, 0x065e2082, 0x0b1d065b, 0x0fdc1bec,
    0x3793a651, 0x3352bbe6, 0x3e119d3f, 0x3ad08088, 0x2497d08d, 0x2056cd3a, 0x2d15ebe3, 0x29d4f654,
    0xc5a92679, 0xc1683bce, 0xcc2b1d17, 0xc8ea00a0, 0xd6ad50a5, 0xd26c4d12, 0xdf2f6bcb, 0xdbee767c,
    0xe3a1cbc1, 0xe760d676, 0xea23f0af, 0xeee2ed18, 0xf0a5bd1d, 0xf464a0aa, 0xf9278673, 0xfde69bc4,
    0x89b8fd09, 0x8d79e0be, 0x803ac667, 0x84fbdbd0, 0x9abc8bd5, 0x9e7d9662, 0x933eb0bb, 0x97ffad0c,
    0xafb010b1, 0xab710d06, 0xa6322bdf, 0xa2f33668, 0xbcb4666d, 0xb8757bda, 0xb5365d03, 0xb1f740b4]"

definition CRC32 :: "u8 \<Rightarrow> u32 \<Rightarrow> u32" where
  "CRC32 c crc = xor (crc32tab ! unat (and (xor (drop_bit 24 crc) (ucast c)) 0xff)) (push_bit 8 crc)"

definition a5_calcCrc :: "data \<Rightarrow> u32" where
  "a5_calcCrc d = not (fold CRC32 d 0xffffffff)"

text \<open>The result of \<open>isValid\<close> is kept in two mutable members.\<close>

record aal5 = net_packet +
  a5_checked :: bool
  a5_result :: bool

definition new_aal5_packet :: "data \<Rightarrow> aal5" where
  "new_aal5_packet d =
     net_packet.extend ((new_net_packet d)\<lparr>np_name := ''AAL5'', np_type := NET_PROTO_AAL5\<rparr>)
       \<lparr>a5_checked = False, a5_result = False\<rparr>"

definition a5_getPayloadLength :: "aal5 \<Rightarrow> nat" where
  "a5_getPayloadLength p =
     (let d = np_data p
      in if length d < 8 then 0 else unat (d ! (length d - 6)) * 256 + unat (d ! (length d - 5)))"

definition a5_crc :: "aal5 \<Rightarrow> u32" where
  "a5_crc p = (let d = np_data p in if length d < 8 then 0 else rd32 d (length d - 4))"

definition a5_isValid :: "aal5 \<Rightarrow> bool \<times> aal5" where
  "a5_isValid p =
     (if a5_checked p then (a5_result p, p)
      else let d = np_data p;
               is_valid = (8 \<le> length d \<and> a5_getPayloadLength p + 8 \<le> length d \<and> length d mod 48 = 0
                 \<and> a5_calcCrc (take (length d - 4) d) = a5_crc p)
           in (is_valid, p\<lparr>a5_result := is_valid, a5_checked := True\<rparr>))"

definition a5_getPayload :: "aal5 \<Rightarrow> data \<times> aal5" where
  "a5_getPayload p =
     (let (valid, p') = a5_isValid p
      in if \<not> valid then ([], p')
         else let payload_len = (of_nat (a5_getPayloadLength p') :: u16)
              in if payload_len \<le> 0 then ([], p') else (take (unat payload_len) (np_data p'), p'))"

definition a5_createFromPayload :: "data \<Rightarrow> aal5" where
  "a5_createFromPayload payload =
     (let last_atm_cell_len = (length payload + 8) mod 48;
          padding_len = (if 0 < last_atm_cell_len then 48 - last_atm_cell_len else 0);
          len = (of_nat (length payload) :: u16);
          d = payload @ replicate (padding_len + 2) 0 @ be16 len
      in new_aal5_packet (d @ be32 (a5_calcCrc d)))"

text \<open>The number of cells is an \<open>unsigned int\<close>, then an \<open>int\<close>; so is the offset of a cell.\<close>

definition a5_nbAtmCells :: "aal5 \<Rightarrow> u32" where
  "a5_nbAtmCells p = of_nat (length (np_data p) div 48)"

definition a5_atmCell :: "nat \<Rightarrow> aal5 \<Rightarrow> data res" where
  "a5_atmCell i p = substr (np_data p) (unat (of_nat i * 48 :: u32)) 48"

section \<open>Cells\<close>

definition ATM_LENGTH :: nat where "ATM_LENGTH = 53"

definition new_atm_cell :: "data \<Rightarrow> net_packet" where
  "new_atm_cell d = (new_net_packet d)\<lparr>np_name := ''ATM'', np_type := NET_PROTO_ATM, np_header_length := 5\<rparr>"

definition ac_isValid :: "net_packet \<Rightarrow> bool" where
  "ac_isValid c \<longleftrightarrow> nc_getTotalLength c = ATM_LENGTH"

definition ac_getVpi :: "net_packet \<Rightarrow> u8" where
  "ac_getVpi c = (if \<not> ac_isValid c then 0
     else of_nat (unat (np_data c ! 0) mod 16 * 16 + unat (np_data c ! 1) div 16))"

definition ac_getVci :: "net_packet \<Rightarrow> u16" where
  "ac_getVci c = (if \<not> ac_isValid c then 0
     else of_nat (unat (np_data c ! 1) mod 16 * 4096 + unat (np_data c ! 2) * 16 + unat (np_data c ! 3) div 16))"

definition ac_getPt :: "net_packet \<Rightarrow> u8" where
  "ac_getPt c = (if \<not> ac_isValid c then 0 else of_nat (unat (np_data c ! 3) div 2 mod 8))"

definition ac_isLastCell :: "net_packet \<Rightarrow> bool" where
  "ac_isLastCell c \<longleftrightarrow> unat (ac_getPt c) mod 2 = 1"

definition ac_getQos :: "net_packet \<Rightarrow> u8" where
  "ac_getQos c = of_nat (unat (ac_getVci c) mod 8)"

definition ac_getSrcTalId :: "net_packet \<Rightarrow> u8" where
  "ac_getSrcTalId c = of_nat (unat (ac_getVci c) div 8 mod 32)"

definition ac_getDstTalId :: "net_packet \<Rightarrow> u8" where
  "ac_getDstTalId c = of_nat (unat (ac_getVpi c) mod 32)"

definition ac_getPayload :: "net_packet \<Rightarrow> data res" where
  "ac_getPayload c = (if \<not> ac_isValid c then Inr [] else substr (np_data c) 5 (nc_getPayloadLength c))"

text \<open>The setters: \<open>at\<close> reads a byte of the header, \<open>replace\<close> overwrites it.\<close>

definition ac_upd :: "nat \<Rightarrow> (nat \<Rightarrow> nat) \<Rightarrow> net_packet \<Rightarrow> net_packet res" where
  "ac_upd i f c = res_bind (at_res (np_data c) i) (\<lambda>b.
     Inr (c\<lparr>np_data := (np_data c)[i := of_nat (f (unat b))]\<rparr>))"

definition ac_setGfc :: "u8 \<Rightarrow> net_packet \<Rightarrow> net_packet res" where
  "ac_setGfc gfc c = ac_upd 0 (\<lambda>b. unat gfc mod 16 * 16 + b mod 16) c"

definition ac_setVpi :: "u8 \<Rightarrow> net_packet \<Rightarrow> net_packet res" where
  "ac_setVpi vpi c = res_bind (ac_upd 0 (\<lambda>b. b div 16 * 16 + unat vpi div 16) c)
     (ac_upd 1 (\<lambda>b. unat vpi mod 16 * 16 + b mod 16))"

definition ac_setVci :: "u16 \<Rightarrow> net_packet \<Rightarrow> net_packet res" where
  "ac_setVci vci c = res_bind (ac_upd 1 (\<lambda>b. b div 16 * 16 + unat vci div 4096) c) (\<lambda>c1.
     res_bind (ac_upd 2 (\<lambda>b. unat vci div 16 mod 256) c1)
       (ac_upd 3 (\<lambda>b. unat vci mod 16 * 16 + b mod 16)))"

definition ac_setPt :: "u8 \<Rightarrow> net_packet \<Rightarrow> net_packet res" where
  "ac_setPt pt c = ac_upd 3 (\<lambda>b. b div 16 * 16 + b mod 2 + unat pt mod 8 * 2) c"

definition ac_setClp :: "u8 \<Rightarrow> net_packet \<Rightarrow> net_packet res" where
  "ac_setClp clp c = ac_upd 3 (\<lambda>b. b div 2 * 2 + unat clp mod 2) c"

definition ac_setIsLastCell :: "bool \<Rightarrow> net_packet \<Rightarrow> net_packet res" where
  "ac_setIsLastCell is_last c =
     ac_setPt (of_nat (unat (ac_getPt c) div 2 * 2 + (if is_last then 1 else 0))) c"

definition ac_create :: "u8 \<Rightarrow> u8 \<Rightarrow> u16 \<Rightarrow> u8 \<Rightarrow> u8 \<Rightarrow> bool \<Rightarrow> data \<Rightarrow> net_packet option res" where
  "ac_create gfc vpi vci pt clp is_last payload =
     res_bind (ac_setGfc gfc (new_atm_cell (replicate 5 0 @ payload))) (\<lambda>c.
     res_bind (ac_setVpi vpi c) (\<lambda>c.
     res_bind (ac_setVci vci c) (\<lambda>c.
     res_bind (ac_setPt pt c) (\<lambda>c.
     res_bind (ac_setIsLastCell is_last c) (\<lambda>c.
     res_bind (ac_setClp clp c) (\<lambda>c.
       Inr (if ac_isValid c then Some c else None)))))))"

text \<open>The identifiers a packet is sent with.\<close>

definition vci_of_packet :: "'a net_packet_scheme \<Rightarrow> u16" where
  "vci_of_packet p = of_nat (unat (np_src_tal_id p) mod 32 * 8 + unat (np_qos p) mod 8)"

definition vpi_of_packet :: "'a net_packet_scheme \<Rightarrow> u8" where
  "vpi_of_packet p = of_nat (unat (np_dst_tal_id p) mod 32)"

section \<open>The packet handler\<close>

definition atm_build :: "data \<Rightarrow> nat \<Rightarrow> u8 \<Rightarrow> u8 \<Rightarrow> u8 \<Rightarrow> net_packet option" where
  "atm_build d data_length qos src dst =
     (if data_length \<noteq> ATM_LENGTH then None
      else let atm_cell = new_atm_cell (take data_length d)
           in Some (full_net_packet d data_length ''AAL5/ATM'' NET_PROTO_ATM
                (ac_getQos atm_cell) (ac_getSrcTalId atm_cell) (ac_getDstTalId atm_cell) 5))"

definition atm_getChunk :: get_chunk where
  "atm_getChunk packet remaining_length =
     (if remaining_length < ATM_LENGTH then Some (None, Some packet) else Some (Some packet, None))"

definition atm_getSrc :: "data \<Rightarrow> tal_id_t option" where
  "atm_getSrc d = (let c = new_atm_cell (take ATM_LENGTH d)
     in if ac_isValid c then Some (ucast (ac_getSrcTalId c)) else None)"

definition atm_getQos :: "data \<Rightarrow> qos_t option" where
  "atm_getQos d = (let c = new_atm_cell (take ATM_LENGTH d)
     in if ac_isValid c then Some (ac_getQos c) else None)"

definition atm_hdl :: encap_hdl where
  "atm_hdl = \<lparr>eh_min = ATM_LENGTH, eh_length = (\<lambda>d. ATM_LENGTH), eh_build = atm_build\<rparr>"

section \<open>Encapsulation\<close>

text \<open>\<open>AtmIdentifier\<close> with \<open>ltAtmIdentifier\<close>: pairs in lexicographic order.\<close>

type_synonym atm_identifier = "u8 \<times> u16"

record atm =
  at_contexts :: "(atm_identifier, data) omap"
  at_dst_tal_id :: u8

text \<open>The identifiers are copied, the destination spot is not.\<close>

definition encapAal5 :: "net_packet \<Rightarrow> aal5 option" where
  "encapAal5 packet =
     (let p = (a5_createFromPayload (np_data packet))\<lparr>np_dst_tal_id := np_dst_tal_id packet,
            np_src_tal_id := np_src_tal_id packet, np_qos := np_qos packet\<rparr>;
          (valid, p') = a5_isValid p
      in if valid then Some p' else None)"

definition atm_add_cell :: "aal5 \<Rightarrow> nat \<Rightarrow> nat \<Rightarrow> net_burst \<Rightarrow> net_burst res" where
  "atm_add_cell packet nb_atm_cells i b =
     res_bind (a5_atmCell i packet) (\<lambda>payload.
     res_bind (ac_create (of_nat i) (vpi_of_packet packet) (vci_of_packet packet) 0x40 0
                 (i = nb_atm_cells - 1) payload) (\<lambda>r.
       case r of
         None \<Rightarrow> Inr b
       | Some c \<Rightarrow>
           (case atm_build (np_data c) (nc_getTotalLength c) (np_qos packet) (np_src_tal_id packet)
                   (np_dst_tal_id packet) of
              None \<Rightarrow> Inr b
            | Some a \<Rightarrow> Inr (snd (nb_add (Some (a\<lparr>np_spot := np_spot packet\<rparr>)) b)))))"

definition encapAtm :: "aal5 \<Rightarrow> net_burst \<Rightarrow> (bool \<times> net_burst) res" where
  "encapAtm packet b =
     (if np_type packet \<noteq> NET_PROTO_AAL5 then Inr (False, b)
      else let n = nat (sint (a5_nbAtmCells packet))
           in res_bind (res_fold (atm_add_cell packet n) [0..<n] b) (\<lambda>b'. Inr (True, b')))"

definition at_encap_step :: "net_packet \<Rightarrow> net_burst \<Rightarrow> net_burst res" where
  "at_encap_step packet b =
     (case encapAal5 packet of
        None \<Rightarrow> Inr b
      | Some p \<Rightarrow> res_bind (encapAtm p b) (\<lambda>(stat, b'). Inr b'))"

definition at_encapsulate :: "net_packet list \<Rightarrow> net_burst res" where
  "at_encapsulate burst = res_fold at_encap_step burst (new_net_burst 0)"

section \<open>Deencapsulation\<close>

text \<open>\<open>None\<close> is the null burst of the paths through \<open>clear\<close>.\<close>

definition deencapAtm :: "net_packet \<Rightarrow> atm \<Rightarrow> (aal5 list option \<times> atm) res" where
  "deencapAtm packet st =
     (let atm_cell = new_atm_cell (np_data packet);
          atm_id = (ac_getVpi atm_cell, ac_getVci atm_cell);
          st1 = (case om_find (at_contexts st) atm_id of
                   None \<Rightarrow> st\<lparr>at_contexts := om_put atm_id [] (at_contexts st)\<rparr> | Some d \<Rightarrow> st);
          context = (case om_find (at_contexts st) atm_id of None \<Rightarrow> [] | Some d \<Rightarrow> d)
      in res_bind (ac_getPayload atm_cell) (\<lambda>payload.
           let context' = context @ payload;
               store = (\<lambda>d. st1\<lparr>at_contexts := om_put atm_id d (at_contexts st1)\<rparr>)
           in if \<not> ac_isLastCell atm_cell then Inr (Some [], store context')
              else let (valid, p) = a5_isValid (new_aal5_packet context')
                   in if \<not> valid then Inr (None, store [])
                      else Inr (Some [p\<lparr>np_spot := np_spot packet, np_src_tal_id := np_src_tal_id packet,
                                  np_dst_tal_id := np_dst_tal_id packet, np_qos := np_qos packet\<rparr>], store [])))"

definition deencapAal5 :: "encap_hdl \<Rightarrow> aal5 \<Rightarrow> net_burst \<Rightarrow> net_burst" where
  "deencapAal5 up aal5_packet b =
     (let (payload, p) = a5_getPayload aal5_packet
      in case eh_build up payload (a5_getPayloadLength p) (np_qos p) (np_src_tal_id p) (np_dst_tal_id p) of
           None \<Rightarrow> b
         | Some packet \<Rightarrow> snd (nb_add (Some (packet\<lparr>np_spot := np_spot p\<rparr>)) b))"

definition at_deencap_step :: "encap_hdl \<Rightarrow> net_packet option \<Rightarrow> net_burst \<times> atm \<Rightarrow> (net_burst \<times> atm) res" where
  "at_deencap_step up packet = (\<lambda>(b, st).
     case packet of
       None \<Rightarrow> Inr (b, st)
     | Some p \<Rightarrow>
         if np_type p \<noteq> NET_PROTO_ATM then Inr (b, st)
         else if np_dst_tal_id p \<noteq> at_dst_tal_id st \<and> np_dst_tal_id p \<noteq> BROADCAST_TAL_ID8 then Inr (b, st)
         else res_bind (deencapAtm p st) (\<lambda>(r, st').
           case r of
             None \<Rightarrow> Inr (b, st')
           | Some ps \<Rightarrow> Inr (fold (deencapAal5 up) ps b, st')))"

definition at_deencapsulate :: "encap_hdl \<Rightarrow> net_packet option list \<Rightarrow> atm \<Rightarrow> (net_burst \<times> atm) res" where
  "at_deencapsulate up burst st = res_fold (at_deencap_step up) burst (new_net_burst 0, st)"

end
