(* ===== verification/AtmCells.thy ===== *)
theory AtmCells
  imports Atm UleCorrect
begin

text \<open>
  The formats of AAL5/ATM: an AAL5 packet is a multiple of 48 bytes, is valid and reads back, its CRC is
  polynomial division; the cells of a packet hold its bytes and its identifiers.
\<close>

section \<open>AAL5 packets\<close>

lemma CRC32_eq: "CRC32 = crc_step"
  by (intro ext) (simp add: CRC32_def crc_step_def crc32tab_def crc_table_def xor.commute)

lemma a5_crc_polynomial: "a5_calcCrc d = not (fold crc_byte d 0xffffffff)"
proof -
  have "CRC32 = crc_byte" unfolding CRC32_eq by (intro ext crc_step_byte)
  then show ?thesis by (simp add: a5_calcCrc_def)
qed

text \<open>What \<open>createFromPayload\<close> puts together.\<close>

definition a5_pad :: "nat \<Rightarrow> nat" where
  "a5_pad n = (let k = (n + 8) mod 48 in if 0 < k then 48 - k else 0)"

definition a5_body :: "data \<Rightarrow> data" where
  "a5_body pl = pl @ replicate (a5_pad (length pl) + 2) 0 @ be16 (of_nat (length pl))"

definition a5_bytes :: "data \<Rightarrow> data" where
  "a5_bytes pl = a5_body pl @ be32 (a5_calcCrc (a5_body pl))"

lemma length_a5_body [simp]: "length (a5_body pl) = length pl + a5_pad (length pl) + 4"
  by (simp add: a5_body_def)

lemma a5_pad_multiple: "(n + a5_pad n + 8) mod 48 = 0" "a5_pad n < 48"
proof -
  let ?k = "(n + 8) mod 48"
  have k: "?k < 48" "n + 8 = (n + 8) div 48 * 48 + ?k" by simp_all
  show "a5_pad n < 48" using k(1) by (simp add: a5_pad_def Let_def)
  show "(n + a5_pad n + 8) mod 48 = 0"
    unfolding a5_pad_def Let_def by (cases "0 < ?k") (presburger+)
qed

lemma a5_create: "a5_createFromPayload pl = new_aal5_packet (a5_bytes pl)"
  by (simp add: a5_createFromPayload_def a5_bytes_def a5_body_def a5_pad_def Let_def)

lemma np_data_aal5 [simp]: "np_data (new_aal5_packet d) = d" "a5_checked (new_aal5_packet d) = False"
  "np_type (new_aal5_packet d) = NET_PROTO_AAL5" "np_spot (new_aal5_packet d) = 255"
  by (simp_all add: new_aal5_packet_def new_net_packet_def net_packet.defs)

lemma be16_unat: "unat (be16 w ! 0) * 256 + unat (be16 w ! 1) = unat w"
proof -
  have "unat w div 256 < 256" using unat_u16_less [of w] by simp
  then show ?thesis by (simp add: be16_def u8_of_nat_id)
qed

lemma a5_length_read:
  assumes "np_data p = a5_bytes pl" "length pl < 65536"
  shows "a5_getPayloadLength p = length pl"
proof -
  let ?h = "pl @ replicate (a5_pad (length pl) + 2) 0"
  have d: "np_data p = ?h @ be16 (of_nat (length pl)) @ be32 (a5_calcCrc (a5_body pl))"
    using assms(1) by (simp add: a5_bytes_def a5_body_def)
  have l: "length (np_data p) = length ?h + 6" by (simp add: d)
  have "np_data p ! (length (np_data p) - 6) = be16 (of_nat (length pl)) ! 0"
    "np_data p ! (length (np_data p) - 5) = be16 (of_nat (length pl)) ! 1"
    unfolding l by (simp_all add: d nth_append)
  moreover have "\<not> length (np_data p) < 8" using l by simp
  ultimately show ?thesis
    using assms(2) be16_unat [of "of_nat (length pl)"] by (simp add: a5_getPayloadLength_def Let_def u16_of_nat_id)
qed

lemma a5_isValid_bytes:
  assumes "np_data p = a5_bytes pl" "length pl < 65536" "\<not> a5_checked p"
  shows "a5_isValid p = (True, p\<lparr>a5_result := True, a5_checked := True\<rparr>)"
proof -
  have l: "length (np_data p) = length pl + a5_pad (length pl) + 8" using assms(1) by (simp add: a5_bytes_def)
  have "take (length (np_data p) - 4) (np_data p) = a5_body pl"
    using l assms(1) by (simp add: a5_bytes_def)
  moreover have "a5_crc p = a5_calcCrc (a5_body pl)"
    using l rd32_append_be32 [of "a5_body pl" "a5_calcCrc (a5_body pl)"] assms(1)
    by (simp add: a5_crc_def Let_def a5_bytes_def add.commute)
  ultimately show ?thesis
    using l assms a5_pad_multiple(1) [of "length pl"]
    by (simp add: a5_isValid_def Let_def a5_length_read)
qed

lemma a5_roundtrip:
  assumes "np_data p = a5_bytes pl" "length pl < 65536" "a5_checked p" "a5_result p"
  shows "a5_getPayload p = (pl, p)"
proof -
  have "unat (of_nat (length pl) :: u16) = length pl" using assms(2) by (rule u16_of_nat_id)
  moreover have "(of_nat (length pl) :: u16) \<le> 0 \<longleftrightarrow> pl = []"
    using calculation by (simp add: word_le_nat_alt)
  moreover have "take (length pl) (a5_bytes pl) = pl" by (simp add: a5_bytes_def a5_body_def)
  ultimately show ?thesis
    using assms by (simp add: a5_getPayload_def a5_isValid_def a5_length_read Let_def)
qed

section \<open>Cells\<close>

definition cell_bytes :: "u8 \<Rightarrow> u8 \<Rightarrow> u16 \<Rightarrow> bool \<Rightarrow> data \<Rightarrow> data" where
  "cell_bytes gfc vpi vci is_last pl =
     [of_nat (unat gfc mod 16 * 16 + unat vpi div 16), of_nat (unat vpi mod 16 * 16 + unat vci div 4096),
      of_nat (unat vci div 16 mod 256), of_nat (unat vci mod 16 * 16 + (if is_last then 2 else 0)), 0] @ pl"

lemma length_cell_bytes [simp]: "length (cell_bytes gfc vpi vci is_last pl) = length pl + 5"
  by (simp add: cell_bytes_def)

lemma new_atm_cell_simps [simp]:
  "np_data (new_atm_cell d) = d" "ac_isValid (new_atm_cell d) = (length d = 53)"
  "np_data (new_atm_cell d\<lparr>np_data := e\<rparr>) = e"
  by (simp_all add: new_atm_cell_def new_net_packet_def ac_isValid_def nc_getTotalLength_def ATM_LENGTH_def)

lemma new_atm_cell_upd: "(new_atm_cell d)\<lparr>np_data := e\<rparr> = new_atm_cell e"
  by (simp add: new_atm_cell_def new_net_packet_def)

lemma cell_halves: "unat (vpi :: u8) div 16 < 16" "unat (vci :: u16) div 4096 < 16"
  using unat_u8_less [of vpi] unat_u16_less [of vci] by simp_all

lemma ac_upd_cell [simp]: "i < length d \<Longrightarrow>
    ac_upd i f (new_atm_cell d) = Inr (new_atm_cell (d[i := of_nat (f (unat (d ! i)))]))"
  by (simp add: ac_upd_def new_atm_cell_upd)

lemma ac_create_cell:
  assumes "length pl = 48"
  shows "ac_create gfc vpi vci 0x40 0 is_last pl = Inr (Some (new_atm_cell (cell_bytes gfc vpi vci is_last pl)))"
proof -
  have u: "n < 16 \<Longrightarrow> unat (of_nat (m mod 16 * 16 + n) :: u8) = m mod 16 * 16 + n" for m n :: nat
  proof (rule u8_of_nat_id)
    assume "n < 16"
    moreover have "m mod 16 < 16" by simp
    ultimately show "m mod 16 * 16 + n < 256" by linarith
  qed
  note u0 = u [of 0, simplified]
  have r: "replicate 5 0 @ pl = [0, 0, 0, 0, 0] @ pl" by (simp add: numeral_eq_Suc)
  have g: "ac_setGfc gfc (new_atm_cell (replicate 5 0 @ pl))
      = Inr (new_atm_cell ([of_nat (unat gfc mod 16 * 16), 0, 0, 0, 0] @ pl))"
    unfolding r by (simp add: ac_setGfc_def)
  have p: "ac_setVpi vpi (new_atm_cell ([of_nat (unat gfc mod 16 * 16), 0, 0, 0, 0] @ pl))
      = Inr (new_atm_cell ([of_nat (unat gfc mod 16 * 16 + unat vpi div 16), of_nat (unat vpi mod 16 * 16), 0, 0, 0] @ pl))"
    by (simp add: ac_setVpi_def u0)
  have v: "ac_setVci vci (new_atm_cell ([a, of_nat (unat vpi mod 16 * 16), 0, 0, 0] @ pl))
      = Inr (new_atm_cell ([a, of_nat (unat vpi mod 16 * 16 + unat vci div 4096),
          of_nat (unat vci div 16 mod 256), of_nat (unat vci mod 16 * 16), 0] @ pl))" for a
    by (simp add: ac_setVci_def u0)
  have t: "ac_setPt 0x40 (new_atm_cell ([a, b, c, of_nat (unat vci mod 16 * 16), 0] @ pl))
      = Inr (new_atm_cell ([a, b, c, of_nat (unat vci mod 16 * 16), 0] @ pl))" for a b c
    by (simp add: ac_setPt_def u0 mod_mult2_eq)
  define m where "m = unat vci mod 16"
  have um: "unat (of_nat (m * 16 + k) :: u8) = m * 16 + k" if "k < 16" for k
    using u [OF that, of m] by (simp add: m_def)
  have um0: "unat (of_nat (m * 16) :: u8) = m * 16" using um [of 0] by simp
  have d2: "m * 16 div 2 mod 8 = 0" by presburger
  have l: "ac_setIsLastCell is_last (new_atm_cell ([a, b, c, of_nat (m * 16), 0] @ pl))
      = Inr (new_atm_cell ([a, b, c, of_nat (m * 16 + (if is_last then 2 else 0)), 0] @ pl))" for a b c
    using assms by (simp add: ac_setIsLastCell_def ac_getPt_def ac_setPt_def um0 d2 del: of_nat_add of_nat_mult)
  have c: "ac_setClp 0 (new_atm_cell ([a, b, c, of_nat (m * 16 + (if is_last then 2 else 0)), 0] @ pl))
      = Inr (new_atm_cell ([a, b, c, of_nat (m * 16 + (if is_last then 2 else 0)), 0] @ pl))" for a b c
    using um [of 2] um0 by (simp add: ac_setClp_def del: of_nat_add of_nat_mult)
  show ?thesis
    unfolding ac_create_def g res_bind_simps p v t l [unfolded m_def] c [unfolded m_def]
    by (simp add: assms cell_bytes_def)
qed

lemma cell_ids:
  assumes "length pl = 48"
  shows "ac_getVpi (new_atm_cell (cell_bytes gfc vpi vci is_last pl)) = vpi"
    and "ac_getVci (new_atm_cell (cell_bytes gfc vpi vci is_last pl)) = vci"
    and "ac_isLastCell (new_atm_cell (cell_bytes gfc vpi vci is_last pl)) = is_last"
    and "ac_getPayload (new_atm_cell (cell_bytes gfc vpi vci is_last pl)) = Inr pl"
proof -
  have u: "n < 16 \<Longrightarrow> unat (of_nat (m mod 16 * 16 + n) :: u8) = m mod 16 * 16 + n" for m n :: nat
  proof (rule u8_of_nat_id)
    assume "n < 16"
    moreover have "m mod 16 < 16" by simp
    ultimately show "m mod 16 * 16 + n < 256" by linarith
  qed
  note h = cell_halves(1) [of vpi] cell_halves(2) [of vci]
  have vpi: "unat vpi div 16 * 16 + unat vpi mod 16 = unat vpi" by simp
  have vci: "unat vci div 4096 * 4096 + unat vci div 16 mod 256 * 16 + unat vci mod 16 = unat vci"
  proof -
    have "unat vci div 4096 = unat vci div 16 div 256" by (simp add: div_mult2_eq [symmetric])
    moreover have "unat vci div 16 div 256 * 256 + unat vci div 16 mod 256 = unat vci div 16" by simp
    moreover have "unat vci div 16 * 16 + unat vci mod 16 = unat vci" by simp
    ultimately show ?thesis by linarith
  qed
  have u2: "unat (of_nat (unat vci div 16 mod 256) :: u8) = unat vci div 16 mod 256"
    by (rule u8_of_nat_id) simp
  have n: "(m mod 16 * 16 + k) div 16 = m mod 16" "(m mod 16 * 16 + k) mod 16 = k" if "k < 16" for m k :: nat
    using that by simp_all
  have l: "unat (of_nat (unat vci mod 16 * 16 + (if is_last then 2 else 0)) :: u8)
      = unat vci mod 16 * 16 + (if is_last then 2 else 0)" by (rule u) simp
  have l2: "(m mod 16 * 16 + (if is_last then 2 else 0)) div 16 = m mod 16" for m :: nat by (cases is_last) simp_all
  have l3: "(k * 16 + (if is_last then 2 else 0)) div 2 mod 8 mod 2 = (if is_last then 1 else 0)" for k :: nat
    by (cases is_last; simp; presburger)
  note s = u [OF h(1)] u [OF h(2)] u2 l l2 l3 n [OF h(1)] n [OF h(2)] mod_less [OF h(1)] mod_less [OF h(2)]
  show "ac_getVpi (new_atm_cell (cell_bytes gfc vpi vci is_last pl)) = vpi"
    using assms vpi by (simp add: ac_getVpi_def cell_bytes_def s del: of_nat_add of_nat_mult)
  show "ac_getVci (new_atm_cell (cell_bytes gfc vpi vci is_last pl)) = vci"
    using assms vci by (simp add: ac_getVci_def cell_bytes_def s del: of_nat_add of_nat_mult split del: if_split)
  show "ac_isLastCell (new_atm_cell (cell_bytes gfc vpi vci is_last pl)) = is_last"
    using assms by (simp add: ac_isLastCell_def ac_getPt_def cell_bytes_def s u8_of_nat_id del: of_nat_add of_nat_mult split del: if_split) simp
  show "ac_getPayload (new_atm_cell (cell_bytes gfc vpi vci is_last pl)) = Inr pl"
  proof -
    let ?c = "new_atm_cell (cell_bytes gfc vpi vci is_last pl)"
    have "nc_getPayloadLength ?c = 48" "ac_isValid ?c"
      using assms by (simp_all add: nc_getPayloadLength_def nc_getTotalLength_def new_atm_cell_def new_net_packet_def
          ac_isValid_def ATM_LENGTH_def)
    moreover have "take 48 (drop 5 (cell_bytes gfc vpi vci is_last pl)) = pl" using assms by (simp add: cell_bytes_def)
    ultimately show ?thesis using assms by (simp add: ac_getPayload_def substr_def)
  qed
qed

section \<open>The cells of a packet\<close>

definition atm_fits :: "net_packet \<Rightarrow> bool" where
  "atm_fits p \<longleftrightarrow> length (np_data p) < 65536 \<and> unat (np_qos p) < 8 \<and> unat (np_src_tal_id p) < 32
     \<and> unat (np_dst_tal_id p) < 32"

definition atm_id :: "'a net_packet_scheme \<Rightarrow> atm_identifier" where
  "atm_id p = (vpi_of_packet p, vci_of_packet p)"

definition cell_packet :: "net_packet \<Rightarrow> nat \<Rightarrow> bool \<Rightarrow> data \<Rightarrow> net_packet" where
  "cell_packet p gfc is_last pl =
     full_net_packet (cell_bytes (of_nat gfc) (vpi_of_packet p) (vci_of_packet p) is_last pl) 53 ''AAL5/ATM'' NET_PROTO_ATM
       (np_qos p) (np_src_tal_id p) (np_dst_tal_id p) 5"

definition a5_count :: "net_packet \<Rightarrow> nat" where
  "a5_count p = length (a5_bytes (np_data p)) div 48"

definition a5_chunk :: "net_packet \<Rightarrow> nat \<Rightarrow> data" where
  "a5_chunk p i = take 48 (drop (i * 48) (a5_bytes (np_data p)))"

definition cells_of :: "net_packet \<Rightarrow> net_packet list" where
  "cells_of p = map (\<lambda>i. cell_packet p i (i = a5_count p - 1) (a5_chunk p i)) [0..<a5_count p]"

lemma length_a5_bytes: "length (a5_bytes pl) = length pl + a5_pad (length pl) + 8"
  by (simp add: a5_bytes_def)

lemma a5_count_bytes: "a5_count p * 48 = length (a5_bytes (np_data p))" "0 < a5_count p"
proof -
  show "a5_count p * 48 = length (a5_bytes (np_data p))"
    using a5_pad_multiple(1) [of "length (np_data p)"] by (simp add: a5_count_def length_a5_bytes mod_0_imp_dvd)
  then show "0 < a5_count p" using length_a5_bytes [of "np_data p"] by (cases "a5_count p") auto
qed

lemma length_a5_chunk: "i < a5_count p \<Longrightarrow> length (a5_chunk p i) = 48"
proof -
  assume "i < a5_count p"
  then have "(i + 1) * 48 \<le> a5_count p * 48" by (intro mult_le_mono1) simp
  then show ?thesis using a5_count_bytes(1) [of p] by (simp add: a5_chunk_def)
qed

lemma concat_chunks: "concat (map (a5_chunk p) [0..<n]) = take (n * 48) (a5_bytes (np_data p))"
proof (induction n)
  case (Suc n)
  have "take (Suc n * 48) d = take (n * 48) d @ take 48 (drop (n * 48) d)" for d :: data
    by (metis add.commute mult_Suc take_add)
  then show ?case using Suc by (simp add: a5_chunk_def)
qed simp

text \<open>The identifiers fit the fields of the header, so they can be read back.\<close>

lemma atm_ids_back:
  assumes "atm_fits p"
  shows "of_nat (unat (vci_of_packet p) mod 8) = np_qos p" "of_nat (unat (vci_of_packet p) div 8 mod 32) = np_src_tal_id p"
    "of_nat (unat (vpi_of_packet p) mod 32) = np_dst_tal_id p"
proof -
  have b: "unat (np_qos p) < 8" "unat (np_src_tal_id p) < 32" "unat (np_dst_tal_id p) < 32"
    using assms by (simp_all add: atm_fits_def)
  have "unat (vci_of_packet p) = unat (np_src_tal_id p) * 8 + unat (np_qos p)"
    unfolding vci_of_packet_def using b by (subst u16_of_nat_id) simp_all
  then show "of_nat (unat (vci_of_packet p) mod 8) = np_qos p" "of_nat (unat (vci_of_packet p) div 8 mod 32) = np_src_tal_id p"
    using b by simp_all
  have "unat (vpi_of_packet p) = unat (np_dst_tal_id p)"
    unfolding vpi_of_packet_def using b by (subst u8_of_nat_id) simp_all
  then show "of_nat (unat (vpi_of_packet p) mod 32) = np_dst_tal_id p" using b by simp
qed

lemma atm_build_cell:
  assumes "atm_fits p" "length pl = 48"
  shows "atm_build (cell_bytes (of_nat i) (vpi_of_packet p) (vci_of_packet p) is_last pl) 53 q s t
    = Some (cell_packet p i is_last pl)"
  using assms by (simp add: atm_build_def ATM_LENGTH_def Let_def cell_packet_def ac_getQos_def ac_getSrcTalId_def
      ac_getDstTalId_def cell_ids atm_ids_back)

end
