(* ===== verification/AtmCorrect.thy ===== *)
theory AtmCorrect
  imports AtmCells
begin

text \<open>
  AAL5/ATM is correct: the sender emits the cells of its packets, the receiver is one reassembly machine
  per VPI and VCI (\<open>reassemble\<close>); whatever the interleaving of the identifiers the packets come out whole
  and in order, and again after losses as soon as a cell with the mark of the last one has come.
\<close>

section \<open>The sender\<close>

lemma a5_of_packet:
  assumes "atm_fits p"
  obtains q where "encapAal5 p = Some q" "np_data q = a5_bytes (np_data p)" "np_type q = NET_PROTO_AAL5"
    "np_qos q = np_qos p" "np_src_tal_id q = np_src_tal_id p" "np_dst_tal_id q = np_dst_tal_id p" "np_spot q = 255"
proof -
  let ?q = "(new_aal5_packet (a5_bytes (np_data p)))\<lparr>np_dst_tal_id := np_dst_tal_id p,
    np_src_tal_id := np_src_tal_id p, np_qos := np_qos p\<rparr>"
  have d: "np_data ?q = a5_bytes (np_data p)" "\<not> a5_checked ?q" by simp_all
  have "a5_isValid ?q = (True, ?q\<lparr>a5_result := True, a5_checked := True\<rparr>)"
    by (rule a5_isValid_bytes [OF d(1) _ d(2)]) (use assms in \<open>simp add: atm_fits_def\<close>)
  then have "encapAal5 p = Some (?q\<lparr>a5_result := True, a5_checked := True\<rparr>)"
    by (simp add: encapAal5_def a5_create)
  then show ?thesis using that by simp
qed

lemma small_bytes:
  assumes "atm_fits p"
  shows "a5_count p * 48 < 65600" "i \<le> a5_count p \<Longrightarrow> unat (of_nat i * 48 :: u32) = i * 48"
    "nat (sint (of_nat (a5_count p) :: u32)) = a5_count p"
proof -
  show b: "a5_count p * 48 < 65600"
    using assms a5_pad_multiple(2) [of "length (np_data p)"] a5_count_bytes(1) [of p] by (simp add: atm_fits_def length_a5_bytes)
  show "unat (of_nat i * 48 :: u32) = i * 48" if "i \<le> a5_count p"
  proof -
    have "i * 48 < 4294967296" using b that by linarith
    then have "unat (of_nat (i * 48) :: u32) = i * 48" by (rule u32_of_nat_id)
    then show ?thesis by simp
  qed
  have "sint (of_nat (a5_count p) :: u32) = int (a5_count p)"
    using b by (simp add: sint_uint uint_nat signed_take_bit_int_eq_self unat_of_nat)
  then show "nat (sint (of_nat (a5_count p) :: u32)) = a5_count p" by simp
qed

lemma add_cells:
  assumes "atm_fits p" "np_data q = a5_bytes (np_data p)" "np_qos q = np_qos p" "np_src_tal_id q = np_src_tal_id p"
    "np_dst_tal_id q = np_dst_tal_id p" "np_spot q = 255" "nb_limit b = 0" "k \<le> a5_count p"
  shows "res_fold (atm_add_cell q (a5_count p)) [0..<k] b
    = Inr (nb_append (map (\<lambda>i. cell_packet p i (i = a5_count p - 1) (a5_chunk p i)) [0..<k]) b)"
  using assms(8)
proof (induction k)
  case (Suc k)
  let ?n = "a5_count p" and ?c = "\<lambda>i. cell_packet p i (i = a5_count p - 1) (a5_chunk p i)"
  have k: "k < ?n" "k \<le> ?n" using Suc.prems by simp_all
  have "(k + 1) * 48 \<le> length (a5_bytes (np_data p))"
    using k(1) a5_count_bytes(1) [of p] by (metis Suc_eq_plus1 Suc_leI mult_le_mono1)
  then have cell: "a5_atmCell k q = Inr (a5_chunk p k)"
    using small_bytes(2) [OF assms(1) k(2)] by (simp add: a5_atmCell_def substr_def assms(2) a5_chunk_def)
  have ids: "vpi_of_packet q = vpi_of_packet p" "vci_of_packet q = vci_of_packet p"
    by (simp_all add: vpi_of_packet_def vci_of_packet_def assms)
  have "nc_getTotalLength (new_atm_cell (cell_bytes g v w l (a5_chunk p k))) = 53" for g v w l
    using length_a5_chunk [OF k(1)] by (simp add: nc_getTotalLength_def)
  moreover have "(?c k)\<lparr>np_spot := 255\<rparr> = ?c k"
    by (simp add: cell_packet_def full_net_packet_def new_net_packet_def)
  ultimately have "atm_add_cell q ?n k c = Inr (nb_append [?c k] c)" if "nb_limit c = 0" for c
    using that by (simp add: atm_add_cell_def cell ids ac_create_cell [OF length_a5_chunk [OF k(1)]]
        atm_build_cell [OF assms(1) length_a5_chunk [OF k(1)]] assms(6) nb_append_def)
  then show ?case using Suc.IH [OF k(2)] assms(7) by (simp add: res_fold_append)
qed simp

lemma encap_cells:
  assumes "atm_fits p" "nb_limit b = 0"
  shows "at_encap_step p b = Inr (nb_append (cells_of p) b)"
proof -
  obtain q where q: "encapAal5 p = Some q" "np_data q = a5_bytes (np_data p)" "np_type q = NET_PROTO_AAL5"
    "np_qos q = np_qos p" "np_src_tal_id q = np_src_tal_id p" "np_dst_tal_id q = np_dst_tal_id p" "np_spot q = 255"
    by (rule a5_of_packet [OF assms(1)])
  have "nat (sint (a5_nbAtmCells q)) = a5_count p"
    using small_bytes(3) [OF assms(1)] by (simp add: a5_nbAtmCells_def q(2) a5_count_def)
  then show ?thesis
    using add_cells [OF assms(1) q(2,4-7) assms(2) order_refl]
    by (simp add: at_encap_step_def q(1,3) encapAtm_def cells_of_def Let_def)
qed

lemma encapsulate_cells:
  assumes "\<forall>p \<in> set ps. atm_fits p"
  shows "at_encapsulate ps = Inr (nb_append (concat (map cells_of ps)) (new_net_burst 0))"
proof -
  have "res_fold at_encap_step ps b = Inr (nb_append (concat (map cells_of ps)) b)" if "nb_limit b = 0" for b
    using assms that by (induction ps arbitrary: b) (simp_all add: encap_cells)
  then show ?thesis by (simp add: at_encapsulate_def new_net_burst_def)
qed

section \<open>The receiver\<close>

text \<open>
  One reassembly machine per identifier: the bytes collected so far, and what the upper plugin builds
  from them when a cell has the mark.
\<close>

definition atm_sdu :: "encap_hdl \<Rightarrow> net_packet \<Rightarrow> data \<Rightarrow> net_packet list" where
  "atm_sdu up c d =
     (let (valid, p) = a5_isValid (new_aal5_packet d)
      in if \<not> valid then []
         else case eh_build up (fst (a5_getPayload p)) (a5_getPayloadLength p) (np_qos c) (np_src_tal_id c) (np_dst_tal_id c) of
                None \<Rightarrow> [] | Some q \<Rightarrow> [q\<lparr>np_spot := np_spot c\<rparr>])"

fun reassemble :: "encap_hdl \<Rightarrow> data \<Rightarrow> net_packet list \<Rightarrow> net_packet list \<times> data" where
  "reassemble up d [] = ([], d)"
| "reassemble up d (c # cs) =
     (let d' = d @ drop 5 (np_data c); last = ac_isLastCell (new_atm_cell (np_data c));
          (out, e) = reassemble up (if last then [] else d') cs
      in ((if last then atm_sdu up c d' else []) @ out, e))"

text \<open>The cells a plugin builds: whole, with the identifiers the header holds.\<close>

definition atm_cell_ok :: "net_packet \<Rightarrow> bool" where
  "atm_cell_ok c \<longleftrightarrow> length (np_data c) = 53 \<and> np_type c = NET_PROTO_ATM \<and> unat (np_dst_tal_id c) < 32
     \<and> atm_id c = (ac_getVpi (new_atm_cell (np_data c)), ac_getVci (new_atm_cell (np_data c)))"

definition atm_accepts :: "atm \<Rightarrow> atm_identifier \<Rightarrow> bool" where
  "atm_accepts st i \<longleftrightarrow> fst i = at_dst_tal_id st \<or> fst i = BROADCAST_TAL_ID8"

definition at_ctx :: "atm \<Rightarrow> atm_identifier \<Rightarrow> data" where
  "at_ctx st i = (case om_find (at_contexts st) i of None \<Rightarrow> [] | Some d \<Rightarrow> d)"

abbreviation of_id :: "atm_identifier \<Rightarrow> net_packet list \<Rightarrow> net_packet list" where
  "of_id i \<equiv> filter (\<lambda>c. atm_id c = i)"

lemma vpi_dst: "unat (np_dst_tal_id c) < 32 \<Longrightarrow> vpi_of_packet c = np_dst_tal_id c"
  by (simp add: vpi_of_packet_def)

lemma deencapAal5_sdu:
  assumes "a5_isValid (new_aal5_packet d) = (True, p)" "nb_limit b = 0"
  shows "deencapAal5 up (p\<lparr>np_spot := np_spot c, np_src_tal_id := np_src_tal_id c, np_dst_tal_id := np_dst_tal_id c,
      np_qos := np_qos c\<rparr>) b = nb_append (atm_sdu up c d) b"
proof -
  have v: "a5_checked p" "a5_result p" using assms by (auto simp: a5_isValid_def Let_def)
  have g: "a5_getPayload (p\<lparr>np_spot := x, np_src_tal_id := y, np_dst_tal_id := z, np_qos := w\<rparr>)
      = (fst (a5_getPayload p), p\<lparr>np_spot := x, np_src_tal_id := y, np_dst_tal_id := z, np_qos := w\<rparr>)"
    "a5_getPayloadLength (p\<lparr>np_spot := x, np_src_tal_id := y, np_dst_tal_id := z, np_qos := w\<rparr>) = a5_getPayloadLength p"
    for x y z w
    using v by (simp_all add: a5_getPayload_def a5_isValid_def a5_getPayloadLength_def Let_def)
  show ?thesis
    using assms(2) by (simp add: deencapAal5_def g atm_sdu_def assms(1) nb_append_def split: option.split)
qed

lemma deencap_step:
  assumes "atm_cell_ok c" "atm_accepts st (atm_id c)" "nb_limit b = 0"
  shows "\<exists>st'. at_deencap_step up (Some c) (b, st)
      = Inr (nb_append (fst (reassemble up (at_ctx st (atm_id c)) [c])) b, st')
    \<and> at_dst_tal_id st' = at_dst_tal_id st
    \<and> (\<forall>i. at_ctx st' i = (if i = atm_id c then snd (reassemble up (at_ctx st i) [c]) else at_ctx st i))"
proof -
  let ?cell = "new_atm_cell (np_data c)" and ?i = "atm_id c" and ?d = "at_ctx st (atm_id c) @ drop 5 (np_data c)"
  have l: "length (np_data c) = 53" "np_type c = NET_PROTO_ATM" using assms(1) by (simp_all add: atm_cell_ok_def)
  have i: "(ac_getVpi ?cell, ac_getVci ?cell) = ?i" using assms(1) by (simp add: atm_cell_ok_def)
  have acc: "\<not> (np_dst_tal_id c \<noteq> at_dst_tal_id st \<and> np_dst_tal_id c \<noteq> BROADCAST_TAL_ID8)"
    using assms(1,2) by (auto simp: atm_accepts_def atm_id_def atm_cell_ok_def vpi_dst)
  have pl: "ac_getPayload ?cell = Inr (drop 5 (np_data c))"
    using l by (simp add: ac_getPayload_def substr_def nc_getPayloadLength_def nc_getTotalLength_def new_atm_cell_def new_net_packet_def
        ac_isValid_def ATM_LENGTH_def)
  define st1 where "st1 = (case om_find (at_contexts st) ?i of
    None \<Rightarrow> st\<lparr>at_contexts := om_put ?i [] (at_contexts st)\<rparr> | Some d \<Rightarrow> st)"
  have st1: "at_dst_tal_id st1 = at_dst_tal_id st"
    "j \<noteq> ?i \<Longrightarrow> om_find (at_contexts st1) j = om_find (at_contexts st) j" for j
    by (simp_all add: st1_def split: option.split)
  have ctx: "at_ctx (st1\<lparr>at_contexts := om_put ?i e (at_contexts st1)\<rparr>) j = (if j = ?i then e else at_ctx st j)" for e j
    by (auto simp: at_ctx_def st1 split: option.split)
  obtain valid q where q: "a5_isValid (new_aal5_packet ?d) = (valid, q)" by force
  have e: "deencapAtm c st = (if \<not> ac_isLastCell ?cell then Inr (Some [], st1\<lparr>at_contexts := om_put ?i ?d (at_contexts st1)\<rparr>)
      else if \<not> valid then Inr (None, st1\<lparr>at_contexts := om_put ?i [] (at_contexts st1)\<rparr>)
      else Inr (Some [q\<lparr>np_spot := np_spot c, np_src_tal_id := np_src_tal_id c, np_dst_tal_id := np_dst_tal_id c, np_qos := np_qos c\<rparr>],
        st1\<lparr>at_contexts := om_put ?i [] (at_contexts st1)\<rparr>))"
    unfolding deencapAtm_def Let_def i pl res_bind_simps st1_def [symmetric] at_ctx_def [symmetric] q by simp
  show ?thesis
  proof (cases "ac_isLastCell ?cell")
    case False
    then show ?thesis using l acc ctx st1(1) by (auto simp: at_deencap_step_def e Let_def)
  next
    case last: True
    show ?thesis
    proof (cases valid)
      case False
      then show ?thesis using last l acc ctx st1(1) q by (auto simp: at_deencap_step_def e Let_def atm_sdu_def)
    next
      case True
      then show ?thesis
        using last l acc ctx st1(1) deencapAal5_sdu [of ?d q b up c] q assms(3)
        by (auto simp: at_deencap_step_def e Let_def)
    qed
  qed
qed

lemma sdu_id: "keeps_ids up \<Longrightarrow> q \<in> set (atm_sdu up c d) \<Longrightarrow> atm_id q = atm_id c"
  by (auto simp: atm_sdu_def keeps_ids_def atm_id_def vpi_of_packet_def vci_of_packet_def Let_def
      split: option.splits prod.splits if_splits)

lemma reassemble_append:
  "reassemble up d (cs @ ds) = (let (o1, e1) = reassemble up d cs; (o2, e2) = reassemble up e1 ds in (o1 @ o2, e2))"
  by (induction cs arbitrary: d) (simp_all add: Let_def case_prod_beta)

lemma reassemble_ids: "keeps_ids up \<Longrightarrow> q \<in> set (fst (reassemble up d cs)) \<Longrightarrow> \<exists>c \<in> set cs. atm_id q = atm_id c"
  by (induction cs arbitrary: d) (auto simp: Let_def case_prod_beta split: if_splits dest: sdu_id)

text \<open>The receiver refines the machines: what it builds and what it keeps, identifier by identifier.\<close>

lemma receiver_refines:
  assumes "keeps_ids up" "\<forall>c \<in> set cs. atm_cell_ok c" "nb_limit b = 0"
  shows "\<exists>out st'. res_fold (at_deencap_step up) (map Some cs) (b, st) = Inr (nb_append out b, st')
    \<and> at_dst_tal_id st' = at_dst_tal_id st
    \<and> (\<forall>i. (of_id i out, at_ctx st' i)
          = (if atm_accepts st i then reassemble up (at_ctx st i) (of_id i cs) else ([], at_ctx st i)))"
  using assms(2,3)
proof (induction cs arbitrary: b st)
  case Nil
  then show ?case by (intro exI [of _ "[]"] exI [of _ st]) simp
next
  case (Cons c cs)
  let ?o = "if atm_accepts st (atm_id c) then fst (reassemble up (at_ctx st (atm_id c)) [c]) else []"
  have ok: "atm_cell_ok c" using Cons.prems by simp
  obtain st1 where 1: "at_deencap_step up (Some c) (b, st) = Inr (nb_append ?o b, st1)"
    "at_dst_tal_id st1 = at_dst_tal_id st"
    "\<And>i. at_ctx st1 i = (if i = atm_id c \<and> atm_accepts st i then snd (reassemble up (at_ctx st i) [c]) else at_ctx st i)"
  proof (cases "atm_accepts st (atm_id c)")
    case True
    then show ?thesis using deencap_step [OF ok True Cons.prems(2), of up] that by auto
  next
    case False
    then have "np_dst_tal_id c \<noteq> at_dst_tal_id st \<and> np_dst_tal_id c \<noteq> BROADCAST_TAL_ID8"
      using ok by (auto simp: atm_accepts_def atm_id_def atm_cell_ok_def vpi_dst)
    then have "at_deencap_step up (Some c) (b, st) = Inr (b, st)" by (simp add: at_deencap_step_def)
    moreover have "at_ctx st i = (if i = atm_id c \<and> atm_accepts st i then snd (reassemble up (at_ctx st i) [c]) else at_ctx st i)" for i
      using False by auto
    ultimately show ?thesis using False that [of st] by (simp del: reassemble.simps)
  qed
  have acc: "atm_accepts st1 = atm_accepts st" using 1(2) by (intro ext) (simp add: atm_accepts_def)
  have "\<forall>d \<in> set cs. atm_cell_ok d" "nb_limit (nb_append ?o b) = 0" using Cons.prems by simp_all
  then obtain out st' where 2: "res_fold (at_deencap_step up) (map Some cs) (nb_append ?o b, st1)
      = Inr (nb_append out (nb_append ?o b), st')" "at_dst_tal_id st' = at_dst_tal_id st1"
    "\<And>i. (of_id i out, at_ctx st' i)
      = (if atm_accepts st i then reassemble up (at_ctx st1 i) (of_id i cs) else ([], at_ctx st1 i))"
    using Cons.IH [of "nb_append ?o b" st1] unfolding acc by blast
  have o: "of_id i ?o = (if i = atm_id c then ?o else [])" for i
    using reassemble_ids [OF assms(1), of _ "at_ctx st (atm_id c)" "[c]"]
    by (auto simp: filter_id_conv filter_empty_conv simp del: reassemble.simps)
  have "(of_id i (?o @ out), at_ctx st' i) = (if atm_accepts st i then reassemble up (at_ctx st i) (of_id i (c # cs))
      else ([], at_ctx st i))" for i
  proof (cases "i = atm_id c \<and> atm_accepts st i")
    case True
    obtain o1 e1 where r: "reassemble up (at_ctx st i) [c] = (o1, e1)" by force
    moreover have i: "atm_id c = i" "atm_accepts st i" using True by blast+
    ultimately have "of_id i o1 = o1" "reassemble up e1 (of_id i cs) = (of_id i out, at_ctx st' i)"
      using o [of i] 2(3) [of i] 1(3) [of i] by (simp_all add: i del: reassemble.simps)
    then show ?thesis
      using i r reassemble_append [of up "at_ctx st i" "[c]" "of_id i cs"] by (simp del: reassemble.simps)
  next
    case False
    then have "at_ctx st1 i = at_ctx st i" "of_id i ?o = []" using 1(3) [of i] o [of i] by (auto split: if_splits)
    moreover have "i = atm_id c \<Longrightarrow> \<not> atm_accepts st i" using False by simp
    ultimately show ?thesis using 2(3) [of i] by (auto simp del: reassemble.simps)
  qed
  then show ?case
    using 1(1,2) 2(1,2) by (intro exI [of _ "?o @ out"] exI [of _ st']) simp
qed

text \<open>The cells of one packet, from an empty context.\<close>

lemma reassemble_chunks:
  assumes "atm_fits p" "k < a5_count p"
  shows "reassemble up d (map (\<lambda>i. cell_packet p i (i = a5_count p - 1) (a5_chunk p i)) [j..<k])
    = ([], d @ concat (map (a5_chunk p) [j..<k]))"
  using assms(2)
proof (induction k)
  case (Suc k)
  let ?c = "cell_packet p k (k = a5_count p - 1) (a5_chunk p k)"
  have l: "length (a5_chunk p k) = 48" using length_a5_chunk Suc.prems by simp
  have c: "np_data ?c = cell_bytes (of_nat k) (vpi_of_packet p) (vci_of_packet p) (k = a5_count p - 1) (a5_chunk p k)"
    using l by (simp add: cell_packet_def full_net_packet_def new_net_packet_def)
  have "drop 5 (np_data ?c) = a5_chunk p k" unfolding c by (simp add: cell_bytes_def)
  moreover have "\<not> ac_isLastCell (new_atm_cell (np_data ?c))"
    unfolding c cell_ids(3) [OF l] using Suc.prems by simp
  ultimately show ?case
    using Suc by (cases "j \<le> k") (simp_all add: reassemble_append Let_def case_prod_beta)
qed simp

text \<open>What the upper plugin makes of a packet; the spot is the one every packet starts with.\<close>

definition atm_delivers :: "encap_hdl \<Rightarrow> net_packet \<Rightarrow> net_packet list" where
  "atm_delivers up p = (case eh_build up (np_data p) (length (np_data p)) (np_qos p) (np_src_tal_id p) (np_dst_tal_id p) of
     None \<Rightarrow> [] | Some q \<Rightarrow> [q\<lparr>np_spot := 255\<rparr>])"

lemma sdu_delivers:
  assumes "atm_fits p"
  shows "atm_sdu up (cell_packet p i l pl) (a5_bytes (np_data p)) = atm_delivers up p"
proof -
  let ?q = "new_aal5_packet (a5_bytes (np_data p))"
  let ?r = "?q\<lparr>a5_result := True, a5_checked := True\<rparr>"
  have s: "length (np_data p) < 65536" using assms by (simp add: atm_fits_def)
  have d: "np_data ?q = a5_bytes (np_data p)" "\<not> a5_checked ?q" "np_data ?r = a5_bytes (np_data p)"
    "a5_checked ?r" "a5_result ?r" by simp_all
  have c: "np_qos (cell_packet p i l pl) = np_qos p" "np_src_tal_id (cell_packet p i l pl) = np_src_tal_id p"
    "np_dst_tal_id (cell_packet p i l pl) = np_dst_tal_id p" "np_spot (cell_packet p i l pl) = 255"
    by (simp_all add: cell_packet_def full_net_packet_def new_net_packet_def)
  show ?thesis
    unfolding atm_sdu_def atm_delivers_def c a5_isValid_bytes [OF d(1) s d(2)]
    using a5_roundtrip [OF d(3) s d(4,5)] a5_length_read [OF d(3) s] by simp
qed

lemma reassemble_packet:
  assumes "atm_fits p"
  shows "reassemble up [] (cells_of p) = (atm_delivers up p, [])"
proof -
  obtain m where m: "a5_count p = Suc m" using a5_count_bytes(2) [of p] by (cases "a5_count p") auto
  let ?c = "\<lambda>i. cell_packet p i (i = a5_count p - 1) (a5_chunk p i)"
  have l: "length (a5_chunk p m) = 48" by (rule length_a5_chunk) (simp add: m)
  have c: "np_data (?c m) = cell_bytes (of_nat m) (vpi_of_packet p) (vci_of_packet p) True (a5_chunk p m)"
    using l m by (simp add: cell_packet_def full_net_packet_def new_net_packet_def)
  have d: "drop 5 (np_data (?c m)) = a5_chunk p m" "ac_isLastCell (new_atm_cell (np_data (?c m)))"
    unfolding c cell_ids(3) [OF l] by (simp_all add: cell_bytes_def)
  have "concat (map (a5_chunk p) [0..<m]) @ a5_chunk p m = a5_bytes (np_data p)"
    using concat_chunks [of p "Suc m"] a5_count_bytes(1) [of p] m by simp
  moreover have "cells_of p = map ?c [0..<m] @ [?c m]" by (simp add: cells_of_def m)
  moreover have "reassemble up [] (map ?c [0..<m]) = ([], concat (map (a5_chunk p) [0..<m]))"
    using reassemble_chunks [OF assms, of m up "[]" 0] m by simp
  ultimately show ?thesis
    using d sdu_delivers [OF assms] by (simp only: reassemble_append Let_def case_prod_beta fst_conv snd_conv
      reassemble.simps if_True append_Nil append_Nil2)
qed

lemma reassemble_packets:
  "\<forall>p \<in> set ps. atm_fits p \<Longrightarrow> reassemble up [] (concat (map cells_of ps)) = (concat (map (atm_delivers up) ps), [])"
  by (induction ps) (simp_all add: reassemble_append reassemble_packet)

section \<open>End to end\<close>

text \<open>The cells of several bursts, one call of \<open>encapsulate\<close> after the other.\<close>

fun atm_sent :: "net_packet list list \<Rightarrow> net_packet list res" where
  "atm_sent [] = Inr []"
| "atm_sent (ps # pss) = res_bind (at_encapsulate ps) (\<lambda>b. res_bind (atm_sent pss) (\<lambda>cs. Inr (nb_packets b @ cs)))"

lemma sent_cells: "\<forall>p \<in> set (concat pss). atm_fits p \<Longrightarrow> atm_sent pss = Inr (concat (map cells_of (concat pss)))"
  by (induction pss) (simp_all add: encapsulate_cells new_net_burst_def)

lemma cells_of_ids:
  assumes "atm_fits p" "c \<in> set (cells_of p)"
  shows "atm_id c = atm_id p" "atm_cell_ok c"
proof -
  obtain i l where i: "c = cell_packet p i l (a5_chunk p i)" "i < a5_count p" using assms(2) by (auto simp: cells_of_def)
  have l: "length (a5_chunk p i) = 48" by (rule length_a5_chunk [OF i(2)])
  have f: "np_data c = cell_bytes (of_nat i) (vpi_of_packet p) (vci_of_packet p) l (a5_chunk p i)"
    "np_type c = NET_PROTO_ATM" "np_dst_tal_id c = np_dst_tal_id p" "np_src_tal_id c = np_src_tal_id p" "np_qos c = np_qos p"
    using l by (simp_all add: i(1) cell_packet_def full_net_packet_def new_net_packet_def)
  show id: "atm_id c = atm_id p" by (simp add: atm_id_def vpi_of_packet_def vci_of_packet_def f)
  then show "atm_cell_ok c"
    using assms(1) l by (simp add: atm_cell_ok_def f cell_ids [OF l]) (simp add: atm_id_def atm_fits_def)
qed

lemma of_id_cells:
  "\<forall>p \<in> set ps. atm_fits p \<Longrightarrow> of_id i (concat (map cells_of ps)) = concat (map cells_of (of_id i ps))"
proof (induction ps)
  case (Cons p ps)
  have "of_id i (cells_of p) = (if atm_id p = i then cells_of p else [])"
    using cells_of_ids(1) Cons.prems by (auto simp: filter_id_conv filter_empty_conv)
  then show ?case using Cons by simp
qed simp

lemma fresh_contexts: "at_contexts st = [] \<Longrightarrow> at_ctx st i = []"
  by (simp add: at_ctx_def)

lemma deencapsulate_refines:
  assumes "keeps_ids up" "\<forall>c \<in> set cs. atm_cell_ok c"
  obtains out st' where "at_deencapsulate up (map Some cs) st = Inr (\<lparr>nb_limit = 0, nb_packets = out\<rparr>, st')"
    "\<And>i. (of_id i out, at_ctx st' i)
      = (if atm_accepts st i then reassemble up (at_ctx st i) (of_id i cs) else ([], at_ctx st i))"
proof -
  have "nb_limit (new_net_burst 0) = 0" by (simp add: new_net_burst_def)
  from receiver_refines [OF assms this, of st] obtain out st' where r:
    "res_fold (at_deencap_step up) (map Some cs) (new_net_burst 0, st) = Inr (nb_append out (new_net_burst 0), st')"
    "\<forall>i. (of_id i out, at_ctx st' i)
      = (if atm_accepts st i then reassemble up (at_ctx st i) (of_id i cs) else ([], at_ctx st i))" by blast
  show ?thesis
    by (rule that [OF _ r(2) [rule_format]]) (use r(1) in \<open>simp add: at_deencapsulate_def new_net_burst_def nb_append_def\<close>)
qed

text \<open>C10: AAL5 over ATM from end to end: whatever bursts of packets are given to the plugin, with any terminals
  and QoS mixed, the calls return, and a fresh receiver which gets the cells in any interleaving that keeps
  the order of the cells of each VPI and VCI (so from several senders at once) returns too: for every
  identifier it accepts the packets of that identifier come out as the layer above builds them from the
  original data, whole, once each and in order, and nothing for the other identifiers. Hypotheses: the data
  fit the 16 bits of the AAL5 length, the terminals 5 bits and the QoS 3, and the layer above keeps
  the identifiers it is given.
\<close>

theorem atm_end_to_end:
  assumes "keeps_ids up" "\<forall>p \<in> set (concat pss). atm_fits p" "at_contexts st = []"
  shows "\<exists>sent. atm_sent pss = Inr sent \<and> (\<forall>fs. (\<forall>i. filter (\<lambda>c. atm_id c = i) fs = filter (\<lambda>c. atm_id c = i) sent) \<longrightarrow>
    (\<exists>out st'. at_deencapsulate up (map Some fs) st = Inr (out, st')
      \<and> (\<forall>i. filter (\<lambda>q. atm_id q = i) (nb_packets out)
          = (if atm_accepts st i then concat (map (atm_delivers up) (filter (\<lambda>p. atm_id p = i) (concat pss))) else []))))"
proof (rule exI, intro conjI allI impI)
  let ?sent = "concat (map cells_of (concat pss))"
  show "atm_sent pss = Inr ?sent" by (rule sent_cells [OF assms(2)])
  fix fs
  assume fs: "\<forall>i. of_id i fs = of_id i ?sent"
  have "\<forall>c \<in> set fs. atm_cell_ok c"
  proof
    fix c
    assume "c \<in> set fs"
    then have "c \<in> set (of_id (atm_id c) ?sent)" using fs [rule_format, of "atm_id c", symmetric] by simp
    then show "atm_cell_ok c" using cells_of_ids(2) assms(2) by auto
  qed
  then obtain out st' where out: "at_deencapsulate up (map Some fs) st = Inr (\<lparr>nb_limit = 0, nb_packets = out\<rparr>, st')"
    "\<And>i. (of_id i out, at_ctx st' i)
      = (if atm_accepts st i then reassemble up (at_ctx st i) (of_id i fs) else ([], at_ctx st i))"
    using deencapsulate_refines [OF assms(1)] by blast
  have "of_id i out = (if atm_accepts st i then concat (map (atm_delivers up) (of_id i (concat pss))) else [])" for i
  proof -
    have "reassemble up [] (of_id i fs) = (concat (map (atm_delivers up) (of_id i (concat pss))), [])"
      unfolding fs [rule_format, of i] of_id_cells [OF assms(2)] by (rule reassemble_packets) (use assms(2) in auto)
    then show ?thesis using out(2) [of i] fresh_contexts [OF assms(3), of i] by (auto split: if_splits)
  qed
  then show "\<exists>out st'. at_deencapsulate up (map Some fs) st = Inr (out, st')
      \<and> (\<forall>i. of_id i (nb_packets out)
          = (if atm_accepts st i then concat (map (atm_delivers up) (of_id i (concat pss))) else []))"
    unfolding out(1) by (intro exI conjI) (rule refl, simp)
qed

theorem atm_end_to_end_witness:
  "let ip = \<lparr>eh_min = 20, eh_length = length, eh_build = (\<lambda>d n q s t. Some (full_net_packet d n ''IP'' 0x0800 q s t 20))\<rparr>;
       p = (new_net_packet (replicate 60 7))\<lparr>np_type := 0x0800, np_qos := 2, np_src_tal_id := 3, np_dst_tal_id := 4\<rparr>;
       r = p\<lparr>np_dst_tal_id := 31\<rparr>; pss = [[p, r], [p]]; st = \<lparr>at_contexts = [], at_dst_tal_id = 4\<rparr>
   in \<exists>sent. atm_sent pss = Inr sent \<and> (\<forall>fs. (\<forall>i. filter (\<lambda>c. atm_id c = i) fs = filter (\<lambda>c. atm_id c = i) sent) \<longrightarrow>
    (\<exists>out st'. at_deencapsulate ip (map Some fs) st = Inr (out, st')
      \<and> (\<forall>i. filter (\<lambda>q. atm_id q = i) (nb_packets out)
          = (if atm_accepts st i then concat (map (atm_delivers ip) (filter (\<lambda>p. atm_id p = i) (concat pss))) else []))))"
  unfolding Let_def
  by (rule atm_end_to_end) (simp_all add: keeps_ids_def atm_fits_def new_net_packet_def full_net_packet_def)

text \<open>C38: AAL5 over ATM resynchronises: the receiver may be in any state and may have got any cells, with losses
  and leftovers of other packets; once a cell with the mark of the last one has come for an identifier it
  accepts, all the packets sent afterwards under that identifier are delivered whole and in order, behind
  what the earlier cells gave.
\<close>

theorem atm_resynchronises:
  assumes "keeps_ids up" "\<forall>p \<in> set ps. atm_fits p \<and> atm_id p = i" "atm_accepts st i"
    and "\<forall>c \<in> set (fs @ gs). atm_cell_ok c"
    and "filter (\<lambda>c. atm_id c = i) fs = xs @ [c]" "ac_isLastCell (new_atm_cell (np_data c))"
    and "filter (\<lambda>c. atm_id c = i) gs = concat (map cells_of ps)"
  shows "\<exists>out st' before. at_deencapsulate up (map Some (fs @ gs)) st = Inr (out, st')
    \<and> filter (\<lambda>q. atm_id q = i) (nb_packets out) = before @ concat (map (atm_delivers up) ps)"
proof -
  obtain out st' where out: "at_deencapsulate up (map Some (fs @ gs)) st = Inr (\<lparr>nb_limit = 0, nb_packets = out\<rparr>, st')"
    "(of_id i out, at_ctx st' i) = reassemble up (at_ctx st i) (of_id i (fs @ gs))"
    using deencapsulate_refines [OF assms(1,4), of st] assms(3) by metis
  obtain o1 e1 where xs: "reassemble up (at_ctx st i) xs = (o1, e1)" by force
  have "reassemble up (at_ctx st i) (of_id i fs) = (o1 @ atm_sdu up c (e1 @ drop 5 (np_data c)), [])"
    unfolding assms(5) using xs assms(6) by (simp add: reassemble_append)
  moreover have "reassemble up [] (of_id i gs) = (concat (map (atm_delivers up) ps), [])"
    unfolding assms(7) by (rule reassemble_packets) (use assms(2) in simp)
  ultimately have "of_id i out = (o1 @ atm_sdu up c (e1 @ drop 5 (np_data c))) @ concat (map (atm_delivers up) ps)"
    using out(2) by (simp add: reassemble_append)
  then show ?thesis unfolding out(1) by (intro exI conjI) (rule refl, simp)
qed

text \<open>The second of two cells of a packet, the first one being lost, then a whole packet.\<close>

theorem atm_resynchronises_witness:
  "let ip = \<lparr>eh_min = 20, eh_length = length, eh_build = (\<lambda>d n q s t. Some (full_net_packet d n ''IP'' 0x0800 q s t 20))\<rparr>;
       p = (new_net_packet (replicate 60 7))\<lparr>np_type := 0x0800, np_qos := 2, np_src_tal_id := 3, np_dst_tal_id := 4\<rparr>;
       c = cell_packet p 1 True (a5_chunk p 1); st = \<lparr>at_contexts = [((4, 26), [1, 2])], at_dst_tal_id = 4\<rparr>
   in \<exists>out st' before. at_deencapsulate ip (map Some ([c] @ cells_of p)) st = Inr (out, st')
    \<and> filter (\<lambda>q. atm_id q = atm_id p) (nb_packets out) = before @ concat (map (atm_delivers ip) [p])"
proof -
  define p where "p = (new_net_packet (replicate 60 7))\<lparr>np_type := 0x0800, np_qos := 2, np_src_tal_id := 3, np_dst_tal_id := 4\<rparr>"
  define c where "c = cell_packet p 1 True (a5_chunk p 1)"
  have p: "atm_fits p" by (simp add: p_def atm_fits_def new_net_packet_def)
  have n: "a5_count p = 2" by (simp add: a5_count_def length_a5_bytes p_def new_net_packet_def a5_pad_def Let_def)
  have c: "c \<in> set (cells_of p)" by (simp add: cells_of_def n c_def upt_conv_Cons)
  have last: "ac_isLastCell (new_atm_cell (np_data c))"
    using length_a5_chunk [of 1 p] n by (simp add: c_def cell_packet_def full_net_packet_def new_net_packet_def cell_ids)
  have ids: "\<forall>d \<in> set (cells_of p). atm_id d = atm_id p \<and> atm_cell_ok d" using cells_of_ids [OF p] by blast
  show ?thesis
    unfolding Let_def p_def [symmetric] c_def [symmetric]
    by (rule atm_resynchronises [where xs = "[]" and c = c])
      (use p c ids last in \<open>auto simp: keeps_ids_def full_net_packet_def new_net_packet_def filter_id_conv
        atm_accepts_def atm_id_def vpi_of_packet_def p_def\<close>)
qed

end
