(* ===== verification/RcsLink.thy ===== *)
theory RcsLink
  imports RcsReturn DamaAgent DvbMsgCorrect AtmCorrect DamaDemo
begin

text \<open>
  The return link of DVB-RCS from end to end: the burst time plans of the controller reach the agent of a terminal,
  its scheduler spends the grant, and the gateway cuts the frames into the ATM cells that the encapsulation plugin
  of the terminal made.
\<close>

section \<open>Rates that the agent computes only for its probes\<close>

lemma pfToPs_small:
  assumes "uc_frame_inv uc = inv32 (uc_frame_ms uc)" "0 < uc_frame_ms uc" "unat v \<le> 65535"
  shows "\<exists>r. uc_pfToPs uc v = Inr r"
proof -
  let ?x = "f32 (f32 (f32 (rat_of_word v) * uc_frame_inv uc) * 1000)" and ?y = "rat_of_word v * (1 / rat_of_word (uc_frame_ms uc)) * 1000"
  have "near (Suc (Suc (Suc 0 + 2) + 0)) ?x ?y"
    unfolding assms(1) by (intro near_f32 near_mult near_refl near_inv32 assms(2)) simp_all
  then have n: "near 5 ?x ?y" by (simp add: eval_nat_numeral)
  have "(1 :: u32) \<le> uc_frame_ms uc" using assms(2) by (simp add: word_le_nat_alt word_less_nat_alt)
  then have "rat_of_word (1 :: u32) \<le> rat_of_word (uc_frame_ms uc)" by (simp only: rat_of_word_le_iff)
  then have d: "1 \<le> rat_of_word (uc_frame_ms uc)" by (simp add: rat_of_word_def)
  have "rat_of_word v \<le> 65535" using assms(3) unfolding rat_of_word_def by (metis of_nat_le_iff of_nat_numeral)
  moreover have "rat_of_word v * (1 / rat_of_word (uc_frame_ms uc)) \<le> rat_of_word v * 1"
    using d by (intro mult_left_mono) simp_all
  ultimately have "rat_of_word v * (1 / rat_of_word (uc_frame_ms uc)) \<le> 65535" by linarith
  then have "?y \<le> 65535 * 1000" by (rule mult_right_mono) simp
  then have y: "?y \<le> 65535000" by simp
  have "?x \<le> ?y + ?y * of_nat 5 * ulp * 2" by (rule near_upper [OF n]) simp
  also have "\<dots> \<le> 65535000 + 65535000 * of_nat 5 * ulp * 2"
    using y by (intro add_mono mult_right_mono) simp_all
  also have "\<dots> \<le> of_int 4294967295" by (simp add: ulp_def)
  finally have "\<lceil>?x\<rceil> \<le> 4294967295" by (simp add: ceiling_le_iff)
  moreover have "0 \<le> \<lceil>?x\<rceil>" using near_nonneg [OF n] by linarith
  ultimately show ?thesis using to_uint_ex [of "\<lceil>?x\<rceil>", where 'a = 32] by (auto simp: uc_pfToPs_def)
qed

section \<open>ATM cells over the return link\<close>

interpretation atm_sd: self_delimiting atm_hdl "\<lambda>d. length d = 53"
  by unfold_locales (auto simp: atm_hdl_def ATM_LENGTH_def)

text \<open>A cell as the plugin builds it from its bytes.\<close>

definition whole_cell :: "net_packet \<Rightarrow> bool" where
  "whole_cell c \<longleftrightarrow> length (np_data c) = 53 \<and> atm_build (np_data c) 53 0 BROADCAST_TAL_ID8 BROADCAST_TAL_ID8 = Some c"

lemma plugin_cells_whole:
  assumes "\<forall>p \<in> set (concat pss). atm_fits p" "atm_sent pss = Inr sent" "c \<in> set sent"
  shows "whole_cell c"
proof -
  have "sent = concat (map cells_of (concat pss))" using assms(2) sent_cells [OF assms(1)] by simp
  then obtain p where p: "p \<in> set (concat pss)" "c \<in> set (cells_of p)" using assms(3) by fastforce
  then have fits: "atm_fits p" using assms(1) by blast
  obtain i l where i: "c = cell_packet p i l (a5_chunk p i)" "i < a5_count p" using p by (auto simp: cells_of_def)
  have l: "length (a5_chunk p i) = 48" by (rule length_a5_chunk [OF i(2)])
  have f: "np_data c = cell_bytes (of_nat i) (vpi_of_packet p) (vci_of_packet p) l (a5_chunk p i)"
    using l by (simp add: i(1) cell_packet_def full_net_packet_def new_net_packet_def)
  then show ?thesis using l atm_build_cell [OF fits l] by (simp add: whole_cell_def i(1))
qed

definition cell_of_bytes :: "data \<Rightarrow> net_packet" where
  "cell_of_bytes d = the (atm_build d 53 0 BROADCAST_TAL_ID8 BROADCAST_TAL_ID8)"

lemma cell_build:
  "length d = 53 \<Longrightarrow> eh_build atm_hdl (d @ r) (length d) 0 BROADCAST_TAL_ID8 BROADCAST_TAL_ID8 = Some (cell_of_bytes d)"
  by (simp add: atm_hdl_def cell_of_bytes_def atm_build_def ATM_LENGTH_def Let_def full_net_packet_def)

definition rcs_receives :: "(tal_id_t \<Rightarrow> bool) \<Rightarrow> rcs_std \<Rightarrow> dvb_frame \<Rightarrow> net_burst \<Rightarrow> bool" where
  "rcs_receives is_gw st f b \<longleftrightarrow> (\<exists>f0. df_of_data (df_data f) = Inr f0 \<and> rcs_std_onRcvFrame is_gw st (Some f0) = Inr (True, Some b))"

text \<open>Of what one scheduling sends, frame by frame, the gateway gets the cells.\<close>

lemma cells_received:
  assumes "list_all2 (\<lambda>g. rcs_holds M 0 (map np_data g)) gs frames" "[] \<notin> set gs" "\<forall>c \<in> set (concat gs). whole_cell c"
    and "st_handler st = Some atm_hdl" "st_switch st = None" "\<not> (st_fixed st \<and> st_fixed_length st = 0)"
  shows "list_all2 (rcs_receives is_gw st) (map (rcs_setModcodId k) frames) (map (\<lambda>g. \<lparr>nb_limit = 0, nb_packets = g\<rparr>) gs)"
  using assms(1,2,3)
proof (induction gs frames rule: list_all2_induct)
  case (Cons g gs f frames)
  have ok: "\<forall>d \<in> set (map np_data g). length d = 53" using Cons by (auto simp: whole_cell_def)
  have "map (cell_of_bytes \<circ> np_data) g = map id g"
    using Cons.prems by (intro map_cong) (auto simp: cell_of_bytes_def whole_cell_def)
  then have id: "map cell_of_bytes (map np_data g) = g" by simp
  have "rcs_receives is_gw st (rcs_setModcodId k f) \<lparr>nb_limit = 0, nb_packets = g\<rparr>"
    using atm_sd.rcs_received [OF Cons.hyps(1) _ ok cell_build assms(4,5,6), of k is_gw] Cons.prems(1)
    unfolding rcs_receives_def id by auto
  then show ?case using Cons by simp
qed simp

section \<open>From the grant to the frames\<close>

lemma dm_plans_frame: "dm_plans l c = Inr ps \<Longrightarrow> p \<in> set ps \<Longrightarrow> tp_frame p = 0"
  by (induction l arbitrary: ps) (auto simp: res_bind_Inr dm_time_plan_def)

lemma last_plan_distinct:
  assumes "distinct (map tp_tal ps)" "p \<in> set ps"
  shows "last_plan (tp_tal p) n ps = [(n, tp_got p)]"
proof -
  obtain xs ys where ps: "ps = xs @ p # ys" using split_list [OF assms(2)] by blast
  then have n: "tp_tal p \<notin> tp_tal ` set xs" "tp_tal p \<notin> tp_tal ` set ys" using assms(1) by auto
  have "filter (\<lambda>q. tp_tal q = tp_tal p) xs = []" "filter (\<lambda>q. tp_tal q = tp_tal p) ys = []"
    unfolding filter_empty_conv using n by (metis imageI)+
  then show ?thesis by (simp add: last_plan_def ps)
qed

text \<open>An agent whose converter is that of DVB-RCS.\<close>

definition da_converter_ok :: "'e dama_agent \<Rightarrow> bool" where
  "da_converter_ok a \<longleftrightarrow> uc_kind (da_converter a) = FixedBitLength \<and> 8 \<le> unat (uc_len (da_converter a))
     \<and> uc_frame_inv (da_converter a) = inv32 (uc_frame_ms (da_converter a)) \<and> 0 < uc_frame_ms (da_converter a)"

lemma hereIsTTP_grant:
  assumes "\<forall>p \<in> set ps. tp_frame p = 0" "length ps \<le> 6552" "p \<in> set ps" "distinct (map tp_tal ps)"
    and "da_tal_id a = tp_tal p" "da_group_id a = g" "ft_getDefinition (da_table a) (tp_fmt p) = Some d" "da_converter_ok a"
  shows "da_hereIsTTP (df_data (ttp_frame (ttp_of junk g sf ps))) a
    = Inr (True, a\<lparr>da_modcod := tp_fmt p, da_converter := uc_setModulationEfficiency (fd_eff d) (da_converter a),
        da_allocated_kb := tp_assignment p\<rparr>)"
proof -
  obtain d' where r: "ttp_getGroupId (df_data (ttp_frame (ttp_of junk g sf ps))) = Inr g"
      "ttp_getTp (tp_tal p) [] (df_data (ttp_frame (ttp_of junk g sf ps))) = Inr (True, [(0, tp_got p)], d')"
    using ttp_read [OF assms(1,2), of junk g sf "tp_tal p"] last_plan_distinct [OF assms(4,3)] by auto
  let ?uc = "uc_setModulationEfficiency (fd_eff d) (da_converter a)"
  have "unat (ucast (tp_assignment p) :: u32) \<le> 65535"
    using unat_u16_less [of "tp_assignment p"] by (simp add: unsigned_ucast_eq take_bit_nat_eq_self)
  then obtain k where "uc_pfToPs ?uc (ucast (tp_assignment p)) = Inr k"
    using pfToPs_small [of ?uc "ucast (tp_assignment p)"] assms(8) by (auto simp: da_converter_ok_def uc_setModulationEfficiency_def)
  then show ?thesis using r assms(5-7) by (simp add: da_hereIsTTP_def da_plan_def)
qed

lemma holds_modcod:
  assumes "rcs_holds M m bs f"
  shows "rcs_holds M k bs (rcs_setModcodId k f)" "df_getMessageType f = MSG_TYPE_DVB_BURST" "rcs_getModcodId (rcs_setModcodId k f) = k"
proof -
  note h = assms [unfolded rcs_holds_def]
  have d: "df_data (rcs_setModcodId k f)
      = saf_bytes MSG_TYPE_DVB_BURST (of_nat (length bs)) (of_nat (6 + length (concat bs))) (k # concat bs)"
    using h by (simp add: rcs_setModcodId_def saf_bytes_def put_at_def)
  then show "rcs_holds M k bs (rcs_setModcodId k f)" using h by (simp add: rcs_holds_def rcs_setModcodId_def)
  show "df_getMessageType f = MSG_TYPE_DVB_BURST"
    using h by (simp add: df_getMessageType_def saf_bytes_simps MSG_TYPE_DVB_BURST_def)
  show "rcs_getModcodId (rcs_setModcodId k f) = k"
    unfolding rcs_getModcodId_def d by (simp add: saf_bytes_def byte_at_def nth_append)
qed

lemma returnSchedule_greedy:
  assumes "8 \<le> unat (da_burst_b a)" "unat (da_remaining_b a) \<le> 65535000" "fifos_ok (burst_max (da_burst_b a)) (da_fifos a)"
    and "uc_frame_inv (da_converter a) = inv32 (uc_frame_ms (da_converter a))" "0 < uc_frame_ms (da_converter a)"
  shows "\<exists>frames a' gs. da_returnSchedule rs_schedule [] a = Inr (True, frames, a')
    \<and> list_all2 (\<lambda>g. rcs_holds (burst_max (da_burst_b a)) (da_modcod a) (map np_data g)) gs frames \<and> [] \<notin> set gs
    \<and> concat gs = fst (greedy (unat (da_remaining_b a)) (fifos_abs (da_fifos a)))
    \<and> fifos_abs (da_fifos a') = snd (greedy (unat (da_remaining_b a)) (fifos_abs (da_fifos a)))
    \<and> unat (da_remaining_b a') = unat (da_remaining_b a) - bits_of (concat gs) \<and> bits_of (concat gs) \<le> unat (da_remaining_b a)"
proof -
  let ?M = "burst_max (da_burst_b a)" and ?r = "da_remaining_b a"
  obtain frames rem' fs' gs where s: "rs_schedule (da_burst_b a) ?r (da_fifos a) = Inr (True, frames, rem', fs')"
      "list_all2 (\<lambda>g. rcs_holds ?M 0 (map np_data g)) gs frames" "[] \<notin> set gs"
      "concat gs = fst (greedy (unat ?r) (fifos_abs (da_fifos a)))" "fifos_abs fs' = snd (greedy (unat ?r) (fifos_abs (da_fifos a)))"
      "unat rem' = unat ?r - bits_of (concat gs)" "bits_of (concat gs) \<le> unat ?r"
    using rs_schedule_greedy [OF assms(1) _ assms(3), of ?r] assms(2) by auto
  have rate: "\<exists>k. uc_pfToPs (da_converter a) (v div 1000) = Inr k" if "unat v \<le> 65535000" for v :: u32
  proof (rule pfToPs_small [OF assms(4,5)])
    have "unat (v div 1000) = unat v div 1000" by (simp add: unat_div_distrib)
    then show "unat (v div 1000) \<le> 65535" using that by simp
  qed
  obtain k1 k2 where k: "uc_pfToPs (da_converter a) (?r div 1000) = Inr k1" "uc_pfToPs (da_converter a) (rem' div 1000) = Inr k2"
    using rate [OF assms(2)] rate [of rem'] s(6) assms(2) by fastforce
  let ?frames = "map (\<lambda>f. if df_getMessageType f = MSG_TYPE_DVB_BURST then rcs_setModcodId (da_modcod a) f else f) frames"
  have "list_all2 (\<lambda>g. rcs_holds ?M (da_modcod a) (map np_data g)) gs ?frames"
    using s(2) by (induction rule: list_all2_induct) (simp_all add: holds_modcod)
  moreover have "da_returnSchedule rs_schedule [] a = Inr (True, ?frames, a\<lparr>da_fifos := fs', da_remaining_b := rem'\<rparr>)"
    using s(1) k by (simp add: da_returnSchedule_def)
  ultimately show ?thesis using s(3-7) by fastforce
qed

section \<open>Instances\<close>

definition demo_packet :: net_packet where
  "demo_packet = (new_net_packet (replicate 60 7))\<lparr>np_type := 0x0800, np_qos := 2, np_src_tal_id := 3, np_dst_tal_id := 4\<rparr>"

definition demo_fifo :: "net_packet list \<Rightarrow> net_packet dvb_fifo" where
  "demo_fifo ps = (new_dvb_fifo (0, 0) 0 ''EF'' ''DAMA_RBDC'' 100)\<lparr>fi_queue := map (\<lambda>p. new_fifo_elem p 0 0) ps,
     fi_cur_length_bytes := of_nat (sum_list (map nc_getTotalLength ps))\<rparr>"

definition demo_agent :: "net_packet list \<Rightarrow> net_packet dama_agent" where
  "demo_agent ps = \<lparr>da_table = [(1, demo_fmt)], da_fifos = [(0, demo_fifo ps)], da_tal_id = 7, da_group_id = 0, da_superframe = 0,
     da_rbdc_enabled = True, da_vbdc_enabled = False, da_frame_ms = 20, da_msl_sf = 10, da_sync_period_sf = 10,
     da_allocated_kb = 0, da_dynamic_kb = 0, da_remaining_b = 0, da_burst_b = 0, da_buffer = Some (new_circ 1), da_rbdc_timer = 0,
     da_converter = new_bit_converter 20 0 424, da_modcod = 0, da_vbdc_credit = 0\<rparr>"

definition granted_ctrl :: dama_ctrl where
  "granted_ctrl = demo_ctrl 20 [(demo_term 7 0 0)\<lparr>dt_rbdc_alloc := 100, dt_fmt := Some demo_fmt\<rparr>] 1000"

section \<open>Properties\<close>

text \<open>C8: The return link scheduler of DVB-RCS refines a greedy server over the FIFOs in the order of their
  priorities (\<open>greedy\<close>: packet after packet while the allocation lasts, the FIFOs of Slotted Aloha left out, nothing
  behind the first packet that does not fit): it returns, the frames hold the packets that server sends, in order,
  cut into non-empty groups within the size of a burst, the FIFOs keep exactly the rest and the
  allocation is decreased by the bits sent, which it covered. Hypotheses: a burst of at least one byte, packets that
  are not empty and fit a burst alone, FIFOs within their bound, an allocation below \<open>2 ^ 31\<close> bits.
\<close>

theorem return_schedule_refines:
  assumes "8 \<le> unat mb" "unat rem < 2 ^ 31" "fifos_ok (burst_max mb) fs"
  shows "\<exists>frames rem' fs' gs. rs_schedule mb rem fs = Inr (True, frames, rem', fs')
    \<and> list_all2 (\<lambda>g. rcs_holds (burst_max mb) 0 (map np_data g)) gs frames \<and> [] \<notin> set gs
    \<and> concat gs = fst (greedy (unat rem) (fifos_abs fs)) \<and> fifos_abs fs' = snd (greedy (unat rem) (fifos_abs fs))
    \<and> map fst fs' = map fst fs \<and> unat rem' = unat rem - bits_of (concat gs) \<and> bits_of (concat gs) \<le> unat rem"
  by (rule rs_schedule_greedy [OF assms])

theorem return_schedule_refines_witness:
  "\<exists>frames rem' fs' gs. rs_schedule 480 500 [(0, demo_fifo [demo_packet, demo_packet])] = Inr (True, frames, rem', fs')
    \<and> list_all2 (\<lambda>g. rcs_holds (burst_max 480) 0 (map np_data g)) gs frames \<and> concat gs = [demo_packet] \<and> unat rem' = 20"
proof -
  let ?fs = "[(0, demo_fifo [demo_packet, demo_packet])] :: rcs_fifos"
  have "greedy 500 (fifos_abs ?fs) = ([demo_packet], [(False, [demo_packet])])"
    by (simp add: fifos_abs_def demo_fifo_def new_dvb_fifo_def type_access_def DvbFifo.access_dama_rbdc_def access_saloha_def
        new_fifo_elem_def nc_getTotalLength_def demo_packet_def new_net_packet_def)
  moreover have "fifos_ok (burst_max 480) ?fs"
    by (simp add: fifos_ok_def burst_max_def MSG_DVB_RCS_SIZE_MAX_def demo_fifo_def new_dvb_fifo_def new_fifo_elem_def
        nc_getTotalLength_def demo_packet_def new_net_packet_def)
  ultimately show ?thesis
    using return_schedule_refines [of 480 500 ?fs] by (auto simp: nc_getTotalLength_def demo_packet_def new_net_packet_def)
qed

text \<open>C9: The return link carries ATM cells from end to end: whatever the AAL5/ATM plugin of the terminal makes of its
  packets, the frames the scheduler fills with the cells of its FIFOs, serialised and received by the gateway with any
  MODCOD in their header, are cut into the very cells the greedy server sends, in order and with their
  identifiers, and the cells not sent stay in the FIFOs.
\<close>

theorem return_link_delivers:
  assumes "\<forall>p \<in> set (concat pss). atm_fits p" "atm_sent pss = Inr sent"
    and "\<forall>(q, f) \<in> set fs. length (fi_queue f) \<le> unat (fi_max_size_pkt f) \<and> fe_elem ` set (fi_queue f) \<subseteq> set sent"
    and "424 \<le> unat mb" "unat rem < 2 ^ 31"
    and "st_handler st = Some atm_hdl" "st_switch st = None" "st_fixed_length st = 53"
  shows "\<exists>frames rem' fs' bursts. rs_schedule mb rem fs = Inr (True, frames, rem', fs')
    \<and> list_all2 (rcs_receives is_gw st) (map (rcs_setModcodId k) frames) bursts
    \<and> concat (map nb_packets bursts) = fst (greedy (unat rem) (fifos_abs fs))
    \<and> fifos_abs fs' = snd (greedy (unat rem) (fifos_abs fs))"
proof -
  have whole: "whole_cell (fe_elem x)" if "(q, f) \<in> set fs" "x \<in> set (fi_queue f)" for q f x
    using that assms(3) by (intro plugin_cells_whole [OF assms(1,2)]) blast
  have "59 \<le> burst_max mb" using assms(4) by (simp add: burst_max_def MSG_DVB_RCS_SIZE_MAX_def)
  then have ok: "fifos_ok (burst_max mb) fs"
    using whole assms(3) by (fastforce simp: fifos_ok_def whole_cell_def nc_getTotalLength_def)
  obtain frames rem' fs' gs where s: "rs_schedule mb rem fs = Inr (True, frames, rem', fs')"
      "list_all2 (\<lambda>g. rcs_holds (burst_max mb) 0 (map np_data g)) gs frames" "[] \<notin> set gs"
      "concat gs = fst (greedy (unat rem) (fifos_abs fs))" "fifos_abs fs' = snd (greedy (unat rem) (fifos_abs fs))"
    using rs_schedule_greedy [OF _ assms(5) ok] assms(4) by auto
  have "set (concat gs) \<subseteq> set (concat (map snd (fifos_abs fs)))" unfolding s(4) by (rule greedy_subset)
  moreover have "whole_cell c" if "c \<in> set (concat (map snd (fifos_abs fs)))" for c
  proof -
    from that obtain q f x where "(q, f) \<in> set fs" "x \<in> set (fi_queue f)" "c = fe_elem x" by (auto simp: fifos_abs_def)
    then show ?thesis using whole by blast
  qed
  ultimately have "\<forall>c \<in> set (concat gs). whole_cell c" by blast
  then have "list_all2 (rcs_receives is_gw st) (map (rcs_setModcodId k) frames) (map (\<lambda>g. \<lparr>nb_limit = 0, nb_packets = g\<rparr>) gs)"
    by (intro cells_received [OF s(2,3)]) (simp_all add: assms(6-8))
  moreover have "concat (map nb_packets (map (\<lambda>g. \<lparr>nb_limit = 0, nb_packets = g\<rparr>) gs)) = concat gs"
    by (simp add: comp_def)
  ultimately show ?thesis using s(1,4,5) by metis
qed

theorem return_link_delivers_witness:
  "let fs = [(0, demo_fifo (cells_of demo_packet))]; st = \<lparr>st_fixed = True, st_fixed_length = 53, st_handler = Some atm_hdl, st_switch = None\<rparr>
   in \<exists>frames rem' fs' bursts. rs_schedule 848 1000 fs = Inr (True, frames, rem', fs')
    \<and> list_all2 (rcs_receives (\<lambda>i. i = 0) st) (map (rcs_setModcodId 3) frames) bursts
    \<and> concat (map nb_packets bursts) = fst (greedy (unat (1000 :: u32)) (fifos_abs fs))
    \<and> fifos_abs fs' = snd (greedy (unat (1000 :: u32)) (fifos_abs fs))"
proof -
  have fits: "\<forall>p \<in> set (concat [[demo_packet]]). atm_fits p" by (simp add: demo_packet_def atm_fits_def new_net_packet_def)
  have sent: "atm_sent [[demo_packet]] = Inr (cells_of demo_packet)" using sent_cells [OF fits] by simp
  have "a5_count demo_packet = 2"
    by (simp add: a5_count_def length_a5_bytes demo_packet_def new_net_packet_def a5_pad_def Let_def)
  then have n: "length (cells_of demo_packet) = 2" by (simp add: cells_of_def)
  show ?thesis
    unfolding Let_def
    by (rule return_link_delivers [OF fits sent])
      (use n in \<open>auto simp: demo_fifo_def new_dvb_fifo_def new_fifo_elem_def\<close>)
qed

text \<open>C7: A grant becomes frames: when the gateway sends the burst time plans of \<open>buildTTP\<close> and a terminal of the plan reads
  them, then at the next superframe the terminal's scheduler spends exactly that grant: its frames carry
  the MODCOD of the plan, hold what the greedy server sends with \<open>1000\<close> bits for each kilobit assigned, no more, and the
  remaining allocation is the rest of it. Hypotheses: at most 6552 plans, of different terminals, a MODCOD the
  terminal knows, a DVB-RCS converter, packets that fit a burst.
\<close>

theorem grant_becomes_frames:
  assumes "dm_buildTTP c = Inr ps" "length ps \<le> 6552" "p \<in> set ps" "distinct (map tp_tal ps)"
    and "da_tal_id a = tp_tal p" "da_group_id a = g" "ft_getDefinition (da_table a) (tp_fmt p) = Some d" "da_converter_ok a"
    and "fifos_ok (burst_max (uc_len (da_converter a))) (da_fifos a)"
  shows "\<exists>a1 frames a2 gs. da_hereIsTTP (df_data (ttp_frame (ttp_of junk g sf ps))) a = Inr (True, a1)
    \<and> da_returnSchedule rs_schedule [] (snd (da_processOnFrameTick (snd (da_hereIsSOF n a1)))) = Inr (True, frames, a2)
    \<and> list_all2 (\<lambda>g. rcs_holds (burst_max (uc_len (da_converter a))) (tp_fmt p) (map np_data g)) gs frames
    \<and> concat gs = fst (greedy (1000 * unat (tp_assignment p)) (fifos_abs (da_fifos a)))
    \<and> bits_of (concat gs) \<le> 1000 * unat (tp_assignment p)
    \<and> unat (da_remaining_b a2) = 1000 * unat (tp_assignment p) - bits_of (concat gs)"
proof -
  have frame: "\<forall>p \<in> set ps. tp_frame p = 0" using assms(1) dm_plans_frame by (auto simp: dm_buildTTP_def)
  let ?a1 = "a\<lparr>da_modcod := tp_fmt p, da_converter := uc_setModulationEfficiency (fd_eff d) (da_converter a),
        da_allocated_kb := tp_assignment p\<rparr>"
  let ?b = "snd (da_processOnFrameTick (snd (da_hereIsSOF n ?a1)))"
  have conv: "uc_kind (da_converter ?b) = FixedBitLength" "uc_len (da_converter ?b) = uc_len (da_converter a)"
    "uc_frame_inv (da_converter ?b) = inv32 (uc_frame_ms (da_converter ?b))" "0 < uc_frame_ms (da_converter ?b)"
    using assms(8) by (simp_all add: da_processOnFrameTick_def da_hereIsSOF_def da_parent_hereIsSOF_def
        uc_setModulationEfficiency_def da_converter_ok_def)
  have b: "da_burst_b ?b = uc_len (da_converter a)" "da_fifos ?b = da_fifos a" "da_modcod ?b = tp_fmt p"
    using assms(8) by (simp_all add: da_processOnFrameTick_def da_hereIsSOF_def da_parent_hereIsSOF_def
        uc_setModulationEfficiency_def da_converter_ok_def uc_getPacketBitLength_def)
  have "da_remaining_b ?b = of_nat (1000 * unat (tp_assignment p))"
    by (simp add: da_processOnFrameTick_def da_hereIsSOF_def da_parent_hereIsSOF_def mult.commute)
  moreover have "1000 * unat (tp_assignment p) \<le> 65535000" using unat_u16_less [of "tp_assignment p"] by simp
  ultimately have rem: "unat (da_remaining_b ?b) = 1000 * unat (tp_assignment p)" "unat (da_remaining_b ?b) \<le> 65535000"
    by (simp_all only: u32_of_nat_id)
  show ?thesis
    using hereIsTTP_grant [OF frame assms(2-8), of junk sf] returnSchedule_greedy [of ?b] assms(8,9) rem
    unfolding b conv(2) by (fastforce simp: conv da_converter_ok_def)
qed

theorem grant_becomes_frames_witness:
  "\<exists>a1 frames a2 p. dm_buildTTP granted_ctrl = Inr [p] \<and> tp_assignment p = 2
    \<and> da_hereIsTTP (df_data (ttp_frame (ttp_of [9, 9] 0 5 [p]))) (demo_agent [new_net_packet (replicate 53 7)]) = Inr (True, a1)
    \<and> da_returnSchedule rs_schedule [] (snd (da_processOnFrameTick (snd (da_hereIsSOF 6 a1)))) = Inr (True, frames, a2)
    \<and> unat (da_remaining_b a2) = 2000 - 424"
proof -
  let ?a = "demo_agent [new_net_packet (replicate 53 7)]"
  define p where "p = \<lparr>tp_frame = 0, tp_tal = 7, tp_offset = 0, tp_assignment = 2, tp_fmt = 1, tp_priority = 0\<rparr>"
  have ttp: "dm_buildTTP granted_ctrl = Inr [p]" unfolding granted_ctrl_def p_def by code_simp
  have conv: "da_converter_ok ?a" by (simp add: da_converter_ok_def demo_agent_def new_bit_converter_def)
  have fifos: "fifos_ok (burst_max (uc_len (da_converter ?a))) (da_fifos ?a)"
    by (simp add: fifos_ok_def burst_max_def MSG_DVB_RCS_SIZE_MAX_def demo_agent_def new_bit_converter_def demo_fifo_def
        new_dvb_fifo_def new_fifo_elem_def nc_getTotalLength_def new_net_packet_def)
  have "fst (greedy 2000 (fifos_abs (da_fifos ?a))) = [new_net_packet (replicate 53 7)]"
    by (simp add: fifos_abs_def demo_agent_def demo_fifo_def new_dvb_fifo_def type_access_def DvbFifo.access_dama_rbdc_def
        access_saloha_def new_fifo_elem_def nc_getTotalLength_def new_net_packet_def)
  then show ?thesis
    using grant_becomes_frames [OF ttp, of p ?a 0 demo_fmt "[9, 9]" 5 6] conv fifos ttp
    by (fastforce simp: p_def demo_agent_def ft_getDefinition_def nc_getTotalLength_def new_net_packet_def)
qed

end
