(* ===== verification/DamaLink.thy ===== *)
theory DamaLink
  imports RcsLink
begin

text \<open>
  Capacity requests from the agent of a terminal to the controller of the gateway, through the bytes of the SAC.
\<close>

section \<open>What the agent asks for\<close>

lemma rbdc_cr_limit:
  assumes "da_rbdc_cr a = Inr (Some kbps)"
  shows "unat (ucast kbps :: u32) = unat kbps" "unat kbps \<le> 16320"
proof -
  show "unat (ucast kbps :: u32) = unat kbps"
    using unat_u16_less [of kbps] by (simp add: unsigned_ucast_eq take_bit_nat_eq_self)
  obtain v where "kbps = checkRbdcRequest v"
    using assms by (auto simp: da_rbdc_cr_def da_computeRbdcRequest_def res_bind_Inr split: if_splits option.splits)
  then have "kbps \<le> 16320" by (simp add: checkRbdcRequest_def C_MAX_RBDC_IN_SAC_def)
  then show "unat kbps \<le> 16320" by (simp add: word_le_nat_alt)
qed

lemma vbdc_cr_limit:
  assumes "da_vbdc_cr a = Inr (Some kb, a1)"
  shows "unat (ucast kb :: u32) = unat kb" "unat kb \<le> 4080"
proof -
  show "unat (ucast kb :: u32) = unat kb"
    using unat_u16_less [of kb] by (simp add: unsigned_ucast_eq take_bit_nat_eq_self)
  obtain v where "kb = checkVbdcRequest v"
    using assms by (auto simp: da_vbdc_cr_def da_computeVbdcRequest_def Let_def res_bind_Inr split: if_splits)
  then have "kb \<le> 4080" by (simp add: checkVbdcRequest_def C_MAX_VBDC_IN_SAC_def)
  then show "unat kb \<le> 4080" by (simp add: word_le_nat_alt)
qed

text \<open>The one request that the message holds: the RBDC one if there is one, else the VBDC one.\<close>

definition sac_choice :: "rate_kbps_t option \<Rightarrow> vol_kb_t option \<Rightarrow> (u8 \<times> u16) option" where
  "sac_choice rbdc vbdc = (case rbdc of Some kbps \<Rightarrow> Some (DamaCtrl.access_dama_rbdc, kbps)
     | None \<Rightarrow> map_option (Pair DamaCtrl.access_dama_vbdc) vbdc)"

lemma buildSAC_message:
  assumes "da_rbdc_cr a = Inr rbdc" "da_vbdc_cr a = Inr (vbdc, a1)" "da_buildSAC (new_sac t g) a = Inr (False, s, a')"
  obtains type v where "sac_choice rbdc vbdc = Some (type, v)" "type \<in> {DamaCtrl.access_dama_vbdc, DamaCtrl.access_dama_rbdc}"
    "unat (ucast v :: u32) = unat v" "unat v \<le> cr_limit type" "s = snd (sac_addRequest 0 type (ucast v) (new_sac t g))"
proof (cases rbdc)
  case (Some kbps)
  have one: "sac_request_nbr (snd (sac_addRequest 0 DamaCtrl.access_dama_rbdc (ucast kbps) (new_sac t g))) = 1"
    using sac_one_request(2) by (metis surj_pair)
  have "s = snd (sac_addRequest 0 DamaCtrl.access_dama_rbdc (ucast kbps) (new_sac t g))"
    using assms one by (auto simp: da_buildSAC_def Let_def Some res_bind_Inr sac_full split: option.splits)
  then show ?thesis using that [of DamaCtrl.access_dama_rbdc kbps] rbdc_cr_limit [of a kbps] assms(1)
    by (simp add: sac_choice_def Some cr_limit_def DamaCtrl.access_dama_rbdc_def DamaCtrl.access_dama_vbdc_def)
next
  case None
  then obtain kb where kb: "vbdc = Some kb" using assms by (cases vbdc) (auto simp: da_buildSAC_def)
  have "s = snd (sac_addRequest 0 DamaCtrl.access_dama_vbdc (ucast kb) (new_sac t g))"
    using assms by (auto simp: da_buildSAC_def Let_def None kb res_bind_Inr)
  then show ?thesis using that [of DamaCtrl.access_dama_vbdc kb] vbdc_cr_limit [of a kb a1] assms(2)
    by (simp add: sac_choice_def None kb cr_limit_def DamaCtrl.access_dama_vbdc_def)
qed

section \<open>Properties\<close>

text \<open>What the controller does with a request it reads.\<close>

definition term_asked :: "u8 \<Rightarrow> u16 \<Rightarrow> dama_term \<Rightarrow> dama_term" where
  "term_asked type v t = (if type = DamaCtrl.access_dama_vbdc then dt_setRequiredVbdc (vbdc_request v t) t
     else dt_setRequiredRbdc (rbdc_request v t) t)"

text \<open>C11: A capacity request reaches the gateway: from the message \<open>buildSAC\<close> fills, the gateway reads the terminal, its
  group and exactly one request, the RBDC one when the agent has one to send and the VBDC one otherwise (a VBDC
  request beside an RBDC one is lost), whose value is the agent's up to the granularity of the coding (exact
  for at most 255 kb of VBDC, within 8 kb above; within 1, 16 or 32 kb/s of RBDC up to 510, 8160 and 16320 kb/s); the controller
  records it for that terminal, reduced by the CRA and bounded by its maximum, and changes no other terminal.
\<close>

theorem request_reaches_gateway:
  assumes "da_rbdc_cr a = Inr rbdc" "da_vbdc_cr a = Inr (vbdc, a1)" "da_buildSAC (new_sac t g) a = Inr (False, s, a')"
    and "om_find (dm_terminals c) t = Some term"
  shows "\<exists>type v r c'. sac_choice rbdc vbdc = Some (type, v)
    \<and> sac_getTerminalId (df_data (sac_frame s)) = Inr t \<and> sac_getGroupId (df_data (sac_frame s)) = Inr g
    \<and> sac_getRequests (df_data (sac_frame s)) = Inr [r] \<and> cr_close (cr_error type (unat v)) (unat (cr_value r)) (unat v)
    \<and> dm_hereIsSAC is_gw t [r] c = Inr (True, c')
    \<and> om_find (dm_terminals c') = (om_find (dm_terminals c))(t \<mapsto> term_asked type (ucast (cr_value r)) term)"
proof -
  obtain type v where m: "sac_choice rbdc vbdc = Some (type, v)" "type \<in> {DamaCtrl.access_dama_vbdc, DamaCtrl.access_dama_rbdc}"
      "unat (ucast v :: u32) = unat v" "unat v \<le> cr_limit type" "s = snd (sac_addRequest 0 type (ucast v) (new_sac t g))"
    using buildSAC_message [OF assms(1-3)] by blast
  obtain r where r: "sac_getTerminalId (df_data (sac_frame s)) = Inr t" "sac_getGroupId (df_data (sac_frame s)) = Inr g"
      "sac_getRequests (df_data (sac_frame s)) = Inr [r]" "cr_type r = type" "cr_close (cr_error type (unat v)) (unat (cr_value r)) (unat v)"
    using sac_request_read [of 0 type "ucast v" t g] m(2-4) unfolding m(5) by auto
  have "\<exists>c'. dm_hereIsSAC is_gw t [r] c = Inr (True, c')
      \<and> om_find (dm_terminals c') = (om_find (dm_terminals c))(t \<mapsto> term_asked type (ucast (cr_value r)) term)"
    using assms(4) r(4) m(2)
    by (auto simp: dm_hereIsSAC_def dm_request_def term_asked_def dm_set_def DamaCtrl.access_dama_rbdc_def DamaCtrl.access_dama_vbdc_def)
  then show ?thesis using m(1) r by blast
qed

theorem request_reaches_gateway_witness:
  "\<exists>s a' r c'. da_buildSAC (new_sac 7 0) (demo_agent [new_net_packet (replicate 1000 7)]) = Inr (False, s, a')
    \<and> sac_getRequests (df_data (sac_frame s)) = Inr [r] \<and> cr_close 1 (unat (cr_value r)) 40
    \<and> dm_hereIsSAC (\<lambda>i. i = 0) 7 [r] granted_ctrl = Inr (True, c')"
proof -
  let ?a = "demo_agent [new_net_packet (replicate 1000 7)]"
  have r: "da_rbdc_cr ?a = Inr (Some 40)" by code_simp
  have v: "da_vbdc_cr ?a = Inr (None, ?a)" by (simp add: da_vbdc_cr_def demo_agent_def)
  obtain s a' where s: "da_buildSAC (new_sac 7 0) ?a = Inr (False, s, a')"
    using r v by (simp add: da_buildSAC_def da_record_rbdc_def Let_def demo_agent_def)
  obtain tm where t: "om_find (dm_terminals granted_ctrl) 7 = Some tm"
    by (simp add: granted_ctrl_def demo_ctrl_def demo_term_def new_dama_term_def)
  show ?thesis
    using request_reaches_gateway [OF r v s t, of "\<lambda>i. i = 0"] s
    by (auto simp: sac_choice_def cr_error_def DamaCtrl.access_dama_rbdc_def DamaCtrl.access_dama_vbdc_def)
qed

text \<open>An agent with VBDC and without RBDC: what every event keeps.\<close>

definition vbdc_only :: "'e dama_agent \<Rightarrow> bool" where
  "vbdc_only a \<longleftrightarrow> \<not> da_rbdc_enabled a \<and> da_vbdc_enabled a \<and> da_buffer a = None"

lemma enable_vbdc_only:
  assumes "fi_access_type ` set fs \<subseteq> {DvbFifo.access_dama_cra, DvbFifo.access_dama_vbdc, access_saloha}"
  shows "da_enable fs (r, v) = (True, r, v \<or> DvbFifo.access_dama_vbdc \<in> fi_access_type ` set fs)"
  using assms
  by (induction fs arbitrary: v)
    (auto simp: DvbFifo.access_dama_cra_def DvbFifo.access_dama_rbdc_def DvbFifo.access_dama_vbdc_def access_saloha_def)

lemma start_vbdc_only:
  assumes "fi_access_type ` snd ` set fifos \<subseteq> {DvbFifo.access_dama_cra, DvbFifo.access_dama_vbdc, access_saloha}"
    and "DvbFifo.access_dama_vbdc \<in> fi_access_type ` snd ` set fifos"
  shows "\<exists>a. da_start junk tb frame_ms msl sync len fifos = Inr (True, a) \<and> vbdc_only a"
proof -
  have "da_enable (map snd fifos) (False, False) = (True, False, True)"
    using enable_vbdc_only [of "map snd fifos" False False] assms by (simp add: image_image)
  then show ?thesis
    by (simp add: da_start_def da_initParent_def da_init_def new_dama_agent_def rcs_generateUnitConverter_def vbdc_only_def
        Let_def)
qed

lemma vbdc_cr_only:
  assumes "vbdc_only a" "da_vbdc_cr a = Inr (cr, a1)"
  shows "vbdc_only a1"
  using assms by (auto simp: vbdc_only_def da_vbdc_cr_def da_computeVbdcRequest_def Let_def res_bind_Inr split: if_splits)

lemma plan_vbdc_only: "vbdc_only a \<Longrightarrow> vbdc_only (da_plan p a)"
  by (simp add: da_plan_def vbdc_only_def split: option.split)

lemma plans_vbdc_only: "vbdc_only a \<Longrightarrow> vbdc_only (fold (\<lambda>(n, p). da_plan p) tps a)"
  by (induction tps arbitrary: a) (simp_all add: plan_vbdc_only case_prod_beta)

lemma step_vbdc_only:
  assumes "vbdc_only a" "da_step schedule e a = Inr a'"
  shows "vbdc_only a'"
proof (cases e)
  case (AgTtp d)
  have "vbdc_only (a\<lparr>da_allocated_kb := 0\<rparr>)" using assms(1) by (simp add: vbdc_only_def)
  then show ?thesis using assms(2) AgTtp plans_vbdc_only
    by (fastforce simp: da_hereIsTTP_def Let_def res_bind_Inr split: if_splits)
next
  case (AgSac s)
  obtain vbdc a1 where v: "da_vbdc_cr a = Inr (vbdc, a1)" "vbdc_only a1"
    using assms(2) AgSac vbdc_cr_only [OF assms(1)] by (auto simp: da_buildSAC_def res_bind_Inr)
  then show ?thesis using assms AgSac
    by (auto simp: da_buildSAC_def da_rbdc_cr_def da_record_rbdc_def vbdc_only_def res_bind_Inr split: if_splits)
qed (use assms in \<open>auto simp: vbdc_only_def da_hereIsLogonResp_def da_hereIsSOF_def da_parent_hereIsSOF_def
    da_processOnFrameTick_def da_returnSchedule_def Let_def res_bind_Inr split: if_splits\<close>)

lemma run_vbdc_only: "vbdc_only a \<Longrightarrow> da_run schedule es a = Inr a' \<Longrightarrow> vbdc_only a'"
  unfolding da_run_def by (induction es arbitrary: a) (auto simp: res_bind_Inr dest: step_vbdc_only)

text \<open>The volume that is asked for: at least one kilobit as soon as there is a bit.\<close>

lemma vbdc_need:
  fixes w :: u32
  assumes "unat w \<le> 65535000"
  obtains k :: u16 where "ceil_uint (f64 (rat_of_word w / 1000)) = Inr k" "k = 0 \<longleftrightarrow> w = 0"
proof -
  define x :: rat where "x = rat_of_word w / 1000"
  define n where "n = unat w"
  have n: "n \<le> 65535000" "w = 0 \<longleftrightarrow> n = 0" using assms by (simp_all add: n_def unat_eq_zero)
  have xn: "x = of_nat n / 1000" by (simp only: x_def rat_of_word_def n_def)
  have "(of_nat n :: rat) \<le> of_nat 65535000" using n(1) by (simp only: of_nat_le_iff)
  then have x: "0 \<le> x" "x \<le> of_int 65535" unfolding xn by simp_all
  have pos: "x = 0 \<longleftrightarrow> w = 0" unfolding n(2) xn by simp
  have "f64 x \<le> of_int 65535" unfolding f64_def using x by (intro rnd_le) auto
  then have le: "\<lceil>f64 x\<rceil> \<le> 65535" by (simp only: ceiling_le_iff)
  have "0 \<le> f64 x" using x by simp
  then have ge: "0 \<le> \<lceil>f64 x\<rceil>" by linarith
  obtain k :: u16 where k: "ceil_uint (f64 x) = Inr k" "int (unat k) = \<lceil>f64 x\<rceil>"
    using to_uint_ex [where 'a = 16, OF ge] le by auto
  have "\<lceil>f64 x\<rceil> = 0 \<longleftrightarrow> x = 0"
  proof
    assume c: "\<lceil>f64 x\<rceil> = 0"
    have "\<bar>f64 x - x\<bar> \<le> x / 2 ^ 53" using rnd_err [of 53 x] x by (simp add: f64_def)
    moreover have "f64 x \<le> 0" using c by linarith
    ultimately show "x = 0" using x(1) by (simp add: abs_le_iff)
  qed (simp add: f64_def)
  then have "int (unat k) = 0 \<longleftrightarrow> w = 0" by (simp only: k(2) pos)
  then have "k = 0 \<longleftrightarrow> w = 0" by (simp only: of_nat_eq_0_iff unat_eq_zero)
  then show ?thesis using that k(1) unfolding x_def by blast
qed

lemma vbdc_only_buildSAC:
  assumes "vbdc_only a" "unat (da_getMacBufferLength DvbFifo.access_dama_vbdc a) \<le> 65535000"
  shows "if da_getMacBufferLength DvbFifo.access_dama_vbdc a = 0 then \<exists>a'. da_buildSAC s a = Inr (True, s, a')
    else da_buildSAC s a = Inl NullDeref"
proof -
  have mac: "da_getMacBufferLength DvbFifo.access_dama_vbdc (a\<lparr>da_vbdc_credit := 0\<rparr>) = da_getMacBufferLength DvbFifo.access_dama_vbdc a"
    by (simp add: da_getMacBufferLength_def)
  obtain k :: u16 where k: "ceil_uint (f64 (rat_of_word (da_getMacBufferLength DvbFifo.access_dama_vbdc a) / 1000)) = Inr k"
      "k = 0 \<longleftrightarrow> da_getMacBufferLength DvbFifo.access_dama_vbdc a = 0"
    by (rule vbdc_need [OF assms(2)])
  have kb: "checkVbdcRequest (of_int (max 0 (uint k - uint (0 :: u16)))) = checkVbdcRequest k" by simp
  have "da_vbdc_cr a = Inr (if k = 0 then None else Some (checkVbdcRequest k), a\<lparr>da_vbdc_credit := checkVbdcRequest k\<rparr>)"
    using assms(1) k(1) by (auto simp: da_vbdc_cr_def da_computeVbdcRequest_def Let_def vbdc_only_def checkVbdcRequest_def
        C_MAX_VBDC_IN_SAC_def word_gt_0 min_def)
  then show ?thesis using assms(1) k(2)
    by (auto simp: da_buildSAC_def da_rbdc_cr_def da_record_rbdc_def vbdc_only_def)
qed

text \<open>C40: A terminal with VBDC only cannot send a request. A DVB-RCS agent started with FIFOs of CRA, VBDC and Slotted Aloha, one of
  VBDC among them, starts well; then, after any sequence of logon responses, starts of superframes, burst time plans, ticks,
  schedules, capacity requests and changes of its FIFOs that has not crashed it yet, a capacity request is
  empty when the VBDC FIFOs are, and otherwise dereferences a null pointer: \<open>buildSAC\<close> updates the buffer of the last
  RBDC requests, which only exists with RBDC. (At most 65535 kb waiting: more is not representable in the request.)
\<close>

theorem vbdc_only_crashes:
  assumes "fi_access_type ` snd ` set fifos \<subseteq> {DvbFifo.access_dama_cra, DvbFifo.access_dama_vbdc, access_saloha}"
    and "DvbFifo.access_dama_vbdc \<in> fi_access_type ` snd ` set fifos"
  shows "\<exists>a0. da_start junk tb frame_ms msl sync len fifos = Inr (True, a0)
    \<and> (\<forall>es a s. da_run schedule es a0 = Inr a \<and> unat (da_getMacBufferLength DvbFifo.access_dama_vbdc a) \<le> 65535000
        \<longrightarrow> (if da_getMacBufferLength DvbFifo.access_dama_vbdc a = 0 then \<exists>a'. da_buildSAC s a = Inr (True, s, a')
             else da_buildSAC s a = Inl NullDeref))"
proof -
  obtain a0 where a0: "da_start junk tb frame_ms msl sync len fifos = Inr (True, a0)" "vbdc_only a0"
    using start_vbdc_only [OF assms] by blast
  then show ?thesis using run_vbdc_only vbdc_only_buildSAC by blast
qed

theorem vbdc_only_crashes_witness:
  "let f = (demo_fifo [])\<lparr>fi_access_type := DvbFifo.access_dama_vbdc\<rparr>;
     full = [(0, f\<lparr>fi_cur_length_bytes := 1000\<rparr>)]
   in \<exists>a0 a. da_start (demo_agent []) [(1, demo_fmt)] 20 10 10 53 [(0, f)] = Inr (True, a0)
     \<and> da_run rs_schedule [AgSof 1, AgFifos full, AgTick] a0 = Inr a \<and> da_buildSAC (new_sac 7 0) a = Inl NullDeref"
proof -
  define f full where "f = (demo_fifo [])\<lparr>fi_access_type := DvbFifo.access_dama_vbdc\<rparr>"
    and "full = [(0 :: u8, f\<lparr>fi_cur_length_bytes := 1000\<rparr>)]"
  have "fi_access_type ` snd ` set [(0 :: u8, f)] \<subseteq> {DvbFifo.access_dama_cra, DvbFifo.access_dama_vbdc, access_saloha}"
    "DvbFifo.access_dama_vbdc \<in> fi_access_type ` snd ` set [(0 :: u8, f)]" by (simp_all add: f_def)
  from vbdc_only_crashes [OF this, of "demo_agent []" "[(1, demo_fmt)]" 20 10 10 53 rs_schedule]
  obtain a0 where a0: "da_start (demo_agent []) [(1, demo_fmt)] 20 10 10 53 [(0, f)] = Inr (True, a0)"
    and crash: "\<And>es a s. da_run rs_schedule es a0 = Inr a \<Longrightarrow> unat (da_getMacBufferLength DvbFifo.access_dama_vbdc a) \<le> 65535000
      \<Longrightarrow> da_getMacBufferLength DvbFifo.access_dama_vbdc a \<noteq> 0 \<Longrightarrow> da_buildSAC s a = Inl NullDeref" by auto
  obtain a where a: "da_run rs_schedule [AgSof 1, AgFifos full, AgTick] a0 = Inr a" "da_fifos a = full"
    by (simp add: da_run_def da_processOnFrameTick_def)
  have "da_getMacBufferLength DvbFifo.access_dama_vbdc a = 8000"
    by (simp add: da_getMacBufferLength_def a(2) full_def f_def push_bit_eq_mult)
  then show ?thesis using a0 a(1) crash [OF a(1)] unfolding Let_def f_def full_def by auto
qed

end
