(* ===== verification/Spec2Isabelle.thy ===== *)
theory Spec2Isabelle
  imports SalohaTalCorrect SalohaNccRcv DvbFifo UleOverTs MpegFaults MpegReturns
    UnitConverterCorrect FmtCorrect DamaCorrect DamaRbdc DamaState DamaLink
begin

text \<open>
  OpenSAND emulates a satellite network: terminals (ST), a gateway (GW) and a satellite, each a chain
  of blocks (LAN adaptation, encapsulation, DVB, physical layer, satellite carrier). This development
  models the C++ core under \<open>src/opensand-core/src\<close>. Its first subject is the random access of the
  return link, \<open>Slotted Aloha\<close>: a terminal cuts its traffic into packets, sends each of them in several
  replicas on slots drawn at random, keeps it until it is acknowledged and sends it again after a
  time-out; the gateway stores what arrives on each slot, removes the collisions, acknowledges what it
  decodes and rebuilds the PDUs. The second is the encapsulation: ULE packets and MPEG2-TS frames carry the
  packets of the layers above over the link, AAL5 packets cut into ATM cells likewise. The third is the demand
  assignment of the return link: the terminal asks for capacity, the gateway shares what there is and sends a
  plan, the terminal fills its frames with what it was granted.

  \<^bold>\<open>Theories and sources.\<close>

  \<^item> \<open>Prelude\<close>: words, big-endian fields of byte strings, results with faults (\<open>res\<close>: a null pointer, the
    end iterator, a division by zero, an index out of range, a header longer than its data, a loop that
    does not return), folds that may fault. \<open>StdMap\<close>: \<open>std::map\<close> as an ordered association list.
  \<^item> \<open>NetData\<close>, \<open>NetBurst\<close>: \<open>common/NetContainer.cpp\<close>, \<open>NetPacket.cpp\<close>, \<open>NetBurst.cpp\<close>.
  \<^item> \<open>DvbFifo\<close>: \<open>dvb/utils/DvbFifo.cpp\<close> and \<open>MacFifoElement.cpp\<close>, with the statistics.
  \<^item> \<open>SalohaPacket\<close>, \<open>SalohaId\<close>: \<open>SlottedAlohaPacketData.cpp\<close>; the textual identifier of a packet and its
    reading back through an \<open>istringstream\<close>. \<open>SalohaFrame\<close>: \<open>DvbFrame.h\<close>, \<open>SlottedAlohaFrame.cpp\<close>,
    \<open>SlottedAlohaPacketCtrl.cpp\<close>.
  \<^item> \<open>SalohaBackoff\<close>: the three back-off algorithms of \<open>dvb/saloha\<close>.
  \<^item> \<open>SalohaAlgo\<close>, \<open>SalohaAlgoSpec\<close>: \<open>SlottedAlohaAlgoDsa.cpp\<close>, \<open>SlottedAlohaAlgoCrdsa.cpp\<close>.
  \<^item> \<open>SalohaCategory\<close>: \<open>Slot.cpp\<close>, \<open>CarriersGroup.cpp\<close>, \<open>CarriersGroupSaloha.cpp\<close>, \<open>TerminalCategory.h\<close>,
    \<open>TerminalCategorySaloha.cpp\<close>. \<open>TerminalContextSaloha\<close>: the reassembly at the gateway.
  \<^item> \<open>SalohaSlots\<close>, \<open>SalohaTal\<close>, \<open>SalohaTalSpec\<close>, \<open>SalohaTalCorrect\<close>: \<open>SlottedAlohaTal.cpp\<close> on
    \<open>SlottedAloha.cpp\<close>.
  \<^item> \<open>SalohaNcc\<close>, \<open>SalohaNccSpec\<close>, \<open>SalohaNccRcv\<close>: \<open>SlottedAlohaNcc.cpp\<close> and its header.
  \<^item> \<open>EncapPlugin\<close>: \<open>common/EncapPlugin.cpp\<close>, the handler of a packet type (\<open>encap_hdl\<close>) and the contract
    \<open>self_delimiting\<close>. \<open>MpegPacket\<close>, \<open>Mpeg\<close>: \<open>mandatory_plugins/mpeg\<close>, frames, contexts, both directions.
    \<open>MpegRcv\<close> and \<open>MpegDeliver\<close> are the receiver, frame by frame and for a chain of frames with losses,
    \<open>MpegSend\<close> and \<open>MpegLink\<close> the sender, both inside the locale \<open>mpeg_upper\<close>, the contract the carrier asks of
    its upper plugin; \<open>MpegReturns\<close> and \<open>MpegFaults\<close>: termination and defects.
  \<^item> \<open>Ule\<close>, \<open>UleCorrect\<close>: \<open>mandatory_plugins/ule\<close> with the CRC and the extensions. \<open>MpegUle\<close> interprets
    \<open>mpeg_upper\<close> with ULE packets; \<open>UleOverTs\<close> composes the two plugins.
  \<^item> \<open>Atm\<close>, \<open>AtmCells\<close>, \<open>AtmCorrect\<close>: \<open>mandatory_plugins/aal5_atm\<close>, the formats and both directions.

  \<^item> \<open>Rounding\<close>, \<open>UnitConverter\<close>, \<open>UnitConverterCorrect\<close>: \<open>float\<close> and \<open>double\<close> as rounded rationals, and
    \<open>dvb/utils/UnitConverter*.cpp\<close>. \<open>FmtTable\<close>, \<open>FmtCorrect\<close>: \<open>dvb/fmt\<close> and \<open>dvb/utils/FmtGroup.cpp\<close>, the
    MODCOD definitions, tables and groups and the simulated channel of the terminals.
  \<^item> \<open>DamaTerminal\<close>, \<open>DamaCtrl\<close>, \<open>DamaAlloc\<close>: the demand assignment of the gateway, \<open>dvb/dama/DamaCtrl.cpp\<close>,
    \<open>DamaCtrlRcsCommon.cpp\<close>, \<open>DamaCtrlRcs.cpp\<close> and \<open>DamaCtrlRcsLegacy.cpp\<close> with the terminal contexts and
    carriers groups they keep. \<open>DamaGrants\<close> states in the locale \<open>serving\<close> what one pass over the terminals
    of a group promises and \<open>DamaServe\<close> interprets it with the four passes of the code (CRA, RBDC, VBDC,
    FCA); \<open>DamaGroups\<close> and \<open>DamaShare\<close> do the same for a whole group (locale \<open>sharing\<close>); \<open>DamaBooks\<close>,
    \<open>DamaFrame\<close>, \<open>DamaReset\<close> carry the accounts of a superframe over categories and groups;
    \<open>DamaCorrect\<close>, \<open>DamaRbdc\<close> and \<open>DamaState\<close> hold the properties, \<open>DamaDemo\<close> the instances they are
    witnessed at.
  \<^item> \<open>DvbMsg\<close>, \<open>DvbMsgCorrect\<close>: the messages between them, \<open>Sof.cpp\<close>, \<open>Logon.cpp\<close>, \<open>Logoff.cpp\<close>, \<open>Sac.cpp\<close>
    (capacity requests) and \<open>Ttp.cpp\<close> (burst time plans), as the bytes of \<open>OpenSandFrames.h\<close>.
  \<^item> \<open>DvbRcs\<close>: \<open>DvbRcsFrame.cpp\<close>, the schedulers \<open>ReturnSchedulingRcs*.cpp\<close> of the terminal and
    \<open>UplinkSchedulingRcs*.cpp\<close> of the gateway, the reception \<open>DvbRcsStd.cpp\<close> and the switch
    \<open>GenericSwitch.cpp\<close>. \<open>CircularBuffer\<close>, \<open>DamaAgent\<close>: the agent of the terminal, \<open>DamaAgent.cpp\<close>,
    \<open>DamaAgentRcsCommon.cpp\<close>, \<open>DamaAgentRcs.cpp\<close>, \<open>DamaAgentRcs2.cpp\<close> and their legacy algorithms. \<open>RcsReturn\<close>
    proves the return link scheduler against a greedy server and, inside \<open>self_delimiting\<close>, the reception of its
    frames; \<open>RcsLink\<close> interprets it with ATM cells and composes the plan, the agent, the scheduler and
    the reception; \<open>DamaLink\<close> composes the agent's requests with the controller.

  \<^bold>\<open>How the state is modelled.\<close> A class is a record whose fields are the members; a method is a function
  on the record. Objects that the code allocates and deletes carry an address; each component logs the
  addresses it deletes, so that "every packet is stored once or deleted once" is a statement about
  multisets. An operation that may dereference a null pointer or the end of a container, divide by zero
  or read past a buffer returns \<open>Inl\<close> of that fault. Machine integers keep their width; the product of
  two \<open>int\<close> in the back-off wraps where C++ leaves it undefined, which its theorems exclude. The draws of
  \<open>rand()\<close> are a stream of naturals at most \<open>RAND_MAX\<close>; what uninitialised memory holds is a parameter
  (\<open>junk\<close>, \<open>old\<close>). The encapsulation plugin, a virtual interface, is the record \<open>pkt_hdl\<close> of the functions
  the gateway calls. \<open>std::sort\<close> of the gateway is a parameter \<open>srt\<close>, as its comparator is no strict weak
  order.

  \<^bold>\<open>What the theorems show.\<close> The terminal's schedule keeps its invariant (every packet in one place, none
  lost or deleted twice, the retransmissions bounded) and puts on the air frames that a receiver cuts
  into the copies sent; the slots of one schedule are disjoint in time. The gateway's reception stores or
  deletes each packet; the collision removal accepts exactly what interference cancellation can decode,
  and deletes nothing that is still referenced; the schedule of a category refines an abstract gateway
  made of one reassembly machine per terminal. Control frames carry the acknowledgements back; an
  acknowledgement removes the packet it names. The formats round trip. A session of the MPEG sender, whatever the bursts, the
  flushes, the packing threshold and the mix of PIDs, is delivered whole and in order per PID; with losses short
  of the continuity counter's period a subsequence is delivered and no packet is a mixture of two. ULE packets
  round trip, alone and over MPEG, and the table of the CRC is polynomial division. The FIFO is a queue whose books
  balance. A superframe of the DAMA controller never gives the terminals of a carriers group more than the
  capacity the group was refilled with, RBDC shares what is short in proportion to the requests, and the
  registers of the controller agree with its categories after any sequence of its operations. The rate
  conversions round up and come back, the MODCOD chosen for a C/N is the best supported one. A capacity request reaches
  the controller up to the granularity of its coding; the plan the controller sends becomes, at the terminal it is
  for, frames that hold what a greedy server sends with that grant, and the gateway cuts those frames into
  the very ATM cells the plugin of the terminal made, from which the AAL5 packets come out whole, also after losses. An agent
  without RBDC crashes at its first request, whatever has happened to it since its constructor. Several theorems state the code's behaviour where it departs from its intent; they are listed
  in the findings of the manifest.

  \<^bold>\<open>Bounds and fuel.\<close> \<open>dec_loop\<close> (the SNDUs of a frame) has the length of the payload plus 2 as fuel and
  \<open>dec_restart\<close> (the jumps to \<open>restart\<close>) has 3; \<open>deencap_terminates\<close> proves that neither is ever spent. The
  other fuel is that of \<open>draw_slots\<close>, whose loop ends only when enough different
  random slots have come up: \<open>time_slots_disjoint\<close> proves that it has ended within \<open>fuel\<close> draws exactly when
  these hit as many different positions as slots are wanted, and \<open>tal_schedule_correct\<close>, which assumes them among any
  \<open>fuel\<close> draws in a row, that the schedule then returns. All other loops are structural or
  have a measure (\<open>crdsa_loop\<close>: the packets not decoded yet). PDU identifiers are below 65536 where the
  textual identifier is parsed, as the code reads them into 16 bits.

  \<^bold>\<open>Not modelled.\<close> Sockets, threads, timers, configuration files, logs and probes (a probe matters only where
  a null one is dereferenced); the physical layer's attenuation models; the encapsulation plugins that call
  external libraries; the ULE extension by encryption, which the build leaves out. The DVB-RCS2
  controller, the schedulers of the forward link and of SCPC, the IP and Ethernet plugins and the event loops of the
  blocks are left out too.
\<close>

end
